(* ===== verification/Prelude.thy ===== *)
theory Prelude
  imports Main "HOL-Library.List_Lexorder" "HOL-Library.Product_Lexorder" "HOL-Library.Char_ord"
begin

text \<open>
  What the components share: results (an error on the left, a value on the right), loops that may
  not end, ordered maps, the saturating and wrapping integer operations of the source, and facts on
  lists.  Strings are lists of characters (the bytes of the UTF-8 text) and compare bytewise; a tuple
  key compares lexicographically.
\<close>

named_theorems wf_simps \<open>well-formedness predicates of the model's states\<close>
named_theorems step_simps \<open>one step of a loop of the model\<close>

section \<open>Results\<close>

definition bind_res :: "'e + 'a \<Rightarrow> ('a \<Rightarrow> 'e + 'b) \<Rightarrow> 'e + 'b" where
  "bind_res r f = (case r of Inl e \<Rightarrow> Inl e | Inr x \<Rightarrow> f x)"

lemma bind_res_simps [simp]: "bind_res (Inl e) f = Inl e" "bind_res (Inr x) f = f x"
  by (simp_all add: bind_res_def)

lemma bind_res_Inr: "bind_res r f = Inr y \<longleftrightarrow> (\<exists>x. r = Inr x \<and> f x = Inr y)"
  by (cases r) auto

lemma if_Inr: "(if b then Inl e else r) = Inr x \<longleftrightarrow> \<not> b \<and> r = Inr x"
  by simp

fun fold_res :: "('x \<Rightarrow> 's \<Rightarrow> 'e + 's) \<Rightarrow> 'x list \<Rightarrow> 's \<Rightarrow> 'e + 's" where
  "fold_res f [] s = Inr s"
| "fold_res f (x # xs) s = bind_res (f x s) (fold_res f xs)"

lemma fold_res_append: "fold_res f (xs @ ys) s = bind_res (fold_res f xs s) (fold_res f ys)"
  by (induction xs arbitrary: s) (auto simp: bind_res_def split: sum.splits)

lemma fold_res_inv:
  assumes "\<And>x s s'. x \<in> set xs \<Longrightarrow> I s \<Longrightarrow> f x s = Inr s' \<Longrightarrow> I s'"
    and "I s" "fold_res f xs s = Inr s'"
  shows "I s'"
  using assms
proof (induction xs arbitrary: s)
  case (Cons x xs)
  then obtain s1 where "f x s = Inr s1" "fold_res f xs s1 = Inr s'" by (auto simp: bind_res_Inr)
  with Cons show ?case by (metis list.set_intros)
qed simp

text \<open>\<open>iter().map(f).collect::<Result<Vec<_>>>()\<close>: the first error stops it.\<close>

fun map_res :: "('x \<Rightarrow> 'e + 'y) \<Rightarrow> 'x list \<Rightarrow> 'e + 'y list" where
  "map_res f [] = Inr []"
| "map_res f (x # xs) = bind_res (f x) (\<lambda>y. bind_res (map_res f xs) (\<lambda>ys. Inr (y # ys)))"

lemma map_res_Inr: "map_res f xs = Inr ys \<longleftrightarrow> map f xs = map Inr ys"
  by (induction xs arbitrary: ys) (auto simp: bind_res_Inr Cons_eq_map_conv)

lemma map_res_rel: "map_res f xs = Inr ys \<longleftrightarrow> list_all2 (\<lambda>x y. f x = Inr y) xs ys"
  by (induction xs arbitrary: ys) (auto simp: bind_res_Inr list_all2_Cons1)

lemma map_res_set: "map_res f xs = Inr ys \<Longrightarrow> y \<in> set ys \<Longrightarrow> \<exists>x \<in> set xs. f x = Inr y"
  by (induction xs arbitrary: ys) (auto simp: bind_res_Inr)

section \<open>Loops\<close>

text \<open>A loop of the source: one iteration either fails, or changes the state and says whether to go
  on.  \<open>None\<close> is a loop that never ends.\<close>

partial_function (option) loop_res :: "('s \<Rightarrow> 'e + 's \<times> bool) \<Rightarrow> 's \<Rightarrow> ('e + 's) option" where
  "loop_res step s =
     (case step s of
        Inl e \<Rightarrow> Some (Inl e)
      | Inr r \<Rightarrow> if snd r then loop_res step (fst r) else Some (Inr (fst r)))"

lemma loop_res_step: "step s = Inr (s', True) \<Longrightarrow> loop_res step s = loop_res step s'"
  and loop_res_stop: "step s = Inr (s', False) \<Longrightarrow> loop_res step s = Some (Inr s')"
  and loop_res_fail: "step s = Inl e \<Longrightarrow> loop_res step s = Some (Inl e)"
  by (subst loop_res.simps, simp)+

text \<open>Total correctness: an invariant kept by every iteration, a measure it decreases.\<close>

lemma loop_res_total:
  assumes "I s"
    and "\<And>s e. I s \<Longrightarrow> step s = Inl e \<Longrightarrow> Q (Inl e)"
    and "\<And>s s'. I s \<Longrightarrow> step s = Inr (s', False) \<Longrightarrow> Q (Inr s')"
    and "\<And>s s'. I s \<Longrightarrow> step s = Inr (s', True) \<Longrightarrow> I s' \<and> (m s' :: nat) < m s"
  shows "\<exists>r. loop_res step s = Some r \<and> Q r"
  using assms(1)
proof (induction "m s" arbitrary: s rule: less_induct)
  case less
  show ?case
  proof (cases "step s")
    case (Inl e)
    then show ?thesis using assms(2) less.prems by (simp add: loop_res_fail)
  next
    case (Inr r)
    then obtain s' c where r: "step s = Inr (s', c)" by (cases r) simp
    show ?thesis
    proof (cases c)
      case True
      then show ?thesis using r assms(4) [OF less.prems, of s'] less.hyps [of s'] by (simp add: loop_res_step)
    next
      case False
      then show ?thesis using r assms(3) less.prems by (simp add: loop_res_stop)
    qed
  qed
qed

section \<open>Ordered maps\<close>

text \<open>\<open>BTreeMap\<close>, where the source iterates over one: a list of entries in increasing key order.  Maps
  that are only looked up are functions to \<open>option\<close>.\<close>

fun bt_insert :: "'k :: linorder \<Rightarrow> 'v \<Rightarrow> ('k \<times> 'v) list \<Rightarrow> ('k \<times> 'v) list" where
  "bt_insert k v [] = [(k, v)]"
| "bt_insert k v ((k', v') # m) =
     (if k < k' then (k, v) # (k', v') # m
      else if k = k' then (k, v) # m
      else (k', v') # bt_insert k v m)"

definition bt_wf :: "('k :: linorder \<times> 'v) list \<Rightarrow> bool" where
  "bt_wf m \<longleftrightarrow> sorted_wrt (<) (map fst m)"

lemma map_of_bt_insert [simp]: "map_of (bt_insert k v m) = (map_of m)(k \<mapsto> v)"
  by (induction k v m rule: bt_insert.induct) (auto simp: fun_eq_iff)

lemma set_keys_bt_insert: "fst ` set (bt_insert k v m) = insert k (fst ` set m)"
  by (induction k v m rule: bt_insert.induct) auto

lemma bt_wf_insert [simp]: "bt_wf m \<Longrightarrow> bt_wf (bt_insert k v m)"
proof (induction k v m rule: bt_insert.induct)
  case (2 k v k' v' m)
  then show ?case using set_keys_bt_insert [of k v m] by (auto simp: bt_wf_def image_iff)
qed (simp add: bt_wf_def)

lemma bt_wf_Nil [simp]: "bt_wf []"
  by (simp add: bt_wf_def)

lemma bt_wf_map_of: "bt_wf m \<Longrightarrow> map_of m k = Some v \<longleftrightarrow> (k, v) \<in> set m"
  by (auto simp: bt_wf_def strict_sorted_iff map_of_eq_Some_iff)

section \<open>Machine integers\<close>

text \<open>Timestamps are \<open>i64\<close>: integers here, with the bounds written out where the source saturates.\<close>

definition i64_max :: int where "i64_max = 2 ^ 63 - 1"
definition i64_min :: int where "i64_min = - (2 ^ 63)"

definition clamp_i64 :: "int \<Rightarrow> int" where
  "clamp_i64 x = max i64_min (min i64_max x)"

definition saturating_add_i64 :: "int \<Rightarrow> int \<Rightarrow> int" where
  "saturating_add_i64 a b = clamp_i64 (a + b)"

definition saturating_sub_i64 :: "int \<Rightarrow> int \<Rightarrow> int" where
  "saturating_sub_i64 a b = clamp_i64 (a - b)"

definition saturating_mul_i64 :: "int \<Rightarrow> int \<Rightarrow> int" where
  "saturating_mul_i64 a b = clamp_i64 (a * b)"

definition is_i64 :: "int \<Rightarrow> bool" where
  "is_i64 x \<longleftrightarrow> i64_min \<le> x \<and> x \<le> i64_max"

definition wrap_i64 :: "int \<Rightarrow> int" where
  "wrap_i64 x = (x + 2 ^ 63) mod 2 ^ 64 - 2 ^ 63"

lemma wrap_i64_id [simp]: "is_i64 x \<Longrightarrow> wrap_i64 x = x"
  unfolding wrap_i64_def is_i64_def i64_min_def i64_max_def by (subst mod_pos_pos_trivial) auto

lemma is_i64_wrap [simp]: "is_i64 (wrap_i64 x)"
proof -
  have "0 \<le> (x + 2 ^ 63) mod 2 ^ 64" by simp
  moreover have "(x + 2 ^ 63) mod 2 ^ 64 < 2 * 2 ^ 63" by simp
  ultimately show ?thesis unfolding wrap_i64_def is_i64_def i64_min_def i64_max_def by linarith
qed

lemma clamp_i64_id: "is_i64 x \<Longrightarrow> clamp_i64 x = x"
  by (simp add: is_i64_def clamp_i64_def)

section \<open>Sides\<close>

text \<open>\<open>enum Side { Buy, Sell }\<close>, declared alike by \<open>fifo_pnl.rs\<close> and by \<open>intra_order_match.rs\<close>;
  the latter derives \<open>Ord\<close>, in declaration order.\<close>

datatype side = Buy | Sell

instantiation side :: linorder
begin

fun less_eq_side :: "side \<Rightarrow> side \<Rightarrow> bool" where
  "less_eq_side Buy _ = True"
| "less_eq_side Sell s = (s = Sell)"

definition less_side :: "side \<Rightarrow> side \<Rightarrow> bool" where
  "less_side s t \<longleftrightarrow> s = Buy \<and> t = Sell"

instance
proof
  fix x y z :: side
  show "(x < y) = (x \<le> y \<and> \<not> y \<le> x)" by (cases x; cases y) (auto simp: less_side_def)
  show "x \<le> x" by (cases x) auto
  show "x \<le> y \<Longrightarrow> y \<le> z \<Longrightarrow> x \<le> z" by (cases x; cases y; cases z) auto
  show "x \<le> y \<Longrightarrow> y \<le> x \<Longrightarrow> x = y" by (cases x; cases y) auto
  show "x \<le> y \<or> y \<le> x" by (cases x; cases y) auto
qed

end

fun opposite :: "side \<Rightarrow> side" where
  "opposite Buy = Sell" | "opposite Sell = Buy"

lemma opposite_opposite [simp]: "opposite (opposite sd) = sd"
  by (cases sd) auto

lemma side_neq [simp]: "(sd \<noteq> sd') = (sd' = opposite sd)" "opposite sd \<noteq> sd" "sd \<noteq> opposite sd"
  by (cases sd; cases sd'; simp)+

section \<open>Strings\<close>

text \<open>\<open>to_ascii_lowercase\<close>, \<open>to_ascii_uppercase\<close> and the ASCII character classes.\<close>

definition ascii_lower :: "char \<Rightarrow> char" where
  "ascii_lower c = (if 65 \<le> (of_char c :: nat) \<and> (of_char c :: nat) \<le> 90 then char_of ((of_char c :: nat) + 32) else c)"

definition ascii_upper :: "char \<Rightarrow> char" where
  "ascii_upper c = (if 97 \<le> (of_char c :: nat) \<and> (of_char c :: nat) \<le> 122 then char_of ((of_char c :: nat) - 32) else c)"

definition to_ascii_lowercase :: "string \<Rightarrow> string" where
  "to_ascii_lowercase s = map ascii_lower s"

definition to_ascii_uppercase :: "string \<Rightarrow> string" where
  "to_ascii_uppercase s = map ascii_upper s"

definition is_ascii_digit :: "char \<Rightarrow> bool" where
  "is_ascii_digit c \<longleftrightarrow> 48 \<le> (of_char c :: nat) \<and> (of_char c :: nat) \<le> 57"

definition is_ascii_alphabetic :: "char \<Rightarrow> bool" where
  "is_ascii_alphabetic c \<longleftrightarrow>
     (65 \<le> (of_char c :: nat) \<and> (of_char c :: nat) \<le> 90) \<or> (97 \<le> (of_char c :: nat) \<and> (of_char c :: nat) \<le> 122)"

definition is_ascii_alphanumeric :: "char \<Rightarrow> bool" where
  "is_ascii_alphanumeric c \<longleftrightarrow> is_ascii_alphabetic c \<or> is_ascii_digit c"

text \<open>\<open>str::trim\<close> on ASCII text, and \<open>str::parse\<close> for integers: an optional sign, then digits, within range.\<close>

definition is_ascii_space :: "char \<Rightarrow> bool" where
  "is_ascii_space c \<longleftrightarrow> (of_char c :: nat) = 32 \<or> (9 \<le> (of_char c :: nat) \<and> (of_char c :: nat) \<le> 13)"

definition str_trim :: "string \<Rightarrow> string" where
  "str_trim s = rev (dropWhile is_ascii_space (rev (dropWhile is_ascii_space s)))"

definition digit_val :: "char \<Rightarrow> nat" where
  "digit_val c = (of_char c :: nat) - 48"

definition parse_digits :: "string \<Rightarrow> nat option" where
  "parse_digits s = (if s \<noteq> [] \<and> list_all is_ascii_digit s then Some (foldl (\<lambda>n c. 10 * n + digit_val c) 0 s) else None)"

definition strip_plus :: "string \<Rightarrow> string" where
  "strip_plus s = (case s of [] \<Rightarrow> [] | c # r \<Rightarrow> if c = CHR ''+'' then r else s)"

definition parse_unsigned :: "nat \<Rightarrow> string \<Rightarrow> nat option" where
  "parse_unsigned limit s =
     (case parse_digits (strip_plus s) of None \<Rightarrow> None | Some n \<Rightarrow> if n \<le> limit then Some n else None)"

definition parse_i64 :: "string \<Rightarrow> int option" where
  "parse_i64 s =
     (case s of
        [] \<Rightarrow> None
      | c # r \<Rightarrow>
          (if c = CHR ''-''
           then (case parse_digits r of None \<Rightarrow> None | Some n \<Rightarrow> if is_i64 (- int n) then Some (- int n) else None)
           else (case parse_digits (strip_plus s) of None \<Rightarrow> None | Some n \<Rightarrow> if is_i64 (int n) then Some (int n) else None)))"

section \<open>Lists\<close>

text \<open>\<open>Vec::dedup\<close>, \<open>dedup_by_key\<close>: keep the first of each run of equal keys.\<close>

fun dedup_key :: "('a \<Rightarrow> 'k) \<Rightarrow> 'a list \<Rightarrow> 'a list" where
  "dedup_key k [] = []"
| "dedup_key k [x] = [x]"
| "dedup_key k (x # y # xs) = (if k x = k y then dedup_key k (x # xs) else x # dedup_key k (y # xs))"

lemma set_dedup_key: "set (dedup_key k xs) \<subseteq> set xs"
  by (induction k xs rule: dedup_key.induct) auto

lemma length_dedup_key: "length (dedup_key k xs) \<le> length xs"
  by (induction k xs rule: dedup_key.induct) auto

lemma set_map_dedup_key: "k ` set (dedup_key k xs) = k ` set xs"
  by (induction k xs rule: dedup_key.induct) auto

lemma hd_dedup_key: "xs \<noteq> [] \<Longrightarrow> dedup_key k xs \<noteq> [] \<and> hd (dedup_key k xs) = hd xs"
  by (induction k xs rule: dedup_key.induct) auto

lemma sorted_dedup_key:
  "sorted (map k xs) \<Longrightarrow> sorted_wrt (<) (map (k :: _ \<Rightarrow> 'k :: linorder) (dedup_key k xs))"
proof (induction k xs rule: dedup_key.induct)
  case (3 k x y xs)
  show ?case
  proof (cases "k x = k y")
    case True
    then show ?thesis using 3 by simp
  next
    case False
    then have lt: "k x < k y" using 3 by auto
    have "\<forall>z \<in> set (dedup_key k (y # xs)). k y \<le> k z"
      using 3 set_dedup_key [of k "y # xs"] by auto
    then show ?thesis using 3 False lt by fastforce
  qed
qed auto

text \<open>The first element of a list with the least key, as \<open>Iterator::min_by_key\<close> returns it.\<close>

fun min_by_key :: "('a \<Rightarrow> 'k :: linorder) \<Rightarrow> 'a list \<Rightarrow> 'a option" where
  "min_by_key k [] = None"
| "min_by_key k (x # xs) =
     (case min_by_key k xs of None \<Rightarrow> Some x | Some y \<Rightarrow> Some (if k x \<le> k y then x else y))"

lemma min_by_key_None [simp]: "min_by_key k xs = None \<longleftrightarrow> xs = []"
  by (cases xs) (auto split: option.splits)

lemma min_by_key_SomeD:
  "min_by_key k xs = Some x \<Longrightarrow> x \<in> set xs \<and> (\<forall>y \<in> set xs. k x \<le> k y)"
  by (induction xs arbitrary: x) (fastforce split: option.splits if_splits)+

lemma min_by_key_first:
  assumes "min_by_key k xs = Some x" shows "\<exists>ys zs. xs = ys @ x # zs \<and> (\<forall>y \<in> set ys. k x < k y)"
  using assms
proof (induction xs arbitrary: x)
  case (Cons a xs)
  show ?case
  proof (cases "min_by_key k xs")
    case None
    then show ?thesis using Cons.prems by (intro exI [of _ "[]"]) auto
  next
    case (Some y)
    show ?thesis
    proof (cases "k a \<le> k y")
      case True
      then show ?thesis using Some Cons.prems by (intro exI [of _ "[]"] exI [of _ xs]) auto
    next
      case False
      then obtain ys zs where "xs = ys @ y # zs" "\<forall>u \<in> set ys. k y < k u" using Cons.IH [OF Some] by auto
      then show ?thesis using Some Cons.prems False by (intro exI [of _ "a # ys"] exI [of _ zs]) auto
    qed
  qed
qed simp

end
