(* ===== verification/F64.thy ===== *)
theory F64
  imports Complex_Main "HOL-Library.Log_Nat"
begin

text \<open>
  The 64-bit floating-point numbers of the program (Rust's \<open>f64\<close>, IEEE 754 binary64) and the
  operations the source applies to them.  A finite value is the rational it denotes; every
  arithmetic operation computes exactly and then rounds to the nearest representable value, ties
  to even, with gradual underflow and overflow to infinity.  NaN and the infinities propagate and
  compare as IEEE 754 says.  The sign of a zero is not represented (the program never inspects it,
  and divides only by values it has tested to be nonzero or that are sums with a positive zero).
\<close>

section \<open>Rounding to binary64\<close>

text \<open>The exponent of the leading binary digit of \<open>|q|\<close>, computed from the lengths of the
  numerator and the denominator.\<close>

definition ilog2_rat :: "rat \<Rightarrow> int" where
  "ilog2_rat q =
     (let (n, d) = quotient_of \<bar>q\<bar>;
          k = bitlen n - bitlen d
      in if (2::rat) powi k \<le> \<bar>q\<bar> then k else k - 1)"

text \<open>The nearest integer; a tie goes to the even neighbour.\<close>

definition round_half_even :: "rat \<Rightarrow> int" where
  "round_half_even q =
     (let f = \<lfloor>q\<rfloor>; r = q - of_int f
      in if r < 1/2 then f else if r > 1/2 then f + 1 else if even f then f else f + 1)"

text \<open>The exponent of the last of the 53 significant bits, bounded below by the spacing
  \<open>2 ^ -1074\<close> of the subnormal numbers.\<close>

definition fexp :: "rat \<Rightarrow> int" where
  "fexp q = max (ilog2_rat q - 52) (- 1074)"

definition rnd_val :: "rat \<Rightarrow> rat" where
  "rnd_val q = of_int (round_half_even (q / 2 powi fexp q)) * 2 powi fexp q"

datatype f64 = Fin rat | Inf bool | NaN \<comment> \<open>\<open>Inf True\<close> is minus infinity\<close>

definition f64_limit :: rat where
  "f64_limit = 2 ^ 1024"

definition rnd :: "rat \<Rightarrow> f64" where
  "rnd q = (let r = rnd_val q in if f64_limit \<le> \<bar>r\<bar> then Inf (q < 0) else Fin r)"

subsection \<open>Round-half-even\<close>

lemma round_half_even_of_int [simp]: "round_half_even (of_int k) = k"
  by (simp add: round_half_even_def)

lemma round_half_even_bounds:
  "of_int (round_half_even q) \<le> q + 1/2 \<and> q - 1/2 \<le> of_int (round_half_even q)"
proof -
  have f: "of_int \<lfloor>q\<rfloor> \<le> q" "q < of_int \<lfloor>q\<rfloor> + 1" by linarith+
  consider "q - of_int \<lfloor>q\<rfloor> < 1/2" | "q - of_int \<lfloor>q\<rfloor> > 1/2" | "q - of_int \<lfloor>q\<rfloor> = 1/2" by linarith
  then show ?thesis
    by cases (use f in \<open>simp_all add: round_half_even_def Let_def\<close>, linarith+)
qed

lemma round_half_even_mono:
  assumes "x \<le> y" shows "round_half_even x \<le> round_half_even y"
proof (cases "\<lfloor>x\<rfloor> = \<lfloor>y\<rfloor>")
  case True
  with assms show ?thesis by (auto simp: round_half_even_def Let_def)
next
  case False
  with assms have lt: "\<lfloor>x\<rfloor> + 1 \<le> \<lfloor>y\<rfloor>" using floor_mono [of x y] by linarith
  have "round_half_even x \<le> \<lfloor>x\<rfloor> + 1" by (simp add: round_half_even_def Let_def)
  moreover have "\<lfloor>y\<rfloor> \<le> round_half_even y" by (simp add: round_half_even_def Let_def)
  ultimately show ?thesis using lt by linarith
qed

lemma round_half_even_neg: "round_half_even (- x) = - round_half_even x"
proof (cases "x = of_int \<lfloor>x\<rfloor>")
  case True
  then have "round_half_even (- x) = round_half_even (of_int (- \<lfloor>x\<rfloor>))" by simp
  also have "\<dots> = - \<lfloor>x\<rfloor>" by (simp only: round_half_even_of_int)
  also have "\<lfloor>x\<rfloor> = round_half_even x" using True round_half_even_of_int by metis
  finally show ?thesis .
next
  case False
  have fl: "of_int \<lfloor>x\<rfloor> < x" "x < of_int \<lfloor>x\<rfloor> + 1" using False by linarith+
  have neg: "\<lfloor>- x\<rfloor> = - \<lfloor>x\<rfloor> - 1"
    by (rule floor_unique) (use fl in auto)
  have half: "- x - of_int \<lfloor>- x\<rfloor> = 1 - (x - of_int \<lfloor>x\<rfloor>)" using neg by simp
  consider "x - of_int \<lfloor>x\<rfloor> < 1/2" | "x - of_int \<lfloor>x\<rfloor> > 1/2" | "x - of_int \<lfloor>x\<rfloor> = 1/2" by linarith
  then show ?thesis
  proof cases
    case 1
    then have "\<not> - x - of_int \<lfloor>- x\<rfloor> < 1/2" "- x - of_int \<lfloor>- x\<rfloor> > 1/2" using half by linarith+
    then show ?thesis using 1 neg by (simp add: round_half_even_def Let_def)
  next
    case 2
    then have "- x - of_int \<lfloor>- x\<rfloor> < 1/2" "\<not> x - of_int \<lfloor>x\<rfloor> < 1/2" using half by linarith+
    then show ?thesis using 2 neg by (simp add: round_half_even_def Let_def)
  next
    case 3
    then have "- x - of_int \<lfloor>- x\<rfloor> = 1/2" using half by linarith
    then show ?thesis using 3 neg unfolding round_half_even_def Let_def by simp
  qed
qed

subsection \<open>The binary exponent\<close>

lemma pow2_mono: "a \<le> b \<Longrightarrow> (2::rat) powi a \<le> 2 powi b"
  by (rule power_int_increasing) auto

lemma pow2_strict: "(2::rat) powi a < 2 powi b \<longleftrightarrow> a < b"
  using power_int_strict_increasing [of a b "2::rat"] pow2_mono [of b a] by force

lemma pow2_pos [simp]: "0 < (2::rat) powi a"
  by (rule zero_less_power_int) simp

lemma pow2_add: "(2::rat) powi (a + b) = 2 powi a * 2 powi b"
  by (rule power_int_add) simp

lemma pow2_diff: "(2::rat) powi (a - b) = 2 powi a / 2 powi b"
  by (simp add: power_int_diff)

lemma pow2_nat: "0 \<le> a \<Longrightarrow> (2::rat) powi a = of_int (2 ^ nat a)"
  by (simp add: power_int_def)

lemma bitlen_pow2:
  assumes "0 < n" shows "2 powi (bitlen n - 1) \<le> (of_int n :: rat)" "(of_int n :: rat) < 2 powi bitlen n"
proof -
  have b: "2 ^ nat (bitlen n - 1) \<le> n" "n < 2 ^ nat (bitlen n)"
    using bitlen_bounds [OF assms] by auto
  have "1 \<le> bitlen n" using assms bitlen_nonneg [of n] bitlen_eq_zero_iff [of n] by linarith
  then show "2 powi (bitlen n - 1) \<le> (of_int n :: rat)" "(of_int n :: rat) < 2 powi bitlen n"
    using b by (simp_all add: pow2_nat del: of_int_power)
qed

lemma ilog2_rat_bounds:
  assumes "q \<noteq> 0"
  shows "2 powi (ilog2_rat q) \<le> \<bar>q\<bar>" "\<bar>q\<bar> < 2 powi (ilog2_rat q + 1)"
proof -
  obtain n d where nd: "quotient_of \<bar>q\<bar> = (n, d)" by fastforce
  have d: "0 < d" using quotient_of_denom_pos [OF nd] .
  have q: "\<bar>q\<bar> = of_int n / of_int d" using quotient_of_div [OF nd] .
  have n: "0 < n" using assms d q
    by (metis abs_le_zero_iff divide_le_0_iff linorder_not_le of_int_le_0_iff of_int_0_le_iff order_less_imp_le)
  let ?k = "bitlen n - bitlen d"
  note bn = bitlen_pow2 [OF n] and bd = bitlen_pow2 [OF d]
  have up: "\<bar>q\<bar> < 2 powi (?k + 1)"
  proof -
    have "\<bar>q\<bar> < 2 powi bitlen n / 2 powi (bitlen d - 1)"
      unfolding q by (rule frac_less) (use bn bd n d in auto)
    then show ?thesis by (simp add: pow2_diff pow2_add algebra_simps)
  qed
  have lo: "2 powi (?k - 1) \<le> \<bar>q\<bar>"
  proof -
    have "2 powi (bitlen n - 1) / 2 powi bitlen d \<le> \<bar>q\<bar>"
      unfolding q by (rule frac_le) (use bn bd n d in auto)
    moreover have "2 powi (bitlen n - 1) / 2 powi bitlen d = (2::rat) powi (?k - 1)"
      by (simp add: pow2_diff [symmetric] algebra_simps)
    ultimately show ?thesis by simp
  qed
  show "2 powi (ilog2_rat q) \<le> \<bar>q\<bar>" "\<bar>q\<bar> < 2 powi (ilog2_rat q + 1)"
    using up lo by (simp_all add: ilog2_rat_def nd Let_def)
qed

lemma ilog2_rat_less: "q \<noteq> 0 \<Longrightarrow> \<bar>q\<bar> < 2 powi k \<Longrightarrow> ilog2_rat q < k"
  using ilog2_rat_bounds(1) [of q] pow2_strict by (metis order_le_less_trans)

lemma ilog2_rat_ge: "q \<noteq> 0 \<Longrightarrow> 2 powi k \<le> \<bar>q\<bar> \<Longrightarrow> k \<le> ilog2_rat q"
  using ilog2_rat_bounds(2) [of q] pow2_strict [of k "ilog2_rat q + 1"] by fastforce

lemma ilog2_rat_mono:
  assumes "x \<noteq> 0" "\<bar>x\<bar> \<le> \<bar>y\<bar>" shows "ilog2_rat x \<le> ilog2_rat y"
  using ilog2_rat_bounds(1) [OF assms(1)] assms by (intro ilog2_rat_ge) auto

lemma ilog2_rat_neg [simp]: "ilog2_rat (- q) = ilog2_rat q"
  by (simp add: ilog2_rat_def)

lemma fexp_neg [simp]: "fexp (- q) = fexp q"
  by (simp add: fexp_def)

lemma fexp_mono: "x \<noteq> 0 \<Longrightarrow> \<bar>x\<bar> \<le> \<bar>y\<bar> \<Longrightarrow> fexp x \<le> fexp y"
  using ilog2_rat_mono [of x y] by (simp add: fexp_def)

subsection \<open>Properties of rounding\<close>

lemma rnd_val_0 [simp]: "rnd_val 0 = 0"
  by (simp add: rnd_val_def round_half_even_def)

lemma rnd_val_neg: "rnd_val (- q) = - rnd_val q"
  by (simp add: rnd_val_def round_half_even_neg)

lemma rnd_val_grid:
  assumes "e \<le> k" "fexp q = e" "q / 2 powi e = of_int m" shows "rnd_val q = q"
proof -
  have "rnd_val q = of_int m * 2 powi e" by (simp add: rnd_val_def assms)
  then show ?thesis using assms(3) [symmetric] by simp
qed

text \<open>Every multiple of a power of two with at most 53 significant bits is its own rounding.\<close>

lemma rnd_val_exact:
  assumes m: "\<bar>m\<bar> \<le> 2 ^ 53" and e: "- 1074 \<le> e"
  shows "rnd_val (of_int m * 2 powi e) = of_int m * 2 powi e"
proof (cases "m = 0")
  case False
  let ?q = "of_int m * 2 powi e :: rat"
  have q0: "?q \<noteq> 0" using False by simp
  have abs: "\<bar>?q\<bar> = of_int \<bar>m\<bar> * 2 powi e" by (simp add: abs_mult)
  show ?thesis
  proof (cases "\<bar>m\<bar> = 2 ^ 53")
    case True
    have qe: "\<bar>?q\<bar> = 2 powi (53 + e)" unfolding abs True by (simp add: pow2_add)
    have "53 + e \<le> ilog2_rat ?q" by (rule ilog2_rat_ge [OF q0]) (simp only: qe order_refl)
    moreover have "ilog2_rat ?q < 54 + e"
      by (rule ilog2_rat_less [OF q0]) (simp only: qe pow2_strict)
    ultimately have fe: "fexp ?q = e + 1" using e by (simp add: fexp_def)
    obtain h where h: "m = 2 * h" using True by (metis dvd_triv_left dvdE abs_dvd_iff power_Suc num.distinct even_abs_add_iff even_add even_power dvd_power zero_less_numeral)
    have "?q / 2 powi (e + 1) = of_int h" by (simp add: h pow2_add)
    then show ?thesis using fe rnd_val_grid [of "e + 1" "e + 1" ?q h] by simp
  next
    case False
    with m have "\<bar>m\<bar> < 2 ^ 53" by simp
    then have "(of_int \<bar>m\<bar> :: rat) < of_int (2 ^ 53)" by (simp only: of_int_less_iff)
    then have "\<bar>?q\<bar> < 2 powi 53 * 2 powi e" unfolding abs by simp
    then have "\<bar>?q\<bar> < 2 powi (53 + e)" by (simp only: pow2_add)
    then have "ilog2_rat ?q < 53 + e" by (rule ilog2_rat_less [OF q0])
    then have fe: "fexp ?q \<le> e" using e by (simp add: fexp_def)
    have "?q / 2 powi fexp ?q = of_int (m * 2 ^ nat (e - fexp ?q))"
      using fe pow2_nat [of "e - fexp ?q"] by (simp add: pow2_diff field_simps)
    then show ?thesis using rnd_val_grid by blast
  qed
qed simp

lemma rnd_val_form: "\<exists>m e. rnd_val q = of_int m * 2 powi e \<and> \<bar>m\<bar> \<le> 2 ^ 53 \<and> - 1074 \<le> e"
proof (cases "q = 0")
  case True
  then show ?thesis by (intro exI [of _ 0]) auto
next
  case False
  let ?e = "fexp q" and ?m = "round_half_even (q / 2 powi fexp q)"
  have "ilog2_rat q + 1 \<le> 53 + ?e" by (simp add: fexp_def)
  then have "\<bar>q\<bar> < 2 powi (53 + ?e)" using ilog2_rat_bounds(2) [OF False] pow2_mono by (metis less_le_trans)
  then have "\<bar>q / 2 powi ?e\<bar> < 2 powi 53" by (simp add: pow2_add divide_simps)
  then have b: "q / 2 powi ?e \<le> of_int (2 ^ 53)" "of_int (- (2 ^ 53)) \<le> q / 2 powi ?e"
    using abs_less_iff [of "q / 2 powi ?e" "2 ^ 53"] by simp_all
  have "?m \<le> 2 ^ 53" using round_half_even_mono [OF b(1)] by (simp only: round_half_even_of_int)
  moreover have "- (2 ^ 53) \<le> ?m" using round_half_even_mono [OF b(2)] by (simp only: round_half_even_of_int)
  ultimately have "\<bar>?m\<bar> \<le> 2 ^ 53" by simp
  then show ?thesis by (intro exI [of _ ?m] exI [of _ ?e]) (simp add: rnd_val_def fexp_def)
qed

lemma rnd_val_idem [simp]: "rnd_val (rnd_val q) = rnd_val q"
  using rnd_val_form [of q] rnd_val_exact by metis

lemma rnd_val_nonneg: "0 \<le> q \<Longrightarrow> 0 \<le> rnd_val q"
  using round_half_even_mono [of 0 "q / 2 powi fexp q"] round_half_even_of_int [of 0]
  by (simp add: rnd_val_def)

lemma rnd_val_mono_pos:
  assumes x: "0 < x" and xy: "x \<le> y" shows "rnd_val x \<le> rnd_val y"
proof -
  have y: "0 < y" using assms by simp
  have le: "fexp x \<le> fexp y" using fexp_mono [of x y] assms by simp
  show ?thesis
  proof (cases "fexp x = fexp y")
    case True
    have "x / 2 powi fexp y \<le> y / 2 powi fexp y" using xy by (simp add: divide_right_mono)
    then show ?thesis unfolding rnd_val_def True by (simp add: round_half_even_mono)
  next
    case False
    let ?l = "ilog2_rat y" and ?e1 = "fexp x" and ?e2 = "fexp y"
    have e2: "?e2 = ?l - 52" and lt: "?e1 < ?e2" using le False by (auto simp: fexp_def)
    have "ilog2_rat x < ?l" using lt by (auto simp: fexp_def)
    then have "x \<le> 2 powi ?l"
      using ilog2_rat_bounds(2) [of x] x pow2_mono [of "ilog2_rat x + 1" ?l] by force
    then have "x / 2 powi ?e1 \<le> 2 powi (?l - ?e1)" by (simp add: pow2_diff divide_right_mono)
    then have "x / 2 powi ?e1 \<le> of_int (2 ^ nat (?l - ?e1))" using lt e2 by (simp only: pow2_nat)
    then have "round_half_even (x / 2 powi ?e1) \<le> 2 ^ nat (?l - ?e1)"
      using round_half_even_mono round_half_even_of_int by metis
    then have "(of_int (round_half_even (x / 2 powi ?e1)) :: rat) \<le> of_int (2 ^ nat (?l - ?e1))"
      by (simp only: of_int_le_iff)
    then have "(of_int (round_half_even (x / 2 powi ?e1)) :: rat) \<le> 2 powi (?l - ?e1)"
      using lt e2 by (simp only: pow2_nat)
    then have a: "rnd_val x \<le> 2 powi ?l" by (simp add: rnd_val_def pow2_diff pos_le_divide_eq)
    have "2 powi ?l / 2 powi ?e2 \<le> y / 2 powi ?e2"
      using ilog2_rat_bounds(1) [of y] y by (simp add: divide_right_mono)
    then have "of_int (2 ^ 52) \<le> y / 2 powi ?e2" by (simp add: e2 pow2_diff)
    then have "2 ^ 52 \<le> round_half_even (y / 2 powi ?e2)"
      using round_half_even_mono round_half_even_of_int by metis
    then have "of_int (2 ^ 52) \<le> (of_int (round_half_even (y / 2 powi ?e2)) :: rat)"
      by (simp only: of_int_le_iff)
    then have "of_int (2 ^ 52) * 2 powi ?e2 \<le> rnd_val y"
      unfolding rnd_val_def by (intro mult_right_mono) auto
    moreover have "of_int (2 ^ 52) * 2 powi ?e2 = (2 powi ?l :: rat)"
      by (simp add: e2 pow2_diff)
    ultimately show ?thesis using a by simp
  qed
qed

lemma rnd_val_mono: "x \<le> y \<Longrightarrow> rnd_val x \<le> rnd_val y"
proof (cases "0 < x")
  case False
  assume xy: "x \<le> y"
  show ?thesis
  proof (cases "0 \<le> y")
    case True
    have "0 \<le> rnd_val (- x)" using False by (intro rnd_val_nonneg) simp
    with True show ?thesis using rnd_val_nonneg [of y] by (simp add: rnd_val_neg)
  next
    case neg: False
    have "rnd_val (- y) \<le> rnd_val (- x)" using neg xy by (intro rnd_val_mono_pos) auto
    then show ?thesis by (simp add: rnd_val_neg)
  qed
qed (rule rnd_val_mono_pos)

lemma f64_limit_pos [simp]: "0 < f64_limit" "\<not> f64_limit \<le> 0"
  by (simp_all add: f64_limit_def)

lemma rnd_0 [simp]: "rnd 0 = Fin 0"
  by (simp add: rnd_def)

section \<open>Operations\<close>

text \<open>Comparisons are false when an operand is NaN.\<close>

instantiation f64 :: ord
begin

fun less_f64 :: "f64 \<Rightarrow> f64 \<Rightarrow> bool" where
  "less_f64 (Fin a) (Fin b) = (a < b)"
| "less_f64 (Fin a) (Inf s) = (\<not> s)"
| "less_f64 (Inf s) (Fin b) = s"
| "less_f64 (Inf s) (Inf t) = (s \<and> \<not> t)"
| "less_f64 _ _ = False"

fun less_eq_f64 :: "f64 \<Rightarrow> f64 \<Rightarrow> bool" where
  "less_eq_f64 (Fin a) (Fin b) = (a \<le> b)"
| "less_eq_f64 (Fin a) (Inf s) = (\<not> s)"
| "less_eq_f64 (Inf s) (Fin b) = s"
| "less_eq_f64 (Inf s) (Inf t) = (s \<or> \<not> t)"
| "less_eq_f64 _ _ = False"

instance ..

end

instantiation f64 :: "{zero, one, plus, uminus, minus, times, inverse, abs}"
begin

definition zero_f64 :: f64 where "0 = Fin 0"

definition one_f64 :: f64 where "1 = Fin 1"

fun uminus_f64 :: "f64 \<Rightarrow> f64" where
  "uminus_f64 (Fin a) = Fin (- a)"
| "uminus_f64 (Inf s) = Inf (\<not> s)"
| "uminus_f64 NaN = NaN"

fun plus_f64 :: "f64 \<Rightarrow> f64 \<Rightarrow> f64" where
  "plus_f64 (Fin a) (Fin b) = rnd (a + b)"
| "plus_f64 (Fin a) (Inf s) = Inf s"
| "plus_f64 (Inf s) (Fin b) = Inf s"
| "plus_f64 (Inf s) (Inf t) = (if s = t then Inf s else NaN)"
| "plus_f64 _ _ = NaN"

definition minus_f64 :: "f64 \<Rightarrow> f64 \<Rightarrow> f64" where
  "minus_f64 x y = x + (- y)"

fun times_f64 :: "f64 \<Rightarrow> f64 \<Rightarrow> f64" where
  "times_f64 (Fin a) (Fin b) = rnd (a * b)"
| "times_f64 (Fin a) (Inf s) = (if a = 0 then NaN else Inf (s \<noteq> (a < 0)))"
| "times_f64 (Inf s) (Fin b) = (if b = 0 then NaN else Inf (s \<noteq> (b < 0)))"
| "times_f64 (Inf s) (Inf t) = Inf (s \<noteq> t)"
| "times_f64 _ _ = NaN"

fun divide_f64 :: "f64 \<Rightarrow> f64 \<Rightarrow> f64" where
  "divide_f64 (Fin a) (Fin b) =
     (if b = 0 then (if a = 0 then NaN else Inf (a < 0)) else rnd (a / b))"
| "divide_f64 (Fin a) (Inf s) = Fin 0"
| "divide_f64 (Inf s) (Fin b) = Inf (s \<noteq> (b < 0))"
| "divide_f64 _ _ = NaN"

definition inverse_f64 :: "f64 \<Rightarrow> f64" where
  "inverse_f64 x = divide 1 x"

fun abs_f64 :: "f64 \<Rightarrow> f64" where
  "abs_f64 (Fin a) = Fin \<bar>a\<bar>"
| "abs_f64 (Inf s) = Inf False"
| "abs_f64 NaN = NaN"

instance ..

end

text \<open>\<open>==\<close>, \<open>is_finite\<close>, \<open>f64::min\<close> and \<open>f64::max\<close>: the last two return the other operand when
  one is NaN.\<close>

definition feq :: "f64 \<Rightarrow> f64 \<Rightarrow> bool" where
  "feq x y \<longleftrightarrow> x \<noteq> NaN \<and> x = y"

fun is_finite :: "f64 \<Rightarrow> bool" where
  "is_finite (Fin _) = True"
| "is_finite _ = False"

definition fmin :: "f64 \<Rightarrow> f64 \<Rightarrow> f64" where
  "fmin x y = (if x = NaN then y else if y = NaN then x else if x \<le> y then x else y)"

definition fmax :: "f64 \<Rightarrow> f64 \<Rightarrow> f64" where
  "fmax x y = (if x = NaN then y else if y = NaN then x else if x \<le> y then y else x)"

definition fpartial_cmp :: "f64 \<Rightarrow> f64 \<Rightarrow> int option" where
  "fpartial_cmp x y =
     (if x = NaN \<or> y = NaN then None else Some (if x < y then -1 else if x = y then 0 else 1))"

text \<open>A sum of an iterator is a left fold from zero; an integer converts by rounding.\<close>

definition fsum :: "f64 list \<Rightarrow> f64" where
  "fsum xs = foldl (+) 0 xs"

definition f64_of_int :: "int \<Rightarrow> f64" where
  "f64_of_int k = rnd (of_int k)"

definition f64_epsilon :: f64 where
  "f64_epsilon = rnd (1 / 2 ^ 52)"

text \<open>The values a 64-bit float can hold: the fixed points of rounding.\<close>

fun is_f64 :: "f64 \<Rightarrow> bool" where
  "is_f64 (Fin q) = (rnd q = Fin q)"
| "is_f64 _ = True"

section \<open>Laws\<close>

lemmas f64_defs = zero_f64_def one_f64_def minus_f64_def

lemma f64_cases3 [case_names Fin PInf MInf NaN]:
  "(\<And>q. x = Fin q \<Longrightarrow> P) \<Longrightarrow> (x = Inf False \<Longrightarrow> P) \<Longrightarrow> (x = Inf True \<Longrightarrow> P) \<Longrightarrow> (x = NaN \<Longrightarrow> P) \<Longrightarrow> P"
  by (cases x) (metis (full_types))+

lemma uminus_f64_inject [simp]: "(- x = - y) = (x = (y :: f64))"
  by (cases x; cases y) auto

lemma rnd_neg: "rnd (- q) = - rnd q"
proof (cases "q = 0")
  case False
  then show ?thesis by (auto simp: rnd_def Let_def rnd_val_neg)
qed simp

lemma rnd_Fin_iff: "rnd q = Fin r \<longleftrightarrow> r = rnd_val q \<and> \<bar>rnd_val q\<bar> < f64_limit"
  by (auto simp: rnd_def Let_def)

lemma rnd_not_NaN [simp]: "rnd q \<noteq> NaN"
  by (simp add: rnd_def Let_def)

lemma is_f64_rnd [simp]: "is_f64 (rnd q)"
proof (cases "rnd q")
  case (Fin r)
  then have "rnd r = Fin r" unfolding rnd_Fin_iff by simp
  then show ?thesis using Fin by simp
qed auto

lemma is_f64_consts [simp]: "is_f64 0" "is_f64 NaN" "is_f64 (Inf s)"
  by (auto simp: zero_f64_def)

lemma is_f64_uminus [simp]: "is_f64 (- x) \<longleftrightarrow> is_f64 x"
proof (cases x)
  case (Fin q)
  show ?thesis using Fin uminus_f64_inject [of "rnd q" "Fin q"] by (simp add: rnd_neg)
qed auto

lemma is_f64_plus [simp]: "is_f64 (x + y)"
  by (cases x; cases y) auto

lemma is_f64_minus [simp]: "is_f64 (x - y)"
  by (simp add: minus_f64_def)

lemma is_f64_times [simp]: "is_f64 (x * y)"
  by (cases x; cases y) auto

lemma is_f64_divide [simp]: "is_f64 (x / y)"
  by (cases x; cases y) auto

lemma rnd_val_sign: "0 \<le> r \<Longrightarrow> 0 \<le> rnd_val r" "r \<le> 0 \<Longrightarrow> rnd_val r \<le> 0"
  using rnd_val_mono [of r 0] rnd_val_mono [of 0 r] by auto

lemma rnd_mono:
  assumes pq: "p \<le> q" shows "rnd p \<le> rnd q"
proof -
  note m = rnd_val_mono [OF pq]
  consider "0 \<le> p" "0 \<le> q" | "p < 0" "0 \<le> q" | "p < 0" "q < 0" using pq by linarith
  then show ?thesis
    by cases (use m rnd_val_sign [of p] rnd_val_sign [of q] in \<open>auto simp: rnd_def Let_def abs_if split: if_splits\<close>)
qed

text \<open>Multiples of a power of two with at most 53 bits are exact.\<close>

lemma f64_limit_powi: "f64_limit = 2 powi 1024"
  unfolding f64_limit_def by (simp only: power_int_numeral)

lemma rnd_exact:
  assumes m: "\<bar>m\<bar> \<le> 2 ^ 53" and e: "- 1074 \<le> e" "e \<le> 970"
  shows "rnd (of_int m * 2 powi e) = Fin (of_int m * 2 powi e)"
proof -
  have "(of_int \<bar>m\<bar> :: rat) \<le> of_int (2 ^ 53)" using m by (simp only: of_int_le_iff)
  then have m': "(of_int \<bar>m\<bar> :: rat) \<le> 2 powi 53" by simp
  have "\<bar>of_int m * 2 powi e\<bar> = of_int \<bar>m\<bar> * (2::rat) powi e" by (simp add: abs_mult)
  also have "\<dots> \<le> 2 powi 53 * 2 powi e" using m' by (intro mult_right_mono) auto
  also have "\<dots> = 2 powi (53 + e)" by (simp only: pow2_add)
  also have "\<dots> < 2 powi 1024" using e(2) by (simp only: pow2_strict)
  finally have "\<bar>of_int m * 2 powi e\<bar> < f64_limit" by (simp only: f64_limit_powi)
  then show ?thesis using rnd_val_exact [OF m e(1)] by (simp add: rnd_Fin_iff)
qed

lemma rnd_of_int: "\<bar>m\<bar> \<le> 2 ^ 53 \<Longrightarrow> rnd (of_int m) = Fin (of_int m)"
  using rnd_exact [of m 0] by simp

lemma f64_epsilon_eq: "f64_epsilon = Fin (1 / 2 ^ 52)"
proof -
  have "rnd (of_int 1 * 2 powi (- 52)) = Fin (of_int 1 * 2 powi (- 52))" by (rule rnd_exact) simp_all
  then show ?thesis by (simp add: f64_epsilon_def power_int_def field_simps)
qed

text \<open>The least positive value, and the consequence of gradual underflow: the difference of
  two distinct values does not round to zero.\<close>

definition f64_tiny :: rat where
  "f64_tiny = 2 powi (- 1074)"

lemma rnd_tiny: "rnd f64_tiny = Fin f64_tiny"
  using rnd_exact [of 1 "- 1074"] by (simp add: f64_tiny_def)

lemma is_f64_grid:
  assumes "is_f64 (Fin q)" shows "\<exists>k::int. q = of_int k * f64_tiny"
proof -
  obtain m e where me: "rnd_val q = of_int m * 2 powi e" "- 1074 \<le> e"
    using rnd_val_form by blast
  have "q = of_int m * 2 powi e" using assms me by (simp add: rnd_Fin_iff)
  also have "(2::rat) powi e = 2 powi (e + 1074) * f64_tiny"
    unfolding f64_tiny_def pow2_add [symmetric] by (simp only: add.assoc right_minus add_0_right)
  also have "(2::rat) powi (e + 1074) = of_int (2 ^ nat (e + 1074))"
    using me(2) by (intro pow2_nat) simp
  finally have "q = of_int (m * 2 ^ nat (e + 1074)) * f64_tiny" by (simp only: of_int_mult mult.assoc)
  then show ?thesis by blast
qed

lemma f64_tiny_pos [simp]: "0 < f64_tiny" "0 \<le> f64_tiny"
  unfolding f64_tiny_def using pow2_pos [of "- 1074"] by (simp_all only: order_less_imp_le)

lemma rnd_pos:
  assumes "is_f64 (Fin a)" "is_f64 (Fin b)" "b < a" shows "Fin 0 < rnd (a - b)"
proof -
  obtain i j :: int where ij: "a = of_int i * f64_tiny" "b = of_int j * f64_tiny"
    using assms is_f64_grid by blast
  then have "j + 1 \<le> i" using assms(3) by simp
  then have "(of_int (j + 1) :: rat) \<le> of_int i" by (simp only: of_int_le_iff)
  then have "of_int (j + 1) * f64_tiny \<le> of_int i * f64_tiny" by (intro mult_right_mono) auto
  then have "f64_tiny \<le> a - b" by (simp add: ij algebra_simps)
  then have "rnd f64_tiny \<le> rnd (a - b)" by (rule rnd_mono)
  then show ?thesis unfolding rnd_tiny by (cases "rnd (a - b)") (auto intro: less_le_trans [OF f64_tiny_pos(1)])
qed

section \<open>Derived facts for the components\<close>

text \<open>The rational value of a finite number.\<close>

fun qval :: "f64 \<Rightarrow> rat" where
  "qval (Fin q) = q"
| "qval _ = 0"

lemma f64_diff_Fin [simp]: "Fin a - Fin b = rnd (a - b)"
  by (simp add: minus_f64_def)

lemma fmin_Fin [simp]: "fmin (Fin a) (Fin b) = Fin (min a b)"
  by (simp add: fmin_def min_def)

lemma fmax_Fin [simp]: "fmax (Fin a) (Fin b) = Fin (max a b)"
  by (simp add: fmax_def max_def)

lemma zero_f64_simps [simp]: "(0 < Fin a) = (0 < a)" "(0 \<le> Fin a) = (0 \<le> a)"
  "(Fin a < 0) = (a < 0)" "(Fin a \<le> 0) = (a \<le> 0)" "(Fin a = 0) = (a = 0)" "(0 = Fin a) = (a = 0)"
  "feq (Fin a) 0 = (a = 0)" "is_finite 0" "qval 0 = 0"
  by (auto simp: zero_f64_def feq_def)

lemma is_finite_iff: "is_finite x \<longleftrightarrow> (\<exists>q. x = Fin q)"
  by (cases x) auto

lemma plus_zero_f64 [simp]: "is_f64 x \<Longrightarrow> x + 0 = x" "is_f64 x \<Longrightarrow> 0 + x = x"
  by (cases x; simp add: zero_f64_def)+

lemma uminus_zero_f64 [simp]: "- (0 :: f64) = 0" "- Fin a + Fin a = Fin 0"
  by (simp_all add: zero_f64_def)

lemma f64_le_trans: "x \<le> y \<Longrightarrow> y \<le> z \<Longrightarrow> x \<le> (z :: f64)"
  by (cases x rule: f64_cases3; cases y rule: f64_cases3; cases z rule: f64_cases3) auto

text \<open>A rounded value stays between representable bounds.\<close>

lemma rnd_between:
  assumes "is_f64 (Fin a)" "is_f64 (Fin b)" "a \<le> q" "q \<le> b"
  shows "\<exists>r. rnd q = Fin r \<and> a \<le> r \<and> r \<le> b"
proof -
  have "Fin a \<le> rnd q" "rnd q \<le> Fin b" using rnd_mono assms by (metis is_f64.simps(1))+
  then show ?thesis by (cases "rnd q" rule: f64_cases3) auto
qed

lemma f64_sub_bounds:
  assumes "is_f64 (Fin a)" "is_f64 (Fin b)" "0 \<le> b" "b \<le> a"
  obtains c where "rnd (a - b) = Fin c" "0 \<le> c" "c \<le> a" "c = 0 \<longleftrightarrow> a = b" "is_f64 (Fin c)"
proof -
  obtain c where c: "rnd (a - b) = Fin c" "0 \<le> c" "c \<le> a"
    using rnd_between [of 0 a "a - b"] assms by auto
  moreover have "c = 0 \<longleftrightarrow> a = b" using rnd_pos [of a b] assms c by force
  moreover have "is_f64 (Fin c)" using is_f64_rnd c(1) by metis
  ultimately show ?thesis using that by blast
qed

text \<open>Numbers that are a whole number of units \<open>2 ^ g\<close>, at most \<open>2 ^ 53\<close> of them: sums and differences of
  such numbers are exact as long as they stay in the range.\<close>

definition unit_exp :: "int \<Rightarrow> bool" where
  "unit_exp g \<longleftrightarrow> - 1074 \<le> g \<and> g \<le> 970"

definition units :: "int \<Rightarrow> rat \<Rightarrow> bool" where
  "units g q \<longleftrightarrow> (\<exists>k::int. q = of_int k * 2 powi g)"

definition max_units :: "int \<Rightarrow> rat" where
  "max_units g = 2 ^ 53 * 2 powi g"

lemma units_0 [simp]: "units g 0"
  unfolding units_def by (intro exI [of _ 0]) simp

lemma units_add [simp]: "units g a \<Longrightarrow> units g b \<Longrightarrow> units g (a + b)"
  by (auto simp: units_def distrib_right [symmetric] of_int_add [symmetric] simp del: of_int_add)

lemma units_minus [simp]: "units g (- a) = units g a"
  by (auto simp: units_def) (metis of_int_minus minus_mult_left minus_minus)+

lemma units_diff [simp]: "units g a \<Longrightarrow> units g b \<Longrightarrow> units g (a - b)"
  using units_add [of g a "- b"] by simp

lemma units_sum_list: "(\<And>x. x \<in> set xs \<Longrightarrow> units g x) \<Longrightarrow> units g (sum_list xs)"
  by (induction xs) auto

lemma rnd_units:
  assumes "unit_exp g" "units g q" "\<bar>q\<bar> \<le> max_units g"
  shows "rnd q = Fin q"
proof -
  obtain k :: int where k: "q = of_int k * 2 powi g" using assms(2) by (auto simp: units_def)
  have "of_int \<bar>k\<bar> * (2::rat) powi g \<le> of_int (2 ^ 53) * 2 powi g"
    using assms(3) by (simp add: k max_units_def abs_mult)
  then have "(of_int \<bar>k\<bar> :: rat) \<le> of_int (2 ^ 53)" by (simp only: mult_le_cancel_right_pos pow2_pos)
  then have "\<bar>k\<bar> \<le> 2 ^ 53" by (simp only: of_int_le_iff)
  then show ?thesis unfolding k using assms(1) by (intro rnd_exact) (auto simp: unit_exp_def)
qed

lemma is_f64_units: "unit_exp g \<Longrightarrow> units g q \<Longrightarrow> \<bar>q\<bar> \<le> max_units g \<Longrightarrow> is_f64 (Fin q)"
  by (simp add: rnd_units)

text \<open>Sign symmetries: these hold bit for bit under rounding.\<close>

lemma f64_one_times [simp]: "is_f64 x \<Longrightarrow> 1 * x = x"
  by (cases x) (auto simp: one_f64_def)

lemma f64_minus_one_times [simp]: "is_f64 x \<Longrightarrow> (- 1) * x = - x"
  by (cases x) (auto simp: one_f64_def rnd_neg)

lemma f64_neg_diff: "- (x - y) = y - (x :: f64)"
  by (cases x; cases y) (auto simp: minus_f64_def rnd_neg [symmetric])

lemma f64_add_comm: "x + y = y + (x :: f64)"
  by (cases x; cases y) (auto simp: add.commute)

lemma is_f64_foldl_plus [simp]: "is_f64 x \<Longrightarrow> is_f64 (foldl (+) x xs)"
  by (induction xs arbitrary: x) auto

lemma is_f64_fsum [simp]: "is_f64 (fsum xs)"
  by (simp add: fsum_def)

lemma fsum_Nil [simp]: "fsum [] = 0"
  by (simp add: fsum_def)

lemma finite_not_le: "is_finite p \<Longrightarrow> p \<le> 0 \<longleftrightarrow> \<not> 0 < p"
  by (cases p) (auto simp: zero_f64_def)

end
