(* ===== verification/FifoLoop.thy ===== *)
theory FifoLoop
  imports Prelude F64
begin

text \<open>
  The matching loop shared by the two profit-and-loss engines (\<open>close_fifo\<close> of \<open>fifo_pnl.rs\<close>
  and of \<open>quantity_fifo_pnl.rs\<close>, which differ only in the gain booked for a match), and the
  facts about it: it stops for every input, consumes lots strictly from the front, never leaves
  both lots and an unmatched amount, and conserves amounts exactly on a common unit.
\<close>

text \<open>An open lot: its entry price and what is left of it (\<open>amount_u\<close> or \<open>quantity\<close>).\<close>

record lot =
  entry_price :: f64
  lot_size :: f64

text \<open>\<open>while amount > 0 { let Some(lot) = lots.front_mut() else break; ... }\<close>.\<close>

text \<open>An iteration that does not pop the front lot has used up the amount, unless the lot holds minus
  infinity, which becomes NaN and stops the next iteration.\<close>

definition head_weight :: "lot list \<Rightarrow> nat" where
  "head_weight lots = (case lots of [] \<Rightarrow> 0 | l # _ \<Rightarrow> if lot_size l = Inf True then 2 else 1)"

lemma fifo_loop_progress:
  "0 < a \<Longrightarrow> \<not> feq (s - fmin a s) 0 \<Longrightarrow> 0 < a - fmin a s \<Longrightarrow> s = Inf True \<and> s - fmin a s = NaN"
  by (cases a rule: f64_cases3; cases s rule: f64_cases3)
    (auto simp: fmin_def minus_f64_def feq_def zero_f64_def split: if_splits)

function fifo_loop :: "(f64 \<Rightarrow> f64 \<Rightarrow> f64) \<Rightarrow> lot list \<Rightarrow> f64 \<Rightarrow> f64 \<Rightarrow> lot list \<times> f64 \<times> f64" where
  "fifo_loop gain lots amount realized =
     (if 0 < amount then
        (case lots of
           [] \<Rightarrow> ([], realized, amount)
         | lot # rest \<Rightarrow>
             let matched = fmin amount (lot_size lot);
                 realized' = realized + gain (entry_price lot) matched;
                 amount' = amount - matched;
                 lot' = lot\<lparr>lot_size := lot_size lot - matched\<rparr>
             in if feq (lot_size lot') 0 then fifo_loop gain rest amount' realized'
                else fifo_loop gain (lot' # rest) amount' realized')
      else (lots, realized, amount))"
  by pat_completeness auto
termination
  by (relation "measure (\<lambda>(gain, lots, amount, realized). 3 * length lots + (if 0 < amount then head_weight lots else 0))")
    (auto simp: head_weight_def dest: fifo_loop_progress split: list.splits)

declare fifo_loop.simps [simp del]

section \<open>Well-formed lots\<close>

definition wf_lot :: "lot \<Rightarrow> bool" where
  "wf_lot l \<longleftrightarrow> is_f64 (entry_price l) \<and> is_f64 (lot_size l) \<and> is_finite (entry_price l) \<and> 0 < entry_price l
     \<and> is_finite (lot_size l) \<and> 0 < lot_size l"

definition wf_lots :: "lot list \<Rightarrow> bool" where
  "wf_lots ls \<longleftrightarrow> list_all wf_lot ls"

lemma wf_lots_simps [simp]: "wf_lots []" "wf_lots (l # ls) \<longleftrightarrow> wf_lot l \<and> wf_lots ls"
  "wf_lots (xs @ ys) \<longleftrightarrow> wf_lots xs \<and> wf_lots ys"
  by (auto simp: wf_lots_def)

lemma wf_lotE:
  assumes "wf_lot l"
  obtains p q where "l = \<lparr>entry_price = Fin p, lot_size = Fin q\<rparr>" "0 < p" "0 < q" "is_f64 (Fin p)" "is_f64 (Fin q)"
  using assms by (cases l) (auto simp: wf_lot_def is_finite_iff)

section \<open>The loop on well-formed lots\<close>

lemma fifo_loop_stop [step_simps]: "\<not> 0 < amount \<Longrightarrow> fifo_loop gain lots amount r = (lots, r, amount)"
  by (simp add: fifo_loop.simps)

lemma fifo_loop_Nil [step_simps]: "fifo_loop gain [] amount r = ([], r, amount)"
  by (simp add: fifo_loop.simps)

lemma fifo_loop_whole [step_simps]:
  "0 < a \<Longrightarrow> 0 < q \<Longrightarrow> q \<le> a \<Longrightarrow>
   fifo_loop gain (\<lparr>entry_price = p, lot_size = Fin q\<rparr> # ls) (Fin a) r =
   fifo_loop gain ls (rnd (a - q)) (r + gain p (Fin q))"
  by (subst fifo_loop.simps) (simp add: min_absorb2 Let_def)

lemma fifo_loop_part [step_simps]:
  assumes "0 < a" "a < q" "is_f64 (Fin a)" "is_f64 (Fin q)"
  shows "fifo_loop gain (\<lparr>entry_price = p, lot_size = Fin q\<rparr> # ls) (Fin a) r =
    (\<lparr>entry_price = p, lot_size = rnd (q - a)\<rparr> # ls, r + gain p (Fin a), Fin 0)"
proof -
  obtain c where "rnd (q - a) = Fin c" "c \<noteq> 0" using f64_sub_bounds [of q a] assms by auto
  then show ?thesis using assms
    by (subst fifo_loop.simps) (simp add: min_absorb1 Let_def fifo_loop_stop)
qed

text \<open>Induction over the three ways an iteration ends: nothing to match, a lot matched whole, a lot
  matched in part.\<close>

lemma fifo_loop_induct [consumes 2, case_names stop Nil whole part]:
  assumes "wf_lots lots" "is_f64 amount \<and> is_finite amount \<and> 0 \<le> amount"
    and stop: "\<And>ls r. wf_lots ls \<Longrightarrow> P ls (Fin 0) r (ls, r, Fin 0)"
    and nil: "\<And>a r. 0 < a \<Longrightarrow> is_f64 (Fin a) \<Longrightarrow> P [] (Fin a) r ([], r, Fin a)"
    and whole: "\<And>p q a c ls r out. 0 < p \<Longrightarrow> is_f64 (Fin p) \<Longrightarrow> 0 < q \<Longrightarrow> is_f64 (Fin q) \<Longrightarrow> q \<le> a \<Longrightarrow> is_f64 (Fin a) \<Longrightarrow>
        rnd (a - q) = Fin c \<Longrightarrow> 0 \<le> c \<Longrightarrow> is_f64 (Fin c) \<Longrightarrow> wf_lots ls \<Longrightarrow>
        P ls (Fin c) (r + gain (Fin p) (Fin q)) out \<Longrightarrow>
        P (\<lparr>entry_price = Fin p, lot_size = Fin q\<rparr> # ls) (Fin a) r out"
    and part: "\<And>p q a c ls r. 0 < p \<Longrightarrow> is_f64 (Fin p) \<Longrightarrow> 0 < a \<Longrightarrow> is_f64 (Fin q) \<Longrightarrow> a < q \<Longrightarrow> is_f64 (Fin a) \<Longrightarrow>
        rnd (q - a) = Fin c \<Longrightarrow> 0 < c \<Longrightarrow> is_f64 (Fin c) \<Longrightarrow> wf_lots ls \<Longrightarrow>
        P (\<lparr>entry_price = Fin p, lot_size = Fin q\<rparr> # ls) (Fin a) r
          (\<lparr>entry_price = Fin p, lot_size = Fin c\<rparr> # ls, r + gain (Fin p) (Fin a), Fin 0)"
  shows "P lots amount realized (fifo_loop gain lots amount realized)"
  using assms(1,2)
proof (induction lots arbitrary: amount realized)
  case Nil
  then obtain a where a: "amount = Fin a" "0 \<le> a" "is_f64 (Fin a)" by (auto simp: is_finite_iff)
  then show ?case using nil [of a] stop [of "[]"]
    by (cases "a = 0") (auto simp: step_simps)
next
  case (Cons l ls)
  from Cons.prems obtain a where a: "amount = Fin a" "0 \<le> a" "is_f64 (Fin a)" by (auto simp: is_finite_iff)
  from Cons.prems obtain p q where l: "l = \<lparr>entry_price = Fin p, lot_size = Fin q\<rparr>" "0 < p" "0 < q"
      "is_f64 (Fin p)" "is_f64 (Fin q)" and ls: "wf_lots ls" by (auto elim: wf_lotE)
  consider "a = 0" | "0 < a" "q \<le> a" | "0 < a" "a < q" using a(2) by linarith
  then show ?case
  proof cases
    case 1
    then show ?thesis using stop [of "l # ls"] Cons.prems a by (simp add: step_simps)
  next
    case 2
    obtain c where c: "rnd (a - q) = Fin c" "0 \<le> c" "is_f64 (Fin c)"
      using f64_sub_bounds [of a q] a l 2 by (metis less_imp_le)
    show ?thesis
      using whole [OF l(2,4,3,5) 2(2) a(3) c ls Cons.IH [of "Fin c" "realized + gain (Fin p) (Fin q)"]] ls c 2
      by (simp add: l(1) a(1) l(3) fifo_loop_whole)
  next
    case 3
    obtain c where c: "rnd (q - a) = Fin c" "0 < c" "is_f64 (Fin c)"
      using f64_sub_bounds [of q a] a l 3 by (metis less_imp_le less_le order_le_less)
    show ?thesis using part [OF l(2,4) 3(1) l(5) 3(2) a(3) c ls] a l 3 c by (simp add: fifo_loop_part)
  qed
qed

definition good_amount :: "f64 \<Rightarrow> bool" where
  "good_amount a \<longleftrightarrow> is_f64 a \<and> is_finite a \<and> 0 \<le> a"

lemma fifo_loop_wf:
  assumes "wf_lots lots" "good_amount amount" "fifo_loop gain lots amount r = (lots', r', rest)"
  shows "wf_lots lots' \<and> good_amount rest \<and> (0 < rest \<longrightarrow> lots' = []) \<and> rest \<le> amount"
proof -
  have "case fifo_loop gain lots amount r of (lots', r', rest) \<Rightarrow>
      wf_lots lots' \<and> good_amount rest \<and> (0 < rest \<longrightarrow> lots' = []) \<and> rest \<le> amount"
    using assms(1,2) unfolding good_amount_def
  proof (induction lots amount r rule: fifo_loop_induct)
    case (whole p q a c ls r out)
    have "Fin c \<le> Fin a"
      using f64_sub_bounds [of a q] whole by (metis f64.inject(1) less_eq_f64.simps(1) less_imp_le)
    then show ?case using whole by (auto split: prod.splits intro: f64_le_trans)
  qed (auto simp: wf_lot_def)
  then show ?thesis using assms(3) by simp
qed

text \<open>Conservation, exactly, when all sizes are whole numbers of one unit.\<close>

definition lots_total :: "lot list \<Rightarrow> rat" where
  "lots_total ls = sum_list (map (\<lambda>l. qval (lot_size l)) ls)"

definition units_lots :: "int \<Rightarrow> lot list \<Rightarrow> bool" where
  "units_lots g ls \<longleftrightarrow> (\<forall>l \<in> set ls. units g (qval (lot_size l)))"

lemma lots_total_simps [simp]: "lots_total [] = 0" "lots_total (l # ls) = qval (lot_size l) + lots_total ls"
  "lots_total (xs @ ys) = lots_total xs + lots_total ys"
  by (simp_all add: lots_total_def)

lemma units_lots_simps [simp]: "units_lots g []" "units_lots g (l # ls) \<longleftrightarrow> units g (qval (lot_size l)) \<and> units_lots g ls"
  "units_lots g (xs @ ys) \<longleftrightarrow> units_lots g xs \<and> units_lots g ys"
  by (auto simp: units_lots_def)

lemma lots_total_nonneg: "wf_lots ls \<Longrightarrow> 0 \<le> lots_total ls"
  by (induction ls) (auto elim!: wf_lotE)

lemma lots_total_zero: "wf_lots ls \<Longrightarrow> lots_total ls = 0 \<longleftrightarrow> ls = []"
  using lots_total_nonneg by (cases ls) (fastforce elim!: wf_lotE)+

lemma lots_total_units: "units_lots g ls \<Longrightarrow> units g (lots_total ls)"
  by (induction ls) auto

lemma fifo_loop_exact:
  assumes "wf_lots lots" "good_amount amount" "unit_exp g" "units_lots g lots" "units g (qval amount)"
    and "lots_total lots \<le> max_units g" "qval amount \<le> max_units g"
    and "fifo_loop gain lots amount r = (lots', r', rest)"
  shows "units_lots g lots' \<and> units g (qval rest)
    \<and> lots_total lots - lots_total lots' = qval amount - qval rest
    \<and> qval amount - qval rest = min (lots_total lots) (qval amount)"
proof -
  have "units_lots g lots \<Longrightarrow> units g (qval amount) \<Longrightarrow> lots_total lots \<le> max_units g \<Longrightarrow>
      qval amount \<le> max_units g \<Longrightarrow>
      (case fifo_loop gain lots amount r of (lots', r', rest) \<Rightarrow>
        units_lots g lots' \<and> units g (qval rest) \<and>
        lots_total lots - lots_total lots' = qval amount - qval rest \<and>
        qval amount - qval rest = min (lots_total lots) (qval amount))"
    using assms(1,2) unfolding good_amount_def
  proof (induction lots amount r rule: fifo_loop_induct)
    case (stop ls r)
    then show ?case by (simp add: lots_total_nonneg min_absorb2)
  next
    case (whole p q a c ls r out)
    have u: "units g (a - q)" using whole.prems by simp
    have "\<bar>a - q\<bar> \<le> max_units g" using whole.hyps whole.prems by simp
    then have "rnd (a - q) = Fin (a - q)" using rnd_units [OF assms(3) u] by blast
    then have c: "c = a - q" using whole.hyps by simp
    then show ?case using whole u by (auto split: prod.splits)
  next
    case (part p q a c ls r)
    have u: "units g (q - a)" using part.prems by simp
    have "\<bar>q - a\<bar> \<le> max_units g"
      using part.hyps part.prems lots_total_nonneg [of ls] by simp
    then have "rnd (q - a) = Fin (q - a)" using rnd_units [OF assms(3) u] by blast
    then have c: "c = q - a" using part.hyps by simp
    then show ?case using part u lots_total_nonneg [of ls] by auto
  qed auto
  then show ?thesis using assms(4-8) by simp
qed

text \<open>First in, first out: what is left is a suffix of the queue, with at most its head reduced.\<close>

inductive fifo_suffix :: "lot list \<Rightarrow> lot list \<Rightarrow> bool" where
  whole: "fifo_suffix lots lots"
| reduced: "c \<le> lot_size l \<Longrightarrow> fifo_suffix (l # lots) (l\<lparr>lot_size := c\<rparr> # lots)"
| popped: "fifo_suffix lots lots' \<Longrightarrow> fifo_suffix (l # lots) lots'"

lemma fifo_loop_suffix:
  assumes "wf_lots lots" "good_amount amount"
  shows "fifo_suffix lots (fst (fifo_loop gain lots amount r))"
  using assms unfolding good_amount_def
proof (induction lots amount r rule: fifo_loop_induct)
  case (part p q a c ls r)
  have "c \<le> q" using f64_sub_bounds [of q a] part by (metis f64.inject(1) less_imp_le)
  then show ?case
    using fifo_suffix.reduced [of "Fin c" "\<lparr>entry_price = Fin p, lot_size = Fin q\<rparr>" ls] by simp
qed (auto intro: fifo_suffix.intros)

end
