(* ===== verification/FillEngine.thy ===== *)
theory FillEngine
  imports FifoLoop
begin

text \<open>
  The contract of a fill engine, as the account replay of \<open>pnl.rs\<close> uses it: a book of open long
  and short lots that a fill closes first in, first out before it opens the rest on its own side.
  The locale \<open>fill_engine\<close> names the operation and its laws; what a client may rely on for
  any sequence of fills is proved once inside it.
\<close>

datatype fifo_error = InvalidPositiveValue string f64 | InvalidFee f64

definition validate_positive :: "string \<Rightarrow> f64 \<Rightarrow> fifo_error + unit" where
  "validate_positive field v =
     (if is_finite v \<and> 0 < v then Inr () else Inl (InvalidPositiveValue field v))"

lemma validate_positive_iff: "validate_positive field v = Inr u \<longleftrightarrow> is_finite v \<and> 0 < v"
  by (simp add: validate_positive_def)

section \<open>The abstract book\<close>

type_synonym book = "lot list \<times> lot list" \<comment> \<open>open longs and open shorts, oldest first\<close>

record fill =
  fill_side :: side
  fill_price :: f64
  fill_size :: f64
  fill_fee :: f64

definition valid_fill :: "fill \<Rightarrow> bool" where
  "valid_fill x \<longleftrightarrow> is_finite (fill_price x) \<and> 0 < fill_price x \<and> is_finite (fill_size x) \<and> 0 < fill_size x
     \<and> is_finite (fill_fee x)"

definition f64_fill :: "fill \<Rightarrow> bool" where
  "f64_fill x \<longleftrightarrow> is_f64 (fill_price x) \<and> is_f64 (fill_size x) \<and> is_f64 (fill_fee x)"

text \<open>What a fill does to the book: the opposite side is matched from its oldest lot, what is left
  of the fill is appended to its own side.  The gain function gets the direction of the closed lots
  (\<open>1\<close> for longs, \<open>-1\<close> for shorts) and the closing price.\<close>

definition open_rest :: "f64 \<Rightarrow> f64 \<Rightarrow> lot list \<Rightarrow> lot list" where
  "open_rest price rest lots =
     (if 0 < rest then lots @ [\<lparr>entry_price = price, lot_size = rest\<rparr>] else lots)"

definition book_step :: "(f64 \<Rightarrow> f64 \<Rightarrow> f64 \<Rightarrow> f64 \<Rightarrow> f64) \<Rightarrow> fill \<Rightarrow> book \<Rightarrow> book" where
  "book_step gain x b =
     (case fill_side x of
        Buy \<Rightarrow> (case fifo_loop (gain (-1) (fill_price x)) (snd b) (fill_size x) 0 of
                 (shorts, _, rest) \<Rightarrow> (open_rest (fill_price x) rest (fst b), shorts))
      | Sell \<Rightarrow> (case fifo_loop (gain 1 (fill_price x)) (fst b) (fill_size x) 0 of
                 (longs, _, rest) \<Rightarrow> (longs, open_rest (fill_price x) rest (snd b))))"

definition wf_book :: "book \<Rightarrow> bool" where
  "wf_book b \<longleftrightarrow> wf_lots (fst b) \<and> wf_lots (snd b)"

text \<open>No account is long and short the same instrument in one engine.\<close>

definition one_sided :: "book \<Rightarrow> bool" where
  "one_sided b \<longleftrightarrow> fst b = [] \<or> snd b = []"

definition net_size :: "book \<Rightarrow> rat" where
  "net_size b = lots_total (fst b) - lots_total (snd b)"

definition gross_size :: "book \<Rightarrow> rat" where
  "gross_size b = lots_total (fst b) + lots_total (snd b)"

definition units_book :: "int \<Rightarrow> book \<Rightarrow> bool" where
  "units_book g b \<longleftrightarrow> units_lots g (fst b) \<and> units_lots g (snd b)"

definition signed_size :: "fill \<Rightarrow> rat" where
  "signed_size x = (case fill_side x of Buy \<Rightarrow> qval (fill_size x) | Sell \<Rightarrow> - qval (fill_size x))"

lemma good_amount_fill: "valid_fill x \<Longrightarrow> f64_fill x \<Longrightarrow> good_amount (fill_size x)"
  by (auto simp: valid_fill_def f64_fill_def good_amount_def is_finite_iff)

lemma wf_open_rest:
  "wf_lots lots \<Longrightarrow> good_amount rest \<Longrightarrow> valid_fill x \<Longrightarrow> f64_fill x \<Longrightarrow> wf_lots (open_rest (fill_price x) rest lots)"
  by (auto simp: open_rest_def wf_lot_def good_amount_def valid_fill_def f64_fill_def)

lemma open_rest_total: "good_amount rest \<Longrightarrow> lots_total (open_rest p rest lots) = lots_total lots + qval rest"
  by (auto simp: open_rest_def good_amount_def is_finite_iff)

lemma book_step_wf:
  assumes "wf_book b" "valid_fill x" "f64_fill x"
  shows "wf_book (book_step gain x b)"
proof (cases "fill_side x")
  case Buy
  obtain l r q where L: "fifo_loop (gain (-1) (fill_price x)) (snd b) (fill_size x) 0 = (l, r, q)"
    by (metis prod_cases3)
  show ?thesis using fifo_loop_wf [OF _ good_amount_fill L] wf_open_rest assms
    by (simp add: Buy book_step_def L wf_book_def)
next
  case Sell
  obtain l r q where L: "fifo_loop (gain 1 (fill_price x)) (fst b) (fill_size x) 0 = (l, r, q)"
    by (metis prod_cases3)
  show ?thesis using fifo_loop_wf [OF _ good_amount_fill L] wf_open_rest assms
    by (simp add: Sell book_step_def L wf_book_def)
qed

lemma book_step_one_sided:
  assumes "wf_book b" "one_sided b" "valid_fill x" "f64_fill x"
  shows "one_sided (book_step gain x b)"
proof (cases "fill_side x")
  case Buy
  obtain l r q where L: "fifo_loop (gain (-1) (fill_price x)) (snd b) (fill_size x) 0 = (l, r, q)"
    by (metis prod_cases3)
  have "snd b = [] \<Longrightarrow> l = []" using L by (simp add: fifo_loop_Nil)
  then show ?thesis using fifo_loop_wf [OF _ good_amount_fill L] assms
    by (auto simp: Buy book_step_def L wf_book_def one_sided_def open_rest_def)
next
  case Sell
  obtain l r q where L: "fifo_loop (gain 1 (fill_price x)) (fst b) (fill_size x) 0 = (l, r, q)"
    by (metis prod_cases3)
  have "fst b = [] \<Longrightarrow> l = []" using L by (simp add: fifo_loop_Nil)
  then show ?thesis using fifo_loop_wf [OF _ good_amount_fill L] assms
    by (auto simp: Sell book_step_def L wf_book_def one_sided_def open_rest_def)
qed

lemma book_step_exact:
  assumes "wf_book b" "valid_fill x" "f64_fill x" "unit_exp g" "units_book g b" "units g (qval (fill_size x))"
    and "gross_size b + qval (fill_size x) \<le> max_units g"
  shows "units_book g (book_step gain x b)
    \<and> net_size (book_step gain x b) = net_size b + signed_size x
    \<and> gross_size (book_step gain x b) \<le> gross_size b + qval (fill_size x)"
proof -
  have nn: "0 \<le> lots_total (fst b)" "0 \<le> lots_total (snd b)" "0 \<le> qval (fill_size x)"
    using assms by (auto simp: wf_book_def lots_total_nonneg valid_fill_def is_finite_iff)
  have bounds: "lots_total (fst b) \<le> max_units g" "lots_total (snd b) \<le> max_units g" "qval (fill_size x) \<le> max_units g"
    using nn assms(7) by (auto simp: gross_size_def)
  have rest_units: "units g (qval q) \<Longrightarrow> units_lots g ls \<Longrightarrow> units_lots g (open_rest (fill_price x) q ls)" for q ls
    by (simp add: open_rest_def)
  show ?thesis
  proof (cases "fill_side x")
    case Buy
    obtain l r q where L: "fifo_loop (gain (-1) (fill_price x)) (snd b) (fill_size x) 0 = (l, r, q)"
      by (metis prod_cases3)
    note W = fifo_loop_wf [OF _ good_amount_fill L] and E = fifo_loop_exact [OF _ good_amount_fill _ _ _ _ _ L]
    show ?thesis using W E [of g] assms bounds nn rest_units
      by (auto simp: Buy book_step_def L wf_book_def units_book_def net_size_def gross_size_def signed_size_def
          open_rest_total)
  next
    case Sell
    obtain l r q where L: "fifo_loop (gain 1 (fill_price x)) (fst b) (fill_size x) 0 = (l, r, q)"
      by (metis prod_cases3)
    note W = fifo_loop_wf [OF _ good_amount_fill L] and E = fifo_loop_exact [OF _ good_amount_fill _ _ _ _ _ L]
    show ?thesis using W E [of g] assms bounds nn rest_units
      by (auto simp: Sell book_step_def L wf_book_def units_book_def net_size_def gross_size_def signed_size_def
          open_rest_total)
  qed
qed

section \<open>The interface\<close>

locale fill_engine =
  fixes fill :: "fill \<Rightarrow> 's \<Rightarrow> fifo_error + 's"
    and book_of :: "'s \<Rightarrow> book"
    and gain :: "f64 \<Rightarrow> f64 \<Rightarrow> f64 \<Rightarrow> f64 \<Rightarrow> f64"
  assumes fill_valid: "valid_fill x \<Longrightarrow> \<exists>s'. fill x s = Inr s' \<and> book_of s' = book_step gain x (book_of s)"
    and fill_invalid: "\<not> valid_fill x \<Longrightarrow> \<exists>e. fill x s = Inl e"
begin

definition good_state :: "'s \<Rightarrow> bool" where
  "good_state s \<longleftrightarrow> wf_book (book_of s) \<and> one_sided (book_of s)"

lemma fill_Inr: "fill x s = Inr s' \<Longrightarrow> valid_fill x \<and> book_of s' = book_step gain x (book_of s)"
  using fill_valid [of x s] fill_invalid [of x s] by (cases "valid_fill x") auto

lemma fill_ok_iff: "(\<exists>s'. fill x s = Inr s') \<longleftrightarrow> valid_fill x"
  using fill_valid [of x s] fill_invalid [of x s] by force

lemma fill_good: "good_state s \<Longrightarrow> f64_fill x \<Longrightarrow> fill x s = Inr s' \<Longrightarrow> good_state s'"
  using fill_Inr [of x s s'] by (auto simp: good_state_def book_step_wf book_step_one_sided)

lemma run_ok_iff: "(\<exists>s'. fold_res fill xs s = Inr s') \<longleftrightarrow> list_all valid_fill xs"
proof (induction xs arbitrary: s)
  case (Cons x xs)
  show ?case
  proof (cases "valid_fill x")
    case True
    then obtain s1 where "fill x s = Inr s1" using fill_valid by blast
    then show ?thesis using Cons True by simp
  next
    case False
    then obtain e where "fill x s = Inl e" using fill_invalid by blast
    then show ?thesis using False by simp
  qed
qed simp

lemma run_good:
  "good_state s \<Longrightarrow> list_all f64_fill xs \<Longrightarrow> fold_res fill xs s = Inr s' \<Longrightarrow> good_state s'"
  by (rule fold_res_inv [of xs good_state fill s s']) (auto simp: list_all_iff intro: fill_good)

text \<open>Fills whose sizes are whole numbers of one unit, small enough that no sum leaves the exact range.\<close>

definition exact_run :: "int \<Rightarrow> fill list \<Rightarrow> 's \<Rightarrow> bool" where
  "exact_run g xs s \<longleftrightarrow> unit_exp g \<and> list_all f64_fill xs \<and> units_book g (book_of s)
     \<and> list_all (\<lambda>x. units g (qval (fill_size x))) xs
     \<and> gross_size (book_of s) + sum_list (map (\<lambda>x. qval (fill_size x)) xs) \<le> max_units g"

lemma exact_run_Cons:
  assumes "exact_run g (x # xs) s" "good_state s" "fill x s = Inr s1" "fold_res fill xs s1 = Inr s'"
  shows "exact_run g [x] s" "exact_run g xs s1" "net_size (book_of s1) = net_size (book_of s) + signed_size x"
proof -
  have v: "valid_fill x" and b1: "book_of s1 = book_step gain x (book_of s)" using fill_Inr [OF assms(3)] by auto
  have valid: "list_all valid_fill xs" using assms(4) run_ok_iff by blast
  have "0 \<le> sum_list (map (\<lambda>x. qval (fill_size x)) xs)"
    using valid by (intro sum_list_nonneg) (auto simp: list_all_iff valid_fill_def is_finite_iff)
  then show "exact_run g [x] s" "exact_run g xs s1" "net_size (book_of s1) = net_size (book_of s) + signed_size x"
    using book_step_exact [of "book_of s" x g gain] assms(1,2) v by (auto simp: b1 good_state_def exact_run_def)
qed

lemma run_exact_inv:
  assumes step: "\<And>x s s'. good_state s \<Longrightarrow> exact_run g [x] s \<Longrightarrow> P s \<Longrightarrow> fill x s = Inr s' \<Longrightarrow> P s'"
    and "good_state s" "exact_run g xs s" "P s" "fold_res fill xs s = Inr s'"
  shows "P s' \<and> net_size (book_of s') = net_size (book_of s) + sum_list (map signed_size xs)"
  using assms(2-)
proof (induction xs arbitrary: s)
  case (Cons x xs)
  from Cons.prems obtain s1 where s1: "fill x s = Inr s1" and run: "fold_res fill xs s1 = Inr s'"
    by (auto simp: bind_res_Inr)
  note E = exact_run_Cons [OF Cons.prems(2,1) s1 run]
  have "good_state s1" using fill_good [OF Cons.prems(1) _ s1] E(1) by (auto simp: exact_run_def)
  then show ?case using Cons.IH [OF _ E(2) step [OF Cons.prems(1) E(1) Cons.prems(3) s1] run] E(3) by auto
qed simp

lemma run_exact:
  assumes "good_state s" "exact_run g xs s" "fold_res fill xs s = Inr s'"
  shows "net_size (book_of s') = net_size (book_of s) + sum_list (map signed_size xs)"
  using run_exact_inv [of g "\<lambda>_. True" s xs s'] assms by simp

end

end
