(* ===== verification/FifoPnl.thy ===== *)
theory FifoPnl
  imports FillEngine
begin

text \<open>
  \<open>src/src/fifo_pnl.rs\<close>: the amount-based engine.  A lot stores what is left of it in quote
  currency (\<open>amount_u\<close>); closing books the entry-to-exit return on the matched amount.  The second
  half proves that the two-queue engine computes, bit for bit, what the notebook's scan over one
  list of lots computes.
\<close>

section \<open>State and operations\<close>

record fill_result =
  fr_realized_pnl :: f64
  fr_matched_amount_u :: f64
  fr_opened_amount_u :: f64
  fr_cumulative_realized_pnl :: f64
  fr_net_open_amount_u :: f64

record pnl_snapshot =
  ps_gross_realized_pnl :: f64
  ps_cumulative_fees :: f64
  ps_realized_pnl :: f64
  ps_floating_pnl :: f64
  ps_total_pnl :: f64
  ps_long_amount_u :: f64
  ps_short_amount_u :: f64
  ps_net_open_amount_u :: f64

record fifo_pnl =
  longs :: "lot list"
  shorts :: "lot list"
  long_amount_u :: f64
  short_amount_u :: f64
  gross_realized_pnl :: f64
  cumulative_fees :: f64

definition fifo_new :: fifo_pnl where
  "fifo_new = \<lparr>longs = [], shorts = [], long_amount_u = 0, short_amount_u = 0,
     gross_realized_pnl = 0, cumulative_fees = 0\<rparr>"

definition amount_gain :: "f64 \<Rightarrow> f64 \<Rightarrow> f64 \<Rightarrow> f64 \<Rightarrow> f64" where
  "amount_gain direction close_price entry matched = direction * (close_price - entry) / entry * matched"

definition close_fifo :: "lot list \<Rightarrow> f64 \<Rightarrow> f64 \<Rightarrow> f64 \<Rightarrow> lot list \<times> f64 \<times> f64" where
  "close_fifo lots close_price amount_u direction = fifo_loop (amount_gain direction close_price) lots amount_u 0"

definition net_open_amount_u :: "fifo_pnl \<Rightarrow> f64" where
  "net_open_amount_u self = long_amount_u self - short_amount_u self"

definition open_lot_count :: "fifo_pnl \<Rightarrow> nat" where
  "open_lot_count self = length (longs self) + length (shorts self)"

definition apply_fill :: "side \<Rightarrow> f64 \<Rightarrow> f64 \<Rightarrow> f64 \<Rightarrow> fifo_pnl \<Rightarrow> fifo_error + fill_result \<times> fifo_pnl" where
  "apply_fill sd price amount_u fee self =
     bind_res (validate_positive ''price'' price) (\<lambda>_.
     bind_res (validate_positive ''amount_u'' amount_u) (\<lambda>_.
     if \<not> is_finite fee then Inl (InvalidFee fee)
     else
       let (self1, realized, remaining) =
             (case sd of
                Buy \<Rightarrow> (case close_fifo (shorts self) price amount_u (-1) of
                         (lots, r, q) \<Rightarrow> (self\<lparr>shorts := lots\<rparr>, r, q))
              | Sell \<Rightarrow> (case close_fifo (longs self) price amount_u 1 of
                         (lots, r, q) \<Rightarrow> (self\<lparr>longs := lots\<rparr>, r, q)));
           matched = amount_u - remaining;
           self2 = (case sd of
                Buy \<Rightarrow> self1\<lparr>short_amount_u := short_amount_u self1 - matched\<rparr>
              | Sell \<Rightarrow> self1\<lparr>long_amount_u := long_amount_u self1 - matched\<rparr>);
           self3 = (if 0 < remaining then
                      (let lot = \<lparr>entry_price = price, lot_size = remaining\<rparr>
                       in case sd of
                            Buy \<Rightarrow> self2\<lparr>longs := longs self2 @ [lot],
                                         long_amount_u := long_amount_u self2 + remaining\<rparr>
                          | Sell \<Rightarrow> self2\<lparr>shorts := shorts self2 @ [lot],
                                         short_amount_u := short_amount_u self2 + remaining\<rparr>)
                    else self2);
           self4 = self3\<lparr>gross_realized_pnl := gross_realized_pnl self3 + realized,
                         cumulative_fees := cumulative_fees self3 + fee\<rparr>
       in Inr (\<lparr>fr_realized_pnl = realized, fr_matched_amount_u = matched, fr_opened_amount_u = remaining,
                fr_cumulative_realized_pnl = gross_realized_pnl self4 - cumulative_fees self4,
                fr_net_open_amount_u = net_open_amount_u self4\<rparr>, self4)))"

definition floating_pnl :: "f64 \<Rightarrow> f64 \<Rightarrow> fifo_pnl \<Rightarrow> fifo_error + f64" where
  "floating_pnl bid ask self =
     bind_res (validate_positive ''bid'' bid) (\<lambda>_.
     bind_res (validate_positive ''ask'' ask) (\<lambda>_.
       let long_pnl = fsum (map (\<lambda>l. (ask - entry_price l) / entry_price l * lot_size l) (longs self));
           short_pnl = fsum (map (\<lambda>l. (entry_price l - bid) / entry_price l * lot_size l) (shorts self))
       in Inr (long_pnl + short_pnl)))"

definition mark_pnl :: "f64 \<Rightarrow> fifo_pnl \<Rightarrow> fifo_error + f64" where
  "mark_pnl mark_price self = floating_pnl mark_price mark_price self"

definition snapshot :: "f64 \<Rightarrow> f64 \<Rightarrow> fifo_pnl \<Rightarrow> fifo_error + pnl_snapshot" where
  "snapshot bid ask self =
     bind_res (floating_pnl bid ask self) (\<lambda>floating.
       let realized = gross_realized_pnl self - cumulative_fees self
       in Inr \<lparr>ps_gross_realized_pnl = gross_realized_pnl self, ps_cumulative_fees = cumulative_fees self,
               ps_realized_pnl = realized, ps_floating_pnl = floating, ps_total_pnl = realized + floating,
               ps_long_amount_u = long_amount_u self, ps_short_amount_u = short_amount_u self,
               ps_net_open_amount_u = long_amount_u self - short_amount_u self\<rparr>)"

section \<open>The fill-engine contract\<close>

definition fifo_book :: "fifo_pnl \<Rightarrow> book" where
  "fifo_book s = (longs s, shorts s)"

definition fifo_fill :: "fill \<Rightarrow> fifo_pnl \<Rightarrow> fifo_error + fifo_pnl" where
  "fifo_fill x s =
     map_sum id snd (apply_fill (fill_side x) (fill_price x) (fill_size x) (fill_fee x) s)"

lemma apply_fill_invalid:
  assumes "\<not> valid_fill x"
  shows "\<exists>e. apply_fill (fill_side x) (fill_price x) (fill_size x) (fill_fee x) s = Inl e"
  using assms by (auto simp: apply_fill_def valid_fill_def validate_positive_def)

interpretation fifo: fill_engine fifo_fill fifo_book amount_gain
proof (unfold_locales, goal_cases)
  case (1 x s)
  then show ?case
    by (auto simp: fifo_fill_def apply_fill_def valid_fill_def validate_positive_def Let_def fifo_book_def
        book_step_def close_fifo_def open_rest_def split: side.splits prod.splits)
next
  case (2 x s)
  then show ?case using apply_fill_invalid [of x s] by (auto simp: fifo_fill_def)
qed

lemma fifo_new_good [simp]: "fifo.good_state fifo_new"
  by (simp add: fifo.good_state_def fifo_book_def fifo_new_def wf_book_def one_sided_def)

text \<open>The running totals equal the sums over the lots as long as the amounts are exact.\<close>

definition counters_exact :: "fifo_pnl \<Rightarrow> bool" where
  "counters_exact s \<longleftrightarrow>
     long_amount_u s = Fin (lots_total (longs s)) \<and> short_amount_u s = Fin (lots_total (shorts s))"

lemma fifo_loop_counters:
  assumes L: "fifo_loop gn ls (Fin A) 0 = (l, r, rest)" and "good_amount (Fin A)" "units g A" "unit_exp g"
    and "wf_lots ls" "units_lots g ls" "wf_lots other" "units_lots g other"
    and "lots_total ls + lots_total other + A \<le> max_units g"
  obtains Q where "rest = Fin Q" "0 \<le> Q" "rnd (A - Q) = Fin (A - Q)"
    "rnd (lots_total ls - (A - Q)) = Fin (lots_total l)" "rnd (lots_total other + Q) = Fin (lots_total other + Q)"
proof -
  have nn: "0 \<le> lots_total ls" "0 \<le> lots_total other" "0 \<le> A"
    using assms(2,5,7) by (simp_all add: lots_total_nonneg good_amount_def)
  have W: "wf_lots l" "good_amount rest" "rest \<le> Fin A" using fifo_loop_wf [OF assms(5,2) L] by auto
  have "lots_total ls \<le> max_units g" "A \<le> max_units g" using nn assms(9) by linarith+
  then have E: "units_lots g l" "units g (qval rest)" "lots_total ls - lots_total l = A - qval rest"
    using fifo_loop_exact [OF assms(5,2,4,6) _ _ _ L] assms(3) by simp_all
  obtain Q where Q: "rest = Fin Q" "0 \<le> Q" using W(2) by (auto simp: good_amount_def is_finite_iff)
  have l: "0 \<le> lots_total l" using W lots_total_nonneg by simp
  have uq: "units g Q" "units g A" "units g (lots_total l)" "units g (lots_total other)"
    using E(1,2) Q assms(3,8) lots_total_units by simp_all
  have ex: "units g q \<Longrightarrow> \<bar>q\<bar> \<le> max_units g \<Longrightarrow> rnd q = Fin q" for q using rnd_units [OF assms(4)] .
  have QA: "Q \<le> A" using W Q by simp
  have "rnd (A - Q) = Fin (A - Q)" using QA nn Q assms(9) by (intro ex units_diff uq) simp
  moreover have "lots_total ls - (A - Q) = lots_total l" using E(3) Q by simp
  moreover have "rnd (lots_total l) = Fin (lots_total l)" using QA E(3) Q l nn assms(9) by (intro ex uq) simp
  moreover have "rnd (lots_total other + Q) = Fin (lots_total other + Q)"
    using QA Q nn assms(9) by (intro ex units_add uq) simp
  ultimately show ?thesis using that [of Q] Q by simp
qed

lemma fifo_fill_counters:
  assumes good: "fifo.good_state s" and run: "fifo.exact_run g [x] s"
    and ce: "counters_exact s" and f: "fifo_fill x s = Inr s'"
  shows "counters_exact s'"
proof -
  have v: "valid_fill x" using fifo.fill_Inr [OF f] by simp
  have ga: "good_amount (fill_size x)" using good_amount_fill v run by (auto simp: fifo.exact_run_def)
  then obtain A where A: "fill_size x = Fin A" by (auto simp: good_amount_def is_finite_iff)
  have pre: "good_amount (Fin A)" "units g A" "unit_exp g" "wf_lots (longs s)" "units_lots g (longs s)"
    "wf_lots (shorts s)" "units_lots g (shorts s)"
    "lots_total (longs s) + lots_total (shorts s) + A \<le> max_units g"
    "lots_total (shorts s) + lots_total (longs s) + A \<le> max_units g"
    using good run ga A
    by (auto simp: fifo.good_state_def fifo_book_def wf_book_def fifo.exact_run_def units_book_def gross_size_def)
  show ?thesis
  proof (cases "fill_side x")
    case Buy
    obtain l r rest where L: "fifo_loop (amount_gain (-1) (fill_price x)) (shorts s) (Fin A) 0 = (l, r, rest)"
      by (metis prod_cases3)
    obtain Q where "rest = Fin Q" "0 \<le> Q" "rnd (A - Q) = Fin (A - Q)"
      "rnd (lots_total (shorts s) - (A - Q)) = Fin (lots_total l)"
      "rnd (lots_total (longs s) + Q) = Fin (lots_total (longs s) + Q)"
      by (rule fifo_loop_counters [OF L pre(1-3,6,7,4,5,9)])
    then show ?thesis using f ce A v
      by (auto simp: Buy fifo_fill_def apply_fill_def valid_fill_def validate_positive_def Let_def close_fifo_def
          L counters_exact_def)
  next
    case Sell
    obtain l r rest where L: "fifo_loop (amount_gain 1 (fill_price x)) (longs s) (Fin A) 0 = (l, r, rest)"
      by (metis prod_cases3)
    obtain Q where "rest = Fin Q" "0 \<le> Q" "rnd (A - Q) = Fin (A - Q)"
      "rnd (lots_total (longs s) - (A - Q)) = Fin (lots_total l)"
      "rnd (lots_total (shorts s) + Q) = Fin (lots_total (shorts s) + Q)"
      by (rule fifo_loop_counters [OF L pre(1-3,4,5,6,7,8)])
    then show ?thesis using f ce A v
      by (auto simp: Sell fifo_fill_def apply_fill_def valid_fill_def validate_positive_def Let_def close_fifo_def
          L counters_exact_def)
  qed
qed

section \<open>The notebook's list scan\<close>

text \<open>\<open>reference_apply\<close> and \<open>reference_floating\<close> of the engine's test: one list holds the lots of
  both sides, and a fill scans all of it.\<close>

record ref_lot =
  ref_side :: side
  ref_price :: f64
  ref_amount_u :: f64

definition ref_gain :: "f64 \<Rightarrow> side \<Rightarrow> f64 \<Rightarrow> f64 \<Rightarrow> f64" where
  "ref_gain price lot_side lot_price matched =
     (case lot_side of
        Buy \<Rightarrow> (price - lot_price) / lot_price * matched
      | Sell \<Rightarrow> (lot_price - price) / lot_price * matched)"

fun ref_scan :: "side \<Rightarrow> f64 \<Rightarrow> ref_lot list \<Rightarrow> f64 \<Rightarrow> f64 \<Rightarrow> ref_lot list \<times> f64 \<times> f64" where
  "ref_scan sd price [] remaining realized = ([], remaining, realized)"
| "ref_scan sd price (lot # lots) remaining realized =
     (if ref_side lot = sd \<or> feq remaining 0 then
        (case ref_scan sd price lots remaining realized of (next, q, r) \<Rightarrow> (lot # next, q, r))
      else
        let matched = fmin remaining (ref_amount_u lot);
            realized' = realized + ref_gain price (ref_side lot) (ref_price lot) matched;
            remaining' = remaining - matched;
            lot' = lot\<lparr>ref_amount_u := ref_amount_u lot - matched\<rparr>
        in (case ref_scan sd price lots remaining' realized' of
              (next, q, r) \<Rightarrow> (if 0 < ref_amount_u lot' then lot' # next else next, q, r)))"

definition reference_apply :: "ref_lot list \<Rightarrow> side \<Rightarrow> f64 \<Rightarrow> f64 \<Rightarrow> f64 \<times> ref_lot list" where
  "reference_apply lots sd price amount_u =
     (case ref_scan sd price lots amount_u 0 of
        (next, remaining, realized) \<Rightarrow>
          (realized,
           if 0 < remaining then next @ [\<lparr>ref_side = sd, ref_price = price, ref_amount_u = remaining\<rparr>] else next))"

definition reference_floating :: "ref_lot list \<Rightarrow> f64 \<Rightarrow> f64 \<Rightarrow> f64" where
  "reference_floating lots bid ask =
     fsum (map (\<lambda>l. case ref_side l of
         Buy \<Rightarrow> (ask - ref_price l) / ref_price l * ref_amount_u l
       | Sell \<Rightarrow> (ref_price l - bid) / ref_price l * ref_amount_u l) lots)"

text \<open>The lots of one side of the list, as the engine's queue would hold them.\<close>

definition ref_queue :: "side \<Rightarrow> ref_lot list \<Rightarrow> lot list" where
  "ref_queue sd lots =
     map (\<lambda>l. \<lparr>entry_price = ref_price l, lot_size = ref_amount_u l\<rparr>) (filter (\<lambda>l. ref_side l = sd) lots)"

definition ref_rel :: "fifo_pnl \<Rightarrow> ref_lot list \<Rightarrow> bool" where
  "ref_rel s lots \<longleftrightarrow> longs s = ref_queue Buy lots \<and> shorts s = ref_queue Sell lots"

definition close_gain :: "side \<Rightarrow> f64 \<Rightarrow> f64 \<Rightarrow> f64 \<Rightarrow> f64" where
  "close_gain sd price = (case sd of Buy \<Rightarrow> amount_gain (-1) price | Sell \<Rightarrow> amount_gain 1 price)"

text \<open>The engine multiplies by the direction; the notebook swaps the operands of the difference.
  Under rounding both give the same bits.\<close>

lemma close_gain_eq:
  "close_gain sd price entry m = ref_gain price (opposite sd) entry m"
  by (cases sd) (simp_all add: close_gain_def amount_gain_def ref_gain_def f64_neg_diff)

lemma ref_queue_simps [simp]: "ref_queue sd [] = []" "ref_queue sd (xs @ ys) = ref_queue sd xs @ ref_queue sd ys"
  "ref_queue sd (l # ls) =
    (if ref_side l = sd then \<lparr>entry_price = ref_price l, lot_size = ref_amount_u l\<rparr> # ref_queue sd ls else ref_queue sd ls)"
  by (auto simp: ref_queue_def)

lemma ref_scan_zero: "ref_scan sd price lots (Fin 0) r = (lots, Fin 0, r)"
  by (induction lots) auto

lemma ref_scan_loop:
  assumes "wf_lots (ref_queue (opposite sd) lots)" "good_amount amount"
    "ref_scan sd price lots amount r = (next, rest, r')"
  shows "fifo_loop (close_gain sd price) (ref_queue (opposite sd) lots) amount r = (ref_queue (opposite sd) next, r', rest)
    \<and> ref_queue sd next = ref_queue sd lots"
  using assms
proof (induction lots arbitrary: amount r "next")
  case Nil
  then show ?case by (auto simp: step_simps)
next
  case (Cons l ls)
  obtain a where a: "amount = Fin a" "0 \<le> a" "is_f64 (Fin a)"
    using Cons.prems(2) by (auto simp: good_amount_def is_finite_iff)
  consider "ref_side l = sd" | "ref_side l = opposite sd" "a = 0" | "ref_side l = opposite sd" "0 < a"
    using a(2) side_neq(1) by fastforce
  then show ?case
  proof cases
    case 1
    then show ?thesis using Cons by (auto split: prod.splits)
  next
    case 2
    then have "next = l # ls" "rest = Fin 0" "r' = r"
      using Cons.prems(3) ref_scan_zero [of sd price "l # ls" r] a(1) by (simp_all del: ref_scan.simps)
    then show ?thesis using 2 a by (simp add: fifo_loop_stop)
  next
    case 3
    obtain p q where l: "l = \<lparr>ref_side = opposite sd, ref_price = Fin p, ref_amount_u = Fin q\<rparr>"
      and pq: "0 < q" "is_f64 (Fin q)"
      using Cons.prems(1) 3 by (cases l) (auto elim!: wf_lotE)
    note g = close_gain_eq [symmetric]
    show ?thesis
    proof (cases "q \<le> a")
      case True
      obtain c where c: "rnd (a - q) = Fin c" "0 \<le> c" "is_f64 (Fin c)"
        using f64_sub_bounds [of a q] a pq True by (metis less_imp_le)
      show ?thesis
        using Cons.prems 3 a pq True c Cons.IH [of "Fin c" "r + close_gain sd price (Fin p) (Fin q)" "next"]
        by (simp add: l g min_absorb2 good_amount_def fifo_loop_whole Let_def split: prod.splits)
    next
      case False
      obtain c where c: "rnd (q - a) = Fin c" "0 < c"
        using f64_sub_bounds [of q a] a pq False by (metis less_imp_le less_le not_le)
      show ?thesis
        using Cons.prems 3 a pq False c fifo_loop_part [of a q "close_gain sd price" "Fin p"]
        by (auto simp: l g min_absorb1 Let_def ref_scan_zero)
    qed
  qed
qed

lemma apply_fill_reference:
  assumes good: "fifo.good_state s" and rel: "ref_rel s lots" and x: "f64_fill x"
    and ok: "apply_fill (fill_side x) (fill_price x) (fill_size x) (fill_fee x) s = Inr (res, s')"
    and ref: "reference_apply lots (fill_side x) (fill_price x) (fill_size x) = (realized, lots')"
  shows "realized = fr_realized_pnl res \<and> ref_rel s' lots'"
proof -
  have v: "valid_fill x" using apply_fill_invalid [of x s] ok by auto
  note ga = good_amount_fill [OF v x]
  obtain nx rest r where S: "ref_scan (fill_side x) (fill_price x) lots (fill_size x) 0 = (nx, rest, r)"
    by (metis prod_cases3)
  have "wf_lots (ref_queue (opposite (fill_side x)) lots)"
    using good rel by (cases "fill_side x") (auto simp: fifo.good_state_def fifo_book_def wf_book_def ref_rel_def)
  note L = ref_scan_loop [OF this ga S]
  show ?thesis
    using L S ref ok rel v
    by (cases "fill_side x")
      (auto simp: reference_apply_def apply_fill_def close_fifo_def close_gain_def Let_def ref_rel_def valid_fill_def
        validate_positive_def)
qed

text \<open>Running both engines over a list of fills.\<close>

fun fill_all :: "fill list \<Rightarrow> fifo_pnl \<Rightarrow> fifo_error + fill_result list \<times> fifo_pnl" where
  "fill_all [] s = Inr ([], s)"
| "fill_all (x # xs) s =
     bind_res (apply_fill (fill_side x) (fill_price x) (fill_size x) (fill_fee x) s) (\<lambda>(res, s1).
     bind_res (fill_all xs s1) (\<lambda>(rs, s'). Inr (res # rs, s')))"

fun reference_all :: "fill list \<Rightarrow> ref_lot list \<Rightarrow> f64 list \<times> ref_lot list" where
  "reference_all [] lots = ([], lots)"
| "reference_all (x # xs) lots =
     (case reference_apply lots (fill_side x) (fill_price x) (fill_size x) of
        (r, lots1) \<Rightarrow> (case reference_all xs lots1 of (rs, lots') \<Rightarrow> (r # rs, lots')))"

lemma fill_all_fold: "fold_res fifo_fill xs s = map_sum id snd (fill_all xs s)"
proof (induction xs arbitrary: s)
  case (Cons x xs)
  show ?case
  proof (cases "apply_fill (fill_side x) (fill_price x) (fill_size x) (fill_fee x) s")
    case (Inr p)
    then show ?thesis using Cons [of "snd p"]
      by (cases "fill_all xs (snd p)") (auto simp: fifo_fill_def split: prod.splits)
  qed (simp add: fifo_fill_def)
qed simp

lemma fill_all_reference:
  assumes "fifo.good_state s" "ref_rel s lots" "list_all f64_fill xs" "fill_all xs s = Inr (rs, s')"
  shows "fst (reference_all xs lots) = map fr_realized_pnl rs \<and> ref_rel s' (snd (reference_all xs lots))
    \<and> fifo.good_state s'"
  using assms
proof (induction xs arbitrary: s lots rs)
  case (Cons x xs)
  from Cons.prems(4) obtain res s1 rs1 where ok: "apply_fill (fill_side x) (fill_price x) (fill_size x) (fill_fee x) s = Inr (res, s1)"
    and rest: "fill_all xs s1 = Inr (rs1, s')" and rs: "rs = res # rs1"
    by (auto simp: bind_res_Inr)
  obtain r lots1 where ref: "reference_apply lots (fill_side x) (fill_price x) (fill_size x) = (r, lots1)" by fastforce
  have "r = fr_realized_pnl res" "ref_rel s1 lots1"
    using apply_fill_reference [OF Cons.prems(1,2) _ ok ref] Cons.prems(3) by auto
  moreover have "fifo.good_state s1"
    using fifo.fill_good [OF Cons.prems(1), of x s1] Cons.prems(3) ok by (simp add: fifo_fill_def)
  ultimately show ?case using Cons.IH [OF _ _ _ rest, of lots1] Cons.prems(3) ref rs by (auto split: prod.splits)
qed auto

lemma ref_floating_one_sided:
  assumes "ref_rel s lots" "one_sided (fifo_book s)"
  shows "floating_pnl bid ask s = bind_res (validate_positive ''bid'' bid) (\<lambda>_. bind_res (validate_positive ''ask'' ask)
    (\<lambda>_. Inr (reference_floating lots bid ask)))"
proof -
  have longs: "map (\<lambda>l. (ask - entry_price l) / entry_price l * lot_size l) (ref_queue Buy ls) =
      map (\<lambda>l. case ref_side l of Buy \<Rightarrow> (ask - ref_price l) / ref_price l * ref_amount_u l
       | Sell \<Rightarrow> (ref_price l - bid) / ref_price l * ref_amount_u l) ls" if "ref_queue Sell ls = []" for ls
    using that by (induction ls) (auto split: if_splits side.splits)
  have shorts: "map (\<lambda>l. (entry_price l - bid) / entry_price l * lot_size l) (ref_queue Sell ls) =
      map (\<lambda>l. case ref_side l of Buy \<Rightarrow> (ask - ref_price l) / ref_price l * ref_amount_u l
       | Sell \<Rightarrow> (ref_price l - bid) / ref_price l * ref_amount_u l) ls" if "ref_queue Buy ls = []" for ls
    using that by (induction ls) (auto split: if_splits side.splits)
  show ?thesis
    using assms longs [of lots] shorts [of lots]
    by (auto simp: floating_pnl_def reference_floating_def one_sided_def fifo_book_def ref_rel_def)
qed

section \<open>Properties\<close>

text \<open>C25: the two-queue engine is the notebook's list scan, bit for bit. For every sequence of valid
  fills, each fill realizes exactly the same 64-bit value in both, and afterwards the floating profit at
  any bid and ask is the same value too; rounding included.\<close>

theorem fifo_matches_notebook:
  assumes "list_all valid_fill xs" "list_all f64_fill xs"
  shows "\<exists>rs s' lots'. fill_all xs fifo_new = Inr (rs, s') \<and> reference_all xs [] = (map fr_realized_pnl rs, lots')
    \<and> (is_finite bid \<and> 0 < bid \<and> is_finite ask \<and> 0 < ask \<longrightarrow>
         floating_pnl bid ask s' = Inr (reference_floating lots' bid ask))"
proof -
  obtain s1 where run: "fold_res fifo_fill xs fifo_new = Inr s1" using fifo.run_ok_iff assms(1) by blast
  obtain rs s' where all: "fill_all xs fifo_new = Inr (rs, s')"
    using run unfolding fill_all_fold by (cases "fill_all xs fifo_new") auto
  have "ref_rel fifo_new []" by (simp add: ref_rel_def fifo_new_def)
  note R = fill_all_reference [OF fifo_new_good this assms(2) all]
  have "one_sided (fifo_book s')" using R by (auto simp: fifo.good_state_def)
  then show ?thesis
    using all R ref_floating_one_sided [of s' "snd (reference_all xs [])" bid ask]
    by (intro exI [of _ rs] exI [of _ s'] exI [of _ "snd (reference_all xs [])"])
      (auto simp: validate_positive_def prod_eq_iff)
qed

theorem fifo_matches_notebook_witness:
  "\<exists>rs s' lots'.
    fill_all [\<lparr>fill_side = Buy, fill_price = Fin 100, fill_size = Fin 1000, fill_fee = 0\<rparr>,
              \<lparr>fill_side = Sell, fill_price = Fin 110, fill_size = Fin 1600, fill_fee = 0\<rparr>] fifo_new = Inr (rs, s')
    \<and> reference_all [\<lparr>fill_side = Buy, fill_price = Fin 100, fill_size = Fin 1000, fill_fee = 0\<rparr>,
              \<lparr>fill_side = Sell, fill_price = Fin 110, fill_size = Fin 1600, fill_fee = 0\<rparr>] [] =
        (map fr_realized_pnl rs, lots')
    \<and> floating_pnl (Fin 104) (Fin 105) s' = Inr (reference_floating lots' (Fin 104) (Fin 105))"
proof -
  let ?xs = "[\<lparr>fill_side = Buy, fill_price = Fin 100, fill_size = Fin 1000, fill_fee = 0\<rparr>,
              \<lparr>fill_side = Sell, fill_price = Fin 110, fill_size = Fin 1600, fill_fee = 0\<rparr>]"
  have "rnd 100 = Fin 100" "rnd 1000 = Fin 1000" "rnd 110 = Fin 110" "rnd 1600 = Fin 1600"
    using rnd_of_int [of 100] rnd_of_int [of 1000] rnd_of_int [of 110] rnd_of_int [of 1600] by simp_all
  then have "list_all valid_fill ?xs" "list_all f64_fill ?xs" by (simp_all add: valid_fill_def f64_fill_def)
  then show ?thesis using fifo_matches_notebook [of ?xs "Fin 104" "Fin 105"] by auto
qed

text \<open>while amounts are exact, the running totals are the sums over the open lots and the net open
  amount is exactly the amount bought minus the amount sold.\<close>

theorem fifo_net_open_exact:
  assumes "fifo.exact_run g xs fifo_new" "list_all valid_fill xs"
  shows "\<exists>s'. fold_res fifo_fill xs fifo_new = Inr s'
    \<and> long_amount_u s' = Fin (lots_total (longs s')) \<and> short_amount_u s' = Fin (lots_total (shorts s'))
    \<and> net_open_amount_u s' = rnd (sum_list (map signed_size xs))
    \<and> lots_total (longs s') - lots_total (shorts s') = sum_list (map signed_size xs)"
proof -
  obtain s' where run: "fold_res fifo_fill xs fifo_new = Inr s'" using fifo.run_ok_iff assms(2) by blast
  have "counters_exact fifo_new" by (simp add: counters_exact_def fifo_new_def zero_f64_def)
  then have "counters_exact s' \<and> net_size (fifo_book s') = net_size (fifo_book fifo_new) + sum_list (map signed_size xs)"
    using fifo.run_exact_inv [OF _ fifo_new_good assms(1) _ run, of counters_exact] fifo_fill_counters by blast
  then show ?thesis using run
    by (auto simp: counters_exact_def net_open_amount_u_def net_size_def fifo_book_def fifo_new_def)
qed

theorem fifo_net_open_exact_witness:
  "\<exists>s'. fold_res fifo_fill [\<lparr>fill_side = Buy, fill_price = Fin 100, fill_size = Fin 1000, fill_fee = 0\<rparr>,
              \<lparr>fill_side = Sell, fill_price = Fin 110, fill_size = Fin 1600, fill_fee = 0\<rparr>] fifo_new = Inr s'
    \<and> net_open_amount_u s' = Fin (- 600)"
proof -
  let ?xs = "[\<lparr>fill_side = Buy, fill_price = Fin 100, fill_size = Fin 1000, fill_fee = 0\<rparr>,
              \<lparr>fill_side = Sell, fill_price = Fin 110, fill_size = Fin 1600, fill_fee = 0\<rparr>]"
  have i: "units 0 (numeral n)" for n unfolding units_def by (intro exI [of _ "numeral n"]) simp
  have r: "rnd 100 = Fin 100" "rnd 1000 = Fin 1000" "rnd 110 = Fin 110" "rnd 1600 = Fin 1600" "rnd (- 600) = Fin (- 600)"
    using rnd_of_int [of 100] rnd_of_int [of 1000] rnd_of_int [of 110] rnd_of_int [of 1600] rnd_of_int [of "- 600"] by simp_all
  have "fifo.exact_run 0 ?xs fifo_new" "list_all valid_fill ?xs"
    using i r by (simp_all add: fifo.exact_run_def valid_fill_def f64_fill_def unit_exp_def max_units_def
        fifo_book_def fifo_new_def units_book_def gross_size_def)
  from fifo_net_open_exact [OF this] show ?thesis using r by (auto simp: signed_size_def)
qed

text \<open>no engine is ever long and short at once. After any sequence of valid fills one of the two
  queues is empty, and every lot left in the other has a positive finite price and amount.\<close>

theorem fifo_one_sided:
  assumes "fold_res fifo_fill xs fifo_new = Inr s'" "list_all f64_fill xs"
  shows "(longs s' = [] \<or> shorts s' = []) \<and> wf_lots (longs s') \<and> wf_lots (shorts s')"
  using fifo.run_good [OF fifo_new_good assms(2,1)]
  by (auto simp: fifo.good_state_def one_sided_def wf_book_def fifo_book_def)

theorem fifo_one_sided_witness:
  "\<exists>s'. fold_res fifo_fill [\<lparr>fill_side = Buy, fill_price = Fin 100, fill_size = Fin 1000, fill_fee = 0\<rparr>] fifo_new = Inr s'
    \<and> (longs s' = [] \<or> shorts s' = []) \<and> wf_lots (longs s') \<and> wf_lots (shorts s')"
proof -
  let ?xs = "[\<lparr>fill_side = Buy, fill_price = Fin 100, fill_size = Fin 1000, fill_fee = 0\<rparr>]"
  have "rnd 100 = Fin 100" "rnd 1000 = Fin 1000" using rnd_of_int [of 100] rnd_of_int [of 1000] by simp_all
  then have f: "list_all f64_fill ?xs" and "list_all valid_fill ?xs" by (simp_all add: valid_fill_def f64_fill_def)
  then obtain s' where "fold_res fifo_fill ?xs fifo_new = Inr s'" using fifo.run_ok_iff by blast
  with fifo_one_sided [OF this f] show ?thesis by blast
qed

text \<open>first in, first out. A fill leaves of the opposite queue a suffix, at most with its first lot
  reduced; it opens a lot on its own side only when the opposite queue is used up.\<close>

theorem fifo_consumes_oldest_first:
  assumes "fifo.good_state s" "f64_fill x"
    "apply_fill (fill_side x) (fill_price x) (fill_size x) (fill_fee x) s = Inr (res, s')"
  shows "case fill_side x of
      Buy \<Rightarrow> fifo_suffix (shorts s) (shorts s') \<and> (longs s' \<noteq> longs s \<longrightarrow> shorts s' = [])
    | Sell \<Rightarrow> fifo_suffix (longs s) (longs s') \<and> (shorts s' \<noteq> shorts s \<longrightarrow> longs s' = [])"
proof -
  have f: "fifo_fill x s = Inr s'" using assms(3) by (simp add: fifo_fill_def)
  have v: "valid_fill x" and b: "fifo_book s' = book_step amount_gain x (fifo_book s)" using fifo.fill_Inr [OF f] by auto
  note ga = good_amount_fill [OF v assms(2)]
  have wf: "wf_lots (longs s)" "wf_lots (shorts s)" using assms(1) by (auto simp: fifo.good_state_def wf_book_def fifo_book_def)
  note S = fifo_loop_suffix [OF wf(2) ga, of "amount_gain (-1) (fill_price x)" 0]
    fifo_loop_suffix [OF wf(1) ga, of "amount_gain 1 (fill_price x)" 0]
  note W = fifo_loop_wf [OF wf(2) ga, of "amount_gain (-1) (fill_price x)" 0]
    fifo_loop_wf [OF wf(1) ga, of "amount_gain 1 (fill_price x)" 0]
  show ?thesis using b S W
    by (auto simp: book_step_def fifo_book_def open_rest_def split: side.splits prod.splits if_splits)
qed

theorem fifo_consumes_oldest_first_witness:
  "\<exists>res s'. apply_fill Buy (Fin 100) (Fin 1000) 0 fifo_new = Inr (res, s') \<and> fifo_suffix [] (shorts s')"
proof -
  let ?x = "\<lparr>fill_side = Buy, fill_price = Fin 100, fill_size = Fin 1000, fill_fee = 0\<rparr>"
  have r: "rnd 100 = Fin 100" "rnd 1000 = Fin 1000" using rnd_of_int [of 100] rnd_of_int [of 1000] by simp_all
  then have f: "f64_fill ?x" and v: "valid_fill ?x" by (simp_all add: valid_fill_def f64_fill_def)
  obtain s' where "fifo_fill ?x fifo_new = Inr s'" using fifo.fill_valid [OF v, of fifo_new] by blast
  then obtain res where a: "apply_fill Buy (Fin 100) (Fin 1000) 0 fifo_new = Inr (res, s')"
    by (cases "apply_fill Buy (Fin 100) (Fin 1000) 0 fifo_new") (auto simp: fifo_fill_def)
  show ?thesis using fifo_consumes_oldest_first [OF fifo_new_good f, of res s'] a by (auto simp: fifo_new_def)
qed

text \<open>validation. A fill is rejected exactly when its price or amount is not finite and positive or
  its fee is not finite, and the error names the first of these checks that fails.\<close>

theorem apply_fill_validation:
  "(case apply_fill sd price amount fee s of Inl e \<Rightarrow> Some e | Inr _ \<Rightarrow> None) =
    (if \<not> (is_finite price \<and> 0 < price) then Some (InvalidPositiveValue ''price'' price)
     else if \<not> (is_finite amount \<and> 0 < amount) then Some (InvalidPositiveValue ''amount_u'' amount)
     else if \<not> is_finite fee then Some (InvalidFee fee)
     else None)"
  by (auto simp: apply_fill_def validate_positive_def Let_def split: prod.splits)

end
