(* ===== verification/QuantityFifoPnl.thy ===== *)
theory QuantityFifoPnl
  imports FillEngine
begin

text \<open>
  \<open>src/src/quantity_fifo_pnl.rs\<close>: the engine that matches in base-asset units.  Besides the
  fill-engine contract, this theory proves the accounting identity of the engine: while the
  arithmetic is exact, realized plus floating profit at any mark price is the profit of every fill
  marked directly, so no matching order and no price difference can create or lose money.
\<close>

section \<open>State and operations\<close>

record quantity_pnl_snapshot =
  qs_gross_realized_pnl :: f64
  qs_cumulative_fees :: f64
  qs_realized_pnl :: f64
  qs_floating_pnl :: f64
  qs_total_pnl :: f64

record quantity_fifo_pnl =
  q_longs :: "lot list"
  q_shorts :: "lot list"
  q_gross_realized_pnl :: f64
  q_cumulative_fees :: f64

definition quantity_new :: quantity_fifo_pnl where
  "quantity_new = \<lparr>q_longs = [], q_shorts = [], q_gross_realized_pnl = 0, q_cumulative_fees = 0\<rparr>"

definition quantity_gain :: "f64 \<Rightarrow> f64 \<Rightarrow> f64 \<Rightarrow> f64 \<Rightarrow> f64" where
  "quantity_gain direction close_price entry matched = direction * (close_price - entry) * matched"

definition q_close_fifo :: "lot list \<Rightarrow> f64 \<Rightarrow> f64 \<Rightarrow> f64 \<Rightarrow> lot list \<times> f64 \<times> f64" where
  "q_close_fifo lots close_price quantity direction =
     fifo_loop (quantity_gain direction close_price) lots quantity 0"

definition q_apply_fill :: "side \<Rightarrow> f64 \<Rightarrow> f64 \<Rightarrow> f64 \<Rightarrow> quantity_fifo_pnl \<Rightarrow> fifo_error + quantity_fifo_pnl" where
  "q_apply_fill sd price quantity fee self =
     bind_res (validate_positive ''price'' price) (\<lambda>_.
     bind_res (validate_positive ''quantity'' quantity) (\<lambda>_.
     if \<not> is_finite fee then Inl (InvalidFee fee)
     else
       let (self1, realized, remaining) =
             (case sd of
                Buy \<Rightarrow> (case q_close_fifo (q_shorts self) price quantity (-1) of
                         (lots, r, q) \<Rightarrow> (self\<lparr>q_shorts := lots\<rparr>, r, q))
              | Sell \<Rightarrow> (case q_close_fifo (q_longs self) price quantity 1 of
                         (lots, r, q) \<Rightarrow> (self\<lparr>q_longs := lots\<rparr>, r, q)));
           self2 = (if 0 < remaining then
                      (let lot = \<lparr>entry_price = price, lot_size = remaining\<rparr>
                       in case sd of
                            Buy \<Rightarrow> self1\<lparr>q_longs := q_longs self1 @ [lot]\<rparr>
                          | Sell \<Rightarrow> self1\<lparr>q_shorts := q_shorts self1 @ [lot]\<rparr>)
                    else self1)
       in Inr (self2\<lparr>q_gross_realized_pnl := q_gross_realized_pnl self2 + realized,
                     q_cumulative_fees := q_cumulative_fees self2 + fee\<rparr>)))"

definition q_floating :: "f64 \<Rightarrow> f64 \<Rightarrow> quantity_fifo_pnl \<Rightarrow> f64" where
  "q_floating bid ask self =
     fsum (map (\<lambda>l. (ask - entry_price l) * lot_size l) (q_longs self)
         @ map (\<lambda>l. (entry_price l - bid) * lot_size l) (q_shorts self))"

definition q_snapshot :: "f64 \<Rightarrow> f64 \<Rightarrow> quantity_fifo_pnl \<Rightarrow> fifo_error + quantity_pnl_snapshot" where
  "q_snapshot bid ask self =
     bind_res (validate_positive ''bid'' bid) (\<lambda>_.
     bind_res (validate_positive ''ask'' ask) (\<lambda>_.
       let floating = q_floating bid ask self;
           realized = q_gross_realized_pnl self - q_cumulative_fees self
       in Inr \<lparr>qs_gross_realized_pnl = q_gross_realized_pnl self, qs_cumulative_fees = q_cumulative_fees self,
               qs_realized_pnl = realized, qs_floating_pnl = floating, qs_total_pnl = realized + floating\<rparr>))"

section \<open>The fill-engine contract\<close>

definition quantity_book :: "quantity_fifo_pnl \<Rightarrow> book" where
  "quantity_book s = (q_longs s, q_shorts s)"

definition quantity_fill :: "fill \<Rightarrow> quantity_fifo_pnl \<Rightarrow> fifo_error + quantity_fifo_pnl" where
  "quantity_fill x s = q_apply_fill (fill_side x) (fill_price x) (fill_size x) (fill_fee x) s"

interpretation quantity: fill_engine quantity_fill quantity_book quantity_gain
proof (unfold_locales, goal_cases)
  case (1 x s)
  then show ?case
    by (auto simp: quantity_fill_def q_apply_fill_def valid_fill_def validate_positive_def Let_def quantity_book_def
        book_step_def q_close_fifo_def open_rest_def split: side.splits prod.splits)
next
  case (2 x s)
  then show ?case by (auto simp: quantity_fill_def q_apply_fill_def valid_fill_def validate_positive_def)
qed

lemma quantity_new_good [simp]: "quantity.good_state quantity_new"
  by (simp add: quantity.good_state_def quantity_book_def quantity_new_def wf_book_def one_sided_def)

section \<open>The accounting identity\<close>

text \<open>What the open lots cost: size times entry price.\<close>

definition lots_cost :: "lot list \<Rightarrow> rat" where
  "lots_cost ls = sum_list (map (\<lambda>l. qval (entry_price l) * qval (lot_size l)) ls)"

lemma lots_cost_simps [simp]: "lots_cost [] = 0"
  "lots_cost (l # ls) = qval (entry_price l) * qval (lot_size l) + lots_cost ls"
  "lots_cost (xs @ ys) = lots_cost xs + lots_cost ys"
  by (simp_all add: lots_cost_def)

text \<open>Prices: positive whole numbers of the price unit, at most \<open>P\<close>.\<close>

definition price_ok :: "int \<Rightarrow> rat \<Rightarrow> f64 \<Rightarrow> bool" where
  "price_ok h P p \<longleftrightarrow> is_finite p \<and> 0 < p \<and> units h (qval p) \<and> qval p \<le> P"

definition prices_ok :: "int \<Rightarrow> rat \<Rightarrow> lot list \<Rightarrow> bool" where
  "prices_ok h P ls \<longleftrightarrow> list_all (\<lambda>l. price_ok h P (entry_price l)) ls"

lemma prices_ok_simps [simp]: "prices_ok h P []" "prices_ok h P (l # ls) \<longleftrightarrow> price_ok h P (entry_price l) \<and> prices_ok h P ls"
  "prices_ok h P (xs @ ys) \<longleftrightarrow> prices_ok h P xs \<and> prices_ok h P ys"
  by (auto simp: prices_ok_def)

text \<open>Quantities in units \<open>2 ^ g\<close>, prices in units \<open>2 ^ h\<close>; every product and every partial sum of
  products must fit.\<close>

definition money_units :: "int \<Rightarrow> int \<Rightarrow> rat \<Rightarrow> rat \<Rightarrow> bool" where
  "money_units g h P Q \<longleftrightarrow> unit_exp g \<and> unit_exp h \<and> unit_exp (g + h) \<and> 0 \<le> P \<and> 0 \<le> Q
     \<and> P \<le> max_units h \<and> Q \<le> max_units g \<and> P * Q \<le> max_units (g + h)"

lemma units_mult: "units g a \<Longrightarrow> units h b \<Longrightarrow> units (g + h) (a * b)"
proof -
  assume "units g a" "units h b"
  then obtain i j :: int where "a = of_int i * 2 powi g" "b = of_int j * 2 powi h" by (auto simp: units_def)
  then have "a * b = of_int (i * j) * 2 powi (g + h)" by (simp add: pow2_add)
  then show ?thesis unfolding units_def by blast
qed

lemma price_diff:
  assumes "money_units g h P Q" "0 < a" "a \<le> P" "units h a" "0 < b" "b \<le> P" "units h b"
  shows "rnd (a - b) = Fin (a - b)" "\<bar>a - b\<bar> \<le> P"
proof -
  show ab: "\<bar>a - b\<bar> \<le> P" using assms by linarith
  show "rnd (a - b) = Fin (a - b)"
    using ab assms by (intro rnd_units [of h]) (auto simp: money_units_def)
qed

lemma price_times_size:
  assumes mu: "money_units g h P Q" and d: "units h d" "\<bar>d\<bar> \<le> P" and m: "units g m" "0 \<le> m" "m \<le> Q"
  shows "rnd (d * m) = Fin (d * m)" "\<bar>d * m\<bar> \<le> P * m" "units (g + h) (d * m)"
proof -
  show u: "units (g + h) (d * m)" using units_mult [OF d(1) m(1)] by (simp add: add.commute)
  show b: "\<bar>d * m\<bar> \<le> P * m" using d m by (simp add: abs_mult mult_right_mono)
  have "P * m \<le> P * Q" using mu m by (intro mult_left_mono) (auto simp: money_units_def)
  then show "rnd (d * m) = Fin (d * m)"
    using b u mu by (intro rnd_units [of "g + h"]) (auto simp: money_units_def)
qed

lemma quantity_gain_exact:
  assumes mu: "money_units g h P Q" and dir: "dir = 1 \<or> dir = -1"
    and c: "price_ok h P (Fin c)" and e: "price_ok h P (Fin e)" and m: "units g m" "0 \<le> m" "m \<le> Q"
  shows "quantity_gain (Fin dir) (Fin c) (Fin e) (Fin m) = Fin (dir * (c - e) * m)"
    and "\<bar>dir * (c - e) * m\<bar> \<le> P * m" and "units (g + h) (dir * (c - e) * m)"
proof -
  have ce: "0 < c" "c \<le> P" "units h c" "0 < e" "e \<le> P" "units h e" using c e by (auto simp: price_ok_def)
  note D = price_diff [OF mu ce]
  have neg: "rnd (e - c) = Fin (e - c)" using price_diff(1) [OF mu ce(4-6) ce(1-3)] .
  have d: "units h (dir * (c - e))" "\<bar>dir * (c - e)\<bar> \<le> P" "rnd (dir * (c - e)) = Fin (dir * (c - e))"
    using dir D ce neg by (auto simp: abs_minus_commute)
  note T = price_times_size [OF mu d(1,2) m]
  show "quantity_gain (Fin dir) (Fin c) (Fin e) (Fin m) = Fin (dir * (c - e) * m)"
    by (simp add: quantity_gain_def D d T)
  show "\<bar>dir * (c - e) * m\<bar> \<le> P * m" "units (g + h) (dir * (c - e) * m)" using T by auto
qed

lemma add_gain_exact:
  assumes mu: "money_units g h P Q" and dir: "dir = 1 \<or> dir = -1"
    and c: "price_ok h P (Fin c)" and e: "price_ok h P (Fin e)" and m: "units g m" "0 \<le> m" "m \<le> Q"
    and R: "units (g + h) R" "\<bar>R\<bar> + P * m \<le> P * Q"
  shows "Fin R + quantity_gain (Fin dir) (Fin c) (Fin e) (Fin m) = Fin (R + dir * (c - e) * m)"
    and "units (g + h) (R + dir * (c - e) * m)" and "\<bar>R + dir * (c - e) * m\<bar> \<le> \<bar>R\<bar> + P * m"
proof -
  note G = quantity_gain_exact [OF mu dir c e m]
  show u: "units (g + h) (R + dir * (c - e) * m)" using R G by simp
  show b: "\<bar>R + dir * (c - e) * m\<bar> \<le> \<bar>R\<bar> + P * m" using G(2) abs_triangle_ineq [of R "dir * (c - e) * m"] by linarith
  have "\<bar>R + dir * (c - e) * m\<bar> \<le> max_units (g + h)" using b R(2) mu unfolding money_units_def by linarith
  then have "rnd (R + dir * (c - e) * m) = Fin (R + dir * (c - e) * m)"
    using u mu by (intro rnd_units) (auto simp: money_units_def)
  then show "Fin R + quantity_gain (Fin dir) (Fin c) (Fin e) (Fin m) = Fin (R + dir * (c - e) * m)"
    by (simp add: G(1))
qed

text \<open>The loop books exactly the value closed at the new price minus the cost released.\<close>

definition booked :: "int \<Rightarrow> rat \<Rightarrow> rat \<Rightarrow> rat \<Rightarrow> rat \<Rightarrow> lot list \<Rightarrow> f64 \<Rightarrow> lot list \<times> f64 \<times> f64 \<Rightarrow> bool" where
  "booked k P c dir R lots amount out =
     (case out of (lots', r', rest) \<Rightarrow>
        \<bar>qval r'\<bar> \<le> \<bar>R\<bar> + P * (qval amount - qval rest) \<and> r' = Fin (qval r') \<and> units k (qval r')
        \<and> qval r' = R + dir * (c * (qval amount - qval rest) - (lots_cost lots - lots_cost lots')))"

lemma fifo_loop_prices:
  "wf_lots lots \<Longrightarrow> good_amount amount \<Longrightarrow> prices_ok h P lots \<Longrightarrow> prices_ok h P (fst (fifo_loop gn lots amount r))"
  unfolding good_amount_def
  by (induction lots amount r rule: fifo_loop_induct) auto

lemma fifo_loop_cost:
  assumes "wf_lots lots" "good_amount amount" and mu: "money_units g h P Q" and c: "price_ok h P (Fin c)"
    and dir: "dir = 1 \<or> dir = -1"
  shows "units_lots g lots \<Longrightarrow> units g (qval amount) \<Longrightarrow> prices_ok h P lots \<Longrightarrow> lots_total lots \<le> Q \<Longrightarrow>
     qval amount \<le> Q \<Longrightarrow> units (g + h) R \<Longrightarrow> \<bar>R\<bar> + P * min (lots_total lots) (qval amount) \<le> P * Q \<Longrightarrow> r = Fin R \<Longrightarrow>
     booked (g + h) P c dir R lots amount (fifo_loop (quantity_gain (Fin dir) (Fin c)) lots amount r)"
  using assms(1,2) unfolding good_amount_def
proof (induction lots amount r arbitrary: R rule: fifo_loop_induct)
  case (whole p q a d ls r out)
  have P: "0 \<le> P" and gb: "unit_exp g" "Q \<le> max_units g" using mu by (auto simp: money_units_def)
  have nn: "0 \<le> lots_total ls" using whole.hyps lots_total_nonneg by simp
  have aq: "a \<le> Q" "q + lots_total ls \<le> Q" "units g q" "units g a" using whole.prems by auto
  have d: "d = a - q" using rnd_units [OF gb(1), of "a - q"] whole.hyps aq gb(2) by simp
  have mn: "min (q + lots_total ls) a = q + min (lots_total ls) d" using d by simp
  have budget: "\<bar>R\<bar> + P * q + P * min (lots_total ls) d \<le> P * Q"
    using whole.prems(7) by (simp add: mn distrib_left add.assoc)
  have "0 \<le> P * min (lots_total ls) d" using P nn whole.hyps by (intro mult_nonneg_nonneg) auto
  then have bq: "\<bar>R\<bar> + P * q \<le> P * Q" using budget by linarith
  have pe: "price_ok h P (Fin p)" "prices_ok h P ls" using whole.prems by auto
  have q: "0 \<le> q" "q \<le> Q" using whole.hyps aq nn by auto
  note A = add_gain_exact [OF mu dir c pe(1) aq(3) q whole.prems(6) bq]
  have "\<bar>R + dir * (c - p) * q\<bar> + P * min (lots_total ls) d \<le> P * Q" using A(3) budget by linarith
  then have "booked (g + h) P c dir (R + dir * (c - p) * q) ls (Fin d) out"
    using whole.prems whole.hyps aq nn A pe d by (intro whole.IH) auto
  then show ?case using A whole.prems whole.hyps aq by (auto simp: booked_def d algebra_simps)
next
  case (part p q a d ls r)
  have P: "0 \<le> P" and gb: "unit_exp g" "Q \<le> max_units g" using mu by (auto simp: money_units_def)
  have nn: "0 \<le> lots_total ls" using part.hyps lots_total_nonneg by simp
  have aq: "a \<le> Q" "q + lots_total ls \<le> Q" "units g q" "units g a" using part.prems by auto
  have d: "d = q - a" using rnd_units [OF gb(1), of "q - a"] part.hyps aq gb(2) nn by simp
  have bq: "\<bar>R\<bar> + P * a \<le> P * Q" using part.prems part.hyps nn by (simp add: min_absorb2)
  have pe: "price_ok h P (Fin p)" "0 \<le> a" using part.prems part.hyps by auto
  note A = add_gain_exact [OF mu dir c pe(1) aq(4) pe(2) aq(1) part.prems(6) bq]
  then show ?case using part.prems part.hyps aq by (auto simp: booked_def d algebra_simps)
qed (auto simp: booked_def)

text \<open>The ledger invariant: realized profit is what the open lots cost minus what all fills paid,
  and the profit booked plus the worst case of what is still open stays within the volume traded.\<close>

definition paid :: "fill list \<Rightarrow> rat" where
  "paid xs = sum_list (map (\<lambda>x. signed_size x * qval (fill_price x)) xs)"

definition volume :: "fill list \<Rightarrow> rat" where
  "volume xs = sum_list (map (\<lambda>x. qval (fill_size x)) xs)"

definition ledger :: "int \<Rightarrow> int \<Rightarrow> rat \<Rightarrow> fill list \<Rightarrow> quantity_fifo_pnl \<Rightarrow> bool" where
  "ledger g h P done s \<longleftrightarrow>
     quantity.good_state s \<and> units_book g (quantity_book s) \<and> prices_ok h P (q_longs s) \<and> prices_ok h P (q_shorts s)
     \<and> q_gross_realized_pnl s = Fin (qval (q_gross_realized_pnl s)) \<and> units (g + h) (qval (q_gross_realized_pnl s))
     \<and> net_size (quantity_book s) = sum_list (map signed_size done)
     \<and> gross_size (quantity_book s) \<le> volume done
     \<and> \<bar>qval (q_gross_realized_pnl s)\<bar> + P * gross_size (quantity_book s) \<le> P * volume done
     \<and> qval (q_gross_realized_pnl s) = lots_cost (q_longs s) - lots_cost (q_shorts s) - paid done"

definition market_fill :: "int \<Rightarrow> int \<Rightarrow> rat \<Rightarrow> fill \<Rightarrow> bool" where
  "market_fill g h P x \<longleftrightarrow> valid_fill x \<and> f64_fill x \<and> units g (qval (fill_size x)) \<and> price_ok h P (fill_price x)"

lemma ledger_new [simp]: "ledger g h P [] quantity_new"
  by (simp add: ledger_def quantity_book_def net_size_def gross_size_def
      units_book_def volume_def paid_def quantity.good_state_def wf_book_def one_sided_def)
    (simp add: quantity_new_def zero_f64_def)

text \<open>One side of the book closed by a fill of size \<open>A\<close> at price \<open>c\<close>; \<open>dir\<close> is the direction of the
  lots closed.\<close>

lemma ledger_loop:
  assumes "money_units g h P Q" "price_ok h P (Fin c)" "dir = 1 \<or> dir = -1" "wf_lots ls" "good_amount (Fin A)"
    "units_lots g ls" "units g A" "prices_ok h P ls" "lots_total ls \<le> Q" "A \<le> Q" "P * min (lots_total ls) A \<le> P * Q"
    and L: "fifo_loop (quantity_gain (Fin dir) (Fin c)) ls (Fin A) 0 = (l, r, rest)"
  obtains B M where "rest = Fin B" "0 \<le> B" "r = Fin M" "units (g + h) M" "\<bar>M\<bar> \<le> P * (A - B)"
    "M = dir * (c * (A - B) - (lots_cost ls - lots_cost l))" "prices_ok h P l"
    "lots_total ls - lots_total l = A - B" "units g B" "units_lots g l" "A - B \<le> lots_total ls" "B \<le> A"
proof -
  have mb: "Q \<le> max_units g" "unit_exp g" using assms(1) by (auto simp: money_units_def)
  have W: "good_amount rest" "rest \<le> Fin A" using fifo_loop_wf [OF assms(4,5) L] by auto
  obtain B where B: "rest = Fin B" "0 \<le> B" using W(1) by (auto simp: good_amount_def is_finite_iff)
  have "lots_total ls \<le> max_units g" "A \<le> max_units g" using mb assms(9,10) by linarith+
  then have E: "units_lots g l" "units g B" "lots_total ls - lots_total l = A - B" "A - B \<le> lots_total ls"
    using fifo_loop_exact [OF assms(4,5) mb(2) assms(6) _ _ _ L] assms(7) B by auto
  have "booked (g + h) P c dir 0 ls (Fin A) (fifo_loop (quantity_gain (Fin dir) (Fin c)) ls (Fin A) 0)"
    using assms by (intro fifo_loop_cost [where Q = Q]) (auto simp: zero_f64_def)
  moreover have "prices_ok h P l" using fifo_loop_prices [OF assms(4,5,8), of "quantity_gain (Fin dir) (Fin c)" 0] L by simp
  ultimately show ?thesis
    by (intro that [of B "qval r"]) (use B E W in \<open>auto simp: booked_def L\<close>)
qed

lemma realized_add:
  assumes "money_units g h P Q" "units (g + h) R" "units (g + h) M" "\<bar>R\<bar> + \<bar>M\<bar> \<le> P * Q"
  shows "rnd (R + M) = Fin (R + M)"
  using assms abs_triangle_ineq [of R M] by (intro rnd_units [of "g + h"]) (auto simp: money_units_def)

lemma quantity_fill_Buy:
  assumes "valid_fill x" "fill_side x = Buy"
    "fifo_loop (quantity_gain (-1) (fill_price x)) (q_shorts s) (fill_size x) 0 = (l, r, rest)"
  shows "quantity_fill x s = Inr (s\<lparr>q_longs := open_rest (fill_price x) rest (q_longs s), q_shorts := l,
    q_gross_realized_pnl := q_gross_realized_pnl s + r, q_cumulative_fees := q_cumulative_fees s + fill_fee x\<rparr>)"
  using assms by (simp add: quantity_fill_def q_apply_fill_def valid_fill_def validate_positive_def Let_def
      q_close_fifo_def open_rest_def)

lemma quantity_fill_Sell:
  assumes "valid_fill x" "fill_side x = Sell"
    "fifo_loop (quantity_gain 1 (fill_price x)) (q_longs s) (fill_size x) 0 = (l, r, rest)"
  shows "quantity_fill x s = Inr (s\<lparr>q_longs := l, q_shorts := open_rest (fill_price x) rest (q_shorts s),
    q_gross_realized_pnl := q_gross_realized_pnl s + r, q_cumulative_fees := q_cumulative_fees s + fill_fee x\<rparr>)"
  using assms by (simp add: quantity_fill_def q_apply_fill_def valid_fill_def validate_positive_def Let_def
      q_close_fifo_def open_rest_def)

lemma volume_snoc: "volume (xs @ [x]) = volume xs + qval (fill_size x)"
  by (simp add: volume_def)

lemma paid_snoc: "paid (xs @ [x]) = paid xs + signed_size x * qval (fill_price x)"
  by (simp add: paid_def)

lemma open_rest_cost: "good_amount rest \<Longrightarrow> lots_cost (open_rest p rest ls) = lots_cost ls + qval p * qval rest"
  by (auto simp: open_rest_def good_amount_def is_finite_iff)

lemma open_rest_prices: "prices_ok h P ls \<Longrightarrow> price_ok h P p \<Longrightarrow> prices_ok h P (open_rest p rest ls)"
  by (simp add: open_rest_def)

lemma ledger_fill:
  assumes inv: "ledger g h P done s" and mu: "money_units g h P Q" and x: "market_fill g h P x"
    and vol: "volume done + qval (fill_size x) \<le> Q" and f: "quantity_fill x s = Inr s'"
  shows "ledger g h P (done @ [x]) s'"
proof -
  have v: "valid_fill x" "f64_fill x" "units g (qval (fill_size x))" "price_ok h P (fill_price x)"
    using x by (auto simp: market_fill_def)
  obtain A c where Ac: "fill_size x = Fin A" "0 < A" "fill_price x = Fin c"
    using v by (auto simp: valid_fill_def is_finite_iff)
  have good: "quantity.good_state s" and gA: "good_amount (Fin A)"
    using inv good_amount_fill [OF v(1,2)] Ac by (auto simp: ledger_def)
  have wf: "wf_lots (q_longs s)" "wf_lots (q_shorts s)"
    using good by (auto simp: quantity.good_state_def quantity_book_def wf_book_def)
  have nn: "0 \<le> lots_total (q_longs s)" "0 \<le> lots_total (q_shorts s)" using wf by (auto simp: lots_total_nonneg)
  have P: "0 \<le> P" using mu by (simp add: money_units_def)
  obtain R where R: "q_gross_realized_pnl s = Fin R" "units (g + h) R"
    "R = lots_cost (q_longs s) - lots_cost (q_shorts s) - paid done"
    using inv by (metis ledger_def)
  have gross: "lots_total (q_longs s) + lots_total (q_shorts s) \<le> volume done"
    and budget: "\<bar>R\<bar> + P * (lots_total (q_longs s) + lots_total (q_shorts s)) \<le> P * volume done"
    using inv R(1) by (auto simp: ledger_def gross_size_def quantity_book_def)
  have PQ: "P * (volume done + A) \<le> P * Q" using P vol Ac by (intro mult_left_mono) auto
  have side: "lots_total (q_longs s) \<le> Q" "lots_total (q_shorts s) \<le> Q" "A \<le> Q" "units g A"
    using gross nn vol Ac v by auto
  have room: "P * min (lots_total ls) A \<le> P * Q" for ls using P side by (intro mult_left_mono) auto
  have add: "rnd (R + M) = Fin (R + M)" "\<bar>R + M\<bar> \<le> \<bar>R\<bar> + P * m"
    if "units (g + h) M" "\<bar>M\<bar> \<le> P * m" "m \<le> A" for M m
  proof -
    have "P * m \<le> P * A" using P that by (intro mult_left_mono) auto
    moreover have "0 \<le> P * (lots_total (q_longs s) + lots_total (q_shorts s))" using P nn by simp
    ultimately have "\<bar>R\<bar> + \<bar>M\<bar> \<le> P * Q" using that budget PQ by (simp add: distrib_left)
    then show "rnd (R + M) = Fin (R + M)" by (rule realized_add [OF mu R(2) that(1)])
    show "\<bar>R + M\<bar> \<le> \<bar>R\<bar> + P * m" using that abs_triangle_ineq [of R M] by linarith
  qed
  have inv': "quantity.good_state s'" "units_book g (quantity_book s')"
    "net_size (quantity_book s') = sum_list (map signed_size (done @ [x]))"
  proof -
    show "quantity.good_state s'" by (rule quantity.fill_good [OF good v(2) f])
    have "gross_size (quantity_book s) + qval (fill_size x) \<le> max_units g"
      using gross vol mu by (auto simp: gross_size_def quantity_book_def money_units_def)
    then show "units_book g (quantity_book s')"
      "net_size (quantity_book s') = sum_list (map signed_size (done @ [x]))"
      using book_step_exact [of "quantity_book s" x g quantity_gain] good v mu inv quantity.fill_Inr [OF f]
      by (auto simp: quantity.good_state_def ledger_def money_units_def)
  qed
  have price: "price_ok h P (Fin c)" using v Ac by simp
  show ?thesis
  proof (cases "fill_side x")
    case Buy
    obtain l r rest where L: "fifo_loop (quantity_gain (-1) (Fin c)) (q_shorts s) (Fin A) 0 = (l, r, rest)"
      by (metis prod_cases3)
    have one: "Fin (- 1) = - 1" by (simp add: one_f64_def)
    obtain B M where E: "rest = Fin B" "0 \<le> B" "r = Fin M" "units (g + h) M" "\<bar>M\<bar> \<le> P * (A - B)"
      "M = (-1) * (c * (A - B) - (lots_cost (q_shorts s) - lots_cost l))" "prices_ok h P l"
      "lots_total (q_shorts s) - lots_total l = A - B" "B \<le> A"
      by (rule ledger_loop [OF mu price _ wf(2) gA _ side(4) _ side(2) side(3) room, of "-1" l r rest])
        (use inv L in \<open>auto simp: one ledger_def units_book_def quantity_book_def\<close>)
    note S = quantity_fill_Buy [of x s l r rest, unfolded Ac, OF v(1) Buy L, unfolded f]
    have gr: "good_amount rest" using fifo_loop_wf [OF wf(2) gA L] by simp
    have s': "q_longs s' = open_rest (Fin c) rest (q_longs s)" "q_shorts s' = l" "q_gross_realized_pnl s' = Fin (R + M)"
      using S add(1) [OF E(4,5)] E(2,3) R(1) by auto
    have gr': "gross_size (quantity_book s') = lots_total (q_longs s) + lots_total (q_shorts s) + B - (A - B)"
      using E(8) by (simp add: gross_size_def quantity_book_def s' open_rest_total [OF gr [unfolded E(1)]] E(1))
    have "P * gross_size (quantity_book s') + P * (A - B) \<le> P * (lots_total (q_longs s) + lots_total (q_shorts s)) + P * A"
      unfolding gr' distrib_left [symmetric] using E(2,9) P by (intro mult_left_mono) auto
    moreover have "\<bar>R + M\<bar> \<le> \<bar>R\<bar> + P * (A - B)" using add(2) [OF E(4,5)] E(2) by simp
    ultimately have "\<bar>R + M\<bar> + P * gross_size (quantity_book s') \<le> P * (volume done + A)"
      using budget unfolding distrib_left by linarith
    moreover have "R + M = lots_cost (q_longs s') - lots_cost (q_shorts s') - (paid done + signed_size x * c)"
      unfolding E(6) R(3) s' E(1) by (simp add: Buy Ac signed_size_def open_rest_cost [OF gr [unfolded E(1)]] algebra_simps)
    moreover have "gross_size (quantity_book s') \<le> volume done + A" using gr' gross E(2,9) by simp
    moreover have "prices_ok h P (q_longs s')" "prices_ok h P (q_shorts s')"
      using inv E(7) open_rest_prices price by (auto simp: s' ledger_def)
    ultimately show ?thesis
      using inv' units_add [OF R(2) E(4)] by (simp add: ledger_def s'(3) volume_snoc paid_snoc Ac)
  next
    case Sell
    obtain l r rest where L: "fifo_loop (quantity_gain 1 (Fin c)) (q_longs s) (Fin A) 0 = (l, r, rest)"
      by (metis prod_cases3)
    have one: "Fin 1 = 1" by (simp add: one_f64_def)
    obtain B M where E: "rest = Fin B" "0 \<le> B" "r = Fin M" "units (g + h) M" "\<bar>M\<bar> \<le> P * (A - B)"
      "M = 1 * (c * (A - B) - (lots_cost (q_longs s) - lots_cost l))" "prices_ok h P l"
      "lots_total (q_longs s) - lots_total l = A - B" "B \<le> A"
      by (rule ledger_loop [OF mu price _ wf(1) gA _ side(4) _ side(1) side(3) room, of "1" l r rest])
        (use inv L in \<open>auto simp: one ledger_def units_book_def quantity_book_def\<close>)
    note S = quantity_fill_Sell [of x s l r rest, unfolded Ac, OF v(1) Sell L, unfolded f]
    have gr: "good_amount rest" using fifo_loop_wf [OF wf(1) gA L] by simp
    have s': "q_shorts s' = open_rest (Fin c) rest (q_shorts s)" "q_longs s' = l" "q_gross_realized_pnl s' = Fin (R + M)"
      using S add(1) [OF E(4,5)] E(2,3) R(1) by auto
    have gr': "gross_size (quantity_book s') = lots_total (q_longs s) + lots_total (q_shorts s) + B - (A - B)"
      using E(8) by (simp add: gross_size_def quantity_book_def s' open_rest_total [OF gr [unfolded E(1)]] E(1))
    have "P * gross_size (quantity_book s') + P * (A - B) \<le> P * (lots_total (q_longs s) + lots_total (q_shorts s)) + P * A"
      unfolding gr' distrib_left [symmetric] using E(2,9) P by (intro mult_left_mono) auto
    moreover have "\<bar>R + M\<bar> \<le> \<bar>R\<bar> + P * (A - B)" using add(2) [OF E(4,5)] E(2) by simp
    ultimately have "\<bar>R + M\<bar> + P * gross_size (quantity_book s') \<le> P * (volume done + A)"
      using budget unfolding distrib_left by linarith
    moreover have "R + M = lots_cost (q_longs s') - lots_cost (q_shorts s') - (paid done + signed_size x * c)"
      unfolding E(6) R(3) s' E(1) by (simp add: Sell Ac signed_size_def open_rest_cost [OF gr [unfolded E(1)]] algebra_simps)
    moreover have "gross_size (quantity_book s') \<le> volume done + A" using gr' gross E(2,9) by simp
    moreover have "prices_ok h P (q_longs s')" "prices_ok h P (q_shorts s')"
      using inv E(7) open_rest_prices price by (auto simp: s' ledger_def)
    ultimately show ?thesis
      using inv' units_add [OF R(2) E(4)] by (simp add: ledger_def s'(3) volume_snoc paid_snoc Ac)
  qed
qed

lemma ledger_run:
  assumes "ledger g h P done s" "money_units g h P Q" "list_all (market_fill g h P) xs" "volume done + volume xs \<le> Q"
  shows "\<exists>s'. fold_res quantity_fill xs s = Inr s' \<and> ledger g h P (done @ xs) s'"
  using assms
proof (induction xs arbitrary: "done" s)
  case (Cons x xs)
  then have x: "market_fill g h P x" and xs: "list_all (market_fill g h P) xs" by auto
  have vx: "volume (x # xs) = qval (fill_size x) + volume xs" by (simp add: volume_def)
  have "0 \<le> volume xs" unfolding volume_def
    by (rule sum_list_nonneg) (use xs in \<open>auto simp: list_all_iff market_fill_def valid_fill_def is_finite_iff\<close>)
  then have vol: "volume done + qval (fill_size x) \<le> Q" using Cons.prems(4) vx by simp
  obtain s1 where s1: "quantity_fill x s = Inr s1" using quantity.fill_ok_iff [of x s] x by (auto simp: market_fill_def)
  have "ledger g h P (done @ [x]) s1" by (rule ledger_fill [OF Cons.prems(1,2) x vol s1])
  then have "\<exists>s'. fold_res quantity_fill xs s1 = Inr s' \<and> ledger g h P ((done @ [x]) @ xs) s'"
    using Cons.prems vx xs by (intro Cons.IH) (auto simp: volume_snoc)
  then show ?case using s1 by simp
qed simp

lemma foldl_exact:
  assumes "money_units g h P Q" "units (g + h) R" "\<forall>t \<in> set ts. units (g + h) t"
    and "\<bar>R\<bar> + sum_list (map abs ts) \<le> P * Q"
  shows "foldl (+) (Fin R) (map Fin ts) = Fin (R + sum_list ts)"
  using assms
proof (induction ts arbitrary: R)
  case (Cons t ts)
  have nn: "0 \<le> sum_list (map abs ts)" by (rule sum_list_nonneg) auto
  have "rnd (R + t) = Fin (R + t)" using Cons.prems nn by (intro realized_add [OF Cons.prems(1)]) auto
  moreover have "foldl (+) (Fin (R + t)) (map Fin ts) = Fin (R + t + sum_list ts)"
    using Cons.prems abs_triangle_ineq [of R t] by (intro Cons.IH) auto
  ultimately show ?case by (simp add: add.assoc)
qed simp

definition open_value :: "rat \<Rightarrow> lot list \<Rightarrow> rat list" where
  "open_value m ls = map (\<lambda>l. (m - qval (entry_price l)) * qval (lot_size l)) ls"

lemma open_value_sum: "sum_list (open_value m ls) = m * lots_total ls - lots_cost ls"
  by (induction ls) (auto simp: open_value_def algebra_simps)

lemma open_value_exact:
  assumes mu: "money_units g h P Q" and m: "price_ok h P (Fin m)" and ls: "wf_lots ls" "prices_ok h P ls" "units_lots g ls"
    "lots_total ls \<le> Q"
  shows "map (\<lambda>l. (Fin m - entry_price l) * lot_size l) ls = map Fin (open_value m ls)
    \<and> map (\<lambda>l. (entry_price l - Fin m) * lot_size l) ls = map Fin (map uminus (open_value m ls))
    \<and> (\<forall>t \<in> set (open_value m ls). units (g + h) t) \<and> sum_list (map abs (open_value m ls)) \<le> P * lots_total ls"
  using ls
proof (induction ls)
  case (Cons l ls)
  obtain e q where l: "l = \<lparr>entry_price = Fin e, lot_size = Fin q\<rparr>" "0 < q" using Cons.prems(1) by (auto elim: wf_lotE)
  have nn: "0 \<le> lots_total ls" using Cons.prems lots_total_nonneg by simp
  have em: "0 < e" "e \<le> P" "units h e" "0 < m" "m \<le> P" "units h m" "units g q" "0 \<le> q" "q \<le> Q"
    using Cons.prems m l nn by (auto simp: price_ok_def)
  note D = price_diff [OF mu em(4-6,1-3)] and D' = price_diff [OF mu em(1-3,4-6)]
  note T = price_times_size [OF mu units_diff [OF em(6,3)] D(2) em(7-9)]
  note T' = price_times_size [OF mu units_diff [OF em(3,6)] D'(2) em(7-9)]
  have "- ((m - e) * q) = (e - m) * q" by (simp add: algebra_simps)
  then show ?case using Cons l T T' D D' nn by (auto simp: open_value_def algebra_simps)
qed (simp add: open_value_def)

lemma ledger_mark:
  assumes inv: "ledger g h P done s" and mu: "money_units g h P Q" and vol: "volume done \<le> Q" and m: "price_ok h P (Fin m)"
  shows "q_floating (Fin m) (Fin m) s = Fin (qval (q_floating (Fin m) (Fin m) s))"
    and "qval (q_gross_realized_pnl s) + qval (q_floating (Fin m) (Fin m) s) = m * sum_list (map signed_size done) - paid done"
proof -
  let ?L = "open_value m (q_longs s)" and ?S = "open_value m (q_shorts s)"
  have wf: "wf_lots (q_longs s)" "wf_lots (q_shorts s)" "prices_ok h P (q_longs s)" "prices_ok h P (q_shorts s)"
    "units_lots g (q_longs s)" "units_lots g (q_shorts s)"
    and gross: "lots_total (q_longs s) + lots_total (q_shorts s) \<le> volume done"
    using inv by (auto simp: ledger_def quantity.good_state_def wf_book_def quantity_book_def units_book_def gross_size_def)
  have nn: "0 \<le> lots_total (q_longs s)" "0 \<le> lots_total (q_shorts s)" using wf lots_total_nonneg by auto
  have le: "lots_total (q_longs s) \<le> Q" "lots_total (q_shorts s) \<le> Q" using gross nn vol by linarith+
  note L = open_value_exact [OF mu m wf(1,3,5) le(1)] and S = open_value_exact [OF mu m wf(2,4,6) le(2)]
  have "P * (lots_total (q_longs s) + lots_total (q_shorts s)) \<le> P * Q"
    using gross vol mu by (intro mult_left_mono) (auto simp: money_units_def)
  then have "foldl (+) (Fin 0) (map Fin (?L @ map uminus ?S)) = Fin (0 + sum_list (?L @ map uminus ?S))"
    using L S by (intro foldl_exact [OF mu]) (auto simp: distrib_left o_def)
  moreover have "sum_list (map uminus ts) = - sum_list ts" for ts :: "rat list" by (induction ts) auto
  ultimately have F: "q_floating (Fin m) (Fin m) s = Fin (sum_list ?L - sum_list ?S)"
    using L S by (simp add: q_floating_def fsum_def zero_f64_def)
  show "q_floating (Fin m) (Fin m) s = Fin (qval (q_floating (Fin m) (Fin m) s))" by (simp add: F)
  show "qval (q_gross_realized_pnl s) + qval (q_floating (Fin m) (Fin m) s) = m * sum_list (map signed_size done) - paid done"
    using inv by (simp add: F open_value_sum ledger_def net_size_def quantity_book_def algebra_simps)
qed

lemma marked_sum: "sum_list (map (\<lambda>x. signed_size x * (m - qval (fill_price x))) xs) = m * sum_list (map signed_size xs) - paid xs"
  by (induction xs) (auto simp: paid_def algebra_simps)

section \<open>Properties\<close>

text \<open>C24: mark-to-market identity. After any sequence of valid fills whose quantities and prices
  are exact in a common unit, gross realized profit plus floating profit at any mark price is exactly
  the sum over all fills of signed quantity times mark minus fill price: FIFO matching neither
  creates nor loses money.\<close>

theorem quantity_mark_to_market:
  assumes "list_all (market_fill g h P) xs" "money_units g h P (volume xs)" "price_ok h P mark"
  shows "\<exists>s' snap. fold_res quantity_fill xs quantity_new = Inr s' \<and> q_snapshot mark mark s' = Inr snap
    \<and> is_finite (qs_gross_realized_pnl snap) \<and> is_finite (qs_floating_pnl snap)
    \<and> qval (qs_gross_realized_pnl snap) + qval (qs_floating_pnl snap)
       = sum_list (map (\<lambda>x. signed_size x * (qval mark - qval (fill_price x))) xs)"
proof -
  obtain m where m: "mark = Fin m" using assms(3) by (auto simp: price_ok_def is_finite_iff)
  obtain s' where run: "fold_res quantity_fill xs quantity_new = Inr s'" and inv: "ledger g h P xs s'"
    using ledger_run [OF ledger_new assms(2,1)] by (auto simp: volume_def)
  note M = ledger_mark [OF inv assms(2) order_refl assms(3) [unfolded m]]
  have "is_finite (q_gross_realized_pnl s')" using inv by (metis ledger_def is_finite.simps(1))
  then show ?thesis using run M assms(3)
    by (auto simp: q_snapshot_def validate_positive_def price_ok_def Let_def m marked_sum)
      (metis is_finite.simps(1))
qed

theorem quantity_mark_to_market_witness:
  "\<exists>s' snap. fold_res quantity_fill
       [\<lparr>fill_side = Buy, fill_price = Fin 100, fill_size = Fin 10, fill_fee = 0\<rparr>,
        \<lparr>fill_side = Sell, fill_price = Fin 110, fill_size = Fin 25, fill_fee = 0\<rparr>] quantity_new = Inr s'
    \<and> q_snapshot (Fin 105) (Fin 105) s' = Inr snap
    \<and> qval (qs_gross_realized_pnl snap) + qval (qs_floating_pnl snap) = 175"
proof -
  let ?xs = "[\<lparr>fill_side = Buy, fill_price = Fin 100, fill_size = Fin 10, fill_fee = 0\<rparr>,
        \<lparr>fill_side = Sell, fill_price = Fin 110, fill_size = Fin 25, fill_fee = 0\<rparr>]"
  have i: "units 0 (numeral n)" for n unfolding units_def by (intro exI [of _ "numeral n"]) simp
  have r: "rnd 100 = Fin 100" "rnd 10 = Fin 10" "rnd 110 = Fin 110" "rnd 25 = Fin 25"
    using rnd_of_int [of 100] rnd_of_int [of 10] rnd_of_int [of 110] rnd_of_int [of 25] by simp_all
  have a: "list_all (market_fill 0 0 200) ?xs" "price_ok 0 200 (Fin 105)"
    using i r by (simp_all add: market_fill_def valid_fill_def f64_fill_def price_ok_def)
  have b: "money_units 0 0 200 (volume ?xs)" by (simp add: money_units_def unit_exp_def max_units_def volume_def)
  show ?thesis using quantity_mark_to_market [OF a(1) b a(2)] by (auto simp: signed_size_def)
qed

text \<open>no synthetic residual. When the buys and sells of a run add up to zero, no open lot is left
  on either side, whatever the prices were.\<close>

theorem quantity_flat_is_empty:
  assumes "quantity.exact_run g xs quantity_new" "list_all valid_fill xs" "sum_list (map signed_size xs) = 0"
  shows "\<exists>s'. fold_res quantity_fill xs quantity_new = Inr s' \<and> q_longs s' = [] \<and> q_shorts s' = []"
proof -
  obtain s' where run: "fold_res quantity_fill xs quantity_new = Inr s'"
    using quantity.run_ok_iff assms(2) by blast
  have "net_size (quantity_book s') = 0"
    using quantity.run_exact [OF quantity_new_good assms(1) run] assms(3)
    by (simp add: quantity_book_def quantity_new_def net_size_def)
  moreover have "quantity.good_state s'"
    using quantity.run_good [OF quantity_new_good _ run] assms(1) by (simp add: quantity.exact_run_def)
  ultimately show ?thesis using run
    by (auto simp: quantity.good_state_def quantity_book_def net_size_def one_sided_def wf_book_def lots_total_zero)
qed

theorem quantity_flat_is_empty_witness:
  "\<exists>s'. fold_res quantity_fill
       [\<lparr>fill_side = Buy, fill_price = Fin 100, fill_size = Fin 10, fill_fee = 0\<rparr>,
        \<lparr>fill_side = Sell, fill_price = Fin 70, fill_size = Fin 10, fill_fee = 0\<rparr>] quantity_new = Inr s'
    \<and> q_longs s' = [] \<and> q_shorts s' = []"
proof -
  let ?xs = "[\<lparr>fill_side = Buy, fill_price = Fin 100, fill_size = Fin 10, fill_fee = 0\<rparr>,
        \<lparr>fill_side = Sell, fill_price = Fin 70, fill_size = Fin 10, fill_fee = 0\<rparr>]"
  have i: "units 0 10" unfolding units_def by (intro exI [of _ 10]) simp
  have r: "rnd 100 = Fin 100" "rnd 10 = Fin 10" "rnd 70 = Fin 70"
    using rnd_of_int [of 100] rnd_of_int [of 10] rnd_of_int [of 70] by simp_all
  have "quantity.exact_run 0 ?xs quantity_new" "list_all valid_fill ?xs"
    using i r by (simp_all add: quantity.exact_run_def valid_fill_def f64_fill_def unit_exp_def max_units_def
        quantity_book_def quantity_new_def units_book_def gross_size_def)
  then show ?thesis by (rule quantity_flat_is_empty) (simp add: signed_size_def)
qed

end
