(* ===== verification/IntraOrderMatch.thy ===== *)
theory IntraOrderMatch
  imports Prelude F64
begin

text \<open>
  \<open>src/src/intra_order_match.rs\<close>: the engine that pairs Margin orders with the Futures orders that
  hedge them.  Open Margin orders wait in one queue per symbol and side; a new Margin order is first
  netted against the opposite queue, a Futures order closes the opposite queue from the front.
  The two loops of the source are \<open>loop_res\<close> over one iteration each; a missing key of an indexed map is
  the error \<open>Panic\<close>, and the invariant of the engine shows that it never occurs.
\<close>

section \<open>Data\<close>

definition parse_side :: "string \<Rightarrow> side option" where
  "parse_side value =
     (let v = to_ascii_lowercase value
      in if v = ''buy'' then Some Buy else if v = ''sell'' then Some Sell else None)"

definition side_str :: "side \<Rightarrow> string" where
  "side_str s = (case s of Buy \<Rightarrow> ''buy'' | Sell \<Rightarrow> ''sell'')"

datatype matching_state = Pending | Completed | Netted | Mixed

definition matching_state_str :: "matching_state \<Rightarrow> string" where
  "matching_state_str s =
     (case s of Pending \<Rightarrow> ''pending'' | Completed \<Rightarrow> ''completed'' | Netted \<Rightarrow> ''netted'' | Mixed \<Rightarrow> ''mixed'')"

record margin_order =
  fkey :: int
  mo_symbol :: string
  mo_side :: side
  cts :: int
  open_uts :: int
  open_mkt_ts_us :: "int option"
  open_new_ts_us :: "int option"
  open_terminal_ts_us :: "int option"
  open_terminal_ts_local_us :: "int option"
  hts :: "int option"
  hedge_new_ts_us :: "int option"
  hedge_terminal_ts_us :: "int option"
  fts :: "int option"
  close_count :: int
  mo_price :: f64
  mo_amount :: f64
  mo_range :: f64
  tlen :: "f64 option"
  open_fill_amount :: f64
  remaining_amount :: f64
  camount :: f64
  netted_amount :: f64
  close_notional :: f64
  state :: matching_state
  open_source_ts_us :: int

definition order_cprice :: "margin_order \<Rightarrow> f64 option" where
  "order_cprice m = (if 0 < camount m then Some (close_notional m / camount m) else None)"

definition holding :: "margin_order \<Rightarrow> int" where
  "holding m = wrap_i64 (open_uts m - cts m)"

definition holding_close :: "margin_order \<Rightarrow> int option" where
  "holding_close m = map_option (\<lambda>t. wrap_i64 (t - open_uts m)) (fts m)"

definition pnlu :: "margin_order \<Rightarrow> f64 option" where
  "pnlu m =
     (case order_cprice m of
        None \<Rightarrow> None
      | Some close \<Rightarrow>
          (case mo_side m of
             Buy \<Rightarrow> (if \<not> feq close 0 then Some ((close - mo_price m) / close) else None)
           | Sell \<Rightarrow> (if \<not> feq (mo_price m) 0 then Some ((mo_price m - close) / mo_price m) else None)))"

record futures_order =
  fo_client_order_id :: int
  main_fkey :: "int option"
  fo_symbol :: string
  fo_side :: side
  create_ts_us :: int
  update_ts_us :: int
  new_ts_us :: "int option"
  terminal_ts_us :: "int option"
  fill_ts_us :: "int option"
  source_ts_us :: int
  fo_amount :: f64
  fo_cprice :: "f64 option"
  event_count :: int

record hedge_timing =
  ht_client_order_id :: int
  ht_create_ts_us :: int
  ht_new_ts_us :: "int option"
  ht_terminal_ts_us :: "int option"
  ht_source_ts_us :: int

definition timing_key :: "hedge_timing \<Rightarrow> int \<times> int \<times> int" where
  "timing_key t = (ht_create_ts_us t, ht_source_ts_us t, ht_client_order_id t)"

record hedge_history =
  hh_main_fkey :: int
  first_order :: hedge_timing
  hh_last_fill_ts_us :: "int option"
  order_count :: int

datatype match_event = Margin margin_order | Futures futures_order

fun event_key :: "match_event \<Rightarrow> int \<times> int \<times> int \<times> int" where
  "event_key (Margin m) = (open_uts m, open_source_ts_us m, 0, fkey m)"
| "event_key (Futures m) = (create_ts_us m, source_ts_us m, 1, fo_client_order_id m)"

record hedge_result =
  hr_order :: futures_order
  allocated_amount :: f64
  unallocated_amount :: f64
  anchor_matched :: bool

type_synonym queue_key = "string \<times> side"

record match_engine =
  eps :: f64
  orders :: "(int \<times> margin_order) list"
  queues :: "queue_key \<rightharpoonup> int list"
  first_hedge_timing :: "int \<rightharpoonup> hedge_timing"
  last_hedge_fill_ts_us :: "int \<rightharpoonup> int"
  hedge_order_counts :: "int \<rightharpoonup> int"
  seen_hedge_orders :: "(int \<times> int) set"

datatype match_error =
    InvalidEpsilon
  | NonPendingOrder int
  | DuplicatePending int
  | NoRealFill int
  | DuplicateMargin int
  | InvalidFillAmount int
  | NoFillTimestamp int
  | Panic

section \<open>Operations on one order\<close>

definition clamp_zero :: "f64 \<Rightarrow> f64 \<Rightarrow> f64" where
  "clamp_zero value e = (if \<bar>value\<bar> \<le> e then 0 else value)"

definition refresh_state :: "f64 \<Rightarrow> margin_order \<Rightarrow> margin_order" where
  "refresh_state e m = m\<lparr>state :=
     (if e < remaining_amount m then Pending
      else if e < camount m \<and> e < netted_amount m then Mixed
      else if e < camount m then Completed
      else Netted)\<rparr>"

definition net_order :: "f64 \<Rightarrow> f64 \<Rightarrow> margin_order \<Rightarrow> margin_order" where
  "net_order e quantity m =
     refresh_state e (m\<lparr>remaining_amount := clamp_zero (remaining_amount m - quantity) e,
                        netted_amount := netted_amount m + quantity\<rparr>)"

definition hedge_order :: "f64 \<Rightarrow> f64 \<Rightarrow> f64 option \<Rightarrow> margin_order \<Rightarrow> margin_order" where
  "hedge_order e quantity price m =
     (let m1 = m\<lparr>remaining_amount := clamp_zero (remaining_amount m - quantity) e,
                 camount := camount m + quantity\<rparr>;
          m2 = (case price of
                  None \<Rightarrow> m1
                | Some p \<Rightarrow> m1\<lparr>close_notional := close_notional m1 + quantity * p\<rparr>)
      in refresh_state e m2)"

section \<open>Indexed access\<close>

definition order_at :: "int \<Rightarrow> match_engine \<Rightarrow> match_error + margin_order" where
  "order_at k self = (case map_of (orders self) k of None \<Rightarrow> Inl Panic | Some m \<Rightarrow> Inr m)"

definition modify_order :: "(margin_order \<Rightarrow> margin_order) \<Rightarrow> int \<Rightarrow> match_engine \<Rightarrow> match_error + match_engine" where
  "modify_order f k self =
     bind_res (order_at k self) (\<lambda>m. Inr (self\<lparr>orders := bt_insert k (f m) (orders self)\<rparr>))"

definition queue_of :: "match_engine \<Rightarrow> queue_key \<Rightarrow> int list" where
  "queue_of self key = (case queues self key of None \<Rightarrow> [] | Some q \<Rightarrow> q)"

definition queue_front :: "match_engine \<Rightarrow> queue_key \<Rightarrow> int option" where
  "queue_front self key = (case queue_of self key of [] \<Rightarrow> None | f # _ \<Rightarrow> Some f)"

definition push_queue :: "int \<Rightarrow> queue_key \<Rightarrow> match_engine \<Rightarrow> match_engine" where
  "push_queue k key self = self\<lparr>queues := (queues self)(key \<mapsto> queue_of self key @ [k])\<rparr>"

definition pop_queue :: "queue_key \<Rightarrow> match_engine \<Rightarrow> match_error + match_engine" where
  "pop_queue key self =
     (case queues self key of None \<Rightarrow> Inl Panic | Some q \<Rightarrow> Inr (self\<lparr>queues := (queues self)(key \<mapsto> tl q)\<rparr>))"

section \<open>Loading the pending snapshot\<close>

definition empty_engine :: "f64 \<Rightarrow> match_engine" where
  "empty_engine e = \<lparr>eps = e, orders = [], queues = Map.empty, first_hedge_timing = Map.empty,
     last_hedge_fill_ts_us = Map.empty, hedge_order_counts = Map.empty, seen_hedge_orders = {}\<rparr>"

definition pending_key :: "margin_order \<Rightarrow> int \<times> int \<times> int" where
  "pending_key m = (open_uts m, open_source_ts_us m, fkey m)"

definition remember_pending :: "margin_order \<Rightarrow> match_engine \<Rightarrow> match_engine" where
  "remember_pending m self =
     (let k = fkey m;
          self1 = (case hts m of
              None \<Rightarrow> self
            | Some t \<Rightarrow> self\<lparr>first_hedge_timing := (first_hedge_timing self)(k \<mapsto>
                \<lparr>ht_client_order_id = 0, ht_create_ts_us = t, ht_new_ts_us = hedge_new_ts_us m,
                 ht_terminal_ts_us = hedge_terminal_ts_us m, ht_source_ts_us = i64_min\<rparr>)\<rparr>);
          self2 = (case fts m of
              None \<Rightarrow> self1
            | Some t \<Rightarrow> self1\<lparr>last_hedge_fill_ts_us := (last_hedge_fill_ts_us self1)(k \<mapsto> t)\<rparr>)
      in self2\<lparr>hedge_order_counts := (hedge_order_counts self2)(k \<mapsto> close_count m)\<rparr>)"

definition load_pending :: "margin_order \<Rightarrow> match_engine \<Rightarrow> match_error + match_engine" where
  "load_pending m0 self =
     (if remaining_amount m0 \<le> eps self then Inl (NonPendingOrder (fkey m0))
      else
        let m = m0\<lparr>state := Pending\<rparr>;
            k = fkey m;
            self3 = remember_pending m self
        in if map_of (orders self3) k \<noteq> None then Inl (DuplicatePending k)
           else Inr (push_queue k (mo_symbol m, mo_side m) (self3\<lparr>orders := bt_insert k m (orders self3)\<rparr>)))"

definition engine_new :: "margin_order list \<Rightarrow> f64 \<Rightarrow> match_error + match_engine" where
  "engine_new pending e =
     (if \<not> is_finite e \<or> e < 0 then Inl InvalidEpsilon
      else fold_res load_pending (sort_key pending_key pending) (empty_engine e))"

section \<open>Hedge history\<close>

definition better_timing :: "hedge_timing \<Rightarrow> hedge_timing option \<Rightarrow> hedge_timing" where
  "better_timing incoming current =
     (case current of
        None \<Rightarrow> incoming
      | Some t \<Rightarrow> if timing_key incoming < timing_key t then incoming else t)"

definition set_timing :: "hedge_timing \<Rightarrow> margin_order \<Rightarrow> margin_order" where
  "set_timing t m = m\<lparr>hts := Some (ht_create_ts_us t), hedge_new_ts_us := ht_new_ts_us t,
     hedge_terminal_ts_us := ht_terminal_ts_us t\<rparr>"

definition modify_if_present :: "(margin_order \<Rightarrow> margin_order) \<Rightarrow> int \<Rightarrow> match_engine \<Rightarrow> match_engine" where
  "modify_if_present f k self =
     (case map_of (orders self) k of
        None \<Rightarrow> self
      | Some m \<Rightarrow> self\<lparr>orders := bt_insert k (f m) (orders self)\<rparr>)"

definition record_first_hedge_timing :: "int \<Rightarrow> hedge_timing \<Rightarrow> match_engine \<Rightarrow> match_engine" where
  "record_first_hedge_timing k incoming self =
     (let t = better_timing incoming (first_hedge_timing self k);
          self1 = self\<lparr>first_hedge_timing := (first_hedge_timing self)(k \<mapsto> t)\<rparr>
      in modify_if_present (set_timing t) k self1)"

definition max_fill :: "int \<Rightarrow> int option \<Rightarrow> int" where
  "max_fill t current = (case current of None \<Rightarrow> t | Some u \<Rightarrow> max u t)"

definition later_fill :: "int option \<Rightarrow> int option \<Rightarrow> int option" where
  "later_fill incoming current =
     (case incoming of
        None \<Rightarrow> current
      | Some t \<Rightarrow> Some (max_fill t current))"

definition record_last_fill :: "int \<Rightarrow> int option \<Rightarrow> match_engine \<Rightarrow> match_engine" where
  "record_last_fill k t self =
     self\<lparr>last_hedge_fill_ts_us :=
       (last_hedge_fill_ts_us self)(k := later_fill t (last_hedge_fill_ts_us self k))\<rparr>"

definition seed_one :: "hedge_history \<Rightarrow> match_engine \<Rightarrow> match_engine" where
  "seed_one h self =
     (let k = hh_main_fkey h;
          self1 = record_first_hedge_timing k (first_order h) self;
          cnt = max (case hedge_order_counts self1 k of None \<Rightarrow> 0 | Some c \<Rightarrow> c) (order_count h);
          self2 = self1\<lparr>hedge_order_counts := (hedge_order_counts self1)(k \<mapsto> cnt)\<rparr>;
          self3 = record_last_fill k (hh_last_fill_ts_us h) self2
      in modify_if_present (\<lambda>m. m\<lparr>fts := last_hedge_fill_ts_us self3 k, close_count := max (close_count m) cnt\<rparr>) k self3)"

definition seed_hedge_history :: "hedge_history list \<Rightarrow> match_engine \<Rightarrow> match_engine" where
  "seed_hedge_history hs self = fold seed_one hs self"

definition timing_of :: "futures_order \<Rightarrow> hedge_timing" where
  "timing_of order = \<lparr>ht_client_order_id = fo_client_order_id order, ht_create_ts_us = create_ts_us order,
     ht_new_ts_us = new_ts_us order, ht_terminal_ts_us = terminal_ts_us order, ht_source_ts_us = source_ts_us order\<rparr>"

definition count_hedge_order :: "int \<Rightarrow> int \<Rightarrow> match_engine \<Rightarrow> match_engine" where
  "count_hedge_order k oid self =
     (if (k, oid) \<in> seen_hedge_orders self then self
      else self\<lparr>seen_hedge_orders := insert (k, oid) (seen_hedge_orders self),
                hedge_order_counts := (hedge_order_counts self)(k \<mapsto>
                  wrap_i64 ((case hedge_order_counts self k of None \<Rightarrow> 0 | Some c \<Rightarrow> c) + 1))\<rparr>)"

definition record_hedge_order :: "int \<Rightarrow> futures_order \<Rightarrow> match_engine \<Rightarrow> match_error + match_engine" where
  "record_hedge_order k order self =
     (let self1 = record_first_hedge_timing k (timing_of order) self;
          self2 = count_hedge_order k (fo_client_order_id order) self1;
          self3 = record_last_fill k (fill_ts_us order) self2
      in case map_of (orders self3) k of
           None \<Rightarrow> Inr self3
         | Some _ \<Rightarrow>
             (case hedge_order_counts self3 k of
                None \<Rightarrow> Inl Panic
              | Some cnt \<Rightarrow>
                  modify_order (\<lambda>m. m\<lparr>fts := last_hedge_fill_ts_us self3 k, close_count := cnt\<rparr>) k self3))"

section \<open>A Margin order\<close>

text \<open>One iteration of the netting loop; \<open>False\<close> is \<open>break\<close>.\<close>

definition net_step :: "int \<Rightarrow> queue_key \<Rightarrow> match_engine \<Rightarrow> match_error + match_engine \<times> bool" where
  "net_step k opposite_key self =
     (case queue_front self opposite_key of
        None \<Rightarrow> Inr (self, False)
      | Some other_key \<Rightarrow>
          bind_res (order_at k self) (\<lambda>current.
          if remaining_amount current \<le> eps self then Inr (self, False)
          else
            bind_res (order_at other_key self) (\<lambda>other.
            let quantity = fmin (remaining_amount current) (remaining_amount other) in
            bind_res (modify_order (net_order (eps self) quantity) other_key self) (\<lambda>self1.
            bind_res (modify_order (net_order (eps self) quantity) k self1) (\<lambda>self2.
            bind_res (order_at other_key self2) (\<lambda>other'.
            if remaining_amount other' \<le> eps self
            then bind_res (pop_queue opposite_key self2) (\<lambda>self3. Inr (self3, True))
            else Inr (self2, True)))))))"

definition prepare_margin :: "match_engine \<Rightarrow> margin_order \<Rightarrow> margin_order" where
  "prepare_margin self m0 =
     (let m1 = m0\<lparr>remaining_amount := open_fill_amount m0, state := Pending\<rparr>;
          k = fkey m1;
          m2 = (case first_hedge_timing self k of None \<Rightarrow> m1 | Some t \<Rightarrow> set_timing t m1);
          m3 = (case last_hedge_fill_ts_us self k of
                  None \<Rightarrow> m2
                | Some t \<Rightarrow> m2\<lparr>fts := Some (case fts m2 of None \<Rightarrow> t | Some current \<Rightarrow> max current t)\<rparr>)
      in case hedge_order_counts self k of
           None \<Rightarrow> m3
         | Some cnt \<Rightarrow> m3\<lparr>close_count := max (close_count m3) cnt\<rparr>)"

definition apply_margin :: "margin_order \<Rightarrow> match_engine \<Rightarrow> (match_error + match_engine) option" where
  "apply_margin m self =
     (if \<not> is_finite (open_fill_amount m) \<or> open_fill_amount m \<le> eps self then Some (Inl (NoRealFill (fkey m)))
      else if map_of (orders self) (fkey m) \<noteq> None then Some (Inl (DuplicateMargin (fkey m)))
      else
        let order = prepare_margin self m;
            k = fkey order;
            self1 = self\<lparr>orders := bt_insert k order (orders self)\<rparr>
        in map_option (\<lambda>r. bind_res r (\<lambda>self2.
             bind_res (order_at k self2) (\<lambda>current.
             if eps self2 < remaining_amount current
             then Inr (push_queue k (mo_symbol order, mo_side order) self2)
             else Inr self2)))
           (loop_res (net_step k (mo_symbol order, opposite (mo_side order))) self1))"

section \<open>A Futures order\<close>

text \<open>One iteration of the closing loop, on the engine, the amount left and the anchor flag.\<close>

definition hedge_step ::
  "futures_order \<Rightarrow> queue_key \<Rightarrow> match_engine \<times> f64 \<times> bool \<Rightarrow> match_error + (match_engine \<times> f64 \<times> bool) \<times> bool" where
  "hedge_step order key s =
     (case s of (self, remaining, anchor) \<Rightarrow>
        if \<not> eps self < remaining then Inr (s, False)
        else case queue_front self key of
          None \<Rightarrow> Inr (s, False)
        | Some k \<Rightarrow>
            bind_res (order_at k self) (\<lambda>margin.
            let quantity = fmin remaining (remaining_amount margin);
                margin' = hedge_order (eps self) quantity (fo_cprice order) margin;
                self1 = self\<lparr>orders := bt_insert k margin' (orders self)\<rparr>;
                anchor' = (anchor \<or> main_fkey order = Some k);
                remaining' = clamp_zero (remaining - quantity) (eps self)
            in if remaining_amount margin' \<le> eps self
               then bind_res (pop_queue key self1) (\<lambda>self2. Inr ((self2, remaining', anchor'), True))
               else Inr ((self1, remaining', anchor'), True)))"

definition apply_futures :: "futures_order \<Rightarrow> match_engine \<Rightarrow> (match_error + hedge_result \<times> match_engine) option" where
  "apply_futures order self =
     (if \<not> is_finite (fo_amount order) \<or> fo_amount order < - eps self
      then Some (Inl (InvalidFillAmount (fo_client_order_id order)))
      else if eps self < fo_amount order \<and> fill_ts_us order = None
      then Some (Inl (NoFillTimestamp (fo_client_order_id order)))
      else
        case (case main_fkey order of None \<Rightarrow> Inr self | Some k \<Rightarrow> record_hedge_order k order self) of
          Inl e \<Rightarrow> Some (Inl e)
        | Inr self1 \<Rightarrow>
            map_option (map_sum id (\<lambda>(self2, remaining, anchor).
                (\<lparr>hr_order = order, allocated_amount = fo_amount order - remaining,
                  unallocated_amount = remaining, anchor_matched = anchor\<rparr>, self2)))
              (loop_res (hedge_step order (fo_symbol order, opposite (fo_side order)))
                (self1, fmax (fo_amount order) 0, fo_amount order \<le> eps self1)))"

section \<open>A batch of events\<close>

fun apply_events :: "match_event list \<Rightarrow> match_engine \<Rightarrow> hedge_result list \<Rightarrow> (match_error + hedge_result list \<times> match_engine) option" where
  "apply_events [] self hedges = Some (Inr (hedges, self))"
| "apply_events (Margin m # evs) self hedges =
     (case apply_margin m self of
        None \<Rightarrow> None
      | Some (Inl e) \<Rightarrow> Some (Inl e)
      | Some (Inr self') \<Rightarrow> apply_events evs self' hedges)"
| "apply_events (Futures m # evs) self hedges =
     (case apply_futures m self of
        None \<Rightarrow> None
      | Some (Inl e) \<Rightarrow> Some (Inl e)
      | Some (Inr (h, self')) \<Rightarrow> apply_events evs self' (hedges @ [h]))"

definition engine_apply :: "match_event list \<Rightarrow> match_engine \<Rightarrow> (match_error + hedge_result list \<times> match_engine) option" where
  "engine_apply events self = apply_events (sort_key event_key events) self []"

definition into_orders :: "match_engine \<Rightarrow> margin_order list" where
  "into_orders self = map snd (orders self)"

section \<open>The invariant of the engine\<close>

text \<open>An order is live while its remaining amount is not within \<open>epsilon\<close> of zero.  The live orders are
  exactly the members of the queues, each in the queue of its symbol and side, once; \<open>X\<close> exempts the
  order being applied.  Nothing is assumed of the amounts beyond being 64-bit values: a snapshot may
  hold infinities or NaN, which the source accepts.\<close>

definition live :: "f64 \<Rightarrow> margin_order \<Rightarrow> bool" where
  "live e m \<longleftrightarrow> \<not> remaining_amount m \<le> e"

definition order_key :: "margin_order \<Rightarrow> queue_key" where
  "order_key m = (mo_symbol m, mo_side m)"

definition eps_ok :: "f64 \<Rightarrow> bool" where
  "eps_ok e \<longleftrightarrow> is_finite e \<and> 0 \<le> e"

definition orders_ok :: "(int \<times> margin_order) list \<Rightarrow> bool" where
  "orders_ok os \<longleftrightarrow> bt_wf os \<and> (\<forall>k m. map_of os k = Some m \<longrightarrow> fkey m = k \<and> is_f64 (remaining_amount m))"

definition queues_ok :: "int set \<Rightarrow> match_engine \<Rightarrow> bool" where
  "queues_ok X s \<longleftrightarrow> (\<forall>key. distinct (queue_of s key)) \<and>
     (\<forall>key k. k \<in> set (queue_of s key) \<longleftrightarrow>
        k \<notin> X \<and> (\<exists>m. map_of (orders s) k = Some m \<and> order_key m = key \<and> live (eps s) m))"

definition counts_ok :: "match_engine \<Rightarrow> bool" where
  "counts_ok s \<longleftrightarrow> (\<forall>k i. (k, i) \<in> seen_hedge_orders s \<longrightarrow> hedge_order_counts s k \<noteq> None)"

definition wf_engine :: "int set \<Rightarrow> match_engine \<Rightarrow> bool" where
  "wf_engine X s \<longleftrightarrow> eps_ok (eps s) \<and> orders_ok (orders s) \<and> queues_ok X s \<and> counts_ok s"

lemmas engine_defs = wf_engine_def orders_ok_def queues_ok_def counts_ok_def

lemma queue_of_simps [simp]:
  "queue_of (s\<lparr>orders := os\<rparr>) = queue_of s"
  "queue_of (s\<lparr>queues := (queues s)(key \<mapsto> q)\<rparr>) = (queue_of s)(key := q)"
  "queue_of (push_queue k key s) = (queue_of s)(key := queue_of s key @ [k])"
  "queue_of (s\<lparr>first_hedge_timing := a\<rparr>) = queue_of s"
  "queue_of (s\<lparr>last_hedge_fill_ts_us := b\<rparr>) = queue_of s"
  "queue_of (s\<lparr>hedge_order_counts := c\<rparr>) = queue_of s"
  "queue_of (s\<lparr>seen_hedge_orders := d, hedge_order_counts := c\<rparr>) = queue_of s"
  by (auto simp: queue_of_def push_queue_def fun_eq_iff)

lemma push_queue_simps [simp]: "eps (push_queue k key s) = eps s" "orders (push_queue k key s) = orders s"
  "seen_hedge_orders (push_queue k key s) = seen_hedge_orders s"
  "hedge_order_counts (push_queue k key s) = hedge_order_counts s"
  by (simp_all add: push_queue_def)

text \<open>What a match changes in an order: neither its identity nor its queue.\<close>

lemma refresh_state_simps [simp]: "fkey (refresh_state e m) = fkey m" "order_key (refresh_state e m) = order_key m"
  "remaining_amount (refresh_state e m) = remaining_amount m" "netted_amount (refresh_state e m) = netted_amount m"
  "camount (refresh_state e m) = camount m" "open_fill_amount (refresh_state e m) = open_fill_amount m"
  "close_notional (refresh_state e m) = close_notional m"
  by (simp_all add: refresh_state_def order_key_def)

lemma net_order_simps [simp]: "fkey (net_order e q m) = fkey m" "order_key (net_order e q m) = order_key m"
  "remaining_amount (net_order e q m) = clamp_zero (remaining_amount m - q) e"
  "netted_amount (net_order e q m) = netted_amount m + q" "camount (net_order e q m) = camount m"
  "open_fill_amount (net_order e q m) = open_fill_amount m"
  by (simp_all add: net_order_def order_key_def) (simp add: refresh_state_def)

lemma hedge_order_simps [simp]: "fkey (hedge_order e q p m) = fkey m" "order_key (hedge_order e q p m) = order_key m"
  "remaining_amount (hedge_order e q p m) = clamp_zero (remaining_amount m - q) e"
  "netted_amount (hedge_order e q p m) = netted_amount m" "camount (hedge_order e q p m) = camount m + q"
  "open_fill_amount (hedge_order e q p m) = open_fill_amount m"
  by (auto simp: hedge_order_def Let_def order_key_def refresh_state_def split: option.splits)

lemma is_f64_clamp_zero [simp]: "is_f64 x \<Longrightarrow> is_f64 (clamp_zero x e)"
  by (simp add: clamp_zero_def)

lemma clamp_zero_cases: "clamp_zero (Fin q) e = Fin q \<or> clamp_zero (Fin q) e = 0"
  by (simp add: clamp_zero_def)

lemma eps_okE:
  assumes "eps_ok e" obtains d where "e = Fin d" "0 \<le> d"
  using assms by (auto simp: eps_ok_def is_finite_iff)

text \<open>Matching the lesser of two amounts, one of them finite, uses one of them up.\<close>

lemma match_uses_up:
  assumes "eps_ok e" "is_finite r" "is_f64 r" "is_f64 a" "\<not> r \<le> e" "\<not> a \<le> e"
  shows "let r' = clamp_zero (r - fmin r a) e; a' = clamp_zero (a - fmin r a) e in
    is_finite r' \<and> is_f64 r' \<and> is_f64 a' \<and> (a' \<le> e \<or> r' \<le> e)"
proof -
  obtain d where d: "e = Fin d" "0 \<le> d" using assms(1) by (rule eps_okE)
  obtain p where p: "r = Fin p" using assms(2) by (auto simp: is_finite_iff)
  show ?thesis
  proof (cases "\<exists>q. a = Fin q \<and> q \<le> p")
    case True
    then obtain q where q: "a = Fin q" "q \<le> p" by blast
    obtain c where c: "rnd (p - q) = Fin c" "is_f64 (Fin c)"
      using f64_sub_bounds [of p q] assms p q d by auto
    have "is_finite (clamp_zero (Fin c) e)" "is_f64 (clamp_zero (Fin c) e)"
      using clamp_zero_cases [of c e] c(2) by auto
    then show ?thesis using p q c d by (simp add: Let_def min_absorb2 clamp_zero_def)
  next
    case False
    have "fmin r a = r"
      using False p assms(6) d by (cases a rule: f64_cases3) (auto simp: fmin_def)
    then show ?thesis using p d assms(4) by (simp add: Let_def clamp_zero_def)
  qed
qed

text \<open>Replacing an order by one with the same identity keeps the invariant, if the order is exempt or
  still live, or if it leaves the front of its queue.\<close>

lemma wf_engineI:
  assumes "eps_ok (eps s)" "orders_ok (orders s)" "counts_ok s" "\<And>key. distinct (queue_of s key)"
    and "\<And>key k. k \<in> set (queue_of s key) \<longleftrightarrow>
        k \<notin> X \<and> (\<exists>m. map_of (orders s) k = Some m \<and> order_key m = key \<and> live (eps s) m)"
  shows "wf_engine X s"
  using assms unfolding wf_engine_def queues_ok_def by blast

lemma wf_engineD:
  assumes "wf_engine X s"
  shows "eps_ok (eps s)" "orders_ok (orders s)" "counts_ok s" "distinct (queue_of s key)"
    "k \<in> set (queue_of s key) \<longleftrightarrow>
      k \<notin> X \<and> (\<exists>m. map_of (orders s) k = Some m \<and> order_key m = key \<and> live (eps s) m)"
  using assms unfolding wf_engine_def queues_ok_def by blast+

lemma orders_okD: "orders_ok os \<Longrightarrow> map_of os k = Some m \<Longrightarrow> fkey m = k \<and> is_f64 (remaining_amount m)"
  by (simp add: orders_ok_def)

lemma orders_ok_insert [simp]:
  "orders_ok os \<Longrightarrow> fkey m = k \<Longrightarrow> is_f64 (remaining_amount m) \<Longrightarrow> orders_ok (bt_insert k m os)"
  by (simp add: orders_ok_def)

lemma counts_ok_simps [simp]: "counts_ok (s\<lparr>orders := os\<rparr>) = counts_ok s" "counts_ok (s\<lparr>queues := qs\<rparr>) = counts_ok s"
  "counts_ok (push_queue k key s) = counts_ok s" "counts_ok (s\<lparr>first_hedge_timing := a\<rparr>) = counts_ok s"
  "counts_ok (s\<lparr>last_hedge_fill_ts_us := b\<rparr>) = counts_ok s"
  by (simp_all add: counts_ok_def)

lemma order_in_queue:
  assumes "wf_engine X s" "queue_of s key = k # rest"
  obtains m where "map_of (orders s) k = Some m" "order_key m = key" "live (eps s) m" "k \<notin> X" "fkey m = k"
    "is_f64 (remaining_amount m)" "k \<notin> set rest" "distinct rest"
proof -
  have "k \<in> set (queue_of s key)" "distinct (k # rest)" using assms(2) wf_engineD(4) [OF assms(1), of key] by simp_all
  then show ?thesis using that wf_engineD(5) [OF assms(1), of k key] orders_okD [OF wf_engineD(2) [OF assms(1)]] by auto
qed

lemma wf_update:
  assumes wf: "wf_engine X s" and m: "map_of (orders s) k = Some m"
    and m': "fkey m' = k" "order_key m' = order_key m" "is_f64 (remaining_amount m')"
    and ok: "k \<in> X \<or> live (eps s) m' = live (eps s) m"
  shows "wf_engine X (s\<lparr>orders := bt_insert k m' (orders s)\<rparr>)"
proof (rule wf_engineI)
  fix key j
  show "j \<in> set (queue_of (s\<lparr>orders := bt_insert k m' (orders s)\<rparr>) key) \<longleftrightarrow>
      j \<notin> X \<and> (\<exists>m. map_of (orders (s\<lparr>orders := bt_insert k m' (orders s)\<rparr>)) j = Some m \<and> order_key m = key
        \<and> live (eps (s\<lparr>orders := bt_insert k m' (orders s)\<rparr>)) m)"
    using wf_engineD(5) [OF wf, of j key] m m' ok by (cases "j = k") auto
qed (use wf_engineD [OF wf] m' in simp_all)

lemma wf_retire:
  assumes wf: "wf_engine X s" and q: "queue_of s key = k # rest"
    and m': "fkey m' = k" "is_f64 (remaining_amount m')" and dead: "\<not> live (eps s) m'"
  shows "wf_engine X (s\<lparr>orders := bt_insert k m' (orders s), queues := (queues s)(key \<mapsto> rest)\<rparr>)"
proof -
  obtain m1 where m1: "map_of (orders s) k = Some m1" "order_key m1 = key" "k \<notin> set rest" "distinct rest"
    using order_in_queue [OF wf q] by metis
  have Q: "queue_of (s\<lparr>orders := bt_insert k m' (orders s), queues := (queues s)(key \<mapsto> rest)\<rparr>) = (queue_of s)(key := rest)"
    by (auto simp: queue_of_def fun_eq_iff)
  show ?thesis
  proof (rule wf_engineI)
    fix ky j
    show "j \<in> set (queue_of (s\<lparr>orders := bt_insert k m' (orders s), queues := (queues s)(key \<mapsto> rest)\<rparr>) ky) \<longleftrightarrow>
        j \<notin> X \<and> (\<exists>m. map_of (orders (s\<lparr>orders := bt_insert k m' (orders s), queues := (queues s)(key \<mapsto> rest)\<rparr>)) j = Some m
          \<and> order_key m = ky \<and> live (eps (s\<lparr>orders := bt_insert k m' (orders s), queues := (queues s)(key \<mapsto> rest)\<rparr>)) m)"
      using wf_engineD(5) [OF wf, of j ky] m1 dead q unfolding Q by (cases "j = k"; cases "ky = key") auto
  qed (use wf_engineD [OF wf] m' m1 in \<open>simp_all add: Q\<close>)
qed

lemma pop_queue_Cons:
  "queue_of s key = k # rest \<Longrightarrow> pop_queue key s = Inr (s\<lparr>queues := (queues s)(key \<mapsto> rest)\<rparr>)"
  by (auto simp: pop_queue_def queue_of_def split: option.splits)

section \<open>The netting loop\<close>

definition netted :: "int \<Rightarrow> margin_order \<Rightarrow> int \<Rightarrow> margin_order \<Rightarrow> queue_key \<Rightarrow> int list \<Rightarrow> match_engine \<Rightarrow> match_engine" where
  "netted k cur j oth key rest s =
     (let q = fmin (remaining_amount cur) (remaining_amount oth);
          s' = s\<lparr>orders := bt_insert k (net_order (eps s) q cur) (bt_insert j (net_order (eps s) q oth) (orders s))\<rparr>
      in if live (eps s) (net_order (eps s) q oth) then s' else s'\<lparr>queues := (queues s)(key \<mapsto> rest)\<rparr>)"

lemma net_step_stop:
  "map_of (orders s) k = Some cur \<Longrightarrow> queue_of s key = [] \<or> remaining_amount cur \<le> eps s \<Longrightarrow>
   net_step k key s = Inr (s, False)"
  by (auto simp: net_step_def queue_front_def order_at_def split: option.splits list.splits)

lemma net_step_go:
  assumes wf: "wf_engine {k} s" and cur: "map_of (orders s) k = Some cur" and q: "queue_of s key = j # rest"
    and go: "\<not> remaining_amount cur \<le> eps s" and oth: "map_of (orders s) j = Some oth"
  shows "net_step k key s = Inr (netted k cur j oth key rest s, True)"
proof -
  have jk: "j \<noteq> k" using order_in_queue [OF wf q] by auto
  let ?q = "fmin (remaining_amount cur) (remaining_amount oth)"
  let ?s = "s\<lparr>orders := bt_insert k (net_order (eps s) ?q cur) (bt_insert j (net_order (eps s) ?q oth) (orders s))\<rparr>"
  have "pop_queue key ?s = Inr (?s\<lparr>queues := (queues s)(key \<mapsto> rest)\<rparr>)"
    using pop_queue_Cons [of ?s key j rest] q by simp
  then show ?thesis using cur q go oth jk
    by (simp add: net_step_def queue_front_def order_at_def modify_order_def netted_def live_def Let_def)
qed

text \<open>One iteration keeps the invariant of the engine and either shortens the queue or uses up the new
  order.\<close>

definition netting :: "int \<Rightarrow> queue_key \<Rightarrow> match_engine \<Rightarrow> bool" where
  "netting k own s \<longleftrightarrow> wf_engine {k} s \<and>
     (\<exists>cur. map_of (orders s) k = Some cur \<and> is_finite (remaining_amount cur) \<and> order_key cur = own)"

definition net_measure :: "int \<Rightarrow> queue_key \<Rightarrow> match_engine \<Rightarrow> nat" where
  "net_measure k key s = length (queue_of s key) +
     (case map_of (orders s) k of None \<Rightarrow> 0 | Some cur \<Rightarrow> if live (eps s) cur then 1 else 0)"

lemma netted_ok:
  assumes n: "netting k own s" and cur: "map_of (orders s) k = Some cur" and q: "queue_of s key = j # rest"
    and go: "\<not> remaining_amount cur \<le> eps s" and oth: "map_of (orders s) j = Some oth"
  shows "netting k own (netted k cur j oth key rest s) \<and>
    net_measure k key (netted k cur j oth key rest s) < net_measure k key s \<and>
    eps (netted k cur j oth key rest s) = eps s"
proof -
  let ?q = "fmin (remaining_amount cur) (remaining_amount oth)"
  let ?cur = "net_order (eps s) ?q cur" and ?oth = "net_order (eps s) ?q oth"
  have wf: "wf_engine {k} s" and fin: "is_finite (remaining_amount cur)" "order_key cur = own"
    using n cur by (auto simp: netting_def)
  have o: "order_key oth = key" "live (eps s) oth" "j \<noteq> k" "fkey oth = j" "is_f64 (remaining_amount oth)" "j \<notin> set rest"
    using order_in_queue [OF wf q] oth by auto
  have c: "fkey cur = k" "is_f64 (remaining_amount cur)" "eps_ok (eps s)" using wf cur by (auto simp: engine_defs)
  have U: "is_finite (remaining_amount ?cur)" "is_f64 (remaining_amount ?cur)" "is_f64 (remaining_amount ?oth)"
    "\<not> live (eps s) ?oth \<or> \<not> live (eps s) ?cur"
    using match_uses_up [OF c(3) fin(1) c(2) o(5) go] o(2) by (auto simp: Let_def live_def)
  show ?thesis
  proof (cases "live (eps s) ?oth")
    case True
    let ?s1 = "s\<lparr>orders := bt_insert j ?oth (orders s)\<rparr>"
    have "wf_engine {k} ?s1"
      by (rule wf_update [OF wf oth]) (use o U True in simp_all)
    then have "wf_engine {k} (?s1\<lparr>orders := bt_insert k ?cur (orders ?s1)\<rparr>)"
      by (rule wf_update [where m = cur]) (use c cur U o in simp_all)
    then show ?thesis using True U cur fin go by (simp add: netted_def Let_def netting_def net_measure_def live_def)
  next
    case False
    let ?s1 = "s\<lparr>orders := bt_insert j ?oth (orders s), queues := (queues s)(key \<mapsto> rest)\<rparr>"
    have "wf_engine {k} ?s1"
      by (rule wf_retire [OF wf q]) (use o U False in simp_all)
    then have "wf_engine {k} (?s1\<lparr>orders := bt_insert k ?cur (orders ?s1)\<rparr>)"
      by (rule wf_update [where m = cur]) (use c cur U o in simp_all)
    moreover have eq: "netted k cur j oth key rest s = ?s1\<lparr>orders := bt_insert k ?cur (orders ?s1)\<rparr>"
      using False by (cases s) (simp add: netted_def Let_def)
    moreover have "queue_of (netted k cur j oth key rest s) = (queue_of s)(key := rest)"
      unfolding eq by (auto simp: queue_of_def fun_eq_iff)
    ultimately show ?thesis using U cur fin q go by (simp add: netting_def net_measure_def live_def)
  qed
qed

lemma net_cases:
  assumes n: "netting k own t"
  obtains (stop) cur where "map_of (orders t) k = Some cur" "net_step k key t = Inr (t, False)"
      "queue_of t key = [] \<or> \<not> live (eps t) cur"
  | (go) cur j rest oth where "map_of (orders t) k = Some cur" "queue_of t key = j # rest"
      "\<not> remaining_amount cur \<le> eps t" "map_of (orders t) j = Some oth"
      "net_step k key t = Inr (netted k cur j oth key rest t, True)"
proof -
  obtain cur where c: "map_of (orders t) k = Some cur" and wf: "wf_engine {k} t" using n by (auto simp: netting_def)
  show ?thesis
  proof (cases "queue_of t key = [] \<or> remaining_amount cur \<le> eps t")
    case True
    then show ?thesis using stop [OF c net_step_stop [OF c True]] by (auto simp: live_def)
  next
    case False
    then obtain j rest where q: "queue_of t key = j # rest" by (cases "queue_of t key") auto
    obtain oth where o: "map_of (orders t) j = Some oth" by (rule order_in_queue [OF wf q])
    show ?thesis using go [OF c q _ o net_step_go [OF wf c q _ o]] False by blast
  qed
qed

text \<open>Total correctness of the netting loop, with any invariant of its iterations.\<close>

lemma net_loop_total:
  assumes n: "netting k own s" and P: "P s"
    and stepP: "\<And>t cur j rest oth. netting k own t \<Longrightarrow> P t \<Longrightarrow> map_of (orders t) k = Some cur \<Longrightarrow>
      queue_of t key = j # rest \<Longrightarrow> \<not> remaining_amount cur \<le> eps t \<Longrightarrow> map_of (orders t) j = Some oth \<Longrightarrow>
      P (netted k cur j oth key rest t)"
  shows "\<exists>s' cur. loop_res (net_step k key) s = Some (Inr s') \<and> netting k own s' \<and> P s' \<and> eps s' = eps s
    \<and> map_of (orders s') k = Some cur \<and> (queue_of s' key = [] \<or> \<not> live (eps s) cur)"
proof -
  have "\<exists>r. loop_res (net_step k key) s = Some r \<and>
    (\<exists>s' cur. r = Inr s' \<and> netting k own s' \<and> P s' \<and> eps s' = eps s \<and> map_of (orders s') k = Some cur \<and>
       (queue_of s' key = [] \<or> \<not> live (eps s) cur))"
  proof (rule loop_res_total [where I = "\<lambda>t. netting k own t \<and> P t \<and> eps t = eps s" and m = "net_measure k key"])
    fix t e assume t: "netting k own t \<and> P t \<and> eps t = eps s" and st: "net_step k key t = Inl e"
    from t have "netting k own t" by simp
    then show "\<exists>s' cur. Inl e = Inr s' \<and> netting k own s' \<and> P s' \<and> eps s' = eps s \<and> map_of (orders s') k = Some cur \<and>
       (queue_of s' key = [] \<or> \<not> live (eps s) cur)"
      by (rule net_cases [of k own t key]) (use st in auto)
  next
    fix t t' assume t: "netting k own t \<and> P t \<and> eps t = eps s" and st: "net_step k key t = Inr (t', False)"
    from t have "netting k own t" by simp
    then show "\<exists>s' cur. Inr t' = Inr s' \<and> netting k own s' \<and> P s' \<and> eps s' = eps s \<and> map_of (orders s') k = Some cur \<and>
       (queue_of s' key = [] \<or> \<not> live (eps s) cur)"
      by (rule net_cases [of k own t key]) (use t st in auto)
  next
    fix t t' assume t: "netting k own t \<and> P t \<and> eps t = eps s" and st: "net_step k key t = Inr (t', True)"
    from t have n: "netting k own t" by simp
    show "(netting k own t' \<and> P t' \<and> eps t' = eps s) \<and> net_measure k key t' < net_measure k key t"
    proof (rule net_cases [OF n, of key])
      fix cur j rest oth assume a: "map_of (orders t) k = Some cur" "queue_of t key = j # rest"
        "\<not> remaining_amount cur \<le> eps t" "map_of (orders t) j = Some oth"
        and e: "net_step k key t = Inr (netted k cur j oth key rest t, True)"
      show ?thesis using netted_ok [OF n a] stepP [OF n _ a] t st e by auto
    qed (use st in auto)
  qed (use n P in simp)
  then show ?thesis by blast
qed

section \<open>Margin orders keep the invariant\<close>

lemma live_finite: "eps_ok e \<Longrightarrow> is_finite (remaining_amount m) \<Longrightarrow> live e m \<longleftrightarrow> e < remaining_amount m"
  by (auto simp: live_def eps_ok_def is_finite_iff)

lemma wf_insert_new:
  assumes wf: "wf_engine {} s" and "map_of (orders s) k = None" "fkey m = k" "is_f64 (remaining_amount m)"
  shows "wf_engine {k} (s\<lparr>orders := bt_insert k m (orders s)\<rparr>)"
proof (rule wf_engineI)
  fix key j
  show "j \<in> set (queue_of (s\<lparr>orders := bt_insert k m (orders s)\<rparr>) key) \<longleftrightarrow>
      j \<notin> {k} \<and> (\<exists>m'. map_of (orders (s\<lparr>orders := bt_insert k m (orders s)\<rparr>)) j = Some m' \<and> order_key m' = key
        \<and> live (eps (s\<lparr>orders := bt_insert k m (orders s)\<rparr>)) m')"
    using wf_engineD(5) [OF wf, of j key] assms(2) by (cases "j = k") simp_all
qed (use wf_engineD [OF wf] assms in simp_all)

lemma wf_enqueue:
  assumes wf: "wf_engine {k} s" and m: "map_of (orders s) k = Some m" and l: "live (eps s) m"
  shows "wf_engine {} (push_queue k (order_key m) s)"
proof (rule wf_engineI)
  fix key j
  show "j \<in> set (queue_of (push_queue k (order_key m) s) key) \<longleftrightarrow>
      j \<notin> {} \<and> (\<exists>m'. map_of (orders (push_queue k (order_key m) s)) j = Some m' \<and> order_key m' = key
        \<and> live (eps (push_queue k (order_key m) s)) m')"
    using wf_engineD(5) [OF wf, of j key] m l by (cases "j = k") auto
next
  fix key
  have "k \<notin> set (queue_of s (order_key m))" using wf_engineD(5) [OF wf, of k "order_key m"] by simp
  then show "distinct (queue_of (push_queue k (order_key m) s) key)" using wf_engineD(4) [OF wf, of key] wf_engineD(4) [OF wf] by simp
qed (use wf_engineD [OF wf] in simp_all)

lemma wf_exempt_dead:
  assumes wf: "wf_engine {k} s" and m: "map_of (orders s) k = Some m" and l: "\<not> live (eps s) m"
  shows "wf_engine {} s"
proof (rule wf_engineI)
  fix key j
  show "j \<in> set (queue_of s key) \<longleftrightarrow>
      j \<notin> {} \<and> (\<exists>m'. map_of (orders s) j = Some m' \<and> order_key m' = key \<and> live (eps s) m')"
    using wf_engineD(5) [OF wf, of j key] m l by (cases "j = k") auto
qed (use wf_engineD [OF wf] in simp_all)

lemma set_timing_simps [simp]: "fkey (set_timing t m) = fkey m" "order_key (set_timing t m) = order_key m"
  "remaining_amount (set_timing t m) = remaining_amount m" "open_fill_amount (set_timing t m) = open_fill_amount m"
  "netted_amount (set_timing t m) = netted_amount m" "camount (set_timing t m) = camount m"
  "state (set_timing t m) = state m"
  by (simp_all add: set_timing_def order_key_def)

lemma prepare_margin_simps [simp]: "fkey (prepare_margin s m) = fkey m" "order_key (prepare_margin s m) = order_key m"
  "remaining_amount (prepare_margin s m) = open_fill_amount m" "open_fill_amount (prepare_margin s m) = open_fill_amount m"
  "netted_amount (prepare_margin s m) = netted_amount m" "camount (prepare_margin s m) = camount m"
  "state (prepare_margin s m) = Pending"
  by (auto simp: prepare_margin_def Let_def order_key_def set_timing_def split: option.splits)

text \<open>What an accepted Margin order does: insert it, run the netting loop, queue what is left.\<close>

definition opposite_key :: "queue_key \<Rightarrow> queue_key" where
  "opposite_key key = (fst key, opposite (snd key))"

lemma apply_margin_runs:
  assumes wf: "wf_engine {} s" and f: "is_f64 (open_fill_amount m)"
    and ok: "is_finite (open_fill_amount m)" "\<not> open_fill_amount m \<le> eps s" "map_of (orders s) (fkey m) = None"
    and P: "P (s\<lparr>orders := bt_insert (fkey m) (prepare_margin s m) (orders s)\<rparr>)"
    and stepP: "\<And>t cur j rest oth. netting (fkey m) (order_key m) t \<Longrightarrow> P t \<Longrightarrow> map_of (orders t) (fkey m) = Some cur \<Longrightarrow>
      queue_of t (opposite_key (order_key m)) = j # rest \<Longrightarrow> \<not> remaining_amount cur \<le> eps t \<Longrightarrow> map_of (orders t) j = Some oth \<Longrightarrow>
      P (netted (fkey m) cur j oth (opposite_key (order_key m)) rest t)"
  obtains s2 cur where "netting (fkey m) (order_key m) s2" "P s2" "eps s2 = eps s" "map_of (orders s2) (fkey m) = Some cur"
    "order_key cur = order_key m" "queue_of s2 (opposite_key (order_key m)) = [] \<or> \<not> live (eps s) cur"
    "apply_margin m s = Some (Inr (if live (eps s) cur then push_queue (fkey m) (order_key m) s2 else s2))"
proof -
  let ?s1 = "s\<lparr>orders := bt_insert (fkey m) (prepare_margin s m) (orders s)\<rparr>"
  have key: "(mo_symbol (prepare_margin s m), mo_side (prepare_margin s m)) = order_key m"
    "(mo_symbol (prepare_margin s m), opposite (mo_side (prepare_margin s m))) = opposite_key (order_key m)"
    using prepare_margin_simps(2) [of s m] by (simp_all add: order_key_def opposite_key_def)
  have "wf_engine {fkey m} ?s1" using wf_insert_new [OF wf ok(3)] f by simp
  then have n: "netting (fkey m) (order_key m) ?s1" using ok by (simp add: netting_def)
  obtain s2 cur where L: "loop_res (net_step (fkey m) (opposite_key (order_key m))) ?s1 = Some (Inr s2)"
    "netting (fkey m) (order_key m) s2" "P s2" "eps s2 = eps s" "map_of (orders s2) (fkey m) = Some cur"
    "queue_of s2 (opposite_key (order_key m)) = [] \<or> \<not> live (eps s) cur"
  proof -
    have "\<exists>s2 cur. loop_res (net_step (fkey m) (opposite_key (order_key m))) ?s1 = Some (Inr s2) \<and>
      netting (fkey m) (order_key m) s2 \<and> P s2 \<and> eps s2 = eps ?s1 \<and> map_of (orders s2) (fkey m) = Some cur
      \<and> (queue_of s2 (opposite_key (order_key m)) = [] \<or> \<not> live (eps ?s1) cur)"
      by (rule net_loop_total [where P = P, OF n P stepP])
    then show ?thesis using that by (elim exE conjE) simp
  qed
  have c: "is_finite (remaining_amount cur)" "order_key cur = order_key m" "eps_ok (eps s)"
    using L wf by (auto simp: netting_def wf_engine_def)
  have "apply_margin m s = Some (Inr (if live (eps s) cur then push_queue (fkey m) (order_key m) s2 else s2))"
    using L(1,4,5) ok live_finite [OF c(3,1)] key
    by (simp add: apply_margin_def Let_def order_at_def)
  then show ?thesis using that L c by blast
qed

lemma apply_margin_error:
  "\<not> is_finite (open_fill_amount m) \<or> open_fill_amount m \<le> eps s \<Longrightarrow> apply_margin m s = Some (Inl (NoRealFill (fkey m)))"
  "is_finite (open_fill_amount m) \<Longrightarrow> \<not> open_fill_amount m \<le> eps s \<Longrightarrow> map_of (orders s) (fkey m) = Some m' \<Longrightarrow>
   apply_margin m s = Some (Inl (DuplicateMargin (fkey m)))"
  by (simp_all add: apply_margin_def)

lemma apply_margin_wf:
  assumes wf: "wf_engine {} s" and f: "is_f64 (open_fill_amount m)"
  shows "\<exists>r. apply_margin m s = Some r \<and> (case r of
      Inl e \<Rightarrow> e \<in> {NoRealFill (fkey m), DuplicateMargin (fkey m)}
    | Inr s' \<Rightarrow> wf_engine {} s' \<and> eps s' = eps s)"
proof (cases "is_finite (open_fill_amount m) \<and> \<not> open_fill_amount m \<le> eps s \<and> map_of (orders s) (fkey m) = None")
  case True
  obtain s2 cur where "netting (fkey m) (order_key m) s2" "eps s2 = eps s" "map_of (orders s2) (fkey m) = Some cur"
    "order_key cur = order_key m"
    "apply_margin m s = Some (Inr (if live (eps s) cur then push_queue (fkey m) (order_key m) s2 else s2))"
    by (rule apply_margin_runs [where P = "\<lambda>_. True", OF wf f]) (use True in simp_all)
  then show ?thesis using wf_enqueue [of "fkey m" s2 cur] wf_exempt_dead [of "fkey m" s2 cur]
    by (auto simp: netting_def)
next
  case False
  then show ?thesis using apply_margin_error(1) [of m s] apply_margin_error(2) [of m s]
    by (cases "is_finite (open_fill_amount m) \<and> \<not> open_fill_amount m \<le> eps s") auto
qed

section \<open>Futures orders keep the invariant\<close>

text \<open>Recording a hedge touches no amount and no queue.\<close>

definition match_view :: "margin_order \<Rightarrow> int \<times> queue_key \<times> f64 \<times> f64 \<times> f64 \<times> f64 \<times> matching_state" where
  "match_view m = (fkey m, order_key m, remaining_amount m, netted_amount m, camount m, open_fill_amount m, state m)"

definition view_at :: "match_engine \<Rightarrow> int \<Rightarrow> (int \<times> queue_key \<times> f64 \<times> f64 \<times> f64 \<times> f64 \<times> matching_state) option" where
  "view_at s k = map_option match_view (map_of (orders s) k)"

definition same_book :: "match_engine \<Rightarrow> match_engine \<Rightarrow> bool" where
  "same_book s s' \<longleftrightarrow> eps s' = eps s \<and> queues s' = queues s \<and> (bt_wf (orders s) \<longrightarrow> bt_wf (orders s')) \<and>
     view_at s' = view_at s"

lemma same_book_refl [simp]: "same_book s s" by (simp add: same_book_def)

lemma same_book_trans: "same_book a b \<Longrightarrow> same_book b c \<Longrightarrow> same_book a c"
  by (simp add: same_book_def)

lemma same_book_queue: "same_book s s' \<Longrightarrow> queue_of s' = queue_of s"
  by (auto simp: same_book_def queue_of_def)

lemma same_book_order:
  assumes "same_book s s'" "map_of (orders s') k = Some m'"
  obtains m where "map_of (orders s) k = Some m" "match_view m' = match_view m"
proof -
  have "view_at s' k = view_at s k" using assms(1) by (simp add: same_book_def)
  then show ?thesis using that assms(2) by (cases "map_of (orders s) k") (simp_all add: view_at_def)
qed

lemma same_book_sym_view: "same_book s s' \<Longrightarrow> bt_wf (orders s) \<Longrightarrow> same_book s' s"
  by (simp add: same_book_def)

lemma wf_same_book:
  assumes wf: "wf_engine X s" and sb: "same_book s s'" and c: "counts_ok s'"
  shows "wf_engine X s'"
proof (rule wf_engineI)
  note o = orders_okD [OF wf_engineD(2) [OF wf]]
  have bw: "bt_wf (orders s)" using wf_engineD(2) [OF wf] by (simp add: orders_ok_def)
  have e: "eps s' = eps s" using sb by (simp add: same_book_def)
  show "eps_ok (eps s')" using wf_engineD(1) [OF wf] e by simp
  have "fkey m = k \<and> is_f64 (remaining_amount m)" if m: "map_of (orders s') k = Some m" for k m
  proof -
    obtain m0 where "map_of (orders s) k = Some m0" "match_view m = match_view m0" by (rule same_book_order [OF sb m])
    then show ?thesis using o [of k m0] by (simp add: match_view_def)
  qed
  then show "orders_ok (orders s')" using bw sb by (simp add: orders_ok_def same_book_def)
  fix key j
  have "(\<exists>m'. map_of (orders s') j = Some m' \<and> order_key m' = key \<and> live (eps s') m') \<longleftrightarrow>
      (\<exists>m. map_of (orders s) j = Some m \<and> order_key m = key \<and> live (eps s) m)"
  proof
    assume "\<exists>m'. map_of (orders s') j = Some m' \<and> order_key m' = key \<and> live (eps s') m'"
    then obtain m' where m': "map_of (orders s') j = Some m'" "order_key m' = key" "live (eps s') m'" by blast
    obtain m where "map_of (orders s) j = Some m" "match_view m' = match_view m" by (rule same_book_order [OF sb m'(1)])
    then show "\<exists>m. map_of (orders s) j = Some m \<and> order_key m = key \<and> live (eps s) m"
      using m' e by (auto simp: match_view_def live_def)
  next
    assume "\<exists>m. map_of (orders s) j = Some m \<and> order_key m = key \<and> live (eps s) m"
    then obtain m' where m': "map_of (orders s) j = Some m'" "order_key m' = key" "live (eps s) m'" by blast
    obtain m where "map_of (orders s') j = Some m" "match_view m' = match_view m"
      by (rule same_book_order [OF same_book_sym_view [OF sb bw] m'(1)])
    then show "\<exists>m'. map_of (orders s') j = Some m' \<and> order_key m' = key \<and> live (eps s') m'"
      using m' e by (auto simp: match_view_def live_def)
  qed
  then show "j \<in> set (queue_of s' key) \<longleftrightarrow>
      j \<notin> X \<and> (\<exists>m'. map_of (orders s') j = Some m' \<and> order_key m' = key \<and> live (eps s') m')"
    unfolding same_book_queue [OF sb] using wf_engineD(5) [OF wf, of j key] by simp
qed (use c wf_engineD(4) [OF wf] same_book_queue [OF sb] in simp_all)

lemma same_book_fields [simp]:
  "same_book s (s\<lparr>first_hedge_timing := a\<rparr>)" "same_book s (s\<lparr>last_hedge_fill_ts_us := b\<rparr>)"
  "same_book s (s\<lparr>hedge_order_counts := c\<rparr>)" "same_book s (s\<lparr>seen_hedge_orders := d, hedge_order_counts := c\<rparr>)"
  by (simp_all add: same_book_def view_at_def fun_eq_iff)

lemma same_book_modify:
  assumes "map_of (orders s) k = Some m" "match_view (f m) = match_view m"
  shows "same_book s (s\<lparr>orders := bt_insert k (f m) (orders s)\<rparr>)"
  using assms by (auto simp: same_book_def view_at_def fun_eq_iff)

lemma match_view_times [simp]: "match_view (set_timing t m) = match_view m" "match_view (m\<lparr>fts := a, close_count := b\<rparr>) = match_view m"
  by (simp_all add: match_view_def set_timing_def order_key_def)

lemma same_book_if_present [simp]:
  "(\<And>m. match_view (f m) = match_view m) \<Longrightarrow> same_book s (modify_if_present f k s)"
  by (auto simp: modify_if_present_def intro: same_book_modify split: option.splits)

lemma counts_if_present [simp]: "counts_ok (modify_if_present f k s) = counts_ok s"
  "hedge_order_counts (modify_if_present f k s) = hedge_order_counts s"
  "seen_hedge_orders (modify_if_present f k s) = seen_hedge_orders s"
  "first_hedge_timing (modify_if_present f k s) = first_hedge_timing s"
  "last_hedge_fill_ts_us (modify_if_present f k s) = last_hedge_fill_ts_us s"
  by (auto simp: modify_if_present_def split: option.splits)

lemma record_timing_book [simp]: "same_book s (record_first_hedge_timing k t s)"
  "counts_ok (record_first_hedge_timing k t s) = counts_ok s"
proof -
  let ?s = "s\<lparr>first_hedge_timing := (first_hedge_timing s)(k \<mapsto> better_timing t (first_hedge_timing s k))\<rparr>"
  have "same_book s ?s" "\<And>f. (\<And>m. match_view (f m) = match_view m) \<Longrightarrow> same_book ?s (modify_if_present f k ?s)" by simp_all
  then show "same_book s (record_first_hedge_timing k t s)"
    unfolding record_first_hedge_timing_def Let_def using same_book_trans match_view_times(1) by blast
qed (simp add: record_first_hedge_timing_def Let_def)

lemma record_last_fill_book [simp]: "same_book s (record_last_fill k t s)" "counts_ok (record_last_fill k t s) = counts_ok s"
  by (simp_all add: record_last_fill_def)

lemma count_hedge_order_book [simp]: "same_book s (count_hedge_order k i s)"
  "counts_ok s \<Longrightarrow> counts_ok (count_hedge_order k i s)"
  "counts_ok s \<Longrightarrow> hedge_order_counts (count_hedge_order k i s) k \<noteq> None"
  by (auto simp: count_hedge_order_def counts_ok_def)

lemma record_hedge_order_ok:
  assumes "counts_ok s"
  shows "\<exists>s'. record_hedge_order k order s = Inr s' \<and> same_book s s' \<and> counts_ok s'"
proof -
  let ?s1 = "record_first_hedge_timing k (timing_of order) s"
  let ?s2 = "count_hedge_order k (fo_client_order_id order) ?s1"
  let ?s3 = "record_last_fill k (fill_ts_us order) ?s2"
  have sb: "same_book s ?s3"
    by (rule same_book_trans [OF same_book_trans [OF record_timing_book(1) count_hedge_order_book(1)] record_last_fill_book(1)])
  have c: "counts_ok ?s1" "counts_ok ?s3" using assms by simp_all
  obtain cnt where n: "hedge_order_counts ?s3 k = Some cnt"
    using count_hedge_order_book(3) [OF c(1)] by (auto simp: record_last_fill_def)
  show ?thesis
  proof (cases "map_of (orders ?s3) k")
    case None
    then show ?thesis using sb c by (auto simp: record_hedge_order_def Let_def)
  next
    case (Some m)
    let ?f = "\<lambda>m. m\<lparr>fts := last_hedge_fill_ts_us ?s3 k, close_count := cnt\<rparr>"
    have "same_book ?s3 (?s3\<lparr>orders := bt_insert k (?f m) (orders ?s3)\<rparr>)"
      by (rule same_book_modify [OF Some]) simp
    then show ?thesis using Some n sb c same_book_trans [OF sb]
      by (simp add: record_hedge_order_def Let_def modify_order_def order_at_def)
  qed
qed

text \<open>One iteration of the closing loop.\<close>

definition hedged :: "futures_order \<Rightarrow> int \<Rightarrow> margin_order \<Rightarrow> queue_key \<Rightarrow> int list \<Rightarrow> f64 \<Rightarrow> match_engine \<Rightarrow> match_engine" where
  "hedged order k m key rest remaining s =
     (let m' = hedge_order (eps s) (fmin remaining (remaining_amount m)) (fo_cprice order) m;
          s' = s\<lparr>orders := bt_insert k m' (orders s)\<rparr>
      in if live (eps s) m' then s' else s'\<lparr>queues := (queues s)(key \<mapsto> rest)\<rparr>)"

lemma hedge_step_stop:
  "\<not> eps s < r \<or> queue_of s key = [] \<Longrightarrow> hedge_step order key (s, r, a) = Inr ((s, r, a), False)"
  by (auto simp: hedge_step_def queue_front_def)

lemma hedge_step_go:
  assumes q: "queue_of s key = k # rest" and go: "eps s < r" and m: "map_of (orders s) k = Some m"
  shows "hedge_step order key (s, r, a) =
    Inr ((hedged order k m key rest r s, clamp_zero (r - fmin r (remaining_amount m)) (eps s),
          a \<or> main_fkey order = Some k), True)"
proof -
  let ?m = "hedge_order (eps s) (fmin r (remaining_amount m)) (fo_cprice order) m"
  let ?s = "s\<lparr>orders := bt_insert k ?m (orders s)\<rparr>"
  have "pop_queue key ?s = Inr (?s\<lparr>queues := (queues s)(key \<mapsto> rest)\<rparr>)"
    using pop_queue_Cons [of ?s key k rest] q by simp
  then show ?thesis using q go m
    by (simp add: hedge_step_def queue_front_def order_at_def hedged_def live_def Let_def)
qed

definition hedging :: "match_engine \<times> f64 \<times> bool \<Rightarrow> bool" where
  "hedging t = (case t of (s, r, a) \<Rightarrow> wf_engine {} s \<and> is_finite r \<and> is_f64 r)"

definition hedge_measure :: "queue_key \<Rightarrow> match_engine \<times> f64 \<times> bool \<Rightarrow> nat" where
  "hedge_measure key t = (case t of (s, r, a) \<Rightarrow> length (queue_of s key) + (if eps s < r then 1 else 0))"

lemma hedged_ok:
  fixes order :: futures_order
  assumes h: "hedging (s, r, a)" and q: "queue_of s key = k # rest" and go: "eps s < r" and m: "map_of (orders s) k = Some m"
  defines "r' \<equiv> clamp_zero (r - fmin r (remaining_amount m)) (eps s)" and "s' \<equiv> hedged order k m key rest r s"
  shows "hedging (s', r', a') \<and> hedge_measure key (s', r', a') < hedge_measure key (s, r, a) \<and> eps s' = eps s"
proof -
  let ?m = "hedge_order (eps s) (fmin r (remaining_amount m)) (fo_cprice order) m"
  have wf: "wf_engine {} s" and r: "is_finite r" "is_f64 r" using h by (simp_all add: hedging_def)
  have o: "order_key m = key" "live (eps s) m" "fkey m = k" "is_f64 (remaining_amount m)"
    using order_in_queue [OF wf q] m by auto
  note e = wf_engineD(1) [OF wf]
  have nle: "\<not> r \<le> eps s" using go e r by (auto simp: eps_ok_def is_finite_iff)
  have U: "is_finite r'" "is_f64 r'" "is_f64 (remaining_amount ?m)" "\<not> live (eps s) ?m \<or> \<not> eps s < r'"
    using match_uses_up [OF e r o(4) nle] o(2) e
    by (auto simp: Let_def live_def r'_def eps_ok_def is_finite_iff)
  show ?thesis
  proof (cases "live (eps s) ?m")
    case True
    have "wf_engine {} (s\<lparr>orders := bt_insert k ?m (orders s)\<rparr>)"
      by (rule wf_update [OF wf m]) (use o U True in simp_all)
    then show ?thesis using True U go by (simp add: s'_def hedged_def Let_def hedging_def hedge_measure_def)
  next
    case False
    have "wf_engine {} (s\<lparr>orders := bt_insert k ?m (orders s), queues := (queues s)(key \<mapsto> rest)\<rparr>)"
      by (rule wf_retire [OF wf q]) (use o U False in simp_all)
    then show ?thesis using False U go q
      by (simp add: s'_def hedged_def Let_def hedging_def hedge_measure_def queue_of_def)
  qed
qed

lemma hedge_cases:
  assumes "hedging (s, r, a)"
  obtains (stop) "hedge_step order key (s, r, a) = Inr ((s, r, a), False)" "\<not> eps s < r \<or> queue_of s key = []"
  | (go) k rest m where "queue_of s key = k # rest" "eps s < r" "map_of (orders s) k = Some m"
      "hedge_step order key (s, r, a) =
        Inr ((hedged order k m key rest r s, clamp_zero (r - fmin r (remaining_amount m)) (eps s),
          a \<or> main_fkey order = Some k), True)"
proof (cases "\<not> eps s < r \<or> queue_of s key = []")
  case True
  then show ?thesis using stop hedge_step_stop by blast
next
  case False
  then obtain k rest where q: "queue_of s key = k # rest" by (cases "queue_of s key") auto
  have wf: "wf_engine {} s" using assms by (simp add: hedging_def)
  obtain m where "map_of (orders s) k = Some m" by (rule order_in_queue [OF wf q])
  then show ?thesis using go [OF q _ _ hedge_step_go [OF q]] False by auto
qed

text \<open>Total correctness of the closing loop, with any invariant of its iterations.\<close>

lemma hedge_loop_total:
  assumes h: "hedging t0" and P: "P t0"
    and stepP: "\<And>s r a k rest m. hedging (s, r, a) \<Longrightarrow> P (s, r, a) \<Longrightarrow> queue_of s key = k # rest \<Longrightarrow> eps s < r \<Longrightarrow>
      map_of (orders s) k = Some m \<Longrightarrow>
      P (hedged order k m key rest r s, clamp_zero (r - fmin r (remaining_amount m)) (eps s), a \<or> main_fkey order = Some k)"
  shows "\<exists>s r a. loop_res (hedge_step order key) t0 = Some (Inr (s, r, a)) \<and> hedging (s, r, a) \<and> P (s, r, a)
    \<and> (\<not> eps s < r \<or> queue_of s key = [])"
proof -
  have "\<exists>res. loop_res (hedge_step order key) t0 = Some res \<and>
    (\<exists>s r a. res = Inr (s, r, a) \<and> hedging (s, r, a) \<and> P (s, r, a) \<and> (\<not> eps s < r \<or> queue_of s key = []))"
  proof (rule loop_res_total [where I = "\<lambda>t. hedging t \<and> P t" and m = "hedge_measure key"])
    fix t e assume t: "hedging t \<and> P t" and st: "hedge_step order key t = Inl e"
    obtain s r a where tt: "t = (s, r, a)" by (cases t) auto
    from t tt have "hedging (s, r, a)" by simp
    then show "\<exists>s r a. Inl e = Inr (s, r, a) \<and> hedging (s, r, a) \<and> P (s, r, a) \<and> (\<not> eps s < r \<or> queue_of s key = [])"
      by (rule hedge_cases [of s r a order key]) (use st tt in auto)
  next
    fix t t' assume t: "hedging t \<and> P t" and st: "hedge_step order key t = Inr (t', False)"
    obtain s r a where tt: "t = (s, r, a)" by (cases t) auto
    from t tt have "hedging (s, r, a)" by simp
    then show "\<exists>s r a. Inr t' = Inr (s, r, a) \<and> hedging (s, r, a) \<and> P (s, r, a) \<and> (\<not> eps s < r \<or> queue_of s key = [])"
      by (rule hedge_cases [of s r a order key]) (use t st tt in auto)
  next
    fix t t' assume t: "hedging t \<and> P t" and st: "hedge_step order key t = Inr (t', True)"
    obtain s r a where tt: "t = (s, r, a)" by (cases t) auto
    from t tt have h: "hedging (s, r, a)" and p: "P (s, r, a)" by simp_all
    show "(hedging t' \<and> P t') \<and> hedge_measure key t' < hedge_measure key t"
    proof (rule hedge_cases [OF h, of order key])
      fix k rest m assume q: "queue_of s key = k # rest" "eps s < r" "map_of (orders s) k = Some m"
        and e: "hedge_step order key (s, r, a) =
        Inr ((hedged order k m key rest r s, clamp_zero (r - fmin r (remaining_amount m)) (eps s),
          a \<or> main_fkey order = Some k), True)"
      show ?thesis using hedged_ok [OF h q, of order "a \<or> main_fkey order = Some k"] stepP [OF h p q] st tt e by auto
    qed (use st tt in auto)
  qed (use h P in simp)
  then show ?thesis by blast
qed

lemma fmax_zero_fin:
  assumes "is_finite x" "is_f64 x" shows "is_finite (fmax x 0) \<and> is_f64 (fmax x 0)"
  using assms by (auto simp: is_finite_iff zero_f64_def max_def)

lemma apply_futures_runs:
  assumes wf: "wf_engine {} s" and f: "is_f64 (fo_amount order)"
    and ok: "is_finite (fo_amount order)" "\<not> fo_amount order < - eps s" "\<not> eps s < fo_amount order \<or> fill_ts_us order \<noteq> None"
    and P: "\<And>s1. same_book s s1 \<Longrightarrow> wf_engine {} s1 \<Longrightarrow> P (s1, fmax (fo_amount order) 0, fo_amount order \<le> eps s1)"
    and stepP: "\<And>s r a k rest m. hedging (s, r, a) \<Longrightarrow> P (s, r, a) \<Longrightarrow>
      queue_of s (opposite_key (fo_symbol order, fo_side order)) = k # rest \<Longrightarrow> eps s < r \<Longrightarrow> map_of (orders s) k = Some m \<Longrightarrow>
      P (hedged order k m (opposite_key (fo_symbol order, fo_side order)) rest r s,
        clamp_zero (r - fmin r (remaining_amount m)) (eps s), a \<or> main_fkey order = Some k)"
  shows "\<exists>s' r a. apply_futures order s =
      Some (Inr (\<lparr>hr_order = order, allocated_amount = fo_amount order - r, unallocated_amount = r, anchor_matched = a\<rparr>, s'))
    \<and> hedging (s', r, a) \<and> P (s', r, a)
    \<and> (\<not> eps s' < r \<or> queue_of s' (opposite_key (fo_symbol order, fo_side order)) = [])"
proof -
  obtain s1 where s1: "(case main_fkey order of None \<Rightarrow> Inr s | Some k \<Rightarrow> record_hedge_order k order s) = Inr s1"
    "same_book s s1" "counts_ok s1"
  proof (cases "main_fkey order")
    case None
    then show ?thesis using that wf_engineD(3) [OF wf] by simp
  next
    case (Some k)
    then show ?thesis using that record_hedge_order_ok [OF wf_engineD(3) [OF wf], of k order] by auto
  qed
  have wf1: "wf_engine {} s1" by (rule wf_same_book [OF wf s1(2,3)])
  have "hedging (s1, fmax (fo_amount order) 0, fo_amount order \<le> eps s1)"
    using wf1 fmax_zero_fin [OF ok(1) f] by (simp add: hedging_def)
  from hedge_loop_total [where P = P, OF this P [OF s1(2) wf1] stepP]
  obtain s2 r a where L: "loop_res (hedge_step order (opposite_key (fo_symbol order, fo_side order)))
      (s1, fmax (fo_amount order) 0, fo_amount order \<le> eps s1) = Some (Inr (s2, r, a))"
    "hedging (s2, r, a)" "P (s2, r, a)"
    "\<not> eps s2 < r \<or> queue_of s2 (opposite_key (fo_symbol order, fo_side order)) = []" by blast
  then show ?thesis using ok s1(1)
    by (auto simp: apply_futures_def opposite_key_def)
qed

lemma apply_futures_error:
  "\<not> is_finite (fo_amount order) \<or> fo_amount order < - eps s \<Longrightarrow>
   apply_futures order s = Some (Inl (InvalidFillAmount (fo_client_order_id order)))"
  "is_finite (fo_amount order) \<Longrightarrow> \<not> fo_amount order < - eps s \<Longrightarrow> eps s < fo_amount order \<Longrightarrow> fill_ts_us order = None \<Longrightarrow>
   apply_futures order s = Some (Inl (NoFillTimestamp (fo_client_order_id order)))"
  by (simp_all add: apply_futures_def)

lemma apply_futures_wf:
  assumes wf: "wf_engine {} s" and f: "is_f64 (fo_amount order)"
  shows "\<exists>r. apply_futures order s = Some r \<and> (case r of
      Inl e \<Rightarrow> e \<in> {InvalidFillAmount (fo_client_order_id order), NoFillTimestamp (fo_client_order_id order)}
    | Inr (h, s') \<Rightarrow> wf_engine {} s' \<and> eps s' = eps s)"
proof (cases "is_finite (fo_amount order) \<and> \<not> fo_amount order < - eps s \<and>
    (\<not> eps s < fo_amount order \<or> fill_ts_us order \<noteq> None)")
  case True
  then have ok: "is_finite (fo_amount order)" "\<not> fo_amount order < - eps s"
    "\<not> eps s < fo_amount order \<or> fill_ts_us order \<noteq> None" by blast+
  have "\<exists>s' r a. apply_futures order s =
      Some (Inr (\<lparr>hr_order = order, allocated_amount = fo_amount order - r, unallocated_amount = r, anchor_matched = a\<rparr>, s'))
    \<and> hedging (s', r, a) \<and> eps (fst (s', r, a)) = eps s
    \<and> (\<not> eps s' < r \<or> queue_of s' (opposite_key (fo_symbol order, fo_side order)) = [])"
    by (rule apply_futures_runs [OF wf f ok]) (use hedged_ok in \<open>auto simp: same_book_def\<close>)
  then show ?thesis by (auto simp: hedging_def)
next
  case False
  then show ?thesis using apply_futures_error(1) [of order s] apply_futures_error(2) [of order s]
    by (cases "is_finite (fo_amount order) \<and> \<not> fo_amount order < - eps s") auto
qed

section \<open>Reachable engines\<close>

lemma remember_pending_book: "same_book s (remember_pending m s)" "counts_ok s \<Longrightarrow> counts_ok (remember_pending m s)"
  by (auto simp: remember_pending_def Let_def same_book_def view_at_def fun_eq_iff counts_ok_def split: option.splits)

lemma load_pending_Inr:
  assumes "load_pending m s = Inr s'"
  shows "\<not> remaining_amount m \<le> eps s"
    "map_of (orders (remember_pending (m\<lparr>state := Pending\<rparr>) s)) (fkey m) = None"
    "s' = push_queue (fkey m) (order_key m) ((remember_pending (m\<lparr>state := Pending\<rparr>) s)
       \<lparr>orders := bt_insert (fkey m) (m\<lparr>state := Pending\<rparr>) (orders (remember_pending (m\<lparr>state := Pending\<rparr>) s))\<rparr>)"
  using assms by (auto simp: load_pending_def Let_def order_key_def split: if_splits)

lemma load_pending_wf:
  assumes wf: "wf_engine {} s" and f: "is_f64 (remaining_amount m)" and ok: "load_pending m s = Inr s'"
  shows "wf_engine {} s' \<and> eps s' = eps s"
proof -
  let ?m = "m\<lparr>state := Pending\<rparr>"
  let ?s3 = "remember_pending ?m s"
  note L = load_pending_Inr [OF ok] and sb = remember_pending_book [of s ?m]
  have e: "eps ?s3 = eps s" using sb(1) by (simp add: same_book_def)
  have k: "order_key ?m = order_key m" by (simp add: order_key_def)
  have "wf_engine {} ?s3" by (rule wf_same_book [OF wf sb(1) sb(2) [OF wf_engineD(3) [OF wf]]])
  then have "wf_engine {fkey m} (?s3\<lparr>orders := bt_insert (fkey m) ?m (orders ?s3)\<rparr>)"
    by (rule wf_insert_new [OF _ L(2)]) (use f in simp_all)
  then have "wf_engine {} (push_queue (fkey m) (order_key ?m) (?s3\<lparr>orders := bt_insert (fkey m) ?m (orders ?s3)\<rparr>))"
    by (rule wf_enqueue) (use L(1) e in \<open>simp_all add: live_def\<close>)
  then show ?thesis using L(3) k e by simp
qed

lemma wf_empty: "eps_ok e \<Longrightarrow> wf_engine {} (empty_engine e)"
  by (simp add: empty_engine_def wf_engine_def orders_ok_def queues_ok_def queue_of_def counts_ok_def)

lemma engine_new_wf:
  assumes "engine_new pending e = Inr s" "\<forall>m \<in> set pending. is_f64 (remaining_amount m)"
  shows "wf_engine {} s \<and> eps s = e"
proof -
  have e: "eps_ok e" and f: "fold_res load_pending (sort_key pending_key pending) (empty_engine e) = Inr s"
    using assms(1) by (auto simp: engine_new_def eps_ok_def is_finite_iff split: if_splits)
  show ?thesis
    by (rule fold_res_inv [OF _ _ f, where I = "\<lambda>s. wf_engine {} s \<and> eps s = e"])
      (use assms(2) load_pending_wf wf_empty [OF e] in \<open>auto simp: empty_engine_def\<close>)
qed

lemma seed_one_ok:
  assumes "counts_ok s" shows "same_book s (seed_one h s) \<and> counts_ok (seed_one h s)"
proof -
  have s: "same_book t (record_first_hedge_timing k tm t)"
    "same_book t (t\<lparr>hedge_order_counts := c\<rparr>)" "same_book t (record_last_fill k a t)"
    "same_book t (modify_if_present (\<lambda>m. m\<lparr>fts := x, close_count := max (close_count m) y\<rparr>) k t)" for t k tm c a x y
    by (auto intro!: same_book_if_present simp: match_view_def order_key_def)
  have "same_book s (seed_one h s)"
    unfolding seed_one_def Let_def
    by (rule same_book_trans [OF _ s(4)], rule same_book_trans [OF _ s(3)], rule same_book_trans [OF s(1) s(2)])
  moreover have "counts_ok (seed_one h s)" using assms
    by (auto simp: seed_one_def Let_def counts_ok_def record_last_fill_def record_first_hedge_timing_def)
  ultimately show ?thesis by simp
qed

lemma seed_history_ok:
  "counts_ok s \<Longrightarrow> same_book s (seed_hedge_history hs s) \<and> counts_ok (seed_hedge_history hs s)"
  unfolding seed_hedge_history_def
proof (induction hs arbitrary: s)
  case (Cons h hs)
  then show ?case using seed_one_ok [of s h] same_book_trans by fastforce
qed simp

text \<open>An event carries 64-bit values.\<close>

fun event_f64 :: "match_event \<Rightarrow> bool" where
  "event_f64 (Margin m) = is_f64 (open_fill_amount m)"
| "event_f64 (Futures f) = is_f64 (fo_amount f)"

text \<open>What the engine may refuse: exactly one error per \<open>bail\<close> of the two handlers.\<close>

fun event_error :: "match_event \<Rightarrow> match_error set" where
  "event_error (Margin m) = {NoRealFill (fkey m), DuplicateMargin (fkey m)}"
| "event_error (Futures f) = {InvalidFillAmount (fo_client_order_id f), NoFillTimestamp (fo_client_order_id f)}"

lemma apply_events_wf:
  assumes "wf_engine {} s" "list_all event_f64 evs"
  shows "\<exists>r. apply_events evs s hs = Some r \<and> (case r of
      Inl e \<Rightarrow> \<exists>ev \<in> set evs. e \<in> event_error ev
    | Inr (hs', s') \<Rightarrow> wf_engine {} s' \<and> eps s' = eps s)"
  using assms
proof (induction evs arbitrary: s hs)
  case (Cons ev evs)
  have step: "\<exists>r. apply_events evs s' hs' = Some r \<and> (case r of
      Inl e \<Rightarrow> \<exists>ev \<in> set (ev # evs). e \<in> event_error ev
    | Inr (hs', s'') \<Rightarrow> wf_engine {} s'' \<and> eps s'' = eps s)" if "wf_engine {} s' \<and> eps s' = eps s" for s' hs'
    using Cons.IH [of s' hs'] Cons.prems that by (auto split: sum.splits)
  show ?case
  proof (cases ev)
    case (Margin m)
    obtain r where r: "apply_margin m s = Some r" "case r of
        Inl e \<Rightarrow> e \<in> {NoRealFill (fkey m), DuplicateMargin (fkey m)}
      | Inr s' \<Rightarrow> wf_engine {} s' \<and> eps s' = eps s"
      using apply_margin_wf [of s m] Cons.prems Margin by auto
    show ?thesis using r step Margin by (cases r) auto
  next
    case (Futures f)
    obtain r where r: "apply_futures f s = Some r" "case r of
        Inl e \<Rightarrow> e \<in> {InvalidFillAmount (fo_client_order_id f), NoFillTimestamp (fo_client_order_id f)}
      | Inr (h, s') \<Rightarrow> wf_engine {} s' \<and> eps s' = eps s"
      using apply_futures_wf [of s f] Cons.prems Futures by auto
    show ?thesis using r step Futures by (cases r) auto
  qed
qed simp

inductive reachable_engine :: "match_engine \<Rightarrow> bool" where
  loaded: "engine_new pending e = Inr s \<Longrightarrow> \<forall>m \<in> set pending. is_f64 (remaining_amount m) \<Longrightarrow> reachable_engine s"
| seeded: "reachable_engine s \<Longrightarrow> reachable_engine (seed_hedge_history hs s)"
| applied: "reachable_engine s \<Longrightarrow> list_all event_f64 evs \<Longrightarrow> engine_apply evs s = Some (Inr (hs, s')) \<Longrightarrow> reachable_engine s'"

lemma reachable_wf: "reachable_engine s \<Longrightarrow> wf_engine {} s"
proof (induction rule: reachable_engine.induct)
  case (loaded pending e s)
  then show ?case using engine_new_wf by blast
next
  case (seeded s hs)
  then show ?case using wf_same_book seed_history_ok [OF wf_engineD(3)] by blast
next
  case (applied s evs hs s')
  then have "list_all event_f64 (sort_key event_key evs)" by (simp add: list_all_iff)
  from apply_events_wf [OF applied.IH this, of "[]"] show ?case using applied.hyps(3) by (auto simp: engine_apply_def)
qed

end
