(* ===== verification/MatchSpec.thy ===== *)
theory MatchSpec
  imports IntraOrderMatch
begin

text \<open>
  What the matching engine promises, without maps, loops or rounding: per symbol and side one list of
  identified exact amounts, of which a Margin order first takes from the opposite list and then appends
  what is left, and a Futures order only takes.  Proved here: on exact amounts the engine implements
  this specification, operation by operation.
\<close>

section \<open>The first-in-first-out specification\<close>

text \<open>The abstract engine: one list of identified exact amounts per symbol and side.\<close>

fun take_lots :: "rat \<Rightarrow> (int \<times> rat) list \<Rightarrow> (int \<times> rat) list \<times> rat" where
  "take_lots a [] = ([], a)"
| "take_lots a ((k, q) # lots) =
     (if a \<le> 0 then ((k, q) # lots, a)
      else if q \<le> a then take_lots (a - q) lots
      else ((k, q - a) # lots, 0))"

type_synonym abstract_book = "queue_key \<Rightarrow> (int \<times> rat) list"

definition spec_margin :: "int \<Rightarrow> queue_key \<Rightarrow> rat \<Rightarrow> abstract_book \<Rightarrow> abstract_book" where
  "spec_margin k key fill b =
     (case take_lots fill (b (opposite_key key)) of (lots, rest) \<Rightarrow>
        let b1 = b(opposite_key key := lots)
        in if 0 < rest then b1(key := b1 key @ [(k, rest)]) else b1)"

definition spec_futures :: "queue_key \<Rightarrow> rat \<Rightarrow> abstract_book \<Rightarrow> abstract_book \<times> rat" where
  "spec_futures key amount b =
     (case take_lots amount (b (opposite_key key)) of (lots, rest) \<Rightarrow> (b(opposite_key key := lots), rest))"

text \<open>The exact engines: all amounts are whole numbers of \<open>2 ^ g\<close>, and \<open>epsilon\<close> is below one unit.\<close>

definition exact_order :: "int \<Rightarrow> margin_order \<Rightarrow> bool" where
  "exact_order g m \<longleftrightarrow> (\<exists>r n c f. remaining_amount m = Fin r \<and> netted_amount m = Fin n \<and> camount m = Fin c
     \<and> open_fill_amount m = Fin f \<and> units g r \<and> units g n \<and> units g c \<and> 0 \<le> r \<and> 0 \<le> n \<and> 0 \<le> c
     \<and> r + n + c = f \<and> f \<le> max_units g)"

definition exact_eps :: "int \<Rightarrow> f64 \<Rightarrow> bool" where
  "exact_eps g e \<longleftrightarrow> unit_exp g \<and> (\<exists>d. e = Fin d \<and> 0 \<le> d \<and> d < 2 powi g)"

definition exact_engine :: "int \<Rightarrow> match_engine \<Rightarrow> bool" where
  "exact_engine g s \<longleftrightarrow> exact_eps g (eps s) \<and> (\<forall>k m. map_of (orders s) k = Some m \<longrightarrow> exact_order g m)"

definition qrem :: "match_engine \<Rightarrow> int \<Rightarrow> rat" where
  "qrem s k = (case map_of (orders s) k of None \<Rightarrow> 0 | Some m \<Rightarrow> qval (remaining_amount m))"

definition lots :: "match_engine \<Rightarrow> abstract_book" where
  "lots s key = map (\<lambda>k. (k, qrem s k)) (queue_of s key)"

lemma units_abs_ge: "units g q \<Longrightarrow> q \<noteq> 0 \<Longrightarrow> 2 powi g \<le> \<bar>q\<bar>"
proof -
  assume "units g q" "q \<noteq> 0"
  then obtain k :: int where k: "q = of_int k * 2 powi g" "1 \<le> \<bar>k\<bar>" by (auto simp: units_def)
  then have "(of_int 1 :: rat) \<le> of_int \<bar>k\<bar>" by (simp only: of_int_le_iff)
  then have "of_int 1 * (2::rat) powi g \<le> of_int \<bar>k\<bar> * 2 powi g" by (intro mult_right_mono) auto
  then show ?thesis using k by (simp add: abs_mult)
qed

lemma exact_eps_clamp: "exact_eps g e \<Longrightarrow> units g q \<Longrightarrow> clamp_zero (Fin q) e = Fin q"
  using units_abs_ge [of g q] by (cases "q = 0") (auto simp: exact_eps_def clamp_zero_def)

lemma exact_eps_less: "exact_eps g e \<Longrightarrow> units g q \<Longrightarrow> 0 \<le> q \<Longrightarrow> (e < Fin q) = (0 < q)"
  using units_abs_ge [of g q] by (cases "q = 0") (auto simp: exact_eps_def)

lemma exact_eps_le: "exact_eps g e \<Longrightarrow> units g q \<Longrightarrow> 0 \<le> q \<Longrightarrow> (Fin q \<le> e) = (q = 0)"
  using units_abs_ge [of g q] by (cases "q = 0") (auto simp: exact_eps_def)

lemma exact_step:
  assumes "exact_order g m" "exact_eps g e" "units g q" "0 \<le> q" "q \<le> qval (remaining_amount m)"
  shows "exact_order g (net_order e (Fin q) m)" "exact_order g (hedge_order e (Fin q) p m)"
    "clamp_zero (remaining_amount m - Fin q) e = Fin (qval (remaining_amount m) - q)"
proof -
  have g: "unit_exp g" using assms(2) by (simp add: exact_eps_def)
  obtain r n c f where m: "remaining_amount m = Fin r" "netted_amount m = Fin n" "camount m = Fin c"
    "open_fill_amount m = Fin f" "units g r" "units g n" "units g c" "0 \<le> r" "0 \<le> n" "0 \<le> c" "r + n + c = f" "f \<le> max_units g"
    using assms(1) by (auto simp: exact_order_def)
  have q: "q \<le> r" using assms(5) m by simp
  have R: "rnd (r - q) = Fin (r - q)" "rnd (n + q) = Fin (n + q)" "rnd (c + q) = Fin (c + q)"
    using assms(3,4) q m by (auto intro!: rnd_units [OF g] units_add units_diff)
  show c: "clamp_zero (remaining_amount m - Fin q) e = Fin (qval (remaining_amount m) - q)"
    using R m assms(3) exact_eps_clamp [OF assms(2), of "r - q"] by simp
  show "exact_order g (net_order e (Fin q) m)"
    unfolding exact_order_def net_order_simps c using m R q assms(3,4)
    by (intro exI [of _ "r - q"] exI [of _ "n + q"] exI [of _ c] exI [of _ f]) simp
  show "exact_order g (hedge_order e (Fin q) p m)"
    unfolding exact_order_def hedge_order_simps c using m R q assms(3,4)
    by (intro exI [of _ "r - q"] exI [of _ n] exI [of _ "c + q"] exI [of _ f]) simp
qed

lemma exact_orderE:
  assumes "exact_order g m"
  obtains r where "remaining_amount m = Fin r" "units g r" "0 \<le> r" "r \<le> max_units g"
  using assms by (auto simp: exact_order_def)

lemma exact_live: "exact_order g m \<Longrightarrow> exact_eps g e \<Longrightarrow> live e m \<longleftrightarrow> 0 < qval (remaining_amount m)"
  by (erule exact_orderE) (auto simp: live_def exact_eps_le)

lemma exact_engine_insert:
  "exact_engine g s \<Longrightarrow> exact_order g m \<Longrightarrow> exact_engine g (s\<lparr>orders := bt_insert k m (orders s)\<rparr>)"
  by (auto simp: exact_engine_def)

lemma exact_engine_queues [simp]: "exact_engine g (s\<lparr>queues := q\<rparr>) = exact_engine g s"
  "exact_engine g (push_queue k key s) = exact_engine g s"
  by (simp_all add: exact_engine_def)

text \<open>Replacing orders outside a queue does not change its lots.\<close>

lemma lots_cong: "queue_of s' key = queue_of s key \<Longrightarrow> (\<And>k. k \<in> set (queue_of s key) \<Longrightarrow> map_of (orders s') k = map_of (orders s) k) \<Longrightarrow>
    lots s' key = lots s key"
  by (simp add: lots_def qrem_def)

lemma queue_key_unique:
  "wf_engine X s \<Longrightarrow> map_of (orders s) k = Some m \<Longrightarrow> k \<in> set (queue_of s key) \<Longrightarrow> key = order_key m"
  by (auto simp: wf_engineD(5))

lemma take_lots_step:
  "0 < a \<Longrightarrow> take_lots a ((k, q) # ls) = (if q \<le> a then take_lots (a - q) ls else take_lots 0 ((k, q - a) # ls))"
  by simp

lemma take_lots_done: "a \<le> 0 \<or> ls = [] \<Longrightarrow> take_lots a ls = (ls, a)"
  by (cases ls) auto


text \<open>One match on the abstract side: the front lot is reduced, or dropped when nothing is left of it.\<close>

definition hit_front :: "rat \<Rightarrow> (int \<times> rat) list \<Rightarrow> (int \<times> rat) list" where
  "hit_front a ls = (case ls of [] \<Rightarrow> [] | (k, q) # rest \<Rightarrow> if q \<le> a then rest else (k, q - a) # rest)"

lemma take_lots_hit:
  "0 < a \<Longrightarrow> ls = (k, q) # rest \<Longrightarrow> take_lots (a - min a q) (hit_front a ls) = take_lots a ls"
  by (auto simp: hit_front_def min_def take_lots_done)

lemma exact_retire_lots:
  assumes wf: "wf_engine X s" and q: "queue_of s key = k # rest" and os: "map_of os k = Some m'"
    and same: "\<And>j. j \<in> set rest \<Longrightarrow> map_of os j = map_of (orders s) j"
    and rem: "qval (remaining_amount m') = qrem s k - min a (qrem s k)" and pos: "0 < qrem s k" "0 < a"
    and alive: "alive \<longleftrightarrow> 0 < qval (remaining_amount m')"
  shows "lots (if alive then s\<lparr>orders := os\<rparr> else s\<lparr>orders := os, queues := (queues s)(key \<mapsto> rest)\<rparr>) key =
    hit_front a (lots s key)"
proof -
  let ?t = "if alive then s\<lparr>orders := os\<rparr> else s\<lparr>orders := os, queues := (queues s)(key \<mapsto> rest)\<rparr>"
  have R: "map (\<lambda>j. (j, qrem ?t j)) rest = map (\<lambda>j. (j, qrem s j)) rest"
    using same by (auto simp: qrem_def)
  have Q: "queue_of ?t key = (if alive then k # rest else rest)" using q by (simp add: queue_of_def)
  have "qrem ?t k = qrem s k - min a (qrem s k)" using os rem by (simp add: qrem_def)
  then show ?thesis using R alive rem q unfolding lots_def Q by (auto simp: hit_front_def min_def)
qed

lemma netted_exact:
  assumes n: "netting k own t" and ex: "exact_engine g t" and cur: "map_of (orders t) k = Some cur"
    and q: "queue_of t key = j # rest" and go: "\<not> remaining_amount cur \<le> eps t" and oth: "map_of (orders t) j = Some oth"
  defines "t' \<equiv> netted k cur j oth key rest t"
  shows "exact_engine g t'" "qrem t' k = qrem t k - min (qrem t k) (qrem t j)" "0 < qrem t k"
    "lots t' key = hit_front (qrem t k) (lots t key)" "\<And>ky. ky \<noteq> key \<Longrightarrow> lots t' ky = lots t ky"
proof -
  have wf: "wf_engine {k} t" using n by (simp add: netting_def)
  have e: "exact_eps g (eps t)" and eo: "exact_order g cur" "exact_order g oth" using ex cur oth by (auto simp: exact_engine_def)
  have o: "order_key oth = key" "live (eps t) oth" "j \<noteq> k" "j \<notin> set rest" "distinct rest"
    using order_in_queue [OF wf q] oth by auto
  obtain a where a: "remaining_amount cur = Fin a" "units g a" "0 \<le> a" using eo(1) by (rule exact_orderE)
  obtain b where b: "remaining_amount oth = Fin b" "units g b" "0 \<le> b" using eo(2) by (rule exact_orderE)
  have pos: "0 < a" "0 < b" using exact_live [OF eo(1) e] exact_live [OF eo(2) e] go o(2) a b by (auto simp: live_def)
  have qr: "qrem t k = a" "qrem t j = b" using cur oth a b by (simp_all add: qrem_def)
  let ?q = "min a b"
  have uq: "units g ?q" "0 \<le> ?q" "?q \<le> qval (remaining_amount cur)" "?q \<le> qval (remaining_amount oth)"
    using a b by (auto simp: min_def)
  have F: "fmin (remaining_amount cur) (remaining_amount oth) = Fin ?q" using a b by simp
  note E = exact_step [OF eo(1) e uq(1,2,3)] exact_step [OF eo(2) e uq(1,2,4)]
  let ?os = "bt_insert k (net_order (eps t) (Fin ?q) cur) (bt_insert j (net_order (eps t) (Fin ?q) oth) (orders t))"
  have T: "t' = (if live (eps t) (net_order (eps t) (Fin ?q) oth) then t\<lparr>orders := ?os\<rparr>
      else t\<lparr>orders := ?os, queues := (queues t)(key \<mapsto> rest)\<rparr>)"
    by (simp add: t'_def netted_def F Let_def)
  show "exact_engine g t'" unfolding T using ex E(1,4) by (auto simp: exact_engine_def)
  show "qrem t' k = qrem t k - min (qrem t k) (qrem t j)" using E(3) a b pos by (simp add: T qr) (simp add: qrem_def)
  show "0 < qrem t k" using pos qr by simp
  show "lots t' key = hit_front (qrem t k) (lots t key)"
    unfolding T
  proof (rule exact_retire_lots [OF wf q])
    show "map_of ?os i = map_of (orders t) i" if "i \<in> set rest" for i
      using that o wf_engineD(5) [OF wf, of k key] q by auto
    show "map_of ?os j = Some (net_order (eps t) (Fin ?q) oth)" using o by simp
    show "live (eps t) (net_order (eps t) (Fin ?q) oth) \<longleftrightarrow> 0 < qval (remaining_amount (net_order (eps t) (Fin ?q) oth))"
      by (rule exact_live [OF E(4) e])
  qed (use E(6) b pos qr in auto)
  fix ky assume ky: "ky \<noteq> key"
  show "lots t' ky = lots t ky"
  proof (rule lots_cong)
    show "queue_of t' ky = queue_of t ky" using ky by (simp add: T queue_of_def)
    fix i assume i: "i \<in> set (queue_of t ky)"
    have "i \<noteq> j" using queue_key_unique [OF wf oth, of ky] i ky o(1) by auto
    moreover have "i \<noteq> k" using i wf_engineD(5) [OF wf, of i ky] by auto
    ultimately show "map_of (orders t') i = map_of (orders t) i" by (simp add: T)
  qed
qed

lemma hedged_exact:
  fixes order :: futures_order
  assumes h: "hedging (t, Fin r, a)" and ex: "exact_engine g t" and r: "units g r" "0 \<le> r" "r \<le> max_units g"
    and q: "queue_of t key = k # rest" and go: "eps t < Fin r" and m: "map_of (orders t) k = Some m"
  defines "t' \<equiv> hedged order k m key rest (Fin r) t"
  shows "exact_engine g t'" "clamp_zero (Fin r - fmin (Fin r) (remaining_amount m)) (eps t) = Fin (r - min r (qrem t k))"
    "0 < r" "units g (r - min r (qrem t k))"
    "lots t' key = hit_front r (lots t key)" "\<And>ky. ky \<noteq> key \<Longrightarrow> lots t' ky = lots t ky"
proof -
  have wf: "wf_engine {} t" using h by (simp add: hedging_def)
  have e: "exact_eps g (eps t)" and eo: "exact_order g m" using ex m by (auto simp: exact_engine_def)
  have o: "order_key m = key" "live (eps t) m" "k \<notin> set rest" using order_in_queue [OF wf q] m by auto
  obtain b where b: "remaining_amount m = Fin b" "units g b" "0 \<le> b" using eo by (rule exact_orderE)
  have pos: "0 < r" "0 < b" using exact_eps_less [OF e r(1,2)] exact_live [OF eo e] go o(2) b by auto
  have qr: "qrem t k = b" using m b by (simp add: qrem_def)
  let ?q = "min r b"
  have uq: "units g ?q" "0 \<le> ?q" "?q \<le> qval (remaining_amount m)" using r b by (auto simp: min_def)
  note E = exact_step [OF eo e uq]
  let ?m = "hedge_order (eps t) (Fin ?q) (fo_cprice order) m"
  let ?os = "bt_insert k ?m (orders t)"
  have T: "t' = (if live (eps t) ?m then t\<lparr>orders := ?os\<rparr> else t\<lparr>orders := ?os, queues := (queues t)(key \<mapsto> rest)\<rparr>)"
    using b by (simp add: t'_def hedged_def Let_def)
  show "exact_engine g t'" unfolding T using ex E(2) by (auto simp: exact_engine_def)
  show "0 < r" by (rule pos(1))
  show u: "units g (r - min r (qrem t k))" using r b by (simp add: qr min_def)
  have ge: "unit_exp g" using e by (simp add: exact_eps_def)
  have "rnd (r - min r b) = Fin (r - min r b)"
    using u r b by (intro rnd_units [OF ge]) (auto simp: qr)
  then show "clamp_zero (Fin r - fmin (Fin r) (remaining_amount m)) (eps t) = Fin (r - min r (qrem t k))"
    using exact_eps_clamp [OF e u] b qr by simp
  show "lots t' key = hit_front r (lots t key)"
    unfolding T
  proof (rule exact_retire_lots [OF wf q])
    show "map_of ?os i = map_of (orders t) i" if "i \<in> set rest" for i using that o by auto
    show "live (eps t) ?m \<longleftrightarrow> 0 < qval (remaining_amount ?m)" by (rule exact_live [OF E(2) e])
  qed (use E(3) b pos qr in auto)
  fix ky assume ky: "ky \<noteq> key"
  show "lots t' ky = lots t ky"
  proof (rule lots_cong)
    show "queue_of t' ky = queue_of t ky" using ky by (simp add: T queue_of_def)
    fix i assume i: "i \<in> set (queue_of t ky)"
    have "i \<noteq> k" using queue_key_unique [OF wf m, of ky] i ky o(1) by auto
    then show "map_of (orders t') i = map_of (orders t) i" by (simp add: T)
  qed
qed


section \<open>The engine refines the specification\<close>

text \<open>An exact event: amounts in units of \<open>2 ^ g\<close>; a Margin order comes without matches.\<close>

fun exact_event :: "int \<Rightarrow> match_event \<Rightarrow> bool" where
  "exact_event g (Margin m) \<longleftrightarrow> is_f64 (open_fill_amount m) \<and> units g (qval (open_fill_amount m))
     \<and> qval (open_fill_amount m) \<le> max_units g \<and> netted_amount m = 0 \<and> camount m = 0"
| "exact_event g (Futures f) \<longleftrightarrow> is_f64 (fo_amount f) \<and> units g (qval (fo_amount f)) \<and> qval (fo_amount f) \<le> max_units g"

lemma opposite_key_neq [simp]: "opposite_key key \<noteq> key" "key \<noteq> opposite_key key"
  by (cases key; simp add: opposite_key_def)+

lemma margin_refines:
  assumes wf: "wf_engine {} s" and ex: "exact_engine g s" and ev: "exact_event g (Margin m)"
    and ok: "apply_margin m s = Some (Inr s')"
  shows "exact_engine g s'" "lots s' = spec_margin (fkey m) (order_key m) (qval (open_fill_amount m)) (lots s)"
proof -
  let ?k = "fkey m" and ?own = "order_key m" and ?f = "qval (open_fill_amount m)"
  let ?key = "opposite_key ?own"
  let ?s1 = "s\<lparr>orders := bt_insert ?k (prepare_margin s m) (orders s)\<rparr>"
  have acc: "is_finite (open_fill_amount m)" "\<not> open_fill_amount m \<le> eps s" "map_of (orders s) ?k = None"
    using ok by (auto simp: apply_margin_def split: if_splits)
  have e: "exact_eps g (eps s)" using ex by (simp add: exact_engine_def)
  obtain f where f: "open_fill_amount m = Fin f" using acc by (auto simp: is_finite_iff)
  have "0 \<le> f" using acc(2) e f by (auto simp: exact_eps_def)
  then have po: "exact_order g (prepare_margin s m)"
    using ev f unfolding exact_order_def prepare_margin_simps
    by (intro exI [of _ f] exI [of _ 0]) (simp add: zero_f64_def)
  define T where "T = take_lots ?f (lots s ?key)"
  let ?P = "\<lambda>t. exact_engine g t \<and> take_lots (qrem t ?k) (lots t ?key) = T \<and> (\<forall>ky. ky \<noteq> ?key \<longrightarrow> lots t ky = lots s ky)"
  have knew: "i \<noteq> ?k" if "i \<in> set (queue_of s ky)" for i ky
    using that wf_engineD(5) [OF wf, of i ky] acc(3) by auto
  have L1: "lots ?s1 ky = lots s ky" for ky
    by (rule lots_cong) (use knew in auto)
  have P1: "?P ?s1" using exact_engine_insert [OF ex po] L1 by (simp add: T_def qrem_def)
  obtain s2 cur where S: "netting ?k ?own s2" "?P s2" "eps s2 = eps s" "map_of (orders s2) ?k = Some cur"
    "queue_of s2 ?key = [] \<or> \<not> live (eps s) cur"
    "apply_margin m s = Some (Inr (if live (eps s) cur then push_queue ?k ?own s2 else s2))"
  proof (rule apply_margin_runs [where P = ?P, OF wf _ acc P1])
    fix t cur j rest oth
    assume a: "netting ?k ?own t" "?P t" "map_of (orders t) ?k = Some cur" "queue_of t ?key = j # rest"
      "\<not> remaining_amount cur \<le> eps t" "map_of (orders t) j = Some oth"
    have x: "exact_engine g t" using a by simp
    have "lots t ?key = (j, qrem t j) # map (\<lambda>k. (k, qrem t k)) rest" using a(4) by (simp add: lots_def)
    note N = netted_exact [OF a(1) x a(3-6)] take_lots_hit [OF netted_exact(3) [OF a(1) x a(3-6)] this]
    then show "?P (netted ?k cur j oth ?key rest t)" using a(2) by simp
  qed (use ev in auto)
  have x2: "exact_engine g s2" and T2: "take_lots (qrem s2 ?k) (lots s2 ?key) = T" and O2: "\<And>ky. ky \<noteq> ?key \<Longrightarrow> lots s2 ky = lots s ky"
    using S(2) by auto
  have eo: "exact_order g cur" and q2: "qrem s2 ?k = qval (remaining_amount cur)"
    using x2 S(4) by (auto simp: exact_engine_def qrem_def)
  have lv: "live (eps s) cur \<longleftrightarrow> 0 < qrem s2 ?k" using exact_live [OF eo e] q2 by simp
  have "qrem s2 ?k \<le> 0 \<or> lots s2 ?key = []" using S(5) lv by (auto simp: lots_def)
  then have T: "T = (lots s2 ?key, qrem s2 ?k)" using T2 take_lots_done by metis
  show "exact_engine g s'" using S(6) ok x2 by (auto split: if_splits)
  have push: "lots (push_queue ?k ?own s2) = (lots s2)(?own := lots s2 ?own @ [(?k, qrem s2 ?k)])"
    by (auto simp: fun_eq_iff lots_def qrem_def)
  have own: "lots s2 = (lots s)(?key := lots s2 ?key)" using O2 by (auto simp: fun_eq_iff)
  show "lots s' = spec_margin ?k ?own ?f (lots s)"
    unfolding spec_margin_def T_def [symmetric] T using S(6) ok lv push own O2 [of ?own]
    by (simp add: Let_def split: if_splits)
qed

lemma futures_refines:
  assumes wf: "wf_engine {} s" and ex: "exact_engine g s" and ev: "exact_event g (Futures f)"
    and ok: "apply_futures f s = Some (Inr (h, s'))"
  defines "key \<equiv> (fo_symbol f, fo_side f)" and "a \<equiv> max (qval (fo_amount f)) 0"
  shows "exact_engine g s'" "lots s' = fst (spec_futures key a (lots s))"
    "unallocated_amount h = Fin (snd (spec_futures key a (lots s)))"
    "allocated_amount h = fo_amount f - unallocated_amount h"
proof -
  let ?key = "opposite_key key"
  have acc: "is_finite (fo_amount f)" "\<not> fo_amount f < - eps s" "\<not> eps s < fo_amount f \<or> fill_ts_us f \<noteq> None"
    using ok by (auto simp: apply_futures_def split: if_splits)
  obtain b where b: "fo_amount f = Fin b" using acc by (auto simp: is_finite_iff)
  have a: "a = max b 0" "units g a" "0 \<le> a" "a \<le> max_units g" "fmax (fo_amount f) 0 = Fin a"
    using ev b by (auto simp: a_def max_def zero_f64_def max_units_def)
  define T where "T = take_lots a (lots s ?key)"
  let ?P = "\<lambda>(t, r, an). exact_engine g t \<and> (\<exists>q. r = Fin q \<and> units g q \<and> 0 \<le> q \<and> q \<le> max_units g
      \<and> take_lots q (lots t ?key) = T) \<and> (\<forall>ky. ky \<noteq> ?key \<longrightarrow> lots t ky = lots s ky)"
  have "\<exists>s' r an. apply_futures f s =
      Some (Inr (\<lparr>hr_order = f, allocated_amount = fo_amount f - r, unallocated_amount = r, anchor_matched = an\<rparr>, s'))
    \<and> hedging (s', r, an) \<and> ?P (s', r, an) \<and> (\<not> eps s' < r \<or> queue_of s' (opposite_key (fo_symbol f, fo_side f)) = [])"
  proof (rule apply_futures_runs [where P = ?P, OF wf _ acc])
    fix s1 assume sb: "same_book s s1" and w: "wf_engine {} s1"
    have bw: "bt_wf (orders s)" using wf_engineD(2) [OF wf] by (simp add: orders_ok_def)
    have v: "view_at s1 = view_at s" using sb by (simp add: same_book_def)
    have qr: "qrem s1 k = qrem s k" for k
      using fun_cong [OF v, of k]
      by (cases "map_of (orders s1) k"; cases "map_of (orders s) k") (auto simp: qrem_def view_at_def match_view_def)
    have L: "lots s1 = lots s" by (simp add: fun_eq_iff lots_def qr same_book_queue [OF sb])
    have "exact_order g m" if m: "map_of (orders s1) k = Some m" for k m
    proof -
      obtain m0 where "map_of (orders s) k = Some m0" "match_view m = match_view m0" by (rule same_book_order [OF sb m])
      then show ?thesis using ex by (simp add: exact_engine_def exact_order_def match_view_def)
    qed
    then have "exact_engine g s1" using ex sb by (simp add: exact_engine_def same_book_def)
    then show "?P (s1, fmax (fo_amount f) 0, fo_amount f \<le> eps s1)" using a L by (simp add: T_def)
  next
    fix t r an k rest m
    assume h: "hedging (t, r, an)" and P: "?P (t, r, an)" and q: "queue_of t (opposite_key (fo_symbol f, fo_side f)) = k # rest"
      and lt: "eps t < r" and m: "map_of (orders t) k = Some m"
    obtain c where c: "r = Fin c" "units g c" "0 \<le> c" "c \<le> max_units g" "take_lots c (lots t ?key) = T" using P by auto
    have x: "exact_engine g t" using P by simp
    have q': "queue_of t ?key = k # rest" using q by (simp add: key_def)
    note H = hedged_exact [OF h [unfolded c(1)] x c(2-4) q' lt [unfolded c(1)] m]
    have l: "lots t ?key = (k, qrem t k) # map (\<lambda>k. (k, qrem t k)) rest" using q' by (simp add: lots_def)
    have "exact_order g m" using x m by (simp add: exact_engine_def)
    then have "0 \<le> qrem t k" using m by (auto simp: qrem_def elim: exact_orderE)
    then have "0 \<le> c - min c (qrem t k)" "c - min c (qrem t k) \<le> max_units g" using c by (auto simp: min_def)
    then have "\<exists>q. Fin (c - min c (qrem t k)) = Fin q \<and> units g q \<and> 0 \<le> q \<and> q \<le> max_units g
        \<and> take_lots q (lots (hedged f k m ?key rest (Fin c) t) ?key) = T"
      using H(4) H(5) take_lots_hit [OF H(3) l] c(5) by simp
    then show "?P (hedged f k m (opposite_key (fo_symbol f, fo_side f)) rest r t,
        clamp_zero (r - fmin r (remaining_amount m)) (eps t), an \<or> main_fkey f = Some k)"
      using H(1,2,6) P c(1) by (simp add: key_def [symmetric])
  qed (use ev in auto)
  then obtain r an where S: "h = \<lparr>hr_order = f, allocated_amount = fo_amount f - r, unallocated_amount = r, anchor_matched = an\<rparr>"
    "exact_engine g s'" "\<exists>q. r = Fin q \<and> units g q \<and> 0 \<le> q \<and> q \<le> max_units g \<and> take_lots q (lots s' ?key) = T"
    "\<forall>ky. ky \<noteq> ?key \<longrightarrow> lots s' ky = lots s ky" "\<not> eps s' < r \<or> queue_of s' ?key = []"
    using ok by (auto simp: key_def)
  obtain q where q: "r = Fin q" "units g q" "0 \<le> q" "take_lots q (lots s' ?key) = T" using S(3) by blast
  have "exact_eps g (eps s')" using S(2) by (simp add: exact_engine_def)
  then have "q \<le> 0 \<or> lots s' ?key = []" using S(5) exact_eps_less [of g "eps s'" q] q by (auto simp: lots_def)
  then have T: "T = (lots s' ?key, q)" using q(4) take_lots_done by metis
  have sp: "spec_futures key a (lots s) = ((lots s)(?key := lots s' ?key), q)"
    by (simp add: spec_futures_def T_def [symmetric] T)
  show "exact_engine g s'" by (rule S(2))
  show "lots s' = fst (spec_futures key a (lots s))" using S(4) by (auto simp: sp fun_eq_iff)
  show "unallocated_amount h = Fin (snd (spec_futures key a (lots s)))" using S(1) q(1) by (simp add: sp)
  show "allocated_amount h = fo_amount f - unallocated_amount h" using S(1) by simp
qed

end
