(* ===== verification/MatchProperties.thy ===== *)
theory MatchProperties
  imports MatchSpec "HOL-Library.Multiset"
begin

text \<open>
  The properties of the matching engine: which batches it accepts and that it never panics or loops,
  the queues, the displayed states, the hedge registers and the refinement of a whole batch.
\<close>

section \<open>Invariants of reachable engines\<close>

lemma apply_margin_inv:
  assumes wf: "wf_engine {} s" and f: "is_f64 (open_fill_amount m)" and ok: "apply_margin m s = Some (Inr s')"
    and P: "\<not> open_fill_amount m \<le> eps s \<Longrightarrow> is_finite (open_fill_amount m) \<Longrightarrow> map_of (orders s) (fkey m) = None \<Longrightarrow>
      P (s\<lparr>orders := bt_insert (fkey m) (prepare_margin s m) (orders s)\<rparr>)"
    and stepP: "\<And>t cur j rest oth. netting (fkey m) (order_key m) t \<Longrightarrow> P t \<Longrightarrow> map_of (orders t) (fkey m) = Some cur \<Longrightarrow>
      queue_of t (opposite_key (order_key m)) = j # rest \<Longrightarrow> \<not> remaining_amount cur \<le> eps t \<Longrightarrow> map_of (orders t) j = Some oth \<Longrightarrow>
      P (netted (fkey m) cur j oth (opposite_key (order_key m)) rest t)"
    and fin: "\<And>t. P t \<Longrightarrow> Q t"
    and push: "\<And>t. P t \<Longrightarrow> queue_of t (opposite_key (order_key m)) = [] \<Longrightarrow> Q (push_queue (fkey m) (order_key m) t)"
  shows "Q s'"
proof -
  have acc: "is_finite (open_fill_amount m)" "\<not> open_fill_amount m \<le> eps s" "map_of (orders s) (fkey m) = None"
    using ok by (auto simp: apply_margin_def split: if_splits)
  obtain s2 cur where S: "P s2" "queue_of s2 (opposite_key (order_key m)) = [] \<or> \<not> live (eps s) cur"
    "apply_margin m s = Some (Inr (if live (eps s) cur then push_queue (fkey m) (order_key m) s2 else s2))"
    by (rule apply_margin_runs [where P = P, OF wf f acc P [OF acc(2,1,3)] stepP])
  then show ?thesis using ok fin [of s2] push [of s2] by (auto split: if_splits)
qed

lemma apply_futures_inv:
  assumes wf: "wf_engine {} s" and f: "is_f64 (fo_amount order)" and ok: "apply_futures order s = Some (Inr (h, s'))"
    and P: "\<And>s1. (case main_fkey order of None \<Rightarrow> Inr s | Some k \<Rightarrow> record_hedge_order k order s) = Inr s1 \<Longrightarrow>
      same_book s s1 \<Longrightarrow> P s1"
    and stepP: "\<And>s r k rest m. P s \<Longrightarrow>
      queue_of s (opposite_key (fo_symbol order, fo_side order)) = k # rest \<Longrightarrow> eps s < r \<Longrightarrow> map_of (orders s) k = Some m \<Longrightarrow>
      P (hedged order k m (opposite_key (fo_symbol order, fo_side order)) rest r s)"
  shows "P s'"
proof -
  have acc: "is_finite (fo_amount order)" "\<not> fo_amount order < - eps s" "\<not> eps s < fo_amount order \<or> fill_ts_us order \<noteq> None"
    using ok by (auto simp: apply_futures_def split: if_splits)
  obtain s1 where s1: "(case main_fkey order of None \<Rightarrow> Inr s | Some k \<Rightarrow> record_hedge_order k order s) = Inr s1"
    "same_book s s1" "counts_ok s1"
  proof (cases "main_fkey order")
    case None
    then show ?thesis using that wf_engineD(3) [OF wf] by simp
  next
    case (Some k)
    then show ?thesis using that record_hedge_order_ok [OF wf_engineD(3) [OF wf], of k order] by auto
  qed
  have wf1: "wf_engine {} s1" by (rule wf_same_book [OF wf s1(2,3)])
  have h: "hedging (s1, fmax (fo_amount order) 0, fo_amount order \<le> eps s1)"
    using wf1 fmax_zero_fin [OF acc(1) f] by (simp add: hedging_def)
  have "\<exists>s2 r a. loop_res (hedge_step order (opposite_key (fo_symbol order, fo_side order)))
      (s1, fmax (fo_amount order) 0, fo_amount order \<le> eps s1) = Some (Inr (s2, r, a)) \<and> hedging (s2, r, a) \<and>
      P (fst (s2, r, a)) \<and> (\<not> eps s2 < r \<or> queue_of s2 (opposite_key (fo_symbol order, fo_side order)) = [])"
    by (rule hedge_loop_total [where P = "\<lambda>t. P (fst t)", OF h]) (use P [OF s1(1,2)] stepP in auto)
  then show ?thesis using ok acc s1(1) by (auto simp: apply_futures_def opposite_key_def)
qed

fun event_step :: "match_event \<Rightarrow> match_engine \<Rightarrow> match_engine \<Rightarrow> bool" where
  "event_step (Margin m) s s' \<longleftrightarrow> apply_margin m s = Some (Inr s')"
| "event_step (Futures f) s s' \<longleftrightarrow> (\<exists>h. apply_futures f s = Some (Inr (h, s')))"

lemma apply_events_Cons:
  assumes "apply_events (ev # evs) s hs = Some (Inr (hs', s'))"
  obtains s1 hs1 where "event_step ev s s1" "apply_events evs s1 hs1 = Some (Inr (hs', s'))"
  using assms by (cases ev) (auto split: option.splits sum.splits)

lemma event_step_wf: "wf_engine {} s \<Longrightarrow> event_f64 ev \<Longrightarrow> event_step ev s s' \<Longrightarrow> wf_engine {} s' \<and> eps s' = eps s"
  using apply_margin_wf [of s] apply_futures_wf [of s] by (cases ev) (auto, fastforce+)

lemma apply_events_inv:
  assumes "wf_engine {} s" "list_all event_f64 evs" "apply_events evs s hs = Some (Inr (hs', s'))" "I s"
    and step: "\<And>ev s s'. ev \<in> set evs \<Longrightarrow> wf_engine {} s \<Longrightarrow> event_f64 ev \<Longrightarrow> event_step ev s s' \<Longrightarrow> I s \<Longrightarrow> I s'"
  shows "I s'"
  using assms
proof (induction evs arbitrary: s hs)
  case Nil
  then show ?case by simp
next
  case (Cons ev evs)
  obtain s1 hs1 where s1: "event_step ev s s1" "apply_events evs s1 hs1 = Some (Inr (hs', s'))"
    using Cons.prems(3) by (rule apply_events_Cons)
  have ev: "event_f64 ev" "list_all event_f64 evs" using Cons.prems(2) by simp_all
  have wf1: "wf_engine {} s1" using event_step_wf [OF Cons.prems(1) ev(1) s1(1)] by simp
  have I1: "I s1" by (rule Cons.prems(5) [OF _ Cons.prems(1) ev(1) s1(1) Cons.prems(4)]) simp
  show ?case
  proof (rule Cons.IH [OF wf1 ev(2) s1(2) I1])
    fix e t t' assume "e \<in> set evs" "wf_engine {} t" "event_f64 e" "event_step e t t'" "I t"
    then show "I t'" by (intro Cons.prems(5) [of e t t']) simp_all
  qed
qed

lemma engine_apply_inv:
  assumes "wf_engine {} s" "list_all event_f64 evs" "engine_apply evs s = Some (Inr (hs', s'))" "I s"
    and step: "\<And>ev s s'. ev \<in> set evs \<Longrightarrow> wf_engine {} s \<Longrightarrow> event_f64 ev \<Longrightarrow> event_step ev s s' \<Longrightarrow> I s \<Longrightarrow> I s'"
  shows "I s'"
proof (rule apply_events_inv [where I = I, OF assms(1) _ assms(3) [unfolded engine_apply_def] assms(4)])
  show "list_all event_f64 (sort_key event_key evs)" using assms(2) by (simp add: list_all_iff)
  fix e t t' assume "e \<in> set (sort_key event_key evs)" "wf_engine {} t" "event_f64 e" "event_step e t t'" "I t"
  then show "I t'" by (intro step [of e t t']) simp_all
qed

lemma seed_history_inv:
  assumes "wf_engine {} s" "I s" and seed: "\<And>h s. wf_engine {} s \<Longrightarrow> I s \<Longrightarrow> I (seed_one h s)"
  shows "I (seed_hedge_history hs s)"
  using assms(1,2) unfolding seed_hedge_history_def
proof (induction hs arbitrary: s)
  case (Cons h hs)
  note sb = seed_one_ok [OF wf_engineD(3) [OF Cons.prems(1)], of h]
  have "wf_engine {} (seed_one h s)" by (rule wf_same_book [OF Cons.prems(1)]) (use sb in simp_all)
  from Cons.IH [OF this seed [OF Cons.prems]] show ?case by simp
qed simp

lemma reachable_inv:
  assumes "reachable_engine s"
    and new: "\<And>pending e s. engine_new pending e = Inr s \<Longrightarrow> \<forall>m \<in> set pending. is_f64 (remaining_amount m) \<Longrightarrow> I s"
    and seed: "\<And>h s. wf_engine {} s \<Longrightarrow> I s \<Longrightarrow> I (seed_one h s)"
    and step: "\<And>ev s s'. wf_engine {} s \<Longrightarrow> event_f64 ev \<Longrightarrow> event_step ev s s' \<Longrightarrow> I s \<Longrightarrow> I s'"
  shows "I s"
  using assms(1)
proof (induction rule: reachable_engine.induct)
  case (loaded pending e s)
  then show ?case by (rule new)
next
  case (seeded s hs)
  show ?case by (rule seed_history_inv [where I = I, OF reachable_wf [OF seeded(1)] seeded(2) seed])
next
  case (applied s evs hs s')
  show ?case by (rule engine_apply_inv [where I = I, OF reachable_wf [OF applied(1)] applied(2,3) applied.IH step])
qed

text \<open>The displayed state agrees with the amounts.\<close>

definition states_ok :: "match_engine \<Rightarrow> bool" where
  "states_ok s \<longleftrightarrow> (\<forall>k m. map_of (orders s) k = Some m \<longrightarrow> remaining_amount m \<noteq> NaN \<longrightarrow> refresh_state (eps s) m = m)"

lemma refresh_idem [simp]: "refresh_state e (refresh_state e m) = refresh_state e m"
  "refresh_state e (net_order e q m) = net_order e q m" "refresh_state e (hedge_order e q p m) = hedge_order e q p m"
  by (auto simp: refresh_state_def net_order_def hedge_order_def Let_def split: option.splits)

lemma refresh_pending: "eps_ok e \<Longrightarrow> \<not> remaining_amount m \<le> e \<Longrightarrow> remaining_amount m \<noteq> NaN \<Longrightarrow> state m = Pending \<Longrightarrow>
    refresh_state e m = m"
  by (elim eps_okE; cases "remaining_amount m" rule: f64_cases3) (simp_all add: refresh_state_def not_le)

lemma states_ok_insert:
  "states_ok s \<Longrightarrow> refresh_state (eps s) m = m \<or> remaining_amount m = NaN \<Longrightarrow> states_ok (s\<lparr>orders := bt_insert k m (orders s)\<rparr>)"
  by (auto simp: states_ok_def)

lemma states_ok_queues [simp]: "states_ok (s\<lparr>queues := q\<rparr>) = states_ok s" "states_ok (push_queue k key s) = states_ok s"
  by (simp_all add: states_ok_def)

lemma refresh_view: "match_view a = match_view b \<Longrightarrow> refresh_state e a = a \<longleftrightarrow> refresh_state e b = b"
  by (cases a; cases b) (simp add: refresh_state_def match_view_def)

lemma states_ok_same_book: "states_ok s \<Longrightarrow> same_book s s' \<Longrightarrow> states_ok s'"
  unfolding states_ok_def
proof (intro allI impI)
  fix k m' assume s: "\<forall>k m. map_of (orders s) k = Some m \<longrightarrow> remaining_amount m \<noteq> NaN \<longrightarrow> refresh_state (eps s) m = m"
    and sb: "same_book s s'" and m': "map_of (orders s') k = Some m'" "remaining_amount m' \<noteq> NaN"
  obtain m where "map_of (orders s) k = Some m" "match_view m' = match_view m" by (rule same_book_order [OF sb m'(1)])
  moreover have "remaining_amount m' = remaining_amount m" using \<open>match_view m' = match_view m\<close> by (simp add: match_view_def)
  ultimately show "refresh_state (eps s') m' = m'" using s m' sb refresh_view by (metis same_book_def)
qed

lemma netted_simps:
  "orders (netted k cur j oth key rest s) =
     bt_insert k (net_order (eps s) (fmin (remaining_amount cur) (remaining_amount oth)) cur)
       (bt_insert j (net_order (eps s) (fmin (remaining_amount cur) (remaining_amount oth)) oth) (orders s))"
  "eps (netted k cur j oth key rest s) = eps s"
  "first_hedge_timing (netted k cur j oth key rest s) = first_hedge_timing s"
  "last_hedge_fill_ts_us (netted k cur j oth key rest s) = last_hedge_fill_ts_us s"
  "hedge_order_counts (netted k cur j oth key rest s) = hedge_order_counts s"
  "seen_hedge_orders (netted k cur j oth key rest s) = seen_hedge_orders s"
  "ky \<noteq> key \<Longrightarrow> queue_of (netted k cur j oth key rest s) ky = queue_of s ky"
  by (simp_all add: netted_def Let_def queue_of_def)

lemma hedged_simps:
  "orders (hedged f k m key rest r s) = bt_insert k (hedge_order (eps s) (fmin r (remaining_amount m)) (fo_cprice f) m) (orders s)"
  "eps (hedged f k m key rest r s) = eps s"
  "first_hedge_timing (hedged f k m key rest r s) = first_hedge_timing s"
  "last_hedge_fill_ts_us (hedged f k m key rest r s) = last_hedge_fill_ts_us s"
  "hedge_order_counts (hedged f k m key rest r s) = hedge_order_counts s"
  "seen_hedge_orders (hedged f k m key rest r s) = seen_hedge_orders s"
  "ky \<noteq> key \<Longrightarrow> queue_of (hedged f k m key rest r s) ky = queue_of s ky"
  by (simp_all add: hedged_def Let_def queue_of_def)

lemma load_pending_states:
  assumes wf: "wf_engine {} s" and st: "states_ok s" and l: "load_pending m s = Inr s'"
  shows "states_ok s'"
proof -
  let ?m = "m\<lparr>state := Pending\<rparr>"
  note L = load_pending_Inr [OF l] and sb = remember_pending_book(1) [of s ?m]
  have st': "states_ok (remember_pending ?m s)" by (rule states_ok_same_book [OF st sb])
  have e: "eps (remember_pending ?m s) = eps s" using sb by (simp add: same_book_def)
  have "refresh_state (eps s) ?m = ?m \<or> remaining_amount ?m = NaN"
    using refresh_pending [OF wf_engineD(1) [OF wf], of ?m] L(1) by auto
  then show "states_ok s'" unfolding L(3) states_ok_queues by (intro states_ok_insert [OF st']) (simp add: e)
qed

lemma new_inv:
  assumes n: "engine_new pending e = Inr s" "\<forall>m \<in> set pending. is_f64 (remaining_amount m)"
    and init: "eps_ok e \<Longrightarrow> I (empty_engine e)"
    and step: "\<And>m s s'. wf_engine {} s \<Longrightarrow> eps s = e \<Longrightarrow> m \<in> set pending \<Longrightarrow> is_f64 (remaining_amount m) \<Longrightarrow>
      load_pending m s = Inr s' \<Longrightarrow> I s \<Longrightarrow> I s'"
  shows "I s"
proof -
  have e: "eps_ok e" and f: "fold_res load_pending (sort_key pending_key pending) (empty_engine e) = Inr s"
    using n(1) by (auto simp: engine_new_def eps_ok_def is_finite_iff split: if_splits)
  have "wf_engine {} s \<and> eps s = e \<and> I s"
  proof (rule fold_res_inv [OF _ _ f, where I = "\<lambda>s. wf_engine {} s \<and> eps s = e \<and> I s"])
    show "wf_engine {} (empty_engine e) \<and> eps (empty_engine e) = e \<and> I (empty_engine e)"
      using wf_empty [OF e] init [OF e] by (simp add: empty_engine_def)
    fix m t t' assume m: "m \<in> set (sort_key pending_key pending)" and t: "wf_engine {} t \<and> eps t = e \<and> I t"
      and l: "load_pending m t = Inr t'"
    from m n(2) have m: "m \<in> set pending" "is_f64 (remaining_amount m)" by auto
    show "wf_engine {} t' \<and> eps t' = e \<and> I t'"
      using load_pending_wf [OF _ m(2) l] step [OF _ _ m l] t by blast
  qed
  then show ?thesis by simp
qed

lemma reachable_states: "reachable_engine s \<Longrightarrow> states_ok s"
proof (erule reachable_inv)
  fix pending e s assume n: "engine_new pending e = Inr s" "\<forall>m \<in> set pending. is_f64 (remaining_amount m)"
  show "states_ok s"
    by (rule new_inv [OF n]) (use load_pending_states in \<open>auto simp: empty_engine_def states_ok_def\<close>)
next
  fix h s assume "wf_engine {} s" "states_ok s"
  then show "states_ok (seed_one h s)" using states_ok_same_book seed_one_ok [OF wf_engineD(3)] by blast
next
  fix ev s s' assume wf: "wf_engine {} s" and f: "event_f64 ev" and st: "event_step ev s s'" and I: "states_ok s"
  show "states_ok s'"
  proof (cases ev)
    case (Margin m)
    have ok: "is_f64 (open_fill_amount m)" "apply_margin m s = Some (Inr s')" using Margin f st by simp_all
    show ?thesis
    proof (rule apply_margin_inv [OF wf ok, where P = states_ok])
      assume "\<not> open_fill_amount m \<le> eps s" "is_finite (open_fill_amount m)" "map_of (orders s) (fkey m) = None"
      then show "states_ok (s\<lparr>orders := bt_insert (fkey m) (prepare_margin s m) (orders s)\<rparr>)"
        using refresh_pending [OF wf_engineD(1) [OF wf], of "prepare_margin s m"]
        by (intro states_ok_insert [OF I]) auto
    qed (auto simp: states_ok_def netted_simps)
  next
    case (Futures fo)
    obtain h where ok: "is_f64 (fo_amount fo)" "apply_futures fo s = Some (Inr (h, s'))" using Futures f st by auto
    show ?thesis
      by (rule apply_futures_inv [OF wf ok, where P = states_ok])
        (use states_ok_same_book [OF I] in \<open>auto simp: states_ok_def hedged_simps\<close>)
  qed
qed

section \<open>Which batches are accepted\<close>

fun event_ok :: "f64 \<Rightarrow> match_event \<Rightarrow> bool" where
  "event_ok e (Margin m) \<longleftrightarrow> is_finite (open_fill_amount m) \<and> \<not> open_fill_amount m \<le> e"
| "event_ok e (Futures f) \<longleftrightarrow> is_finite (fo_amount f) \<and> \<not> fo_amount f < - e \<and> (\<not> e < fo_amount f \<or> fill_ts_us f \<noteq> None)"

fun margin_keys :: "match_event list \<Rightarrow> int list" where
  "margin_keys [] = []"
| "margin_keys (Margin m # evs) = fkey m # margin_keys evs"
| "margin_keys (Futures f # evs) = margin_keys evs"

definition batch_ok :: "match_engine \<Rightarrow> match_event list \<Rightarrow> bool" where
  "batch_ok s evs \<longleftrightarrow> list_all (event_ok (eps s)) evs \<and> distinct (margin_keys evs)
     \<and> set (margin_keys evs) \<inter> dom (map_of (orders s)) = {}"

lemma margin_keys_append [simp]: "margin_keys (xs @ ys) = margin_keys xs @ margin_keys ys"
  by (induction xs rule: margin_keys.induct) auto

lemma mset_margin_keys: "mset xs = mset ys \<Longrightarrow> mset (margin_keys xs) = mset (margin_keys ys)"
proof (induction xs arbitrary: ys)
  case (Cons x xs)
  then obtain a b where ys: "ys = a @ x # b" "mset xs = mset (a @ b)"
    by (metis (no_types, lifting) add_mset_remove_trivial insert_DiffM list.set_intros(1) mset.simps(2) mset_append
        set_mset_mset split_list union_mset_add_mset_right)
  have "mset (margin_keys xs) = mset (margin_keys (a @ b))" by (rule Cons.IH [OF ys(2)])
  then show ?case by (cases x) (auto simp: ys(1))
qed simp

lemma netted_dom: "map_of (orders t) k = Some cur \<Longrightarrow> map_of (orders t) j = Some oth \<Longrightarrow>
    dom (map_of (orders (netted k cur j oth key rest t))) = dom (map_of (orders t))"
  by (auto simp: netted_simps)

lemma margin_step_dom:
  assumes wf: "wf_engine {} s" and f: "is_f64 (open_fill_amount m)" and ok: "apply_margin m s = Some (Inr s')"
  shows "dom (map_of (orders s')) = insert (fkey m) (dom (map_of (orders s)))"
proof (rule apply_margin_inv [OF wf f ok, where P = "\<lambda>t. dom (map_of (orders t)) = insert (fkey m) (dom (map_of (orders s)))"])
  fix t :: match_engine and cur j rest oth
  assume "dom (map_of (orders t)) = insert (fkey m) (dom (map_of (orders s)))" "map_of (orders t) (fkey m) = Some cur"
    "map_of (orders t) j = Some oth"
  then show "dom (map_of (orders (netted (fkey m) cur j oth (opposite_key (order_key m)) rest t))) =
      insert (fkey m) (dom (map_of (orders s)))" using netted_dom by metis
qed auto

lemma same_book_dom: "same_book s s' \<Longrightarrow> dom (map_of (orders s')) = dom (map_of (orders s))"
proof -
  assume "same_book s s'"
  then have "view_at s' = view_at s" by (simp add: same_book_def)
  then have "dom (view_at s') = dom (view_at s)" by simp
  then show ?thesis by (simp add: view_at_def dom_def)
qed

lemma futures_step_dom:
  assumes wf: "wf_engine {} s" and f: "is_f64 (fo_amount fo)" and ok: "apply_futures fo s = Some (Inr (h, s'))"
  shows "dom (map_of (orders s')) = dom (map_of (orders s))"
  by (rule apply_futures_inv [OF wf f ok, where P = "\<lambda>t. dom (map_of (orders t)) = dom (map_of (orders s))"])
    (use same_book_dom in \<open>auto simp: hedged_simps\<close>)

lemma event_accepted:
  assumes wf: "wf_engine {} s" and f: "event_f64 ev"
  shows "(\<exists>s'. event_step ev s s') \<longleftrightarrow> batch_ok s [ev]"
proof (cases ev)
  case (Margin m)
  then have f': "is_f64 (open_fill_amount m)" using f by simp
  consider "\<not> event_ok (eps s) ev" | "event_ok (eps s) ev" "map_of (orders s) (fkey m) = None"
    | m' where "event_ok (eps s) ev" "map_of (orders s) (fkey m) = Some m'" by (cases "map_of (orders s) (fkey m)") auto
  then show ?thesis
  proof cases
    case 1
    then show ?thesis using Margin apply_margin_error(1) [of m s] by (auto simp: batch_ok_def)
  next
    case 2
    obtain s2 cur where "apply_margin m s = Some (Inr (if live (eps s) cur then push_queue (fkey m) (order_key m) s2 else s2))"
      by (rule apply_margin_runs [where P = "\<lambda>_. True", OF wf f']) (use 2 Margin in simp_all)
    then show ?thesis using 2 Margin by (auto simp: batch_ok_def)
  next
    case 3
    then show ?thesis using Margin apply_margin_error(2) [of m s] by (auto simp: batch_ok_def)
  qed
next
  case (Futures fo)
  then have f': "is_f64 (fo_amount fo)" using f by simp
  show ?thesis
  proof (cases "event_ok (eps s) ev")
    case True
    then have "\<exists>s' r a. apply_futures fo s =
      Some (Inr (\<lparr>hr_order = fo, allocated_amount = fo_amount fo - r, unallocated_amount = r, anchor_matched = a\<rparr>, s'))
      \<and> hedging (s', r, a) \<and> True
      \<and> (\<not> eps s' < r \<or> queue_of s' (opposite_key (fo_symbol fo, fo_side fo)) = [])"
      by (intro apply_futures_runs [where P = "\<lambda>_. True", OF wf f']) (use Futures in auto)
    then show ?thesis using True Futures by (auto simp: batch_ok_def)
  next
    case False
    then show ?thesis using Futures apply_futures_error(1) [of fo s] apply_futures_error(2) [of fo s]
      by (cases "is_finite (fo_amount fo) \<and> \<not> fo_amount fo < - eps s") (auto simp: batch_ok_def)
  qed
qed

lemma event_step_batch:
  assumes "wf_engine {} s" "event_f64 ev" "event_step ev s s'"
  shows "batch_ok s (ev # evs) \<longleftrightarrow> batch_ok s [ev] \<and> batch_ok s' evs"
proof (cases ev)
  case (Margin m)
  then show ?thesis using margin_step_dom [of s m s'] event_step_wf [OF assms] assms
    by (auto simp: batch_ok_def)
next
  case (Futures fo)
  then obtain h where "apply_futures fo s = Some (Inr (h, s'))" using assms by auto
  then show ?thesis using futures_step_dom [of s fo h s'] event_step_wf [OF assms] assms Futures
    by (auto simp: batch_ok_def)
qed

lemma apply_events_accepted:
  assumes "wf_engine {} s" "list_all event_f64 evs"
  shows "(\<exists>hs' s'. apply_events evs s hs = Some (Inr (hs', s'))) \<longleftrightarrow> batch_ok s evs"
  using assms
proof (induction evs arbitrary: s hs)
  case Nil
  then show ?case by (simp add: batch_ok_def)
next
  case (Cons ev evs)
  have f: "event_f64 ev" "list_all event_f64 evs" using Cons.prems(2) by simp_all
  show ?case
  proof (cases "\<exists>s1. event_step ev s s1")
    case True
    then obtain s1 where s1: "event_step ev s s1" by blast
    have wf1: "wf_engine {} s1" using event_step_wf [OF Cons.prems(1) f(1) s1] by simp
    obtain hs1 where e: "apply_events (ev # evs) s hs = apply_events evs s1 hs1" using s1 by (cases ev) auto
    have "batch_ok s [ev]" using event_accepted [OF Cons.prems(1) f(1)] s1 by blast
    then have "batch_ok s (ev # evs) \<longleftrightarrow> batch_ok s1 evs"
      using event_step_batch [OF Cons.prems(1) f(1) s1, of evs] by simp
    then show ?thesis unfolding e using Cons.IH [OF wf1 f(2), of hs1] by simp
  next
    case False
    then have "\<not> batch_ok s [ev]" using event_accepted [OF Cons.prems(1) f(1)] by simp
    then have "\<not> batch_ok s (ev # evs)" by (cases ev) (auto simp: batch_ok_def)
    moreover have "\<not> (\<exists>hs' s'. apply_events (ev # evs) s hs = Some (Inr (hs', s')))"
    proof clarify
      fix hs' s' assume "apply_events (ev # evs) s hs = Some (Inr (hs', s'))"
      then show False by (rule apply_events_Cons) (use False in blast)
    qed
    ultimately show ?thesis by blast
  qed
qed

lemma batch_ok_sort: "batch_ok s (sort_key k evs) = batch_ok s evs"
proof -
  have m: "mset (margin_keys (sort_key k evs)) = mset (margin_keys evs)" by (rule mset_margin_keys) simp
  note d = mset_eq_imp_distinct_iff [OF m] and st = mset_eq_setD [OF m]
  show ?thesis by (simp only: batch_ok_def d st list_all_iff set_sort)
qed

section \<open>The hedge registers\<close>

text \<open>A register that keeps the best value seen, for the first hedge order (least key) and for the last
  fill (greatest timestamp).\<close>

locale best_register =
  fixes key :: "'a \<Rightarrow> 'k :: linorder" and merge :: "'a \<Rightarrow> 'a option \<Rightarrow> 'a"
  assumes merge_None: "merge x None = x"
    and merge_Some: "merge x (Some y) = (if key x < key y then x else y)"
begin

definition register :: "'a list \<Rightarrow> 'a option \<Rightarrow> 'a option" where
  "register xs c = fold (\<lambda>x c. Some (merge x c)) xs c"

lemma register_simps: "register [] c = c" "register (x # xs) c = register xs (Some (merge x c))"
  by (simp_all add: register_def)

lemma register_best:
  "register xs c = None \<and> xs = [] \<and> c = None \<or>
   (\<exists>b. register xs c = Some b \<and> b \<in> set xs \<union> set_option c \<and> (\<forall>x \<in> set xs \<union> set_option c. key b \<le> key x))"
proof (induction xs arbitrary: c)
  case Nil
  then show ?case by (cases c) (simp_all add: register_simps)
next
  case (Cons x xs)
  from Cons.IH [of "Some (merge x c)"] obtain b where b: "register xs (Some (merge x c)) = Some b"
    "b \<in> insert (merge x c) (set xs)" "\<forall>y \<in> insert (merge x c) (set xs). key b \<le> key y" by auto
  have "merge x c \<in> insert x (set_option c)" "\<forall>y \<in> insert x (set_option c). key (merge x c) \<le> key y"
    by (cases c; auto simp: merge_None merge_Some)+
  then have "b \<in> set (x # xs) \<union> set_option c" "\<forall>y \<in> set (x # xs) \<union> set_option c. key b \<le> key y"
    using b(2,3) by (auto intro: order_trans)
  then show ?case using b(1) by (simp add: register_simps)
qed

end

interpretation timing: best_register timing_key better_timing
  by unfold_locales (simp_all add: better_timing_def)

interpretation last_fill: best_register uminus max_fill
  by unfold_locales (auto simp: max_fill_def max_def)

text \<open>The registers of one Margin order, and what one Futures order does to them.\<close>

definition registers :: "match_engine \<Rightarrow> int \<Rightarrow> hedge_timing option \<times> int option \<times> int option \<times> int set" where
  "registers s k = (first_hedge_timing s k, last_hedge_fill_ts_us s k, hedge_order_counts s k, {i. (k, i) \<in> seen_hedge_orders s})"

definition counted :: "int \<Rightarrow> int option \<Rightarrow> int set \<Rightarrow> int option" where
  "counted i c seen = (if i \<in> seen then c else Some (wrap_i64 ((case c of None \<Rightarrow> 0 | Some n \<Rightarrow> n) + 1)))"

fun register_hedge :: "futures_order \<Rightarrow> hedge_timing option \<times> int option \<times> int option \<times> int set \<Rightarrow>
    hedge_timing option \<times> int option \<times> int option \<times> int set" where
  "register_hedge f (t, l, c, seen) =
     (Some (better_timing (timing_of f) t), later_fill (fill_ts_us f) l,
      counted (fo_client_order_id f) c seen, insert (fo_client_order_id f) seen)"

fun hedges_of :: "int \<Rightarrow> match_event list \<Rightarrow> futures_order list" where
  "hedges_of k [] = []"
| "hedges_of k (Margin m # evs) = hedges_of k evs"
| "hedges_of k (Futures f # evs) = (if main_fkey f = Some k then f # hedges_of k evs else hedges_of k evs)"

lemma registers_simps [simp]: "registers (s\<lparr>orders := os\<rparr>) = registers s" "registers (s\<lparr>queues := q\<rparr>) = registers s"
  "registers (push_queue k key s) = registers s" "registers (modify_if_present g k s) = registers s"
  by (auto simp: registers_def push_queue_def modify_if_present_def fun_eq_iff split: option.splits)

lemma registers_netted [simp]: "registers (netted k cur j oth key rest s) = registers s"
  by (simp add: registers_def netted_simps fun_eq_iff)

lemma registers_hedged [simp]: "registers (hedged f k m key rest r s) = registers s"
  by (simp add: registers_def hedged_simps fun_eq_iff)

lemma record_hedge_registers:
  assumes "record_hedge_order k f s = Inr s'"
  shows "registers s' = (registers s)(k := register_hedge f (registers s k))"
proof -
  let ?s3 = "record_last_fill k (fill_ts_us f) (count_hedge_order k (fo_client_order_id f)
      (record_first_hedge_timing k (timing_of f) s))"
  have "registers s' = registers ?s3"
    using assms by (auto simp: record_hedge_order_def Let_def modify_order_def order_at_def bind_res_Inr split: option.splits)
  also have "registers ?s3 = (registers s)(k := register_hedge f (registers s k))"
    by (auto simp: registers_def record_last_fill_def count_hedge_order_def record_first_hedge_timing_def Let_def
        counted_def modify_if_present_def fun_eq_iff split: option.splits)
  finally show ?thesis .
qed

lemma event_step_registers:
  assumes wf: "wf_engine {} s" and f: "event_f64 ev" and st: "event_step ev s s'"
  shows "registers s' k = fold register_hedge (hedges_of k [ev]) (registers s k)"
proof (cases ev)
  case (Margin m)
  have ok: "is_f64 (open_fill_amount m)" "apply_margin m s = Some (Inr s')" using Margin f st by simp_all
  have "registers s' = registers s"
    by (rule apply_margin_inv [OF wf ok, where P = "\<lambda>t. registers t = registers s"]) simp_all
  then show ?thesis using Margin by simp
next
  case (Futures fo)
  then obtain h where ok: "is_f64 (fo_amount fo)" "apply_futures fo s = Some (Inr (h, s'))" using f st by auto
  let ?R = "case main_fkey fo of None \<Rightarrow> registers s | Some k \<Rightarrow> (registers s)(k := register_hedge fo (registers s k))"
  have "registers s' = ?R"
    by (rule apply_futures_inv [OF wf ok, where P = "\<lambda>t. registers t = ?R"])
      (auto split: option.splits dest: record_hedge_registers)
  then show ?thesis using Futures by (auto split: option.splits)
qed

lemma hedges_of_Cons: "hedges_of k (ev # evs) = hedges_of k [ev] @ hedges_of k evs"
  by (cases ev) auto

lemma apply_events_registers:
  assumes "wf_engine {} s" "list_all event_f64 evs" "apply_events evs s hs = Some (Inr (hs', s'))"
  shows "registers s' k = fold register_hedge (hedges_of k evs) (registers s k)"
  using assms
proof (induction evs arbitrary: s hs)
  case (Cons ev evs)
  have f: "event_f64 ev" "list_all event_f64 evs" using Cons.prems(2) by simp_all
  obtain s1 hs1 where s1: "event_step ev s s1" "apply_events evs s1 hs1 = Some (Inr (hs', s'))"
    using Cons.prems(3) by (rule apply_events_Cons)
  have wf1: "wf_engine {} s1" using event_step_wf [OF Cons.prems(1) f(1) s1(1)] by simp
  show ?case using Cons.IH [OF wf1 f(2) s1(2)] event_step_registers [OF Cons.prems(1) f(1) s1(1), of k]
    by (subst hedges_of_Cons) simp
qed simp

lemma set_hedges_of: "set (hedges_of k evs) = {f. Futures f \<in> set evs \<and> main_fkey f = Some k}"
  by (induction k evs rule: hedges_of.induct) auto

text \<open>The registers after a batch, without the order of its events.\<close>

lemma register_fold:
  "fold register_hedge fs (t, l, c, seen) =
    (timing.register (map timing_of fs) t,
     last_fill.register (map the (filter (\<lambda>x. x \<noteq> None) (map fill_ts_us fs))) l,
     snd (fold (\<lambda>f (seen, c). (insert (fo_client_order_id f) seen, counted (fo_client_order_id f) c seen)) fs (seen, c)),
     seen \<union> fo_client_order_id ` set fs)"
proof (induction fs arbitrary: t l c seen)
  case (Cons f fs)
  then show ?case
    by (cases "fill_ts_us f") (auto simp: timing.register_simps last_fill.register_simps later_fill_def)
qed (simp add: timing.register_simps last_fill.register_simps)

lemma wrap_i64_add: "wrap_i64 (wrap_i64 x + y) = wrap_i64 (x + y)"
  unfolding wrap_i64_def by (simp add: mod_simps algebra_simps)

lemma counted_fold:
  "snd (fold (\<lambda>f (seen, c). (insert (fo_client_order_id f) seen, counted (fo_client_order_id f) c seen)) fs (seen, c)) =
    (let new = fo_client_order_id ` set fs - seen
     in if new = {} then c else Some (wrap_i64 ((case c of None \<Rightarrow> 0 | Some n \<Rightarrow> n) + int (card new))))"
proof (induction fs arbitrary: seen c)
  case (Cons f fs)
  let ?i = "fo_client_order_id f" and ?new = "fo_client_order_id ` set fs - insert (fo_client_order_id f) seen"
  have fin: "finite ?new" by simp
  show ?case
  proof (cases "?i \<in> seen")
    case True
    then have "insert ?i seen = seen" by auto
    moreover have "fo_client_order_id ` set (f # fs) - seen = fo_client_order_id ` set fs - seen" using True by auto
    ultimately show ?thesis using Cons.IH [of seen c] True by (simp add: counted_def Let_def)
  next
    case False
    define N where "N = ?new"
    have e: "fo_client_order_id ` set (f # fs) - seen = insert ?i N" using False by (auto simp: N_def)
    have "finite N" "?i \<notin> N" by (simp_all add: N_def)
    then have "card (insert ?i N) = Suc (card N)" by simp
    then show ?thesis using Cons.IH [of "insert ?i seen" "counted ?i c seen"] False
      unfolding e N_def [symmetric]
      by (cases "N = {}") (auto simp: counted_def Let_def wrap_i64_add add.assoc split: option.splits)
  qed
qed simp


lemma first_timing_fold:
  assumes "fs' = fold register_hedge fs (t, l, c, seen)"
  shows "(case fst fs' of None \<Rightarrow> t = None \<and> fs = []
    | Some b \<Rightarrow> is_arg_min timing_key (\<lambda>x. x \<in> set_option t \<union> timing_of ` set fs) b)"
  using timing.register_best [of "map timing_of fs" t] unfolding assms register_fold
  by (auto simp: is_arg_min_linorder Un_commute)

lemma last_fill_fold:
  assumes "fs' = fold register_hedge fs (t, l, c, seen)"
  shows "fst (snd fs') =
    (let fills = set_option l \<union> \<Union> ((\<lambda>f. set_option (fill_ts_us f)) ` set fs) in if fills = {} then None else Some (Max fills))"
proof -
  let ?xs = "map the (filter (\<lambda>x. x \<noteq> None) (map fill_ts_us fs))"
  define F where "F = set_option l \<union> \<Union> ((\<lambda>f. set_option (fill_ts_us f)) ` set fs)"
  have s: "set ?xs \<union> set_option l = F" unfolding F_def by (force simp: image_iff)
  have fin: "finite F" unfolding s [symmetric] by simp
  have r: "fst (snd fs') = last_fill.register ?xs l" by (simp only: assms register_fold fst_conv snd_conv)
  have "(last_fill.register ?xs l = None \<and> F = {}) \<or> (\<exists>b. last_fill.register ?xs l = Some b \<and> b \<in> F \<and> (\<forall>x \<in> F. x \<le> b))"
    using last_fill.register_best [of ?xs l]
  proof (elim disjE conjE)
    assume "last_fill.register ?xs l = None" "?xs = []" "l = None"
    then have "last_fill.register ?xs l = None" "set ?xs \<union> set_option l = {}" by simp_all
    then show ?thesis unfolding s by simp
  next
    assume "\<exists>b. last_fill.register ?xs l = Some b \<and> b \<in> set ?xs \<union> set_option l \<and> (\<forall>x \<in> set ?xs \<union> set_option l. - b \<le> - x)"
    then show ?thesis unfolding s by simp
  qed
  then show ?thesis unfolding r F_def [symmetric] Let_def using Max_eqI [OF fin] by auto
qed

text \<open>No symbol with open Margin orders on both sides.\<close>

definition one_sided_queues :: "match_engine \<Rightarrow> bool" where
  "one_sided_queues s \<longleftrightarrow> (\<forall>key. queue_of s key = [] \<or> queue_of s (opposite_key key) = [])"

definition only_shrinks :: "queue_key \<Rightarrow> match_engine \<Rightarrow> match_engine \<Rightarrow> bool" where
  "only_shrinks key s t \<longleftrightarrow> (\<forall>ky. ky \<noteq> key \<longrightarrow> queue_of t ky = queue_of s ky) \<and> (queue_of s key = [] \<longrightarrow> queue_of t key = [])"

lemma opposite_key_opposite [simp]: "opposite_key (opposite_key key) = key"
  by (cases key) (simp add: opposite_key_def)

lemma only_shrinks_one_sided:
  assumes "one_sided_queues s" "only_shrinks key s t" shows "one_sided_queues t"
  unfolding one_sided_queues_def
proof
  fix ky
  have "queue_of s k = [] \<Longrightarrow> queue_of t k = []" for k using assms(2) by (cases "k = key") (auto simp: only_shrinks_def simp del: split_paired_All)
  then show "queue_of t ky = [] \<or> queue_of t (opposite_key ky) = []" using assms(1) unfolding one_sided_queues_def by blast
qed

lemma one_sided_push:
  assumes "one_sided_queues t" "queue_of t (opposite_key own) = []" shows "one_sided_queues (push_queue k own t)"
  unfolding one_sided_queues_def
proof
  fix ky
  show "queue_of (push_queue k own t) ky = [] \<or> queue_of (push_queue k own t) (opposite_key ky) = []"
  proof (cases "ky = own \<or> opposite_key ky = own")
    case True
    then have "ky = own \<or> ky = opposite_key own" by auto
    then show ?thesis using assms(2) by auto
  next
    case False
    then show ?thesis using assms(1) by (auto simp: one_sided_queues_def simp del: split_paired_All)
  qed
qed

lemma one_sided_step:
  assumes wf: "wf_engine {} s" and f: "event_f64 ev" and st: "event_step ev s s'" and I: "one_sided_queues s"
  shows "one_sided_queues s'"
proof (cases ev)
  case (Margin m)
  have ok: "is_f64 (open_fill_amount m)" "apply_margin m s = Some (Inr s')" using Margin f st by simp_all
  show ?thesis
  proof (rule apply_margin_inv [OF wf ok, where P = "only_shrinks (opposite_key (order_key m)) s"])
    fix t :: match_engine and cur j rest oth
    assume "only_shrinks (opposite_key (order_key m)) s t" "queue_of t (opposite_key (order_key m)) = j # rest"
    then show "only_shrinks (opposite_key (order_key m)) s (netted (fkey m) cur j oth (opposite_key (order_key m)) rest t)"
      by (auto simp: only_shrinks_def netted_simps)
  next
    fix t assume "only_shrinks (opposite_key (order_key m)) s t"
    then show "one_sided_queues t" by (rule only_shrinks_one_sided [OF I])
  next
    fix t assume "only_shrinks (opposite_key (order_key m)) s t" "queue_of t (opposite_key (order_key m)) = []"
    then show "one_sided_queues (push_queue (fkey m) (order_key m) t)"
      by (intro one_sided_push only_shrinks_one_sided [OF I])
  qed (simp add: only_shrinks_def)
next
  case (Futures fo)
  then obtain h where ok: "is_f64 (fo_amount fo)" "apply_futures fo s = Some (Inr (h, s'))" using f st by auto
  have "only_shrinks (opposite_key (fo_symbol fo, fo_side fo)) s s'"
    by (rule apply_futures_inv [OF wf ok, where P = "only_shrinks (opposite_key (fo_symbol fo, fo_side fo)) s"])
      (auto simp: only_shrinks_def hedged_simps same_book_queue)
  then show ?thesis by (rule only_shrinks_one_sided [OF I])
qed

lemma apply_events_hedges:
  "apply_events evs s hs = map_option (map_sum id (\<lambda>(hs', s'). (hs @ hs', s'))) (apply_events evs s [])"
proof (induction evs arbitrary: s hs)
  case (Cons ev evs)
  show ?case
  proof (cases ev)
    case (Margin m)
    then show ?thesis using Cons.IH [of _ hs] by (auto split: option.splits sum.splits)
  next
    case (Futures fo)
    have two: "apply_events evs s' (hs @ [h]) =
        map_option (map_sum id (\<lambda>(hs', s'). (hs @ hs', s'))) (apply_events evs s' [h])" for s' h
      unfolding Cons.IH [of s' "hs @ [h]"] Cons.IH [of s' "[h]"]
      by (cases "apply_events evs s' []"; cases "the (apply_events evs s' [])") auto
    show ?thesis using Futures two by (auto simp: id_def split: option.splits sum.splits)
  qed
qed simp

lemma apply_events_append:
  "apply_events (xs @ ys) s hs =
    (case apply_events xs s hs of Some (Inr (hs', s')) \<Rightarrow> apply_events ys s' hs' | r \<Rightarrow> r)"
proof (induction xs arbitrary: s hs)
  case (Cons ev xs)
  then show ?case by (cases ev) (auto split: option.splits sum.splits)
qed simp

section \<open>Sample orders\<close>

definition sample_margin :: "int \<Rightarrow> side \<Rightarrow> int \<Rightarrow> f64 \<Rightarrow> margin_order" where
  "sample_margin k sd t a = \<lparr>fkey = k, mo_symbol = ''BTCUSDT'', mo_side = sd, cts = t, open_uts = t, open_mkt_ts_us = None,
     open_new_ts_us = None, open_terminal_ts_us = None, open_terminal_ts_local_us = None, hts = None, hedge_new_ts_us = None,
     hedge_terminal_ts_us = None, fts = None, close_count = 0, mo_price = Fin 100, mo_amount = a, mo_range = 0, tlen = None,
     open_fill_amount = a, remaining_amount = a, camount = 0, netted_amount = 0, close_notional = 0, state = Pending,
     open_source_ts_us = t\<rparr>"

definition sample_futures :: "int \<Rightarrow> int \<Rightarrow> side \<Rightarrow> int \<Rightarrow> f64 \<Rightarrow> futures_order" where
  "sample_futures i k sd t a = \<lparr>fo_client_order_id = i, main_fkey = Some k, fo_symbol = ''BTCUSDT'', fo_side = sd,
     create_ts_us = t, update_ts_us = t, new_ts_us = None, terminal_ts_us = None, fill_ts_us = Some (t + 1), source_ts_us = t,
     fo_amount = a, fo_cprice = Some (Fin 101), event_count = 1\<rparr>"

definition sample_events :: "match_event list" where
  "sample_events = [Futures (sample_futures 7 2 Buy 30 (Fin 2)), Margin (sample_margin 1 Buy 10 (Fin 3)),
     Margin (sample_margin 2 Sell 20 (Fin 6)), Futures (sample_futures 8 2 Buy 40 (Fin 4))]"

lemmas sample_defs = sample_margin_def sample_futures_def sample_events_def

lemma sample_reachable: "reachable_engine (empty_engine 0)"
  by (rule reachable_engine.loaded [of "[]" 0]) (simp_all add: engine_new_def zero_f64_def)

lemma sample_f64: "rnd 2 = Fin 2" "rnd 3 = Fin 3" "rnd 4 = Fin 4" "rnd 6 = Fin 6"
  using rnd_of_int [of 2] rnd_of_int [of 3] rnd_of_int [of 4] rnd_of_int [of 6] by simp_all

lemma sample_events_f64: "list_all event_f64 sample_events"
  by (simp add: sample_defs sample_f64)

lemma sample_accepted: "\<exists>hs s'. engine_apply sample_events (empty_engine 0) = Some (Inr (hs, s'))"
proof -
  have "batch_ok (empty_engine 0) sample_events" by (simp add: batch_ok_def sample_defs empty_engine_def)
  then show ?thesis
    using apply_events_accepted [OF reachable_wf [OF sample_reachable], of "sort_key event_key sample_events"] sample_events_f64
    by (simp add: engine_apply_def batch_ok_sort list_all_iff)
qed

section \<open>A batch refines the specification\<close>

fun spec_event :: "match_event \<Rightarrow> abstract_book \<times> rat list \<Rightarrow> abstract_book \<times> rat list" where
  "spec_event (Margin m) (b, us) = (spec_margin (fkey m) (order_key m) (qval (open_fill_amount m)) b, us)"
| "spec_event (Futures f) (b, us) =
     (case spec_futures (fo_symbol f, fo_side f) (max (qval (fo_amount f)) 0) b of (b', u) \<Rightarrow> (b', us @ [u]))"

lemma exact_event_f64: "exact_event g ev \<Longrightarrow> event_f64 ev"
  by (cases ev) auto

lemma apply_events_refines:
  assumes "wf_engine {} s" "exact_engine g s" "list_all (exact_event g) evs" "apply_events evs s hs = Some (Inr (hs', s'))"
  shows "exact_engine g s' \<and> (lots s', map (\<lambda>h. qval (unallocated_amount h)) hs') =
    fold spec_event evs (lots s, map (\<lambda>h. qval (unallocated_amount h)) hs)"
  using assms
proof (induction evs arbitrary: s hs)
  case (Cons ev evs)
  have f: "exact_event g ev" "list_all (exact_event g) evs" using Cons.prems(3) by simp_all
  show ?case
  proof (cases ev)
    case (Margin m)
    then obtain s1 where s1: "apply_margin m s = Some (Inr s1)" "apply_events evs s1 hs = Some (Inr (hs', s'))"
      using Cons.prems(4) by (auto split: option.splits sum.splits)
    have "wf_engine {} s1" using event_step_wf [OF Cons.prems(1) exact_event_f64 [OF f(1)], of s1] s1 Margin by simp
    note IH = Cons.IH [OF this margin_refines(1) [OF Cons.prems(1,2) f(1) [unfolded Margin] s1(1)] f(2) s1(2)]
    show ?thesis using IH margin_refines(2) [OF Cons.prems(1,2) f(1) [unfolded Margin] s1(1)] Margin by simp
  next
    case (Futures fo)
    then obtain s1 h where s1: "apply_futures fo s = Some (Inr (h, s1))" "apply_events evs s1 (hs @ [h]) = Some (Inr (hs', s'))"
      using Cons.prems(4) by (auto split: option.splits sum.splits)
    have "wf_engine {} s1" using event_step_wf [OF Cons.prems(1) exact_event_f64 [OF f(1)], of s1] s1 Futures by auto
    note R = futures_refines [OF Cons.prems(1,2) f(1) [unfolded Futures] s1(1)]
    note IH = Cons.IH [OF \<open>wf_engine {} s1\<close> R(1) f(2) s1(2)]
    show ?thesis using IH R(2,3) Futures by (simp add: case_prod_beta)
  qed
qed simp

section \<open>Properties\<close>

text \<open>C1: the matching engine is total and never panics. In every reachable engine a batch of events returns,
  whatever amounts a snapshot held; no indexed lookup or \<open>unwrap\<close> fails, every error is one of those raised by the
  checks on the events, and the batch is accepted exactly when every Margin order has a finite fill above epsilon
  and a new key and every Futures order a finite fill, with a timestamp when it is above epsilon.\<close>

theorem matching_total:
  assumes "reachable_engine s" "list_all event_f64 evs"
  shows "\<exists>r. engine_apply evs s = Some r
    \<and> (case r of Inl e \<Rightarrow> (\<exists>ev \<in> set evs. e \<in> event_error ev) | Inr _ \<Rightarrow> True)
    \<and> r \<noteq> Inl Panic
    \<and> ((\<exists>out. r = Inr out) \<longleftrightarrow> batch_ok s evs)"
proof -
  have l: "list_all event_f64 (sort_key event_key evs)" using assms(2) by (simp add: list_all_iff)
  note wf = reachable_wf [OF assms(1)]
  obtain r where r: "engine_apply evs s = Some r" "case r of Inl e \<Rightarrow> \<exists>ev \<in> set evs. e \<in> event_error ev
      | Inr (hs', s') \<Rightarrow> wf_engine {} s' \<and> eps s' = eps s"
    using apply_events_wf [OF wf l, of "[]", unfolded set_sort] by (auto simp: engine_apply_def)
  have "Panic \<notin> event_error ev" for ev by (cases ev) auto
  then show ?thesis using r apply_events_accepted [OF wf l, of "[]"]
    by (cases r) (auto simp: batch_ok_sort engine_apply_def)
qed

theorem matching_total_witness:
  "\<exists>out. engine_apply sample_events (empty_engine 0) = Some (Inr out)"
proof -
  have "batch_ok (empty_engine 0) sample_events" by (simp add: batch_ok_def sample_defs empty_engine_def)
  then show ?thesis using matching_total [OF sample_reachable sample_events_f64] by auto
qed

text \<open>C27: the queues hold exactly the live orders. In every reachable engine a key is in the queue of a symbol and
  side if and only if its order has that symbol and side and an amount left that is not within epsilon of zero, and no
  queue holds a key twice.\<close>

theorem matching_queues:
  assumes "reachable_engine s"
  shows "(k \<in> set (queue_of s (symbol, sd)) \<longleftrightarrow>
      (\<exists>m. map_of (orders s) k = Some m \<and> mo_symbol m = symbol \<and> mo_side m = sd \<and> \<not> remaining_amount m \<le> eps s))
    \<and> distinct (queue_of s (symbol, sd))"
  using wf_engineD(4,5) [OF reachable_wf [OF assms]] by (simp add: order_key_def live_def)

theorem matching_queues_witness:
  "\<exists>hs s'. engine_apply sample_events (empty_engine 0) = Some (Inr (hs, s')) \<and> distinct (queue_of s' (''BTCUSDT'', Buy))"
proof -
  obtain hs s' where ok: "engine_apply sample_events (empty_engine 0) = Some (Inr (hs, s'))" using sample_accepted by blast
  have "reachable_engine s'" by (rule reachable_engine.applied [OF sample_reachable sample_events_f64 ok])
  from matching_queues [OF this] ok show ?thesis by blast
qed

text \<open>C2: first in, first out. On amounts that are whole numbers of a unit above epsilon, a batch changes the open
  amounts exactly as the specification does event by event in sorted order, whatever the floating-point epsilon, and
  every Futures order reports as unallocated what the specification leaves.\<close>

theorem matching_refines_fifo:
  assumes "reachable_engine s" "exact_engine g s" "list_all (exact_event g) evs" "engine_apply evs s = Some (Inr (hs, s'))"
  shows "(lots s', map (\<lambda>h. qval (unallocated_amount h)) hs) = fold spec_event (sort_key event_key evs) (lots s, [])"
proof -
  have l: "list_all (exact_event g) (sort_key event_key evs)" using assms(3) by (simp add: list_all_iff)
  show ?thesis using apply_events_refines [OF reachable_wf [OF assms(1)] assms(2) l assms(4) [unfolded engine_apply_def]] by simp
qed

theorem matching_refines_fifo_witness:
  "\<exists>hs s'. engine_apply sample_events (empty_engine 0) = Some (Inr (hs, s'))
    \<and> lots s' (''BTCUSDT'', Sell) = [] \<and> lots s' (''BTCUSDT'', Buy) = []
    \<and> map (\<lambda>h. qval (unallocated_amount h)) hs = [0, 3]"
proof -
  obtain hs s' where ok: "engine_apply sample_events (empty_engine 0) = Some (Inr (hs, s'))" using sample_accepted by blast
  have i: "units 0 (numeral n)" for n unfolding units_def by (intro exI [of _ "numeral n"]) simp
  have "exact_engine 0 (empty_engine 0)"
    by (simp add: exact_engine_def empty_engine_def exact_eps_def unit_exp_def zero_f64_def)
  moreover have "list_all (exact_event 0) sample_events"
    using i by (simp add: sample_defs sample_f64 max_units_def zero_f64_def)
  ultimately have "(lots s', map (\<lambda>h. qval (unallocated_amount h)) hs) =
      fold spec_event (sort_key event_key sample_events) (lots (empty_engine 0), [])"
    using matching_refines_fifo [OF sample_reachable _ _ ok] by blast
  moreover have "lots (empty_engine 0) = (\<lambda>_. [])" by (auto simp: lots_def queue_of_def empty_engine_def fun_eq_iff)
  ultimately have r: "(lots s', map (\<lambda>h. qval (unallocated_amount h)) hs) =
      fold spec_event (sort_key event_key sample_events) (\<lambda>_. [], [])" by simp
  show ?thesis using ok r
    by (simp add: sample_defs spec_margin_def spec_futures_def order_key_def opposite_key_def Let_def)
qed

text \<open>C4: no amount is lost. On exact amounts, after any batch every order's fill is exactly what remains of it plus
  what was netted against Margin orders plus what Futures orders closed, all three non-negative, and every Futures
  order's amount is split into an allocated and an unallocated part.\<close>

theorem matching_conserves:
  assumes "reachable_engine s" "exact_engine g s" "list_all (exact_event g) evs" "engine_apply evs s = Some (Inr (hs, s'))"
    and "m \<in> set (into_orders s')"
  shows "is_finite (remaining_amount m) \<and> is_finite (netted_amount m) \<and> is_finite (camount m) \<and>
    0 \<le> remaining_amount m \<and> 0 \<le> netted_amount m \<and> 0 \<le> camount m \<and>
    qval (open_fill_amount m) = qval (remaining_amount m) + qval (netted_amount m) + qval (camount m)"
proof -
  have l: "list_all (exact_event g) (sort_key event_key evs)" using assms(3) by (simp add: list_all_iff)
  have ex: "exact_engine g s'"
    using apply_events_refines [OF reachable_wf [OF assms(1)] assms(2) l assms(4) [unfolded engine_apply_def]] by simp
  have "list_all event_f64 evs" using assms(3) exact_event_f64 by (auto simp: list_all_iff)
  then have "reachable_engine s'" using reachable_engine.applied [OF assms(1) _ assms(4)] by blast
  then have "bt_wf (orders s')" using wf_engineD(2) [OF reachable_wf] by (simp add: orders_ok_def)
  then obtain k where "map_of (orders s') k = Some m" using assms(5) by (auto simp: into_orders_def bt_wf_map_of)
  then have "exact_order g m" using ex by (simp add: exact_engine_def)
  then show ?thesis by (auto simp: exact_order_def)
qed

theorem matching_conserves_witness:
  "\<exists>hs s'. engine_apply sample_events (empty_engine 0) = Some (Inr (hs, s'))
    \<and> (\<forall>m \<in> set (into_orders s'). qval (open_fill_amount m) =
        qval (remaining_amount m) + qval (netted_amount m) + qval (camount m))"
proof -
  obtain hs s' where ok: "engine_apply sample_events (empty_engine 0) = Some (Inr (hs, s'))" using sample_accepted by blast
  have i: "units 0 (numeral n)" for n unfolding units_def by (intro exI [of _ "numeral n"]) simp
  have "exact_engine 0 (empty_engine 0)"
    by (simp add: exact_engine_def empty_engine_def exact_eps_def unit_exp_def zero_f64_def)
  moreover have "list_all (exact_event 0) sample_events"
    using i by (simp add: sample_defs sample_f64 max_units_def zero_f64_def)
  ultimately show ?thesis using matching_conserves [OF sample_reachable _ _ ok] ok by blast
qed

text \<open>Margin orders net against each other. If no symbol has open Margin orders on both sides, none has after
  any batch.\<close>

theorem matching_one_sided:
  assumes "reachable_engine s" "list_all event_f64 evs" "engine_apply evs s = Some (Inr (hs, s'))"
    and "\<forall>key. queue_of s key = [] \<or> queue_of s (opposite_key key) = []"
  shows "queue_of s' key = [] \<or> queue_of s' (opposite_key key) = []"
proof -
  have "one_sided_queues s'"
    by (rule engine_apply_inv [OF reachable_wf [OF assms(1)] assms(2,3), where I = one_sided_queues])
      (use one_sided_step assms(4) in \<open>simp_all add: one_sided_queues_def [of s] del: split_paired_All\<close>)
  then show ?thesis by (simp add: one_sided_queues_def del: split_paired_All)
qed

theorem matching_one_sided_witness:
  "\<exists>hs s'. engine_apply sample_events (empty_engine 0) = Some (Inr (hs, s'))
    \<and> (queue_of s' (''BTCUSDT'', Buy) = [] \<or> queue_of s' (''BTCUSDT'', Sell) = [])"
proof -
  obtain hs s' where ok: "engine_apply sample_events (empty_engine 0) = Some (Inr (hs, s'))" using sample_accepted by blast
  have "\<forall>key. queue_of (empty_engine 0) key = [] \<or> queue_of (empty_engine 0) (opposite_key key) = []"
    by (simp add: queue_of_def empty_engine_def)
  from matching_one_sided [OF sample_reachable sample_events_f64 ok this, of "(''BTCUSDT'', Buy)"] ok
  show ?thesis by (auto simp: opposite_key_def)
qed

text \<open>the displayed state of an order agrees with its amounts. Unless the amount left is NaN, an order is shown as
  pending exactly while more than epsilon is left, and otherwise as mixed, completed or netted by what closed it.\<close>

theorem matching_states:
  assumes "reachable_engine s" "map_of (orders s) k = Some m" "remaining_amount m \<noteq> NaN"
  shows "state m = (if eps s < remaining_amount m then Pending
    else if eps s < camount m \<and> eps s < netted_amount m then Mixed
    else if eps s < camount m then Completed else Netted)"
proof -
  have "refresh_state (eps s) m = m" using reachable_states [OF assms(1)] assms(2,3) by (simp add: states_ok_def)
  then have "state (refresh_state (eps s) m) = state m" by simp
  then show ?thesis by (simp add: refresh_state_def)
qed

theorem matching_states_witness:
  "\<exists>s m. engine_new [sample_margin 1 Buy 10 (Fin 3)] 0 = Inr s \<and> map_of (orders s) 1 = Some m \<and> state m = Pending"
proof -
  let ?m = "sample_margin 1 Buy 10 (Fin 3)"
  obtain s where s: "engine_new [?m] 0 = Inr s" "map_of (orders s) 1 = Some ?m" "eps s = 0"
    by (simp add: engine_new_def load_pending_def remember_pending_def sample_margin_def empty_engine_def push_queue_def Let_def
        not_le zero_f64_def)
  have "reachable_engine s" by (rule reachable_engine.loaded [OF s(1)]) (simp add: sample_margin_def sample_f64)
  from matching_states [OF this s(2)] s show ?thesis by (auto simp: sample_margin_def)
qed

text \<open>C30: the hedge registers do not depend on the order of the events. After a batch the first hedge timing of a
  Margin key is the least by creation, source and id among the earlier one and those of the batch, the last fill is the
  latest, and the order count grows by the number of hedge orders not seen before, duplicates not counted.\<close>

theorem matching_registers:
  assumes "reachable_engine s" "list_all event_f64 evs" "engine_apply evs s = Some (Inr (hs, s'))"
  shows "(case first_hedge_timing s' k of
       None \<Rightarrow> first_hedge_timing s k = None \<and> hedges_of k evs = []
     | Some t \<Rightarrow> is_arg_min timing_key (\<lambda>x. x \<in> set_option (first_hedge_timing s k) \<union> timing_of ` set (hedges_of k evs)) t)
   \<and> last_hedge_fill_ts_us s' k =
      (let fills = set_option (last_hedge_fill_ts_us s k) \<union> \<Union> ((\<lambda>f. set_option (fill_ts_us f)) ` set (hedges_of k evs))
       in if fills = {} then None else Some (Max fills))
   \<and> hedge_order_counts s' k =
      (let new = fo_client_order_id ` set (hedges_of k evs) - {i. (k, i) \<in> seen_hedge_orders s}
       in if new = {} then hedge_order_counts s k
          else Some (wrap_i64 ((case hedge_order_counts s k of None \<Rightarrow> 0 | Some n \<Rightarrow> n) + int (card new))))"
proof -
  have l: "list_all event_f64 (sort_key event_key evs)" using assms(2) by (simp add: list_all_iff)
  have S: "set (hedges_of k (sort_key event_key evs)) = set (hedges_of k evs)" by (simp add: set_hedges_of)
  have N: "hedges_of k (sort_key event_key evs) = [] \<longleftrightarrow> hedges_of k evs = []" using S by (metis set_empty)
  have R: "registers s' k = fold register_hedge (hedges_of k (sort_key event_key evs)) (registers s k)"
    by (rule apply_events_registers [OF reachable_wf [OF assms(1)] l assms(3) [unfolded engine_apply_def]])
  note R' = R [unfolded registers_def [of s]]
  have parts: "first_hedge_timing s' k = fst (registers s' k)" "last_hedge_fill_ts_us s' k = fst (snd (registers s' k))"
    "hedge_order_counts s' k = fst (snd (snd (registers s' k)))" by (simp_all add: registers_def)
  have c: "fst (snd (snd (registers s' k))) = snd (fold (\<lambda>f (seen, c). (insert (fo_client_order_id f) seen,
      counted (fo_client_order_id f) c seen)) (hedges_of k (sort_key event_key evs))
      ({i. (k, i) \<in> seen_hedge_orders s}, hedge_order_counts s k))"
    by (simp only: R' register_fold fst_conv snd_conv)
  show ?thesis unfolding parts
    by (intro conjI first_timing_fold [OF R', unfolded S N] last_fill_fold [OF R', unfolded S]
        c [unfolded counted_fold S])
qed

theorem matching_registers_witness:
  "\<exists>hs s'. engine_apply sample_events (empty_engine 0) = Some (Inr (hs, s')) \<and> hedge_order_counts s' 2 = Some 2
    \<and> last_hedge_fill_ts_us s' 2 = Some 41"
proof -
  obtain hs s' where ok: "engine_apply sample_events (empty_engine 0) = Some (Inr (hs, s'))" using sample_accepted by blast
  have "wrap_i64 2 = 2" by (rule wrap_i64_id) (simp add: is_i64_def i64_min_def i64_max_def)
  then show ?thesis using matching_registers [OF sample_reachable sample_events_f64 ok, of 2] ok
    by (simp add: sample_defs empty_engine_def card_insert_if)
qed



end
