(* ===== verification/RestDispatcher.thy ===== *)
theory RestDispatcher
  imports Prelude "HOL-Library.Word"
begin

text \<open>
  \<open>src/src/rest_dispatcher.rs\<close>: the dispatcher that spreads requests over source IPs within a quota per
  IP.  Instants and durations are natural numbers of nanoseconds; adding a duration to an instant panics
  beyond the greatest representable instant, the parameter \<open>lim\<close>.  Request weights are 32-bit words.
  Every critical section of the mutex is one function on the pool; what the network returns and what other
  tasks do in between are arguments.
\<close>

section \<open>Configuration\<close>

record dispatcher_config =
  local_ips :: "string list"
  max_weight_per_window :: "32 word"
  window :: nat
  request_timeout :: nat
  tcp_keepalive :: "nat option"
  cooldown_429 :: nat
  backoff_418 :: nat
  max_rate_limit_retries :: nat
  observed_weight_header :: "string option"

definition secs :: "nat \<Rightarrow> nat" where
  "secs n = n * 1000000000"

definition default_config :: dispatcher_config where
  "default_config = \<lparr>local_ips = [], max_weight_per_window = 1200, window = secs 60, request_timeout = secs 10,
     tcp_keepalive = Some (secs 30), cooldown_429 = secs 60, backoff_418 = secs 120, max_rate_limit_retries = 1,
     observed_weight_header = None\<rparr>"

datatype dispatch_error =
    InvalidConfig string
  | WeightExceedsLimit "32 word" "32 word"
  | NoAvailableIp "nat option"
  | Request string
  | RateLimited string nat nat
  | DispatchPanic

definition validate_config :: "dispatcher_config \<Rightarrow> dispatch_error + unit" where
  "validate_config cfg =
     (if local_ips cfg = [] then Inl (InvalidConfig ''at least one local IP is required'')
      else if max_weight_per_window cfg = 0 then Inl (InvalidConfig ''max_weight_per_window must be greater than zero'')
      else if window cfg = 0 then Inl (InvalidConfig ''window must be greater than zero'')
      else Inr ())"

section \<open>The pool\<close>

record ip_client =
  ip :: string
  used_weight :: "32 word"
  window_started_at :: nat
  blocked_until :: "nat option"

record pool_state =
  clients :: "ip_client list"
  next_tie_break :: nat

definition saturating_add_u32 :: "32 word \<Rightarrow> 32 word \<Rightarrow> 32 word" where
  "saturating_add_u32 a b = (if unat a + unat b < 2 ^ 32 then a + b else - 1)"

definition refresh :: "nat \<Rightarrow> nat \<Rightarrow> ip_client \<Rightarrow> ip_client" where
  "refresh now win c =
     (let c1 = (if now - window_started_at c \<ge> win then c\<lparr>used_weight := 0, window_started_at := now\<rparr> else c)
      in case blocked_until c1 of
           None \<Rightarrow> c1
         | Some t \<Rightarrow> if t \<le> now then c1\<lparr>blocked_until := None\<rparr> else c1)"

text \<open>\<open>build\<close> is what the HTTP library answers when a client is built for a local address (an error text or
  success), \<open>clock i\<close> the instant at which the \<open>i\<close>-th client was created.\<close>

fun build_clients :: "(string \<Rightarrow> string option) \<Rightarrow> (nat \<Rightarrow> nat) \<Rightarrow> nat \<Rightarrow> string list \<Rightarrow> dispatch_error + ip_client list" where
  "build_clients build clock i [] = Inr []"
| "build_clients build clock i (addr # addrs) =
     (case build addr of
        Some e \<Rightarrow> Inl (InvalidConfig (''failed to build client for '' @ addr @ '': '' @ e))
      | None \<Rightarrow>
          bind_res (build_clients build clock (Suc i) addrs) (\<lambda>cs.
            Inr (\<lparr>ip = addr, used_weight = 0, window_started_at = clock i, blocked_until = None\<rparr> # cs)))"

definition dispatcher_new ::
  "(string \<Rightarrow> string option) \<Rightarrow> (nat \<Rightarrow> nat) \<Rightarrow> dispatcher_config \<Rightarrow> dispatch_error + pool_state" where
  "dispatcher_new build clock cfg =
     bind_res (validate_config cfg) (\<lambda>_.
     bind_res (build_clients build clock 0 (local_ips cfg)) (\<lambda>cs.
     Inr \<lparr>clients = cs, next_tie_break = 0\<rparr>))"

section \<open>Critical sections\<close>

definition fits :: "dispatcher_config \<Rightarrow> 32 word \<Rightarrow> ip_client \<Rightarrow> bool" where
  "fits cfg weight c \<longleftrightarrow> saturating_add_u32 (used_weight c) weight \<le> max_weight_per_window cfg"

definition available :: "dispatcher_config \<Rightarrow> 32 word \<Rightarrow> ip_client \<Rightarrow> bool" where
  "available cfg weight c \<longleftrightarrow> blocked_until c = None \<and> fits cfg weight c"

definition scan_order :: "nat \<Rightarrow> nat \<Rightarrow> nat list" where
  "scan_order start len = map (\<lambda>offset. (start + offset) mod len) [0..<len]"

definition select_client :: "dispatcher_config \<Rightarrow> 32 word \<Rightarrow> pool_state \<Rightarrow> nat option" where
  "select_client cfg weight s =
     (let len = length (clients s);
          start = next_tie_break s mod len
      in min_by_key (\<lambda>i. used_weight (clients s ! i))
           (filter (\<lambda>i. available cfg weight (clients s ! i)) (scan_order start len)))"

definition instant_add :: "nat \<Rightarrow> nat \<Rightarrow> nat \<Rightarrow> nat option" where
  "instant_add lim t d = (if t + d \<le> lim then Some (t + d) else None)"

definition ready_at :: "nat \<Rightarrow> dispatcher_config \<Rightarrow> nat \<Rightarrow> 32 word \<Rightarrow> ip_client \<Rightarrow> nat option" where
  "ready_at lim cfg now weight c =
     (let r = (case blocked_until c of None \<Rightarrow> now | Some t \<Rightarrow> max now t)
      in if \<not> fits cfg weight c
         then map_option (max r) (instant_add lim (window_started_at c) (window cfg))
         else Some r)"

definition earliest_ready :: "nat \<Rightarrow> dispatcher_config \<Rightarrow> nat \<Rightarrow> 32 word \<Rightarrow> ip_client list \<Rightarrow> dispatch_error" where
  "earliest_ready lim cfg now weight cs =
     (let rs = map (ready_at lim cfg now weight) cs
      in if None \<in> set rs then DispatchPanic
         else NoAvailableIp (map_option (\<lambda>r. r - now) (min_by_key (\<lambda>r. r) (map the rs))))"

definition reserve_client ::
  "nat \<Rightarrow> dispatcher_config \<Rightarrow> nat \<Rightarrow> 32 word \<Rightarrow> pool_state \<Rightarrow> (dispatch_error + nat \<times> string) \<times> pool_state" where
  "reserve_client lim cfg now weight s0 =
     (let s = s0\<lparr>clients := map (refresh now (window cfg)) (clients s0)\<rparr>;
          len = length (clients s)
      in if len = 0 then (Inl DispatchPanic, s)
         else case select_client cfg weight s of
           None \<Rightarrow> (Inl (earliest_ready lim cfg now weight (clients s)), s)
         | Some i \<Rightarrow>
             let c = clients s ! i;
                 c' = c\<lparr>used_weight := saturating_add_u32 (used_weight c) weight\<rparr>
             in (Inr (i, ip c), s\<lparr>clients := (clients s)[i := c'], next_tie_break := (i + 1) mod len\<rparr>))"

text \<open>An index beyond the clients panics; \<open>None\<close> is the panic.\<close>

definition block_client :: "nat \<Rightarrow> nat \<Rightarrow> nat \<Rightarrow> nat \<Rightarrow> pool_state \<Rightarrow> pool_state option" where
  "block_client lim i now duration s =
     (if i < length (clients s)
      then map_option (\<lambda>t. s\<lparr>clients := (clients s)[i := (clients s ! i)\<lparr>blocked_until := Some t\<rparr>]\<rparr>) (instant_add lim now duration)
      else None)"

type_synonym headers = "(string \<times> string) list"

text \<open>\<open>HeaderValue::to_str\<close> accepts visible ASCII, space and tab.\<close>

definition header_str :: "headers \<Rightarrow> string \<Rightarrow> string option" where
  "header_str hs name =
     (case map_of hs name of
        None \<Rightarrow> None
      | Some v \<Rightarrow>
          if list_all (\<lambda>c. (32 \<le> (of_char c :: nat) \<and> (of_char c :: nat) < 127) \<or> (of_char c :: nat) = 9) v then Some v else None)"

definition observed_weight :: "dispatcher_config \<Rightarrow> headers \<Rightarrow> 32 word option" where
  "observed_weight cfg hs =
     (case observed_weight_header cfg of
        None \<Rightarrow> None
      | Some name \<Rightarrow>
          (case header_str hs name of
             None \<Rightarrow> None
           | Some v \<Rightarrow> map_option of_nat (parse_unsigned (2 ^ 32 - 1) v)))"

definition update_observed_weight :: "dispatcher_config \<Rightarrow> nat \<Rightarrow> headers \<Rightarrow> pool_state \<Rightarrow> pool_state option" where
  "update_observed_weight cfg i hs s =
     (case observed_weight cfg hs of
        None \<Rightarrow> Some s
      | Some observed \<Rightarrow>
          if i < length (clients s)
          then Some (s\<lparr>clients := (clients s)[i := (clients s ! i)\<lparr>used_weight := max (used_weight (clients s ! i)) observed\<rparr>]\<rparr>)
          else None)"

definition retry_after :: "headers \<Rightarrow> nat option" where
  "retry_after hs =
     (case header_str hs ''retry-after'' of
        None \<Rightarrow> None
      | Some v \<Rightarrow> map_option secs (parse_unsigned (2 ^ 64 - 1) (str_trim v)))"

section \<open>Dispatching a request\<close>

text \<open>Operations of other tasks on the shared pool, each one critical section.\<close>

datatype pool_op =
    Reserve nat "32 word"
  | Observe nat headers
  | Block nat nat nat

definition pool_step :: "nat \<Rightarrow> dispatcher_config \<Rightarrow> pool_op \<Rightarrow> pool_state \<Rightarrow> pool_state option" where
  "pool_step lim cfg ev s =
     (case ev of
        Reserve now weight \<Rightarrow> Some (snd (reserve_client lim cfg now weight s))
      | Observe i hs \<Rightarrow> update_observed_weight cfg i hs s
      | Block i now duration \<Rightarrow> block_client lim i now duration s)"

text \<open>A critical section of another task that panics has no effect and does not stop the others.\<close>

definition others :: "nat \<Rightarrow> dispatcher_config \<Rightarrow> pool_op list \<Rightarrow> pool_state \<Rightarrow> pool_state" where
  "others lim cfg evs s = fold (\<lambda>ev s. case pool_step lim cfg ev s of None \<Rightarrow> s | Some s' \<Rightarrow> s') evs s"

datatype send_result = TransportError | Responded nat headers

text \<open>What one attempt meets: the operations of other tasks before each of its critical sections, the
  instants it reads and what its request returns.\<close>

record attempt_env =
  before_reserve :: "pool_op list"
  reserve_now :: nat
  send_result :: send_result
  before_update :: "pool_op list"
  before_block :: "pool_op list"
  block_now :: nat

record dispatch_response =
  dr_local_ip :: string
  attempts :: nat
  dr_status :: nat

definition rate_limited_status :: "nat \<Rightarrow> bool" where
  "rate_limited_status status \<longleftrightarrow> \<not> (status \<noteq> 429 \<and> status \<noteq> 418)"

definition retry_delay :: "dispatcher_config \<Rightarrow> nat \<Rightarrow> headers \<Rightarrow> nat" where
  "retry_delay cfg status hs =
     (case retry_after hs of
        Some d \<Rightarrow> d
      | None \<Rightarrow> if status = 418 then backoff_418 cfg else cooldown_429 cfg)"

definition max_attempts :: "dispatcher_config \<Rightarrow> nat" where
  "max_attempts cfg = min (2 ^ 64 - 1) (max_rate_limit_retries cfg + 1)"

text \<open>One attempt either ends the dispatch or was rate limited, its client blocked.  The log records the
  client of every request sent.\<close>

datatype attempt_result =
    Finished "dispatch_error + dispatch_response" pool_state "nat list"
  | Limited string nat nat pool_state "nat list"

definition dispatch_attempt ::
  "nat \<Rightarrow> dispatcher_config \<Rightarrow> 32 word \<Rightarrow> nat \<Rightarrow> attempt_env \<Rightarrow> pool_state \<Rightarrow> nat list \<Rightarrow> attempt_result" where
  "dispatch_attempt lim cfg weight n e s log =
     (case reserve_client lim cfg (reserve_now e) weight (others lim cfg (before_reserve e) s) of
        (Inl err, s2) \<Rightarrow> Finished (Inl err) s2 log
      | (Inr (i, addr), s2) \<Rightarrow>
          (case send_result e of
             TransportError \<Rightarrow> Finished (Inl (Request addr)) s2 (log @ [i])
           | Responded status hs \<Rightarrow>
               (case update_observed_weight cfg i hs (others lim cfg (before_update e) s2) of
                  None \<Rightarrow> Finished (Inl DispatchPanic) s2 (log @ [i])
                | Some s3 \<Rightarrow>
                    if \<not> rate_limited_status status
                    then Finished (Inr \<lparr>dr_local_ip = addr, attempts = n, dr_status = status\<rparr>) s3 (log @ [i])
                    else
                      (case block_client lim i (block_now e) (retry_delay cfg status hs) (others lim cfg (before_block e) s3) of
                         None \<Rightarrow> Finished (Inl DispatchPanic) s3 (log @ [i])
                       | Some s4 \<Rightarrow> Limited addr status (retry_delay cfg status hs) s4 (log @ [i])))))"

text \<open>Attempt number \<open>n\<close>, with \<open>left\<close> attempts to go after it.\<close>

fun dispatch_loop ::
  "nat \<Rightarrow> dispatcher_config \<Rightarrow> 32 word \<Rightarrow> nat \<Rightarrow> nat \<Rightarrow> (nat \<Rightarrow> attempt_env) \<Rightarrow> pool_state \<Rightarrow> nat list \<Rightarrow>
     (dispatch_error + dispatch_response) \<times> pool_state \<times> nat list" where
  "dispatch_loop lim cfg weight n left env s log =
     (case dispatch_attempt lim cfg weight n (env n) s log of
        Finished r s' log' \<Rightarrow> (r, s', log')
      | Limited addr status d s' log' \<Rightarrow>
          (case left of
             0 \<Rightarrow> (Inl (RateLimited addr status d), s', log')
           | Suc left' \<Rightarrow> dispatch_loop lim cfg weight (n + 1) left' env s' log'))"

declare dispatch_loop.simps [simp del]

definition dispatch ::
  "nat \<Rightarrow> dispatcher_config \<Rightarrow> 32 word \<Rightarrow> (nat \<Rightarrow> attempt_env) \<Rightarrow> pool_state \<Rightarrow>
     (dispatch_error + dispatch_response) \<times> pool_state \<times> nat list" where
  "dispatch lim cfg weight env s =
     (if max_weight_per_window cfg < weight
      then (Inl (WeightExceedsLimit weight (max_weight_per_window cfg)), s, [])
      else dispatch_loop lim cfg weight 1 (max_attempts cfg - 1) env s [])"

section \<open>Basic facts\<close>

lemma unat_saturating_add: "unat (saturating_add_u32 a b) = min (2 ^ 32 - 1) (unat a + unat b)"
proof (cases "unat a + unat b < 2 ^ 32")
  case True
  then have "unat (a + b) = unat a + unat b" by (simp add: unat_word_ariths)
  then show ?thesis using True by (simp add: saturating_add_u32_def)
next
  case False
  then show ?thesis by (simp add: saturating_add_u32_def unsigned_minus_1_eq_mask mask_eq_exp_minus_1)
qed

lemma refresh_simps [simp]: "ip (refresh now win c) = ip c"
  by (auto simp: refresh_def Let_def split: option.splits)

lemma refresh_refresh:
  assumes "now \<le> t" "0 < win"
  shows "blocked_until (refresh t win (refresh now win c)) = blocked_until (refresh t win c)"
    "used_weight (refresh t win (refresh now win c)) = used_weight (refresh t win c) \<or>
     used_weight (refresh t win c) = 0 \<and> window_started_at (refresh now win c) = now"
  using assms by (auto simp: refresh_def Let_def split: option.splits)

lemma refresh_at:
  assumes "0 < win"
  shows "blocked_until (refresh t win c) = (case blocked_until c of None \<Rightarrow> None | Some b \<Rightarrow> if b \<le> t then None else Some b)"
    "used_weight (refresh t win c) = (if window_started_at c + win \<le> t then 0 else used_weight c)"
    "window_started_at (refresh t win c) = (if window_started_at c + win \<le> t then t else window_started_at c)"
  using assms by (auto simp: refresh_def Let_def split: option.splits)

lemma set_scan_order: "0 < len \<Longrightarrow> set (scan_order start len) = {0..<len}"
proof -
  assume len: "0 < len"
  have "j \<in> (\<lambda>offset. (start + offset) mod len) ` {0..<len}" if "j < len" for j
  proof (intro image_eqI)
    let ?o = "(j + (len - start mod len)) mod len"
    have "(start + ?o) mod len = (start mod len + (j + (len - start mod len))) mod len" by (simp add: mod_simps)
    also have "start mod len + (j + (len - start mod len)) = j + len"
      using mod_less_divisor [OF len, of start] by linarith
    finally show "j = (start + ?o) mod len" using that by simp
    show "?o \<in> {0..<len}" using len by simp
  qed
  then show ?thesis using len by (auto simp: scan_order_def)
qed

lemma select_client_None: "clients s \<noteq> [] \<Longrightarrow>
    select_client cfg w s = None \<longleftrightarrow> (\<forall>j < length (clients s). \<not> available cfg w (clients s ! j))"
  using set_scan_order [of "length (clients s)" "next_tie_break s mod length (clients s)"]
  by (auto simp: select_client_def Let_def filter_empty_conv)

text \<open>How far the round-robin scan goes before it meets an index.\<close>

definition scan_distance :: "nat \<Rightarrow> nat \<Rightarrow> nat \<Rightarrow> nat" where
  "scan_distance start len j = (j + (len - start mod len)) mod len"

lemma scan_order_nth: "o' < len \<Longrightarrow> scan_order start len ! o' = (start + o') mod len"
  by (simp add: scan_order_def)

lemma scan_distance_scan: "o' < len \<Longrightarrow> scan_distance start len ((start + o') mod len) = o'"
proof -
  assume o: "o' < len"
  have "scan_distance start len ((start + o') mod len) = (start mod len + o' + (len - start mod len)) mod len"
    unfolding scan_distance_def by (simp add: mod_simps) (metis mod_add_left_eq add.assoc)
  also have "start mod len + o' + (len - start mod len) = o' + len"
    using mod_less_divisor [of len start] o by linarith
  finally show ?thesis using o by simp
qed

lemma select_client_Some:
  assumes "clients s \<noteq> []" "select_client cfg w s = Some i"
  defines "len \<equiv> length (clients s)"
  shows "i < len" "available cfg w (clients s ! i)"
    "j < len \<Longrightarrow> available cfg w (clients s ! j) \<Longrightarrow> used_weight (clients s ! i) < used_weight (clients s ! j) \<or>
      used_weight (clients s ! i) = used_weight (clients s ! j) \<and>
      scan_distance (next_tie_break s) len i \<le> scan_distance (next_tie_break s) len j"
proof -
  let ?start = "next_tie_break s mod len"
  let ?k = "\<lambda>i. used_weight (clients s ! i)" and ?xs = "filter (\<lambda>i. available cfg w (clients s ! i)) (scan_order ?start len)"
  have len: "0 < len" using assms(1) by (simp add: len_def)
  have m: "min_by_key ?k ?xs = Some i" using assms(2) by (simp add: select_client_def Let_def len_def)
  note M = min_by_key_SomeD [OF m]
  show "i < len" "available cfg w (clients s ! i)" using M set_scan_order [OF len] by auto
  obtain ys zs where yz: "?xs = ys @ i # zs" "\<forall>y \<in> set ys. ?k i < ?k y" using min_by_key_first [OF m] by blast
  assume j: "j < len" "available cfg w (clients s ! j)"
  then have "j \<in> set ?xs" using set_scan_order [OF len] by auto
  then have le: "?k i \<le> ?k j" using M by blast
  have sd: "scan_distance (next_tie_break s) len = scan_distance ?start len" by (simp add: scan_distance_def fun_eq_iff)
  have srt: "sorted_wrt (<) (map (scan_distance ?start len) (scan_order ?start len))"
  proof -
    have "map (scan_distance ?start len) (scan_order ?start len) = [0..<len]"
      unfolding scan_order_def map_map by (rule nth_equalityI) (simp_all add: scan_distance_scan)
    then show ?thesis by simp
  qed
  then have "sorted_wrt (<) (map (scan_distance ?start len) ?xs)"
    by (simp add: sorted_wrt_map) (metis sorted_wrt_filter)
  then have "\<forall>z \<in> set zs. scan_distance ?start len i < scan_distance ?start len z"
    unfolding yz(1) by (simp add: sorted_wrt_append)
  then show "?k i < ?k j \<or> ?k i = ?k j \<and> scan_distance (next_tie_break s) len i \<le> scan_distance (next_tie_break s) len j"
    using \<open>j \<in> set ?xs\<close> yz le unfolding sd by fastforce
qed

lemma reserve_client_cases:
  fixes cfg :: dispatcher_config and now :: nat
  assumes "clients s \<noteq> []"
  defines "s1 \<equiv> s\<lparr>clients := map (refresh now (window cfg)) (clients s)\<rparr>"
  obtains (none) "select_client cfg w s1 = None" "reserve_client lim cfg now w s = (Inl (earliest_ready lim cfg now w (clients s1)), s1)"
  | (some) i where "select_client cfg w s1 = Some i" "i < length (clients s)" "available cfg w (clients s1 ! i)"
      "reserve_client lim cfg now w s = (Inr (i, ip (clients s1 ! i)),
        s1\<lparr>clients := (clients s1)[i := (clients s1 ! i)\<lparr>used_weight := saturating_add_u32 (used_weight (clients s1 ! i)) w\<rparr>],
           next_tie_break := (i + 1) mod length (clients s1)\<rparr>)"
proof (cases "select_client cfg w s1")
  case None
  then show ?thesis using none assms by (simp add: reserve_client_def Let_def)
next
  case (Some i)
  have "clients s1 \<noteq> []" using assms by simp
  from select_client_Some(1,2) [OF this Some] show ?thesis using some [OF Some] Some assms
    by (simp add: reserve_client_def Let_def)
qed

lemma length_clients [simp]: "length (clients (snd (reserve_client lim cfg now w s))) = length (clients s)"
  by (auto simp: reserve_client_def Let_def split: option.splits)

lemma pool_step_length: "pool_step lim cfg ev s = Some s' \<Longrightarrow> length (clients s') = length (clients s)"
  by (auto simp: pool_step_def update_observed_weight_def block_client_def split: pool_op.splits option.splits if_splits)

lemma others_length [simp]: "length (clients (others lim cfg evs s)) = length (clients s)"
  unfolding others_def by (induction evs arbitrary: s) (auto dest: pool_step_length split: option.splits)

section \<open>The quota ghost\<close>

text \<open>For each client the weight reserved since its window started, kept beside the pool: a reservation adds
  its weight, the reset of a window clears it.  Nothing in the dispatcher reads it.\<close>

definition track :: "nat \<Rightarrow> dispatcher_config \<Rightarrow> pool_op \<Rightarrow> pool_state \<Rightarrow> nat list \<Rightarrow> nat list" where
  "track lim cfg ev s sent =
     (case ev of
        Reserve now weight \<Rightarrow>
          (let sent1 = map2 (\<lambda>c q. if now - window_started_at c \<ge> window cfg then 0 else q) (clients s) sent
           in case fst (reserve_client lim cfg now weight s) of
                Inl _ \<Rightarrow> sent1
              | Inr (i, _) \<Rightarrow> sent1[i := sent1 ! i + unat weight])
      | _ \<Rightarrow> sent)"

fun tracked_run :: "nat \<Rightarrow> dispatcher_config \<Rightarrow> pool_op list \<Rightarrow> pool_state \<times> nat list \<Rightarrow> pool_state \<times> nat list" where
  "tracked_run lim cfg [] (s, sent) = (s, sent)"
| "tracked_run lim cfg (ev # evs) (s, sent) =
     (case pool_step lim cfg ev s of
        None \<Rightarrow> tracked_run lim cfg evs (s, sent)
      | Some s' \<Rightarrow> tracked_run lim cfg evs (s', track lim cfg ev s sent))"

lemma tracked_run_others: "fst (tracked_run lim cfg evs (s, sent)) = others lim cfg evs s"
  unfolding others_def by (induction evs arbitrary: s sent) (auto split: option.splits)

definition within_quota :: "dispatcher_config \<Rightarrow> pool_state \<Rightarrow> nat list \<Rightarrow> bool" where
  "within_quota cfg s sent \<longleftrightarrow> clients s \<noteq> [] \<and> length sent = length (clients s) \<and>
     (\<forall>i < length sent. sent ! i \<le> unat (used_weight (clients s ! i)) \<and> sent ! i \<le> unat (max_weight_per_window cfg))"

lemma fits_unat:
  assumes "max_weight_per_window cfg \<noteq> - 1" "fits cfg w c"
  shows "unat (used_weight c) + unat w \<le> unat (max_weight_per_window cfg)"
    "unat (saturating_add_u32 (used_weight c) w) = unat (used_weight c) + unat w"
proof -
  have "unat (max_weight_per_window cfg) \<noteq> unat (- 1 :: 32 word)" using assms(1) unfolding word_unat_eq_iff .
  moreover have "unat (- 1 :: 32 word) = 2 ^ 32 - 1" by (simp add: unsigned_minus_1_eq_mask mask_eq_exp_minus_1)
  moreover have "unat (max_weight_per_window cfg) < 2 ^ 32" using unsigned_less [of "max_weight_per_window cfg"] by simp
  ultimately have m: "unat (max_weight_per_window cfg) < 2 ^ 32 - 1" by linarith
  have f: "min (2 ^ 32 - 1) (unat (used_weight c) + unat w) \<le> unat (max_weight_per_window cfg)"
    using assms(2) unfolding fits_def word_le_nat_alt unat_saturating_add .
  then show "unat (used_weight c) + unat w \<le> unat (max_weight_per_window cfg)" using m by linarith
  then show "unat (saturating_add_u32 (used_weight c) w) = unat (used_weight c) + unat w"
    unfolding unat_saturating_add using m by linarith
qed

lemma within_quota_step:
  assumes q: "within_quota cfg s sent" and win: "0 < window cfg" and m: "max_weight_per_window cfg \<noteq> - 1"
    and st: "pool_step lim cfg ev s = Some s'"
  shows "within_quota cfg s' (track lim cfg ev s sent)"
proof (cases ev)
  case (Reserve now w)
  have ne: "clients s \<noteq> []" and len: "length sent = length (clients s)" using q by (simp_all add: within_quota_def)
  define s1 where "s1 = s\<lparr>clients := map (refresh now (window cfg)) (clients s)\<rparr>"
  define sent1 where "sent1 = map2 (\<lambda>c q. if now - window_started_at c \<ge> window cfg then 0 else q) (clients s) sent"
  have q1: "within_quota cfg s1 sent1"
    using q by (auto simp: within_quota_def s1_def sent1_def refresh_def Let_def split: option.splits)
  have s': "s' = snd (reserve_client lim cfg now w s)" using st Reserve by (simp add: pool_step_def)
  from ne show ?thesis
  proof (cases rule: reserve_client_cases [where now = now and cfg = cfg and w = w and lim = lim])
    case none
    then show ?thesis using q1 Reserve s' by (simp add: track_def sent1_def s1_def)
  next
    case (some i)
    have "fits cfg w (clients s1 ! i)" using some(3) by (simp add: available_def s1_def)
    note F = fits_unat [OF m this]
    have i: "i < length sent1" using some(2) len by (simp add: sent1_def)
    have "sent1 ! i \<le> unat (used_weight (clients s1 ! i))" using q1 i by (simp add: within_quota_def)
    then have le: "sent1 ! i + unat w \<le> unat (max_weight_per_window cfg)"
      "sent1 ! i + unat w \<le> unat (saturating_add_u32 (used_weight (clients s1 ! i)) w)" using F by linarith+
    have "s' = s1\<lparr>clients := (clients s1)[i := (clients s1 ! i)\<lparr>used_weight := saturating_add_u32 (used_weight (clients s1 ! i)) w\<rparr>],
           next_tie_break := (i + 1) mod length (clients s1)\<rparr>" using some(4) s' by (simp add: s1_def)
    moreover have "track lim cfg ev s sent = sent1[i := sent1 ! i + unat w]"
      using some(4) Reserve by (simp add: track_def sent1_def Let_def)
    moreover have "i < length (clients s1)" using some(2) by (simp add: s1_def)
    ultimately show ?thesis using q1 le i by (auto simp: within_quota_def nth_list_update)
  qed
next
  case (Observe i hs)
  then show ?thesis using st q
    by (auto simp: pool_step_def track_def update_observed_weight_def within_quota_def nth_list_update word_le_nat_alt max_def
        split: option.splits if_splits) (meson order_trans)
next
  case (Block i now d)
  then show ?thesis using st q
    by (auto simp: pool_step_def track_def block_client_def within_quota_def nth_list_update split: option.splits if_splits)
qed

lemma within_quota_run:
  assumes "within_quota cfg s sent" "0 < window cfg" "max_weight_per_window cfg \<noteq> - 1"
  shows "case tracked_run lim cfg evs (s, sent) of (s', sent') \<Rightarrow> within_quota cfg s' sent'"
  using assms(1)
proof (induction evs arbitrary: s sent)
  case (Cons ev evs)
  then show ?case using within_quota_step [OF Cons.prems assms(2,3), of lim ev] by (auto split: option.splits)
qed simp

lemma build_clients_Inr:
  "build_clients build clock i addrs = Inr cs \<Longrightarrow>
    map ip cs = addrs \<and> (\<forall>c \<in> set cs. used_weight c = 0 \<and> blocked_until c = None)"
  by (induction addrs arbitrary: i cs) (auto simp: bind_res_Inr split: option.splits)

lemma dispatcher_new_Inr:
  assumes "dispatcher_new build clock cfg = Inr s"
  shows "map ip (clients s) = local_ips cfg" "clients s \<noteq> []" "0 < window cfg" "max_weight_per_window cfg \<noteq> 0"
    "\<forall>c \<in> set (clients s). used_weight c = 0 \<and> blocked_until c = None" "next_tie_break s = 0"
  using assms build_clients_Inr
  by (fastforce simp: dispatcher_new_def bind_res_Inr validate_config_def split: if_splits)+

section \<open>Waiting\<close>

lemma available_at:
  assumes "0 < window cfg" "w \<le> max_weight_per_window cfg" "now \<le> t" "ready_at lim cfg now w (refresh now (window cfg) c) = Some r"
  shows "available cfg w (refresh t (window cfg) (refresh now (window cfg) c)) \<longleftrightarrow> r \<le> t" "now \<le> r"
proof -
  have "unat w < 2 ^ LENGTH(32)" by (rule unsigned_less)
  then have z: "saturating_add_u32 0 w = w" by (simp add: saturating_add_u32_def)
  show "available cfg w (refresh t (window cfg) (refresh now (window cfg) c)) \<longleftrightarrow> r \<le> t"
    using assms z unfolding available_def fits_def ready_at_def refresh_at(1) [OF assms(1)] refresh_at(2) [OF assms(1)]
      refresh_at(3) [OF assms(1)]
    by (auto simp: instant_add_def Let_def split: option.splits if_splits)
  show "now \<le> r" using assms(4) by (auto simp: ready_at_def Let_def split: option.splits if_splits)
qed

lemma earliest_ready_eq:
  assumes "earliest_ready lim cfg now w cs = NoAvailableIp (Some d)" and now: "\<forall>c \<in> set cs. \<forall>r. ready_at lim cfg now w c = Some r \<longrightarrow> now \<le> r"
  shows "\<exists>c \<in> set cs. ready_at lim cfg now w c = Some (now + d)" "c \<in> set cs \<Longrightarrow> \<exists>r. ready_at lim cfg now w c = Some r \<and> now + d \<le> r"
proof -
  let ?rs = "map (ready_at lim cfg now w) cs"
  have N: "None \<notin> set ?rs" and M: "map_option (\<lambda>r. r - now) (min_by_key (\<lambda>r. r) (map the ?rs)) = Some d"
    using assms(1) by (auto simp: earliest_ready_def Let_def split: if_splits)
  obtain m where m: "min_by_key (\<lambda>r. r) (map the ?rs) = Some m" "d = m - now" using M by auto
  note mm = min_by_key_SomeD [OF m(1)]
  have all: "\<exists>r. ready_at lim cfg now w c = Some r \<and> r \<in> set (map the ?rs)" if "c \<in> set cs" for c
    using N that by (cases "ready_at lim cfg now w c") (auto simp: image_iff intro!: bexI [of _ c])
  obtain c' where c: "c' \<in> set cs" "the (ready_at lim cfg now w c') = m" using mm by auto
  then have cm: "ready_at lim cfg now w c' = Some m" using all [OF c(1)] by auto
  then have "now \<le> m" using now c(1) by blast
  then have nd: "now + d = m" using m(2) by simp
  show "\<exists>c \<in> set cs. ready_at lim cfg now w c = Some (now + d)" using c cm nd by auto
  assume "c \<in> set cs"
  from all [OF this] mm nd show "\<exists>r. ready_at lim cfg now w c = Some r \<and> now + d \<le> r" by auto
qed

section \<open>Attempts\<close>

definition limited_send :: "attempt_env \<Rightarrow> bool" where
  "limited_send e = (case send_result e of TransportError \<Rightarrow> False | Responded status _ \<Rightarrow> rate_limited_status status)"

text \<open>What the result says about the last request sent.\<close>

fun last_send :: "dispatch_error + dispatch_response \<Rightarrow> nat \<Rightarrow> nat \<Rightarrow> (nat \<Rightarrow> attempt_env) \<Rightarrow> bool" where
  "last_send (Inr r) n m env \<longleftrightarrow> attempts r = n \<and> 0 < n \<and>
     (\<exists>hs. send_result (env n) = Responded (dr_status r) hs) \<and> \<not> rate_limited_status (dr_status r)"
| "last_send (Inl (Request addr)) n m env \<longleftrightarrow> 0 < n \<and> send_result (env n) = TransportError"
| "last_send (Inl (RateLimited addr status d)) n m env \<longleftrightarrow> n = m \<and> 0 < n \<and>
     (\<exists>hs. send_result (env n) = Responded status hs) \<and> rate_limited_status status"
| "last_send (Inl e) n m env \<longleftrightarrow> True"

lemma attempt_cases:
  "case dispatch_attempt lim cfg w n e s log of
     Finished r s' log' \<Rightarrow>
       (case r of
          Inr resp \<Rightarrow> attempts resp = n \<and> (\<exists>hs. send_result e = Responded (dr_status resp) hs) \<and>
            \<not> rate_limited_status (dr_status resp) \<and> (\<exists>i < length (clients s). log' = log @ [i])
        | Inl (Request addr) \<Rightarrow> send_result e = TransportError \<and> (\<exists>i < length (clients s). log' = log @ [i])
        | Inl (RateLimited _ _ _) \<Rightarrow> False
        | Inl _ \<Rightarrow> log' = log \<or> (\<exists>i < length (clients s). log' = log @ [i]))
   | Limited addr status d s' log' \<Rightarrow>
       (\<exists>hs. send_result e = Responded status hs \<and> d = retry_delay cfg status hs) \<and> rate_limited_status status \<and>
       (\<exists>i < length (clients s). log' = log @ [i]) \<and> length (clients s') = length (clients s)"
proof (cases "clients s = []")
  case True
  then have "clients (others lim cfg (before_reserve e) s) = []" by (metis length_0_conv others_length)
  then show ?thesis by (simp add: dispatch_attempt_def reserve_client_def)
next
  case False
  let ?s1 = "others lim cfg (before_reserve e) s"
  have ne: "clients ?s1 \<noteq> []" using False others_length [of lim cfg "before_reserve e" s] by (metis length_0_conv)
  from ne show ?thesis
  proof (cases rule: reserve_client_cases [where now = "reserve_now e" and cfg = cfg and w = w and lim = lim])
    case none
    then show ?thesis by (auto simp: dispatch_attempt_def earliest_ready_def Let_def)
  next
    case (some i)
    then show ?thesis
      by (auto simp: dispatch_attempt_def block_client_def update_observed_weight_def split: send_result.splits option.splits)
  qed
qed

lemma attempt_log:
  assumes "dispatch_attempt lim cfg w n e s log = Finished r s' log'" "length log + 1 = n"
  shows "length log' \<le> n \<and> n \<le> length log' + 1 \<and> (\<forall>m env. env n = e \<longrightarrow> last_send r (length log') m env)"
  using attempt_cases [where lim = lim and cfg = cfg and w = w and n = n and e = e and s = s and log = log] assms
  by (cases r; cases "projl r") auto

lemma dispatch_loop_sends:
  assumes "dispatch_loop lim cfg w n left env s log = (r, s', log')" "length log + 1 = n"
    "\<forall>k. 0 < k \<and> k < n \<longrightarrow> limited_send (env k)"
  shows "length log' \<le> n + left \<and> (\<forall>k. 0 < k \<and> k < length log' \<longrightarrow> limited_send (env k)) \<and>
    last_send r (length log') (n + left) env"
  using assms
proof (induction left arbitrary: n s log)
  case 0
  show ?case
  proof (cases "dispatch_attempt lim cfg w n (env n) s log")
    case (Finished r1 s1 log1)
    then show ?thesis using attempt_log [OF Finished 0(2)] 0 by (auto simp: dispatch_loop.simps)
  next
    case (Limited addr status d s1 log1)
    then show ?thesis using attempt_cases [where lim = lim and cfg = cfg and w = w and n = n and e = "env n" and s = s and log = log] 0 by (auto simp: dispatch_loop.simps)
  qed
next
  case (Suc left)
  show ?case
  proof (cases "dispatch_attempt lim cfg w n (env n) s log")
    case (Finished r1 s1 log1)
    then show ?thesis using attempt_log [OF Finished Suc.prems(2)] Suc.prems by (auto simp: dispatch_loop.simps [of _ _ _ _ "Suc left"])
  next
    case (Limited addr status d s1 log1)
    then have l: "length log1 = n" "limited_send (env n)" using attempt_cases [where lim = lim and cfg = cfg and w = w and n = n and e = "env n" and s = s and log = log] Suc.prems(2)
      by (auto simp: limited_send_def)
    have "dispatch_loop lim cfg w (n + 1) left env s1 log1 = (r, s', log')"
      using Suc.prems(1) Limited by (simp add: dispatch_loop.simps [of _ _ _ _ "Suc left"])
    moreover have "\<forall>k. 0 < k \<and> k < n + 1 \<longrightarrow> limited_send (env k)" using l(2) Suc.prems(3) by (auto simp: less_Suc_eq)
    ultimately show ?thesis using Suc.IH [of "n + 1" s1 log1] l(1) by simp
  qed
qed

text \<open>A block outlasts whatever the other tasks do, except a later block of the same client.\<close>

fun keeps_block :: "nat \<Rightarrow> nat \<Rightarrow> pool_op \<Rightarrow> bool" where
  "keeps_block i b (Reserve now w) \<longleftrightarrow> now < b"
| "keeps_block i b (Observe j hs) \<longleftrightarrow> True"
| "keeps_block i b (Block j now d) \<longleftrightarrow> j \<noteq> i"

lemma refresh_keeps_block: "blocked_until c = Some b \<Longrightarrow> now < b \<Longrightarrow> blocked_until (refresh now win c) = Some b"
  by (auto simp: refresh_def Let_def)

lemma reserve_keeps_block:
  assumes i: "i < length (clients s)" and b: "blocked_until (clients s ! i) = Some b" "now < b"
  shows "blocked_until (clients (snd (reserve_client lim cfg now w s)) ! i) = Some b"
    "fst (reserve_client lim cfg now w s) \<noteq> Inr (i, addr)"
proof -
  have ne: "clients s \<noteq> []" using i by auto
  have bi: "blocked_until (map (refresh now (window cfg)) (clients s) ! i) = Some b"
    using i refresh_keeps_block [OF b] by simp
  from ne have "blocked_until (clients (snd (reserve_client lim cfg now w s)) ! i) = Some b \<and>
      fst (reserve_client lim cfg now w s) \<noteq> Inr (i, addr)"
  proof (cases rule: reserve_client_cases [where now = now and cfg = cfg and w = w and lim = lim])
    case none
    then show ?thesis using bi by simp
  next
    case (some j)
    then have "j \<noteq> i" using bi by (auto simp: available_def)
    then show ?thesis using some(4) bi by simp
  qed
  then show "blocked_until (clients (snd (reserve_client lim cfg now w s)) ! i) = Some b"
    "fst (reserve_client lim cfg now w s) \<noteq> Inr (i, addr)" by blast+
qed

lemma others_keep_block:
  assumes "i < length (clients s)" "blocked_until (clients s ! i) = Some b" "list_all (keeps_block i b) evs"
  shows "blocked_until (clients (others lim cfg evs s) ! i) = Some b"
  using assms unfolding others_def
proof (induction evs arbitrary: s)
  case (Cons ev evs)
  have "blocked_until (clients s' ! i) = Some b \<and> i < length (clients s')" if "pool_step lim cfg ev s = Some s'" for s'
  proof (cases ev)
    case (Reserve now w)
    then show ?thesis using that Cons.prems reserve_keeps_block(1) [OF Cons.prems(1,2)] by (auto simp: pool_step_def)
  qed (use that Cons.prems in \<open>auto simp: pool_step_def update_observed_weight_def block_client_def nth_list_update
      split: option.splits if_splits\<close>)
  then show ?case using Cons by (auto split: option.splits)
qed simp

lemma reserve_succeeds_iff:
  assumes "clients s \<noteq> []"
  shows "(\<exists>r. fst (reserve_client lim cfg now w s) = Inr r) \<longleftrightarrow>
    (\<exists>c \<in> set (clients s). available cfg w (refresh now (window cfg) c))"
proof -
  have ne: "clients (s\<lparr>clients := map (refresh now (window cfg)) (clients s)\<rparr>) \<noteq> []" using assms by simp
  have all: "(\<forall>j < length (clients s). \<not> available cfg w (map (refresh now (window cfg)) (clients s) ! j)) \<longleftrightarrow>
      (\<forall>c \<in> set (clients s). \<not> available cfg w (refresh now (window cfg) c))"
    by (simp add: all_set_conv_all_nth)
  from assms show ?thesis
  proof (cases rule: reserve_client_cases [where now = now and cfg = cfg and w = w and lim = lim])
    case none
    then show ?thesis using select_client_None [OF ne, of cfg w] all by simp
  next
    case (some i)
    then have "\<exists>c \<in> set (clients s). available cfg w (refresh now (window cfg) c)" by (auto intro!: bexI [of _ "clients s ! i"])
    then show ?thesis using some(4) by simp
  qed
qed

lemma reserve_fails_state:
  assumes "reserve_client lim cfg now w s = (Inl e, s')" "clients s \<noteq> []"
  shows "clients s' = map (refresh now (window cfg)) (clients s)"
    "e = earliest_ready lim cfg now w (map (refresh now (window cfg)) (clients s))"
proof -
  have "clients s' = map (refresh now (window cfg)) (clients s) \<and>
    e = earliest_ready lim cfg now w (map (refresh now (window cfg)) (clients s))"
    using assms(2)
  proof (cases rule: reserve_client_cases [where now = now and cfg = cfg and w = w and lim = lim])
    case none
    then show ?thesis using assms(1) by simp
  next
    case (some i)
    then show ?thesis using assms(1) by simp
  qed
  then show "clients s' = map (refresh now (window cfg)) (clients s)"
    "e = earliest_ready lim cfg now w (map (refresh now (window cfg)) (clients s))" by blast+
qed

section \<open>Sample pool\<close>

definition sample_config :: dispatcher_config where
  "sample_config = default_config\<lparr>local_ips := [''10.0.0.1'', ''10.0.0.2''], max_weight_per_window := 10\<rparr>"

definition sample_pool :: pool_state where
  "sample_pool = \<lparr>clients = [\<lparr>ip = ''10.0.0.1'', used_weight = 0, window_started_at = 0, blocked_until = None\<rparr>,
     \<lparr>ip = ''10.0.0.2'', used_weight = 0, window_started_at = 0, blocked_until = None\<rparr>], next_tie_break = 0\<rparr>"

lemma sample_new: "dispatcher_new (\<lambda>_. None) (\<lambda>_. 0) sample_config = Inr sample_pool"
  by (simp add: dispatcher_new_def validate_config_def sample_config_def default_config_def sample_pool_def secs_def)

section \<open>Properties\<close>



text \<open>C32: selection. A reservation picks a client that is neither blocked nor too full; among those, one with the least
  used weight, and among equals the first after the round-robin position; it charges exactly that client and moves the
  position behind it. It fails exactly when no client qualifies.\<close>

theorem reserve_selects:
  assumes "clients s \<noteq> []"
  shows "let cs = map (refresh now (window cfg)) (clients s); len = length cs in
    (case reserve_client lim cfg now w s of
       (Inl _, s') \<Rightarrow> (\<forall>j < len. \<not> available cfg w (cs ! j)) \<and> clients s' = cs \<and> next_tie_break s' = next_tie_break s
     | (Inr (i, addr), s') \<Rightarrow>
         i < len \<and> available cfg w (cs ! i) \<and> addr = ip (cs ! i) \<and>
         (\<forall>j < len. available cfg w (cs ! j) \<longrightarrow> used_weight (cs ! i) < used_weight (cs ! j) \<or>
            used_weight (cs ! i) = used_weight (cs ! j) \<and>
            scan_distance (next_tie_break s) len i \<le> scan_distance (next_tie_break s) len j) \<and>
         clients s' = cs[i := (cs ! i)\<lparr>used_weight := saturating_add_u32 (used_weight (cs ! i)) w\<rparr>] \<and>
         next_tie_break s' = (i + 1) mod len)"
  using assms
proof (cases rule: reserve_client_cases [where now = now and cfg = cfg and w = w and lim = lim])
  case none
  have "clients (s\<lparr>clients := map (refresh now (window cfg)) (clients s)\<rparr>) \<noteq> []" using assms by simp
  from select_client_None [OF this, of cfg w] none show ?thesis by (simp add: Let_def)
next
  case (some i)
  have "clients (s\<lparr>clients := map (refresh now (window cfg)) (clients s)\<rparr>) \<noteq> []" using assms by simp
  from select_client_Some [OF this some(1)] some show ?thesis by (simp add: Let_def)
qed

theorem reserve_selects_witness:
  "case reserve_client 1000000000000 sample_config 5 7 (sample_pool\<lparr>next_tie_break := 1\<rparr>) of
     (Inl _, s') \<Rightarrow> next_tie_break s' = 1
   | (Inr (i, addr), s') \<Rightarrow> i < 2 \<and> next_tie_break s' = (i + 1) mod 2"
proof -
  let ?s = "sample_pool\<lparr>next_tie_break := 1\<rparr>"
  obtain r s' where rs: "reserve_client 1000000000000 sample_config 5 7 ?s = (r, s')" by fastforce
  have len: "length (map (refresh 5 (window sample_config)) (clients ?s)) = 2" by (simp add: sample_pool_def)
  have "clients ?s \<noteq> []" by (simp add: sample_pool_def)
  from reserve_selects [OF this, where now = 5 and cfg = sample_config and lim = 1000000000000 and w = 7] len
  show ?thesis unfolding rs Let_def by (auto split: sum.splits prod.splits)
qed

text \<open>C33: the reported waiting time is exact. When no client is available, a later reservation of the same weight, with
  nothing in between, succeeds after waiting exactly the reported time, and fails at every earlier instant.\<close>

theorem reserve_retry_exact:
  assumes "reserve_client lim cfg now w s = (Inl (NoAvailableIp (Some d)), s')"
    and "w \<le> max_weight_per_window cfg" "0 < window cfg"
  shows "(\<exists>r. fst (reserve_client lim cfg (now + d) w s') = Inr r) \<and>
    (\<forall>t. now \<le> t \<and> t < now + d \<longrightarrow> (\<exists>e. fst (reserve_client lim cfg t w s') = Inl e))"
proof -
  have ne: "clients s \<noteq> []"
  proof
    assume "clients s = []"
    then show False using assms(1) by (simp add: reserve_client_def)
  qed
  let ?cs = "map (refresh now (window cfg)) (clients s)"
  note F = reserve_fails_state [OF assms(1) ne]
  have ne': "clients s' \<noteq> []" using F(1) ne by simp
  have at: "available cfg w (refresh t (window cfg) c) \<longleftrightarrow> r \<le> t" "now \<le> r"
    if c: "c \<in> set ?cs" and r: "ready_at lim cfg now w c = Some r" and t: "now \<le> t" for t c r
  proof -
    obtain c0 where c0: "c = refresh now (window cfg) c0" using c by auto
    show "available cfg w (refresh t (window cfg) c) \<longleftrightarrow> r \<le> t" "now \<le> r"
      using available_at [OF assms(3,2) t r [unfolded c0]] unfolding c0 by blast+
  qed
  have E: "earliest_ready lim cfg now w ?cs = NoAvailableIp (Some d)" using F(2) by simp
  have "\<forall>c \<in> set ?cs. \<forall>r. ready_at lim cfg now w c = Some r \<longrightarrow> now \<le> r"
    by (intro ballI allI impI) (rule at(2) [OF _ _ order_refl])
  note R = earliest_ready_eq [OF E this]
  obtain c where c: "c \<in> set ?cs" "ready_at lim cfg now w c = Some (now + d)" using R(1) by (elim bexE)
  have "available cfg w (refresh (now + d) (window cfg) c)" using at(1) [OF c] by simp
  then have "\<exists>r. fst (reserve_client lim cfg (now + d) w s') = Inr r"
    unfolding reserve_succeeds_iff [OF ne'] F(1) using c(1) by blast
  moreover have "\<exists>e. fst (reserve_client lim cfg t w s') = Inl e" if t: "now \<le> t" "t < now + d" for t
  proof -
    have "\<not> available cfg w (refresh t (window cfg) c)" if c: "c \<in> set ?cs" for c
    proof -
      obtain q where "ready_at lim cfg now w c = Some q" "now + d \<le> q" using R(2) [OF c] by (elim exE conjE)
      then show ?thesis using at(1) [OF c _ t(1)] t(2) by simp
    qed
    then have "\<not> (\<exists>r. fst (reserve_client lim cfg t w s') = Inr r)"
      unfolding reserve_succeeds_iff [OF ne'] F(1) by blast
    then show ?thesis by (cases "fst (reserve_client lim cfg t w s')") auto
  qed
  ultimately show ?thesis by blast
qed

theorem reserve_retry_exact_witness:
  "\<exists>s'. reserve_client 1000000000000 sample_config 5 7
      (sample_pool\<lparr>clients := map (\<lambda>c. c\<lparr>blocked_until := Some 20\<rparr>) (clients sample_pool)\<rparr>) =
        (Inl (NoAvailableIp (Some 15)), s')
    \<and> (\<exists>r. fst (reserve_client 1000000000000 sample_config 20 7 s') = Inr r)"
proof -
  let ?s = "sample_pool\<lparr>clients := map (\<lambda>c. c\<lparr>blocked_until := Some 20\<rparr>) (clients sample_pool)\<rparr>"
  obtain s' where s': "reserve_client 1000000000000 sample_config 5 7 ?s = (Inl (NoAvailableIp (Some 15)), s')"
    by (simp add: sample_pool_def sample_config_def default_config_def secs_def reserve_client_def select_client_def Let_def
        scan_order_def refresh_def available_def earliest_ready_def ready_at_def fits_def saturating_add_u32_def)
  have "(7 :: 32 word) \<le> max_weight_per_window sample_config" "0 < window sample_config"
    by (simp_all add: sample_config_def default_config_def secs_def)
  from reserve_retry_exact [OF s' this] s' show ?thesis by simp
qed

text \<open>C34: retries. A dispatch sends at most one request more than the configured retries; every request but the last was
  answered 429 or 418; a transport error is returned at once and never retried; success reports the number of requests
  sent and a status that is neither 429 nor 418; and the rate-limited error is returned only when all attempts are used.\<close>

theorem dispatch_retries:
  shows "case dispatch lim cfg w env s of (r, s', log) \<Rightarrow>
    length log \<le> max_attempts cfg \<and>
    (\<forall>k. 0 < k \<and> k < length log \<longrightarrow> limited_send (env k)) \<and>
    last_send r (length log) (max_attempts cfg) env"
proof (cases "max_weight_per_window cfg < w")
  case True
  then show ?thesis by (simp add: dispatch_def)
next
  case False
  obtain r s' log where d: "dispatch lim cfg w env s = (r, s', log)" by (cases "dispatch lim cfg w env s")
  have m: "1 \<le> max_attempts cfg" by (simp add: max_attempts_def)
  from d False have "dispatch_loop lim cfg w 1 (max_attempts cfg - 1) env s [] = (r, s', log)" by (simp add: dispatch_def)
  from dispatch_loop_sends [OF this] m show ?thesis unfolding d by simp
qed

theorem dispatch_retries_witness:
  "case dispatch 1000000000000 sample_config 7 (\<lambda>_. \<lparr>before_reserve = [], reserve_now = 5, send_result = Responded 429 [],
      before_update = [], before_block = [], block_now = 6\<rparr>) sample_pool of (r, s', log) \<Rightarrow> length log \<le> 2"
proof -
  let ?env = "\<lambda>_ :: nat. \<lparr>before_reserve = [], reserve_now = 5, send_result = Responded 429 [],
      before_update = [], before_block = [], block_now = 6\<rparr>"
  have "max_attempts sample_config = 2" by (simp add: max_attempts_def sample_config_def default_config_def)
  then show ?thesis using dispatch_retries [where lim = 1000000000000 and cfg = sample_config and w = 7 and env = ?env and s = sample_pool]
    by (auto split: prod.splits)
qed

text \<open>a blocked source IP is left alone. After a client was blocked, and until the block ends, no reservation selects
  it, whatever other tasks reserve, observe, or block on other clients meanwhile; so a retry goes out on a different IP.\<close>

theorem blocked_not_selected:
  assumes "block_client lim i t d s = Some s'" "list_all (keeps_block i (t + d)) evs" "now < t + d"
  shows "fst (reserve_client lim cfg now w (others lim cfg evs s')) \<noteq> Inr (i, addr)"
proof -
  have i: "i < length (clients s')" "blocked_until (clients s' ! i) = Some (t + d)"
    using assms(1) by (auto simp: block_client_def instant_add_def split: if_splits)
  show ?thesis
    using reserve_keeps_block(2) [of i "others lim cfg evs s'"] others_keep_block [OF i assms(2)] i(1) assms(3) by simp
qed

theorem blocked_not_selected_witness:
  "\<exists>s'. block_client 1000000000000 0 5 10 sample_pool = Some s' \<and>
    fst (reserve_client 1000000000000 sample_config 9 7 (others 1000000000000 sample_config [Reserve 6 3] s')) \<noteq> Inr (0, ''10.0.0.1'')"
proof -
  obtain s' where b: "block_client 1000000000000 0 5 10 sample_pool = Some s'"
    by (simp add: block_client_def sample_pool_def instant_add_def)
  have "list_all (keeps_block 0 (5 + 10)) [Reserve 6 3]" by simp
  from blocked_not_selected [OF b this, of 9 sample_config 7] b show ?thesis by auto
qed

text \<open>A server can crash a dispatch. \<open>Retry-After\<close> is accepted up to the maximum of u64 seconds, and blocking a client
  adds it to the clock unchecked: when the sum is beyond the greatest instant, the task panics instead of returning an
  error, and the client is not blocked.\<close>

theorem huge_retry_after_panics:
  assumes "reserve_client lim cfg (reserve_now (env 1)) w s = (Inr (i, addr), s')" "clients s \<noteq> []"
    and "before_reserve (env 1) = []" "before_update (env 1) = []" "before_block (env 1) = []"
    and "send_result (env 1) = Responded 429 [(''retry-after'', ''18446744073709551615'')]"
    and "w \<le> max_weight_per_window cfg" "observed_weight_header cfg = None" "lim < secs (2 ^ 64 - 1)"
  shows "dispatch lim cfg w env s = (Inl DispatchPanic, s', [i])"
proof -
  have i: "i < length (clients s')"
    using reserve_selects [OF assms(2), where now = "reserve_now (env 1)" and cfg = cfg and lim = lim and w = w] assms(1)
    by (simp add: Let_def)
  have p: "retry_after [(''retry-after'', ''18446744073709551615'')] = Some (secs (2 ^ 64 - 1))"
    by (simp add: retry_after_def header_str_def str_trim_def is_ascii_space_def parse_unsigned_def strip_plus_def
        parse_digits_def is_ascii_digit_def digit_val_def)
  have "block_client lim i (block_now (env 1)) (secs (2 ^ 64 - 1)) s' = None"
    using assms(9) by (simp add: block_client_def instant_add_def)
  then show ?thesis using assms p
    by (simp add: dispatch_def dispatch_loop.simps dispatch_attempt_def others_def update_observed_weight_def
        observed_weight_def rate_limited_status_def retry_delay_def)
qed

theorem huge_retry_after_panics_witness:
  "\<exists>s1 i. dispatch 1000000000000 sample_config 7 (\<lambda>_. \<lparr>before_reserve = [], reserve_now = 5,
      send_result = Responded 429 [(''retry-after'', ''18446744073709551615'')], before_update = [], before_block = [],
      block_now = 6\<rparr>) sample_pool = (Inl DispatchPanic, s1, [i])"
proof -
  have ne: "clients sample_pool \<noteq> []" by (simp add: sample_pool_def)
  have "available sample_config 7 (refresh 5 (window sample_config) (clients sample_pool ! 0))"
    by (simp add: sample_pool_def sample_config_def default_config_def secs_def refresh_def available_def fits_def saturating_add_u32_def)
  then have "\<exists>r. fst (reserve_client 1000000000000 sample_config 5 7 sample_pool) = Inr r"
    unfolding reserve_succeeds_iff [OF ne] by (auto simp: sample_pool_def)
  then obtain i addr s1 where r: "reserve_client 1000000000000 sample_config 5 7 sample_pool = (Inr (i, addr), s1)"
    by (metis prod.collapse)
  show ?thesis
    using huge_retry_after_panics [where lim = 1000000000000 and cfg = sample_config and w = 7 and s = sample_pool
        and env = "\<lambda>_. \<lparr>before_reserve = [], reserve_now = 5,
          send_result = Responded 429 [(''retry-after'', ''18446744073709551615'')], before_update = [], before_block = [],
          block_now = 6\<rparr>" and i = i and addr = addr and s' = s1] r ne
    by (auto simp: sample_config_def default_config_def secs_def)
qed

end
