(* ===== verification/RestIpPool.thy ===== *)
theory RestIpPool
  imports Prelude
begin

text \<open>
  \<open>src/src/rest_ip_pool.rs\<close>: which source IPs a process may use for an exchange.  The two database tables
  are lists of rows; the query of the source is their filter.  The address parser of the standard library
  and the order of \<open>inet\<close> values in the database are the arguments \<open>parse_ip\<close> and \<open>rank\<close>.
\<close>

datatype ip_pool_error = Query string | InvalidIp string | NoEgressIp string

record egress_ip =
  eg_ip :: string
  eg_enabled :: bool

record egress_usage =
  usage_ip :: string
  usage_exchange :: string

definition egress_query :: "(string \<Rightarrow> nat) \<Rightarrow> egress_ip list \<Rightarrow> egress_usage list \<Rightarrow> string \<Rightarrow> string list" where
  "egress_query rank ips usages exchange =
     map eg_ip (sort_key (\<lambda>r. rank (eg_ip r))
       (filter (\<lambda>r. eg_enabled r \<and> \<not> list_ex (\<lambda>u. usage_ip u = eg_ip r \<and> usage_exchange u = exchange) usages) ips))"

fun parse_ips :: "(string \<Rightarrow> 'ip option) \<Rightarrow> string list \<Rightarrow> ip_pool_error + 'ip list" where
  "parse_ips parse_ip [] = Inr []"
| "parse_ips parse_ip (v # vs) =
     (case parse_ip v of
        None \<Rightarrow> Inl (InvalidIp v)
      | Some ip \<Rightarrow> bind_res (parse_ips parse_ip vs) (\<lambda>ips. Inr (ip # ips)))"

text \<open>\<open>rows\<close> answers the query for the normalised exchange name, or fails.\<close>

definition exchange_local_ips ::
  "(string \<Rightarrow> 'ip option) \<Rightarrow> (string \<Rightarrow> string list option) \<Rightarrow> string \<Rightarrow> ip_pool_error + 'ip list" where
  "exchange_local_ips parse_ip rows exchange0 =
     (let exchange = to_ascii_lowercase (str_trim exchange0)
      in case rows exchange of
           None \<Rightarrow> Inl (Query exchange)
         | Some vs \<Rightarrow>
             bind_res (parse_ips parse_ip vs) (\<lambda>ips.
               if ips = [] then Inl (NoEgressIp exchange) else Inr ips))"

definition configured_or_exchange_local_ips ::
  "(string \<Rightarrow> 'ip option) \<Rightarrow> (string \<Rightarrow> string list option) \<Rightarrow> string \<Rightarrow> 'ip list \<Rightarrow> ip_pool_error + 'ip list" where
  "configured_or_exchange_local_ips parse_ip rows exchange configured =
     (if configured = [] then exchange_local_ips parse_ip rows exchange else Inr configured)"

lemma parse_ips_Inr: "parse_ips parse_ip vs = Inr ips \<Longrightarrow> map parse_ip vs = map Some ips"
  by (induction vs arbitrary: ips) (auto simp: bind_res_Inr split: option.splits)

text \<open>exclusive source IPs. Without an explicit override the pool is never empty and holds, parsed, exactly the
  enabled addresses that no environment uses on this exchange, its name compared in lower case without surrounding
  blanks; addresses in use on other exchanges stay available.\<close>

theorem exchange_ips_exclusive:
  assumes "configured_or_exchange_local_ips parse_ip (\<lambda>ex. Some (egress_query rank ips usages ex)) exchange [] = Inr pool"
  shows "pool \<noteq> [] \<and> Some ` set pool = parse_ip ` {a. \<exists>r \<in> set ips. eg_ip r = a \<and> eg_enabled r \<and>
      (\<forall>u \<in> set usages. usage_ip u = a \<longrightarrow> usage_exchange u \<noteq> to_ascii_lowercase (str_trim exchange))}"
proof -
  let ?vs = "egress_query rank ips usages (to_ascii_lowercase (str_trim exchange))"
  have p: "parse_ips parse_ip ?vs = Inr pool" "pool \<noteq> []"
    using assms by (auto simp: configured_or_exchange_local_ips_def exchange_local_ips_def Let_def bind_res_Inr split: if_splits)
  have "Some ` set pool = set (map Some pool)" by simp
  also have "\<dots> = parse_ip ` set ?vs" using parse_ips_Inr [OF p(1)] by (metis set_map)
  also have "set ?vs = {a. \<exists>r \<in> set ips. eg_ip r = a \<and> eg_enabled r \<and>
      (\<forall>u \<in> set usages. usage_ip u = a \<longrightarrow> usage_exchange u \<noteq> to_ascii_lowercase (str_trim exchange))}"
    by (auto simp: egress_query_def list_ex_iff)
  finally show ?thesis using p(2) by simp
qed

theorem exchange_ips_exclusive_witness:
  "\<exists>pool. configured_or_exchange_local_ips Some
      (\<lambda>ex. Some (egress_query length [\<lparr>eg_ip = ''10.0.0.1'', eg_enabled = True\<rparr>, \<lparr>eg_ip = ''10.0.0.2'', eg_enabled = True\<rparr>]
        [\<lparr>usage_ip = ''10.0.0.1'', usage_exchange = ''gate''\<rparr>] ex)) '' Gate'' [] = Inr pool \<and> set pool = {''10.0.0.2''}"
proof -
  let ?ips = "[\<lparr>eg_ip = ''10.0.0.1'', eg_enabled = True\<rparr>, \<lparr>eg_ip = ''10.0.0.2'', eg_enabled = True\<rparr>]"
  let ?us = "[\<lparr>usage_ip = ''10.0.0.1'', usage_exchange = ''gate''\<rparr>]"
  have n: "to_ascii_lowercase (str_trim '' Gate'') = ''gate''" by code_simp
  obtain pool where p: "configured_or_exchange_local_ips Some (\<lambda>ex. Some (egress_query length ?ips ?us ex)) '' Gate'' [] = Inr pool"
    by (simp add: configured_or_exchange_local_ips_def exchange_local_ips_def Let_def n egress_query_def)
  have "pool \<noteq> [] \<and> Some ` set pool = Some ` {''10.0.0.2''}"
    using exchange_ips_exclusive [OF p] unfolding n by (auto simp: set_eq_iff image_iff)
  then have "set pool = {''10.0.0.2''}" by (metis inj_Some inj_image_eq_iff)
  then show ?thesis using p by blast
qed

end
