(* ===== verification/PnlState.thy ===== *)
theory PnlState
  imports FifoPnl QuantityFifoPnl
begin

text \<open>
  \<open>src/src/pnl.rs\<close>, first part: the sources of profit and loss, the events, and the state of one symbol
  (two venue engines, positions, fees, funding and interest) with its operations.  Counters of type u64 are
  natural numbers.  An anyhow error is the message of \<open>bail\<close>, or the error of an engine with its context.
\<close>

section \<open>Sources and events\<close>

definition day_ms :: int where "day_ms = 24 * 60 * 60 * 1000"
definition pnl_tick_interval_ms :: int where "pnl_tick_interval_ms = 15 * 60 * 1000"
definition year_ms :: f64 where "year_ms = Fin 365 * f64_of_int day_ms"
definition rolling_windows_ms :: "int list" where "rolling_windows_ms = [7 * day_ms, 30 * day_ms]"
definition stablecoins :: "string list" where "stablecoins = [''USDT'', ''USDC'', ''USD'']"

definition binance_intra_spot_maker_rebate_rate :: f64 where
  "binance_intra_spot_maker_rebate_rate = rnd (4 / 10) / Fin 10000"

datatype pnl_source_kind = Intra | FundingRate | MarketMaking | FuturesMarketMaking | Cta

definition for_strategy :: "string \<Rightarrow> string \<Rightarrow> string \<Rightarrow> pnl_source_kind option" where
  "for_strategy strategy_kind exchange account_mode =
     (if strategy_kind = ''intra_exchange'' \<and>
         (exchange = ''binance'' \<and> account_mode = ''usdm_futures'' \<or>
          exchange \<in> {''bybit'', ''gate''} \<and> account_mode = ''unified'') then Some Intra
      else if strategy_kind = ''funding_rate'' \<and>
         (exchange = ''binance'' \<and> account_mode = ''portfolio_margin'' \<or>
          exchange \<in> {''bybit'', ''gate'', ''bitget''} \<and> account_mode = ''unified'') then Some FundingRate
      else if strategy_kind = ''market_making'' \<and>
         (exchange = ''binance'' \<and> account_mode = ''usdm_futures'' \<or>
          exchange \<in> {''bybit'', ''gate'', ''okx''} \<and> account_mode = ''unified'') then Some MarketMaking
      else if strategy_kind = ''market_making'' \<and> exchange = ''binance'' \<and> account_mode = ''rapidx'' then Some FuturesMarketMaking
      else if strategy_kind = ''cta'' \<and> exchange = ''binance'' \<and> account_mode = ''usdm_futures'' then Some Cta
      else if strategy_kind = ''cta'' \<and> exchange = ''binance'' \<and> account_mode = ''rapidx'' then Some FundingRate
      else None)"

definition adapter_name :: "pnl_source_kind \<Rightarrow> string" where
  "adapter_name k =
     (case k of Intra \<Rightarrow> ''spot_swap_history_v1'' | FundingRate \<Rightarrow> ''spot_swap_history_v1''
      | MarketMaking \<Rightarrow> ''market_making_futures_v1'' | FuturesMarketMaking \<Rightarrow> ''market_making_futures_qty''
      | Cta \<Rightarrow> ''cta_futures_v1'')"

definition interest_included :: "pnl_source_kind \<Rightarrow> string \<Rightarrow> bool" where
  "interest_included k exchange \<longleftrightarrow>
     k = FundingRate \<and> exchange = ''binance'' \<or>
     k \<in> {Intra, FundingRate} \<and> exchange \<in> {''bybit'', ''gate''} \<or>
     k = FundingRate \<and> exchange = ''bitget''"

definition exposure :: "f64 \<Rightarrow> f64 \<Rightarrow> f64" where
  "exposure spot_position futures_position = spot_position + futures_position"

datatype position_leg = Spot | FuturesLeg

record normalized_trade =
  nt_symbol :: string
  nt_side :: side
  nt_leg :: position_leg
  nt_price :: f64
  nt_amount_u :: f64
  nt_quantity :: f64
  nt_fee_usdt :: "f64 option"
  nt_ts :: int

record funding_event =
  fe_symbol :: string
  fe_amount_usdt :: f64
  fe_ts :: int

record interest_event =
  ie_symbol :: string
  ie_cost_usdt :: "f64 option"
  ie_conversion_price :: "f64 option"
  ie_spot_quantity_delta :: f64
  ie_ts :: int

record initial_position =
  ip_symbol :: string
  ip_spot_quantity :: f64
  ip_futures_quantity :: f64
  ip_mark_price :: f64

datatype pnl_event = Trade normalized_trade | Funding funding_event | Interest interest_event

fun event_ts :: "pnl_event \<Rightarrow> int" where
  "event_ts (Trade v) = nt_ts v" | "event_ts (Funding v) = fe_ts v" | "event_ts (Interest v) = ie_ts v"

fun event_symbol :: "pnl_event \<Rightarrow> string" where
  "event_symbol (Trade v) = nt_symbol v" | "event_symbol (Funding v) = fe_symbol v" | "event_symbol (Interest v) = ie_symbol v"

fun event_rank :: "pnl_event \<Rightarrow> int" where
  "event_rank (Trade _) = 0" | "event_rank (Funding _) = 1" | "event_rank (Interest _) = 2"

text \<open>The comparison of \<open>events.sort_by\<close>, as a key of the stable sort.\<close>

definition event_order :: "pnl_event \<Rightarrow> int \<times> int \<times> string" where
  "event_order e = (event_ts e, event_rank e, event_symbol e)"

section \<open>Venue engines\<close>

record venue_pnl_snapshot =
  vs_gross_realized_pnl :: f64
  vs_cumulative_fees :: f64
  vs_realized_pnl :: f64
  vs_floating_pnl :: f64
  vs_total_pnl :: f64

definition default_venue_snapshot :: venue_pnl_snapshot where
  "default_venue_snapshot = \<lparr>vs_gross_realized_pnl = 0, vs_cumulative_fees = 0, vs_realized_pnl = 0, vs_floating_pnl = 0,
     vs_total_pnl = 0\<rparr>"

definition venue_of_pnl_snapshot :: "pnl_snapshot \<Rightarrow> venue_pnl_snapshot" where
  "venue_of_pnl_snapshot s = \<lparr>vs_gross_realized_pnl = ps_gross_realized_pnl s, vs_cumulative_fees = ps_cumulative_fees s,
     vs_realized_pnl = ps_realized_pnl s, vs_floating_pnl = ps_floating_pnl s, vs_total_pnl = ps_total_pnl s\<rparr>"

definition venue_of_quantity_snapshot :: "quantity_pnl_snapshot \<Rightarrow> venue_pnl_snapshot" where
  "venue_of_quantity_snapshot s = \<lparr>vs_gross_realized_pnl = qs_gross_realized_pnl s, vs_cumulative_fees = qs_cumulative_fees s,
     vs_realized_pnl = qs_realized_pnl s, vs_floating_pnl = qs_floating_pnl s, vs_total_pnl = qs_total_pnl s\<rparr>"

datatype venue_fifo = AmountU fifo_pnl | Quantity quantity_fifo_pnl

definition default_venue :: venue_fifo where
  "default_venue = AmountU fifo_new"

definition venue_for_source :: "pnl_source_kind \<Rightarrow> venue_fifo" where
  "venue_for_source k = (case k of MarketMaking \<Rightarrow> default_venue | _ \<Rightarrow> Quantity quantity_new)"

definition venue_apply_fill :: "side \<Rightarrow> f64 \<Rightarrow> f64 \<Rightarrow> f64 \<Rightarrow> f64 \<Rightarrow> venue_fifo \<Rightarrow> fifo_error + venue_fifo" where
  "venue_apply_fill sd price amount_u quantity fee v =
     (case v of
        AmountU fifo \<Rightarrow> bind_res (apply_fill sd price amount_u fee fifo) (\<lambda>(_, fifo'). Inr (AmountU fifo'))
      | Quantity fifo \<Rightarrow> bind_res (q_apply_fill sd price quantity fee fifo) (\<lambda>fifo'. Inr (Quantity fifo')))"

definition venue_snapshot :: "f64 \<Rightarrow> f64 \<Rightarrow> venue_fifo \<Rightarrow> fifo_error + venue_pnl_snapshot" where
  "venue_snapshot bid ask v =
     (case v of
        AmountU fifo \<Rightarrow> bind_res (snapshot bid ask fifo) (\<lambda>s. Inr (venue_of_pnl_snapshot s))
      | Quantity fifo \<Rightarrow> bind_res (q_snapshot bid ask fifo) (\<lambda>s. Inr (venue_of_quantity_snapshot s)))"

definition uses_quantity :: "venue_fifo \<Rightarrow> bool" where
  "uses_quantity v = (case v of AmountU _ \<Rightarrow> False | Quantity _ \<Rightarrow> True)"

section \<open>The state of a symbol\<close>

datatype pnl_error = Bail string | Fifo string fifo_error

definition context_err :: "string \<Rightarrow> fifo_error + 'a \<Rightarrow> pnl_error + 'a" where
  "context_err c r = (case r of Inl e \<Rightarrow> Inl (Fifo c e) | Inr x \<Rightarrow> Inr x)"

record symbol_state =
  spot_fifo :: venue_fifo
  futures_fifo :: venue_fifo
  funding_pnl_usdt :: f64
  interest_cost_usdt :: f64
  trade_count :: nat
  volume_usdt :: f64
  spot_position_qty :: f64
  futures_position_qty :: f64
  mark_price :: "f64 option"
  unconverted_fee_count :: nat
  unconverted_interest_count :: nat
  spot_snapshot :: "venue_pnl_snapshot option"
  futures_snapshot :: "venue_pnl_snapshot option"

definition symbol_for_source :: "pnl_source_kind \<Rightarrow> symbol_state" where
  "symbol_for_source k = \<lparr>spot_fifo = venue_for_source k, futures_fifo = venue_for_source k, funding_pnl_usdt = 0,
     interest_cost_usdt = 0, trade_count = 0, volume_usdt = 0, spot_position_qty = 0, futures_position_qty = 0,
     mark_price = None, unconverted_fee_count = 0, unconverted_interest_count = 0, spot_snapshot = None,
     futures_snapshot = None\<rparr>"

definition seed_fifo :: "f64 \<Rightarrow> f64 \<Rightarrow> venue_fifo \<Rightarrow> pnl_error + venue_fifo" where
  "seed_fifo quantity price v =
     (if \<not> is_finite quantity then Inl (Bail ''initial quantity must be finite'')
      else if \<bar>quantity\<bar> \<le> f64_epsilon then Inr v
      else context_err ''seed venue FIFO from initial snapshot''
        (venue_apply_fill (if 0 < quantity then Buy else Sell) price (\<bar>quantity\<bar> * price) \<bar>quantity\<bar> 0 v))"

definition mark_both :: "string \<Rightarrow> string \<Rightarrow> f64 \<Rightarrow> symbol_state \<Rightarrow> pnl_error + symbol_state" where
  "mark_both c1 c2 price s =
     bind_res (context_err c1 (venue_snapshot price price (spot_fifo s))) (\<lambda>sp.
     bind_res (context_err c2 (venue_snapshot price price (futures_fifo s))) (\<lambda>fu.
     Inr (s\<lparr>spot_snapshot := Some sp, futures_snapshot := Some fu\<rparr>)))"

definition seed_position :: "initial_position \<Rightarrow> symbol_state \<Rightarrow> pnl_error + symbol_state" where
  "seed_position p s =
     (if \<not> is_finite (ip_mark_price p) \<or> ip_mark_price p \<le> 0
      then Inl (Bail (''invalid initial mark price for '' @ ip_symbol p))
      else
        bind_res (seed_fifo (ip_spot_quantity p) (ip_mark_price p) (spot_fifo s)) (\<lambda>sp.
        bind_res (seed_fifo (ip_futures_quantity p) (ip_mark_price p) (futures_fifo s)) (\<lambda>fu.
        mark_both '''' '''' (ip_mark_price p)
          (s\<lparr>spot_fifo := sp, futures_fifo := fu, spot_position_qty := ip_spot_quantity p,
             futures_position_qty := ip_futures_quantity p, mark_price := Some (ip_mark_price p)\<rparr>))))"

definition apply_trade :: "normalized_trade \<Rightarrow> symbol_state \<Rightarrow> pnl_error + symbol_state" where
  "apply_trade t s0 =
     (let (s1, fee) = (case nt_fee_usdt t of
            Some f \<Rightarrow> (s0, f)
          | None \<Rightarrow> (s0\<lparr>unconverted_fee_count := unconverted_fee_count s0 + 1\<rparr>, 0));
          fifo = (case nt_leg t of Spot \<Rightarrow> spot_fifo s1 | FuturesLeg \<Rightarrow> futures_fifo s1)
      in bind_res (context_err ''apply normalized trade to venue FIFO''
           (venue_apply_fill (nt_side t) (nt_price t) (nt_amount_u t) (nt_quantity t) fee fifo)) (\<lambda>fifo'.
         let s2 = (case nt_leg t of Spot \<Rightarrow> s1\<lparr>spot_fifo := fifo'\<rparr> | FuturesLeg \<Rightarrow> s1\<lparr>futures_fifo := fifo'\<rparr>);
             s3 = s2\<lparr>trade_count := trade_count s2 + 1, volume_usdt := volume_usdt s2 + nt_amount_u t\<rparr>;
             signed_quantity = (case nt_side t of Buy \<Rightarrow> nt_quantity t | Sell \<Rightarrow> - nt_quantity t);
             s4 = (case nt_leg t of
                 Spot \<Rightarrow> s3\<lparr>spot_position_qty := spot_position_qty s3 + signed_quantity\<rparr>
               | FuturesLeg \<Rightarrow> s3\<lparr>futures_position_qty := futures_position_qty s3 + signed_quantity\<rparr>)
         in mark_both ''mark spot FIFO at the latest symbol trade price'' ''mark futures FIFO at the latest symbol trade price''
              (nt_price t) (s4\<lparr>mark_price := Some (nt_price t)\<rparr>)))"

definition charge_interest :: "interest_event \<Rightarrow> symbol_state \<Rightarrow> symbol_state" where
  "charge_interest i s =
     (case ie_cost_usdt i of
        Some cost \<Rightarrow> s\<lparr>interest_cost_usdt := interest_cost_usdt s + cost\<rparr>
      | None \<Rightarrow> s\<lparr>unconverted_interest_count := unconverted_interest_count s + 1\<rparr>)"

definition interest_price :: "interest_event \<Rightarrow> symbol_state \<Rightarrow> f64 option" where
  "interest_price i s =
     (case ie_conversion_price i of
        Some p \<Rightarrow> Some p
      | None \<Rightarrow>
          (case ie_cost_usdt i of
             Some cost \<Rightarrow> if is_finite cost \<and> 0 < cost then Some (cost / \<bar>ie_spot_quantity_delta i\<bar>) else mark_price s
           | None \<Rightarrow> mark_price s))"

definition apply_interest :: "interest_event \<Rightarrow> symbol_state \<Rightarrow> pnl_error + symbol_state" where
  "apply_interest i s =
     (let delta = ie_spot_quantity_delta i;
          finish = (\<lambda>s. Inr (charge_interest i (s\<lparr>spot_position_qty := spot_position_qty s + delta\<rparr>)))
      in if \<not> feq delta 0 \<and> uses_quantity (spot_fifo s)
         then (case interest_price i s of
                 None \<Rightarrow> Inr (charge_interest i s)
               | Some price \<Rightarrow>
                   bind_res (context_err ''apply spot quantity adjustment to venue FIFO''
                     (venue_apply_fill (if 0 < delta then Buy else Sell) price (\<bar>delta\<bar> * price) \<bar>delta\<bar> 0 (spot_fifo s))) (\<lambda>fifo.
                   bind_res (mark_both ''mark spot FIFO at the interest conversion price''
                       ''mark futures FIFO at the interest conversion price'' price
                       (s\<lparr>spot_fifo := fifo, mark_price := Some price\<rparr>)) finish))
         else finish s)"

definition apply_symbol_event :: "pnl_event \<Rightarrow> symbol_state \<Rightarrow> pnl_error + symbol_state" where
  "apply_symbol_event e s =
     (case e of
        Trade t \<Rightarrow> apply_trade t s
      | Funding f \<Rightarrow> Inr (s\<lparr>funding_pnl_usdt := funding_pnl_usdt s + fe_amount_usdt f\<rparr>)
      | Interest i \<Rightarrow> apply_interest i s)"

type_synonym symbol_states = "string \<rightharpoonup> symbol_state"

definition apply_event :: "pnl_event \<Rightarrow> symbol_states \<Rightarrow> pnl_error + symbol_states" where
  "apply_event e states =
     (case states (event_symbol e) of
        None \<Rightarrow> Inl (Bail ''PnL event symbol is missing from state map'')
      | Some s \<Rightarrow> bind_res (apply_symbol_event e s) (\<lambda>s'. Inr (states(event_symbol e \<mapsto> s'))))"

section \<open>Metrics\<close>

text \<open>Values below \<open>1e-12\<close> in magnitude are shown as zero.\<close>

definition clean_zero :: "f64 \<Rightarrow> f64" where
  "clean_zero value = (if \<bar>value\<bar> < rnd (1 / 10 ^ 12) then 0 else value)"

record metrics =
  m_trade_count :: nat
  m_volume_usdt :: f64
  m_fee_before_pnl_usdt :: f64
  m_trading_fee_usdt :: f64
  m_fee_after_pnl_usdt :: f64
  m_funding_pnl_usdt :: f64
  m_interest_cost_usdt :: f64
  m_floating_pnl_usdt :: f64
  m_total_pnl_usdt :: f64
  m_open_amount_usdt :: f64
  m_spot_position_usdt :: f64
  m_futures_position_usdt :: f64
  m_spot_position_qty :: f64
  m_futures_position_qty :: f64
  m_unconverted_fee_count :: nat
  m_unconverted_interest_count :: nat

definition default_metrics :: metrics where
  "default_metrics = \<lparr>m_trade_count = 0, m_volume_usdt = 0, m_fee_before_pnl_usdt = 0, m_trading_fee_usdt = 0,
     m_fee_after_pnl_usdt = 0, m_funding_pnl_usdt = 0, m_interest_cost_usdt = 0, m_floating_pnl_usdt = 0,
     m_total_pnl_usdt = 0, m_open_amount_usdt = 0, m_spot_position_usdt = 0, m_futures_position_usdt = 0,
     m_spot_position_qty = 0, m_futures_position_qty = 0, m_unconverted_fee_count = 0, m_unconverted_interest_count = 0\<rparr>"

definition or_default :: "'a \<Rightarrow> 'a option \<Rightarrow> 'a" where
  "or_default d x = (case x of None \<Rightarrow> d | Some v \<Rightarrow> v)"

definition symbol_metrics :: "symbol_state \<Rightarrow> metrics" where
  "symbol_metrics s =
     (let spot = or_default default_venue_snapshot (spot_snapshot s);
          futures = or_default default_venue_snapshot (futures_snapshot s);
          mark = or_default 0 (mark_price s);
          spot_position_usdt = spot_position_qty s * mark;
          futures_position_usdt = futures_position_qty s * mark
      in \<lparr>m_trade_count = trade_count s,
          m_volume_usdt = volume_usdt s,
          m_fee_before_pnl_usdt = vs_gross_realized_pnl spot + vs_gross_realized_pnl futures,
          m_trading_fee_usdt = vs_cumulative_fees spot + vs_cumulative_fees futures,
          m_fee_after_pnl_usdt = vs_realized_pnl spot + vs_realized_pnl futures,
          m_funding_pnl_usdt = funding_pnl_usdt s,
          m_interest_cost_usdt = interest_cost_usdt s,
          m_floating_pnl_usdt = vs_floating_pnl spot + vs_floating_pnl futures,
          m_total_pnl_usdt = vs_total_pnl spot + vs_total_pnl futures + funding_pnl_usdt s - interest_cost_usdt s,
          m_open_amount_usdt = clean_zero (spot_position_usdt + futures_position_usdt),
          m_spot_position_usdt = spot_position_usdt,
          m_futures_position_usdt = futures_position_usdt,
          m_spot_position_qty = spot_position_qty s,
          m_futures_position_qty = futures_position_qty s,
          m_unconverted_fee_count = unconverted_fee_count s,
          m_unconverted_interest_count = unconverted_interest_count s\<rparr>)"

record pnl_summary =
  su_trade_count :: nat
  su_volume_usdt :: f64
  su_fee_before_pnl_usdt :: f64
  su_trading_fee_usdt :: f64
  su_fee_after_pnl_usdt :: f64
  su_funding_pnl_usdt :: f64
  su_interest_cost_usdt :: f64
  su_floating_pnl_usdt :: f64
  su_total_pnl_usdt :: f64
  su_return_bps_on_volume :: f64
  su_open_amount_usdt :: f64
  su_unconverted_fee_count :: nat
  su_unconverted_interest_count :: nat

definition metrics_difference :: "metrics \<Rightarrow> metrics \<Rightarrow> pnl_summary" where
  "metrics_difference m b =
     (let volume = m_volume_usdt m - m_volume_usdt b;
          total = m_total_pnl_usdt m - m_total_pnl_usdt b
      in \<lparr>su_trade_count = m_trade_count m - m_trade_count b,
          su_volume_usdt = clean_zero volume,
          su_fee_before_pnl_usdt = clean_zero (m_fee_before_pnl_usdt m - m_fee_before_pnl_usdt b),
          su_trading_fee_usdt = clean_zero (m_trading_fee_usdt m - m_trading_fee_usdt b),
          su_fee_after_pnl_usdt = clean_zero (m_fee_after_pnl_usdt m - m_fee_after_pnl_usdt b),
          su_funding_pnl_usdt = clean_zero (m_funding_pnl_usdt m - m_funding_pnl_usdt b),
          su_interest_cost_usdt = clean_zero (m_interest_cost_usdt m - m_interest_cost_usdt b),
          su_floating_pnl_usdt = clean_zero (m_floating_pnl_usdt m - m_floating_pnl_usdt b),
          su_total_pnl_usdt = clean_zero total,
          su_return_bps_on_volume = (if f64_epsilon < \<bar>volume\<bar> then total / volume * Fin 10000 else 0),
          su_open_amount_usdt = clean_zero (m_open_amount_usdt m),
          su_unconverted_fee_count = m_unconverted_fee_count m - m_unconverted_fee_count b,
          su_unconverted_interest_count = m_unconverted_interest_count m - m_unconverted_interest_count b\<rparr>)"

section \<open>Positions and engines stay aligned\<close>

text \<open>One fill of a quantity engine on exact sizes.\<close>

lemma q_fill_exact:
  assumes "q_apply_fill sd price qty fee q = Inr q'" "quantity.good_state q" "units_book g (quantity_book q)" "unit_exp g"
    and "is_f64 price" "is_f64 qty" "is_f64 fee" "units g (qval qty)" "gross_size (quantity_book q) + qval qty \<le> max_units g"
  shows "quantity.good_state q' \<and> units_book g (quantity_book q') \<and> 0 < qval qty \<and> qty = Fin (qval qty) \<and>
    gross_size (quantity_book q') \<le> gross_size (quantity_book q) + qval qty \<and>
    net_size (quantity_book q') = net_size (quantity_book q) + (case sd of Buy \<Rightarrow> qval qty | Sell \<Rightarrow> - qval qty)"
proof -
  let ?x = "\<lparr>fill_side = sd, fill_price = price, fill_size = qty, fill_fee = fee\<rparr>"
  have f: "quantity_fill ?x q = Inr q'" using assms(1) by (simp add: quantity_fill_def)
  have v: "valid_fill ?x" and b: "quantity_book q' = book_step quantity_gain ?x (quantity_book q)"
    using quantity.fill_Inr [OF f] by auto
  have ff: "f64_fill ?x" using assms(5,6,7) by (simp add: f64_fill_def)
  have wf: "wf_book (quantity_book q)" using assms(2) by (simp add: quantity.good_state_def)
  have E: "units_book g (quantity_book q') \<and> net_size (quantity_book q') = net_size (quantity_book q) + signed_size ?x
      \<and> gross_size (quantity_book q') \<le> gross_size (quantity_book q) + qval (fill_size ?x)"
    unfolding b by (rule book_step_exact [OF wf v ff assms(4,3)]) (use assms in simp_all)
  have "0 < qval qty \<and> qty = Fin (qval qty)" using v by (auto simp: valid_fill_def is_finite_iff)
  then show ?thesis using E quantity.fill_good [OF assms(2) ff f] by (auto simp: signed_size_def split: side.splits)
qed

text \<open>A symbol of a quantity source: both positions are what the lots of their engine net to.\<close>

definition leg_ok :: "int \<Rightarrow> rat \<Rightarrow> venue_fifo \<Rightarrow> f64 \<Rightarrow> bool" where
  "leg_ok g b v position \<longleftrightarrow> (\<exists>q. v = Quantity q \<and> quantity.good_state q \<and> units_book g (quantity_book q) \<and>
     gross_size (quantity_book q) \<le> b \<and> position = Fin (net_size (quantity_book q)))"

definition aligned :: "int \<Rightarrow> rat \<Rightarrow> symbol_state \<Rightarrow> bool" where
  "aligned g b s \<longleftrightarrow> leg_ok g b (spot_fifo s) (spot_position_qty s) \<and> leg_ok g b (futures_fifo s) (futures_position_qty s) \<and>
     (\<forall>p. mark_price s = Some p \<longrightarrow> is_f64 p)"

lemma gross_nonneg: "wf_book b \<Longrightarrow> 0 \<le> gross_size b" "wf_book b \<Longrightarrow> \<bar>net_size b\<bar> \<le> gross_size b"
  using lots_total_nonneg [of "fst b"] lots_total_nonneg [of "snd b"]
  by (auto simp: wf_book_def gross_size_def net_size_def abs_le_iff)

lemma net_units: "units_book g b \<Longrightarrow> units g (net_size b)"
  by (simp add: units_book_def net_size_def lots_total_units)

lemma leg_ok_fill:
  assumes "leg_ok g b v pos" "venue_apply_fill sd price amount qty fee v = Inr v'" "unit_exp g"
    and "is_f64 price" "is_f64 qty" "is_f64 fee" "units g (qval qty)" "b + qval qty \<le> max_units g"
  shows "leg_ok g (b + qval qty) v' (pos + (case sd of Buy \<Rightarrow> qty | Sell \<Rightarrow> - qty))"
proof -
  obtain q where q: "v = Quantity q" "quantity.good_state q" "units_book g (quantity_book q)"
    "gross_size (quantity_book q) \<le> b" "pos = Fin (net_size (quantity_book q))"
    using assms(1) by (auto simp: leg_ok_def)
  obtain q' where q': "q_apply_fill sd price qty fee q = Inr q'" "v' = Quantity q'"
    using assms(2) q(1) by (auto simp: venue_apply_fill_def bind_res_Inr)
  have "gross_size (quantity_book q) + qval qty \<le> max_units g" using q(4) assms(8) by linarith
  from q_fill_exact [OF q'(1) q(2,3) assms(3-7) this]
  have E: "quantity.good_state q'" "units_book g (quantity_book q')" "0 < qval qty" "qty = Fin (qval qty)"
    "gross_size (quantity_book q') \<le> b + qval qty"
    "net_size (quantity_book q') = net_size (quantity_book q) + (case sd of Buy \<Rightarrow> qval qty | Sell \<Rightarrow> - qval qty)"
    using q(4) by auto
  have "wf_book (quantity_book q')" using E(1) by (simp add: quantity.good_state_def)
  then have "\<bar>net_size (quantity_book q')\<bar> \<le> max_units g" using gross_nonneg(2) E(5) assms(8) by (meson order_trans)
  then have "rnd (net_size (quantity_book q')) = Fin (net_size (quantity_book q'))"
    using rnd_units [OF assms(3) net_units [OF E(2)]] by simp
  moreover have "pos + (case sd of Buy \<Rightarrow> qty | Sell \<Rightarrow> - qty) = rnd (net_size (quantity_book q'))"
  proof -
    obtain z where z: "qty = Fin z" using E(4) by blast
    show ?thesis using q(5) E(6) unfolding z by (cases sd) simp_all
  qed
  ultimately show ?thesis using E q'(2) by (auto simp: leg_ok_def)
qed

lemma leg_ok_mono: "leg_ok g b v pos \<Longrightarrow> b \<le> b' \<Longrightarrow> leg_ok g b' v pos"
  by (force simp: leg_ok_def)

lemma mark_both_fields:
  assumes "mark_both c1 c2 p s = Inr s'"
  shows "spot_fifo s' = spot_fifo s" "futures_fifo s' = futures_fifo s" "spot_position_qty s' = spot_position_qty s"
    "futures_position_qty s' = futures_position_qty s" "mark_price s' = mark_price s"
  using assms by (auto simp: mark_both_def bind_res_Inr)

lemma charge_interest_fields [simp]: "spot_fifo (charge_interest i s) = spot_fifo s" "futures_fifo (charge_interest i s) = futures_fifo s"
  "spot_position_qty (charge_interest i s) = spot_position_qty s"
  "futures_position_qty (charge_interest i s) = futures_position_qty s" "mark_price (charge_interest i s) = mark_price s"
  by (simp_all add: charge_interest_def split: option.splits)

lemma context_err_Inr [simp]: "context_err c r = Inr x \<longleftrightarrow> r = Inr x"
  by (cases r) (auto simp: context_err_def)

text \<open>Events on exact sizes, and the size each adds.\<close>

fun exact_event :: "int \<Rightarrow> pnl_event \<Rightarrow> bool" where
  "exact_event g (Trade t) \<longleftrightarrow> is_f64 (nt_price t) \<and> is_f64 (nt_quantity t) \<and> units g (qval (nt_quantity t)) \<and>
     (\<forall>fee. nt_fee_usdt t = Some fee \<longrightarrow> is_f64 fee)"
| "exact_event g (Funding f) \<longleftrightarrow> True"
| "exact_event g (Interest i) \<longleftrightarrow> is_f64 (ie_spot_quantity_delta i) \<and> is_finite (ie_spot_quantity_delta i) \<and>
     units g (qval (ie_spot_quantity_delta i)) \<and> (\<forall>p. ie_conversion_price i = Some p \<longrightarrow> is_f64 p)"

fun event_size :: "pnl_event \<Rightarrow> rat" where
  "event_size (Trade t) = \<bar>qval (nt_quantity t)\<bar>"
| "event_size (Funding f) = 0"
| "event_size (Interest i) = \<bar>qval (ie_spot_quantity_delta i)\<bar>"

lemma aligned_trade:
  assumes "aligned g b s" "apply_trade t s = Inr s'" "unit_exp g" "exact_event g (Trade t)" "b + event_size (Trade t) \<le> max_units g"
  shows "aligned g (b + event_size (Trade t)) s'"
proof -
  obtain s1 fee where s1: "(case nt_fee_usdt t of Some f \<Rightarrow> (s, f)
          | None \<Rightarrow> (s\<lparr>unconverted_fee_count := unconverted_fee_count s + 1\<rparr>, 0)) = (s1, fee)"
    and same: "spot_fifo s1 = spot_fifo s" "futures_fifo s1 = futures_fifo s" "spot_position_qty s1 = spot_position_qty s"
      "futures_position_qty s1 = futures_position_qty s"
    by (cases "nt_fee_usdt t") auto
  have le: "qval (nt_quantity t) \<le> event_size (Trade t)" by simp
  have sz: "b + qval (nt_quantity t) \<le> max_units g" using assms(5) le by linarith
  have ex: "is_f64 (nt_price t)" "is_f64 (nt_quantity t)" "is_f64 fee" "units g (qval (nt_quantity t))"
    using assms(4) s1 by (auto simp: zero_f64_def split: option.splits)
  have a: "leg_ok g b (spot_fifo s) (spot_position_qty s)" "leg_ok g b (futures_fifo s) (futures_position_qty s)"
    using assms(1) by (simp_all add: aligned_def)
  note up = leg_ok_mono [of g b _ _ "b + event_size (Trade t)"] leg_ok_mono [of g "b + qval (nt_quantity t)" _ _ "b + event_size (Trade t)"]
  show ?thesis
  proof (cases "nt_leg t")
    case Spot
    obtain v' s2 where v': "venue_apply_fill (nt_side t) (nt_price t) (nt_amount_u t) (nt_quantity t) fee (spot_fifo s) = Inr v'"
      and m: "mark_both ''mark spot FIFO at the latest symbol trade price'' ''mark futures FIFO at the latest symbol trade price''
          (nt_price t) s2 = Inr s'"
      and s2: "spot_fifo s2 = v'" "futures_fifo s2 = futures_fifo s" "mark_price s2 = Some (nt_price t)"
        "spot_position_qty s2 = spot_position_qty s + (case nt_side t of Buy \<Rightarrow> nt_quantity t | Sell \<Rightarrow> - nt_quantity t)"
        "futures_position_qty s2 = futures_position_qty s"
      using assms(2) Spot s1 same by (auto simp: apply_trade_def Let_def bind_res_Inr split: prod.splits)
    from leg_ok_fill [OF a(1) v' assms(3) ex sz] show ?thesis
      using a(2) up le ex(1) s2 mark_both_fields [OF m] by (simp add: aligned_def)
  next
    case FuturesLeg
    obtain v' s2 where v': "venue_apply_fill (nt_side t) (nt_price t) (nt_amount_u t) (nt_quantity t) fee (futures_fifo s) = Inr v'"
      and m: "mark_both ''mark spot FIFO at the latest symbol trade price'' ''mark futures FIFO at the latest symbol trade price''
          (nt_price t) s2 = Inr s'"
      and s2: "futures_fifo s2 = v'" "spot_fifo s2 = spot_fifo s" "mark_price s2 = Some (nt_price t)"
        "futures_position_qty s2 = futures_position_qty s + (case nt_side t of Buy \<Rightarrow> nt_quantity t | Sell \<Rightarrow> - nt_quantity t)"
        "spot_position_qty s2 = spot_position_qty s"
      using assms(2) FuturesLeg s1 same by (auto simp: apply_trade_def Let_def bind_res_Inr split: prod.splits)
    from leg_ok_fill [OF a(2) v' assms(3) ex sz] show ?thesis
      using a(1) up le ex(1) s2 mark_both_fields [OF m] by (simp add: aligned_def)
  qed
qed

lemma abs_side: "is_f64 (Fin d) \<Longrightarrow> (case (if 0 < Fin d then Buy else Sell) of Buy \<Rightarrow> \<bar>Fin d\<bar> | Sell \<Rightarrow> - \<bar>Fin d\<bar>) = Fin d"
  by auto

lemma is_f64_abs [simp]: "is_f64 (Fin d) \<Longrightarrow> is_f64 (Fin \<bar>d\<bar>)"
  using is_f64_uminus [of "Fin d"] by (auto simp: abs_if)

lemma units_abs [simp]: "units g d \<Longrightarrow> units g \<bar>d\<bar>"
  by (auto simp: abs_if)

lemma aligned_interest:
  assumes "aligned g b s" "apply_interest i s = Inr s'" "unit_exp g" "exact_event g (Interest i)"
    "b + event_size (Interest i) \<le> max_units g"
  shows "aligned g (b + event_size (Interest i)) s'"
proof -
  obtain d where d: "ie_spot_quantity_delta i = Fin d" "is_f64 (Fin d)" "units g d" using assms(4) by (auto simp: is_finite_iff)
  have a: "leg_ok g b (spot_fifo s) (spot_position_qty s)" "leg_ok g b (futures_fifo s) (futures_position_qty s)"
    "uses_quantity (spot_fifo s)" using assms(1) by (auto simp: aligned_def leg_ok_def uses_quantity_def)
  have mp: "\<And>p. mark_price s = Some p \<Longrightarrow> is_f64 p" using assms(1) by (simp add: aligned_def)
  have sz: "event_size (Interest i) = \<bar>d\<bar>" using d by simp
  consider "d = 0" | "d \<noteq> 0" "interest_price i s = None" | p where "d \<noteq> 0" "interest_price i s = Some p" by blast
  then show ?thesis
  proof cases
    case 1
    obtain n where n: "spot_position_qty s = Fin n" "rnd n = Fin n"
    proof -
      obtain q where q: "quantity.good_state q" "units_book g (quantity_book q)" "gross_size (quantity_book q) \<le> b"
        "spot_position_qty s = Fin (net_size (quantity_book q))" using a(1) by (auto simp: leg_ok_def)
      have "\<bar>net_size (quantity_book q)\<bar> \<le> max_units g"
        using gross_nonneg(2) [of "quantity_book q"] q(1,3) assms(5) sz by (simp add: quantity.good_state_def)
      then show ?thesis using that q(4) rnd_units [OF assms(3) net_units [OF q(2)]] by blast
    qed
    then show ?thesis using assms(1,2) 1 d by (simp add: apply_interest_def Let_def) (auto simp: aligned_def)
  next
    case 2
    then show ?thesis using assms(1,2) d a(3) leg_ok_mono [OF a(1), of "b + \<bar>d\<bar>"] leg_ok_mono [OF a(2), of "b + \<bar>d\<bar>"]
      by (auto simp: apply_interest_def Let_def aligned_def)
  next
    case 3
    have fp: "is_f64 p" using 3(2) assms(4) mp by (auto simp: interest_price_def split: option.splits if_splits)
    let ?sd = "if 0 < Fin d then Buy else Sell"
    obtain v' s2 where v': "venue_apply_fill ?sd p (\<bar>Fin d\<bar> * p) \<bar>Fin d\<bar> 0 (spot_fifo s) = Inr v'"
      and m: "mark_both ''mark spot FIFO at the interest conversion price''
           ''mark futures FIFO at the interest conversion price'' p (s\<lparr>spot_fifo := v', mark_price := Some p\<rparr>) = Inr s2"
      and s': "s' = charge_interest i (s2\<lparr>spot_position_qty := spot_position_qty s2 + Fin d\<rparr>)"
      using assms(2) 3 d a(3) by (auto simp: apply_interest_def Let_def bind_res_Inr split: if_splits)
    have "leg_ok g (b + qval \<bar>Fin d\<bar>) v' (spot_position_qty s + (case ?sd of Buy \<Rightarrow> \<bar>Fin d\<bar> | Sell \<Rightarrow> - \<bar>Fin d\<bar>))"
      by (rule leg_ok_fill [OF a(1) v' assms(3) fp]) (use d is_f64_abs [OF d(2)] assms(5) sz in \<open>simp_all add: zero_f64_def\<close>)
    then have "leg_ok g (b + \<bar>d\<bar>) v' (spot_position_qty s + Fin d)" unfolding abs_side [OF d(2)] by simp
    then show ?thesis using s' mark_both_fields [OF m] leg_ok_mono [OF a(2), of "b + \<bar>d\<bar>"] fp sz by (simp add: aligned_def)
  qed
qed

lemma aligned_events:
  assumes "aligned g b s" "fold_res apply_symbol_event es s = Inr s'" "unit_exp g" "list_all (exact_event g) es"
    "b + sum_list (map event_size es) \<le> max_units g"
  shows "aligned g (b + sum_list (map event_size es)) s'"
  using assms
proof (induction es arbitrary: b s)
  case (Cons e es)
  then obtain s1 where s1: "apply_symbol_event e s = Inr s1" "fold_res apply_symbol_event es s1 = Inr s'"
    by (auto simp: bind_res_Inr)
  have nn: "0 \<le> sum_list (map event_size es)" "0 \<le> event_size e"
    by (auto intro!: sum_list_nonneg) (metis abs_ge_zero event_size.elims order_refl)+
  have b: "b + event_size e \<le> max_units g" using Cons.prems(5) nn by simp
  have "aligned g (b + event_size e) s1"
  proof (cases e)
    case (Trade t)
    then show ?thesis using aligned_trade [OF Cons.prems(1) _ Cons.prems(3), of t s1] s1 Cons.prems(4) b
      by (simp add: apply_symbol_event_def)
  next
    case (Funding f)
    then show ?thesis using s1 Cons.prems(1) by (auto simp: apply_symbol_event_def aligned_def)
  next
    case (Interest i)
    then show ?thesis using aligned_interest [OF Cons.prems(1) _ Cons.prems(3), of i s1] s1 Cons.prems(4) b
      by (simp add: apply_symbol_event_def)
  qed
  from Cons.IH [OF this s1(2) Cons.prems(3)] Cons.prems(4,5) show ?case by (simp add: add.assoc)
qed simp

lemma aligned_start: "k \<noteq> MarketMaking \<Longrightarrow> aligned g 0 (symbol_for_source k)"
  by (cases k) (auto simp: aligned_def leg_ok_def symbol_for_source_def venue_for_source_def zero_f64_def
      quantity_book_def quantity_new_def units_book_def gross_size_def net_size_def units_lots_def quantity.good_state_def
      wf_book_def one_sided_def)


text \<open>An opening balance: its quantities are zero or above the threshold under which a leg is left
  unseeded.\<close>

definition exact_position :: "int \<Rightarrow> initial_position \<Rightarrow> bool" where
  "exact_position g p \<longleftrightarrow> is_f64 (ip_mark_price p) \<and>
     (\<forall>q\<in>{ip_spot_quantity p, ip_futures_quantity p}. is_f64 q \<and> units g (qval q) \<and> (q = 0 \<or> f64_epsilon < \<bar>q\<bar>))"

definition position_size :: "initial_position \<Rightarrow> rat" where
  "position_size p = \<bar>qval (ip_spot_quantity p)\<bar> + \<bar>qval (ip_futures_quantity p)\<bar>"

lemma less_not_le_f64: "x < y \<Longrightarrow> \<not> y \<le> (x :: f64)"
  by (cases x rule: f64_cases3; cases y rule: f64_cases3) auto

lemma seed_leg:
  assumes "leg_ok g 0 v 0" "seed_fifo quantity price v = Inr v'" "unit_exp g" "is_f64 price"
    and "is_f64 quantity" "units g (qval quantity)" "quantity = 0 \<or> f64_epsilon < \<bar>quantity\<bar>"
    and "\<bar>qval quantity\<bar> \<le> max_units g"
  shows "leg_ok g \<bar>qval quantity\<bar> v' quantity"
proof -
  obtain d where d: "quantity = Fin d" "is_f64 (Fin d)"
    using assms(2,5) by (auto simp: seed_fifo_def is_finite_iff split: if_splits)
  show ?thesis
  proof (cases "quantity = 0")
    case True
    have "(0::f64) \<le> f64_epsilon" by (simp add: f64_epsilon_eq)
    then have "v' = v" using assms(2) True by (simp add: seed_fifo_def zero_f64_def)
    then show ?thesis using assms(1) True by (simp add: zero_f64_def)
  next
    case False
    then have n: "\<not> \<bar>quantity\<bar> \<le> f64_epsilon" using assms(7) less_not_le_f64 by blast
    let ?sd = "if 0 < Fin d then Buy else Sell"
    have v': "venue_apply_fill ?sd price (\<bar>Fin d\<bar> * price) \<bar>Fin d\<bar> 0 v = Inr v'"
      using assms(2) n d(1) by (simp add: seed_fifo_def split: if_splits)
    have "leg_ok g (0 + qval \<bar>Fin d\<bar>) v' (0 + (case ?sd of Buy \<Rightarrow> \<bar>Fin d\<bar> | Sell \<Rightarrow> - \<bar>Fin d\<bar>))"
      by (rule leg_ok_fill [OF assms(1) v' assms(3,4)])
        (use d is_f64_abs [OF d(2)] assms(6,8) in \<open>simp_all add: zero_f64_def\<close>)
    then show ?thesis unfolding abs_side [OF d(2)] using d by simp
  qed
qed

lemma aligned_seed:
  assumes "k \<noteq> MarketMaking" "seed_position p (symbol_for_source k) = Inr s" "unit_exp g" "exact_position g p"
    and "position_size p \<le> max_units g"
  shows "aligned g (position_size p) s"
proof -
  let ?s = "symbol_for_source k" and ?m = "ip_mark_price p"
  have "aligned g 0 ?s" using assms(1) by (rule aligned_start)
  then have a: "leg_ok g 0 (spot_fifo ?s) 0" "leg_ok g 0 (futures_fifo ?s) 0"
    by (simp_all add: aligned_def symbol_for_source_def)
  obtain sp fu where sd: "seed_fifo (ip_spot_quantity p) ?m (spot_fifo ?s) = Inr sp"
      "seed_fifo (ip_futures_quantity p) ?m (futures_fifo ?s) = Inr fu"
    and m: "mark_both '''' '''' ?m (?s\<lparr>spot_fifo := sp, futures_fifo := fu, spot_position_qty := ip_spot_quantity p,
             futures_position_qty := ip_futures_quantity p, mark_price := Some ?m\<rparr>) = Inr s"
    using assms(2) by (auto simp: seed_position_def bind_res_Inr split: if_splits)
  have x: "is_f64 ?m" "is_f64 (ip_spot_quantity p)" "units g (qval (ip_spot_quantity p))"
    "ip_spot_quantity p = 0 \<or> f64_epsilon < \<bar>ip_spot_quantity p\<bar>" "is_f64 (ip_futures_quantity p)"
    "units g (qval (ip_futures_quantity p))" "ip_futures_quantity p = 0 \<or> f64_epsilon < \<bar>ip_futures_quantity p\<bar>"
    using assms(4) by (auto simp: exact_position_def)
  have b: "\<bar>qval (ip_spot_quantity p)\<bar> \<le> max_units g" "\<bar>qval (ip_futures_quantity p)\<bar> \<le> max_units g"
    using assms(5) by (auto simp: position_size_def)
  note l = seed_leg [OF a(1) sd(1) assms(3) x(1-4) b(1)] seed_leg [OF a(2) sd(2) assms(3) x(1,5-7) b(2)]
  show ?thesis using leg_ok_mono [OF l(1), of "position_size p"] leg_ok_mono [OF l(2), of "position_size p"]
      mark_both_fields [OF m] x(1) by (simp add: aligned_def position_size_def)
qed

section \<open>The symbols of a replay do not interact\<close>

lemma apply_event_dom: "apply_event e states = Inr states' \<Longrightarrow> dom states' = dom states"
  by (fastforce simp: apply_event_def bind_res_Inr split: option.splits if_splits)

lemma replay_symbol:
  assumes "fold_res apply_event es states = Inr states'" "states k = Some s"
  shows "\<exists>s'. states' k = Some s' \<and> fold_res apply_symbol_event (filter (\<lambda>e. event_symbol e = k) es) s = Inr s'"
  using assms
proof (induction es arbitrary: states s)
  case (Cons e es)
  then obtain st where st: "apply_event e states = Inr st" "fold_res apply_event es st = Inr states'"
    by (auto simp: bind_res_Inr)
  show ?case
  proof (cases "event_symbol e = k")
    case True
    then obtain s1 where "apply_symbol_event e s = Inr s1" "st k = Some s1"
      using st(1) Cons.prems(2) by (auto simp: apply_event_def bind_res_Inr split: option.splits)
    then show ?thesis using Cons.IH [OF st(2)] True by simp
  next
    case False
    then have "st k = Some s"
      using st(1) Cons.prems(2) by (auto simp: apply_event_def bind_res_Inr split: option.splits)
    then show ?thesis using Cons.IH [OF st(2)] False by simp
  qed
qed simp

lemma replay_missing: "fold_res apply_event es states = Inr states' \<Longrightarrow> e \<in> set es \<Longrightarrow> event_symbol e \<in> dom states"
proof (induction es arbitrary: states)
  case (Cons e' es)
  then obtain st where st: "apply_event e' states = Inr st" "fold_res apply_event es st = Inr states'"
    by (auto simp: bind_res_Inr)
  show ?case
  proof (cases "e = e'")
    case True
    then show ?thesis using st(1) by (auto simp: apply_event_def split: option.splits)
  next
    case False
    then show ?thesis using Cons.IH [OF st(2)] Cons.prems(2) apply_event_dom [OF st(1)] by simp
  qed
qed simp

end
