(* ===== verification/PnlSeries.thy ===== *)
theory PnlSeries
  imports PnlState
begin

text \<open>
  \<open>src/src/pnl.rs\<close>, second part: the points of a PnL chart and what is done with them, namely appending,
  resampling on a fixed grid, thinning out without losing extrema, and drawdown and rolling returns.
  Timestamps are i64 values as integers; the saturating operations of the source saturate here.  Lengths and
  indices of usize are natural numbers.
\<close>

section \<open>Points\<close>

record pnl_point =
  pp_ts :: int
  pp_fee_before_pnl_usdt :: f64
  pp_fee_after_pnl_usdt :: f64
  pp_funding_pnl_usdt :: f64
  pp_interest_cost_usdt :: f64
  pp_floating_pnl_usdt :: f64
  pp_total_pnl_usdt :: f64
  pp_spot_position_usdt :: f64
  pp_futures_position_usdt :: f64
  pp_exposure_usdt :: f64
  pp_spot_position_qty :: f64
  pp_futures_position_qty :: f64
  pp_exposure_qty :: f64

definition default_point :: "int \<Rightarrow> pnl_point" where
  "default_point ts = \<lparr>pp_ts = ts, pp_fee_before_pnl_usdt = 0, pp_fee_after_pnl_usdt = 0, pp_funding_pnl_usdt = 0,
     pp_interest_cost_usdt = 0, pp_floating_pnl_usdt = 0, pp_total_pnl_usdt = 0, pp_spot_position_usdt = 0,
     pp_futures_position_usdt = 0, pp_exposure_usdt = 0, pp_spot_position_qty = 0, pp_futures_position_qty = 0,
     pp_exposure_qty = 0\<rparr>"

definition push_or_replace_point :: "pnl_point list \<Rightarrow> pnl_point \<Rightarrow> pnl_point list" where
  "push_or_replace_point points point =
     (if points \<noteq> [] \<and> pp_ts (last points) = pp_ts point then butlast points @ [point] else points @ [point])"

section \<open>Resampling\<close>

text \<open>The closure \<open>push_at\<close> captures the source index and the current point.\<close>

type_synonym cursor = "nat \<times> pnl_point"

function advance :: "pnl_point list \<Rightarrow> int \<Rightarrow> cursor \<Rightarrow> cursor" where
  "advance points ts (source_index, current) =
     (if source_index + 1 < length points \<and> pp_ts (points ! (source_index + 1)) \<le> ts
      then advance points ts (source_index + 1, points ! (source_index + 1))
      else (source_index, current))"
  by pat_completeness auto
termination by (relation "measure (\<lambda>(points, ts, i, c). length points - i)") auto

declare advance.simps [simp del]

definition push_at :: "pnl_point list \<Rightarrow> int \<Rightarrow> cursor \<times> pnl_point list \<Rightarrow> cursor \<times> pnl_point list" where
  "push_at points ts = (\<lambda>(c, sampled).
     let (source_index, current) = advance points ts c; current = current\<lparr>pp_ts := ts\<rparr>
     in ((source_index, current), sampled @ [current]))"

text \<open>The loop over the ticks ends because a tick that saturates is the last one: an i64 tick moves towards
  the bound its interval points at, and any other tick becomes an i64 first.\<close>

function tick_loop :: "pnl_point list \<Rightarrow> int \<Rightarrow> int \<Rightarrow> int \<Rightarrow> cursor \<times> pnl_point list \<Rightarrow> cursor \<times> pnl_point list" where
  "tick_loop points end_ms interval_ms tick_ms st =
     (if tick_ms < end_ms
      then let st = push_at points tick_ms st; next_tick_ms = saturating_add_i64 tick_ms interval_ms
           in if next_tick_ms = tick_ms then st else tick_loop points end_ms interval_ms next_tick_ms st
      else st)"
  by pat_completeness auto
termination
  by (relation "measures [\<lambda>(points, e, iv, tick, st). if is_i64 tick then 0 else 1,
      \<lambda>(points, e, iv, tick, st). if 0 \<le> iv then nat (i64_max - tick) else nat (tick - i64_min)]")
    (auto simp: saturating_add_i64_def clamp_i64_def is_i64_def i64_max_def i64_min_def min_def max_def split: if_splits)

declare tick_loop.simps [simp del]

definition first_tick :: "int \<Rightarrow> int \<Rightarrow> int" where
  "first_tick start_ms interval_ms = saturating_mul_i64 (saturating_add_i64 (start_ms div interval_ms) 1) interval_ms"

definition resample_fixed_interval :: "pnl_point list \<Rightarrow> int \<Rightarrow> int \<Rightarrow> int \<Rightarrow> pnl_point list" where
  "resample_fixed_interval points start_ms end_ms interval_ms =
     (if points = [] \<or> interval_ms \<le> 0 \<or> end_ms < start_ms then points
      else let st = push_at points start_ms ((0, points ! 0), []);
               st = tick_loop points end_ms interval_ms (first_tick start_ms interval_ms) st;
               st = (if start_ms < end_ms then push_at points end_ms st else st)
           in snd st)"

section \<open>Downsampling\<close>

text \<open>\<open>Iterator::min_by\<close> keeps the first of equal elements and \<open>max_by\<close> the last.\<close>

definition value_cmp :: "('a \<Rightarrow> f64) \<Rightarrow> 'a \<Rightarrow> 'a \<Rightarrow> int" where
  "value_cmp value l r = or_default 0 (fpartial_cmp (value l) (value r))"

fun min_by :: "('a \<Rightarrow> 'a \<Rightarrow> int) \<Rightarrow> 'a list \<Rightarrow> 'a option" where
  "min_by cmp [] = None"
| "min_by cmp (x # xs) = Some (foldl (\<lambda>m y. if 0 < cmp m y then y else m) x xs)"

fun max_by :: "('a \<Rightarrow> 'a \<Rightarrow> int) \<Rightarrow> 'a list \<Rightarrow> 'a option" where
  "max_by cmp [] = None"
| "max_by cmp (x # xs) = Some (foldl (\<lambda>m y. if 0 < cmp m y then m else y) x xs)"

text \<open>\<open>slice::chunks\<close>; the source never calls it with a chunk size of zero.\<close>

function chunks :: "nat \<Rightarrow> 'a list \<Rightarrow> 'a list list" where
  "chunks n xs = (if xs = [] \<or> n = 0 then [] else take n xs # chunks n (drop n xs))"
  by pat_completeness auto
termination by (relation "measure (\<lambda>(n, xs). length xs)") auto

declare chunks.simps [simp del]

definition div_ceil :: "nat \<Rightarrow> nat \<Rightarrow> nat" where
  "div_ceil a b = (if a mod b = 0 then a div b else a div b + 1)"

definition value_selectors :: "(pnl_point \<Rightarrow> f64) list" where
  "value_selectors = [pp_total_pnl_usdt, pp_spot_position_usdt, pp_futures_position_usdt, pp_exposure_usdt]"

definition selector_extrema :: "pnl_point list \<Rightarrow> (pnl_point \<Rightarrow> f64) \<Rightarrow> pnl_point list" where
  "selector_extrema bucket value =
     (case min_by (value_cmp value) bucket of Some p \<Rightarrow> [p] | None \<Rightarrow> []) @
     (case max_by (value_cmp value) bucket of Some p \<Rightarrow> [p] | None \<Rightarrow> [])"

definition bucket_extrema :: "pnl_point list \<Rightarrow> pnl_point list" where
  "bucket_extrema bucket = dedup_key pp_ts (sort_key pp_ts (concat (map (selector_extrema bucket) value_selectors)))"

definition downsample_extrema :: "pnl_point list \<Rightarrow> nat \<Rightarrow> pnl_point list" where
  "downsample_extrema points max_points =
     (if length points \<le> max_points \<or> max_points < 10 then points
      else let interior = butlast (tl points);
               bucket_count = max ((max_points - 2) div (length value_selectors * 2)) 1;
               bucket_size = div_ceil (length interior) bucket_count
           in [points ! 0] @ concat (map bucket_extrema (chunks bucket_size interior)) @ [last points])"

section \<open>Drawdown and rolling returns\<close>

record rolling_window_pnl =
  rw_window_ms :: int
  rw_covered_ms :: int
  rw_pnl_usdt :: f64
  rw_annualized_return :: "f64 option"

record pnl_performance =
  pf_principal_usdt :: "f64 option"
  pf_rolling_7d :: "rolling_window_pnl option"
  pf_rolling_30d :: "rolling_window_pnl option"
  pf_max_drawdown_usdt :: f64
  pf_max_drawdown_ratio :: "f64 option"
  pf_current_drawdown_usdt :: f64
  pf_current_drawdown_ratio :: "f64 option"

definition filter_option :: "('a \<Rightarrow> bool) \<Rightarrow> 'a option \<Rightarrow> 'a option" where
  "filter_option f x = (case x of None \<Rightarrow> None | Some v \<Rightarrow> if f v then Some v else None)"

definition usable_principal :: "f64 option \<Rightarrow> f64 option" where
  "usable_principal = filter_option (\<lambda>value. is_finite value \<and> 0 < value)"

text \<open>One iteration of the drawdown loop over \<open>peak_relative\<close>, \<open>max_drawdown_usdt\<close> and \<open>max_drawdown_ratio\<close>.\<close>

definition drawdown_step :: "f64 option \<Rightarrow> f64 \<Rightarrow> f64 \<times> f64 \<times> f64 \<Rightarrow> pnl_point \<Rightarrow> f64 \<times> f64 \<times> f64" where
  "drawdown_step princ end_relative = (\<lambda>(peak, max_usdt, max_ratio) point.
     let peak = fmax peak (pp_total_pnl_usdt point);
         drawdown = peak - pp_total_pnl_usdt point;
         max_usdt = fmax max_usdt drawdown
     in (peak, max_usdt,
         case princ of
           None \<Rightarrow> max_ratio
         | Some princ \<Rightarrow>
             let peak_nav = princ + peak - end_relative
             in if 0 < peak_nav then fmax max_ratio (drawdown / peak_nav) else max_ratio))"

definition last_total :: "pnl_point list \<Rightarrow> f64" where
  "last_total points = (if points = [] then 0 else pp_total_pnl_usdt (last points))"

definition drawdown :: "f64 option \<Rightarrow> pnl_point list \<Rightarrow> f64 \<times> f64 \<times> f64" where
  "drawdown princ points = foldl (drawdown_step princ (last_total points)) (Inf True, 0, 0) points"

definition rolling :: "int \<Rightarrow> int \<Rightarrow> f64 option \<Rightarrow> (int \<times> f64) list \<Rightarrow> f64 \<Rightarrow> int \<Rightarrow> rolling_window_pnl option" where
  "rolling strategy_start_ms end_ms princ boundary_pnl end_total_pnl window_ms =
     (let boundary = end_ms - window_ms;
          covered_ms = end_ms - max boundary strategy_start_ms
      in if covered_ms \<le> 0 then None
         else case (if strategy_start_ms \<le> boundary
                    then map_option snd (find (\<lambda>(ts, _). ts = boundary) boundary_pnl) else Some 0) of
             None \<Rightarrow> None
           | Some base_pnl \<Rightarrow>
               let pnl = clean_zero (end_total_pnl - base_pnl)
               in Some \<lparr>rw_window_ms = window_ms, rw_covered_ms = covered_ms, rw_pnl_usdt = pnl,
                    rw_annualized_return = filter_option is_finite
                      (map_option (\<lambda>princ. pnl / princ * (year_ms / f64_of_int covered_ms)) princ)\<rparr>)"

definition build_performance :: "int \<Rightarrow> int \<Rightarrow> f64 option \<Rightarrow> pnl_point list \<Rightarrow> (int \<times> f64) list \<Rightarrow> f64 \<Rightarrow> pnl_performance" where
  "build_performance strategy_start_ms end_ms principal_usdt points boundary_pnl end_total_pnl =
     (let princ = usable_principal principal_usdt;
          end_relative = last_total points;
          (peak, max_usdt, max_ratio) = drawdown princ points;
          current = fmax (peak - end_relative) 0;
          current_ratio = (case princ of
              None \<Rightarrow> None
            | Some princ \<Rightarrow>
                let peak_nav = princ + peak - end_relative
                in if 0 < peak_nav then Some (current / peak_nav) else None);
          window = rolling strategy_start_ms end_ms princ boundary_pnl end_total_pnl
      in \<lparr>pf_principal_usdt = princ,
          pf_rolling_7d = window (rolling_windows_ms ! 0),
          pf_rolling_30d = window (rolling_windows_ms ! 1),
          pf_max_drawdown_usdt = clean_zero max_usdt,
          pf_max_drawdown_ratio = map_option (\<lambda>_. clean_zero max_ratio) princ,
          pf_current_drawdown_usdt = clean_zero current,
          pf_current_drawdown_ratio = map_option clean_zero current_ratio\<rparr>)"

section \<open>The resampled series\<close>

text \<open>The point a sample comes from: the last one that is not later than the sample, or the first point.\<close>

definition sample_of :: "pnl_point list \<Rightarrow> pnl_point \<Rightarrow> bool" where
  "sample_of points p \<longleftrightarrow> (\<exists>j < length points. p = (points ! j)\<lparr>pp_ts := pp_ts p\<rparr> \<and>
     (j = 0 \<or> pp_ts (points ! j) \<le> pp_ts p) \<and> (\<forall>i < length points. pp_ts (points ! i) \<le> pp_ts p \<longrightarrow> i \<le> j))"

definition cursor_ok :: "pnl_point list \<Rightarrow> int \<Rightarrow> cursor \<Rightarrow> bool" where
  "cursor_ok points t c \<longleftrightarrow> fst c < length points \<and> (\<exists>u. snd c = (points ! fst c)\<lparr>pp_ts := u\<rparr>) \<and>
     (fst c = 0 \<or> pp_ts (points ! fst c) \<le> t)"

definition series_ok :: "pnl_point list \<Rightarrow> int \<Rightarrow> cursor \<times> pnl_point list \<Rightarrow> bool" where
  "series_ok points t st \<longleftrightarrow> cursor_ok points t (fst st) \<and> sorted_wrt (<) (map pp_ts (snd st)) \<and>
     (\<forall>p \<in> set (snd st). pp_ts p \<le> t \<and> sample_of points p)"

lemma advance_ok:
  assumes "cursor_ok points t c" "t \<le> ts" "advance points ts c = c'"
  shows "cursor_ok points ts c' \<and> (fst c' + 1 < length points \<longrightarrow> ts < pp_ts (points ! (fst c' + 1)))"
  using assms
proof (induction points ts c arbitrary: t rule: advance.induct)
  case (1 points ts i cur)
  show ?case
  proof (cases "i + 1 < length points \<and> pp_ts (points ! (i + 1)) \<le> ts")
    case True
    have "cursor_ok points ts (i + 1, points ! (i + 1))"
      unfolding cursor_ok_def fst_conv snd_conv
      using True by (intro conjI exI [of _ "pp_ts (points ! (i + 1))"]) auto
    from "1.IH" [OF True this] 1(4) True show ?thesis by (simp add: advance.simps [of points ts i])
  next
    case False
    then show ?thesis using 1(2-4) by (auto simp: advance.simps [of points ts i] cursor_ok_def)
  qed
qed

lemma push_at_ok:
  assumes "series_ok points t st" "t < ts" "sorted (map pp_ts points)"
  shows "series_ok points ts (push_at points ts st) \<and>
    pp_ts ` set (snd (push_at points ts st)) = insert ts (pp_ts ` set (snd st))"
proof -
  obtain c sampled where st: "st = (c, sampled)" by (cases st)
  obtain j cur where a: "advance points ts c = (j, cur)" by (cases "advance points ts c")
  have c: "cursor_ok points t c" using assms(1) st by (simp add: series_ok_def)
  have "cursor_ok points ts (j, cur) \<and> (j + 1 < length points \<longrightarrow> ts < pp_ts (points ! (j + 1)))"
    using advance_ok [OF c _ a] assms(2) by simp
  then obtain u where k: "j < length points" "cur = (points ! j)\<lparr>pp_ts := u\<rparr>" "j = 0 \<or> pp_ts (points ! j) \<le> ts"
    "j + 1 < length points \<longrightarrow> ts < pp_ts (points ! (j + 1))" by (auto simp: cursor_ok_def)
  have "i \<le> j" if "i < length points" "pp_ts (points ! i) \<le> ts" for i
  proof (rule ccontr)
    assume "\<not> i \<le> j"
    then have "j + 1 \<le> i" by simp
    then have "pp_ts (points ! (j + 1)) \<le> pp_ts (points ! i)"
      using sorted_nth_mono [OF assms(3), of "j + 1" i] that by simp
    then show False using k(4) that \<open>j + 1 \<le> i\<close> by simp
  qed
  then have "sample_of points (cur\<lparr>pp_ts := ts\<rparr>)" using k by (auto simp: sample_of_def)
  moreover have "cursor_ok points ts (j, cur\<lparr>pp_ts := ts\<rparr>)" using k by (auto simp: cursor_ok_def)
  ultimately show ?thesis using assms(1,2) st a
    by (fastforce simp: series_ok_def push_at_def Let_def sorted_wrt_append)
qed

lemma tick_loop_ok:
  assumes "series_ok points t st" "t < tick_ms" "is_i64 tick_ms" "is_i64 end_ms" "0 < interval_ms"
    "sorted (map pp_ts points)" "tick_loop points end_ms interval_ms tick_ms st = st'"
  shows "\<exists>t' \<ge> t. series_ok points t' st' \<and> (t' = t \<or> t' < end_ms) \<and>
    pp_ts ` set (snd st') = pp_ts ` set (snd st) \<union> {u. tick_ms \<le> u \<and> u < end_ms \<and> interval_ms dvd (u - tick_ms)}"
  using assms
proof (induction points end_ms interval_ms tick_ms st arbitrary: t rule: tick_loop.induct)
  case (1 points end_ms iv tick st)
  show ?case
  proof (cases "tick < end_ms")
    case False
    then show ?thesis using "1.prems" by (auto simp: tick_loop.simps [of points])
  next
    case True
    define nx where "nx = saturating_add_i64 tick iv"
    have nx: "nx = min i64_max (tick + iv)" "tick < nx" "is_i64 nx"
      using "1.prems"(3-5) True by (auto simp: nx_def saturating_add_i64_def clamp_i64_def is_i64_def i64_max_def i64_min_def)
    note p = push_at_ok [OF "1.prems"(1,2,6)]
    have st': "tick_loop points end_ms iv nx (push_at points tick st) = st'"
      using "1.prems"(7) True nx(2) by (simp add: tick_loop.simps [of points _ _ tick] Let_def nx_def [symmetric])
    have "\<exists>t' \<ge> tick. series_ok points t' st' \<and> (t' = tick \<or> t' < end_ms) \<and>
      pp_ts ` set (snd st') = pp_ts ` set (snd (push_at points tick st)) \<union> {u. nx \<le> u \<and> u < end_ms \<and> iv dvd (u - nx)}"
      by (rule "1.IH" [OF True refl nx_def _ _ nx(2,3) "1.prems"(4,5,6) st']) (use p nx(2) in auto)
    then obtain t' where t': "tick \<le> t'" "series_ok points t' st'" "t' = tick \<or> t' < end_ms"
      "pp_ts ` set (snd st') = pp_ts ` set (snd (push_at points tick st)) \<union> {u. nx \<le> u \<and> u < end_ms \<and> iv dvd (u - nx)}"
      by blast
    moreover have "{u. tick \<le> u \<and> u < end_ms \<and> iv dvd (u - tick)} = insert tick {u. nx \<le> u \<and> u < end_ms \<and> iv dvd (u - nx)}"
    proof (intro set_eqI iffI)
      fix u assume u: "u \<in> {u. tick \<le> u \<and> u < end_ms \<and> iv dvd (u - tick)}"
      show "u \<in> insert tick {u. nx \<le> u \<and> u < end_ms \<and> iv dvd (u - nx)}"
      proof (cases "u = tick")
        case False
        then have "iv \<le> u - tick" using u by (intro zdvd_imp_le) auto
        moreover from this have "nx = tick + iv" using nx(1) u "1.prems"(4) by (auto simp: is_i64_def)
        moreover have "iv dvd (u - tick - iv)" using dvd_diff [of iv "u - tick" iv] u by simp
        ultimately show ?thesis using u by (simp add: algebra_simps)
      qed simp
    next
      fix u assume u: "u \<in> insert tick {u. nx \<le> u \<and> u < end_ms \<and> iv dvd (u - nx)}"
      show "u \<in> {u. tick \<le> u \<and> u < end_ms \<and> iv dvd (u - tick)}"
      proof (cases "u = tick")
        case False
        then have "nx = tick + iv" using u nx(1) "1.prems"(4) by (auto simp: is_i64_def)
        moreover have "iv dvd (u - nx + iv)" using dvd_add [of iv "u - nx" iv] u False by simp
        ultimately show ?thesis using u False nx(2) by (auto simp: algebra_simps)
      qed (use True in simp)
    qed
    ultimately show ?thesis using p "1.prems"(2) True by (intro exI [of _ t']) auto
  qed
qed

lemma first_tick:
  assumes "is_i64 start_ms" "is_i64 end_ms" "0 < interval_ms"
  shows "is_i64 (first_tick start_ms interval_ms)" "start_ms \<le> first_tick start_ms interval_ms"
    "start_ms < end_ms \<Longrightarrow> start_ms < first_tick start_ms interval_ms"
    and "{t. first_tick start_ms interval_ms \<le> t \<and> t < end_ms \<and> interval_ms dvd (t - first_tick start_ms interval_ms)} =
      {t. start_ms < t \<and> t < end_ms \<and> interval_ms dvd t}"
proof -
  let ?q = "start_ms div interval_ms" and ?f = "first_tick start_ms interval_ms"
  let ?n = "(?q + 1) * interval_ms"
  show i: "is_i64 ?f" by (simp add: first_tick_def saturating_mul_i64_def clamp_i64_def is_i64_def i64_min_def i64_max_def)
  have q: "?q * interval_ms \<le> start_ms" "start_ms < ?n"
    using assms(3) pos_mod_bound [of interval_ms start_ms] pos_mod_sign [of interval_ms start_ms]
      div_mult_mod_eq [of start_ms interval_ms] distrib_right [of ?q 1 interval_ms] by linarith+
  have lo: "i64_min \<le> ?q"
  proof (rule ccontr)
    assume n: "\<not> i64_min \<le> ?q"
    then have "?n \<le> (?q + 1) * 1" using assms(3) by (intro mult_left_mono_neg) (auto simp: i64_min_def)
    then show False using n q(2) assms(1) by (auto simp: is_i64_def)
  qed
  have hi: "?q \<le> i64_max"
  proof (rule ccontr)
    assume n: "\<not> ?q \<le> i64_max"
    then have "?q * 1 \<le> ?q * interval_ms" using assms(3) by (intro mult_left_mono) (auto simp: i64_max_def)
    then show False using n q(1) assms(1) by (auto simp: is_i64_def)
  qed
  have f: "?f = min i64_max ?n \<or> i64_max \<le> start_ms \<and> ?f = i64_max"
  proof (cases "?q = i64_max")
    case True
    then have "i64_max * 1 \<le> i64_max * interval_ms" using assms(3) by (intro mult_left_mono) (auto simp: i64_max_def)
    then show ?thesis using True q(1)
      by (simp add: first_tick_def saturating_mul_i64_def saturating_add_i64_def clamp_i64_def i64_min_def i64_max_def)
  next
    case False
    then have "saturating_add_i64 ?q 1 = ?q + 1" using lo hi by (simp add: saturating_add_i64_def clamp_i64_def)
    then show ?thesis using q(2) assms(1) by (auto simp: first_tick_def saturating_mul_i64_def clamp_i64_def is_i64_def)
  qed
  show "start_ms \<le> ?f" using f q(2) assms(1) by (auto simp: is_i64_def)
  show "start_ms < end_ms \<Longrightarrow> start_ms < ?f" using f q(2) assms(2) by (auto simp: is_i64_def)
  have m: "?n \<le> t" if lt: "start_ms < t" and dv: "interval_ms dvd t" for t
  proof -
    obtain k where k: "t = k * interval_ms" using dv by (metis dvd_def mult.commute)
    then have "?q * interval_ms < k * interval_ms" using lt q(1) by simp
    then have "?q + 1 \<le> k" using assms(3) by simp
    then show ?thesis unfolding k using assms(3) by (intro mult_right_mono) auto
  qed
  show "{t. ?f \<le> t \<and> t < end_ms \<and> interval_ms dvd (t - ?f)} = {t. start_ms < t \<and> t < end_ms \<and> interval_ms dvd t}"
  proof (cases "?f = ?n")
    case True
    have d: "interval_ms dvd (t - ?n) \<longleftrightarrow> interval_ms dvd t" for t
      by (metis diff_add_cancel dvd_add_left_iff dvd_triv_right)
    show ?thesis unfolding True d using m q(2) by force
  next
    case False
    then have b: "?f = i64_max" "i64_max < ?n \<or> i64_max \<le> start_ms" using f False by (auto simp: min_def split: if_splits)
    have "t < end_ms \<and> start_ms < t \<and> interval_ms dvd t \<Longrightarrow> False" for t
      using m [of t] b(2) assms(2) by (auto simp: is_i64_def)
    then show ?thesis using b(1) assms(2) by (auto simp: is_i64_def)
  qed
qed

lemma resample_spec:
  assumes "points \<noteq> []" "sorted (map pp_ts points)" "0 < interval_ms" "start_ms \<le> end_ms" "is_i64 start_ms" "is_i64 end_ms"
  shows "let out = resample_fixed_interval points start_ms end_ms interval_ms
    in sorted_wrt (<) (map pp_ts out) \<and>
       pp_ts ` set out = {start_ms, end_ms} \<union> {t. start_ms < t \<and> t < end_ms \<and> interval_ms dvd t} \<and>
       list_all (sample_of points) out"
proof -
  let ?f = "first_tick start_ms interval_ms"
  define s1 where "s1 = push_at points start_ms ((0, points ! 0), [])"
  define s2 where "s2 = tick_loop points end_ms interval_ms ?f s1"
  have s0: "series_ok points (start_ms - 1) ((0, points ! 0), [])"
    using assms(1) by (auto simp: series_ok_def cursor_ok_def intro!: exI [of _ "pp_ts (points ! 0)"])
  have s1: "series_ok points start_ms s1" "pp_ts ` set (snd s1) = {start_ms}"
    using push_at_ok [OF s0 _ assms(2), of start_ms] by (auto simp: s1_def)
  show ?thesis
  proof (cases "start_ms < end_ms")
    case True
    note ft = first_tick [OF assms(5,6,3)]
    obtain t' where t': "series_ok points t' s2" "t' < end_ms"
      "pp_ts ` set (snd s2) = {start_ms} \<union> {t. start_ms < t \<and> t < end_ms \<and> interval_ms dvd t}"
      using tick_loop_ok [OF s1(1) ft(3) [OF True] ft(1) assms(6,3,2) s2_def [symmetric]] True s1(2) ft(4) by auto
    from push_at_ok [OF t'(1,2) assms(2)] show ?thesis
      using assms(1,3) True t'(3)
      by (auto simp: resample_fixed_interval_def Let_def s1_def [symmetric] s2_def [symmetric] series_ok_def list_all_iff)
  next
    case False
    then have "start_ms = end_ms" using assms(4) by simp
    moreover have "\<not> ?f < start_ms" using first_tick(2) [OF assms(5,6,3)] by simp
    ultimately have "resample_fixed_interval points start_ms end_ms interval_ms = snd s1"
      using assms(1,3) by (simp add: resample_fixed_interval_def Let_def s1_def tick_loop.simps)
    then show ?thesis using s1 \<open>start_ms = end_ms\<close> by (auto simp: series_ok_def list_all_iff)
  qed
qed

text \<open>The resampled series of a chart has exactly one point at the start, at every multiple of the
  interval strictly between start and end, and at the end, in strictly increasing order, and each point
  carries the values of the last original point that is not later.\<close>

theorem resample_grid:
  assumes "points \<noteq> []" "sorted (map pp_ts points)" "0 < interval_ms" "start_ms \<le> end_ms" "is_i64 start_ms" "is_i64 end_ms"
  shows "let out = resample_fixed_interval points start_ms end_ms interval_ms
    in sorted_wrt (<) (map pp_ts out) \<and>
       pp_ts ` set out = {start_ms, end_ms} \<union> {t. start_ms < t \<and> t < end_ms \<and> interval_ms dvd t} \<and>
       list_all (sample_of points) out"
  using assms by (rule resample_spec)

lemma resample_grid_witness:
  "let out = resample_fixed_interval [default_point 0, default_point 7] 0 10 4
   in sorted_wrt (<) (map pp_ts out) \<and> pp_ts ` set out = {0, 10} \<union> {t. 0 < t \<and> t < 10 \<and> 4 dvd t} \<and>
      list_all (sample_of [default_point 0, default_point 7]) out"
  by (rule resample_grid) (simp_all add: default_point_def is_i64_def i64_max_def i64_min_def)

section \<open>The thinned series\<close>

lemma chunks_Nil [simp]: "chunks n [] = []"
  by (subst chunks.simps) simp

lemma chunks_concat: "0 < n \<Longrightarrow> concat (chunks n xs) = xs"
proof (induction n xs rule: chunks.induct)
  case (1 n xs)
  then show ?case by (cases "xs = []", simp) (subst chunks.simps, simp)
qed

lemma chunks_length: "0 < n \<Longrightarrow> length (chunks n xs) = div_ceil (length xs) n"
proof (induction n xs rule: chunks.induct)
  case (1 n xs)
  show ?case
  proof (cases "xs = []")
    case True
    then show ?thesis by (simp add: chunks.simps [of n xs] div_ceil_def)
  next
    case False
    have e: "div_ceil (length xs) n = 1 + div_ceil (length xs - n) n"
    proof (cases "n \<le> length xs")
      case True
      then show ?thesis using 1(2) by (simp add: div_ceil_def le_div_geq le_mod_geq)
    next
      case lt: False
      then show ?thesis using False 1(2) by (simp add: div_ceil_def)
    qed
    show ?thesis using 1 False e by (subst chunks.simps) simp
  qed
qed

lemma div_ceil_le: "0 < b \<Longrightarrow> 0 < a \<Longrightarrow> 0 < div_ceil a b \<and> div_ceil a (div_ceil a b) \<le> b"
proof -
  assume b: "0 < b" and a: "0 < a"
  have m: "a \<le> b * div_ceil a b"
  proof (cases "a mod b = 0")
    case True
    then show ?thesis using div_mult_mod_eq [of a b] by (simp add: div_ceil_def mult.commute)
  next
    case False
    have "a = b * (a div b) + a mod b" by simp
    then have "a \<le> b * (a div b) + b" using mod_less_divisor [OF b, of a] by linarith
    then show ?thesis using False by (simp add: div_ceil_def)
  qed
  let ?c = "div_ceil a b"
  have c: "0 < ?c" using m a by (cases "?c = 0") auto
  have "div_ceil a ?c \<le> b"
  proof (cases "a mod ?c = 0")
    case True
    then have "div_ceil a ?c = a div ?c" by (simp add: div_ceil_def)
    also have "\<dots> \<le> b * ?c div ?c" using m by (rule div_le_mono)
    finally show ?thesis using c by simp
  next
    case False
    then have "a \<noteq> b * ?c" by (metis mod_mult_self2_is_0)
    then have "a < b * ?c" using m by simp
    then have "a div ?c < b" using c by (simp add: less_mult_imp_div_less)
    then show ?thesis using False by (simp add: div_ceil_def)
  qed
  then show ?thesis using c by simp
qed

lemma f64_le_refl [simp]: "x \<noteq> NaN \<Longrightarrow> x \<le> (x :: f64)"
  by (cases x rule: f64_cases3) auto

lemma value_cmp_le:
  assumes "value l \<noteq> NaN" "value r \<noteq> NaN"
  shows "0 < value_cmp value l r \<Longrightarrow> value r \<le> value l" "\<not> 0 < value_cmp value l r \<Longrightarrow> value l \<le> value r"
  using assms by (cases "value l" rule: f64_cases3; cases "value r" rule: f64_cases3;
      auto simp: value_cmp_def fpartial_cmp_def or_default_def split: if_splits)+

lemma min_fold:
  assumes "\<forall>y \<in> set (x # xs). value y \<noteq> NaN"
  shows "let m = foldl (\<lambda>m y. if 0 < value_cmp value m y then y else m) x xs
    in m \<in> set (x # xs) \<and> (\<forall>y \<in> set (x # xs). value m \<le> value y)"
  using assms
proof (induction xs arbitrary: x)
  case (Cons a xs)
  show ?case
  proof (cases "0 < value_cmp value x a")
    case True
    then show ?thesis using Cons.IH [of a] Cons.prems value_cmp_le(1) [of "value" x a] f64_le_trans
      by (auto simp: Let_def)
  next
    case False
    then show ?thesis using Cons.IH [of x] Cons.prems value_cmp_le(2) [of "value" x a] f64_le_trans
      by (auto simp: Let_def)
  qed
qed simp

lemma max_fold:
  assumes "\<forall>y \<in> set (x # xs). value y \<noteq> NaN"
  shows "let m = foldl (\<lambda>m y. if 0 < value_cmp value m y then m else y) x xs
    in m \<in> set (x # xs) \<and> (\<forall>y \<in> set (x # xs). value y \<le> value m)"
  using assms
proof (induction xs arbitrary: x)
  case (Cons a xs)
  show ?case
  proof (cases "0 < value_cmp value x a")
    case True
    then show ?thesis using Cons.IH [of x] Cons.prems value_cmp_le(1) [of "value" x a] f64_le_trans
      by (auto simp: Let_def)
  next
    case False
    then show ?thesis using Cons.IH [of a] Cons.prems value_cmp_le(2) [of "value" x a] f64_le_trans
      by (auto simp: Let_def)
  qed
qed simp

lemma min_by_member: "min_by cmp xs = Some p \<Longrightarrow> p \<in> set xs"
proof (cases xs)
  case (Cons x ys)
  have "foldl (\<lambda>m y. if 0 < cmp m y then y else m) x ys \<in> insert x (set ys)" for x ys
    by (induction ys arbitrary: x) auto
  then show "min_by cmp xs = Some p \<Longrightarrow> p \<in> set xs" using Cons by auto
qed simp

lemma max_by_member: "max_by cmp xs = Some p \<Longrightarrow> p \<in> set xs"
proof (cases xs)
  case (Cons x ys)
  have "foldl (\<lambda>m y. if 0 < cmp m y then m else y) x ys \<in> insert x (set ys)" for x ys
    by (induction ys arbitrary: x) auto
  then show "max_by cmp xs = Some p \<Longrightarrow> p \<in> set xs" using Cons by auto
qed simp

lemma selector_extrema:
  shows "set (selector_extrema b value) \<subseteq> set b" "length (selector_extrema b value) \<le> 2"
    and "p \<in> set b \<Longrightarrow> \<forall>y \<in> set b. value y \<noteq> NaN \<Longrightarrow>
      \<exists>q \<in> set (selector_extrema b value). \<exists>r \<in> set (selector_extrema b value). value q \<le> value p \<and> value p \<le> value r"
proof -
  show "set (selector_extrema b value) \<subseteq> set b"
    by (auto simp: selector_extrema_def dest: min_by_member max_by_member min_by_member [OF sym] max_by_member [OF sym] split: option.splits)
  show "length (selector_extrema b value) \<le> 2" by (simp add: selector_extrema_def split: option.splits)
  assume p: "p \<in> set b" "\<forall>y \<in> set b. value y \<noteq> NaN"
  then obtain x xs where b: "b = x # xs" by (cases b) auto
  show "\<exists>q \<in> set (selector_extrema b value). \<exists>r \<in> set (selector_extrema b value). value q \<le> value p \<and> value p \<le> value r"
  proof (intro bexI conjI)
    note m = min_fold [of x xs "value", unfolded Let_def] max_fold [of x xs "value", unfolded Let_def]
    show "value (the (min_by (value_cmp value) b)) \<le> value p" "value p \<le> value (the (max_by (value_cmp value) b))"
      using m p b by auto
  qed (use b in \<open>simp_all add: selector_extrema_def\<close>)
qed

lemma bucket_extrema:
  shows "set (bucket_extrema b) \<subseteq> set b" "length (bucket_extrema b) \<le> 8" "sorted_wrt (<) (map pp_ts (bucket_extrema b))"
    and "inj_on pp_ts (set b) \<Longrightarrow> set (bucket_extrema b) = (\<Union>v \<in> set value_selectors. set (selector_extrema b v))"
proof -
  let ?e = "concat (map (selector_extrema b) value_selectors)"
  have s: "set ?e \<subseteq> set b" using selector_extrema(1) by fastforce
  show sub: "set (bucket_extrema b) \<subseteq> set b"
    using s set_dedup_key [of pp_ts "sort_key pp_ts ?e"] by (auto simp: bucket_extrema_def)
  have "length ?e \<le> 8"
    using selector_extrema(2) [of b pp_total_pnl_usdt] selector_extrema(2) [of b pp_spot_position_usdt]
      selector_extrema(2) [of b pp_futures_position_usdt] selector_extrema(2) [of b pp_exposure_usdt]
    by (simp add: value_selectors_def)
  then show "length (bucket_extrema b) \<le> 8"
    using length_dedup_key [of pp_ts "sort_key pp_ts ?e"] by (simp add: bucket_extrema_def)
  show "sorted_wrt (<) (map pp_ts (bucket_extrema b))"
    unfolding bucket_extrema_def by (rule sorted_dedup_key) simp
  assume inj: "inj_on pp_ts (set b)"
  have "pp_ts ` set (bucket_extrema b) = pp_ts ` set ?e"
    by (simp add: bucket_extrema_def set_map_dedup_key)
  then have "set (bucket_extrema b) = set ?e" using inj_on_image_eq_iff [OF inj sub s] by simp
  then show "set (bucket_extrema b) = (\<Union>v \<in> set value_selectors. set (selector_extrema b v))" by simp
qed

lemma sorted_concat_parts:
  assumes "sorted_wrt (<) (map (k :: 'a \<Rightarrow> 'k :: linorder) (concat xss))" "\<forall>xs \<in> set xss. set (f xs) \<subseteq> set xs"
    "\<forall>xs \<in> set xss. sorted_wrt (<) (map k (f xs))"
  shows "sorted_wrt (<) (map k (concat (map f xss)))"
  using assms
proof (induction xss)
  case (Cons xs xss)
  then show ?case by (fastforce simp: sorted_wrt_append)
qed simp

lemma length_concat_bound: "\<forall>x \<in> set xs. length (f x) \<le> n \<Longrightarrow> length (concat (map f xs)) \<le> n * length xs"
  by (induction xs) auto

lemma strict_sorted_inj: "sorted_wrt (<) (map (k :: 'a \<Rightarrow> 'k :: linorder) xs) \<Longrightarrow> inj_on k (set xs)"
  by (simp add: strict_sorted_iff distinct_map)

lemma downsample_spec:
  assumes "sorted_wrt (<) (map pp_ts points)" "10 \<le> max_points"
  shows "let out = downsample_extrema points max_points
    in length out \<le> max_points \<and> set out \<subseteq> set points \<and> sorted_wrt (<) (map pp_ts out) \<and>
       (points \<noteq> [] \<longrightarrow> hd out = hd points \<and> last out = last points) \<and>
       (\<forall>v \<in> set value_selectors. (\<forall>p \<in> set points. v p \<noteq> NaN) \<longrightarrow>
          (\<forall>p \<in> set points. \<exists>q \<in> set out. \<exists>r \<in> set out. v q \<le> v p \<and> v p \<le> v r))"
proof (cases "length points \<le> max_points")
  case True
  then have "downsample_extrema points max_points = points" by (simp add: downsample_extrema_def)
  then show ?thesis using True assms(1) by (simp add: Let_def) (meson f64_le_refl)
next
  case False
  define count bsz where "count = max ((max_points - 2) div (length value_selectors * 2)) 1"
    and "bsz = div_ceil (length (butlast (tl points))) count"
  obtain a zs where az: "points = a # zs" using False by (cases points) auto
  obtain mid z where mid: "zs = mid @ [z]" using az False assms(2) by (cases zs rule: rev_cases) auto
  have p: "points = a # mid @ [z]" "butlast (tl points) = mid" using az mid by auto
  have "mid \<noteq> []" using p(1) False assms(2) by auto
  then have b: "0 < bsz" "div_ceil (length mid) bsz \<le> count"
    using div_ceil_le [of count "length mid"] by (simp_all add: bsz_def p(2) count_def)
  let ?c = "chunks bsz mid" and ?x = "concat (map bucket_extrema (chunks bsz mid))"
  have out: "downsample_extrema points max_points = a # ?x @ [z]"
    using False assms(2) p by (simp add: downsample_extrema_def Let_def count_def bsz_def)
  have cc: "concat ?c = mid" by (rule chunks_concat [OF b(1)])
  have "set ?x \<subseteq> set (concat ?c)" using bucket_extrema(1) by auto
  then have sub: "set ?x \<subseteq> set mid" unfolding cc .
  have so: "sorted_wrt (<) (map pp_ts ?x)"
    by (rule sorted_concat_parts) (use assms(1) p(1) cc bucket_extrema(1,3) in \<open>auto simp: sorted_wrt_append\<close>)
  have len: "length (a # ?x @ [z]) \<le> max_points"
  proof -
    have "length ?x \<le> 8 * length ?c" by (rule length_concat_bound) (use bucket_extrema(2) in blast)
    also have "\<dots> \<le> 8 * count" using b chunks_length [OF b(1), of mid] by simp
    also have "\<dots> \<le> max_points - 2" using assms(2) div_times_less_eq_dividend [of "max_points - 2" 8]
      by (auto simp: count_def value_selectors_def max_def)
    finally show ?thesis using assms(2) by simp
  qed
  have inj: "inj_on pp_ts (set c)" if "c \<in> set ?c" for c
  proof -
    have "set c \<subseteq> set mid" using that by (subst cc [symmetric]) auto
    then show ?thesis using p(1) by (intro inj_on_subset [OF strict_sorted_inj [OF assms(1)]]) auto
  qed
  have ext: "\<exists>q \<in> set (a # ?x @ [z]). \<exists>r \<in> set (a # ?x @ [z]). v q \<le> v p \<and> v p \<le> v r"
    if v: "v \<in> set value_selectors" "\<forall>p \<in> set points. v p \<noteq> NaN" "p \<in> set points" for v p
  proof (cases "p \<in> set mid")
    case True
    then obtain c where c: "c \<in> set ?c" "p \<in> set c" using cc by (metis in_set_conv_nth nth_mem set_concat UN_iff)
    have "\<forall>y \<in> set c. v y \<noteq> NaN"
    proof -
      have "set c \<subseteq> set mid" using c(1) by (subst cc [symmetric]) auto
      then show ?thesis using v(2) p(1) by auto
    qed
    from selector_extrema(3) [OF c(2) this] obtain q r where
      "q \<in> set (selector_extrema c v)" "r \<in> set (selector_extrema c v)" "v q \<le> v p" "v p \<le> v r" by blast
    moreover have "set (selector_extrema c v) \<subseteq> set ?x" using bucket_extrema(4) [OF inj [OF c(1)]] v(1) c(1) by auto
    ultimately show ?thesis by auto
  next
    case False
    then have "p = a \<or> p = z" using v(3) p(1) by auto
    then show ?thesis using v(2,3) by auto
  qed
  have S: "sorted_wrt (<) (map pp_ts (a # ?x @ [z]))"
    using so sub assms(1) unfolding p(1) by (simp add: sorted_wrt_append) blast
  have M: "set (a # ?x @ [z]) \<subseteq> set points" using sub p(1) by auto
  have E: "hd (a # ?x @ [z]) = hd points" "last (a # ?x @ [z]) = last points" using p(1) by simp_all
  show ?thesis unfolding Let_def out
    by (intro conjI impI ballI) (rule len, rule M, rule S, rule E(1), rule E(2), erule (2) ext)
qed

text \<open>Thinning out a series of at least ten allowed points keeps strictly increasing timestamps, the first
  and the last point and every extremum of the shown values: no point of the series lies above or below all
  points that are kept.  It returns points of the series only, and never more than allowed.\<close>

theorem downsample_keeps:
  assumes "sorted_wrt (<) (map pp_ts points)" "10 \<le> max_points"
  shows "let out = downsample_extrema points max_points
    in length out \<le> max_points \<and> set out \<subseteq> set points \<and> sorted_wrt (<) (map pp_ts out) \<and>
       (points \<noteq> [] \<longrightarrow> hd out = hd points \<and> last out = last points) \<and>
       (\<forall>v \<in> set value_selectors. (\<forall>p \<in> set points. v p \<noteq> NaN) \<longrightarrow>
          (\<forall>p \<in> set points. \<exists>q \<in> set out. \<exists>r \<in> set out. v q \<le> v p \<and> v p \<le> v r))"
  using assms by (rule downsample_spec)

lemma downsample_keeps_witness:
  "let points = map default_point [0, 1, 2, 3, 4, 5, 6, 7, 8, 9, 10, 11]; out = downsample_extrema points 10
   in length out \<le> 10 \<and> set out \<subseteq> set points \<and> sorted_wrt (<) (map pp_ts out) \<and>
      (points \<noteq> [] \<longrightarrow> hd out = hd points \<and> last out = last points) \<and>
      (\<forall>v \<in> set value_selectors. (\<forall>p \<in> set points. v p \<noteq> NaN) \<longrightarrow>
         (\<forall>p \<in> set points. \<exists>q \<in> set out. \<exists>r \<in> set out. v q \<le> v p \<and> v p \<le> v r))"
  unfolding Let_def by (rule downsample_keeps [unfolded Let_def]) (simp_all add: default_point_def)

section \<open>Drawdown\<close>

lemma f64_not_le: "x \<noteq> NaN \<Longrightarrow> y \<noteq> NaN \<Longrightarrow> \<not> x \<le> y \<Longrightarrow> y \<le> (x :: f64)"
  by (cases x rule: f64_cases3; cases y rule: f64_cases3) auto

lemma fmax_le: "x \<noteq> NaN \<Longrightarrow> y \<noteq> NaN \<Longrightarrow> x \<le> fmax x y \<and> y \<le> fmax x y \<and> fmax x y \<in> {x, y}"
  using f64_not_le [of x y] by (auto simp: fmax_def)

lemma f64_diff_mono: "is_finite x \<Longrightarrow> is_finite y \<Longrightarrow> is_finite z \<Longrightarrow> x \<le> y \<Longrightarrow> x - z \<le> y - (z :: f64)"
  by (auto simp: is_finite_iff rnd_mono)

lemma f64_diff_not_NaN: "is_finite x \<Longrightarrow> is_finite y \<Longrightarrow> x - y \<noteq> NaN"
  by (auto simp: is_finite_iff)

lemma is_finite_not_NaN: "is_finite x \<Longrightarrow> x \<noteq> NaN"
  by auto

text \<open>The state of the drawdown loop after the points \<open>ps\<close>: the highest total so far and the largest fall of a
  later total below an earlier one, or zero.\<close>

definition drawdown_inv :: "f64 list \<Rightarrow> f64 \<Rightarrow> f64 \<Rightarrow> bool" where
  "drawdown_inv ts peak m \<longleftrightarrow>
     (if ts = [] then peak = Inf True else peak \<in> set ts \<and> (\<forall>t \<in> set ts. t \<le> peak)) \<and>
     m \<noteq> NaN \<and> 0 \<le> m \<and>
     (\<forall>i j. i \<le> j \<longrightarrow> j < length ts \<longrightarrow> ts ! i - ts ! j \<le> m) \<and>
     (m = 0 \<or> (\<exists>i j. i \<le> j \<and> j < length ts \<and> m = ts ! i - ts ! j))"

lemma drawdown_inv_step:
  assumes "drawdown_inv ts peak m" "\<forall>t \<in> set (ts @ [t']). is_finite t"
  shows "drawdown_inv (ts @ [t']) (fmax peak t') (fmax m (fmax peak t' - t'))"
proof -
  let ?p = "fmax peak t'" and ?n = "length ts"
  have t': "is_finite t'" "t' \<noteq> NaN" using assms(2) by auto
  have pk: "peak \<noteq> NaN" using assms by (auto simp: drawdown_inv_def split: if_splits)
  have mem: "?p \<in> set (ts @ [t'])"
  proof (cases "ts = []")
    case True
    then show ?thesis using assms t' by (cases t') (auto simp: drawdown_inv_def fmax_def)
  next
    case False
    then show ?thesis using assms(1) fmax_le [OF pk t'(2)] by (auto simp: drawdown_inv_def)
  qed
  have ub: "\<forall>t \<in> set (ts @ [t']). t \<le> ?p"
    using assms(1) fmax_le [OF pk t'(2)] f64_le_trans by (auto simp: drawdown_inv_def split: if_splits)
  have fp: "is_finite ?p" using mem assms(2) by blast
  have d: "?p - t' \<noteq> NaN" using f64_diff_not_NaN [OF fp t'(1)] .
  have m: "m \<noteq> NaN" "0 \<le> m" using assms(1) by (auto simp: drawdown_inv_def)
  note mx = fmax_le [OF m(1) d]
  have le: "(ts @ [t']) ! i - (ts @ [t']) ! j \<le> fmax m (?p - t')" if ij: "i \<le> j" "j < length (ts @ [t'])" for i j
  proof (cases "j < ?n")
    case True
    then have "ts ! i - ts ! j \<le> m" using assms(1) ij by (simp add: drawdown_inv_def)
    then show ?thesis using True ij mx f64_le_trans by (auto simp: nth_append)
  next
    case False
    then have j: "j = ?n" using ij by simp
    have "(ts @ [t']) ! i \<in> set (ts @ [t'])" using ij by (intro nth_mem) simp
    then have "(ts @ [t']) ! i - t' \<le> ?p - t'" using f64_diff_mono [OF _ fp t'(1)] ub assms(2) by blast
    then show ?thesis using j mx f64_le_trans by (auto simp: nth_append)
  qed
  have at: "fmax m (?p - t') = 0 \<or> (\<exists>i j. i \<le> j \<and> j < length (ts @ [t']) \<and> fmax m (?p - t') = (ts @ [t']) ! i - (ts @ [t']) ! j)"
  proof (cases "fmax m (?p - t') = m")
    case True
    have "m = 0 \<or> (\<exists>i j. i \<le> j \<and> j < ?n \<and> m = ts ! i - ts ! j)" using assms(1) unfolding drawdown_inv_def by blast
    then show ?thesis
    proof (elim disjE exE)
      fix i j assume "i \<le> j \<and> j < ?n \<and> m = ts ! i - ts ! j"
      then show ?thesis using True by (intro disjI2 exI [of _ i] exI [of _ j]) (simp add: nth_append)
    qed (use True in simp)
  next
    case False
    then have "fmax m (?p - t') = ?p - t'" using mx by auto
    moreover obtain i where "i < length (ts @ [t'])" "?p = (ts @ [t']) ! i" using mem by (metis in_set_conv_nth)
    ultimately show ?thesis by (intro disjI2 exI [of _ i] exI [of _ ?n]) (auto simp: nth_append)
  qed
  have nn: "fmax m (?p - t') \<noteq> NaN" using mx m(1) d by auto
  moreover have "0 \<le> fmax m (?p - t')" using mx m(2) f64_le_trans by blast
  ultimately show ?thesis unfolding drawdown_inv_def using mem ub le at by simp
qed

lemma drawdown_fold:
  assumes "\<forall>p \<in> set ps. is_finite (pp_total_pnl_usdt p)"
  shows "\<exists>peak m r. foldl (drawdown_step princ e) (Inf True, 0, 0) ps = (peak, m, r) \<and>
    drawdown_inv (map pp_total_pnl_usdt ps) peak m"
  using assms
proof (induction ps rule: rev_induct)
  case (snoc p ps)
  then obtain peak m r where "foldl (drawdown_step princ e) (Inf True, 0, 0) ps = (peak, m, r)"
    "drawdown_inv (map pp_total_pnl_usdt ps) peak m" by auto
  then show ?case
    using drawdown_inv_step [of "map pp_total_pnl_usdt ps" peak m "pp_total_pnl_usdt p"] snoc.prems
    by (simp add: drawdown_step_def Let_def)
qed (simp add: drawdown_inv_def zero_f64_def)

text \<open>C39: The maximal drawdown that is reported is the largest fall of a later total below an earlier one (zero
  when the curve never falls), and the current drawdown is the fall of the last total below the highest one; the
  current one never exceeds the maximal one.\<close>

theorem drawdown_correct:
  assumes "points \<noteq> []" "\<forall>p \<in> set points. is_finite (pp_total_pnl_usdt p)"
  shows "let perf = build_performance s e princ points bp end_total; t = (\<lambda>i. pp_total_pnl_usdt (points ! i)); n = length points
    in \<exists>m c. pf_max_drawdown_usdt perf = clean_zero m \<and> pf_current_drawdown_usdt perf = clean_zero c \<and> 0 \<le> c \<and> c \<le> m \<and>
         (\<forall>i j. i \<le> j \<longrightarrow> j < n \<longrightarrow> t i - t j \<le> m) \<and> (m = 0 \<or> (\<exists>i j. i \<le> j \<and> j < n \<and> m = t i - t j)) \<and>
         (\<exists>i < n. c = t i - t (n - 1) \<and> (\<forall>k < n. t k \<le> t i))"
proof -
  let ?ts = "map pp_total_pnl_usdt points" and ?n = "length points"
  obtain peak m r where d: "drawdown (usable_principal princ) points = (peak, m, r)" "drawdown_inv ?ts peak m"
    using drawdown_fold [OF assms(2), of "usable_principal princ" "last_total points"] by (auto simp: drawdown_def)
  obtain i where i: "i < ?n" "peak = pp_total_pnl_usdt (points ! i)"
    using d(2) assms(1) by (auto simp: drawdown_inv_def in_set_conv_nth)
  have mx: "\<forall>k < ?n. pp_total_pnl_usdt (points ! k) \<le> peak" using d(2) assms(1) by (auto simp: drawdown_inv_def)
  have l: "last_total points = pp_total_pnl_usdt (points ! (?n - 1))" using assms(1) by (simp add: last_total_def last_conv_nth)
  have fin: "is_finite peak" "is_finite (last_total points)" using assms(2) i l assms(1) by auto
  have "last_total points \<le> peak" using mx assms(1) l by simp
  then have "0 \<le> peak - last_total points" using fin
    by (cases peak; cases "last_total points") (use rnd_mono [of 0] in \<open>auto simp: zero_f64_def\<close>)
  moreover have "peak - last_total points \<noteq> NaN" by (rule f64_diff_not_NaN [OF fin])
  ultimately have c: "fmax (peak - last_total points) 0 = peak - last_total points \<and> 0 \<le> peak - last_total points"
    by (cases "peak - last_total points" rule: f64_cases3) (auto simp: fmax_def zero_f64_def)
  have falls: "\<forall>i j. i \<le> j \<longrightarrow> j < ?n \<longrightarrow> pp_total_pnl_usdt (points ! i) - pp_total_pnl_usdt (points ! j) \<le> m"
  proof (intro allI impI)
    fix i j assume "i \<le> j" "j < ?n"
    then show "pp_total_pnl_usdt (points ! i) - pp_total_pnl_usdt (points ! j) \<le> m"
      using d(2) by (simp add: drawdown_inv_def)
  qed
  have "m = 0 \<or> (\<exists>i j. i \<le> j \<and> j < ?n \<and> m = ?ts ! i - ?ts ! j)" using d(2) by (simp add: drawdown_inv_def)
  then have attained: "m = 0 \<or> (\<exists>i j. i \<le> j \<and> j < ?n \<and> m = pp_total_pnl_usdt (points ! i) - pp_total_pnl_usdt (points ! j))"
    by (elim disjE exE) auto
  have "peak - last_total points \<le> m" using falls i l assms(1) by simp
  moreover have "pf_max_drawdown_usdt (build_performance s e princ points bp end_total) = clean_zero m"
    "pf_current_drawdown_usdt (build_performance s e princ points bp end_total) = clean_zero (peak - last_total points)"
    using d(1) c by (simp_all add: build_performance_def Let_def)
  moreover have "\<exists>i < ?n. peak - last_total points = pp_total_pnl_usdt (points ! i) - pp_total_pnl_usdt (points ! (?n - 1)) \<and>
      (\<forall>k < ?n. pp_total_pnl_usdt (points ! k) \<le> pp_total_pnl_usdt (points ! i))"
    using i mx l by (intro exI [of _ i]) simp
  ultimately show ?thesis unfolding Let_def using c falls attained by blast
qed

lemma drawdown_correct_witness:
  "let points = [(default_point 0)\<lparr>pp_total_pnl_usdt := Fin 3\<rparr>, (default_point 1)\<lparr>pp_total_pnl_usdt := Fin 1\<rparr>];
       perf = build_performance 0 10 None points [] (Fin 1); t = (\<lambda>i. pp_total_pnl_usdt (points ! i)); n = length points
    in \<exists>m c. pf_max_drawdown_usdt perf = clean_zero m \<and> pf_current_drawdown_usdt perf = clean_zero c \<and> 0 \<le> c \<and> c \<le> m \<and>
         (\<forall>i j. i \<le> j \<longrightarrow> j < n \<longrightarrow> t i - t j \<le> m) \<and> (m = 0 \<or> (\<exists>i j. i \<le> j \<and> j < n \<and> m = t i - t j)) \<and>
         (\<exists>i < n. c = t i - t (n - 1) \<and> (\<forall>k < n. t k \<le> t i))"
  unfolding Let_def by (rule drawdown_correct [unfolded Let_def]) simp_all

end
