(* ===== verification/PnlCalculate.thy ===== *)
theory PnlCalculate
  imports PnlSeries
begin

text \<open>
  \<open>src/src/pnl.rs\<close>, third part: \<open>calculate\<close>, the replay of the events of a strategy into a chart, a table of
  symbols and a summary.  A \<open>HashMap\<close> keyed by symbol is a function to \<open>option\<close>; a \<open>HashSet\<close> is the list its
  iterator yields, in an order that the argument \<open>hash_order\<close> chooses.  \<open>usize\<close> and \<open>u64\<close> values are natural
  numbers, and a timestamp minus a window stays within i64.
\<close>

section \<open>Requests and responses\<close>

record pnl_inputs =
  in_trades :: "normalized_trade list"
  in_funding :: "funding_event list"
  in_interest :: "interest_event list"
  in_initial_positions :: "initial_position list"

record pnl_calculation =
  rq_source :: pnl_source_kind
  rq_exchange :: string
  rq_strategy_start_ms :: int
  rq_start_ms :: int
  rq_end_ms :: int
  rq_selected_symbols :: "string list"
  rq_max_points :: nat
  rq_initial_snapshot_ts_ms :: "int option"
  rq_skipped_initial_position_count :: nat
  rq_principal_usdt :: "f64 option"

record pnl_source_info =
  si_adapter :: string
  si_loaded_trade_rows :: nat
  si_loaded_funding_rows :: nat
  si_loaded_interest_rows :: nat
  si_returned_points :: nat
  si_returned_symbol_points :: nat
  si_sampled :: bool
  si_interest_included :: bool
  si_initial_snapshot_ts_ms :: "int option"
  si_initial_position_count :: nat
  si_skipped_initial_position_count :: nat

record pnl_response =
  rs_strategy_start_ms :: int
  rs_start_ms :: int
  rs_end_ms :: int
  rs_selected_symbols :: "string list"
  rs_available_symbols :: "string list"
  rs_summary :: pnl_summary
  rs_symbols :: "(string \<times> pnl_summary) list"
  rs_points :: "pnl_point list"
  rs_symbol_points :: "(string \<times> pnl_point list) list"
  rs_source :: pnl_source_info
  rs_performance :: pnl_performance

section \<open>Points of a chart\<close>

definition current_metrics :: "symbol_states \<Rightarrow> string \<Rightarrow> metrics" where
  "current_metrics states symbol = or_default default_metrics (map_option symbol_metrics (states symbol))"

definition add_to_point :: "symbol_states \<Rightarrow> (string \<rightharpoonup> metrics) \<Rightarrow> string \<Rightarrow> pnl_point \<Rightarrow> pnl_point" where
  "add_to_point states baselines symbol p =
     (let c = current_metrics states symbol; b = or_default default_metrics (baselines symbol)
      in p\<lparr>pp_fee_before_pnl_usdt := pp_fee_before_pnl_usdt p + (m_fee_before_pnl_usdt c - m_fee_before_pnl_usdt b),
           pp_fee_after_pnl_usdt := pp_fee_after_pnl_usdt p + (m_fee_after_pnl_usdt c - m_fee_after_pnl_usdt b),
           pp_funding_pnl_usdt := pp_funding_pnl_usdt p + (m_funding_pnl_usdt c - m_funding_pnl_usdt b),
           pp_interest_cost_usdt := pp_interest_cost_usdt p + (m_interest_cost_usdt c - m_interest_cost_usdt b),
           pp_floating_pnl_usdt := pp_floating_pnl_usdt p + (m_floating_pnl_usdt c - m_floating_pnl_usdt b),
           pp_total_pnl_usdt := pp_total_pnl_usdt p + (m_total_pnl_usdt c - m_total_pnl_usdt b),
           pp_spot_position_usdt := pp_spot_position_usdt p + m_spot_position_usdt c,
           pp_futures_position_usdt := pp_futures_position_usdt p + m_futures_position_usdt c,
           pp_exposure_usdt := pp_exposure_usdt p + exposure (m_spot_position_usdt c) (m_futures_position_usdt c),
           pp_spot_position_qty := pp_spot_position_qty p + m_spot_position_qty c,
           pp_futures_position_qty := pp_futures_position_qty p + m_futures_position_qty c,
           pp_exposure_qty := pp_exposure_qty p + exposure (m_spot_position_qty c) (m_futures_position_qty c)\<rparr>)"

definition clean_point :: "pnl_point \<Rightarrow> pnl_point" where
  "clean_point p =
     \<lparr>pp_ts = pp_ts p, pp_fee_before_pnl_usdt = clean_zero (pp_fee_before_pnl_usdt p),
      pp_fee_after_pnl_usdt = clean_zero (pp_fee_after_pnl_usdt p),
      pp_funding_pnl_usdt = clean_zero (pp_funding_pnl_usdt p),
      pp_interest_cost_usdt = clean_zero (pp_interest_cost_usdt p),
      pp_floating_pnl_usdt = clean_zero (pp_floating_pnl_usdt p),
      pp_total_pnl_usdt = clean_zero (pp_total_pnl_usdt p),
      pp_spot_position_usdt = clean_zero (pp_spot_position_usdt p),
      pp_futures_position_usdt = clean_zero (pp_futures_position_usdt p),
      pp_exposure_usdt = clean_zero (pp_exposure_usdt p),
      pp_spot_position_qty = clean_zero (pp_spot_position_qty p),
      pp_futures_position_qty = clean_zero (pp_futures_position_qty p),
      pp_exposure_qty = clean_zero (pp_exposure_qty p)\<rparr>"

text \<open>\<open>selected\<close> is the iteration order of the selected set.\<close>

definition aggregate_point :: "int \<Rightarrow> symbol_states \<Rightarrow> (string \<rightharpoonup> metrics) \<Rightarrow> string list \<Rightarrow> pnl_point" where
  "aggregate_point ts states baselines selected =
     clean_point (fold (add_to_point states baselines) selected (default_point ts))"

definition symbol_point :: "int \<Rightarrow> string \<Rightarrow> symbol_states \<Rightarrow> (string \<rightharpoonup> metrics) \<Rightarrow> pnl_point" where
  "symbol_point ts symbol states baselines =
     (let c = current_metrics states symbol; b = or_default default_metrics (baselines symbol)
      in clean_point
         \<lparr>pp_ts = ts, pp_fee_before_pnl_usdt = m_fee_before_pnl_usdt c - m_fee_before_pnl_usdt b,
          pp_fee_after_pnl_usdt = m_fee_after_pnl_usdt c - m_fee_after_pnl_usdt b,
          pp_funding_pnl_usdt = m_funding_pnl_usdt c - m_funding_pnl_usdt b,
          pp_interest_cost_usdt = m_interest_cost_usdt c - m_interest_cost_usdt b,
          pp_floating_pnl_usdt = m_floating_pnl_usdt c - m_floating_pnl_usdt b,
          pp_total_pnl_usdt = m_total_pnl_usdt c - m_total_pnl_usdt b,
          pp_spot_position_usdt = m_spot_position_usdt c,
          pp_futures_position_usdt = m_futures_position_usdt c,
          pp_exposure_usdt = exposure (m_spot_position_usdt c) (m_futures_position_usdt c),
          pp_spot_position_qty = m_spot_position_qty c,
          pp_futures_position_qty = m_futures_position_qty c,
          pp_exposure_qty = exposure (m_spot_position_qty c) (m_futures_position_qty c)\<rparr>)"

definition selected_total_pnl :: "symbol_states \<Rightarrow> string list \<Rightarrow> f64" where
  "selected_total_pnl states selected = fsum (map (\<lambda>symbol. m_total_pnl_usdt (current_metrics states symbol)) selected)"

definition default_summary :: pnl_summary where
  "default_summary = \<lparr>su_trade_count = 0, su_volume_usdt = 0, su_fee_before_pnl_usdt = 0, su_trading_fee_usdt = 0,
     su_fee_after_pnl_usdt = 0, su_funding_pnl_usdt = 0, su_interest_cost_usdt = 0, su_floating_pnl_usdt = 0,
     su_total_pnl_usdt = 0, su_return_bps_on_volume = 0, su_open_amount_usdt = 0, su_unconverted_fee_count = 0,
     su_unconverted_interest_count = 0\<rparr>"

definition add_to_summary :: "string \<times> pnl_summary \<Rightarrow> pnl_summary \<Rightarrow> pnl_summary" where
  "add_to_summary = (\<lambda>(symbol, r) t.
     t\<lparr>su_trade_count := su_trade_count t + su_trade_count r,
       su_volume_usdt := su_volume_usdt t + su_volume_usdt r,
       su_fee_before_pnl_usdt := su_fee_before_pnl_usdt t + su_fee_before_pnl_usdt r,
       su_trading_fee_usdt := su_trading_fee_usdt t + su_trading_fee_usdt r,
       su_fee_after_pnl_usdt := su_fee_after_pnl_usdt t + su_fee_after_pnl_usdt r,
       su_funding_pnl_usdt := su_funding_pnl_usdt t + su_funding_pnl_usdt r,
       su_interest_cost_usdt := su_interest_cost_usdt t + su_interest_cost_usdt r,
       su_floating_pnl_usdt := su_floating_pnl_usdt t + su_floating_pnl_usdt r,
       su_total_pnl_usdt := su_total_pnl_usdt t + su_total_pnl_usdt r,
       su_open_amount_usdt := su_open_amount_usdt t + su_open_amount_usdt r,
       su_unconverted_fee_count := su_unconverted_fee_count t + su_unconverted_fee_count r,
       su_unconverted_interest_count := su_unconverted_interest_count t + su_unconverted_interest_count r\<rparr>)"

definition aggregate_summary :: "(string \<times> pnl_summary) list \<Rightarrow> string list \<Rightarrow> pnl_summary" where
  "aggregate_summary symbols selected =
     (let total = fold add_to_summary (filter (\<lambda>(symbol, _). symbol \<in> set selected) symbols) default_summary
      in total\<lparr>su_return_bps_on_volume :=
           (if f64_epsilon < \<bar>su_volume_usdt total\<bar>
            then su_total_pnl_usdt total / su_volume_usdt total * Fin 10000 else 0)\<rparr>)"

section \<open>Inputs of a replay\<close>

definition input_symbols :: "pnl_inputs \<Rightarrow> string list" where
  "input_symbols inputs = map ip_symbol (in_initial_positions inputs) @ map nt_symbol (in_trades inputs) @
     map fe_symbol (in_funding inputs) @ map ie_symbol (in_interest inputs)"

text \<open>The \<open>BTreeSet\<close> of symbols, in order.\<close>

definition available_symbols :: "pnl_inputs \<Rightarrow> string list" where
  "available_symbols inputs = sort (remdups (input_symbols inputs))"

definition select_symbols :: "string list \<Rightarrow> string list \<Rightarrow> string list" where
  "select_symbols available requested =
     (if requested = [] then available
      else dedup_key id (sort (filter (\<lambda>s. s \<in> set available) (map to_ascii_uppercase requested))))"

definition sorted_events :: "pnl_inputs \<Rightarrow> pnl_event list" where
  "sorted_events inputs =
     sort_key event_order (map Trade (in_trades inputs) @ map Funding (in_funding inputs) @ map Interest (in_interest inputs))"

definition initial_states :: "pnl_source_kind \<Rightarrow> string list \<Rightarrow> symbol_states" where
  "initial_states source available = (\<lambda>s. if s \<in> set available then Some (symbol_for_source source) else None)"

definition seed_initial :: "initial_position \<Rightarrow> symbol_states \<Rightarrow> pnl_error + symbol_states" where
  "seed_initial p states =
     (case states (ip_symbol p) of
        None \<Rightarrow> Inl (Bail ''initial position symbol is missing from state map'')
      | Some s \<Rightarrow> bind_res (seed_position p s) (\<lambda>s'. Inr (states(ip_symbol p \<mapsto> s'))))"

definition rolling_boundaries :: "pnl_calculation \<Rightarrow> int list" where
  "rolling_boundaries rq = dedup_key id (sort (filter (\<lambda>b. rq_strategy_start_ms rq \<le> b)
     (map (\<lambda>window. rq_end_ms rq - window) rolling_windows_ms)))"

section \<open>The replay\<close>

record replay_state =
  rp_states :: symbol_states
  rp_boundaries :: "int list"
  rp_boundary_pnl :: "(int \<times> f64) list"
  rp_points :: "pnl_point list"
  rp_symbol_points :: "string \<rightharpoonup> pnl_point list"

text \<open>The boundaries not yet captured are the rest of the list that \<open>next_boundary\<close> points into.\<close>

definition capture_boundaries :: "(int \<Rightarrow> bool) \<Rightarrow> string list \<Rightarrow> replay_state \<Rightarrow> replay_state" where
  "capture_boundaries due selected r =
     r\<lparr>rp_boundary_pnl := rp_boundary_pnl r @
         map (\<lambda>b. (b, selected_total_pnl (rp_states r) selected)) (takeWhile due (rp_boundaries r)),
       rp_boundaries := dropWhile due (rp_boundaries r)\<rparr>"

definition replay_before :: "string list \<Rightarrow> pnl_event \<Rightarrow> replay_state \<Rightarrow> pnl_error + replay_state" where
  "replay_before selected e r0 =
     (let r = capture_boundaries (\<lambda>b. b < event_ts e) selected r0
      in bind_res (apply_event e (rp_states r)) (\<lambda>states. Inr (r\<lparr>rp_states := states\<rparr>)))"

definition push_symbol_point :: "string \<Rightarrow> pnl_point \<Rightarrow> replay_state \<Rightarrow> replay_state" where
  "push_symbol_point symbol point r =
     (case rp_symbol_points r symbol of
        None \<Rightarrow> r
      | Some points \<Rightarrow> r\<lparr>rp_symbol_points := (rp_symbol_points r)(symbol \<mapsto> push_or_replace_point points point)\<rparr>)"

definition replay_shown :: "(string \<rightharpoonup> metrics) \<Rightarrow> string list \<Rightarrow> pnl_event \<Rightarrow> replay_state \<Rightarrow> pnl_error + replay_state" where
  "replay_shown baselines selected e r0 =
     bind_res (replay_before selected e r0) (\<lambda>r.
       if event_symbol e \<in> set selected
       then let ts = event_ts e; symbol = event_symbol e;
                r = r\<lparr>rp_points := push_or_replace_point (rp_points r) (aggregate_point ts (rp_states r) baselines selected)\<rparr>
            in Inr (push_symbol_point symbol (symbol_point ts symbol (rp_states r) baselines) r)
       else Inr r)"

definition start_points :: "int \<Rightarrow> (string \<rightharpoonup> metrics) \<Rightarrow> string list \<Rightarrow> string list \<Rightarrow> replay_state \<Rightarrow> replay_state" where
  "start_points start_ms baselines selected_symbols selected r =
     r\<lparr>rp_points := [aggregate_point start_ms (rp_states r) baselines selected],
       rp_symbol_points := (\<lambda>s. if s \<in> set selected_symbols
          then Some [symbol_point start_ms s (rp_states r) baselines] else None)\<rparr>"

definition end_points :: "int \<Rightarrow> (string \<rightharpoonup> metrics) \<Rightarrow> string list \<Rightarrow> string list \<Rightarrow> replay_state \<Rightarrow> replay_state" where
  "end_points end_ms baselines selected_symbols selected r =
     fold (\<lambda>s r. push_symbol_point s (symbol_point end_ms s (rp_states r) baselines) r) selected_symbols
       (r\<lparr>rp_points := push_or_replace_point (rp_points r) (aggregate_point end_ms (rp_states r) baselines selected)\<rparr>)"

text \<open>The replay of a request, to the state after the last push of a point: the baselines are the metrics
  before the first event that is not earlier than the start.\<close>

definition replay_request :: "(string list \<Rightarrow> string list) \<Rightarrow> pnl_inputs \<Rightarrow> pnl_calculation \<Rightarrow>
    pnl_error + (string \<rightharpoonup> metrics) \<times> replay_state" where
  "replay_request hash_order inputs rq =
     (let available = available_symbols inputs;
          selected_symbols = select_symbols available (rq_selected_symbols rq);
          selected = hash_order selected_symbols;
          events = sorted_events inputs;
          split = length (takeWhile (\<lambda>e. event_ts e < rq_start_ms rq) events)
      in bind_res (fold_res seed_initial (in_initial_positions inputs) (initial_states (rq_source rq) available)) (\<lambda>states.
         bind_res (fold_res (replay_before selected) (take split events)
           \<lparr>rp_states = states, rp_boundaries = rolling_boundaries rq, rp_boundary_pnl = [], rp_points = [],
            rp_symbol_points = (\<lambda>_. None)\<rparr>) (\<lambda>r.
         let r = capture_boundaries (\<lambda>b. b < rq_start_ms rq) selected r;
             baselines = (\<lambda>s. map_option symbol_metrics (rp_states r s))
         in bind_res (fold_res (replay_shown baselines selected)
               (takeWhile (\<lambda>e. event_ts e \<le> rq_end_ms rq) (drop split events))
               (start_points (rq_start_ms rq) baselines selected_symbols selected r)) (\<lambda>r.
            Inr (baselines, end_points (rq_end_ms rq) baselines selected_symbols selected r)))))"

section \<open>The response\<close>

text \<open>\<open>sort_by\<close> is a stable sort; on a comparison that is no total order (a total that is not a number) its
  result is one of the orders the source may return.\<close>

fun insort_by :: "('a \<Rightarrow> 'a \<Rightarrow> int) \<Rightarrow> 'a \<Rightarrow> 'a list \<Rightarrow> 'a list" where
  "insort_by cmp x [] = [x]"
| "insort_by cmp x (y # ys) = (if cmp x y \<le> 0 then x # y # ys else y # insort_by cmp x ys)"

definition sort_by :: "('a \<Rightarrow> 'a \<Rightarrow> int) \<Rightarrow> 'a list \<Rightarrow> 'a list" where
  "sort_by cmp xs = foldr (insort_by cmp) xs []"

definition ord_cmp :: "'a :: linorder \<Rightarrow> 'a \<Rightarrow> int" where
  "ord_cmp x y = (if x < y then -1 else if x = y then 0 else 1)"

definition summary_cmp :: "string \<times> pnl_summary \<Rightarrow> string \<times> pnl_summary \<Rightarrow> int" where
  "summary_cmp l r =
     (let c = or_default 0 (fpartial_cmp (su_total_pnl_usdt (snd r)) (su_total_pnl_usdt (snd l)))
      in if c = 0 then ord_cmp (fst l) (fst r) else c)"

definition symbol_table :: "string list \<Rightarrow> symbol_states \<Rightarrow> (string \<rightharpoonup> metrics) \<Rightarrow> (string \<times> pnl_summary) list" where
  "symbol_table available states baselines =
     sort_by summary_cmp (map (\<lambda>s. (s, metrics_difference (current_metrics states s) (or_default default_metrics (baselines s)))) available)"

definition symbol_series :: "pnl_calculation \<Rightarrow> pnl_point list option \<Rightarrow> pnl_point list \<times> bool" where
  "symbol_series rq points =
     (let original = resample_fixed_interval (or_default [] points) (rq_start_ms rq) (rq_end_ms rq) pnl_tick_interval_ms;
          sampled = downsample_extrema original (max 100 (min 800 (rq_max_points rq)))
      in (sampled, length sampled < length original))"

definition calculate_checks :: "pnl_inputs \<Rightarrow> pnl_calculation \<Rightarrow> string option" where
  "calculate_checks inputs rq =
     (if rq_start_ms rq < rq_strategy_start_ms rq then Some ''start_ms must be greater than or equal to strategy st_ms''
      else if rq_end_ms rq < rq_start_ms rq then Some ''end_ms must be greater than or equal to start_ms''
      else if select_symbols (available_symbols inputs) (rq_selected_symbols rq) = [] \<and> available_symbols inputs \<noteq> []
      then Some ''none of the requested symbols exist in the selected time range''
      else None)"

definition build_response :: "(string list \<Rightarrow> string list) \<Rightarrow> pnl_inputs \<Rightarrow> pnl_calculation \<Rightarrow> (string \<rightharpoonup> metrics) \<Rightarrow>
    replay_state \<Rightarrow> pnl_response" where
  "build_response hash_order inputs rq baselines r0 =
     (let available = available_symbols inputs;
          selected_symbols = select_symbols available (rq_selected_symbols rq);
          selected = hash_order selected_symbols;
          symbols = symbol_table available (rp_states r0) baselines;
          summary = (aggregate_summary symbols selected)
            \<lparr>su_open_amount_usdt := (if rp_points r0 = [] then 0 else pp_exposure_usdt (last (rp_points r0)))\<rparr>;
          r = capture_boundaries (\<lambda>_. True) selected r0;
          end_total_pnl = selected_total_pnl (rp_states r) selected;
          original = resample_fixed_interval (rp_points r) (rq_start_ms rq) (rq_end_ms rq) pnl_tick_interval_ms;
          performance = build_performance (rq_strategy_start_ms rq) (rq_end_ms rq) (rq_principal_usdt rq) original
            (rp_boundary_pnl r) end_total_pnl;
          points = downsample_extrema original (max (rq_max_points rq) 2);
          series = map (\<lambda>s. (s, symbol_series rq (rp_symbol_points r s))) selected_symbols
      in \<lparr>rs_strategy_start_ms = rq_strategy_start_ms rq, rs_start_ms = rq_start_ms rq, rs_end_ms = rq_end_ms rq,
          rs_selected_symbols = selected_symbols, rs_available_symbols = available, rs_summary = summary,
          rs_symbols = symbols, rs_points = points,
          rs_symbol_points = map (\<lambda>(s, ps, _). (s, ps)) series,
          rs_source = \<lparr>si_adapter = adapter_name (rq_source rq), si_loaded_trade_rows = length (in_trades inputs),
            si_loaded_funding_rows = length (in_funding inputs), si_loaded_interest_rows = length (in_interest inputs),
            si_returned_points = length points,
            si_returned_symbol_points = sum_list (map (\<lambda>(s, ps, _). length ps) series),
            si_sampled = (length points < length original \<or> list_ex (\<lambda>(s, ps, cut). cut) series),
            si_interest_included = interest_included (rq_source rq) (rq_exchange rq),
            si_initial_snapshot_ts_ms = rq_initial_snapshot_ts_ms rq,
            si_initial_position_count = length (in_initial_positions inputs),
            si_skipped_initial_position_count = rq_skipped_initial_position_count rq\<rparr>,
          rs_performance = performance\<rparr>)"

definition calculate :: "(string list \<Rightarrow> string list) \<Rightarrow> pnl_inputs \<Rightarrow> pnl_calculation \<Rightarrow> pnl_error + pnl_response" where
  "calculate hash_order inputs rq =
     (case calculate_checks inputs rq of
        Some message \<Rightarrow> Inl (Bail message)
      | None \<Rightarrow> bind_res (replay_request hash_order inputs rq) (\<lambda>(baselines, r).
          Inr (build_response hash_order inputs rq baselines r)))"

section \<open>What the replay computes\<close>

text \<open>The specification: the states after all events up to and including a time.\<close>

definition seeded_states :: "pnl_inputs \<Rightarrow> pnl_calculation \<Rightarrow> pnl_error + symbol_states" where
  "seeded_states inputs rq =
     fold_res seed_initial (in_initial_positions inputs) (initial_states (rq_source rq) (available_symbols inputs))"

definition states_at :: "pnl_inputs \<Rightarrow> pnl_calculation \<Rightarrow> int \<Rightarrow> pnl_error + symbol_states" where
  "states_at inputs rq t =
     bind_res (seeded_states inputs rq) (fold_res apply_event (filter (\<lambda>e. event_ts e \<le> t) (sorted_events inputs)))"

lemma sorted_takeWhile_filter:
  "sorted (map k xs) \<Longrightarrow> takeWhile (\<lambda>x. k x < (t :: int)) xs = filter (\<lambda>x. k x < t) xs"
  by (induction xs) (auto simp: not_less intro!: filter_False [symmetric])

lemma sorted_takeWhile_filter_le:
  "sorted (map k xs) \<Longrightarrow> takeWhile (\<lambda>x. k x \<le> (t :: int)) xs = filter (\<lambda>x. k x \<le> t) xs"
  by (induction xs) (auto simp: not_le intro!: filter_False [symmetric])

lemma sorted_dropWhile_filter:
  "sorted (map k xs) \<Longrightarrow> dropWhile (\<lambda>x. k x < (t :: int)) xs = filter (\<lambda>x. t \<le> k x) xs"
  by (induction xs) (auto simp: not_less intro!: filter_True [symmetric])

lemma sorted_dropWhile_filter_le:
  "sorted (map k xs) \<Longrightarrow> dropWhile (\<lambda>x. k x \<le> (t :: int)) xs = filter (\<lambda>x. t < k x) xs"
  by (induction xs) (auto simp: not_le intro!: filter_True [symmetric])

lemma sorted_events_ts: "sorted (map event_ts (sorted_events inputs))"
proof -
  have "sorted (map event_order (sorted_events inputs))" by (simp add: sorted_events_def)
  then show ?thesis
    by (simp add: sorted_wrt_map) (rule sorted_wrt_mono_rel, auto simp: event_order_def less_eq_prod_def)
qed

text \<open>The replay state after the events \<open>ds\<close>, with \<open>rest\<close> still to come.\<close>

definition replayed :: "symbol_states \<Rightarrow> string list \<Rightarrow> int list \<Rightarrow> pnl_event list \<Rightarrow> pnl_event list \<Rightarrow> replay_state \<Rightarrow> bool" where
  "replayed st0 selected bs ds rest r \<longleftrightarrow>
     fold_res apply_event ds st0 = Inr (rp_states r) \<and>
     map fst (rp_boundary_pnl r) @ rp_boundaries r = bs \<and>
     (\<forall>(b, v) \<in> set (rp_boundary_pnl r). \<exists>st.
        fold_res apply_event (filter (\<lambda>e. event_ts e \<le> b) (ds @ rest)) st0 = Inr st \<and> v = selected_total_pnl st selected) \<and>
     (\<forall>b \<in> set (rp_boundaries r). \<forall>e \<in> set ds. event_ts e \<le> b)"

lemma replayed_capture:
  assumes "replayed st0 selected bs es rest r" "\<forall>b \<in> set (takeWhile due (rp_boundaries r)). \<forall>e \<in> set rest. b < event_ts e"
  shows "replayed st0 selected bs es rest (capture_boundaries due selected r)"
proof -
  let ?now = "takeWhile due (rp_boundaries r)"
  have now: "filter (\<lambda>e. event_ts e \<le> b) (es @ rest) = es" if "b \<in> set ?now" for b
    using that assms set_takeWhileD [of b due "rp_boundaries r"]
    by (auto simp: replayed_def filter_id_conv filter_empty_conv not_le)
  have "map fst (rp_boundary_pnl r) @ ?now @ dropWhile due (rp_boundaries r) = bs"
    using assms(1) by (simp add: replayed_def)
  moreover have "\<forall>b \<in> set (dropWhile due (rp_boundaries r)). \<forall>e \<in> set es. event_ts e \<le> b"
    using assms(1) set_dropWhileD [of _ due "rp_boundaries r"] by (auto simp: replayed_def)
  moreover have "\<forall>b \<in> set ?now. fold_res apply_event (filter (\<lambda>e. event_ts e \<le> b) (es @ rest)) st0 = Inr (rp_states r)"
    using now assms(1) by (simp add: replayed_def)
  ultimately show ?thesis
    using assms(1) unfolding replayed_def capture_boundaries_def by (auto simp: comp_def)
qed

lemma replayed_before:
  assumes "replayed st0 selected bs es (e # rest) r" "replay_before selected e r = Inr r'"
    "sorted (map event_ts (e # rest))" "sorted bs"
  shows "replayed st0 selected bs (es @ [e]) rest r'"
proof -
  let ?r = "capture_boundaries (\<lambda>b. b < event_ts e) selected r"
  have c: "replayed st0 selected bs es (e # rest) ?r"
    by (rule replayed_capture [OF assms(1)]) (use assms(3) in \<open>fastforce dest: set_takeWhileD\<close>)
  have "sorted (rp_boundaries r)" using assms(1,4) by (auto simp: replayed_def sorted_append)
  then have "rp_boundaries ?r = filter (\<lambda>b. event_ts e \<le> b) (rp_boundaries r)"
    using sorted_dropWhile_filter [of id] by (simp add: capture_boundaries_def)
  moreover obtain states where st: "apply_event e (rp_states ?r) = Inr states" "r' = ?r\<lparr>rp_states := states\<rparr>"
    using assms(2) by (auto simp: replay_before_def Let_def bind_res_Inr)
  moreover have "fold_res apply_event (es @ [e]) st0 = Inr states"
    using c st(1) by (simp add: replayed_def fold_res_append)
  moreover have a: "(es @ [e]) @ rest = es @ e # rest" by simp
  ultimately show ?thesis using c unfolding replayed_def a by (simp del: filter_append)
qed

lemma replayed_fields:
  assumes "replayed st0 selected bs es rest r" "rp_states r' = rp_states r" "rp_boundaries r' = rp_boundaries r"
    "rp_boundary_pnl r' = rp_boundary_pnl r"
  shows "replayed st0 selected bs es rest r'"
  using assms by (simp add: replayed_def)

lemma push_symbol_point_fields [simp]:
  "rp_states (push_symbol_point s p r) = rp_states r" "rp_boundaries (push_symbol_point s p r) = rp_boundaries r"
  "rp_boundary_pnl (push_symbol_point s p r) = rp_boundary_pnl r" "rp_points (push_symbol_point s p r) = rp_points r"
  by (simp_all add: push_symbol_point_def split: option.splits)

lemma start_points_fields [simp]:
  "rp_states (start_points t bl ss sel r) = rp_states r" "rp_boundaries (start_points t bl ss sel r) = rp_boundaries r"
  "rp_boundary_pnl (start_points t bl ss sel r) = rp_boundary_pnl r"
  by (simp_all add: start_points_def)

lemma fold_fields:
  assumes "\<forall>x r. f (g x r) = f r" shows "f (fold g xs r) = f r"
  using assms by (induction xs arbitrary: r) auto

lemma end_points_fields [simp]:
  "rp_states (end_points t bl ss sel r) = rp_states r" "rp_boundaries (end_points t bl ss sel r) = rp_boundaries r"
  "rp_boundary_pnl (end_points t bl ss sel r) = rp_boundary_pnl r"
  "rp_points (end_points t bl ss sel r) = push_or_replace_point (rp_points r) (aggregate_point t (rp_states r) bl sel)"
  unfolding end_points_def
  by (subst fold_fields, simp, simp)+

lemma replayed_shown:
  assumes "replayed st0 selected bs es (e # rest) r" "replay_shown bl selected e r = Inr r'"
    "sorted (map event_ts (e # rest))" "sorted bs"
  shows "replayed st0 selected bs (es @ [e]) rest r'"
proof -
  obtain r1 where r1: "replay_before selected e r = Inr r1" using assms(2) by (auto simp: replay_shown_def bind_res_Inr)
  have "rp_states r' = rp_states r1" "rp_boundaries r' = rp_boundaries r1" "rp_boundary_pnl r' = rp_boundary_pnl r1"
    using assms(2) r1 by (auto simp: replay_shown_def Let_def split: if_splits)
  then show ?thesis by (rule replayed_fields [OF replayed_before [OF assms(1) r1 assms(3,4)]])
qed

text \<open>Both loops of the replay, over the events \<open>es\<close>.\<close>

lemma replayed_fold:
  assumes "\<And>e r r' ds rest. replayed st0 selected bs ds (e # rest) r \<Longrightarrow> f e r = Inr r' \<Longrightarrow>
      sorted (map event_ts (e # rest)) \<Longrightarrow> replayed st0 selected bs (ds @ [e]) rest r'"
    and "replayed st0 selected bs ds (es @ rest) r" "fold_res f es r = Inr r'" "sorted (map event_ts (es @ rest))"
  shows "replayed st0 selected bs (ds @ es) rest r'"
  using assms(2-4)
proof (induction es arbitrary: ds r)
  case (Cons e es)
  then obtain r1 where r1: "f e r = Inr r1" "fold_res f es r1 = Inr r'" by (auto simp: bind_res_Inr)
  have "replayed st0 selected bs (ds @ [e]) (es @ rest) r1"
    by (rule assms(1) [OF _ r1(1)]) (use Cons.prems in simp_all)
  from Cons.IH [OF this r1(2)] Cons.prems(3) show ?case by simp
qed simp

lemma rolling_boundaries_sorted: "sorted (rolling_boundaries rq)"
  using sorted_dedup_key [of id "sort (filter (\<lambda>b. rq_strategy_start_ms rq \<le> b) (map (\<lambda>window. rq_end_ms rq - window) rolling_windows_ms))"]
  by (simp add: rolling_boundaries_def strict_sorted_iff)

lemma set_rolling_boundaries:
  "set (rolling_boundaries rq) = {b. rq_strategy_start_ms rq \<le> b \<and> (\<exists>w \<in> set rolling_windows_ms. b = rq_end_ms rq - w)}"
  using set_map_dedup_key [of id "sort (filter (\<lambda>b. rq_strategy_start_ms rq \<le> b) (map (\<lambda>window. rq_end_ms rq - window) rolling_windows_ms))"]
  by (auto simp: rolling_boundaries_def)

lemma capture_all [simp]:
  "rp_boundaries (capture_boundaries (\<lambda>_. True) sel r) = []" "rp_states (capture_boundaries due sel r) = rp_states r"
  "rp_points (capture_boundaries due sel r) = rp_points r"
  "rp_symbol_points (capture_boundaries due sel r) = rp_symbol_points r"
  by (simp_all add: capture_boundaries_def)

text \<open>A replay that succeeds ends in the states at the end of the request, its baselines are the metrics just
  before the start, and it captures, for each rolling window, the value at its boundary.\<close>

lemma replay_request_states:
  assumes "replay_request h inputs rq = Inr (bl, r)" "rq_start_ms rq \<le> rq_end_ms rq"
  defines "sel \<equiv> h (select_symbols (available_symbols inputs) (rq_selected_symbols rq))"
  shows "states_at inputs rq (rq_end_ms rq) = Inr (rp_states r)"
    and "\<exists>st. states_at inputs rq (rq_start_ms rq - 1) = Inr st \<and> bl = (\<lambda>s. map_option symbol_metrics (st s))"
    and "map fst (rp_boundary_pnl (capture_boundaries (\<lambda>_. True) sel r)) = rolling_boundaries rq"
    and "\<forall>(b, v) \<in> set (rp_boundary_pnl (capture_boundaries (\<lambda>_. True) sel r)).
      \<exists>st. states_at inputs rq b = Inr st \<and> v = selected_total_pnl st sel"
proof -
  let ?evs = "sorted_events inputs" and ?bs = "rolling_boundaries rq"
  let ?ss = "select_symbols (available_symbols inputs) (rq_selected_symbols rq)"
  define split where "split = length (takeWhile (\<lambda>e. event_ts e < rq_start_ms rq) ?evs)"
  define pre where "pre = takeWhile (\<lambda>e. event_ts e < rq_start_ms rq) ?evs"
  define post where "post = dropWhile (\<lambda>e. event_ts e < rq_start_ms rq) ?evs"
  define shown where "shown = takeWhile (\<lambda>e. event_ts e \<le> rq_end_ms rq) post"
  define late where "late = dropWhile (\<lambda>e. event_ts e \<le> rq_end_ms rq) post"
  have td: "take split ?evs = pre" "drop split ?evs = post"
    by (simp_all add: split_def pre_def post_def takeWhile_eq_take [symmetric] dropWhile_eq_drop [symmetric])
  have evs: "?evs = pre @ post" "post = shown @ late" by (simp_all add: pre_def post_def shown_def late_def)
  have so: "sorted (map event_ts ?evs)" by (rule sorted_events_ts)
  have sp: "sorted (map event_ts post)" using so evs(1) by (simp add: sorted_append)
  have pre_f: "pre = filter (\<lambda>e. event_ts e < rq_start_ms rq) ?evs" unfolding pre_def by (rule sorted_takeWhile_filter [OF so])
  have post_f: "post = filter (\<lambda>e. rq_start_ms rq \<le> event_ts e) ?evs" unfolding post_def by (rule sorted_dropWhile_filter [OF so])
  have late_f: "\<forall>e \<in> set late. rq_end_ms rq < event_ts e"
    unfolding late_def sorted_dropWhile_filter_le [OF sp] by simp
  have shown_f: "\<forall>e \<in> set shown. event_ts e \<le> rq_end_ms rq" by (auto simp: shown_def dest: set_takeWhileD)
  obtain st0 r1 r3 where st0: "seeded_states inputs rq = Inr st0"
    and r1: "fold_res (replay_before sel) pre \<lparr>rp_states = st0, rp_boundaries = ?bs, rp_boundary_pnl = [], rp_points = [],
       rp_symbol_points = (\<lambda>_. None)\<rparr> = Inr r1"
    and r3: "fold_res (replay_shown bl sel) shown
      (start_points (rq_start_ms rq) bl ?ss sel (capture_boundaries (\<lambda>b. b < rq_start_ms rq) sel r1)) = Inr r3"
    and bl: "bl = (\<lambda>s. map_option symbol_metrics (rp_states (capture_boundaries (\<lambda>b. b < rq_start_ms rq) sel r1) s))"
    and r: "r = end_points (rq_end_ms rq) bl ?ss sel r3"
    using assms(1) by (auto simp: replay_request_def Let_def bind_res_Inr seeded_states_def sel_def td shown_def
        split_def [symmetric] simp del: capture_all)
  have A0: "replayed st0 sel ?bs [] (pre @ post) \<lparr>rp_states = st0, rp_boundaries = ?bs, rp_boundary_pnl = [], rp_points = [],
       rp_symbol_points = (\<lambda>_. None)\<rparr>"
    by (simp add: replayed_def)
  have A1: "replayed st0 sel ?bs pre post r1"
    using replayed_fold [OF replayed_before A0 r1] so evs(1) rolling_boundaries_sorted by simp
  have "\<forall>e \<in> set post. rq_start_ms rq \<le> event_ts e" using post_f by auto
  then have A2: "replayed st0 sel ?bs pre post (capture_boundaries (\<lambda>b. b < rq_start_ms rq) sel r1)"
    by (intro replayed_capture [OF A1]) (fastforce dest: set_takeWhileD)
  have A3: "replayed st0 sel ?bs pre (shown @ late)
      (start_points (rq_start_ms rq) bl ?ss sel (capture_boundaries (\<lambda>b. b < rq_start_ms rq) sel r1))"
    using A2 evs(2) by (intro replayed_fields [OF A2 [unfolded evs(2)]]) simp_all
  have A4: "replayed st0 sel ?bs (pre @ shown) late r3"
    using replayed_fold [OF replayed_shown A3 r3] sp evs(2) rolling_boundaries_sorted by simp
  have A5: "replayed st0 sel ?bs (pre @ shown) late r" by (rule replayed_fields [OF A4]) (simp_all add: r)
  have A6: "replayed st0 sel ?bs (pre @ shown) late (capture_boundaries (\<lambda>_. True) sel r)"
  proof (rule replayed_capture [OF A5], intro ballI)
    fix b e assume b: "b \<in> set (takeWhile (\<lambda>_. True) (rp_boundaries r))" and e: "e \<in> set late"
    have "map fst (rp_boundary_pnl r) @ rp_boundaries r = ?bs" using A5 by (simp add: replayed_def)
    then have "set (rp_boundaries r) \<subseteq> set ?bs" by (metis set_append Un_upper2)
    then have "b \<in> set ?bs" using b by (auto dest: set_takeWhileD)
    then have "b \<le> rq_end_ms rq" by (auto simp: set_rolling_boundaries rolling_windows_ms_def day_ms_def)
    then show "b < event_ts e" using late_f e by fastforce
  qed
  have pre_lt: "\<forall>e \<in> set pre. event_ts e \<le> rq_end_ms rq" using assms(2) by (subst pre_f) auto
  have "filter (\<lambda>e. event_ts e \<le> rq_end_ms rq) ?evs = pre @ shown"
    using shown_f late_f pre_lt unfolding evs by (auto simp: filter_id_conv filter_empty_conv not_le)
  then show "states_at inputs rq (rq_end_ms rq) = Inr (rp_states r)"
    using A5 st0 by (simp add: states_at_def replayed_def)
  have "filter (\<lambda>e. event_ts e \<le> rq_start_ms rq - 1) ?evs = pre" unfolding pre_f by (rule filter_cong) auto
  then show "\<exists>st. states_at inputs rq (rq_start_ms rq - 1) = Inr st \<and> bl = (\<lambda>s. map_option symbol_metrics (st s))"
    using A1 st0 bl by (simp add: states_at_def replayed_def)
  show "map fst (rp_boundary_pnl (capture_boundaries (\<lambda>_. True) sel r)) = ?bs" using A6 by (simp add: replayed_def)
  show "\<forall>(b, v) \<in> set (rp_boundary_pnl (capture_boundaries (\<lambda>_. True) sel r)).
      \<exists>st. states_at inputs rq b = Inr st \<and> v = selected_total_pnl st sel"
    using A6 st0 evs unfolding replayed_def states_at_def by (simp del: filter_append append_assoc) (simp add: evs)
qed

end
