(* ===== verification/PnlReport.thy ===== *)
theory PnlReport
  imports PnlCalculate
begin

text \<open>
  Properties of \<open>calculate\<close> (\<open>src/src/pnl.rs\<close>): when it succeeds, what its rolling windows mean, that positions and
  FIFO lots agree at the end of a replay, and how the chart and the tables of its response fit together.
\<close>

section \<open>When a calculation succeeds\<close>

text \<open>Inputs that no engine rejects.  An amount engine is given the quote amount, a quantity engine the quantity;
  an interest event touches a quantity engine only.\<close>

definition fill_of_trade :: "pnl_source_kind \<Rightarrow> normalized_trade \<Rightarrow> fill" where
  "fill_of_trade k t = \<lparr>fill_side = nt_side t, fill_price = nt_price t,
     fill_size = (if k = MarketMaking then nt_amount_u t else nt_quantity t), fill_fee = or_default 0 (nt_fee_usdt t)\<rparr>"

definition positive :: "f64 \<Rightarrow> bool" where
  "positive x \<longleftrightarrow> is_finite x \<and> 0 < x"

definition interest_ok :: "pnl_source_kind \<Rightarrow> interest_event \<Rightarrow> bool" where
  "interest_ok k i \<longleftrightarrow> k = MarketMaking \<or> feq (ie_spot_quantity_delta i) 0 \<or>
     is_finite (ie_spot_quantity_delta i) \<and>
     (case ie_conversion_price i of
        Some p \<Rightarrow> positive p
      | None \<Rightarrow> (case ie_cost_usdt i of
          Some c \<Rightarrow> is_finite c \<and> 0 < c \<longrightarrow> positive (c / \<bar>ie_spot_quantity_delta i\<bar>)
        | None \<Rightarrow> True))"

fun event_ok :: "pnl_source_kind \<Rightarrow> pnl_event \<Rightarrow> bool" where
  "event_ok k (Trade t) \<longleftrightarrow> valid_fill (fill_of_trade k t)"
| "event_ok k (Funding f) \<longleftrightarrow> True"
| "event_ok k (Interest i) \<longleftrightarrow> interest_ok k i"

definition seed_ok :: "pnl_source_kind \<Rightarrow> f64 \<Rightarrow> f64 \<Rightarrow> bool" where
  "seed_ok k price q \<longleftrightarrow> is_finite q \<and> (k = MarketMaking \<longrightarrow> f64_epsilon < \<bar>q\<bar> \<longrightarrow> positive (\<bar>q\<bar> * price))"

definition position_ok :: "pnl_source_kind \<Rightarrow> initial_position \<Rightarrow> bool" where
  "position_ok k p \<longleftrightarrow> positive (ip_mark_price p) \<and> seed_ok k (ip_mark_price p) (ip_spot_quantity p) \<and>
     seed_ok k (ip_mark_price p) (ip_futures_quantity p)"

definition inputs_ok :: "pnl_source_kind \<Rightarrow> pnl_inputs \<Rightarrow> bool" where
  "inputs_ok k inputs \<longleftrightarrow> (\<forall>p \<in> set (in_initial_positions inputs). position_ok k p) \<and>
     (\<forall>e \<in> set (sorted_events inputs). event_ok k e)"

text \<open>The engines of a symbol are of the kind of its source, and its mark price is a price.\<close>

definition symbol_ok :: "pnl_source_kind \<Rightarrow> symbol_state \<Rightarrow> bool" where
  "symbol_ok k s \<longleftrightarrow> uses_quantity (spot_fifo s) = (k \<noteq> MarketMaking) \<and> uses_quantity (futures_fifo s) = (k \<noteq> MarketMaking) \<and>
     (\<forall>p. mark_price s = Some p \<longrightarrow> positive p)"

lemma venue_fill_ok:
  assumes "uses_quantity v = (k \<noteq> MarketMaking)" "positive price" "positive (if k = MarketMaking then amount else qty)" "is_finite fee"
  shows "\<exists>v'. venue_apply_fill sd price amount qty fee v = Inr v' \<and> uses_quantity v' = (k \<noteq> MarketMaking)"
proof (cases v)
  case (AmountU q)
  let ?x = "\<lparr>fill_side = sd, fill_price = price, fill_size = amount, fill_fee = fee\<rparr>"
  have "valid_fill ?x" using AmountU assms by (simp add: valid_fill_def positive_def uses_quantity_def)
  then obtain q' where "fifo_fill ?x q = Inr q'" using fifo.fill_ok_iff by blast
  then obtain m where "apply_fill sd price amount fee q = Inr (m, q')"
    by (cases "apply_fill sd price amount fee q") (auto simp: fifo_fill_def)
  then show ?thesis using AmountU assms(1) by (simp add: venue_apply_fill_def uses_quantity_def)
next
  case (Quantity q)
  let ?x = "\<lparr>fill_side = sd, fill_price = price, fill_size = qty, fill_fee = fee\<rparr>"
  have "valid_fill ?x" using Quantity assms by (simp add: valid_fill_def positive_def uses_quantity_def)
  then obtain q' where "quantity_fill ?x q = Inr q'" using quantity.fill_ok_iff by blast
  then show ?thesis using Quantity assms(1) by (simp add: venue_apply_fill_def uses_quantity_def quantity_fill_def)
qed

lemma venue_snapshot_ok: "positive p \<Longrightarrow> \<exists>s. venue_snapshot p p v = Inr s"
  by (cases v) (auto simp: venue_snapshot_def snapshot_def floating_pnl_def q_snapshot_def validate_positive_def positive_def Let_def)

lemma mark_both_ok: "positive p \<Longrightarrow> \<exists>s'. mark_both c1 c2 p s = Inr s'"
  using venue_snapshot_ok [of p "spot_fifo s"] venue_snapshot_ok [of p "futures_fifo s"]
  by (auto simp: mark_both_def context_err_def)

lemma symbol_ok_mark:
  assumes "mark_both c1 c2 p s = Inr s'" "symbol_ok k s" shows "symbol_ok k s'"
  using assms(2) mark_both_fields [OF assms(1)] by (simp add: symbol_ok_def)

lemma trade_succeeds:
  assumes "symbol_ok k s" "valid_fill (fill_of_trade k t)"
  shows "\<exists>s'. apply_trade t s = Inr s' \<and> symbol_ok k s'"
proof -
  let ?fee = "or_default 0 (nt_fee_usdt t)"
  have v: "positive (nt_price t)" "positive (if k = MarketMaking then nt_amount_u t else nt_quantity t)" "is_finite ?fee"
    using assms(2) by (auto simp: valid_fill_def fill_of_trade_def positive_def)
  obtain s1 where s1: "(case nt_fee_usdt t of Some f \<Rightarrow> (s, f)
        | None \<Rightarrow> (s\<lparr>unconverted_fee_count := unconverted_fee_count s + 1\<rparr>, 0)) = (s1, ?fee)"
    and ok: "symbol_ok k s1" using assms(1) by (cases "nt_fee_usdt t") (auto simp: or_default_def symbol_ok_def)
  let ?v = "case nt_leg t of Spot \<Rightarrow> spot_fifo s1 | FuturesLeg \<Rightarrow> futures_fifo s1"
  have "uses_quantity ?v = (k \<noteq> MarketMaking)" using ok by (cases "nt_leg t") (auto simp: symbol_ok_def)
  then obtain v' where v': "venue_apply_fill (nt_side t) (nt_price t) (nt_amount_u t) (nt_quantity t) ?fee ?v = Inr v'"
    "uses_quantity v' = (k \<noteq> MarketMaking)" using venue_fill_ok [OF _ v] by blast
  define s4 where "s4 = (let s2 = (case nt_leg t of Spot \<Rightarrow> s1\<lparr>spot_fifo := v'\<rparr> | FuturesLeg \<Rightarrow> s1\<lparr>futures_fifo := v'\<rparr>);
             s3 = s2\<lparr>trade_count := trade_count s2 + 1, volume_usdt := volume_usdt s2 + nt_amount_u t\<rparr>;
             signed_quantity = (case nt_side t of Buy \<Rightarrow> nt_quantity t | Sell \<Rightarrow> - nt_quantity t)
        in (case nt_leg t of
                 Spot \<Rightarrow> s3\<lparr>spot_position_qty := spot_position_qty s3 + signed_quantity\<rparr>
               | FuturesLeg \<Rightarrow> s3\<lparr>futures_position_qty := futures_position_qty s3 + signed_quantity\<rparr>)\<lparr>mark_price := Some (nt_price t)\<rparr>)"
  have "symbol_ok k s4" using ok v'(2) v(1) by (cases "nt_leg t") (simp_all add: s4_def Let_def symbol_ok_def)
  moreover obtain s' where s': "mark_both ''mark spot FIFO at the latest symbol trade price'' ''mark futures FIFO at the latest symbol trade price''
      (nt_price t) s4 = Inr s'" using mark_both_ok [OF v(1)] by blast
  moreover have "apply_trade t s = Inr s'"
    using s1 v'(1) s' by (simp add: apply_trade_def s4_def Let_def context_err_def)
  ultimately show ?thesis using symbol_ok_mark by blast
qed

lemma interest_succeeds:
  assumes "symbol_ok k s" "interest_ok k i"
  shows "\<exists>s'. apply_interest i s = Inr s' \<and> symbol_ok k s'"
proof -
  let ?d = "ie_spot_quantity_delta i"
  have ch: "symbol_ok k s \<Longrightarrow> symbol_ok k (charge_interest i s)" for s by (simp add: symbol_ok_def)
  show ?thesis
  proof (cases "\<not> feq ?d 0 \<and> k \<noteq> MarketMaking")
    case False
    then show ?thesis using assms(1) ch by (auto simp: apply_interest_def Let_def symbol_ok_def)
  next
    case True
    then have d: "is_finite ?d" and u: "uses_quantity (spot_fifo s)"
      using assms by (auto simp: interest_ok_def symbol_ok_def)
    show ?thesis
    proof (cases "interest_price i s")
      case None
      then show ?thesis using True u assms(1) ch by (auto simp: apply_interest_def Let_def)
    next
      case (Some p)
      have p: "positive p"
        using Some assms True by (auto simp: interest_price_def interest_ok_def symbol_ok_def split: option.splits if_splits)
      obtain q where q: "?d = Fin q" "q \<noteq> 0" using d True by (auto simp: is_finite_iff feq_def zero_f64_def)
      then have "positive \<bar>?d\<bar>" by (simp add: positive_def)
      then obtain v' where v': "venue_apply_fill (if 0 < ?d then Buy else Sell) p (\<bar>?d\<bar> * p) \<bar>?d\<bar> 0 (spot_fifo s) = Inr v'"
        "uses_quantity v'" using venue_fill_ok [of "spot_fifo s" k p "\<bar>?d\<bar> * p" "\<bar>?d\<bar>" 0] u True p by (auto simp: zero_f64_def)
      let ?s = "s\<lparr>spot_fifo := v', mark_price := Some p\<rparr>"
      obtain s2 where s2: "mark_both ''mark spot FIFO at the interest conversion price''
          ''mark futures FIFO at the interest conversion price'' p ?s = Inr s2" using mark_both_ok [OF p] by blast
      have "symbol_ok k ?s" using assms(1) v'(2) True p by (simp add: symbol_ok_def)
      then have "symbol_ok k s2" by (rule symbol_ok_mark [OF s2])
      then have "symbol_ok k (charge_interest i (s2\<lparr>spot_position_qty := spot_position_qty s2 + ?d\<rparr>))"
        by (intro ch) (simp add: symbol_ok_def)
      then show ?thesis using True u Some v'(1) s2 by (simp add: apply_interest_def Let_def context_err_def)
    qed
  qed
qed

lemma event_succeeds:
  assumes "symbol_ok k s" "event_ok k e" shows "\<exists>s'. apply_symbol_event e s = Inr s' \<and> symbol_ok k s'"
  using assms trade_succeeds interest_succeeds
  by (cases e) (auto simp: apply_symbol_event_def symbol_ok_def)

lemma symbol_for_source_ok: "symbol_ok k (symbol_for_source k)"
  by (cases k) (auto simp: symbol_ok_def symbol_for_source_def venue_for_source_def default_venue_def uses_quantity_def)

lemma f64_le_or_less: "x \<noteq> NaN \<Longrightarrow> y \<noteq> NaN \<Longrightarrow> \<not> x \<le> y \<Longrightarrow> y < (x :: f64)"
  by (cases x rule: f64_cases3; cases y rule: f64_cases3) auto

lemma seed_fifo_succeeds:
  assumes "uses_quantity v = (k \<noteq> MarketMaking)" "positive price" "seed_ok k price q"
  shows "\<exists>v'. seed_fifo q price v = Inr v' \<and> uses_quantity v' = (k \<noteq> MarketMaking)"
proof (cases "\<bar>q\<bar> \<le> f64_epsilon")
  case True
  then show ?thesis using assms by (simp add: seed_fifo_def seed_ok_def)
next
  case False
  obtain r where r: "q = Fin r" using assms(3) by (auto simp: seed_ok_def is_finite_iff)
  have e: "f64_epsilon \<noteq> NaN" "\<not> f64_epsilon < 0" by (simp_all add: f64_epsilon_eq zero_f64_def)
  have lt: "f64_epsilon < \<bar>q\<bar>" using f64_le_or_less [OF _ e(1) False] r by simp
  have "r \<noteq> 0" using lt e r by (auto simp: zero_f64_def)
  then have "positive \<bar>q\<bar>" using r by (simp add: positive_def)
  then have "positive (if k = MarketMaking then \<bar>q\<bar> * price else \<bar>q\<bar>)" using assms(3) lt by (simp add: seed_ok_def)
  from venue_fill_ok [OF assms(1,2) this, of 0 "if 0 < q then Buy else Sell"]
  show ?thesis using False assms(3) by (auto simp: seed_fifo_def seed_ok_def context_err_def zero_f64_def)
qed

lemma seed_position_succeeds:
  assumes "symbol_ok k s" "position_ok k p" shows "\<exists>s'. seed_position p s = Inr s' \<and> symbol_ok k s'"
proof -
  have o: "positive (ip_mark_price p)" "seed_ok k (ip_mark_price p) (ip_spot_quantity p)"
    "seed_ok k (ip_mark_price p) (ip_futures_quantity p)" using assms(2) by (auto simp: position_ok_def)
  have u: "uses_quantity (spot_fifo s) = (k \<noteq> MarketMaking)" "uses_quantity (futures_fifo s) = (k \<noteq> MarketMaking)"
    using assms(1) by (auto simp: symbol_ok_def)
  obtain sp fu where sd: "seed_fifo (ip_spot_quantity p) (ip_mark_price p) (spot_fifo s) = Inr sp" "uses_quantity sp = (k \<noteq> MarketMaking)"
    "seed_fifo (ip_futures_quantity p) (ip_mark_price p) (futures_fifo s) = Inr fu" "uses_quantity fu = (k \<noteq> MarketMaking)"
    using seed_fifo_succeeds [OF u(1) o(1,2)] seed_fifo_succeeds [OF u(2) o(1,3)] by blast
  let ?s = "s\<lparr>spot_fifo := sp, futures_fifo := fu, spot_position_qty := ip_spot_quantity p,
             futures_position_qty := ip_futures_quantity p, mark_price := Some (ip_mark_price p)\<rparr>"
  have "symbol_ok k ?s" using sd o(1) by (simp add: symbol_ok_def)
  moreover obtain s' where s': "mark_both '''' '''' (ip_mark_price p) ?s = Inr s'" using mark_both_ok [OF o(1)] by blast
  moreover have "\<not> ip_mark_price p \<le> 0" "is_finite (ip_mark_price p)" using o(1) by (auto simp: positive_def less_not_le_f64)
  ultimately show ?thesis using sd symbol_ok_mark by (auto simp: seed_position_def)
qed

text \<open>The same for the states of all symbols, whose domain no operation changes.\<close>

definition states_ok :: "pnl_source_kind \<Rightarrow> string set \<Rightarrow> symbol_states \<Rightarrow> bool" where
  "states_ok k A states \<longleftrightarrow> dom states = A \<and> (\<forall>s x. states s = Some x \<longrightarrow> symbol_ok k x)"

lemma states_ok_update: "states_ok k A states \<Longrightarrow> s \<in> A \<Longrightarrow> symbol_ok k x \<Longrightarrow> states_ok k A (states(s \<mapsto> x))"
  by (auto simp: states_ok_def)

lemma apply_event_succeeds:
  assumes "states_ok k A states" "event_ok k e" "event_symbol e \<in> A"
  shows "\<exists>st. apply_event e states = Inr st \<and> states_ok k A st"
proof -
  obtain x where x: "states (event_symbol e) = Some x" "symbol_ok k x" using assms(1,3) by (auto simp: states_ok_def)
  from event_succeeds [OF x(2) assms(2)] obtain s' where "apply_symbol_event e x = Inr s'" "symbol_ok k s'" by blast
  then show ?thesis using x(1) states_ok_update [OF assms(1,3)] by (simp add: apply_event_def)
qed

lemma seed_initial_succeeds:
  assumes "states_ok k A states" "position_ok k p" "ip_symbol p \<in> A"
  shows "\<exists>st. seed_initial p states = Inr st \<and> states_ok k A st"
proof -
  obtain x where x: "states (ip_symbol p) = Some x" "symbol_ok k x" using assms(1,3) by (auto simp: states_ok_def)
  from seed_position_succeeds [OF x(2) assms(2)] obtain s' where "seed_position p x = Inr s'" "symbol_ok k s'" by blast
  then show ?thesis using x(1) states_ok_update [OF assms(1,3)] by (simp add: seed_initial_def)
qed

lemma fold_succeeds:
  assumes "\<And>x s. x \<in> set xs \<Longrightarrow> P s \<Longrightarrow> \<exists>s'. f x s = Inr s' \<and> P s'" "P s"
  shows "\<exists>s'. fold_res f xs s = Inr s' \<and> P s'"
  using assms
proof (induction xs arbitrary: s)
  case (Cons x xs)
  then obtain s1 where "f x s = Inr s1" "P s1" by (metis list.set_intros(1))
  then show ?case using Cons.IH [of s1] Cons.prems(1) by simp
qed simp

lemma set_available: "set (available_symbols inputs) = set (input_symbols inputs)"
  by (simp add: available_symbols_def)

lemma event_symbol_available: "e \<in> set (sorted_events inputs) \<Longrightarrow> event_symbol e \<in> set (available_symbols inputs)"
  unfolding set_available by (auto simp: sorted_events_def input_symbols_def)

lemma replay_succeeds:
  assumes "inputs_ok (rq_source rq) inputs"
  shows "\<exists>bl r. replay_request h inputs rq = Inr (bl, r)"
proof -
  let ?k = "rq_source rq" and ?A = "set (available_symbols inputs)"
  let ?ss = "select_symbols (available_symbols inputs) (rq_selected_symbols rq)"
  let ?sel = "h ?ss" and ?P = "\<lambda>r. states_ok (rq_source rq) (set (available_symbols inputs)) (rp_states r)"
  have ev: "event_ok ?k e" "event_symbol e \<in> ?A" if "e \<in> set (sorted_events inputs)" for e
    using that assms event_symbol_available by (auto simp: inputs_ok_def)
  have before: "\<exists>r'. replay_before ?sel e r = Inr r' \<and> ?P r'" if "e \<in> set (sorted_events inputs)" "?P r" for e r
    using apply_event_succeeds [OF that(2) ev [OF that(1)]] by (auto simp: replay_before_def Let_def)
  have shown: "\<exists>r'. replay_shown bl ?sel e r = Inr r' \<and> ?P r'" if "e \<in> set (sorted_events inputs)" "?P r" for e r bl
    using before [OF that] by (auto simp: replay_shown_def Let_def)
  have "states_ok ?k ?A (initial_states ?k (available_symbols inputs))"
    by (auto simp: states_ok_def initial_states_def symbol_for_source_ok split: if_splits)
  then have "\<exists>st. fold_res seed_initial (in_initial_positions inputs) (initial_states ?k (available_symbols inputs)) = Inr st \<and>
      states_ok ?k ?A st"
    by (intro fold_succeeds seed_initial_succeeds) (use assms in \<open>auto simp: inputs_ok_def set_available input_symbols_def\<close>)
  then obtain st0 where st0: "fold_res seed_initial (in_initial_positions inputs) (initial_states ?k (available_symbols inputs)) = Inr st0"
    "states_ok ?k ?A st0" by blast
  define split where "split = length (takeWhile (\<lambda>e. event_ts e < rq_start_ms rq) (sorted_events inputs))"
  let ?r0 = "\<lparr>rp_states = st0, rp_boundaries = rolling_boundaries rq, rp_boundary_pnl = [], rp_points = [],
            rp_symbol_points = (\<lambda>_. None)\<rparr>"
  have "\<exists>r. fold_res (replay_before ?sel) (take split (sorted_events inputs)) ?r0 = Inr r \<and> ?P r"
    by (rule fold_succeeds) (use before st0(2) in \<open>auto dest: in_set_takeD\<close>)
  then obtain r1 where r1: "fold_res (replay_before ?sel) (take split (sorted_events inputs)) ?r0 = Inr r1" "?P r1" by blast
  define bl where "bl = (\<lambda>s. map_option symbol_metrics (rp_states (capture_boundaries (\<lambda>b. b < rq_start_ms rq) ?sel r1) s))"
  have "\<exists>r. fold_res (replay_shown bl ?sel) (takeWhile (\<lambda>e. event_ts e \<le> rq_end_ms rq) (drop split (sorted_events inputs)))
      (start_points (rq_start_ms rq) bl ?ss ?sel (capture_boundaries (\<lambda>b. b < rq_start_ms rq) ?sel r1)) = Inr r \<and> ?P r"
  proof (rule fold_succeeds)
    fix e and r :: replay_state
    assume "e \<in> set (takeWhile (\<lambda>e. event_ts e \<le> rq_end_ms rq) (drop split (sorted_events inputs)))" "?P r"
    then show "\<exists>r'. replay_shown bl ?sel e r = Inr r' \<and> ?P r'"
      by (intro shown) (auto dest: set_takeWhileD in_set_dropD)
  qed (use r1(2) in simp)
  then show ?thesis
    using st0(1) r1(1) by (auto simp: replay_request_def Let_def split_def [symmetric] bl_def simp del: capture_all)
qed

text \<open>C38: On inputs that no engine rejects, a calculation fails exactly when one of its checks on the request does,
  with that check's message; no event, seed or mark can make it fail.\<close>

theorem calculate_fails_iff:
  assumes "inputs_ok (rq_source rq) inputs"
  shows "case calculate_checks inputs rq of
      Some message \<Rightarrow> calculate h inputs rq = Inl (Bail message)
    | None \<Rightarrow> \<exists>rs. calculate h inputs rq = Inr rs"
  using replay_succeeds [OF assms, of h] by (auto simp: calculate_def split: option.splits)

text \<open>A sample request: two fills of one symbol around the boundary of the seven-day window.\<close>

definition sample_trade :: "side \<Rightarrow> rat \<Rightarrow> int \<Rightarrow> normalized_trade" where
  "sample_trade sd price ts = \<lparr>nt_symbol = ''A'', nt_side = sd, nt_leg = Spot, nt_price = Fin price, nt_amount_u = Fin (2 * price),
     nt_quantity = Fin 2, nt_fee_usdt = Some (Fin 0), nt_ts = ts\<rparr>"

definition sample_inputs :: pnl_inputs where
  "sample_inputs = \<lparr>in_trades = [sample_trade Sell 5 (7 * day_ms + 50), sample_trade Buy 3 40], in_funding = [],
     in_interest = [], in_initial_positions = []\<rparr>"

definition sample_request :: pnl_calculation where
  "sample_request = \<lparr>rq_source = Intra, rq_exchange = ''binance'', rq_strategy_start_ms = 0, rq_start_ms = 7 * day_ms,
     rq_end_ms = 7 * day_ms + 100, rq_selected_symbols = [], rq_max_points = 100, rq_initial_snapshot_ts_ms = None,
     rq_skipped_initial_position_count = 0, rq_principal_usdt = None\<rparr>"

lemma sample_events: "set (sorted_events sample_inputs) = {Trade (sample_trade Sell 5 (7 * day_ms + 50)), Trade (sample_trade Buy 3 40)}"
  by (auto simp: sorted_events_def sample_inputs_def)

lemma sample_ok: "inputs_ok (rq_source sample_request) sample_inputs"
  by (simp add: inputs_ok_def sample_events sample_request_def)
    (simp add: sample_inputs_def sample_trade_def fill_of_trade_def valid_fill_def or_default_def zero_f64_def)

lemma sample_symbols: "available_symbols sample_inputs = [''A'']" "select_symbols [''A''] (rq_selected_symbols sample_request) = [''A'']"
  by (simp_all add: available_symbols_def input_symbols_def sample_inputs_def sample_trade_def select_symbols_def sample_request_def)

lemma sample_checks: "calculate_checks sample_inputs sample_request = None"
  using sample_symbols by (simp add: calculate_checks_def) (simp add: sample_request_def day_ms_def)

lemma calculate_fails_iff_witness:
  "\<exists>rs. calculate id sample_inputs sample_request = Inr rs"
  using calculate_fails_iff [OF sample_ok, of id] sample_checks by simp

lemma sample_replays: "\<exists>bl r. replay_request id sample_inputs sample_request = Inr (bl, r)"
  by (rule replay_succeeds [OF sample_ok])

lemma sample_calculates: "\<exists>rs. calculate id sample_inputs sample_request = Inr rs"
  using sample_replays sample_checks by (auto simp: calculate_def)

section \<open>Rolling windows\<close>

definition pnl_until :: "pnl_inputs \<Rightarrow> pnl_calculation \<Rightarrow> string list \<Rightarrow> int \<Rightarrow> f64" where
  "pnl_until inputs rq selected t =
     (case states_at inputs rq t of Inr states \<Rightarrow> selected_total_pnl states selected | Inl _ \<Rightarrow> 0)"

lemma calculate_Inr:
  assumes "calculate h inputs rq = Inr rs"
  obtains bl r where "replay_request h inputs rq = Inr (bl, r)" "rs = build_response h inputs rq bl r"
    "rq_strategy_start_ms rq \<le> rq_start_ms rq" "rq_start_ms rq \<le> rq_end_ms rq"
  using assms by (auto simp: calculate_def calculate_checks_def bind_res_Inr split: option.splits if_splits)

lemma find_fst: "(\<exists>x \<in> set xs. fst x = b) \<Longrightarrow> \<exists>v. find (\<lambda>(t, _). t = b) xs = Some (b, v) \<and> (b, v) \<in> set xs"
  by (induction xs) auto

lemma rolling_window:
  assumes "map fst bp = rolling_boundaries rq" "w \<in> set rolling_windows_ms" "rq_strategy_start_ms rq < rq_end_ms rq"
    and "\<forall>(b, v) \<in> set bp. v = f b"
  shows "\<exists>x. rolling (rq_strategy_start_ms rq) (rq_end_ms rq) p bp total_pnl w = Some x \<and> rw_window_ms x = w \<and>
    rw_covered_ms x = min w (rq_end_ms rq - rq_strategy_start_ms rq) \<and>
    rw_pnl_usdt x = clean_zero (total_pnl - (if rq_strategy_start_ms rq \<le> rq_end_ms rq - w then f (rq_end_ms rq - w) else 0))"
proof -
  let ?b = "rq_end_ms rq - w" and ?s = "rq_strategy_start_ms rq"
  have w: "0 < w" using assms(2) by (auto simp: rolling_windows_ms_def day_ms_def)
  have c: "rq_end_ms rq - max ?b ?s = min w (rq_end_ms rq - ?s)" by (simp add: max_def min_def)
  show ?thesis
  proof (cases "?s \<le> ?b")
    case True
    then have "?b \<in> set (map fst bp)" using assms(1,2) by (auto simp: set_rolling_boundaries)
    then have "\<exists>x \<in> set bp. fst x = ?b" unfolding set_map by (elim imageE) (rule bexI, rule sym)
    from find_fst [OF this] obtain v where v: "find (\<lambda>(t, _). t = ?b) bp = Some (?b, v)" "(?b, v) \<in> set bp"
      by (elim exE conjE)
    then have "v = f ?b" using assms(4) by blast
    then show ?thesis using v True c w assms(3) by (simp add: rolling_def Let_def)
  next
    case False
    then show ?thesis using c w assms(3) by (simp add: rolling_def Let_def)
  qed
qed

text \<open>C3: The rolling returns of a successful calculation: a window covers its length or the history there is,
  whichever is shorter, and its PnL is the total after all events up to the end less the total after all events
  up to and including its boundary (zero before the strategy started).\<close>

theorem rolling_pnl_correct:
  assumes "calculate h inputs rq = Inr rs" "rq_strategy_start_ms rq < rq_end_ms rq"
  shows "let pnl = pnl_until inputs rq (h (rs_selected_symbols rs)); s = rq_strategy_start_ms rq; e = rq_end_ms rq;
      ok = (\<lambda>w x. rw_window_ms x = w \<and> rw_covered_ms x = min w (e - s) \<and>
        rw_pnl_usdt x = clean_zero (pnl e - (if s \<le> e - w then pnl (e - w) else 0)))
    in (\<exists>x. pf_rolling_7d (rs_performance rs) = Some x \<and> ok (7 * day_ms) x) \<and>
       (\<exists>x. pf_rolling_30d (rs_performance rs) = Some x \<and> ok (30 * day_ms) x)"
proof -
  obtain bl r where r: "replay_request h inputs rq = Inr (bl, r)" "rs = build_response h inputs rq bl r"
    "rq_start_ms rq \<le> rq_end_ms rq" using calculate_Inr [OF assms(1)] by metis
  let ?sel = "h (select_symbols (available_symbols inputs) (rq_selected_symbols rq))"
  let ?r = "capture_boundaries (\<lambda>_. True) ?sel r"
  note s = replay_request_states [OF r(1,3)]
  have f: "\<forall>(b, v) \<in> set (rp_boundary_pnl ?r). v = pnl_until inputs rq ?sel b"
    using s(4) by (auto simp: pnl_until_def)
  have e: "selected_total_pnl (rp_states r) ?sel = pnl_until inputs rq ?sel (rq_end_ms rq)"
    using s(1) by (simp add: pnl_until_def)
  note w = rolling_window [OF s(3) _ assms(2) f]
  have m: "7 * day_ms \<in> set rolling_windows_ms" "30 * day_ms \<in> set rolling_windows_ms"
    by (simp_all add: rolling_windows_ms_def)
  let ?roll = "rolling (rq_strategy_start_ms rq) (rq_end_ms rq) (usable_principal (rq_principal_usdt rq)) (rp_boundary_pnl ?r)
    (selected_total_pnl (rp_states r) ?sel)"
  have p: "pf_rolling_7d (rs_performance rs) = ?roll (7 * day_ms)" "pf_rolling_30d (rs_performance rs) = ?roll (30 * day_ms)"
    "rs_selected_symbols rs = select_symbols (available_symbols inputs) (rq_selected_symbols rq)"
    unfolding r(2) by (simp_all add: build_response_def build_performance_def Let_def rolling_windows_ms_def split_beta)
  show ?thesis unfolding Let_def p e
    by (intro conjI w m)
qed

lemma rolling_pnl_correct_witness:
  "\<exists>rs. calculate id sample_inputs sample_request = Inr rs \<and>
     (\<exists>x. pf_rolling_7d (rs_performance rs) = Some x \<and> rw_covered_ms x = 7 * day_ms) \<and>
     (\<exists>x. pf_rolling_30d (rs_performance rs) = Some x \<and> rw_covered_ms x = 7 * day_ms + 100)"
proof -
  obtain rs where rs: "calculate id sample_inputs sample_request = Inr rs" using sample_calculates by blast
  have p: "rq_strategy_start_ms sample_request < rq_end_ms sample_request" by (simp add: sample_request_def day_ms_def)
  show ?thesis using rolling_pnl_correct [OF rs p] rs
    by (auto simp: Let_def sample_request_def day_ms_def)
qed

section \<open>Positions and lots\<close>

lemma seed_initial_symbol:
  assumes "fold_res seed_initial ps states = Inr states'" "states s = Some x" "distinct (map ip_symbol ps)"
  shows "\<exists>x'. states' s = Some x' \<and> (x' = x \<or> (\<exists>p \<in> set ps. ip_symbol p = s \<and> seed_position p x = Inr x'))"
  using assms
proof (induction ps arbitrary: states x)
  case (Cons p ps)
  then obtain st where st: "seed_initial p states = Inr st" "fold_res seed_initial ps st = Inr states'"
    by (auto simp: bind_res_Inr)
  show ?case
  proof (cases "ip_symbol p = s")
    case True
    then obtain y where y: "seed_position p x = Inr y" "st s = Some y"
      using st(1) Cons.prems(2) by (auto simp: seed_initial_def bind_res_Inr split: option.splits)
    then obtain x' where "states' s = Some x'" "x' = y \<or> (\<exists>q \<in> set ps. ip_symbol q = s \<and> seed_position q y = Inr x')"
      using Cons.IH [OF st(2) y(2)] Cons.prems(3) by auto
    then show ?thesis using True y(1) Cons.prems(3) by (auto simp: image_iff)
  next
    case False
    then have "st s = Some x" using st(1) Cons.prems(2) by (auto simp: seed_initial_def bind_res_Inr split: option.splits)
    from Cons.IH [OF st(2) this] show ?thesis using Cons.prems(3) by auto
  qed
qed simp

lemma seed_initial_dom: "fold_res seed_initial ps states = Inr states' \<Longrightarrow> dom states' = dom states"
proof (induction ps arbitrary: states)
  case (Cons p ps)
  then obtain st where st: "seed_initial p states = Inr st" "fold_res seed_initial ps st = Inr states'"
    by (auto simp: bind_res_Inr)
  then have "dom st = dom states" by (fastforce simp: seed_initial_def bind_res_Inr split: option.splits if_splits)
  then show ?case using Cons.IH [OF st(2)] by simp
qed simp

lemma fold_apply_event_dom: "fold_res apply_event es states = Inr states' \<Longrightarrow> dom states' = dom states"
proof (induction es arbitrary: states)
  case (Cons e es)
  then obtain st where "apply_event e states = Inr st" "fold_res apply_event es st = Inr states'"
    by (auto simp: bind_res_Inr)
  then show ?case using Cons.IH apply_event_dom by metis
qed simp

lemma event_size_nonneg: "0 \<le> event_size e"
  by (cases e) auto

lemma sum_filter_le:
  assumes "\<forall>x \<in> set xs. 0 \<le> (f x :: rat)" shows "sum_list (map f (filter P xs)) \<le> sum_list (map f xs)"
  using assms by (induction xs) auto

lemma member_le_sum:
  assumes "\<forall>x \<in> set xs. 0 \<le> (f x :: rat)" "x \<in> set xs" shows "f x \<le> sum_list (map f xs)"
  using assms
proof (induction xs)
  case (Cons y ys)
  have "0 \<le> sum_list (map f ys)" using Cons.prems(1) by (intro sum_list_nonneg) auto
  then show ?case using Cons by fastforce
qed simp

text \<open>Inputs whose sizes are whole multiples of a power of two and together stay in the exact range.\<close>

definition exact_inputs :: "int \<Rightarrow> pnl_inputs \<Rightarrow> bool" where
  "exact_inputs g inputs \<longleftrightarrow> unit_exp g \<and> distinct (map ip_symbol (in_initial_positions inputs)) \<and>
     list_all (exact_position g) (in_initial_positions inputs) \<and> list_all (exact_event g) (sorted_events inputs) \<and>
     sum_list (map position_size (in_initial_positions inputs)) + sum_list (map event_size (sorted_events inputs)) \<le> max_units g"

lemma states_at_aligned:
  assumes "states_at inputs rq t = Inr states" "states s = Some x" "rq_source rq \<noteq> MarketMaking" "exact_inputs g inputs"
  shows "\<exists>b. aligned g b x"
proof -
  let ?ps = "in_initial_positions inputs" and ?es = "filter (\<lambda>e. event_ts e \<le> t) (sorted_events inputs)"
  have u: "unit_exp g" and ex: "list_all (exact_event g) (sorted_events inputs)"
    and sum: "sum_list (map position_size ?ps) + sum_list (map event_size (sorted_events inputs)) \<le> max_units g"
    using assms(4) by (simp_all add: exact_inputs_def)
  obtain st0 where st0: "seeded_states inputs rq = Inr st0" "fold_res apply_event ?es st0 = Inr states"
    using assms(1) by (auto simp: states_at_def bind_res_Inr)
  have "s \<in> dom st0" using fold_apply_event_dom [OF st0(2)] assms(2) by auto
  then obtain y where y: "st0 s = Some y" by blast
  have "s \<in> dom (initial_states (rq_source rq) (available_symbols inputs))"
    using seed_initial_dom st0(1) \<open>s \<in> dom st0\<close> unfolding seeded_states_def by metis
  then have i: "initial_states (rq_source rq) (available_symbols inputs) s = Some (symbol_for_source (rq_source rq))"
    by (auto simp: initial_states_def split: if_splits)
  have nn: "\<forall>p \<in> set ?ps. 0 \<le> position_size p" "\<forall>e \<in> set (sorted_events inputs). 0 \<le> event_size e"
    by (auto simp: position_size_def event_size_nonneg)
  have ne: "0 \<le> sum_list (map event_size (sorted_events inputs))" "0 \<le> sum_list (map position_size ?ps)"
    using nn by (auto intro!: sum_list_nonneg)
  have seed: "aligned g (sum_list (map position_size ?ps)) y"
  proof -
    consider "y = symbol_for_source (rq_source rq)"
      | p where "p \<in> set ?ps" "seed_position p (symbol_for_source (rq_source rq)) = Inr y"
      using seed_initial_symbol [OF st0(1) [unfolded seeded_states_def] i] assms(4) y by (auto simp: exact_inputs_def)
    then show ?thesis
    proof cases
      case 1
      then show ?thesis using aligned_start [OF assms(3), of g] ne(2) leg_ok_mono [of g 0]
        by (auto simp: aligned_def)
    next
      case (2 p)
      have le: "position_size p \<le> sum_list (map position_size ?ps)" by (rule member_le_sum [OF nn(1) 2(1)])
      have "aligned g (position_size p) y"
        by (rule aligned_seed [OF assms(3) 2(2) u]) (use assms(4) 2(1) le ne(1) sum in \<open>auto simp: exact_inputs_def list_all_iff\<close>)
      then show ?thesis using le leg_ok_mono [of g "position_size p"] by (auto simp: aligned_def)
    qed
  qed
  let ?fs = "filter (\<lambda>e. event_symbol e = s) ?es"
  obtain x' where x': "states s = Some x'" "fold_res apply_symbol_event ?fs y = Inr x'"
    using replay_symbol [OF st0(2) y] by blast
  have "sum_list (map event_size ?fs) \<le> sum_list (map event_size (sorted_events inputs))"
    using sum_filter_le [OF nn(2), of "\<lambda>e. event_symbol e = s \<and> event_ts e \<le> t"] by (simp add: conj_commute)
  then have "aligned g (sum_list (map position_size ?ps) + sum_list (map event_size ?fs)) x'"
    by (intro aligned_events [OF seed x'(2) u]) (use ex sum in \<open>auto simp: list_all_iff\<close>)
  then show ?thesis using x'(1) assms(2) by auto
qed


lemma sample_exact: "exact_inputs 0 sample_inputs"
proof -
  have "sum_list (map event_size (sorted_events sample_inputs)) = 4"
    by (simp add: sorted_events_def sample_inputs_def sample_trade_def event_order_def less_eq_prod_def day_ms_def)
  moreover have "units 0 2" unfolding units_def by (intro exI [of _ 2]) simp
  moreover have "rnd 2 = Fin 2" "rnd 3 = Fin 3" "rnd 5 = Fin 5" using rnd_of_int [of 2] rnd_of_int [of 3] rnd_of_int [of 5] by simp_all
  ultimately show ?thesis
    by (simp add: exact_inputs_def list_all_iff sample_events)
      (simp add: sample_inputs_def sample_trade_def unit_exp_def max_units_def)
qed


section \<open>Chart and tables\<close>

definition chart_ok :: "int \<Rightarrow> int \<Rightarrow> pnl_point list \<Rightarrow> bool" where
  "chart_ok start t points \<longleftrightarrow> points \<noteq> [] \<and> sorted_wrt (<) (map pp_ts points) \<and> pp_ts (hd points) = start \<and>
     pp_ts (last points) \<le> t"

lemma chart_ok_mono: "chart_ok start t points \<Longrightarrow> t \<le> t' \<Longrightarrow> chart_ok start t' points"
  by (simp add: chart_ok_def)

lemma sorted_last: "sorted_wrt (<) (map (k :: 'a \<Rightarrow> int) xs) \<Longrightarrow> x \<in> set xs \<Longrightarrow> k x \<le> k (last xs)"
  by (cases xs rule: rev_cases) (auto simp: sorted_wrt_append intro: less_imp_le)

lemma push_chart:
  assumes "chart_ok start t points" "t \<le> pp_ts p"
  shows "chart_ok start (pp_ts p) (push_or_replace_point points p) \<and> last (push_or_replace_point points p) = p"
proof (cases points rule: rev_cases)
  case (snoc ys y)
  then show ?thesis using assms
    by (cases ys) (force simp: chart_ok_def push_or_replace_point_def sorted_wrt_append)+
qed (use assms in \<open>simp add: chart_ok_def\<close>)

definition charts_ok :: "int \<Rightarrow> int \<Rightarrow> string list \<Rightarrow> replay_state \<Rightarrow> bool" where
  "charts_ok start t ss r \<longleftrightarrow> chart_ok start t (rp_points r) \<and>
     (\<forall>s \<in> set ss. \<exists>points. rp_symbol_points r s = Some points \<and> chart_ok start t points)"

lemma push_symbol_point_points [simp]:
  "rp_symbol_points (push_symbol_point s p r) =
     (case rp_symbol_points r s of None \<Rightarrow> rp_symbol_points r
      | Some points \<Rightarrow> (rp_symbol_points r)(s \<mapsto> push_or_replace_point points p))"
  by (simp add: push_symbol_point_def split: option.splits)

lemma pp_ts_points [simp]: "pp_ts (symbol_point t s states bl) = t" "pp_ts (aggregate_point t states bl sel) = t"
proof -
  have "pp_ts (fold (add_to_point states bl) sel p) = pp_ts p" for p
    by (induction sel arbitrary: p) (simp_all add: add_to_point_def Let_def)
  then show "pp_ts (aggregate_point t states bl sel) = t" by (simp add: aggregate_point_def clean_point_def default_point_def)
  show "pp_ts (symbol_point t s states bl) = t" by (simp add: symbol_point_def clean_point_def Let_def)
qed

lemma charts_shown:
  assumes "charts_ok start t ss r" "replay_shown bl sel e r = Inr r'" "t \<le> event_ts e"
  shows "charts_ok start (event_ts e) ss r'"
proof -
  obtain r1 where r1: "replay_before sel e r = Inr r1" using assms(2) by (auto simp: replay_shown_def bind_res_Inr)
  then have f: "rp_points r1 = rp_points r" "rp_symbol_points r1 = rp_symbol_points r"
    by (auto simp: replay_before_def Let_def bind_res_Inr)
  have c: "chart_ok start t (rp_points r)" "\<And>s. s \<in> set ss \<Longrightarrow> \<exists>points. rp_symbol_points r s = Some points \<and> chart_ok start t points"
    using assms(1) by (auto simp: charts_ok_def)
  let ?p = "symbol_point (event_ts e) (event_symbol e) (rp_states r1) bl"
  have push: "chart_ok start (event_ts e) (push_or_replace_point points q)"
    if "chart_ok start t points" "pp_ts q = event_ts e" for points q
    using push_chart [OF that(1), of q] that(2) assms(3) by simp
  show ?thesis
  proof (cases "event_symbol e \<in> set sel")
    case False
    then show ?thesis using assms f r1 c chart_ok_mono [OF _ assms(3)]
      by (fastforce simp: charts_ok_def replay_shown_def)
  next
    case True
    then have "r' = push_symbol_point (event_symbol e) ?p
        (r1\<lparr>rp_points := push_or_replace_point (rp_points r1) (aggregate_point (event_ts e) (rp_states r1) bl sel)\<rparr>)"
      using assms(2) r1 by (simp add: replay_shown_def Let_def)
    then have "rp_points r' = push_or_replace_point (rp_points r) (aggregate_point (event_ts e) (rp_states r1) bl sel)"
      "rp_symbol_points r' = (case rp_symbol_points r (event_symbol e) of None \<Rightarrow> rp_symbol_points r
        | Some points \<Rightarrow> (rp_symbol_points r)(event_symbol e \<mapsto> push_or_replace_point points ?p))"
      using f by (simp_all split: option.splits)
    then show ?thesis unfolding charts_ok_def
      using c push chart_ok_mono [OF _ assms(3)] by (fastforce split: option.splits)
  qed
qed

lemma charts_fold:
  assumes "charts_ok start t ss r" "fold_res (replay_shown bl sel) es r = Inr r'" "sorted (map event_ts es)"
    "\<forall>e \<in> set es. t \<le> event_ts e \<and> event_ts e \<le> T" "t \<le> T"
  shows "charts_ok start T ss r'"
  using assms
proof (induction es arbitrary: t r)
  case Nil
  then show ?case using chart_ok_mono by (fastforce simp: charts_ok_def)
next
  case (Cons e es)
  then obtain r1 where r1: "replay_shown bl sel e r = Inr r1" "fold_res (replay_shown bl sel) es r1 = Inr r'"
    by (auto simp: bind_res_Inr)
  show ?case
    by (rule Cons.IH [OF charts_shown [OF Cons.prems(1) r1(1)] r1(2)]) (use Cons.prems in auto)
qed

lemma end_symbol_points:
  fixes bl :: "string \<rightharpoonup> metrics"
  assumes "\<forall>s \<in> set ss. \<exists>points. rp_symbol_points r s = Some points \<and> chart_ok start t points" "t \<le> T"
  defines "f \<equiv> \<lambda>s r. push_symbol_point s (symbol_point T s (rp_states r) bl) r"
  shows "s \<in> set ss \<Longrightarrow> \<exists>points. rp_symbol_points (fold f ss r) s = Some points \<and> chart_ok start T points \<and>
    last points = symbol_point T s (rp_states r) bl"
  using assms(1)
proof (induction ss rule: rev_induct)
  case (snoc x ss)
  let ?r = "fold f ss r"
  have st: "rp_states (fold f ss' r) = rp_states r" for ss'
    by (subst fold_fields) (simp_all add: f_def)
  have keep: "\<exists>points. rp_symbol_points (fold f ss' r) y = Some points \<and> chart_ok start T points" if "y \<in> set (ss @ [x])" for ss' y
  proof (induction ss' rule: rev_induct)
    case Nil
    then show ?case using snoc.prems(2) that chart_ok_mono [OF _ assms(2)] by fastforce
  next
    case (snoc z zs)
    then obtain points where p: "rp_symbol_points (fold f zs r) y = Some points" "chart_ok start T points" by blast
    then show ?case using push_chart [OF p(2), of "symbol_point T y (rp_states r) bl"] st [of zs]
      by (cases "z = y") (auto simp: f_def split: option.splits)
  qed
  obtain points where p: "rp_symbol_points ?r x = Some points" "chart_ok start T points" using keep [of x ss] by auto
  have P: "chart_ok start T (push_or_replace_point points (symbol_point T x (rp_states r) bl))"
    "last (push_or_replace_point points (symbol_point T x (rp_states r) bl)) = symbol_point T x (rp_states r) bl"
    using push_chart [OF p(2), of "symbol_point T x (rp_states r) bl"] by simp_all
  show ?case
  proof (cases "s = x")
    case True
    then show ?thesis using p(1) P st [of ss] by (simp add: f_def)
  next
    case False
    then show ?thesis using snoc p(1) by (auto simp: f_def)
  qed
qed simp

lemma start_chart_ok: "charts_ok t t ss (start_points t bl ss sel r)"
  by (simp add: charts_ok_def start_points_def chart_ok_def)

lemma replay_charts:
  assumes "replay_request h inputs rq = Inr (bl, r)" "rq_start_ms rq \<le> rq_end_ms rq"
  defines "ss \<equiv> select_symbols (available_symbols inputs) (rq_selected_symbols rq)"
  shows "chart_ok (rq_start_ms rq) (rq_end_ms rq) (rp_points r)"
    and "last (rp_points r) = aggregate_point (rq_end_ms rq) (rp_states r) bl (h ss)"
    and "s \<in> set ss \<Longrightarrow> \<exists>points. rp_symbol_points r s = Some points \<and> chart_ok (rq_start_ms rq) (rq_end_ms rq) points \<and>
      last points = symbol_point (rq_end_ms rq) s (rp_states r) bl"
proof -
  define post where "post = dropWhile (\<lambda>e. event_ts e < rq_start_ms rq) (sorted_events inputs)"
  define shown where "shown = takeWhile (\<lambda>e. event_ts e \<le> rq_end_ms rq) post"
  obtain r1 r3 where r3: "fold_res (replay_shown bl (h ss)) shown (start_points (rq_start_ms rq) bl ss (h ss) r1) = Inr r3"
    and r: "r = end_points (rq_end_ms rq) bl ss (h ss) r3"
    using assms(1)
    by (auto simp: replay_request_def Let_def bind_res_Inr ss_def shown_def post_def dropWhile_eq_drop [symmetric] simp del: capture_all)
  have sp: "sorted (map event_ts post)"
    unfolding post_def sorted_dropWhile_filter [OF sorted_events_ts] by (rule sorted_filter [OF sorted_events_ts])
  have so: "sorted (map event_ts shown)"
    unfolding shown_def sorted_takeWhile_filter_le [OF sp] by (rule sorted_filter [OF sp])
  have "set post = {e \<in> set (sorted_events inputs). rq_start_ms rq \<le> event_ts e}"
    unfolding post_def sorted_dropWhile_filter [OF sorted_events_ts] by auto
  then have b: "\<forall>e \<in> set shown. rq_start_ms rq \<le> event_ts e \<and> event_ts e \<le> rq_end_ms rq"
    by (auto simp: shown_def dest: set_takeWhileD)
  have C: "charts_ok (rq_start_ms rq) (rq_end_ms rq) ss r3"
    by (rule charts_fold [OF start_chart_ok r3 so b assms(2)])
  then have c: "chart_ok (rq_start_ms rq) (rq_end_ms rq) (rp_points r3)"
    "\<forall>s \<in> set ss. \<exists>points. rp_symbol_points r3 s = Some points \<and> chart_ok (rq_start_ms rq) (rq_end_ms rq) points"
    by (simp_all add: charts_ok_def)
  show "chart_ok (rq_start_ms rq) (rq_end_ms rq) (rp_points r)"
    "last (rp_points r) = aggregate_point (rq_end_ms rq) (rp_states r) bl (h ss)"
    using push_chart [OF c(1), of "aggregate_point (rq_end_ms rq) (rp_states r3) bl (h ss)"] by (simp_all add: r)
  assume s: "s \<in> set ss"
  show "\<exists>points. rp_symbol_points r s = Some points \<and> chart_ok (rq_start_ms rq) (rq_end_ms rq) points \<and>
      last points = symbol_point (rq_end_ms rq) s (rp_states r) bl"
    using end_symbol_points [of ss "r3\<lparr>rp_points := push_or_replace_point (rp_points r3)
        (aggregate_point (rq_end_ms rq) (rp_states r3) bl (h ss))\<rparr>" "rq_start_ms rq" "rq_end_ms rq" "rq_end_ms rq" s bl] c(2) s
    by (simp add: r) (simp add: end_points_def)
qed

text \<open>What a chart shows: a point at the start, one at every tick in between, and one at the end, as resampled, and
  of these the ones that thinning out keeps, always the first and the last.\<close>

definition on_grid :: "int \<Rightarrow> int \<Rightarrow> pnl_point list \<Rightarrow> bool" where
  "on_grid start stop points \<longleftrightarrow> points \<noteq> [] \<and> sorted_wrt (<) (map pp_ts points) \<and> pp_ts (hd points) = start \<and>
     pp_ts (last points) = stop \<and>
     (\<forall>p \<in> set points. pp_ts p \<in> {start, stop} \<union> {t. start < t \<and> t < stop \<and> pnl_tick_interval_ms dvd t})"

lemma resampled_chart:
  assumes "chart_ok start stop points" "pp_ts (last points) = stop" "start \<le> stop" "is_i64 start" "is_i64 stop"
  shows "on_grid start stop (resample_fixed_interval points start stop pnl_tick_interval_ms) \<and>
    last (resample_fixed_interval points start stop pnl_tick_interval_ms) = last points"
proof -
  let ?out = "resample_fixed_interval points start stop pnl_tick_interval_ms"
  have ne: "points \<noteq> []" and so: "sorted_wrt (<) (map pp_ts points)" using assms(1) by (auto simp: chart_ok_def)
  then have so': "sorted (map pp_ts points)" by (simp add: strict_sorted_iff)
  have g: "sorted_wrt (<) (map pp_ts ?out)" "pp_ts ` set ?out = {start, stop} \<union> {t. start < t \<and> t < stop \<and> pnl_tick_interval_ms dvd t}"
    "list_all (sample_of points) ?out"
    using resample_spec [OF ne so' _ assms(3-5), of pnl_tick_interval_ms] by (auto simp: Let_def pnl_tick_interval_ms_def)
  have one: "?out \<noteq> []" using g(2) by auto
  have l: "pp_ts (last ?out) = stop"
  proof -
    have "stop \<in> pp_ts ` set ?out" unfolding g(2) by simp
    then obtain p where "p \<in> set ?out" "pp_ts p = stop" by (elim imageE) simp
    then have "stop \<le> pp_ts (last ?out)" using sorted_last [OF g(1)] by metis
    moreover have "pp_ts (last ?out) \<in> pp_ts ` set ?out" using one by simp
    ultimately show ?thesis using assms(3) unfolding g(2) by auto
  qed
  have f: "pp_ts (hd ?out) = start"
  proof -
    have "start \<in> pp_ts ` set ?out" unfolding g(2) by simp
    then obtain p where p: "p \<in> set ?out" "pp_ts p = start" by (elim imageE) simp
    have "pp_ts (hd ?out) \<le> pp_ts p" using p(1) g(1) by (cases ?out) auto
    moreover have "pp_ts (hd ?out) \<in> pp_ts ` set ?out" using one by simp
    ultimately show ?thesis using p(2) assms(3) unfolding g(2) by auto
  qed
  have "sample_of points (last ?out)" using g(3) one by (simp add: list_all_iff)
  then obtain j where j: "j < length points" "last ?out = (points ! j)\<lparr>pp_ts := pp_ts (last ?out)\<rparr>"
    "\<forall>i < length points. pp_ts (points ! i) \<le> pp_ts (last ?out) \<longrightarrow> i \<le> j" by (auto simp: sample_of_def)
  have "length points - 1 \<le> j" using j(3) l assms(2) ne by (simp add: last_conv_nth)
  then have "points ! j = last points" using j(1) ne by (simp add: last_conv_nth) (metis One_nat_def Suc_pred le_antisym less_Suc_eq_le length_greater_0_conv)
  then have "last ?out = last points" using j(2) l assms(2) by simp
  then show ?thesis using g one l f by (auto simp: on_grid_def)
qed

lemma downsampled_chart:
  assumes "on_grid start stop points"
  shows "on_grid start stop (downsample_extrema points n) \<and> last (downsample_extrema points n) = last points"
proof (cases "n < 10")
  case True
  then show ?thesis using assms by (simp add: downsample_extrema_def)
next
  case False
  let ?out = "downsample_extrema points n"
  have d: "set ?out \<subseteq> set points" "sorted_wrt (<) (map pp_ts ?out)" "hd ?out = hd points" "last ?out = last points"
    using downsample_spec [of points n] assms False by (auto simp: on_grid_def Let_def)
  have "?out \<noteq> []" using assms by (auto simp: on_grid_def downsample_extrema_def Let_def)
  then show ?thesis using d assms by (auto simp: on_grid_def)
qed

lemma insort_by_set [simp]: "set (insort_by cmp x ys) = insert x (set ys)"
  by (induction ys) auto

lemma sort_by_set [simp]: "set (sort_by cmp xs) = set xs"
  by (induction xs) (auto simp: sort_by_def)

lemma select_symbols_facts:
  assumes "sorted_wrt (<) (available :: string list)"
  shows "sorted_wrt (<) (select_symbols available requested)" "set (select_symbols available requested) \<subseteq> set available"
    and "requested \<noteq> [] \<Longrightarrow> set (select_symbols available requested) = to_ascii_uppercase ` set requested \<inter> set available"
proof -
  let ?l = "sort (filter (\<lambda>s. s \<in> set available) (map to_ascii_uppercase requested))"
  have "sorted_wrt (<) (dedup_key id ?l)" using sorted_dedup_key [of id ?l] by simp
  moreover have "set (dedup_key id ?l) = set ?l" using set_map_dedup_key [of id ?l] by simp
  ultimately show "sorted_wrt (<) (select_symbols available requested)"
    "set (select_symbols available requested) \<subseteq> set available"
    "requested \<noteq> [] \<Longrightarrow> set (select_symbols available requested) = to_ascii_uppercase ` set requested \<inter> set available"
    using assms by (auto simp: select_symbols_def)
qed

lemma available_sorted: "sorted_wrt (<) (available_symbols inputs)"
  by (simp add: available_symbols_def strict_sorted_iff)

text \<open>C16: The parts of a response agree.  The selected symbols are distinct, in order and known; each of them has a
  series that starts at the start, ends at the end and otherwise lies on the fifteen-minute grid, and whose last
  point shows the same profit, fees, funding, interest and floating profit as the symbol's row in the table; the
  aggregate series has the same shape, and its last exposure is the open amount of the summary.\<close>

theorem response_consistent:
  assumes "calculate h inputs rq = Inr rs" "is_i64 (rq_start_ms rq)" "is_i64 (rq_end_ms rq)"
  shows "sorted_wrt (<) (rs_selected_symbols rs) \<and> set (rs_selected_symbols rs) \<subseteq> set (rs_available_symbols rs) \<and>
    map fst (rs_symbol_points rs) = rs_selected_symbols rs \<and>
    on_grid (rq_start_ms rq) (rq_end_ms rq) (rs_points rs) \<and>
    pp_exposure_usdt (last (rs_points rs)) = su_open_amount_usdt (rs_summary rs) \<and>
    (\<forall>(s, points) \<in> set (rs_symbol_points rs). on_grid (rq_start_ms rq) (rq_end_ms rq) points \<and>
       (\<exists>row. (s, row) \<in> set (rs_symbols rs) \<and>
          pp_total_pnl_usdt (last points) = su_total_pnl_usdt row \<and>
          pp_fee_before_pnl_usdt (last points) = su_fee_before_pnl_usdt row \<and>
          pp_fee_after_pnl_usdt (last points) = su_fee_after_pnl_usdt row \<and>
          pp_funding_pnl_usdt (last points) = su_funding_pnl_usdt row \<and>
          pp_interest_cost_usdt (last points) = su_interest_cost_usdt row \<and>
          pp_floating_pnl_usdt (last points) = su_floating_pnl_usdt row))"
proof -
  obtain bl r where r: "replay_request h inputs rq = Inr (bl, r)" "rs = build_response h inputs rq bl r"
    "rq_start_ms rq \<le> rq_end_ms rq" using calculate_Inr [OF assms(1)] by metis
  let ?ss = "select_symbols (available_symbols inputs) (rq_selected_symbols rq)"
  let ?s = "rq_start_ms rq" and ?e = "rq_end_ms rq"
  note rc = replay_charts [OF r(1,3)]
  have sel: "rs_selected_symbols rs = ?ss" "rs_available_symbols rs = available_symbols inputs"
    "map fst (rs_symbol_points rs) = ?ss"
    unfolding r(2) by (simp_all add: build_response_def Let_def split_beta comp_def)
  have lp: "pp_ts (last (rp_points r)) = ?e" "rp_points r \<noteq> []" using rc(1,2) by (simp_all add: chart_ok_def)
  note R = resampled_chart [OF rc(1) lp(1) r(3) assms(2,3)]
  have pts: "rs_points rs = downsample_extrema (resample_fixed_interval (rp_points r) ?s ?e pnl_tick_interval_ms) (max (rq_max_points rq) 2)"
    unfolding r(2) by (simp add: build_response_def Let_def)
  have agg: "on_grid ?s ?e (rs_points rs)" "last (rs_points rs) = last (rp_points r)"
    unfolding pts using downsampled_chart [OF conjunct1 [OF R]] R by auto
  have open_amount: "su_open_amount_usdt (rs_summary rs) = pp_exposure_usdt (last (rp_points r))"
    unfolding r(2) using lp(2) by (simp add: build_response_def Let_def)
  have rows: "(s, metrics_difference (current_metrics (rp_states r) s) (or_default default_metrics (bl s))) \<in> set (rs_symbols rs)"
    if "s \<in> set ?ss" for s
    using that select_symbols_facts(2) [OF available_sorted] unfolding r(2)
    by (auto simp: build_response_def Let_def symbol_table_def)
  have series: "on_grid ?s ?e points \<and> last points = symbol_point ?e s (rp_states r) bl \<and> s \<in> set ?ss"
    if sp: "(s, points) \<in> set (rs_symbol_points rs)" for s points
  proof -
    have s: "s \<in> set ?ss" and p: "points = fst (symbol_series rq (rp_symbol_points r s))"
      using sp unfolding r(2) by (auto simp: build_response_def Let_def split_beta)
    obtain ps where ps: "rp_symbol_points r s = Some ps" "chart_ok ?s ?e ps" "last ps = symbol_point ?e s (rp_states r) bl"
      using rc(3) [OF s] by blast
    have "pp_ts (last ps) = ?e" using ps(3) by simp
    note Q = resampled_chart [OF ps(2) this r(3) assms(2,3)]
    show ?thesis using downsampled_chart [OF conjunct1 [OF Q]] Q ps s p by (auto simp: symbol_series_def Let_def or_default_def)
  qed
  have "sorted_wrt (<) ?ss" "set ?ss \<subseteq> set (available_symbols inputs)" using select_symbols_facts [OF available_sorted] by auto
  moreover have "\<forall>(s, points) \<in> set (rs_symbol_points rs). on_grid ?s ?e points \<and>
       (\<exists>row. (s, row) \<in> set (rs_symbols rs) \<and>
          pp_total_pnl_usdt (last points) = su_total_pnl_usdt row \<and>
          pp_fee_before_pnl_usdt (last points) = su_fee_before_pnl_usdt row \<and>
          pp_fee_after_pnl_usdt (last points) = su_fee_after_pnl_usdt row \<and>
          pp_funding_pnl_usdt (last points) = su_funding_pnl_usdt row \<and>
          pp_interest_cost_usdt (last points) = su_interest_cost_usdt row \<and>
          pp_floating_pnl_usdt (last points) = su_floating_pnl_usdt row)"
  proof (intro ballI, clarify, intro conjI)
    fix s points assume sp: "(s, points) \<in> set (rs_symbol_points rs)"
    show "on_grid ?s ?e points" using series [OF sp] by blast
    show "\<exists>row. (s, row) \<in> set (rs_symbols rs) \<and>
          pp_total_pnl_usdt (last points) = su_total_pnl_usdt row \<and>
          pp_fee_before_pnl_usdt (last points) = su_fee_before_pnl_usdt row \<and>
          pp_fee_after_pnl_usdt (last points) = su_fee_after_pnl_usdt row \<and>
          pp_funding_pnl_usdt (last points) = su_funding_pnl_usdt row \<and>
          pp_interest_cost_usdt (last points) = su_interest_cost_usdt row \<and>
          pp_floating_pnl_usdt (last points) = su_floating_pnl_usdt row"
      by (rule exI, rule conjI, rule rows) (use series [OF sp] in \<open>auto simp: metrics_difference_def symbol_point_def clean_point_def Let_def\<close>)
  qed
  ultimately show ?thesis using sel agg open_amount by simp
qed

lemma response_consistent_witness:
  "\<exists>rs. calculate id sample_inputs sample_request = Inr rs \<and> rs_selected_symbols rs = [''A''] \<and>
     on_grid (7 * day_ms) (7 * day_ms + 100) (rs_points rs) \<and> map fst (rs_symbol_points rs) = [''A'']"
proof -
  obtain rs where rs: "calculate id sample_inputs sample_request = Inr rs" using sample_calculates by blast
  have i: "is_i64 (rq_start_ms sample_request)" "is_i64 (rq_end_ms sample_request)"
    by (simp_all add: sample_request_def day_ms_def is_i64_def i64_max_def i64_min_def)
  obtain bl r where "rs = build_response id sample_inputs sample_request bl r" using calculate_Inr [OF rs] by metis
  then have "rs_selected_symbols rs = [''A'']" using sample_symbols by (simp add: build_response_def Let_def)
  then show ?thesis using response_consistent [OF rs i] rs by (simp add: sample_request_def)
qed

end
