(* ===== verification/PnlOverview.thy ===== *)
theory PnlOverview
  imports PnlCalculate
begin

text \<open>
  \<open>src/src/pnl/overview.rs\<close>: the replay of a whole account that keeps every change of its profit, and the
  profit at each of a set of boundaries (day starts).  A \<open>BTreeMap\<close> is a sorted association list, the peekable
  iterator over the wanted boundaries is the list of those not yet taken.
\<close>

section \<open>The replay\<close>

record history =
  hi_boundaries :: "(int \<times> f64) list"
  hi_points :: "(int \<times> f64) list"
  hi_realized_boundaries :: "(int \<times> f64) list"
  hi_final_realized_net :: f64
  hi_final_pnl :: f64
  hi_start_pnl :: f64

text \<open>Fees are already deducted in the profit after fees, opening fees included.\<close>

definition realized_net_pnl :: "metrics \<Rightarrow> f64" where
  "realized_net_pnl m = m_fee_after_pnl_usdt m + m_funding_pnl_usdt m - m_interest_cost_usdt m"

text \<open>\<open>entry(symbol).or_insert_with\<close>.\<close>

definition entry_state :: "pnl_source_kind \<Rightarrow> string \<Rightarrow> symbol_states \<Rightarrow> symbol_states" where
  "entry_state k symbol states = (if states symbol = None then states(symbol \<mapsto> symbol_for_source k) else states)"

definition seed_account :: "pnl_source_kind \<Rightarrow> initial_position \<Rightarrow> symbol_states \<Rightarrow> pnl_error + symbol_states" where
  "seed_account k p states0 =
     (let states = entry_state k (ip_symbol p) states0
      in bind_res (seed_position p (or_default (symbol_for_source k) (states (ip_symbol p))))
           (\<lambda>s. Inr (states(ip_symbol p \<mapsto> s))))"

text \<open>The mutable locals of the loop that the events drive.\<close>

record account =
  ac_states :: symbol_states
  ac_total :: f64
  ac_realized_net :: f64

definition account_event :: "pnl_source_kind \<Rightarrow> pnl_event \<Rightarrow> account \<Rightarrow> pnl_error + account" where
  "account_event k e a =
     (let symbol = event_symbol e; states = entry_state k symbol (ac_states a);
          before = current_metrics states symbol
      in bind_res (apply_event e states) (\<lambda>states.
         let after = current_metrics states symbol
         in if m_unconverted_fee_count after = 0 \<and> m_unconverted_interest_count after = 0
            then Inr \<lparr>ac_states = states,
                   ac_total = ac_total a + (m_total_pnl_usdt after - m_total_pnl_usdt before),
                   ac_realized_net = ac_realized_net a + (realized_net_pnl after - realized_net_pnl before)\<rparr>
            else Inl (Bail ''account history contains unconverted charges'')))"

record overview_state =
  ov_account :: account
  ov_wanted :: "int list"
  ov_result :: history
  ov_started :: bool

definition insert_boundary :: "account \<Rightarrow> int \<Rightarrow> history \<Rightarrow> history" where
  "insert_boundary a b h = h\<lparr>hi_boundaries := bt_insert b (ac_total a) (hi_boundaries h),
     hi_realized_boundaries := bt_insert b (ac_realized_net a) (hi_realized_boundaries h)\<rparr>"

definition take_boundaries :: "(int \<Rightarrow> bool) \<Rightarrow> overview_state \<Rightarrow> overview_state" where
  "take_boundaries due st =
     st\<lparr>ov_result := fold (insert_boundary (ov_account st)) (takeWhile due (ov_wanted st)) (ov_result st),
        ov_wanted := dropWhile due (ov_wanted st)\<rparr>"

definition push_total :: "int \<Rightarrow> f64 \<Rightarrow> (int \<times> f64) list \<Rightarrow> (int \<times> f64) list" where
  "push_total ts t points =
     (if points \<noteq> [] \<and> fst (last points) = ts then butlast points @ [(fst (last points), t)] else points @ [(ts, t)])"

definition overview_event :: "pnl_source_kind \<Rightarrow> int \<Rightarrow> pnl_event \<Rightarrow> overview_state \<Rightarrow> pnl_error + overview_state" where
  "overview_event k start e st0 =
     (let ts = event_ts e;
          st = (if \<not> ov_started st0 \<and> start \<le> ts
                then st0\<lparr>ov_result := (ov_result st0)\<lparr>hi_start_pnl := ac_total (ov_account st0)\<rparr>, ov_started := True\<rparr> else st0);
          st = take_boundaries (\<lambda>b. b \<le> ts) st
      in bind_res (account_event k e (ov_account st)) (\<lambda>a.
         let st = st\<lparr>ov_account := a\<rparr>
         in Inr (if start \<le> ts
                 then st\<lparr>ov_result := (ov_result st)\<lparr>hi_points := push_total ts (ac_total a) (hi_points (ov_result st))\<rparr>\<rparr>
                 else st)))"

definition wanted_boundaries :: "int \<Rightarrow> int list \<Rightarrow> int list" where
  "wanted_boundaries stop boundaries = sort (remdups (filter (\<lambda>b. b \<le> stop) boundaries))"

definition finish_history :: "int \<Rightarrow> overview_state \<Rightarrow> pnl_error + history" where
  "finish_history stop st0 =
     (let st = take_boundaries (\<lambda>_. True) st0;
          a = ov_account st; h = ov_result st;
          h = (if ov_started st then h else h\<lparr>hi_start_pnl := ac_total a\<rparr>);
          h = h\<lparr>hi_points := hi_points h @ [(stop, ac_total a)], hi_final_pnl := ac_total a,
                hi_final_realized_net := ac_realized_net a\<rparr>
      in if is_finite (ac_total a) \<and> is_finite (ac_realized_net a) then Inr h
         else Inl (Bail ''non-finite account history''))"

definition empty_history :: history where
  "empty_history = \<lparr>hi_boundaries = [], hi_points = [], hi_realized_boundaries = [], hi_final_realized_net = 0,
     hi_final_pnl = 0, hi_start_pnl = 0\<rparr>"

definition seeded_account :: "pnl_source_kind \<Rightarrow> pnl_inputs \<Rightarrow> pnl_error + account" where
  "seeded_account k inputs =
     bind_res (fold_res (seed_account k) (in_initial_positions inputs) (\<lambda>_. None))
       (\<lambda>states. Inr \<lparr>ac_states = states, ac_total = 0, ac_realized_net = 0\<rparr>)"

definition replay_account :: "pnl_source_kind \<Rightarrow> pnl_inputs \<Rightarrow> int \<Rightarrow> int \<Rightarrow> int list \<Rightarrow> pnl_error + history" where
  "replay_account k inputs start stop boundaries =
     bind_res (seeded_account k inputs) (\<lambda>a.
     bind_res (fold_res (overview_event k start) (filter (\<lambda>e. event_ts e \<le> stop) (sorted_events inputs))
       \<lparr>ov_account = a, ov_wanted = wanted_boundaries stop boundaries, ov_result = empty_history, ov_started = False\<rparr>)
     (finish_history stop))"

section \<open>Boundary values\<close>

text \<open>The specification: the account after the events strictly before a time.\<close>

definition account_before :: "pnl_source_kind \<Rightarrow> pnl_inputs \<Rightarrow> int \<Rightarrow> pnl_error + account" where
  "account_before k inputs t =
     bind_res (seeded_account k inputs) (fold_res (account_event k) (filter (\<lambda>e. event_ts e < t) (sorted_events inputs)))"

lemma fold_insert_boundary:
  "map_of (hi_boundaries (fold (insert_boundary a) bs h)) = (\<lambda>b. if b \<in> set bs then Some (ac_total a) else map_of (hi_boundaries h) b) \<and>
   map_of (hi_realized_boundaries (fold (insert_boundary a) bs h)) =
     (\<lambda>b. if b \<in> set bs then Some (ac_realized_net a) else map_of (hi_realized_boundaries h) b)"
  by (induction bs arbitrary: h) (auto simp: insert_boundary_def fun_eq_iff)

lemma fold_insert_boundary_fields [simp]:
  "hi_points (fold (insert_boundary a) bs h) = hi_points h" "hi_start_pnl (fold (insert_boundary a) bs h) = hi_start_pnl h"
  by (induction bs arbitrary: h) (auto simp: insert_boundary_def)

lemma fold_insert_boundary_wf:
  "bt_wf (hi_boundaries h) \<Longrightarrow> bt_wf (hi_boundaries (fold (insert_boundary a) bs h))"
  "bt_wf (hi_realized_boundaries h) \<Longrightarrow> bt_wf (hi_realized_boundaries (fold (insert_boundary a) bs h))"
  by (induction bs arbitrary: h) (auto simp: insert_boundary_def)

lemma fold_account_append:
  "fold_res (account_event k) (es @ [e]) a0 = bind_res (fold_res (account_event k) es a0) (account_event k e)"
  by (simp add: fold_res_append) (cases "fold_res (account_event k) es a0"; simp add: bind_res_def split: sum.splits)

text \<open>The loop after the events \<open>ds\<close>, with \<open>rest\<close> to come: which boundaries were taken and with which values,
  and what the points say.\<close>

definition boundaries_ok :: "pnl_source_kind \<Rightarrow> account \<Rightarrow> int list \<Rightarrow> pnl_event list \<Rightarrow> pnl_event list \<Rightarrow> overview_state \<Rightarrow> bool" where
  "boundaries_ok k a0 bs ds rest st \<longleftrightarrow>
     fold_res (account_event k) ds a0 = Inr (ov_account st) \<and>
     (\<exists>taken. bs = taken @ ov_wanted st \<and>
        dom (map_of (hi_boundaries (ov_result st))) = set taken \<and>
        dom (map_of (hi_realized_boundaries (ov_result st))) = set taken \<and>
        (\<forall>b \<in> set taken. \<exists>a. fold_res (account_event k) (filter (\<lambda>e. event_ts e < b) (ds @ rest)) a0 = Inr a \<and>
           map_of (hi_boundaries (ov_result st)) b = Some (ac_total a) \<and>
           map_of (hi_realized_boundaries (ov_result st)) b = Some (ac_realized_net a))) \<and>
     (\<forall>b \<in> set (ov_wanted st). \<forall>e \<in> set ds. event_ts e < b)"

definition points_ok :: "pnl_source_kind \<Rightarrow> account \<Rightarrow> int \<Rightarrow> pnl_event list \<Rightarrow> overview_state \<Rightarrow> bool" where
  "points_ok k a0 start ds st \<longleftrightarrow>
     sorted_wrt (<) (map fst (hi_points (ov_result st))) \<and>
     (\<forall>(t, v) \<in> set (hi_points (ov_result st)). start \<le> t \<and> (\<exists>e \<in> set ds. event_ts e = t) \<and>
        (\<exists>a. fold_res (account_event k) (filter (\<lambda>e. event_ts e \<le> t) ds) a0 = Inr a \<and> v = ac_total a)) \<and>
     (\<exists>a. fold_res (account_event k) (filter (\<lambda>e. event_ts e < start) ds) a0 = Inr a \<and>
        (if ov_started st then hi_start_pnl (ov_result st) = ac_total a \<and> (\<exists>e \<in> set ds. start \<le> event_ts e)
         else \<forall>e \<in> set ds. event_ts e < start))"

lemma take_boundaries_ok:
  assumes "boundaries_ok k a0 bs ds rest st" "\<forall>b \<in> set (takeWhile due (ov_wanted st)). \<forall>e \<in> set rest. b \<le> event_ts e"
  shows "boundaries_ok k a0 bs ds rest (take_boundaries due st)"
proof -
  let ?now = "takeWhile due (ov_wanted st)" and ?later = "dropWhile due (ov_wanted st)"
  obtain taken where t: "bs = taken @ ov_wanted st" "dom (map_of (hi_boundaries (ov_result st))) = set taken"
    "dom (map_of (hi_realized_boundaries (ov_result st))) = set taken"
    "\<forall>b \<in> set taken. \<exists>a. fold_res (account_event k) (filter (\<lambda>e. event_ts e < b) (ds @ rest)) a0 = Inr a \<and>
           map_of (hi_boundaries (ov_result st)) b = Some (ac_total a) \<and>
           map_of (hi_realized_boundaries (ov_result st)) b = Some (ac_realized_net a)"
    and w: "\<forall>b \<in> set (ov_wanted st). \<forall>e \<in> set ds. event_ts e < b"
    and acc: "fold_res (account_event k) ds a0 = Inr (ov_account st)"
    using assms(1) unfolding boundaries_ok_def by blast
  have now: "fold_res (account_event k) (filter (\<lambda>e. event_ts e < b) (ds @ rest)) a0 = Inr (ov_account st)" if "b \<in> set ?now" for b
  proof -
    have "\<forall>e \<in> set ds. event_ts e < b" using that w set_takeWhileD [of b due "ov_wanted st"] by blast
    moreover have "\<forall>e \<in> set rest. \<not> event_ts e < b" using that assms(2) by fastforce
    ultimately have "filter (\<lambda>e. event_ts e < b) (ds @ rest) = ds" by (simp add: filter_id_conv filter_empty_conv)
    then show ?thesis using acc by simp
  qed
  let ?h = "fold (insert_boundary (ov_account st)) ?now (ov_result st)"
  note F = fold_insert_boundary [of "ov_account st" ?now "ov_result st"]
  have "bs = (taken @ ?now) @ ?later" using t(1) by simp
  moreover have "dom (map_of (hi_boundaries ?h)) = set (taken @ ?now)" "dom (map_of (hi_realized_boundaries ?h)) = set (taken @ ?now)"
    using F t(2,3) by (auto simp: dom_def split: if_splits)
  moreover have "\<exists>a. fold_res (account_event k) (filter (\<lambda>e. event_ts e < b) (ds @ rest)) a0 = Inr a \<and>
       map_of (hi_boundaries ?h) b = Some (ac_total a) \<and> map_of (hi_realized_boundaries ?h) b = Some (ac_realized_net a)"
    if "b \<in> set (taken @ ?now)" for b
  proof (cases "b \<in> set ?now")
    case True
    then show ?thesis using now [OF True] F by auto
  next
    case False
    then show ?thesis using that t(4) F by (simp del: filter_append)
  qed
  moreover have "\<forall>b \<in> set ?later. \<forall>e \<in> set ds. event_ts e < b" using w set_dropWhileD [of _ due "ov_wanted st"] by blast
  ultimately show ?thesis using acc unfolding boundaries_ok_def take_boundaries_def
    by (intro conjI exI [of _ "taken @ ?now"]) simp_all
qed

lemma overview_event_ok:
  assumes "boundaries_ok k a0 bs ds (e # rest) st" "points_ok k a0 start ds st" "overview_event k start e st = Inr st'"
    "sorted (map event_ts (ds @ e # rest))" "sorted_wrt (<) bs"
  shows "boundaries_ok k a0 bs (ds @ [e]) rest st' \<and> points_ok k a0 start (ds @ [e]) st'"
proof -
  let ?t = "event_ts e"
  define st1 where "st1 = (if \<not> ov_started st \<and> start \<le> ?t
                then st\<lparr>ov_result := (ov_result st)\<lparr>hi_start_pnl := ac_total (ov_account st)\<rparr>, ov_started := True\<rparr> else st)"
  define st2 where "st2 = take_boundaries (\<lambda>b. b \<le> ?t) st1"
  obtain a where a: "account_event k e (ov_account st2) = Inr a" and st': "st' = (let s = st2\<lparr>ov_account := a\<rparr> in if start \<le> ?t
      then s\<lparr>ov_result := (ov_result s)\<lparr>hi_points := push_total ?t (ac_total a) (hi_points (ov_result s))\<rparr>\<rparr> else s)"
    using assms(3) unfolding overview_event_def Let_def bind_res_Inr st1_def st2_def by blast
  have le: "\<forall>d \<in> set ds. event_ts d \<le> ?t" "\<forall>d \<in> set rest. ?t \<le> event_ts d" using assms(4) by (auto simp: sorted_append)
  have s1: "ov_account st1 = ov_account st" "ov_wanted st1 = ov_wanted st" "hi_boundaries (ov_result st1) = hi_boundaries (ov_result st)"
    "hi_realized_boundaries (ov_result st1) = hi_realized_boundaries (ov_result st)" "hi_points (ov_result st1) = hi_points (ov_result st)"
    by (simp_all add: st1_def)
  have "boundaries_ok k a0 bs ds (e # rest) st1" using assms(1) s1 by (simp add: boundaries_ok_def)
  then have B: "boundaries_ok k a0 bs ds (e # rest) st2"
    unfolding st2_def by (rule take_boundaries_ok) (use le in \<open>fastforce dest: set_takeWhileD\<close>)
  have s2: "ov_account st2 = ov_account st" "hi_points (ov_result st2) = hi_points (ov_result st)"
    "ov_started st2 = ov_started st1" "hi_start_pnl (ov_result st2) = hi_start_pnl (ov_result st1)"
    by (simp_all add: st2_def take_boundaries_def s1)
  have acc: "fold_res (account_event k) ds a0 = Inr (ov_account st)" using assms(1) by (simp add: boundaries_ok_def)
  then have acc': "fold_res (account_event k) (ds @ [e]) a0 = Inr a" using a s2(1) by (simp add: fold_account_append)
  have f: "ov_account st' = a" "ov_wanted st' = ov_wanted st2" "hi_boundaries (ov_result st') = hi_boundaries (ov_result st2)"
    "hi_realized_boundaries (ov_result st') = hi_realized_boundaries (ov_result st2)" "ov_started st' = ov_started st1"
    "hi_start_pnl (ov_result st') = hi_start_pnl (ov_result st1)"
    "hi_points (ov_result st') = (if start \<le> ?t then push_total ?t (ac_total a) (hi_points (ov_result st)) else hi_points (ov_result st))"
    using s2 by (simp_all add: st' Let_def)
  have "sorted (ov_wanted st1)" using assms(1,5) s1(2) unfolding boundaries_ok_def
    by (metis sorted_append strict_sorted_imp_sorted)
  then have w: "ov_wanted st2 = filter (\<lambda>b. ?t < b) (ov_wanted st1)"
    using sorted_dropWhile_filter_le [of id "ov_wanted st1" ?t] by (simp add: st2_def take_boundaries_def)
  have eq: "(ds @ [e]) @ rest = ds @ e # rest" by simp
  have "boundaries_ok k a0 bs (ds @ [e]) rest st'"
    using B acc' unfolding boundaries_ok_def f eq by (auto simp: w simp del: filter_append)
  moreover have "points_ok k a0 start (ds @ [e]) st'"
  proof -
    let ?P = "hi_points (ov_result st)"
    have P: "sorted_wrt (<) (map fst ?P)" "\<And>t v. (t, v) \<in> set ?P \<Longrightarrow> start \<le> t \<and> (\<exists>e \<in> set ds. event_ts e = t) \<and>
        (\<exists>a. fold_res (account_event k) (filter (\<lambda>e. event_ts e \<le> t) ds) a0 = Inr a \<and> v = ac_total a)"
      using assms(2) by (auto simp: points_ok_def)
    have Pt: "t \<le> ?t" if "(t, v) \<in> set ?P" for t v using P(2) [OF that] le(1) by auto
    define Q where "Q = (if ?P \<noteq> [] \<and> fst (last ?P) = ?t then butlast ?P else ?P)"
    have Q: "set Q \<subseteq> set ?P" "sorted_wrt (<) (map fst Q)"
      using P(1) by (cases ?P rule: rev_cases; auto simp: Q_def sorted_wrt_append)+
    have Qt: "t < ?t" if q: "(t, v) \<in> set Q" for t v
    proof (cases ?P rule: rev_cases)
      case Nil
      then show ?thesis using q Q(1) by simp
    next
      case (snoc ys y)
      then show ?thesis using q P(1) Pt [of t v] Pt [of "fst y" "snd y"]
        by (cases y) (fastforce simp: Q_def sorted_wrt_append split: if_splits)
    qed
    have pts: "sorted_wrt (<) (map fst (hi_points (ov_result st')))"
      "\<forall>(t, v) \<in> set (hi_points (ov_result st')). start \<le> t \<and> (\<exists>d \<in> set (ds @ [e]). event_ts d = t) \<and>
        (\<exists>a. fold_res (account_event k) (filter (\<lambda>e. event_ts e \<le> t) (ds @ [e])) a0 = Inr a \<and> v = ac_total a)"
    proof -
      have new: "start \<le> ?t \<and> hi_points (ov_result st') = Q @ [(?t, ac_total a)] \<or> ?t < start \<and> hi_points (ov_result st') = []"
      proof (cases "start \<le> ?t")
        case True
        then show ?thesis using f(7) by (auto simp: push_total_def Q_def)
      next
        case False
        then have "?P = []" using P(2) Pt by (cases ?P) (fastforce, metis list.set_intros(1) order_trans prod.collapse)
        then show ?thesis using False f(7) by simp
      qed
      have old: "filter (\<lambda>d. event_ts d \<le> t) (ds @ [e]) = filter (\<lambda>d. event_ts d \<le> t) ds" if "t < ?t" for t using that by simp
      have all: "filter (\<lambda>d. event_ts d \<le> ?t) (ds @ [e]) = ds @ [e]" using le(1) by (simp add: filter_id_conv)
      show "sorted_wrt (<) (map fst (hi_points (ov_result st')))" using new Q(2) Qt by (force simp: sorted_wrt_append)
      show "\<forall>(t, v) \<in> set (hi_points (ov_result st')). start \<le> t \<and> (\<exists>d \<in> set (ds @ [e]). event_ts d = t) \<and>
        (\<exists>a. fold_res (account_event k) (filter (\<lambda>e. event_ts e \<le> t) (ds @ [e])) a0 = Inr a \<and> v = ac_total a)"
      proof (intro ballI, clarify)
        fix t v assume tv: "(t, v) \<in> set (hi_points (ov_result st'))"
        then consider "(t, v) \<in> set Q" | "start \<le> ?t" "t = ?t" "v = ac_total a" using new by auto
        then show "start \<le> t \<and> (\<exists>d \<in> set (ds @ [e]). event_ts d = t) \<and>
          (\<exists>a. fold_res (account_event k) (filter (\<lambda>e. event_ts e \<le> t) (ds @ [e])) a0 = Inr a \<and> v = ac_total a)"
        proof cases
          case 1
          then show ?thesis using P(2) [of t v] Q(1) unfolding old [OF Qt [OF 1]] by auto
        next
          case 2
          then show ?thesis unfolding 2(2) all using acc' by auto
        qed
      qed
    qed
    moreover have "\<exists>a. fold_res (account_event k) (filter (\<lambda>e. event_ts e < start) (ds @ [e])) a0 = Inr a \<and>
        (if ov_started st' then hi_start_pnl (ov_result st') = ac_total a \<and> (\<exists>e \<in> set (ds @ [e]). start \<le> event_ts e)
         else \<forall>e \<in> set (ds @ [e]). event_ts e < start)"
    proof -
      obtain a1 where a1: "fold_res (account_event k) (filter (\<lambda>e. event_ts e < start) ds) a0 = Inr a1"
        "if ov_started st then hi_start_pnl (ov_result st) = ac_total a1 \<and> (\<exists>e \<in> set ds. start \<le> event_ts e)
         else \<forall>e \<in> set ds. event_ts e < start" using assms(2) by (auto simp: points_ok_def)
      consider "ov_started st" | "\<not> ov_started st" "start \<le> ?t" | "\<not> ov_started st" "?t < start" by linarith
      then show ?thesis
      proof cases
        case 1
        then have "start \<le> ?t" using a1(2) le(1) by auto
        then show ?thesis using 1 a1 f by (auto simp: st1_def)
      next
        case 2
        then have "filter (\<lambda>e. event_ts e < start) ds = ds" using a1(2) by (simp add: filter_id_conv)
        then show ?thesis using 2 f acc by (auto simp: st1_def)
      next
        case 3
        then have "filter (\<lambda>e. event_ts e < start) (ds @ [e]) = ds @ [e]" using a1(2) by (simp add: filter_id_conv)
        then show ?thesis using 3 f acc' a1(2) by (auto simp: st1_def simp del: filter_append)
      qed
    qed
    ultimately show ?thesis unfolding points_ok_def by blast
  qed
  ultimately show ?thesis by blast
qed

lemma overview_fold_ok:
  assumes "boundaries_ok k a0 bs ds (es @ rest) st" "points_ok k a0 start ds st" "fold_res (overview_event k start) es st = Inr st'"
    "sorted (map event_ts (ds @ es @ rest))" "sorted_wrt (<) bs"
  shows "boundaries_ok k a0 bs (ds @ es) rest st' \<and> points_ok k a0 start (ds @ es) st'"
  using assms(1-4)
proof (induction es arbitrary: ds st)
  case (Cons e es)
  then obtain s1 where s1: "overview_event k start e st = Inr s1" "fold_res (overview_event k start) es s1 = Inr st'"
    by (auto simp: bind_res_Inr)
  have "boundaries_ok k a0 bs (ds @ [e]) (es @ rest) s1 \<and> points_ok k a0 start (ds @ [e]) s1"
    by (rule overview_event_ok [OF _ Cons.prems(2) s1(1) _ assms(5)]) (use Cons.prems in simp_all)
  then show ?case using Cons.IH [OF _ _ s1(2), of "ds @ [e]"] Cons.prems(4) by simp
qed simp

lemma wanted_facts: "sorted_wrt (<) (wanted_boundaries stop bs)" "set (wanted_boundaries stop bs) = {b \<in> set bs. b \<le> stop}"
  by (auto simp: wanted_boundaries_def strict_sorted_iff)

lemma take_all [simp]: "ov_account (take_boundaries due st) = ov_account st" "ov_started (take_boundaries due st) = ov_started st"
  "hi_points (ov_result (take_boundaries due st)) = hi_points (ov_result st)"
  "hi_start_pnl (ov_result (take_boundaries due st)) = hi_start_pnl (ov_result st)"
  by (simp_all add: take_boundaries_def)

lemma filter_filter_lt: "t \<le> stop + 1 \<Longrightarrow> filter (\<lambda>e. event_ts e < t) (filter (\<lambda>e. event_ts e \<le> stop) es) = filter (\<lambda>e. event_ts e < t) es"
  by (induction es) auto

lemma replay_account_spec:
  assumes "replay_account k inputs start stop bs = Inr h" "start \<le> stop"
  shows "(\<forall>b. case (map_of (hi_boundaries h) b, map_of (hi_realized_boundaries h) b) of
      (Some v, Some w) \<Rightarrow> b \<in> set bs \<and> b \<le> stop \<and> (\<exists>a. account_before k inputs b = Inr a \<and> v = ac_total a \<and> w = ac_realized_net a)
    | (None, None) \<Rightarrow> \<not> (b \<in> set bs \<and> b \<le> stop)
    | _ \<Rightarrow> False) \<and>
    (\<exists>a. account_before k inputs start = Inr a \<and> hi_start_pnl h = ac_total a) \<and>
    (\<exists>a. account_before k inputs (stop + 1) = Inr a \<and> hi_final_pnl h = ac_total a \<and> hi_final_realized_net h = ac_realized_net a) \<and>
    (\<exists>points. hi_points h = points @ [(stop, hi_final_pnl h)] \<and> sorted_wrt (<) (map fst points) \<and>
       (\<forall>(t, v) \<in> set points. start \<le> t \<and> t \<le> stop \<and> (\<exists>a. account_before k inputs (t + 1) = Inr a \<and> v = ac_total a)))"
proof -
  define es where "es = filter (\<lambda>e. event_ts e \<le> stop) (sorted_events inputs)"
  define bs' where "bs' = wanted_boundaries stop bs"
  obtain a0 st where a0: "seeded_account k inputs = Inr a0"
    and st: "fold_res (overview_event k start) es \<lparr>ov_account = a0, ov_wanted = bs', ov_result = empty_history, ov_started = False\<rparr> = Inr st"
    and h: "finish_history stop st = Inr h"
    using assms(1) by (auto simp: replay_account_def bind_res_Inr es_def bs'_def)
  let ?init = "\<lparr>ov_account = a0, ov_wanted = bs', ov_result = empty_history, ov_started = False\<rparr>"
  let ?st = "take_boundaries (\<lambda>_. True) st"
  have so: "sorted (map event_ts es)" unfolding es_def by (rule sorted_filter [OF sorted_events_ts])
  have ac: "account_before k inputs t = fold_res (account_event k) (filter (\<lambda>e. event_ts e < t) es) a0" if "t \<le> stop + 1" for t
    using a0 filter_filter_lt [OF that, of "sorted_events inputs"] by (simp add: account_before_def es_def del: filter_filter)
  have "boundaries_ok k a0 bs' [] (es @ []) ?init" "points_ok k a0 start [] ?init"
    by (simp_all add: boundaries_ok_def points_ok_def empty_history_def)
  from overview_fold_ok [OF this st] so wanted_facts(1)
  have "boundaries_ok k a0 bs' es [] st" and P: "points_ok k a0 start es st" by (simp_all add: bs'_def)
  then have B: "boundaries_ok k a0 bs' es [] ?st" by (intro take_boundaries_ok) simp_all
  have "ov_wanted ?st = []" by (simp add: take_boundaries_def)
  then obtain bm: "dom (map_of (hi_boundaries (ov_result ?st))) = set bs'" "dom (map_of (hi_realized_boundaries (ov_result ?st))) = set bs'"
    "\<forall>b \<in> set bs'. \<exists>a. fold_res (account_event k) (filter (\<lambda>e. event_ts e < b) es) a0 = Inr a \<and>
           map_of (hi_boundaries (ov_result ?st)) b = Some (ac_total a) \<and>
           map_of (hi_realized_boundaries (ov_result ?st)) b = Some (ac_realized_net a)"
    using B unfolding boundaries_ok_def by auto
  have hh: "hi_boundaries h = hi_boundaries (ov_result ?st)" "hi_realized_boundaries h = hi_realized_boundaries (ov_result ?st)"
    "hi_points h = hi_points (ov_result st) @ [(stop, hi_final_pnl h)]" "hi_final_pnl h = ac_total (ov_account st)"
    "hi_final_realized_net h = ac_realized_net (ov_account st)"
    "hi_start_pnl h = (if ov_started st then hi_start_pnl (ov_result st) else ac_total (ov_account st))"
    using h by (auto simp: finish_history_def Let_def split: if_splits)
  have acc: "fold_res (account_event k) es a0 = Inr (ov_account st)" using B by (simp add: boundaries_ok_def)
  have all: "filter (\<lambda>e. event_ts e < stop + 1) es = es" unfolding es_def by (simp add: filter_id_conv zless_add1_eq order_le_less)
  have bs': "set bs' = {b \<in> set bs. b \<le> stop}" unfolding bs'_def by (rule wanted_facts(2))
  have "case (map_of (hi_boundaries h) b, map_of (hi_realized_boundaries h) b) of
      (Some v, Some w) \<Rightarrow> b \<in> set bs \<and> b \<le> stop \<and> (\<exists>a. account_before k inputs b = Inr a \<and> v = ac_total a \<and> w = ac_realized_net a)
    | (None, None) \<Rightarrow> \<not> (b \<in> set bs \<and> b \<le> stop) | _ \<Rightarrow> False" for b
  proof (cases "b \<in> set bs'")
    case True
    then show ?thesis using bm(3) bs' ac [of b] by (fastforce simp: hh)
  next
    case False
    then have "map_of (hi_boundaries (ov_result ?st)) b = None" "map_of (hi_realized_boundaries (ov_result ?st)) b = None"
      using bm(1,2) by blast+
    then show ?thesis using False bs' by (simp add: hh)
  qed
  moreover have "\<exists>a. account_before k inputs start = Inr a \<and> hi_start_pnl h = ac_total a"
  proof (cases "ov_started st")
    case True
    then show ?thesis using P ac [of start] assms(2) hh(6) by (auto simp: points_ok_def)
  next
    case False
    then have "filter (\<lambda>e. event_ts e < start) es = es" using P by (auto simp: points_ok_def filter_id_conv)
    then show ?thesis using False acc ac [of start] assms(2) hh(6) by simp
  qed
  moreover have "\<exists>a. account_before k inputs (stop + 1) = Inr a \<and> hi_final_pnl h = ac_total a \<and> hi_final_realized_net h = ac_realized_net a"
    using ac [of "stop + 1"] all acc hh by simp
  moreover have "\<forall>(t, v) \<in> set (hi_points (ov_result st)). start \<le> t \<and> t \<le> stop \<and>
      (\<exists>a. account_before k inputs (t + 1) = Inr a \<and> v = ac_total a)"
  proof (intro ballI, clarify)
    fix t v assume tv: "(t, v) \<in> set (hi_points (ov_result st))"
    then obtain e a where e: "start \<le> t" "e \<in> set es" "event_ts e = t"
      "fold_res (account_event k) (filter (\<lambda>e. event_ts e \<le> t) es) a0 = Inr a" "v = ac_total a" using P by (auto simp: points_ok_def)
    have "t \<le> stop" using e(2,3) by (auto simp: es_def)
    moreover have "filter (\<lambda>e. event_ts e < t + 1) es = filter (\<lambda>e. event_ts e \<le> t) es" by (rule filter_cong) auto
    ultimately show "start \<le> t \<and> t \<le> stop \<and> (\<exists>a. account_before k inputs (t + 1) = Inr a \<and> v = ac_total a)"
      using e ac [of "t + 1"] by auto
  qed
  moreover have "sorted_wrt (<) (map fst (hi_points (ov_result st)))" using P by (simp add: points_ok_def)
  ultimately show ?thesis using hh(3) by (intro conjI allI) (blast | simp)+
qed

section \<open>Properties\<close>

text \<open>C14: The history of an account.  The value recorded at a wanted boundary is the total, and the realized net
  profit, after exactly the events strictly before it, so a fill at midnight belongs to the new day; boundaries
  after the end are left out and none is missed.  The starting and the final value are the totals before the start
  and after the end, and the points list every change in between with the total after all events of its time.\<close>

theorem account_history:
  assumes "replay_account k inputs start stop bs = Inr h" "start \<le> stop"
  shows "(\<forall>b. case (map_of (hi_boundaries h) b, map_of (hi_realized_boundaries h) b) of
      (Some v, Some w) \<Rightarrow> b \<in> set bs \<and> b \<le> stop \<and> (\<exists>a. account_before k inputs b = Inr a \<and> v = ac_total a \<and> w = ac_realized_net a)
    | (None, None) \<Rightarrow> \<not> (b \<in> set bs \<and> b \<le> stop)
    | _ \<Rightarrow> False) \<and>
    (\<exists>a. account_before k inputs start = Inr a \<and> hi_start_pnl h = ac_total a) \<and>
    (\<exists>a. account_before k inputs (stop + 1) = Inr a \<and> hi_final_pnl h = ac_total a \<and> hi_final_realized_net h = ac_realized_net a) \<and>
    (\<exists>points. hi_points h = points @ [(stop, hi_final_pnl h)] \<and> sorted_wrt (<) (map fst points) \<and>
       (\<forall>(t, v) \<in> set points. start \<le> t \<and> t \<le> stop \<and> (\<exists>a. account_before k inputs (t + 1) = Inr a \<and> v = ac_total a)))"
  using assms by (rule replay_account_spec)

definition sample_account :: pnl_inputs where
  "sample_account = \<lparr>in_trades = [], in_funding = [\<lparr>fe_symbol = ''A'', fe_amount_usdt = Fin 2, fe_ts = 5\<rparr>,
     \<lparr>fe_symbol = ''A'', fe_amount_usdt = Fin 3, fe_ts = 8\<rparr>], in_interest = [], in_initial_positions = []\<rparr>"

lemma sample_account_replays:
  "replay_account FundingRate sample_account 0 10 [5, 7, 20] =
     Inr \<lparr>hi_boundaries = [(5, Fin 0), (7, Fin 2)], hi_points = [(5, Fin 2), (8, Fin 5), (10, Fin 5)],
       hi_realized_boundaries = [(5, Fin 0), (7, Fin 2)], hi_final_realized_net = Fin 5, hi_final_pnl = Fin 5, hi_start_pnl = Fin 0\<rparr>"
proof -
  have r: "rnd 2 = Fin 2" "rnd 3 = Fin 3" "rnd 5 = Fin 5" using rnd_of_int [of 2] rnd_of_int [of 3] rnd_of_int [of 5] by simp_all
  have e: "sorted_events sample_account = [Funding \<lparr>fe_symbol = ''A'', fe_amount_usdt = Fin 2, fe_ts = 5\<rparr>,
     Funding \<lparr>fe_symbol = ''A'', fe_amount_usdt = Fin 3, fe_ts = 8\<rparr>]"
    by (simp add: sorted_events_def sample_account_def event_order_def less_eq_prod_def)
  have w: "wanted_boundaries 10 [5, 7, 20] = [5, 7]" by (simp add: wanted_boundaries_def)
  show ?thesis unfolding replay_account_def e w
    by (simp add: seeded_account_def sample_account_def overview_event_def Let_def take_boundaries_def account_event_def
        entry_state_def symbol_for_source_def apply_event_def apply_symbol_event_def current_metrics_def or_default_def
        symbol_metrics_def default_venue_snapshot_def zero_f64_def r realized_net_pnl_def insert_boundary_def empty_history_def
        push_total_def finish_history_def)
qed

lemma account_history_witness:
  "(0 :: int) \<le> 10 \<and> (\<exists>h. replay_account FundingRate sample_account 0 10 [5, 7, 20] = Inr h \<and>
     (\<exists>a. account_before FundingRate sample_account 0 = Inr a \<and> hi_start_pnl h = ac_total a) \<and>
     (\<exists>a. account_before FundingRate sample_account 11 = Inr a \<and> hi_final_pnl h = ac_total a))"
  using account_history [OF sample_account_replays] sample_account_replays by auto

end
