(* ===== verification/F64Text.thy ===== *)
theory F64Text
  imports Prelude F64
begin

text \<open>
  \<open>str::parse::<f64>\<close> of Rust's standard library, on ASCII text: an optional sign, then \<open>inf\<close>, \<open>infinity\<close> or \<open>nan\<close> in any case,
  or decimal digits with an optional point and exponent; the value is rounded once, to the nearest double.
\<close>

definition digits_nat :: "string \<Rightarrow> nat" where
  "digits_nat s = foldl (\<lambda>n c. 10 * n + digit_val c) 0 s"

definition split_sign :: "string \<Rightarrow> bool \<times> string" where
  "split_sign s =
     (case s of
        [] \<Rightarrow> (False, [])
      | c # r \<Rightarrow> if c = CHR ''-'' then (True, r) else if c = CHR ''+'' then (False, r) else (False, s))"

definition parse_exponent :: "string \<Rightarrow> int option" where
  "parse_exponent s =
     (case s of
        [] \<Rightarrow> Some 0
      | c # r \<Rightarrow>
          (let (negative, ds) = split_sign r
           in if c \<in> {CHR ''e'', CHR ''E''} \<and> ds \<noteq> [] \<and> list_all is_ascii_digit ds
              then Some (if negative then - int (digits_nat ds) else int (digits_nat ds)) else None))"

definition parse_decimal :: "string \<Rightarrow> f64 option" where
  "parse_decimal s =
     (let whole = takeWhile is_ascii_digit s; rest = dropWhile is_ascii_digit s;
          (fraction, rest) = (case rest of
             [] \<Rightarrow> ([], [])
           | c # r \<Rightarrow> if c = CHR ''.'' then (takeWhile is_ascii_digit r, dropWhile is_ascii_digit r) else ([], rest))
      in if whole = [] \<and> fraction = [] then None
         else map_option (\<lambda>e. rnd (of_nat (digits_nat (whole @ fraction)) * 10 powi (e - int (length fraction)))) (parse_exponent rest))"

definition parse_f64 :: "string \<Rightarrow> f64 option" where
  "parse_f64 s =
     (let (negative, r) = split_sign s; word = to_ascii_lowercase r;
          magnitude = (if word \<in> {''inf'', ''infinity''} then Some (Inf False)
            else if word = ''nan'' then Some NaN else parse_decimal r)
      in map_option (\<lambda>x. if negative then - x else x) magnitude)"

lemma is_f64_parse_f64: "parse_f64 s = Some x \<Longrightarrow> is_f64 x"
  by (auto simp: parse_f64_def parse_decimal_def Let_def split_beta split: if_splits)

end
