(* ===== verification/MarkPrices.thy ===== *)
theory MarkPrices
  imports F64Text
begin

text \<open>
  \<open>src/src/mark_prices.rs\<close>: the cache of mark prices, fed by a REST bootstrap and by a binary feed whose messages
  it decodes.  The cache behind its lock is a function from exchange and symbol; each call of \<open>update\<close> or \<open>price\<close> is one
  critical section, and a poisoned lock (a panic while it was held) is not modelled.  A \<open>u32\<close>, \<open>i64\<close> or \<open>f64\<close> is read
  from little-endian bytes; a byte is a natural number below 256.  Text is ASCII; what Rust's Unicode tables would make
  of other text is the argument \<open>unicode\<close>.  HTTP and the shared-memory transport are not modelled.
\<close>

section \<open>The cache\<close>

datatype mark_price_exchange = BinanceMark | BybitMark | GateMark | OkxMark

record mark_price =
  mp_price :: f64
  mp_exchange_ts_ms :: int

type_synonym mark_price_cache = "mark_price_exchange \<Rightarrow> string \<Rightarrow> mark_price option"

definition empty_cache :: mark_price_cache where
  "empty_cache = (\<lambda>_ _. None)"

definition is_ascii_uppercase :: "char \<Rightarrow> bool" where
  "is_ascii_uppercase c \<longleftrightarrow> 65 \<le> (of_char c :: nat) \<and> (of_char c :: nat) \<le> 90"

definition symbol_separators :: "char set" where
  "symbol_separators = {CHR ''-'', CHR ''_'', CHR ''/''}"

definition normalize_mark_symbol :: "string \<Rightarrow> string option" where
  "normalize_mark_symbol value =
     (let symbol = map ascii_upper (filter (\<lambda>c. c \<notin> symbol_separators) value)
      in if symbol \<noteq> [] \<and> list_all (\<lambda>c. is_ascii_uppercase c \<or> is_ascii_digit c) symbol then Some symbol else None)"

definition mark_price_of :: "mark_price_exchange \<Rightarrow> string \<Rightarrow> mark_price_cache \<Rightarrow> f64 option" where
  "mark_price_of exchange symbol cache =
     (case normalize_mark_symbol symbol of
        None \<Rightarrow> None
      | Some symbol \<Rightarrow> map_option mp_price (cache exchange symbol))"

definition update_mark_price ::
    "mark_price_exchange \<Rightarrow> string \<Rightarrow> f64 \<Rightarrow> int \<Rightarrow> mark_price_cache \<Rightarrow> bool \<times> mark_price_cache" where
  "update_mark_price exchange symbol price exchange_ts_ms cache =
     (case normalize_mark_symbol symbol of
        None \<Rightarrow> (False, cache)
      | Some symbol \<Rightarrow>
          if \<not> is_finite price \<or> price \<le> 0 \<or> exchange_ts_ms < 0 then (False, cache)
          else if (case cache exchange symbol of Some existing \<Rightarrow> exchange_ts_ms < mp_exchange_ts_ms existing | None \<Rightarrow> False)
          then (False, cache)
          else (True, cache(exchange := (cache exchange)
                 (symbol \<mapsto> \<lparr>mp_price = price, mp_exchange_ts_ms = exchange_ts_ms\<rparr>))))"

text \<open>The bootstrap stores its rows with timestamp zero, so that any message of the feed replaces them.\<close>

definition store_bootstrap_rows :: "mark_price_exchange \<Rightarrow> (string \<times> f64) list \<Rightarrow> mark_price_cache \<Rightarrow> nat \<times> mark_price_cache" where
  "store_bootstrap_rows exchange rows cache =
     fold (\<lambda>(symbol, price) (stored, c). let (ok, c) = update_mark_price exchange symbol price 0 c
        in (stored + (if ok then 1 else 0), c)) rows (0, cache)"

definition parse_rest_rows :: "(string \<times> string) list \<Rightarrow> string + (string \<times> f64) list" where
  "parse_rest_rows rows =
     bind_res (fold_res (\<lambda>(symbol, text) parsed.
        case normalize_mark_symbol symbol of
          None \<Rightarrow> Inr parsed
        | Some symbol \<Rightarrow>
            (case parse_f64 text of
               None \<Rightarrow> Inl (''invalid mark price for '' @ symbol)
             | Some price \<Rightarrow> Inr (if is_finite price \<and> 0 < price then parsed @ [(symbol, price)] else parsed))) rows [])
       (\<lambda>parsed. if parsed = [] then Inl ''mark price response contains no usable rows'' else Inr parsed)"

definition parse_bybit_mark_prices :: "int \<Rightarrow> (string \<times> string) list \<Rightarrow> string + (string \<times> f64) list" where
  "parse_bybit_mark_prices ret_code rows =
     (if ret_code \<noteq> 0 then Inl ''Bybit linear tickers error'' else parse_rest_rows rows)"

text \<open>Binance and Gate return a bare list of rows; OKX wraps it with a code and names perpetuals with a suffix.\<close>

definition strip_suffix :: "string \<Rightarrow> string \<Rightarrow> string option" where
  "strip_suffix suffix s = (if length suffix \<le> length s \<and> drop (length s - length suffix) s = suffix
     then Some (take (length s - length suffix) s) else None)"

definition parse_okx_mark_prices :: "string \<Rightarrow> (string \<times> string) list \<Rightarrow> string + (string \<times> f64) list" where
  "parse_okx_mark_prices code rows =
     (if code \<noteq> ''0'' then Inl ''OKX mark prices error''
      else parse_rest_rows (List.map_filter (\<lambda>(inst_id, mark_px). map_option (\<lambda>symbol. (symbol, mark_px)) (strip_suffix ''-SWAP'' inst_id)) rows))"

section \<open>The binary feed\<close>

definition mark_price_message_type :: nat where
  "mark_price_message_type = 1011"

record mark_price_update =
  mu_symbol :: string
  mu_price :: f64
  mu_exchange_ts_ms :: int

fun le_nat :: "nat list \<Rightarrow> nat" where
  "le_nat [] = 0"
| "le_nat (b # bs) = b + 256 * le_nat bs"

definition slice :: "nat \<Rightarrow> nat \<Rightarrow> 'a list \<Rightarrow> 'a list option" where
  "slice i j bytes = (if i \<le> j \<and> j \<le> length bytes then Some (take (j - i) (drop i bytes)) else None)"

definition read_u32 :: "nat list \<Rightarrow> nat \<Rightarrow> nat option" where
  "read_u32 payload offset = map_option le_nat (slice offset (offset + 4) payload)"

definition read_u64 :: "nat list \<Rightarrow> nat \<Rightarrow> nat option" where
  "read_u64 payload offset = map_option le_nat (slice offset (offset + 8) payload)"

definition i64_of_bits :: "nat \<Rightarrow> int" where
  "i64_of_bits n = (if n < 2 ^ 63 then int n else int n - 2 ^ 64)"

text \<open>IEEE 754 binary64: sign, biased exponent and fraction.\<close>

definition f64_of_bits :: "nat \<Rightarrow> f64" where
  "f64_of_bits n =
     (let negative = 2 ^ 63 \<le> n; e = n div 2 ^ 52 mod 2 ^ 11; m = n mod 2 ^ 52;
          magnitude = (if e = 0 then Fin (of_nat m * 2 powi (- 1074))
            else if e = 2047 then (if m = 0 then Inf False else NaN)
            else Fin (of_nat (2 ^ 52 + m) * 2 powi (int e - 1075)))
      in if negative then - magnitude else magnitude)"

definition read_i64 :: "nat list \<Rightarrow> nat \<Rightarrow> int option" where
  "read_i64 payload offset = map_option i64_of_bits (read_u64 payload offset)"

definition read_f64 :: "nat list \<Rightarrow> nat \<Rightarrow> f64 option" where
  "read_f64 payload offset = map_option f64_of_bits (read_u64 payload offset)"

definition symbol_text :: "(nat list \<Rightarrow> string option) \<Rightarrow> nat list \<Rightarrow> string option" where
  "symbol_text unicode bytes = (if list_all (\<lambda>b. b < 128) bytes then Some (map char_of bytes) else unicode bytes)"

definition bind_opt :: "'a option \<Rightarrow> ('a \<Rightarrow> 'b option) \<Rightarrow> 'b option" where
  "bind_opt x f = (case x of None \<Rightarrow> None | Some y \<Rightarrow> f y)"

definition parse_mark_price :: "(nat list \<Rightarrow> string option) \<Rightarrow> nat list \<Rightarrow> mark_price_update option" where
  "parse_mark_price unicode payload =
     (if length payload < 24 \<or> read_u32 payload 0 \<noteq> Some mark_price_message_type then None
      else bind_opt (read_u32 payload 4) (\<lambda>symbol_len.
        let price_offset = 8 + symbol_len; timestamp_offset = price_offset + 8
        in if length payload < timestamp_offset + 8 then None
           else bind_opt (slice 8 price_offset payload) (\<lambda>bytes.
             bind_opt (symbol_text unicode bytes) (\<lambda>text.
             bind_opt (normalize_mark_symbol text) (\<lambda>symbol.
             bind_opt (read_f64 payload price_offset) (\<lambda>price.
             bind_opt (read_i64 payload timestamp_offset) (\<lambda>exchange_ts_ms.
               if \<not> is_finite price \<or> price \<le> 0 \<or> exchange_ts_ms \<le> 0 then None
               else Some \<lparr>mu_symbol = symbol, mu_price = price, mu_exchange_ts_ms = exchange_ts_ms\<rparr>)))))))"

text \<open>\<open>drain\<close> applies every message it receives that decodes.\<close>

definition apply_message :: "(nat list \<Rightarrow> string option) \<Rightarrow> mark_price_exchange \<Rightarrow> nat list \<Rightarrow> mark_price_cache \<Rightarrow> mark_price_cache" where
  "apply_message unicode exchange payload cache =
     (case parse_mark_price unicode payload of
        None \<Rightarrow> cache
      | Some u \<Rightarrow> snd (update_mark_price exchange (mu_symbol u) (mu_price u) (mu_exchange_ts_ms u) cache))"

section \<open>Decoding an encoded message\<close>

fun le_bytes :: "nat \<Rightarrow> nat \<Rightarrow> nat list" where
  "le_bytes 0 n = []"
| "le_bytes (Suc k) n = n mod 256 # le_bytes k (n div 256)"

text \<open>The layout of a message: type, length of the symbol, symbol, price and time, in little-endian order.\<close>

definition encode_mark_price :: "string \<Rightarrow> nat \<Rightarrow> nat \<Rightarrow> nat list" where
  "encode_mark_price symbol price_bits ts =
     le_bytes 4 mark_price_message_type @ le_bytes 4 (length symbol) @ map of_char symbol @ le_bytes 8 price_bits @ le_bytes 8 ts"

lemma length_le_bytes [simp]: "length (le_bytes k n) = k"
  by (induction k arbitrary: n) auto

lemma le_nat_le_bytes: "n < 256 ^ k \<Longrightarrow> le_nat (le_bytes k n) = n"
proof (induction k arbitrary: n)
  case (Suc k)
  have "n div 256 < 256 ^ k" using Suc.prems by (simp add: less_mult_imp_div_less mult.commute)
  then show ?case using Suc.IH by simp
qed simp

lemma slice_append: "length xs = i \<Longrightarrow> j = i + length ys \<Longrightarrow> slice i j (xs @ ys @ zs) = Some ys"
  by (simp add: slice_def)

lemma normalized_ascii:
  assumes "normalize_mark_symbol value = Some symbol"
  shows "symbol \<noteq> []" "\<forall>c \<in> set symbol. (of_char c :: nat) < 128"
proof -
  have "symbol \<noteq> [] \<and> (\<forall>c \<in> set symbol. is_ascii_uppercase c \<or> is_ascii_digit c)"
    using assms unfolding normalize_mark_symbol_def Let_def list_all_iff by (metis option.distinct(1) option.inject)
  then show "symbol \<noteq> []" "\<forall>c \<in> set symbol. (of_char c :: nat) < 128"
    by (auto simp: is_ascii_uppercase_def is_ascii_digit_def)
qed

lemma symbol_text_ascii: "\<forall>c \<in> set s. (of_char c :: nat) < 128 \<Longrightarrow> symbol_text unicode (map of_char s) = Some s"
  by (simp add: symbol_text_def list_all_iff comp_def)

lemma parse_encoded:
  assumes "normalize_mark_symbol symbol = Some symbol" "length symbol < 2 ^ 32" "price_bits < 2 ^ 64" "0 < ts" "ts < 2 ^ 63"
    and "is_finite (f64_of_bits price_bits)" "0 < f64_of_bits price_bits"
  shows "parse_mark_price unicode (encode_mark_price symbol price_bits ts @ padding) =
    Some \<lparr>mu_symbol = symbol, mu_price = f64_of_bits price_bits, mu_exchange_ts_ms = int ts\<rparr>"
proof -
  let ?ty = "le_bytes 4 mark_price_message_type" and ?ln = "le_bytes 4 (length symbol)" and ?sy = "map of_char symbol"
    and ?pr = "le_bytes 8 price_bits" and ?ti = "le_bytes 8 ts" and ?n = "length symbol"
  let ?p = "encode_mark_price symbol price_bits ts @ padding"
  have p: "?p = [] @ ?ty @ (?ln @ ?sy @ ?pr @ ?ti @ padding)" "?p = ?ty @ ?ln @ (?sy @ ?pr @ ?ti @ padding)"
    "?p = (?ty @ ?ln) @ ?sy @ (?pr @ ?ti @ padding)" "?p = (?ty @ ?ln @ ?sy) @ ?pr @ (?ti @ padding)"
    "?p = (?ty @ ?ln @ ?sy @ ?pr) @ ?ti @ padding" by (simp_all add: encode_mark_price_def)
  have "symbol \<noteq> []" and ascii: "\<forall>c \<in> set symbol. (of_char c :: nat) < 128" using normalized_ascii [OF assms(1)] by auto
  have r0: "read_u32 ?p 0 = Some mark_price_message_type" unfolding read_u32_def
    by (subst p(1), subst slice_append) (simp_all add: le_nat_le_bytes mark_price_message_type_def)
  have r4: "read_u32 ?p 4 = Some ?n" unfolding read_u32_def
    by (subst p(2), subst slice_append) (use assms(2) in \<open>simp_all add: le_nat_le_bytes\<close>)
  have rs: "slice 8 (8 + ?n) ?p = Some ?sy" by (subst p(3), subst slice_append) simp_all
  have rp: "read_f64 ?p (8 + ?n) = Some (f64_of_bits price_bits)" unfolding read_f64_def read_u64_def
    by (subst p(4), subst slice_append) (use assms(3) in \<open>simp_all add: le_nat_le_bytes\<close>)
  have "ts < 2 ^ 64" using assms(5) by simp
  then have rt: "read_i64 ?p (8 + ?n + 8) = Some (int ts)" unfolding read_i64_def read_u64_def
    by (subst p(5), subst slice_append) (use assms(5) in \<open>simp_all add: le_nat_le_bytes i64_of_bits_def\<close>)
  have len: "length ?p = 24 + ?n + length padding" by (simp add: encode_mark_price_def)
  have "\<not> f64_of_bits price_bits \<le> 0" using assms(7) by (cases "f64_of_bits price_bits" rule: f64_cases3) (auto simp: zero_f64_def)
  then show ?thesis using r0 r4 rs rp rt len assms(1,4,6) symbol_text_ascii [OF ascii]
    by (simp add: parse_mark_price_def Let_def bind_opt_def)
qed

text \<open>C26: Decoding inverts encoding: a message with a normalized symbol, a positive finite price and a positive time
  decodes to exactly these, whatever padding follows in the fixed-size payload.\<close>

theorem mark_price_roundtrip:
  assumes "normalize_mark_symbol symbol = Some symbol" "length symbol < 2 ^ 32" "price_bits < 2 ^ 64" "0 < ts" "ts < 2 ^ 63"
    and "is_finite (f64_of_bits price_bits)" "0 < f64_of_bits price_bits"
  shows "parse_mark_price unicode (encode_mark_price symbol price_bits ts @ padding) =
    Some \<lparr>mu_symbol = symbol, mu_price = f64_of_bits price_bits, mu_exchange_ts_ms = int ts\<rparr>"
  using assms by (rule parse_encoded)

text \<open>The price 1.5, whose fraction bits are one half.\<close>

definition sample_price_bits :: nat where
  "sample_price_bits = 1023 * 2 ^ 52 + 2 ^ 51"

lemma sample_price: "f64_of_bits sample_price_bits = Fin (3 / 2)" "sample_price_bits < 2 ^ 64"
  by (simp_all add: f64_of_bits_def sample_price_bits_def power_int_def power_one_over)

lemma mark_price_roundtrip_witness:
  "parse_mark_price (\<lambda>_. None) (encode_mark_price ''BNBUSDT'' sample_price_bits 7 @ [0, 0, 0]) =
     Some \<lparr>mu_symbol = ''BNBUSDT'', mu_price = Fin (3 / 2), mu_exchange_ts_ms = 7\<rparr>"
proof -
  have n: "normalize_mark_symbol ''BNBUSDT'' = Some ''BNBUSDT''" by code_simp
  show ?thesis using mark_price_roundtrip [OF n _ sample_price(2), of 7 "\<lambda>_. None" "[0, 0, 0]"] by (simp add: sample_price(1))
qed

section \<open>The latest price wins\<close>

record update_call =
  uc_exchange :: mark_price_exchange
  uc_symbol :: string
  uc_price :: f64
  uc_ts :: int

definition run_updates :: "update_call list \<Rightarrow> mark_price_cache" where
  "run_updates calls = fold (\<lambda>u c. snd (update_mark_price (uc_exchange u) (uc_symbol u) (uc_price u) (uc_ts u) c)) calls empty_cache"

definition usable_update :: "mark_price_exchange \<Rightarrow> string \<Rightarrow> update_call \<Rightarrow> bool" where
  "usable_update exchange symbol u \<longleftrightarrow> uc_exchange u = exchange \<and> normalize_mark_symbol (uc_symbol u) = Some symbol \<and>
     is_finite (uc_price u) \<and> 0 < uc_price u \<and> 0 \<le> uc_ts u"

lemma run_updates_snoc: "run_updates (calls @ [u]) = snd (update_mark_price (uc_exchange u) (uc_symbol u) (uc_price u) (uc_ts u) (run_updates calls))"
  by (simp add: run_updates_def)

text \<open>An entry is the update that the calls with the highest time end with.\<close>

definition latest :: "(update_call \<Rightarrow> bool) \<Rightarrow> update_call list \<Rightarrow> mark_price option \<Rightarrow> bool" where
  "latest usable calls entry \<longleftrightarrow>
     (case entry of
        None \<Rightarrow> \<forall>u \<in> set calls. \<not> usable u
      | Some e \<Rightarrow> \<exists>before u after. calls = before @ u # after \<and> usable u \<and> mp_price e = uc_price u \<and> mp_exchange_ts_ms e = uc_ts u \<and>
          (\<forall>v \<in> set before. usable v \<longrightarrow> uc_ts v \<le> uc_ts u) \<and> (\<forall>v \<in> set after. usable v \<longrightarrow> uc_ts v < uc_ts u))"

lemma latest_skip: "latest P calls entry \<Longrightarrow> \<not> P u \<Longrightarrow> latest P (calls @ [u]) entry"
  unfolding latest_def by (cases entry) (auto, metis append.assoc append_Cons set_append Un_iff list.set(1,2) insertE empty_iff)

lemma latest_old:
  assumes "latest P calls (Some e)" "uc_ts u < mp_exchange_ts_ms e" shows "latest P (calls @ [u]) (Some e)"
proof -
  obtain bs w as where "calls = bs @ w # as" "P w" "mp_price e = uc_price w" "mp_exchange_ts_ms e = uc_ts w"
    "\<forall>v \<in> set bs. P v \<longrightarrow> uc_ts v \<le> uc_ts w" "\<forall>v \<in> set as. P v \<longrightarrow> uc_ts v < uc_ts w"
    using assms(1) by (auto simp: latest_def)
  then show ?thesis using assms(2) unfolding latest_def option.case
    by (intro exI [of _ bs] exI [of _ w] exI [of _ "as @ [u]"]) auto
qed

lemma latest_new:
  assumes "latest P calls entry" "P u" "\<forall>e. entry = Some e \<longrightarrow> mp_exchange_ts_ms e \<le> uc_ts u"
  shows "latest P (calls @ [u]) (Some \<lparr>mp_price = uc_price u, mp_exchange_ts_ms = uc_ts u\<rparr>)"
proof -
  have "\<forall>v \<in> set calls. P v \<longrightarrow> uc_ts v \<le> uc_ts u"
    using assms(1,3) by (cases entry) (fastforce simp: latest_def)+
  then show ?thesis using assms(2) unfolding latest_def option.case
    by (intro exI [of _ calls] exI [of _ u] exI [of _ "[]"]) auto
qed

lemma update_latest: "latest (usable_update exchange symbol) calls (run_updates calls exchange symbol)"
proof (induction calls rule: rev_induct)
  case (snoc u calls)
  let ?c = "run_updates calls" and ?P = "usable_update exchange symbol"
  have s: "run_updates (calls @ [u]) = snd (update_mark_price (uc_exchange u) (uc_symbol u) (uc_price u) (uc_ts u) ?c)"
    by (rule run_updates_snoc)
  show ?case
  proof (cases "?P u")
    case False
    have "run_updates (calls @ [u]) exchange symbol = ?c exchange symbol"
      unfolding s using False
      by (auto simp: update_mark_price_def usable_update_def finite_not_le split: option.splits if_splits)
    then show ?thesis using latest_skip [OF snoc False] by simp
  next
    case True
    show ?thesis
    proof (cases "\<exists>e. ?c exchange symbol = Some e \<and> uc_ts u < mp_exchange_ts_ms e")
      case old: True
      then obtain e where e: "?c exchange symbol = Some e" "uc_ts u < mp_exchange_ts_ms e" by blast
      then have "run_updates (calls @ [u]) exchange symbol = Some e"
        unfolding s using True by (auto simp: update_mark_price_def usable_update_def)
      then show ?thesis using latest_old [of ?P calls e u] snoc e by simp
    next
      case new: False
      then have "run_updates (calls @ [u]) exchange symbol = Some \<lparr>mp_price = uc_price u, mp_exchange_ts_ms = uc_ts u\<rparr>"
        unfolding s using True by (auto simp: update_mark_price_def usable_update_def finite_not_le split: option.splits)
      then show ?thesis using latest_new [OF snoc True] new by (simp add: not_less)
    qed
  qed
qed (simp add: latest_def run_updates_def empty_cache_def)

text \<open>Whatever the order in which the feeds and the bootstrap deliver, the cache holds for an exchange and a
  symbol the usable update with the highest timestamp, the latest call among equals, and nothing exactly when there
  was no usable update; a call for another exchange or symbol never changes it.\<close>

theorem mark_price_latest_wins:
  "case run_updates calls exchange symbol of
     None \<Rightarrow> \<forall>u \<in> set calls. \<not> usable_update exchange symbol u
   | Some e \<Rightarrow> \<exists>before u after. calls = before @ u # after \<and> usable_update exchange symbol u \<and>
       mp_price e = uc_price u \<and> mp_exchange_ts_ms e = uc_ts u \<and>
       (\<forall>v \<in> set before. usable_update exchange symbol v \<longrightarrow> uc_ts v \<le> uc_ts u) \<and>
       (\<forall>v \<in> set after. usable_update exchange symbol v \<longrightarrow> uc_ts v < uc_ts u)"
  using update_latest [of exchange symbol calls] by (simp add: latest_def)

lemma mark_price_latest_wins_witness:
  "run_updates [\<lparr>uc_exchange = GateMark, uc_symbol = ''bnb_usdt'', uc_price = Fin 2, uc_ts = 9\<rparr>,
     \<lparr>uc_exchange = GateMark, uc_symbol = ''BNBUSDT'', uc_price = Fin 3, uc_ts = 4\<rparr>] GateMark ''BNBUSDT'' =
     Some \<lparr>mp_price = Fin 2, mp_exchange_ts_ms = 9\<rparr>"
proof -
  let ?cs = "[\<lparr>uc_exchange = GateMark, uc_symbol = ''bnb_usdt'', uc_price = Fin 2, uc_ts = 9\<rparr>,
     \<lparr>uc_exchange = GateMark, uc_symbol = ''BNBUSDT'', uc_price = Fin 3, uc_ts = 4\<rparr>]"
  have n: "normalize_mark_symbol ''bnb_usdt'' = Some ''BNBUSDT''" "normalize_mark_symbol ''BNBUSDT'' = Some ''BNBUSDT''" by code_simp+
  show ?thesis using mark_price_latest_wins [of ?cs GateMark "''BNBUSDT''"] n
    by (cases "run_updates ?cs GateMark ''BNBUSDT''")
      (auto simp: usable_update_def zero_f64_def Cons_eq_append_conv)
qed

end
