(* ===== verification/Json.thy ===== *)
theory Json
  imports F64Text
begin

text \<open>
  JSON values as \<open>serde_json\<close> presents them: an object keeps the last value of a repeated key; a number is a 64-bit
  integer or a double.  The shortest decimal text of a double is the argument \<open>float_text\<close> of the functions that print one.
  Texts are ASCII.
\<close>

datatype json_number = JInt int | JFloat f64

datatype json = JNull | JBool bool | JNumber json_number | JString string | JArray "json list" | JObject "(string \<times> json) list"

definition json_get :: "string \<Rightarrow> json \<Rightarrow> json option" where
  "json_get key v = (case v of JObject fields \<Rightarrow> map_of (rev fields) key | _ \<Rightarrow> None)"

definition as_array :: "json \<Rightarrow> json list option" where
  "as_array v = (case v of JArray xs \<Rightarrow> Some xs | _ \<Rightarrow> None)"

definition as_str :: "json \<Rightarrow> string option" where
  "as_str v = (case v of JString s \<Rightarrow> Some s | _ \<Rightarrow> None)"

definition as_bool :: "json \<Rightarrow> bool option" where
  "as_bool v = (case v of JBool b \<Rightarrow> Some b | _ \<Rightarrow> None)"

definition as_i64 :: "json \<Rightarrow> int option" where
  "as_i64 v = (case v of JNumber (JInt n) \<Rightarrow> if is_i64 n then Some n else None | _ \<Rightarrow> None)"

definition as_f64 :: "json \<Rightarrow> f64 option" where
  "as_f64 v = (case v of JNumber (JInt n) \<Rightarrow> Some (f64_of_int n) | JNumber (JFloat x) \<Rightarrow> Some x | _ \<Rightarrow> None)"

section \<open>Decimal text of integers\<close>

fun nat_digits :: "nat \<Rightarrow> string" where
  "nat_digits n = (if n < 10 then [char_of (48 + n)] else nat_digits (n div 10) @ [char_of (48 + n mod 10)])"

declare nat_digits.simps [simp del]

definition int_text :: "int \<Rightarrow> string" where
  "int_text n = (if n < 0 then CHR ''-'' # nat_digits (nat (- n)) else nat_digits (nat n))"

lemma digit_char: "d < 10 \<Longrightarrow> is_ascii_digit (char_of (48 + d :: nat)) \<and> digit_val (char_of (48 + d :: nat)) = d"
  by (simp add: is_ascii_digit_def digit_val_def)

lemma nat_digits_digits: "nat_digits n \<noteq> [] \<and> list_all is_ascii_digit (nat_digits n)"
proof (induction n rule: nat_digits.induct)
  case (1 n)
  then show ?case using digit_char [of n] digit_char [of "n mod 10"] by (subst (1 2) nat_digits.simps) auto
qed

lemma nat_digits_val: "foldl (\<lambda>n c. 10 * n + digit_val c) 0 (nat_digits n) = n"
proof (induction n rule: nat_digits.induct)
  case (1 n)
  then show ?case using digit_char [of n] digit_char [of "n mod 10"] by (subst nat_digits.simps) auto
qed

lemma parse_digits_nat_digits: "parse_digits (nat_digits n) = Some n"
  using nat_digits_digits nat_digits_val by (simp add: parse_digits_def)

lemma hd_digit: "c # r = nat_digits n \<Longrightarrow> is_ascii_digit c"
  using nat_digits_digits [of n] by (metis list.pred_inject(2))

text \<open>Reading the text of an i64 gives the integer back.\<close>

lemma parse_i64_int_text: "is_i64 n \<Longrightarrow> parse_i64 (int_text n) = Some n"
proof (cases "n < 0")
  case True
  assume i: "is_i64 n"
  have "- int (nat (- n)) = n" using True by simp
  then show ?thesis using i True by (simp add: parse_i64_def int_text_def parse_digits_nat_digits)
next
  case False
  assume i: "is_i64 n"
  obtain c r where cr: "nat_digits (nat n) = c # r" using nat_digits_digits [of "nat n"] by (cases "nat_digits (nat n)") auto
  then have "is_ascii_digit c" using hd_digit [of c r "nat n"] by simp
  then have c: "c \<noteq> CHR ''-''" "c \<noteq> CHR ''+''" by (auto simp: is_ascii_digit_def)
  have "int (nat n) = n" using False by simp
  then show ?thesis using i False c cr parse_digits_nat_digits [of "nat n"] by (simp add: parse_i64_def int_text_def strip_plus_def)
qed

section \<open>Text of a field\<close>

definition value_text :: "(f64 \<Rightarrow> string) \<Rightarrow> json \<Rightarrow> string option" where
  "value_text float_text v =
     (case v of
        JString s \<Rightarrow> Some s
      | JNumber (JInt n) \<Rightarrow> Some (int_text n)
      | JNumber (JFloat x) \<Rightarrow> Some (float_text x)
      | _ \<Rightarrow> None)"

end
