(* ===== verification/ContractMultipliers.thy ===== *)
theory ContractMultipliers
  imports Json
begin

text \<open>
  \<open>src/src/contract_multipliers.rs\<close>: the parsers of the contract listings of Gate and OKX, the daily snapshots they are
  stored as, and the book that answers which multiplier was in force at the time of a trade.  A row of the table is a
  record; the query of \<open>load\<close> with its \<open>WHERE\<close> and \<open>ORDER BY\<close> is a filter and a sort.  HTTP and the scheduling task are
  not modelled.  Texts are ASCII, so \<open>is_alphanumeric\<close> is ASCII alphanumeric.
\<close>

section \<open>The book of multipliers\<close>

record table_row =
  tr_exchange :: string
  tr_market :: string
  tr_symbol :: string
  tr_multiplier :: f64
  tr_effective_at_ms :: int

record multiplier_row =
  mr_symbol :: string
  mr_contract_multiplier :: f64
  mr_effective_at_ms :: int

record multiplier_snapshot =
  ms_effective_at_ms :: int
  ms_multiplier :: f64

record multiplier_book =
  mb_exchange :: string
  mb_by_symbol :: "string \<rightharpoonup> multiplier_snapshot list"

datatype multiplier_error = UnsupportedExchange string | NoMultipliers string | InvalidMultiplier string int f64
  | ConflictingMultipliers string int | MissingMultiplier string int

definition usdt_futures_market :: string where
  "usdt_futures_market = ''usdt_futures''"

definition multiplier_query :: "table_row list \<Rightarrow> string \<Rightarrow> multiplier_row list" where
  "multiplier_query table exchange =
     sort_key (\<lambda>r. (mr_symbol r, mr_effective_at_ms r))
       (map (\<lambda>r. \<lparr>mr_symbol = tr_symbol r, mr_contract_multiplier = tr_multiplier r, mr_effective_at_ms = tr_effective_at_ms r\<rparr>)
         (filter (\<lambda>r. tr_exchange r = exchange \<and> tr_market r = usdt_futures_market) table))"

definition add_multiplier_row :: "multiplier_row \<Rightarrow> (string \<rightharpoonup> multiplier_snapshot list) \<Rightarrow>
    multiplier_error + (string \<rightharpoonup> multiplier_snapshot list)" where
  "add_multiplier_row row by_symbol =
     (if \<not> is_finite (mr_contract_multiplier row) \<or> mr_contract_multiplier row \<le> 0
      then Inl (InvalidMultiplier (mr_symbol row) (mr_effective_at_ms row) (mr_contract_multiplier row))
      else
        let key = to_ascii_uppercase (mr_symbol row);
            snapshots = (case by_symbol key of None \<Rightarrow> [] | Some s \<Rightarrow> s)
        in if snapshots \<noteq> [] \<and> ms_effective_at_ms (last snapshots) = mr_effective_at_ms row
           then (if \<not> feq (ms_multiplier (last snapshots)) (mr_contract_multiplier row)
                 then Inl (ConflictingMultipliers (mr_symbol row) (mr_effective_at_ms row))
                 else Inr (by_symbol(key \<mapsto> snapshots)))
           else Inr (by_symbol(key \<mapsto> snapshots @
                  [\<lparr>ms_effective_at_ms = mr_effective_at_ms row, ms_multiplier = mr_contract_multiplier row\<rparr>])))"

definition book_from_rows :: "string \<Rightarrow> multiplier_row list \<Rightarrow> multiplier_error + multiplier_book" where
  "book_from_rows exchange rows =
     (if rows = [] then Inl (NoMultipliers exchange)
      else bind_res (fold_res add_multiplier_row rows (\<lambda>_. None))
        (\<lambda>by_symbol. Inr \<lparr>mb_exchange = exchange, mb_by_symbol = by_symbol\<rparr>))"

definition load_multipliers :: "table_row list \<Rightarrow> string \<Rightarrow> multiplier_error + multiplier_book" where
  "load_multipliers table exchange =
     (if exchange \<notin> {''gate'', ''okx''} then Inl (UnsupportedExchange exchange)
      else book_from_rows exchange (multiplier_query table exchange))"

text \<open>\<open>partition_point\<close> of a slice that the predicate splits.\<close>

definition partition_point :: "('a \<Rightarrow> bool) \<Rightarrow> 'a list \<Rightarrow> nat" where
  "partition_point p xs = length (takeWhile p xs)"

definition multiplier_at :: "multiplier_book \<Rightarrow> string \<Rightarrow> int \<Rightarrow> multiplier_error + f64" where
  "multiplier_at book symbol0 trade_ts =
     (let symbol = to_ascii_uppercase symbol0
      in case mb_by_symbol book symbol of
           None \<Rightarrow> Inl (MissingMultiplier symbol trade_ts)
         | Some snapshots \<Rightarrow>
             (let index = partition_point (\<lambda>s. ms_effective_at_ms s \<le> trade_ts) snapshots;
                  position = (if index = 0 then 0 else index - 1)
              in if position < length snapshots then Inr (ms_multiplier (snapshots ! position))
                 else Inl (MissingMultiplier symbol trade_ts)))"

section \<open>Contract listings\<close>

record contract_spec =
  cs_exchange :: string
  cs_instrument :: string
  cs_symbol :: string
  cs_base_asset :: string
  cs_quote_asset :: string
  cs_contract_value :: string
  cs_contract_factor :: string
  cs_status :: "string option"
  cs_raw :: json

definition ok_or :: "'e \<Rightarrow> 'a option \<Rightarrow> 'e + 'a" where
  "ok_or e x = (case x of None \<Rightarrow> Inl e | Some v \<Rightarrow> Inr v)"

definition optional_text :: "(f64 \<Rightarrow> string) \<Rightarrow> json \<Rightarrow> string \<Rightarrow> string option" where
  "optional_text float_text v key =
     (case json_get key v of
        None \<Rightarrow> None
      | Some field \<Rightarrow> (case value_text float_text field of None \<Rightarrow> None | Some t \<Rightarrow> if t = [] then None else Some t))"

definition required_text :: "(f64 \<Rightarrow> string) \<Rightarrow> json \<Rightarrow> string \<Rightarrow> string \<Rightarrow> string + string" where
  "required_text float_text v key what = ok_or (what @ '' is missing '' @ key) (optional_text float_text v key)"

definition required_positive_numeric :: "(f64 \<Rightarrow> string) \<Rightarrow> json \<Rightarrow> string \<Rightarrow> string \<Rightarrow> string + string" where
  "required_positive_numeric float_text v key instrument =
     bind_res (required_text float_text v key instrument) (\<lambda>text.
     bind_res (ok_or (instrument @ '' has invalid '' @ key @ '': '' @ text) (parse_f64 text)) (\<lambda>number.
       if \<not> is_finite number \<or> number \<le> 0 then Inl (instrument @ '' has non-positive '' @ key @ '': '' @ text) else Inr text))"

definition normalize_symbol :: "string \<Rightarrow> string + string" where
  "normalize_symbol value =
     (let symbol = filter (\<lambda>c. c \<notin> {CHR ''-'', CHR ''_'', CHR ''/''}) (to_ascii_uppercase (str_trim value))
      in if symbol = [] \<or> \<not> list_all is_ascii_alphanumeric symbol then Inl (''invalid normalized symbol from '' @ value)
         else Inr symbol)"

definition split_once :: "char \<Rightarrow> string \<Rightarrow> (string \<times> string) option" where
  "split_once c s = (if c \<in> set s then Some (takeWhile (\<lambda>x. x \<noteq> c) s, tl (dropWhile (\<lambda>x. x \<noteq> c) s)) else None)"

definition eq_ignore_ascii_case :: "string \<Rightarrow> string \<Rightarrow> bool" where
  "eq_ignore_ascii_case a b \<longleftrightarrow> to_ascii_lowercase a = to_ascii_lowercase b"

definition parse_gate_contract :: "(f64 \<Rightarrow> string) \<Rightarrow> json \<Rightarrow> contract_spec list \<Rightarrow> string + contract_spec list" where
  "parse_gate_contract float_text raw rows =
     bind_res (required_text float_text raw ''name'' ''Gate contract'') (\<lambda>instrument.
     bind_res (ok_or (''Gate contract has invalid name: '' @ instrument) (split_once CHR ''_'' instrument)) (\<lambda>(base_asset, quote_asset).
       if \<not> eq_ignore_ascii_case quote_asset ''USDT'' then Inr rows
       else bind_res (required_positive_numeric float_text raw ''quanto_multiplier'' instrument) (\<lambda>contract_value.
            bind_res (normalize_symbol instrument) (\<lambda>symbol.
              Inr (rows @ [\<lparr>cs_exchange = ''gate'', cs_instrument = instrument, cs_symbol = symbol,
                 cs_base_asset = to_ascii_uppercase base_asset, cs_quote_asset = to_ascii_uppercase quote_asset,
                 cs_contract_value = contract_value, cs_contract_factor = ''1'',
                 cs_status = optional_text float_text raw ''status'', cs_raw = raw\<rparr>])))))"

definition parse_gate_contracts :: "(f64 \<Rightarrow> string) \<Rightarrow> json \<Rightarrow> string + contract_spec list" where
  "parse_gate_contracts float_text v =
     bind_res (ok_or ''Gate contracts response is not an array'' (as_array v)) (\<lambda>contracts.
       fold_res (parse_gate_contract float_text) contracts [])"

text \<open>\<open>trim_end_matches\<close> removes the suffix as often as it is there.\<close>

function trim_end_matches :: "string \<Rightarrow> string \<Rightarrow> string" where
  "trim_end_matches suffix s =
     (if suffix \<noteq> [] \<and> length suffix \<le> length s \<and> drop (length s - length suffix) s = suffix
      then trim_end_matches suffix (take (length s - length suffix) s) else s)"
  by pat_completeness auto
termination by (relation "measure (\<lambda>(suffix, s). length s)") (simp, metis case_prod_conv diff_less dual_order.strict_trans1 in_measure length_greater_0_conv length_take min.absorb2 diff_le_self)

declare trim_end_matches.simps [simp del]

definition parse_okx_contract :: "(f64 \<Rightarrow> string) \<Rightarrow> json \<Rightarrow> contract_spec list \<Rightarrow> string + contract_spec list" where
  "parse_okx_contract float_text raw rows =
     (if optional_text float_text raw ''ctType'' \<noteq> Some ''linear'' \<or> optional_text float_text raw ''settleCcy'' \<noteq> Some ''USDT'' then Inr rows
      else bind_res (required_text float_text raw ''instId'' ''OKX contract'') (\<lambda>instrument.
        let base_asset = takeWhile (\<lambda>c. c \<noteq> CHR ''-'') instrument
        in if base_asset = [] then Inl (''OKX contract has invalid instId: '' @ instrument)
           else bind_res (required_positive_numeric float_text raw ''ctVal'' instrument) (\<lambda>contract_value.
             bind_res (case optional_text float_text raw ''ctMult'' of
                 Some _ \<Rightarrow> required_positive_numeric float_text raw ''ctMult'' instrument
               | None \<Rightarrow> Inr ''1'') (\<lambda>contract_factor.
             bind_res (normalize_symbol (trim_end_matches ''-SWAP'' instrument)) (\<lambda>symbol.
               Inr (rows @ [\<lparr>cs_exchange = ''okx'', cs_instrument = instrument, cs_symbol = symbol,
                 cs_base_asset = to_ascii_uppercase base_asset, cs_quote_asset = ''USDT'',
                 cs_contract_value = contract_value, cs_contract_factor = contract_factor,
                 cs_status = optional_text float_text raw ''state'', cs_raw = raw\<rparr>]))))))"

definition parse_okx_contracts :: "(f64 \<Rightarrow> string) \<Rightarrow> json \<Rightarrow> string + contract_spec list" where
  "parse_okx_contracts float_text v =
     bind_res (required_text float_text v ''code'' ''OKX response'') (\<lambda>code.
       if code \<noteq> ''0''
       then Inl (''OKX contract API error '' @ code @ '': '' @ (case optional_text float_text v ''msg'' of Some m \<Rightarrow> m | None \<Rightarrow> ''unknown error''))
       else bind_res (ok_or ''OKX contracts response is missing data array''
           (case json_get ''data'' v of None \<Rightarrow> None | Some d \<Rightarrow> as_array d)) (\<lambda>contracts.
         fold_res (parse_okx_contract float_text) contracts []))"


section \<open>Which multiplier is in force\<close>

text \<open>What loading has built after some rows: the snapshots of a symbol are its rows in order of time, one per time.\<close>

definition book_ok :: "multiplier_row list \<Rightarrow> (string \<rightharpoonup> multiplier_snapshot list) \<Rightarrow> bool" where
  "book_ok rows m \<longleftrightarrow> (\<forall>key.
     case m key of
       None \<Rightarrow> \<forall>r \<in> set rows. mr_symbol r \<noteq> key
     | Some ss \<Rightarrow> ss \<noteq> [] \<and> sorted_wrt (<) (map ms_effective_at_ms ss) \<and>
         ms_effective_at_ms ` set ss = mr_effective_at_ms ` {r \<in> set rows. mr_symbol r = key} \<and>
         (\<forall>s \<in> set ss. is_finite (ms_multiplier s) \<and> 0 < ms_multiplier s \<and>
           (\<exists>r \<in> set rows. mr_symbol r = key \<and> mr_effective_at_ms r = ms_effective_at_ms s \<and>
              mr_contract_multiplier r = ms_multiplier s)))"

lemma book_ok_old:
  assumes "book_ok rows m" "key \<noteq> mr_symbol r"
  shows "case m key of
       None \<Rightarrow> \<forall>r' \<in> set (rows @ [r]). mr_symbol r' \<noteq> key
     | Some ss \<Rightarrow> ss \<noteq> [] \<and> sorted_wrt (<) (map ms_effective_at_ms ss) \<and>
         ms_effective_at_ms ` set ss = mr_effective_at_ms ` {r' \<in> set (rows @ [r]). mr_symbol r' = key} \<and>
         (\<forall>s \<in> set ss. is_finite (ms_multiplier s) \<and> 0 < ms_multiplier s \<and>
           (\<exists>r' \<in> set (rows @ [r]). mr_symbol r' = key \<and> mr_effective_at_ms r' = ms_effective_at_ms s \<and>
              mr_contract_multiplier r' = ms_multiplier s))"
proof -
  have "{r' \<in> set (rows @ [r]). mr_symbol r' = key} = {r' \<in> set rows. mr_symbol r' = key}" using assms(2) by auto
  then show ?thesis using assms(1) [unfolded book_ok_def, rule_format, of key] assms(2) by (auto split: option.splits)
qed

lemma book_ok_add:
  assumes ok: "book_ok rows m" and add: "add_multiplier_row r m = Inr m'"
    and up: "to_ascii_uppercase (mr_symbol r) = mr_symbol r"
    and le: "\<forall>q \<in> set rows. mr_symbol q = mr_symbol r \<longrightarrow> mr_effective_at_ms q \<le> mr_effective_at_ms r"
  shows "book_ok (rows @ [r]) m'"
proof -
  let ?k = "mr_symbol r" and ?t = "mr_effective_at_ms r"
  define ss where "ss = (case m ?k of None \<Rightarrow> [] | Some s \<Rightarrow> s)"
  have fine: "is_finite (mr_contract_multiplier r)" "0 < mr_contract_multiplier r"
    using add by (auto simp: add_multiplier_row_def finite_not_le split: if_splits)
  have sorted: "sorted_wrt (<) (map ms_effective_at_ms ss)"
    and effs: "ms_effective_at_ms ` set ss = mr_effective_at_ms ` {q \<in> set rows. mr_symbol q = ?k}"
    and from_rows: "\<forall>s \<in> set ss. is_finite (ms_multiplier s) \<and> 0 < ms_multiplier s \<and>
      (\<exists>q \<in> set rows. mr_symbol q = ?k \<and> mr_effective_at_ms q = ms_effective_at_ms s \<and> mr_contract_multiplier q = ms_multiplier s)"
    using ok [unfolded book_ok_def, rule_format, of ?k] by (auto simp: ss_def split: option.splits)
  have effs': "mr_effective_at_ms ` {q \<in> set (rows @ [r]). mr_symbol q = ?k} = insert ?t (ms_effective_at_ms ` set ss)"
    using effs by auto
  have below: "\<forall>s \<in> set ss. ms_effective_at_ms s \<le> ?t"
    using from_rows le by fastforce
  show ?thesis
  proof (cases "ss \<noteq> [] \<and> ms_effective_at_ms (last ss) = ?t")
    case True
    then have m': "m' = m(?k \<mapsto> ss)"
      using add fine by (auto simp: add_multiplier_row_def up ss_def [symmetric] Let_def finite_not_le split: if_splits)
    have "?t \<in> ms_effective_at_ms ` set ss" using True by (metis image_eqI last_in_set)
    then have "ms_effective_at_ms ` set ss = mr_effective_at_ms ` {q \<in> set (rows @ [r]). mr_symbol q = ?k}"
      using effs' by (simp add: insert_absorb)
    moreover have "\<forall>s \<in> set ss. is_finite (ms_multiplier s) \<and> 0 < ms_multiplier s \<and>
      (\<exists>q \<in> set (rows @ [r]). mr_symbol q = ?k \<and> mr_effective_at_ms q = ms_effective_at_ms s \<and> mr_contract_multiplier q = ms_multiplier s)"
      using from_rows by fastforce
    ultimately show ?thesis unfolding book_ok_def m'
      using book_ok_old [OF ok] sorted True by (auto simp del: set_append)
  next
    case False
    let ?new = "\<lparr>ms_effective_at_ms = ?t, ms_multiplier = mr_contract_multiplier r\<rparr>"
    have m': "m' = m(?k \<mapsto> ss @ [?new])"
      using add fine False by (auto simp: add_multiplier_row_def up ss_def [symmetric] Let_def finite_not_le split: if_splits)
    have "\<forall>s \<in> set ss. ms_effective_at_ms s < ?t"
    proof
      fix s assume s: "s \<in> set ss"
      then have "ss \<noteq> []" by auto
      then have l: "ms_effective_at_ms (last ss) < ?t" using False below by (metis last_in_set order_le_neq_trans)
      have "ms_effective_at_ms s \<le> ms_effective_at_ms (last ss)"
        using s sorted \<open>ss \<noteq> []\<close> by (cases ss rule: rev_cases) (auto simp: sorted_wrt_append)
      then show "ms_effective_at_ms s < ?t" using l by simp
    qed
    then have "sorted_wrt (<) (map ms_effective_at_ms (ss @ [?new]))" using sorted by (simp add: sorted_wrt_append)
    moreover have "\<forall>s \<in> set (ss @ [?new]). is_finite (ms_multiplier s) \<and> 0 < ms_multiplier s \<and>
      (\<exists>q \<in> set (rows @ [r]). mr_symbol q = ?k \<and> mr_effective_at_ms q = ms_effective_at_ms s \<and> mr_contract_multiplier q = ms_multiplier s)"
      using from_rows fine by auto
    moreover have "ms_effective_at_ms ` set (ss @ [?new]) = mr_effective_at_ms ` {q \<in> set (rows @ [r]). mr_symbol q = ?k}"
      unfolding effs' by simp
    ultimately show ?thesis unfolding book_ok_def m' using book_ok_old [OF ok] by (auto simp del: set_append sorted_wrt_append)
  qed
qed

lemma book_ok_rows:
  assumes "fold_res add_multiplier_row rows (\<lambda>_. None) = Inr m"
    and "\<forall>r \<in> set rows. to_ascii_uppercase (mr_symbol r) = mr_symbol r"
    and "sorted (map (\<lambda>r. (mr_symbol r, mr_effective_at_ms r)) rows)"
  shows "book_ok rows m"
  using assms
proof (induction rows arbitrary: m rule: rev_induct)
  case Nil
  then have "m = (\<lambda>_. None)" by auto
  then show ?case by (simp add: book_ok_def)
next
  case (snoc r rows)
  obtain m1 where m1: "fold_res add_multiplier_row rows (\<lambda>_. None) = Inr m1" "add_multiplier_row r m1 = Inr m"
    using snoc.prems(1) by (auto simp: fold_res_append bind_res_Inr)
  have "book_ok rows m1" using snoc m1 by (simp add: sorted_append)
  moreover have "\<forall>q \<in> set rows. mr_symbol q = mr_symbol r \<longrightarrow> mr_effective_at_ms q \<le> mr_effective_at_ms r"
    using snoc.prems(3) by (fastforce simp: sorted_wrt_append less_eq_prod_def)
  ultimately show ?case using book_ok_add m1(2) snoc.prems(2) by simp
qed

lemma takeWhile_sorted_iff:
  "sorted_wrt (<) (map f xs) \<Longrightarrow> x \<in> set xs \<Longrightarrow> (f x :: int) \<le> t \<Longrightarrow> x \<in> set (takeWhile (\<lambda>s. f s \<le> t) xs)"
  by (induction xs) auto

lemma snapshot_at:
  assumes "ss \<noteq> []" "sorted_wrt (<) (map ms_effective_at_ms ss)"
    and "index = partition_point (\<lambda>s. ms_effective_at_ms s \<le> t) ss" "position = (if index = 0 then 0 else index - 1)"
  shows "position < length ss \<and>
    (if \<exists>s \<in> set ss. ms_effective_at_ms s \<le> t
     then ms_effective_at_ms (ss ! position) \<le> t \<and>
       (\<forall>s \<in> set ss. ms_effective_at_ms s \<le> t \<longrightarrow> ms_effective_at_ms s \<le> ms_effective_at_ms (ss ! position))
     else \<forall>s \<in> set ss. ms_effective_at_ms (ss ! position) \<le> ms_effective_at_ms s)"
proof -
  let ?e = ms_effective_at_ms and ?tw = "takeWhile (\<lambda>s. ms_effective_at_ms s \<le> t) ss"
  have len: "length ?tw \<le> length ss" by (rule length_takeWhile_le)
  show ?thesis
  proof (cases "?tw = []")
    case True
    then have p: "position = 0" using assms(3,4) by (simp add: partition_point_def)
    have "\<not> (\<exists>s \<in> set ss. ?e s \<le> t)" using takeWhile_sorted_iff [OF assms(2)] True by fastforce
    moreover have "\<forall>s \<in> set ss. ?e (ss ! 0) \<le> ?e s" using assms(1,2) by (cases ss) auto
    ultimately show ?thesis using assms(1) p by simp
  next
    case False
    then have p: "position = length ?tw - 1" using assms(3,4) by (simp add: partition_point_def)
    have lt: "length ?tw - 1 < length ?tw" using False by (cases ?tw) auto
    have at: "ss ! position = last ?tw" using False p takeWhile_nth [OF lt] by (simp add: last_conv_nth)
    have "last ?tw \<in> set ?tw" using False by simp
    then have l: "last ?tw \<in> set ss" "?e (last ?tw) \<le> t" using set_takeWhileD by (metis (lifting))+
    have srt: "sorted_wrt (<) (map ?e ?tw)"
      using assms(2) by (metis map_append sorted_wrt_append takeWhile_dropWhile_id)
    have "\<forall>s \<in> set ?tw. ?e s \<le> ?e (last ?tw)"
      using srt False by (cases ?tw rule: rev_cases) (auto simp: sorted_wrt_append)
    then have "\<forall>s \<in> set ss. ?e s \<le> t \<longrightarrow> ?e s \<le> ?e (last ?tw)" using takeWhile_sorted_iff [OF assms(2)] by blast
    then show ?thesis using l at lt len p by auto
  qed
qed

text \<open>The multiplier \<open>m\<close> is that of a row in force at \<open>t\<close>: the latest not after \<open>t\<close>, the earliest when all are after it.\<close>

definition in_force :: "table_row set \<Rightarrow> int \<Rightarrow> f64 \<Rightarrow> bool" where
  "in_force rows t m \<longleftrightarrow> is_finite m \<and> 0 < m \<and>
     (\<exists>r \<in> rows. tr_multiplier r = m \<and>
       (if \<exists>q \<in> rows. tr_effective_at_ms q \<le> t
        then tr_effective_at_ms r \<le> t \<and> (\<forall>q \<in> rows. tr_effective_at_ms q \<le> t \<longrightarrow> tr_effective_at_ms q \<le> tr_effective_at_ms r)
        else \<forall>q \<in> rows. tr_effective_at_ms r \<le> tr_effective_at_ms q))"

definition symbol_rows :: "table_row list \<Rightarrow> string \<Rightarrow> string \<Rightarrow> table_row set" where
  "symbol_rows table exchange symbol =
     {r \<in> set table. tr_exchange r = exchange \<and> tr_market r = usdt_futures_market \<and> tr_symbol r = to_ascii_uppercase symbol}"

text \<open>C28: A loaded book answers for a trade with the multiplier of the row of its symbol that was in force: the latest
  effective at or before the trade, or the earliest when the trade precedes them all; the answer is finite and positive,
  and it is refused exactly when the table has no row for the symbol.\<close>

theorem multiplier_at_in_force:
  assumes "load_multipliers table exchange = Inr book"
    and "\<forall>r \<in> set table. to_ascii_uppercase (tr_symbol r) = tr_symbol r"
  shows "case multiplier_at book symbol trade_ts of
     Inl e \<Rightarrow> symbol_rows table exchange symbol = {}
   | Inr m \<Rightarrow> in_force (symbol_rows table exchange symbol) trade_ts m"
proof -
  let ?k = "to_ascii_uppercase symbol" and ?q = "multiplier_query table exchange" and ?R = "symbol_rows table exchange symbol"
  obtain m where m: "fold_res add_multiplier_row ?q (\<lambda>_. None) = Inr m" "mb_by_symbol book = m"
    using assms(1) by (auto simp: load_multipliers_def book_from_rows_def bind_res_Inr split: if_splits)
  have set_q: "set ?q = (\<lambda>r. \<lparr>mr_symbol = tr_symbol r, mr_contract_multiplier = tr_multiplier r, mr_effective_at_ms = tr_effective_at_ms r\<rparr>) `
      {r \<in> set table. tr_exchange r = exchange \<and> tr_market r = usdt_futures_market}" by (simp add: multiplier_query_def)
  have ok: "book_ok ?q m"
    using m(1) by (rule book_ok_rows) (use assms(2) set_q in \<open>auto simp: multiplier_query_def\<close>)
  show ?thesis
  proof (cases "m ?k")
    case None
    then have "\<forall>r \<in> set ?q. mr_symbol r \<noteq> ?k" using ok [unfolded book_ok_def, rule_format, of ?k] by simp
    then have "?R = {}" unfolding set_q symbol_rows_def by auto
    then show ?thesis using None m(2) by (simp add: multiplier_at_def Let_def)
  next
    case (Some ss)
    have ss: "ss \<noteq> []" "sorted_wrt (<) (map ms_effective_at_ms ss)"
      and effs: "ms_effective_at_ms ` set ss = mr_effective_at_ms ` {r \<in> set ?q. mr_symbol r = ?k}"
      and rows: "\<forall>s \<in> set ss. is_finite (ms_multiplier s) \<and> 0 < ms_multiplier s \<and>
         (\<exists>r \<in> set ?q. mr_symbol r = ?k \<and> mr_effective_at_ms r = ms_effective_at_ms s \<and> mr_contract_multiplier r = ms_multiplier s)"
      using ok [unfolded book_ok_def, rule_format, of ?k] Some by auto
    define index where "index = partition_point (\<lambda>s. ms_effective_at_ms s \<le> trade_ts) ss"
    define position where "position = (if index = 0 then 0 else index - 1)"
    have at: "position < length ss \<and>
      (if \<exists>s \<in> set ss. ms_effective_at_ms s \<le> trade_ts
       then ms_effective_at_ms (ss ! position) \<le> trade_ts \<and>
         (\<forall>s \<in> set ss. ms_effective_at_ms s \<le> trade_ts \<longrightarrow> ms_effective_at_ms s \<le> ms_effective_at_ms (ss ! position))
       else \<forall>s \<in> set ss. ms_effective_at_ms (ss ! position) \<le> ms_effective_at_ms s)"
      by (rule snapshot_at [OF ss index_def position_def])
    let ?s = "ss ! position"
    have effs': "tr_effective_at_ms ` ?R = ms_effective_at_ms ` set ss"
      unfolding effs set_q symbol_rows_def by force
    have "?s \<in> set ss" using at by simp
    with rows have fine: "is_finite (ms_multiplier ?s)" "0 < ms_multiplier ?s"
      and ex: "\<exists>r \<in> set ?q. mr_symbol r = ?k \<and> mr_effective_at_ms r = ms_effective_at_ms ?s \<and> mr_contract_multiplier r = ms_multiplier ?s"
      by blast+
    from ex obtain r where r: "r \<in> ?R" "tr_effective_at_ms r = ms_effective_at_ms ?s" "tr_multiplier r = ms_multiplier ?s"
      unfolding set_q symbol_rows_def by auto
    have all: "(\<forall>q \<in> ?R. P (tr_effective_at_ms q)) \<longleftrightarrow> (\<forall>s \<in> set ss. P (ms_effective_at_ms s))" for P
      using effs' by (metis (mono_tags, lifting) image_iff)
    have exi: "(\<exists>q \<in> ?R. P (tr_effective_at_ms q)) \<longleftrightarrow> (\<exists>s \<in> set ss. P (ms_effective_at_ms s))" for P
      using all [of "\<lambda>x. \<not> P x"] by blast
    have "in_force ?R trade_ts (ms_multiplier ?s)"
      unfolding in_force_def using fine r(1,3) at [folded exi [of "\<lambda>x. x \<le> trade_ts"]]
      by (intro conjI bexI [OF _ r(1)]) (auto simp: r(2) all [of "\<lambda>x. x \<le> trade_ts \<longrightarrow> x \<le> ms_effective_at_ms ?s"] all [of "\<lambda>x. ms_effective_at_ms ?s \<le> x"])
    moreover have "multiplier_at book symbol trade_ts = Inr (ms_multiplier ?s)"
      using at Some m(2) by (simp only: multiplier_at_def Let_def option.case index_def [symmetric] position_def [symmetric] if_True)
    ultimately show ?thesis by simp
  qed
qed

definition sample_multipliers :: "table_row list" where
  "sample_multipliers =
     [\<lparr>tr_exchange = ''gate'', tr_market = ''usdt_futures'', tr_symbol = ''BTCUSDT'', tr_multiplier = Fin 3, tr_effective_at_ms = 200\<rparr>,
      \<lparr>tr_exchange = ''gate'', tr_market = ''usdt_futures'', tr_symbol = ''BTCUSDT'', tr_multiplier = Fin 2, tr_effective_at_ms = 100\<rparr>]"

lemma multiplier_at_in_force_witness:
  "case load_multipliers sample_multipliers ''gate'' of Inl e \<Rightarrow> False
    | Inr book \<Rightarrow> multiplier_at book ''btcusdt'' 150 = Inr (Fin 2) \<and>
        in_force (symbol_rows sample_multipliers ''gate'' ''btcusdt'') 150 (Fin 2)"
proof -
  have "case load_multipliers sample_multipliers ''gate'' of Inl e \<Rightarrow> False | Inr book \<Rightarrow> multiplier_at book ''btcusdt'' 150 = Inr (Fin 2)"
    by code_simp
  then obtain book where b: "load_multipliers sample_multipliers ''gate'' = Inr book" "multiplier_at book ''btcusdt'' 150 = Inr (Fin 2)"
    by (auto split: sum.splits)
  have "\<forall>r \<in> set sample_multipliers. to_ascii_uppercase (tr_symbol r) = tr_symbol r" by code_simp
  then show ?thesis using multiplier_at_in_force [OF b(1), of "''btcusdt''" 150] b by simp
qed

end
