(* ===== verification/PnlInputs.thy ===== *)
theory PnlInputs
  imports PnlReport MarkPrices ContractMultipliers
begin

text \<open>
  \<open>src/src/pnl.rs\<close>, the loaders: rows of the strategy's tables become the trades, funding and interest events that
  \<open>calculate\<close> replays.  The rows a query returns (ordered by time) are arguments; each loader's checks and conversions
  are modelled row by row, with the contract multipliers and the mark price cache they consult.
\<close>

section \<open>Rows\<close>

record spot_swap_trade_row =
  st_market :: string
  st_symbol :: string
  st_side :: string
  st_price :: f64
  st_amount_u :: f64
  st_quantity :: f64
  st_fee :: f64
  st_fee_usdt :: "f64 option"
  st_commission_asset :: string
  st_ts :: int

record spot_swap_interest_row =
  si_currency :: string
  si_interest :: f64
  si_cost_usdt :: "f64 option"
  si_ts :: int

record binance_intra_trade_row =
  bt_market :: string
  bt_liquidity_role :: string
  bt_symbol :: string
  bt_side :: string
  bt_price :: f64
  bt_amount_u :: f64
  bt_quantity :: f64
  bt_fee :: f64
  bt_commission_asset :: string
  bt_ts :: int

record market_making_trade_row =
  mm_symbol :: string
  mm_side :: string
  mm_price :: f64
  mm_quantity :: f64
  mm_quote_quantity :: "f64 option"
  mm_fee_usdt :: "f64 option"
  mm_ts :: int

text \<open>The three row types of funding have the same fields.\<close>

record funding_row =
  fr_symbol :: string
  fr_amount_usdt :: f64
  fr_ts :: int

datatype input_error =
    InvalidIdentifier
  | UnsupportedSource pnl_source_kind string
  | UnsupportedSide string
  | UnsupportedMarket string
  | UnsupportedVenue string
  | InvalidAmountU f64
  | InvalidQuantity f64
  | MissingContractMultiplier string
  | MultiplierFailed multiplier_error

definition lift_multiplier :: "multiplier_error + 'a \<Rightarrow> input_error + 'a" where
  "lift_multiplier r = (case r of Inl e \<Rightarrow> Inl (MultiplierFailed e) | Inr x \<Rightarrow> Inr x)"

definition validate_identifier :: "string \<Rightarrow> input_error + unit" where
  "validate_identifier value =
     (if value = [] \<or> \<not> list_all (\<lambda>c. c = CHR ''_'' \<or> is_ascii_alphanumeric c) value then Inl InvalidIdentifier else Inr ())"

definition funding_of_row :: "funding_row \<Rightarrow> funding_event" where
  "funding_of_row row = \<lparr>fe_symbol = to_ascii_uppercase (fr_symbol row), fe_amount_usdt = fr_amount_usdt row, fe_ts = fr_ts row\<rparr>"

definition parse_side :: "string \<Rightarrow> string \<Rightarrow> input_error + side" where
  "parse_side text raw =
     (if text = ''buy'' then Inr Buy else if text = ''sell'' then Inr Sell else Inl (UnsupportedSide raw))"

definition base_asset_of :: "string \<Rightarrow> string" where
  "base_asset_of symbol = (case strip_suffix ''USDT'' symbol of Some b \<Rightarrow> b | None \<Rightarrow> [])"

section \<open>Binance intra\<close>

definition binance_intra_fee_usdt :: "string \<Rightarrow> string \<Rightarrow> f64 \<Rightarrow> f64 option \<Rightarrow> f64 option" where
  "binance_intra_fee_usdt market liquidity_role amount_u observed_fee_usdt =
     (if eq_ignore_ascii_case market ''spot'' \<and> eq_ignore_ascii_case liquidity_role ''maker''
      then Some (- amount_u * binance_intra_spot_maker_rebate_rate) else observed_fee_usdt)"

definition binance_fee_cost_usdt :: "f64 \<Rightarrow> string \<Rightarrow> f64 \<Rightarrow> string \<Rightarrow> mark_price_cache \<Rightarrow> f64 option" where
  "binance_fee_cost_usdt fee commission_asset0 trade_price symbol cache =
     (if \<not> is_finite fee then None
      else let commission_asset = to_ascii_uppercase commission_asset0 in
        if commission_asset \<in> set stablecoins then Some fee
        else let base_asset = base_asset_of symbol in
          if base_asset \<noteq> [] \<and> commission_asset = base_asset
          then (if is_finite trade_price \<and> 0 < trade_price then Some (fee * trade_price) else None)
          else map_option (\<lambda>price. fee * price) (mark_price_of BinanceMark (commission_asset @ ''USDT'') cache))"

definition binance_intra_leg :: "string \<Rightarrow> input_error + position_leg" where
  "binance_intra_leg market =
     (if market = ''spot'' then Inr Spot
      else if market \<in> {''swap'', ''usdm_futures''} then Inr FuturesLeg
      else Inl (UnsupportedMarket market))"

definition binance_intra_trade :: "mark_price_cache \<Rightarrow> binance_intra_trade_row \<Rightarrow> input_error + normalized_trade" where
  "binance_intra_trade cache row =
     bind_res (parse_side (bt_side row) (bt_side row)) (\<lambda>sd.
       let symbol = to_ascii_uppercase (bt_symbol row); quantity = \<bar>bt_quantity row\<bar> in
       if \<not> is_finite (bt_amount_u row) \<or> bt_amount_u row \<le> 0 then Inl (InvalidAmountU (bt_amount_u row))
       else if \<not> is_finite quantity \<or> quantity \<le> 0 then Inl (InvalidQuantity (bt_quantity row))
       else
         let observed_fee_usdt = binance_fee_cost_usdt (bt_fee row) (bt_commission_asset row) (bt_price row) symbol cache;
             fee_usdt = binance_intra_fee_usdt (bt_market row) (bt_liquidity_role row) (bt_amount_u row) observed_fee_usdt
         in bind_res (binance_intra_leg (bt_market row)) (\<lambda>leg.
              Inr \<lparr>nt_symbol = symbol, nt_side = sd, nt_leg = leg, nt_price = bt_price row, nt_amount_u = bt_amount_u row,
                nt_quantity = quantity, nt_fee_usdt = fee_usdt, nt_ts = bt_ts row\<rparr>))"

definition load_binance_intra_inputs :: "binance_intra_trade_row list \<Rightarrow> funding_row list \<Rightarrow> mark_price_cache \<Rightarrow> input_error + pnl_inputs" where
  "load_binance_intra_inputs trade_rows funding_rows cache =
     bind_res (map_res (binance_intra_trade cache) trade_rows) (\<lambda>trades.
       Inr \<lparr>in_trades = trades, in_funding = map funding_of_row funding_rows, in_interest = [], in_initial_positions = []\<rparr>)"

section \<open>Market making\<close>

definition market_making_amount_u :: "string \<Rightarrow> f64 \<Rightarrow> f64 \<Rightarrow> f64 option \<Rightarrow> f64 option \<Rightarrow> input_error + f64" where
  "market_making_amount_u exchange price quantity quote_quantity contract_multiplier =
     bind_res
       (if exchange \<in> {''gate'', ''okx''}
        then (case contract_multiplier of None \<Rightarrow> Inl (MissingContractMultiplier exchange)
              | Some multiplier \<Rightarrow> Inr (price * \<bar>quantity\<bar> * multiplier))
        else if exchange \<in> {''binance'', ''bybit''}
        then Inr (case quote_quantity of Some amount \<Rightarrow> if \<not> feq amount 0 then amount else price * quantity
              | None \<Rightarrow> price * quantity)
        else Inl (UnsupportedVenue exchange))
       (\<lambda>amount_u. if \<not> is_finite amount_u \<or> amount_u \<le> 0 then Inl (InvalidAmountU amount_u) else Inr amount_u)"

definition market_making_quantity :: "string \<Rightarrow> f64 \<Rightarrow> f64 option \<Rightarrow> input_error + f64" where
  "market_making_quantity exchange quantity0 contract_multiplier =
     bind_res
       (if exchange \<in> {''gate'', ''okx''}
        then (case contract_multiplier of None \<Rightarrow> Inl (MissingContractMultiplier exchange)
              | Some multiplier \<Rightarrow> Inr (\<bar>quantity0\<bar> * multiplier))
        else if exchange \<in> {''binance'', ''bybit''} then Inr \<bar>quantity0\<bar>
        else Inl (UnsupportedVenue exchange))
       (\<lambda>quantity. if \<not> is_finite quantity \<or> quantity \<le> 0 then Inl (InvalidQuantity quantity) else Inr quantity)"

definition market_making_trade :: "string \<Rightarrow> multiplier_book option \<Rightarrow> market_making_trade_row \<Rightarrow> input_error + normalized_trade" where
  "market_making_trade exchange book row =
     bind_res (parse_side (to_ascii_lowercase (mm_side row)) (mm_side row)) (\<lambda>sd.
       let symbol = to_ascii_uppercase (mm_symbol row) in
       bind_res (case book of None \<Rightarrow> Inr None
           | Some b \<Rightarrow> bind_res (lift_multiplier (multiplier_at b symbol (mm_ts row))) (\<lambda>m. Inr (Some m))) (\<lambda>multiplier.
       bind_res (market_making_amount_u exchange (mm_price row) (mm_quantity row) (mm_quote_quantity row) multiplier) (\<lambda>amount_u.
       bind_res (market_making_quantity exchange (mm_quantity row) multiplier) (\<lambda>quantity.
         Inr \<lparr>nt_symbol = symbol, nt_side = sd, nt_leg = FuturesLeg, nt_price = mm_price row, nt_amount_u = amount_u,
           nt_quantity = quantity, nt_fee_usdt = mm_fee_usdt row, nt_ts = mm_ts row\<rparr>))))"

definition load_market_making_inputs :: "market_making_trade_row list \<Rightarrow> funding_row list \<Rightarrow> table_row list \<Rightarrow> string \<Rightarrow> input_error + pnl_inputs" where
  "load_market_making_inputs trade_rows funding_rows multipliers exchange =
     bind_res (if exchange \<in> {''gate'', ''okx''} \<and> trade_rows \<noteq> []
         then bind_res (lift_multiplier (load_multipliers multipliers exchange)) (\<lambda>b. Inr (Some b)) else Inr None) (\<lambda>book.
     bind_res (map_res (market_making_trade exchange book) trade_rows) (\<lambda>trades.
       Inr \<lparr>in_trades = trades, in_funding = map funding_of_row funding_rows, in_interest = [], in_initial_positions = []\<rparr>))"

section \<open>Spot and swap\<close>

definition spot_swap_position_quantity :: "string \<Rightarrow> position_leg \<Rightarrow> side \<Rightarrow> f64 \<Rightarrow> f64 \<Rightarrow> string \<Rightarrow> string \<Rightarrow> f64" where
  "spot_swap_position_quantity exchange leg sd raw_quantity fee commission_asset base_asset =
     (if exchange \<in> {''gate'', ''bitget'', ''bybit''} \<and> leg = Spot \<and> base_asset \<noteq> [] \<and> commission_asset = base_asset
      then (case sd of Buy \<Rightarrow> raw_quantity + \<bar>fee\<bar> | Sell \<Rightarrow> raw_quantity - \<bar>fee\<bar>)
      else raw_quantity)"

definition nearest_trade_price :: "(int \<times> f64) list \<Rightarrow> int \<Rightarrow> f64 option" where
  "nearest_trade_price prices ts =
     (let next_index = partition_point (\<lambda>(price_ts, _). price_ts < ts) prices;
          previous = (if next_index = 0 then None else Some (next_index - 1));
          following = (if next_index < length prices then Some (prices ! next_index) else None)
      in case (previous, following) of
           (Some p, Some (next_ts, next_price)) \<Rightarrow>
             (let (previous_ts, previous_price) = prices ! p
              in if saturating_sub_i64 ts previous_ts \<le> saturating_sub_i64 next_ts ts then Some previous_price else Some next_price)
         | (Some p, None) \<Rightarrow> Some (snd (prices ! p))
         | (None, Some (_, price)) \<Rightarrow> Some price
         | (None, None) \<Rightarrow> None)"

definition interest_cost_usdt :: "string \<Rightarrow> f64 \<Rightarrow> f64" where
  "interest_cost_usdt exchange amount_usdt =
     (if exchange = ''binance'' then fmax amount_usdt 0 else fmax (- amount_usdt) 0)"

type_synonym price_history = "string \<rightharpoonup> (int \<times> f64) list"

definition push_price :: "string \<Rightarrow> int \<times> f64 \<Rightarrow> price_history \<Rightarrow> price_history" where
  "push_price symbol entry history = history(symbol \<mapsto> (case history symbol of None \<Rightarrow> [] | Some ps \<Rightarrow> ps) @ [entry])"

definition spot_swap_fee_usdt :: "string \<Rightarrow> mark_price_cache \<Rightarrow> string \<Rightarrow> spot_swap_trade_row \<Rightarrow> f64 option" where
  "spot_swap_fee_usdt exchange cache symbol row =
     (let commission_asset = to_ascii_uppercase (st_commission_asset row); base_asset = base_asset_of symbol
      in case st_fee_usdt row of
           Some f \<Rightarrow> Some f
         | None \<Rightarrow>
             if commission_asset \<in> set stablecoins then Some (st_fee row)
             else if base_asset \<noteq> [] \<and> commission_asset = base_asset then Some (st_fee row * st_price row)
             else if exchange = ''binance'' then binance_fee_cost_usdt (st_fee row) commission_asset (st_price row) symbol cache
             else None)"

definition spot_swap_leg :: "string \<Rightarrow> input_error + position_leg" where
  "spot_swap_leg market =
     (if market \<in> {''spot'', ''margin''} then Inr Spot
      else if market \<in> {''swap'', ''usdm_futures'', ''usdt_futures''} then Inr FuturesLeg
      else Inl (UnsupportedMarket market))"

text \<open>The loop over the trades carries the trades so far and the price histories of spot and of all markets.\<close>

definition spot_swap_trade :: "string \<Rightarrow> mark_price_cache \<Rightarrow> spot_swap_trade_row \<Rightarrow>
    normalized_trade list \<times> price_history \<times> price_history \<Rightarrow> input_error + normalized_trade list \<times> price_history \<times> price_history" where
  "spot_swap_trade exchange cache row = (\<lambda>(trades, spot_prices, all_prices).
     bind_res (parse_side (st_side row) (st_side row)) (\<lambda>sd.
       let symbol = to_ascii_uppercase (st_symbol row);
           all_prices = push_price symbol (st_ts row, st_price row) all_prices;
           spot_prices = (if st_market row = ''spot'' then push_price symbol (st_ts row, st_price row) spot_prices else spot_prices)
       in bind_res (spot_swap_leg (st_market row)) (\<lambda>leg.
         let quantity = spot_swap_position_quantity exchange leg sd \<bar>st_quantity row\<bar> (st_fee row)
               (to_ascii_uppercase (st_commission_asset row)) (base_asset_of symbol)
         in if \<not> is_finite quantity \<or> quantity \<le> 0 then Inl (InvalidQuantity quantity)
            else Inr (trades @ [\<lparr>nt_symbol = symbol, nt_side = sd, nt_leg = leg, nt_price = st_price row, nt_amount_u = st_amount_u row,
                nt_quantity = quantity, nt_fee_usdt = spot_swap_fee_usdt exchange cache symbol row, nt_ts = st_ts row\<rparr>],
              spot_prices, all_prices))))"

definition interest_symbol :: "string \<Rightarrow> string" where
  "interest_symbol currency = (if currency \<in> set stablecoins then currency else currency @ ''USDT'')"

definition or_else :: "'a option \<Rightarrow> 'a option \<Rightarrow> 'a option" where
  "or_else a b = (case a of Some _ \<Rightarrow> a | None \<Rightarrow> b)"

definition history_price :: "price_history \<Rightarrow> string \<Rightarrow> int \<Rightarrow> f64 option" where
  "history_price history symbol ts = (case history symbol of None \<Rightarrow> None | Some prices \<Rightarrow> nearest_trade_price prices ts)"

definition interest_conversion_price :: "string \<Rightarrow> mark_price_cache \<Rightarrow> price_history \<Rightarrow> price_history \<Rightarrow> string \<Rightarrow> int \<Rightarrow> f64 option" where
  "interest_conversion_price exchange cache spot_prices all_prices currency ts =
     (let symbol = interest_symbol currency in
      if currency \<in> set stablecoins then Some 1
      else if exchange = ''binance'' then mark_price_of BinanceMark symbol cache
      else let nearest_price = or_else (history_price spot_prices symbol ts) (history_price all_prices symbol ts)
        in if exchange = ''bybit'' then or_else nearest_price (mark_price_of BybitMark symbol cache) else nearest_price)"

definition interest_of_row :: "string \<Rightarrow> mark_price_cache \<Rightarrow> price_history \<Rightarrow> price_history \<Rightarrow> spot_swap_interest_row \<Rightarrow> interest_event" where
  "interest_of_row exchange cache spot_prices all_prices row =
     (let currency = to_ascii_uppercase (si_currency row);
          conversion_price = interest_conversion_price exchange cache spot_prices all_prices currency (si_ts row);
          cost_usdt = map_option (interest_cost_usdt exchange)
            (or_else (si_cost_usdt row) (map_option (\<lambda>price. si_interest row * price) conversion_price))
      in \<lparr>ie_symbol = interest_symbol currency, ie_cost_usdt = cost_usdt, ie_conversion_price = conversion_price,
          ie_spot_quantity_delta = (if exchange = ''bybit'' \<and> currency \<notin> set stablecoins then si_interest row else 0),
          ie_ts = si_ts row\<rparr>)"

definition load_spot_swap_inputs :: "spot_swap_trade_row list \<Rightarrow> funding_row list \<Rightarrow> spot_swap_interest_row list \<Rightarrow> string \<Rightarrow>
    mark_price_cache \<Rightarrow> input_error + pnl_inputs" where
  "load_spot_swap_inputs trade_rows funding_rows interest_rows exchange cache =
     (if exchange \<notin> {''binance'', ''bybit'', ''gate'', ''bitget''} then Inl (UnsupportedVenue exchange)
      else bind_res (fold_res (spot_swap_trade exchange cache) trade_rows ([], \<lambda>_. None, \<lambda>_. None))
        (\<lambda>(trades, spot_prices, all_prices).
          Inr \<lparr>in_trades = trades, in_funding = map funding_of_row funding_rows,
            in_interest = map (interest_of_row exchange cache spot_prices all_prices) interest_rows, in_initial_positions = []\<rparr>))"

section \<open>The loader\<close>

text \<open>What the queries on the strategy's schema return; \<open>db_multipliers\<close> is the shared table of contract multipliers.\<close>

record database =
  db_binance_intra_trades :: "binance_intra_trade_row list"
  db_market_making_trades :: "market_making_trade_row list"
  db_spot_swap_trades :: "spot_swap_trade_row list"
  db_funding :: "funding_row list"
  db_interest :: "spot_swap_interest_row list"
  db_multipliers :: "table_row list"

definition load_inputs :: "database \<Rightarrow> pnl_source_kind \<Rightarrow> string \<Rightarrow> string \<Rightarrow> mark_price_cache \<Rightarrow> input_error + pnl_inputs" where
  "load_inputs db source schema exchange cache =
     bind_res (validate_identifier schema) (\<lambda>_.
       if source = Intra \<and> exchange = ''binance''
       then load_binance_intra_inputs (db_binance_intra_trades db) (db_funding db) cache
       else if source = FundingRate \<and> exchange = ''binance'' \<or>
         source \<in> {Intra, FundingRate} \<and> exchange \<in> {''bybit'', ''gate'', ''bitget''}
       then load_spot_swap_inputs (db_spot_swap_trades db) (db_funding db) (db_interest db) exchange cache
       else if source \<in> {MarketMaking, FuturesMarketMaking, Cta}
       then load_market_making_inputs (db_market_making_trades db) (db_funding db) (db_multipliers db) exchange
       else Inl (UnsupportedSource source exchange))"


section \<open>The nearest price\<close>

lemma dropWhile_sorted_ge: "sorted (map fst xs) \<Longrightarrow> x \<in> set (dropWhile (\<lambda>(t, _). t < (ts :: int)) xs) \<Longrightarrow> ts \<le> fst x"
  by (induction xs) (auto split: if_splits)

lemma sat_sub_small: "0 \<le> a \<Longrightarrow> a \<le> i64_max \<Longrightarrow> 0 \<le> b \<Longrightarrow> b \<le> i64_max \<Longrightarrow> saturating_sub_i64 a b = a - b"
  by (simp add: saturating_sub_i64_def clamp_i64_def i64_min_def i64_max_def)

text \<open>From prices in order of time, \<open>nearest_trade_price\<close> takes one whose time is closest, the earlier when two times are
  equally close, and finds none only when there is none.\<close>

theorem nearest_trade_price_closest:
  assumes "sorted (map fst prices)" "\<forall>(t, _) \<in> set prices. 0 \<le> t \<and> t \<le> i64_max" "0 \<le> ts" "ts \<le> i64_max"
  shows "case nearest_trade_price prices ts of
     None \<Rightarrow> prices = []
   | Some price \<Rightarrow> \<exists>t. (t, price) \<in> set prices \<and>
       (\<forall>(t', _) \<in> set prices. \<bar>ts - t\<bar> \<le> \<bar>ts - t'\<bar> \<and> (\<bar>ts - t\<bar> = \<bar>ts - t'\<bar> \<longrightarrow> t \<le> t'))"
proof -
  define A where "A = takeWhile (\<lambda>(t, _). t < ts) prices"
  define B where "B = dropWhile (\<lambda>(t, _). t < ts) prices"
  have AB: "prices = A @ B" by (simp add: A_def B_def)
  have a: "\<forall>x \<in> set A. fst x < ts" by (auto simp: A_def dest: set_takeWhileD)
  have b: "\<forall>x \<in> set B. ts \<le> fst x" using dropWhile_sorted_ge [OF assms(1)] by (auto simp: B_def)
  have pp: "partition_point (\<lambda>(t, _). t < ts) prices = length A" by (simp add: partition_point_def A_def)
  have sA: "\<forall>x \<in> set A. fst x \<le> fst (last A)" if "A \<noteq> []"
    using that assms(1) unfolding AB by (cases A rule: rev_cases) (auto simp: sorted_append)
  have sB: "\<forall>x \<in> set B. fst (hd B) \<le> fst x" if "B \<noteq> []"
    using that assms(1) unfolding AB by (cases B) (auto simp: sorted_append)
  have lastA: "last A \<in> set prices" "(A @ B) ! (length A - 1) = last A" if "A \<noteq> []"
    using that by (auto simp: AB nth_append last_conv_nth)
  have hdB: "hd B \<in> set prices" "(A @ B) ! length A = hd B" if "B \<noteq> []"
    using that by (auto simp: AB nth_append hd_conv_nth)
  have closest: "\<forall>(t', _) \<in> set prices. \<bar>ts - t\<bar> \<le> \<bar>ts - t'\<bar> \<and> (\<bar>ts - t\<bar> = \<bar>ts - t'\<bar> \<longrightarrow> t \<le> t')"
    if "\<And>x. x \<in> set prices \<Longrightarrow> \<bar>ts - t\<bar> \<le> \<bar>ts - fst x\<bar> \<and> (\<bar>ts - t\<bar> = \<bar>ts - fst x\<bar> \<longrightarrow> t \<le> fst x)" for t
    using that by (auto split: prod.splits)
  show ?thesis
  proof (cases "A = []"; cases "B = []")
    assume "A = []" "B = []"
    then show ?thesis using pp by (simp add: nearest_trade_price_def AB)
  next
    assume e: "A = []" "B \<noteq> []"
    then have n: "nearest_trade_price prices ts = Some (snd (hd B))"
      using pp hdB by (simp add: nearest_trade_price_def AB split_beta)
    have "(fst (hd B), snd (hd B)) \<in> set prices" using hdB e by simp
    moreover have "\<forall>(t', _) \<in> set prices. \<bar>ts - fst (hd B)\<bar> \<le> \<bar>ts - t'\<bar> \<and> (\<bar>ts - fst (hd B)\<bar> = \<bar>ts - t'\<bar> \<longrightarrow> fst (hd B) \<le> t')"
      by (rule closest) (use sB [OF e(2)] b e in \<open>auto simp: AB\<close>)
    ultimately show ?thesis unfolding n option.case by (intro exI conjI)
  next
    assume e: "A \<noteq> []" "B = []"
    then have n: "nearest_trade_price prices ts = Some (snd (last A))"
      using pp lastA by (simp add: nearest_trade_price_def AB split_beta)
    have "(fst (last A), snd (last A)) \<in> set prices" using lastA e by simp
    moreover have "\<forall>(t', _) \<in> set prices. \<bar>ts - fst (last A)\<bar> \<le> \<bar>ts - t'\<bar> \<and> (\<bar>ts - fst (last A)\<bar> = \<bar>ts - t'\<bar> \<longrightarrow> fst (last A) \<le> t')"
    proof (rule closest)
      fix x assume "x \<in> set prices"
      then have "fst x \<le> fst (last A)" "fst (last A) < ts" using sA [OF e(1)] a e by (auto simp: AB)
      then show "\<bar>ts - fst (last A)\<bar> \<le> \<bar>ts - fst x\<bar> \<and> (\<bar>ts - fst (last A)\<bar> = \<bar>ts - fst x\<bar> \<longrightarrow> fst (last A) \<le> fst x)" by auto
    qed
    ultimately show ?thesis unfolding n option.case by (intro exI conjI)
  next
    assume e: "A \<noteq> []" "B \<noteq> []"
    let ?p = "last A" and ?q = "hd B"
    have range: "0 \<le> fst ?p \<and> fst ?p \<le> i64_max" "0 \<le> fst ?q \<and> fst ?q \<le> i64_max"
      using bspec [OF assms(2) lastA(1) [OF e(1)]] bspec [OF assms(2) hdB(1) [OF e(2)]] by (simp_all add: split_beta)
    have n: "nearest_trade_price prices ts = Some (snd (if ts - fst ?p \<le> fst ?q - ts then ?p else ?q))"
      using pp lastA(2) [OF e(1)] hdB(2) [OF e(2)] e range assms(3,4)
      by (simp add: nearest_trade_price_def AB split_beta sat_sub_small)
    let ?r = "if ts - fst ?p \<le> fst ?q - ts then ?p else ?q"
    have "(fst ?r, snd ?r) \<in> set prices" using lastA hdB e by simp
    moreover have "fst ?p < ts" "ts \<le> fst ?q" using a b e by simp_all
    then have "\<forall>(t', _) \<in> set prices. \<bar>ts - fst ?r\<bar> \<le> \<bar>ts - t'\<bar> \<and> (\<bar>ts - fst ?r\<bar> = \<bar>ts - t'\<bar> \<longrightarrow> fst ?r \<le> t')"
      using sA [OF e(1)] sB [OF e(2)] a b by (intro closest) (auto simp: AB)
    ultimately show ?thesis unfolding n option.case by (intro exI conjI)
  qed
qed

lemma nearest_trade_price_closest_witness:
  "nearest_trade_price [(10, Fin 1), (20, Fin 2)] 15 = Some (Fin 1) \<and>
   (\<exists>t. (t, Fin 1) \<in> set [(10, Fin 1), (20, Fin 2)] \<and> \<bar>15 - t\<bar> \<le> (5 :: int))"
proof -
  let ?ps = "[(10, Fin 1), (20, Fin 2)] :: (int \<times> f64) list"
  have n: "nearest_trade_price ?ps 15 = Some (Fin 1)" by code_simp
  have "\<exists>t. (t, Fin 1) \<in> set ?ps \<and> (\<forall>(t', _) \<in> set ?ps. \<bar>15 - t\<bar> \<le> \<bar>15 - t'\<bar> \<and> (\<bar>15 - t\<bar> = \<bar>15 - t'\<bar> \<longrightarrow> t \<le> t'))"
    using nearest_trade_price_closest [of ?ps 15] n by (simp add: i64_max_def)
  then show ?thesis using n by fastforce
qed

lemma nearest_price_in: "nearest_trade_price prices ts = Some p \<Longrightarrow> \<exists>t. (t, p) \<in> set prices"
proof -
  assume a: "nearest_trade_price prices ts = Some p"
  let ?n = "partition_point (\<lambda>(t, _). t < ts) prices"
  have le: "?n \<le> length prices" by (simp add: partition_point_def length_takeWhile_le)
  have "\<exists>i < length prices. snd (prices ! i) = p"
  proof (cases "?n = 0")
    case True
    then show ?thesis using a by (auto simp: nearest_trade_price_def split_beta split: if_splits)
  next
    case False
    then have "?n - 1 < length prices" using le by simp
    then show ?thesis using a False by (auto simp: nearest_trade_price_def Let_def split_beta split: if_splits)
  qed
  then show ?thesis by (metis nth_mem surjective_pairing)
qed

section \<open>Loaded inputs\<close>

text \<open>A base-asset fee always counts as a rebate: a buy that pays one leaves a larger position, although a positive fee is
  a cost.\<close>

lemma buy_fee_enlarges_position:
  assumes "exchange \<in> {''gate'', ''bitget'', ''bybit''}" "base \<noteq> []"
  shows "spot_swap_position_quantity exchange Spot Buy (Fin 10) (Fin (1 / 4)) base base = Fin (41 / 4)"
    and "spot_swap_position_quantity exchange Spot Buy (Fin 10) (- Fin (1 / 4)) base base = Fin (41 / 4)"
proof -
  have "rnd (41 / 4) = Fin (41 / 4)" by code_simp
  then show "spot_swap_position_quantity exchange Spot Buy (Fin 10) (Fin (1 / 4)) base base = Fin (41 / 4)"
    and "spot_swap_position_quantity exchange Spot Buy (Fin 10) (- Fin (1 / 4)) base base = Fin (41 / 4)"
    using assms by (simp_all add: spot_swap_position_quantity_def)
qed

text \<open>Costs of interest are never negative: a credit counts as no cost.\<close>

lemma interest_cost_nonneg: "0 \<le> interest_cost_usdt exchange amount"
  by (cases amount) (auto simp: interest_cost_usdt_def fmax_def zero_f64_def)

text \<open>What the loaders check of a trade: its quantity is positive, and where the notional is checked so is that.\<close>

definition trade_ok :: "bool \<Rightarrow> normalized_trade \<Rightarrow> bool" where
  "trade_ok notional t \<longleftrightarrow> positive (nt_quantity t) \<and> (notional \<longrightarrow> positive (nt_amount_u t))"

lemma positiveI: "is_finite x \<Longrightarrow> \<not> x \<le> 0 \<Longrightarrow> positive x"
  by (simp add: positive_def finite_not_le)

lemma binance_intra_ok: "binance_intra_trade cache row = Inr t \<Longrightarrow> trade_ok True t \<and> nt_price t = bt_price row"
  by (auto simp: binance_intra_trade_def Let_def bind_res_Inr trade_ok_def intro: positiveI split: if_splits)

lemma market_making_amount_positive: "market_making_amount_u exchange price quantity quote multiplier = Inr a \<Longrightarrow> positive a"
  unfolding market_making_amount_u_def bind_res_Inr by (auto intro: positiveI split: if_splits)

lemma market_making_quantity_positive: "market_making_quantity exchange quantity multiplier = Inr q \<Longrightarrow> positive q"
  unfolding market_making_quantity_def bind_res_Inr by (auto intro: positiveI split: if_splits)

lemma market_making_ok: "market_making_trade exchange book row = Inr t \<Longrightarrow> trade_ok True t \<and> nt_price t = mm_price row"
  unfolding market_making_trade_def Let_def bind_res_Inr
  using market_making_amount_positive market_making_quantity_positive by (elim exE conjE) (fastforce simp: trade_ok_def)

definition prices_in :: "f64 set \<Rightarrow> price_history \<Rightarrow> bool" where
  "prices_in P history \<longleftrightarrow> (\<forall>symbol ps x. history symbol = Some ps \<longrightarrow> x \<in> set ps \<longrightarrow> snd x \<in> P)"

lemma push_price_in: "prices_in P h \<Longrightarrow> snd x \<in> P \<Longrightarrow> prices_in P (push_price symbol x h)"
  by (cases "h symbol") (auto simp: prices_in_def push_price_def)

definition spot_swap_ok :: "f64 set \<Rightarrow> normalized_trade list \<times> price_history \<times> price_history \<Rightarrow> bool" where
  "spot_swap_ok P = (\<lambda>(trades, spot_prices, all_prices).
     (\<forall>t \<in> set trades. trade_ok False t \<and> nt_price t \<in> P) \<and> prices_in P spot_prices \<and> prices_in P all_prices)"

lemma spot_swap_trade_ok:
  assumes "spot_swap_ok P s" "spot_swap_trade exchange cache row s = Inr s'" "st_price row \<in> P"
  shows "spot_swap_ok P s'"
proof -
  obtain ts sp al where s: "s = (ts, sp, al)" by (cases s)
  show ?thesis using assms push_price_in [of P _ "(st_ts row, st_price row)"]
    by (auto simp: s spot_swap_trade_def spot_swap_ok_def Let_def bind_res_Inr trade_ok_def positiveI split: if_splits)
qed

lemma history_price_in: "prices_in P h \<Longrightarrow> history_price h symbol ts = Some p \<Longrightarrow> p \<in> P"
  using nearest_price_in by (fastforce simp: history_price_def prices_in_def split: option.splits)

lemma cache_price_positive: "mark_price_of exchange symbol (run_updates calls) = Some p \<Longrightarrow> positive p"
proof -
  assume "mark_price_of exchange symbol (run_updates calls) = Some p"
  then obtain sym e where "run_updates calls exchange sym = Some e" "p = mp_price e"
    by (auto simp: mark_price_of_def split: option.splits)
  then show "positive p" using update_latest [of exchange sym calls] by (auto simp: latest_def usable_update_def positive_def)
qed

lemma conversion_price_positive:
  assumes "interest_conversion_price exchange (run_updates calls) sp al currency ts = Some p" "prices_in {p. positive p} sp" "prices_in {p. positive p} al"
  shows "positive p"
  using assms history_price_in [OF assms(2)] history_price_in [OF assms(3)] cache_price_positive
  by (auto simp: interest_conversion_price_def or_else_def Let_def positive_def one_f64_def zero_f64_def split: if_splits option.splits)

definition price_positive :: "normalized_trade \<Rightarrow> bool" where
  "price_positive t \<longleftrightarrow> positive (nt_price t)"

text \<open>Rows as the exchanges send them: prices are positive, interest is finite, and only interest in a stablecoin is
  stored with its value.\<close>

definition rows_ok :: "database \<Rightarrow> bool" where
  "rows_ok db \<longleftrightarrow> (\<forall>r \<in> set (db_binance_intra_trades db). positive (bt_price r)) \<and>
     (\<forall>r \<in> set (db_market_making_trades db). positive (mm_price r)) \<and>
     (\<forall>r \<in> set (db_spot_swap_trades db). positive (st_price r)) \<and>
     (\<forall>r \<in> set (db_interest db). is_finite (si_interest r) \<and>
        (si_cost_usdt r = None \<or> to_ascii_uppercase (si_currency r) \<in> set stablecoins))"

lemma interest_of_row_ok:
  assumes "prices_in {p. positive p} sp" "prices_in {p. positive p} al" "is_finite (si_interest r)"
    "si_cost_usdt r = None \<or> to_ascii_uppercase (si_currency r) \<in> set stablecoins"
  shows "interest_ok k (interest_of_row exchange (run_updates calls) sp al r)"
proof -
  let ?i = "interest_of_row exchange (run_updates calls) sp al r" and ?c = "to_ascii_uppercase (si_currency r)"
  show ?thesis
  proof (cases "exchange = ''bybit'' \<and> ?c \<notin> set stablecoins")
    case False
    then have "ie_spot_quantity_delta ?i = 0" by (auto simp: interest_of_row_def Let_def)
    then show ?thesis by (simp add: interest_ok_def feq_def zero_f64_def)
  next
    case True
    then have d: "ie_spot_quantity_delta ?i = si_interest r" by (simp add: interest_of_row_def Let_def)
    show ?thesis
    proof (cases "ie_conversion_price ?i")
      case None
      then have "ie_cost_usdt ?i = None" using True assms(4) by (simp add: interest_of_row_def Let_def or_else_def)
      then show ?thesis using None d assms(3) by (simp add: interest_ok_def)
    next
      case (Some p)
      then have "positive p" using conversion_price_positive [OF _ assms(1,2)]
        by (simp add: interest_of_row_def Let_def)
      then show ?thesis using Some d assms(3) by (simp add: interest_ok_def)
    qed
  qed
qed

lemma map_res_all: "map_res f xs = Inr ys \<Longrightarrow> (\<And>x y. x \<in> set xs \<Longrightarrow> f x = Inr y \<Longrightarrow> P y) \<Longrightarrow> y \<in> set ys \<Longrightarrow> P y"
  using map_res_set by fastforce

lemma spot_swap_inputs_ok:
  assumes "load_spot_swap_inputs trade_rows funding_rows interest_rows exchange (run_updates calls) = Inr inputs"
    and "\<forall>r \<in> set trade_rows. positive (st_price r)"
    and "\<forall>r \<in> set interest_rows. is_finite (si_interest r) \<and> (si_cost_usdt r = None \<or> to_ascii_uppercase (si_currency r) \<in> set stablecoins)"
  shows "in_initial_positions inputs = [] \<and> (\<forall>t \<in> set (in_trades inputs). trade_ok False t \<and> price_positive t) \<and>
    (\<forall>i \<in> set (in_interest inputs). interest_ok k i)"
proof -
  obtain ts sp al where f: "fold_res (spot_swap_trade exchange (run_updates calls)) trade_rows ([], \<lambda>_. None, \<lambda>_. None) = Inr (ts, sp, al)"
    and i: "inputs = \<lparr>in_trades = ts, in_funding = map funding_of_row funding_rows,
      in_interest = map (interest_of_row exchange (run_updates calls) sp al) interest_rows, in_initial_positions = []\<rparr>"
    using assms(1) by (auto simp: load_spot_swap_inputs_def bind_res_Inr split: if_splits)
  have st: "spot_swap_ok {p. positive p} ([], \<lambda>_. None, \<lambda>_. None)" by (simp add: spot_swap_ok_def prices_in_def)
  have "spot_swap_ok {p. positive p} (ts, sp, al)"
  proof (rule fold_res_inv [where I = "spot_swap_ok {p. positive p}", OF _ st f])
    fix x s s'
    assume "x \<in> set trade_rows" "spot_swap_ok {p. positive p} s" "spot_swap_trade exchange (run_updates calls) x s = Inr s'"
    then show "spot_swap_ok {p. positive p} s'" using spot_swap_trade_ok assms(2) by simp
  qed
  then show ?thesis using interest_of_row_ok assms(3) by (auto simp: i spot_swap_ok_def price_positive_def)
qed

definition loaded_ok :: "pnl_source_kind \<Rightarrow> pnl_inputs \<Rightarrow> bool" where
  "loaded_ok source inputs \<longleftrightarrow> in_initial_positions inputs = [] \<and>
     (\<forall>t \<in> set (in_trades inputs). trade_ok (source = MarketMaking) t \<and> price_positive t) \<and>
     (\<forall>i \<in> set (in_interest inputs). interest_ok source i)"

lemma trade_ok_weaken: "trade_ok True t \<Longrightarrow> trade_ok b t"
  by (simp add: trade_ok_def)

lemma binance_intra_inputs_ok:
  assumes "load_binance_intra_inputs rows funding cache = Inr inputs" "\<forall>r \<in> set rows. positive (bt_price r)"
  shows "loaded_ok source inputs"
proof -
  obtain ts where ts: "map_res (binance_intra_trade cache) rows = Inr ts"
    and i: "inputs = \<lparr>in_trades = ts, in_funding = map funding_of_row funding, in_interest = [], in_initial_positions = []\<rparr>"
    using assms(1) by (auto simp: load_binance_intra_inputs_def bind_res_Inr)
  have "trade_ok (source = MarketMaking) t \<and> price_positive t" if t: "t \<in> set ts" for t
  proof -
    obtain r where "r \<in> set rows" "binance_intra_trade cache r = Inr t" using map_res_set [OF ts t] by blast
    then show ?thesis using binance_intra_ok [of cache r t] trade_ok_weaken assms(2) by (simp add: price_positive_def)
  qed
  then show ?thesis by (simp add: i loaded_ok_def)
qed

lemma market_making_inputs_ok:
  assumes "load_market_making_inputs rows funding multipliers exchange = Inr inputs" "\<forall>r \<in> set rows. positive (mm_price r)"
  shows "loaded_ok source inputs"
proof -
  obtain b ts where ts: "map_res (market_making_trade exchange b) rows = Inr ts"
    and i: "inputs = \<lparr>in_trades = ts, in_funding = map funding_of_row funding, in_interest = [], in_initial_positions = []\<rparr>"
    using assms(1) by (auto simp: load_market_making_inputs_def bind_res_Inr)
  have "trade_ok (source = MarketMaking) t \<and> price_positive t" if t: "t \<in> set ts" for t
  proof -
    obtain r where "r \<in> set rows" "market_making_trade exchange b r = Inr t" using map_res_set [OF ts t] by blast
    then show ?thesis using market_making_ok [of exchange b r t] trade_ok_weaken assms(2) by (simp add: price_positive_def)
  qed
  then show ?thesis by (simp add: i loaded_ok_def)
qed

lemma load_inputs_ok:
  assumes "load_inputs db source schema exchange (run_updates calls) = Inr inputs" "rows_ok db"
  shows "loaded_ok source inputs"
proof -
  consider "load_binance_intra_inputs (db_binance_intra_trades db) (db_funding db) (run_updates calls) = Inr inputs"
    | "load_spot_swap_inputs (db_spot_swap_trades db) (db_funding db) (db_interest db) exchange (run_updates calls) = Inr inputs"
      "source \<noteq> MarketMaking"
    | "load_market_making_inputs (db_market_making_trades db) (db_funding db) (db_multipliers db) exchange = Inr inputs"
    using assms(1) unfolding load_inputs_def bind_res_Inr by (elim exE conjE) (simp split: if_splits, blast+)
  then show ?thesis
  proof cases
    case 1
    then show ?thesis using binance_intra_inputs_ok assms(2) by (simp add: rows_ok_def)
  next
    case 2
    then show ?thesis using spot_swap_inputs_ok [OF 2(1)] assms(2) by (simp add: rows_ok_def loaded_ok_def)
  next
    case 3
    then show ?thesis using market_making_inputs_ok assms(2) by (simp add: rows_ok_def)
  qed
qed

lemma loaded_inputs_ok:
  assumes "load_inputs db source schema exchange (run_updates calls) = Inr inputs" "rows_ok db"
    and "\<forall>t \<in> set (in_trades inputs). is_finite (or_default 0 (nt_fee_usdt t))"
  shows "inputs_ok source inputs"
proof -
  have L: "loaded_ok source inputs" by (rule load_inputs_ok [OF assms(1,2)])
  have "event_ok source e" if e: "e \<in> set (sorted_events inputs)" for e
  proof (cases e)
    case (Trade t)
    then have "t \<in> set (in_trades inputs)" using e by (auto simp: sorted_events_def)
    then show ?thesis using L assms(3) Trade
      by (auto simp: loaded_ok_def valid_fill_def fill_of_trade_def trade_ok_def price_positive_def positive_def)
  next
    case (Interest i)
    then have "i \<in> set (in_interest inputs)" using e by (auto simp: sorted_events_def)
    then show ?thesis using L Interest by (simp add: loaded_ok_def)
  qed simp
  then show ?thesis using L by (simp add: inputs_ok_def loaded_ok_def)
qed

text \<open>The loaders and the replay fit together: inputs they load from rows with positive prices, converted with the
  contract multipliers and whatever mark prices have arrived, are never rejected by an engine, as long as every fee is a
  number; so the calculation fails exactly when a check of the request does.\<close>

theorem loaded_inputs_calculate:
  assumes "load_inputs db (rq_source rq) schema exchange (run_updates calls) = Inr inputs" "rows_ok db"
    and "\<forall>t \<in> set (in_trades inputs). is_finite (or_default 0 (nt_fee_usdt t))"
  shows "case calculate_checks inputs rq of
      Some message \<Rightarrow> calculate h inputs rq = Inl (Bail message)
    | None \<Rightarrow> \<exists>rs. calculate h inputs rq = Inr rs"
  using replay_succeeds [OF loaded_inputs_ok [OF assms], of h] by (auto simp: calculate_def split: option.splits)

definition sample_db :: database where
  "sample_db = \<lparr>db_binance_intra_trades = [], db_market_making_trades = [\<lparr>mm_symbol = ''a'', mm_side = ''Buy'', mm_price = Fin 2,
       mm_quantity = Fin 3, mm_quote_quantity = Some (Fin 6), mm_fee_usdt = Some (Fin 1), mm_ts = 40\<rparr>],
     db_spot_swap_trades = [], db_funding = [], db_interest = [], db_multipliers = []\<rparr>"

definition sample_loaded :: pnl_inputs where
  "sample_loaded = \<lparr>in_trades = [\<lparr>nt_symbol = ''A'', nt_side = Buy, nt_leg = FuturesLeg, nt_price = Fin 2, nt_amount_u = Fin 6,
     nt_quantity = Fin 3, nt_fee_usdt = Some (Fin 1), nt_ts = 40\<rparr>], in_funding = [], in_interest = [], in_initial_positions = []\<rparr>"

lemma sample_load: "load_inputs sample_db MarketMaking ''mm'' ''bybit'' (run_updates []) = Inr sample_loaded"
proof -
  have "to_ascii_lowercase ''Buy'' = ''buy''" "to_ascii_uppercase ''a'' = ''A''" "validate_identifier ''mm'' = Inr ()" by code_simp+
  then show ?thesis
    by (simp add: load_inputs_def load_market_making_inputs_def market_making_trade_def market_making_amount_u_def
        market_making_quantity_def parse_side_def sample_db_def sample_loaded_def feq_def zero_f64_def)
qed

lemma loaded_inputs_calculate_witness:
  "\<exists>rs. calculate id sample_loaded (sample_request\<lparr>rq_source := MarketMaking, rq_exchange := ''bybit''\<rparr>) = Inr rs"
proof -
  let ?rq = "sample_request\<lparr>rq_source := MarketMaking, rq_exchange := ''bybit''\<rparr>"
  have s: "available_symbols sample_loaded = [''A'']" "select_symbols [''A''] (rq_selected_symbols ?rq) = [''A'']"
    by (simp_all add: available_symbols_def input_symbols_def sample_loaded_def select_symbols_def sample_request_def)
  then have c: "calculate_checks sample_loaded ?rq = None"
    by (simp add: calculate_checks_def) (simp add: sample_request_def day_ms_def)
  have "rows_ok sample_db" by (simp add: rows_ok_def sample_db_def positive_def zero_f64_def)
  moreover have "\<forall>t \<in> set (in_trades sample_loaded). is_finite (or_default 0 (nt_fee_usdt t))"
    by (simp add: sample_loaded_def or_default_def)
  ultimately show ?thesis
    using loaded_inputs_calculate [of sample_db ?rq "''mm''" "''bybit''" "[]" sample_loaded id] sample_load c by simp
qed

end
