(* ===== verification/JsonFields.thy ===== *)
theory JsonFields
  imports MarkPrices ContractMultipliers
begin

text \<open>
  \<open>src/src/bin/sync_history.rs\<close>, the readers of JSON fields and the functions on decimal text that the normalisers of
  exchange rows share.  Amounts stay decimal text from the exchange to the database; a double is only used to check them.
  An anyhow error is a short message.
\<close>

section \<open>Text and numbers\<close>

definition find_some :: "('a \<Rightarrow> 'b option) \<Rightarrow> 'a list \<Rightarrow> 'b option" where
  "find_some f xs = (case List.map_filter f xs of [] \<Rightarrow> None | y # _ \<Rightarrow> Some y)"

definition field_text :: "(f64 \<Rightarrow> string) \<Rightarrow> json \<Rightarrow> string \<Rightarrow> string option" where
  "field_text float_text v field =
     (case json_get field v of
        None \<Rightarrow> None
      | Some (JString text) \<Rightarrow> (let text = str_trim text in if text = [] then None else Some text)
      | Some (JNumber number) \<Rightarrow> value_text float_text (JNumber number)
      | Some _ \<Rightarrow> None)"

definition opt_text :: "(f64 \<Rightarrow> string) \<Rightarrow> json \<Rightarrow> string list \<Rightarrow> string option" where
  "opt_text float_text v names = find_some (field_text float_text v) names"

definition text_field :: "(f64 \<Rightarrow> string) \<Rightarrow> json \<Rightarrow> string list \<Rightarrow> string + string" where
  "text_field float_text v names =
     ok_or (''row is missing field '' @ concat names) (find_some (\<lambda>field. opt_text float_text v [field]) names)"

definition parse_number :: "string \<Rightarrow> string + f64" where
  "parse_number text =
     (case parse_f64 text of
        None \<Rightarrow> Inl ''parse decimal''
      | Some number \<Rightarrow> if is_finite number then Inr number else Inl ''decimal is not finite'')"

definition number_field :: "(f64 \<Rightarrow> string) \<Rightarrow> json \<Rightarrow> string list \<Rightarrow> string + string" where
  "number_field float_text v names =
     bind_res (text_field float_text v names) (\<lambda>text. bind_res (parse_number text) (\<lambda>_. Inr text))"

definition ok_option :: "'e + 'a \<Rightarrow> 'a option" where
  "ok_option r = (case r of Inl _ \<Rightarrow> None | Inr x \<Rightarrow> Some x)"

definition opt_number :: "(f64 \<Rightarrow> string) \<Rightarrow> json \<Rightarrow> string list \<Rightarrow> string option" where
  "opt_number float_text v names =
     (case opt_text float_text v names of
        None \<Rightarrow> None
      | Some text \<Rightarrow> map_option (\<lambda>_. text) (ok_option (parse_number text)))"

definition nonzero_text :: "(f64 \<Rightarrow> string) \<Rightarrow> json \<Rightarrow> string \<Rightarrow> string option" where
  "nonzero_text float_text v field =
     (case opt_number float_text v [field] of
        None \<Rightarrow> None
      | Some text \<Rightarrow> (case parse_number text of Inr x \<Rightarrow> if \<not> feq x 0 then Some text else None | Inl _ \<Rightarrow> None))"

definition nonzero_number :: "(f64 \<Rightarrow> string) \<Rightarrow> json \<Rightarrow> string list \<Rightarrow> string + string" where
  "nonzero_number float_text v names =
     (case find_some (nonzero_text float_text v) names of
        Some text \<Rightarrow> Inr text
      | None \<Rightarrow> number_field float_text v names)"

definition bool_field :: "json \<Rightarrow> string list \<Rightarrow> bool option" where
  "bool_field v names =
     find_some (\<lambda>field. case json_get field v of
        None \<Rightarrow> None
      | Some item \<Rightarrow> (case as_bool item of
          Some b \<Rightarrow> Some b
        | None \<Rightarrow> (case as_str item of
            None \<Rightarrow> None
          | Some text \<Rightarrow> if text \<in> {''true'', ''1''} then Some True
              else if text \<in> {''false'', ''0''} then Some False else None))) names"

text \<open>\<open>f64::round\<close> (halves away from zero) and the saturating cast to \<open>i64\<close>, on a positive value.\<close>

definition round_positive :: "rat \<Rightarrow> int" where
  "round_positive q = clamp_i64 \<lfloor>q + 1 / 2\<rfloor>"

definition to_milliseconds :: "f64 \<Rightarrow> f64" where
  "to_milliseconds number = (if number < Fin 100000000000 then number * Fin 1000 else number)"

definition timestamp_field :: "(f64 \<Rightarrow> string) \<Rightarrow> json \<Rightarrow> string list \<Rightarrow> string + int" where
  "timestamp_field float_text v names =
     bind_res (text_field float_text v names) (\<lambda>text.
     bind_res (ok_or ''invalid timestamp'' (parse_f64 text)) (\<lambda>number.
       if \<not> is_finite number \<or> number \<le> 0 then Inl ''invalid timestamp''
       else let milliseconds = to_milliseconds number
         in if Fin (2 ^ 63) < milliseconds then Inl ''timestamp overflow''
            else Inr (case milliseconds of Fin q \<Rightarrow> round_positive q | _ \<Rightarrow> 0)))"

section \<open>Decimal text\<close>

definition strip_sign :: "string \<Rightarrow> string" where
  "strip_sign s = (case s of [] \<Rightarrow> [] | c # r \<Rightarrow> if c \<in> {CHR ''-'', CHR ''+''} then r else s)"

definition absolute_decimal :: "string \<Rightarrow> string + string" where
  "absolute_decimal text =
     bind_res (parse_number text) (\<lambda>number. if feq number 0 then Inr ''0'' else Inr (strip_sign (str_trim text)))"

definition signed_decimal :: "string \<Rightarrow> string + string" where
  "signed_decimal text =
     bind_res (parse_number text) (\<lambda>number. if feq number 0 then Inr ''0'' else Inr (strip_plus (str_trim text)))"

definition negate_decimal :: "string \<Rightarrow> string + string" where
  "negate_decimal text =
     bind_res (signed_decimal text) (\<lambda>text.
       if text = ''0'' then Inr text
       else Inr (case text of [] \<Rightarrow> ''-'' | c # r \<Rightarrow> if c = CHR ''-'' then r else CHR ''-'' # text))"

text \<open>\<open>format!("{value:.18}")\<close>: eighteen decimals, halves to even.\<close>

definition pad_zeros :: "nat \<Rightarrow> string \<Rightarrow> string" where
  "pad_zeros n s = replicate (n - length s) CHR ''0'' @ s"

definition fixed18 :: "f64 \<Rightarrow> string" where
  "fixed18 x =
     (case x of
        NaN \<Rightarrow> ''NaN''
      | Inf negative \<Rightarrow> if negative then ''-inf'' else ''inf''
      | Fin q \<Rightarrow> (let n = nat (round_half_even (\<bar>q\<bar> * 10 ^ 18))
          in (if q < 0 then ''-'' else []) @ nat_digits (n div 10 ^ 18) @ ''.'' @ pad_zeros 18 (nat_digits (n mod 10 ^ 18))))"

definition pop_zeros :: "string \<Rightarrow> string" where
  "pop_zeros text = (if CHR ''.'' \<in> set text then rev (dropWhile (\<lambda>c. c = CHR ''0'') (rev text)) else text)"

definition pop_point :: "string \<Rightarrow> string" where
  "pop_point text = (if text \<noteq> [] \<and> last text = CHR ''.'' then butlast text else text)"

definition decimal_string :: "f64 \<Rightarrow> string" where
  "decimal_string x = (let text = pop_point (pop_zeros (fixed18 x)) in if text = ''-0'' then ''0'' else text)"

section \<open>Symbols and other text\<close>

definition lower_side :: "string \<Rightarrow> string" where
  "lower_side s = to_ascii_lowercase (str_trim s)"

definition plain_symbol :: "string \<Rightarrow> string" where
  "plain_symbol s = to_ascii_uppercase (filter (\<lambda>c. c \<noteq> CHR ''-'' \<and> c \<noteq> CHR ''_'') (str_trim s))"

fun split_by :: "('a \<Rightarrow> bool) \<Rightarrow> 'a list \<Rightarrow> 'a list list" where
  "split_by p [] = [[]]"
| "split_by p (x # xs) =
     (if p x then [] # split_by p xs
      else (case split_by p xs of part # parts \<Rightarrow> (x # part) # parts | [] \<Rightarrow> [[x]]))"

definition ends_with :: "string \<Rightarrow> string \<Rightarrow> bool" where
  "ends_with suffix s \<longleftrightarrow> strip_suffix suffix s \<noteq> None"

definition contract_from_text :: "string option \<Rightarrow> string option" where
  "contract_from_text text =
     (case text of
        None \<Rightarrow> None
      | Some t \<Rightarrow> List.find (ends_with ''_USDT'') (split_by (\<lambda>c. \<not> is_ascii_alphanumeric c \<and> c \<noteq> CHR ''_'') t))"

definition valid_schema :: "string \<Rightarrow> bool" where
  "valid_schema s =
     (case s of
        [] \<Rightarrow> False
      | c # r \<Rightarrow> (97 \<le> (of_char c :: nat) \<and> (of_char c :: nat) \<le> 122) \<and>
          list_all (\<lambda>c. c = CHR ''_'' \<or> (97 \<le> (of_char c :: nat) \<and> (of_char c :: nat) \<le> 122) \<or> is_ascii_digit c) r)"

definition valid_identifier :: "string \<Rightarrow> bool" where
  "valid_identifier s \<longleftrightarrow> s \<noteq> [] \<and> list_all (\<lambda>c. c = CHR ''_'' \<or> is_ascii_alphanumeric c) s"


section \<open>Decimal text keeps its value\<close>

lemma lower_space: "is_ascii_space c \<Longrightarrow> is_ascii_space (ascii_lower c)"
  by (auto simp: is_ascii_space_def ascii_lower_def)

lemma digit_not_space: "is_ascii_digit c \<Longrightarrow> \<not> is_ascii_space c"
  by (auto simp: is_ascii_digit_def is_ascii_space_def)

lemma parse_exponent_no_space: "parse_exponent s = Some e \<Longrightarrow> c \<in> set s \<Longrightarrow> \<not> is_ascii_space c"
proof (cases s)
  case (Cons d r)
  assume p: "parse_exponent s = Some e" and c: "c \<in> set s"
  obtain negative ds where ds: "split_sign r = (negative, ds)" by (cases "split_sign r")
  then have d: "d \<in> {CHR ''e'', CHR ''E''}" "list_all is_ascii_digit ds" using p Cons
    by (auto simp: parse_exponent_def split: if_splits)
  have "set r \<subseteq> {CHR ''-'', CHR ''+''} \<union> set ds" using ds
    by (cases r) (auto simp: split_sign_def split: if_splits)
  then have "c \<in> {CHR ''e'', CHR ''E'', CHR ''-'', CHR ''+''} \<or> is_ascii_digit c" using c Cons d by (auto simp: list_all_iff)
  then show ?thesis using digit_not_space by (auto simp: is_ascii_space_def)
qed simp

lemma parse_decimal_no_space:
  assumes "parse_decimal s = Some x" "c \<in> set s"
  shows "\<not> is_ascii_space c"
proof -
  let ?w = "takeWhile is_ascii_digit s" and ?r = "dropWhile is_ascii_digit s"
  have s: "set s = set ?w \<union> set ?r" by (metis set_append takeWhile_dropWhile_id)
  have w: "\<forall>c \<in> set ?w. is_ascii_digit c" by (metis set_takeWhileD)
  show ?thesis
  proof (cases "c \<in> set ?w")
    case True
    then show ?thesis using w digit_not_space by blast
  next
    case False
    then have c: "c \<in> set ?r" using assms(2) s by blast
    then have "?r \<noteq> []" by (metis empty_iff empty_set)
    then obtain d r where Cons: "?r = d # r" by (metis list.exhaust)
    show ?thesis
    proof (cases "d = CHR ''.''")
      case True
        let ?f = "takeWhile is_ascii_digit r" and ?e = "dropWhile is_ascii_digit r"
        obtain e where "parse_exponent ?e = Some e" using assms(1) Cons True by (auto simp: parse_decimal_def Let_def split: if_splits)
        moreover have "set r = set ?f \<union> set ?e" by (metis set_append takeWhile_dropWhile_id)
        moreover have "\<forall>c \<in> set ?f. is_ascii_digit c" by (metis set_takeWhileD)
        ultimately show ?thesis using c Cons True parse_exponent_no_space digit_not_space by (auto simp: is_ascii_space_def)
    next
      case False
      then obtain e where "parse_exponent ?r = Some e" using assms(1) Cons by (auto simp: parse_decimal_def Let_def split: if_splits)
      then show ?thesis using c parse_exponent_no_space by blast
    qed
  qed
qed

lemma parse_f64_no_space:
  assumes "parse_f64 s = Some x" "c \<in> set s"
  shows "\<not> is_ascii_space c"
proof -
  obtain negative r where r: "split_sign s = (negative, r)" by (cases "split_sign s")
  have sub: "set s \<subseteq> {CHR ''-'', CHR ''+''} \<union> set r" using r by (cases s) (auto simp: split_sign_def split: if_splits)
  have "to_ascii_lowercase r \<in> {''inf'', ''infinity'', ''nan''} \<or> (\<exists>y. parse_decimal r = Some y)"
    using assms(1) r by (auto simp: parse_f64_def Let_def split: if_splits)
  then have "\<forall>c \<in> set r. \<not> is_ascii_space c"
  proof
    assume w: "to_ascii_lowercase r \<in> {''inf'', ''infinity'', ''nan''}"
    show ?thesis
    proof
      fix c assume "c \<in> set r"
      then have "ascii_lower c \<in> set (to_ascii_lowercase r)" by (simp add: to_ascii_lowercase_def)
      then have "ascii_lower c \<in> set ''infinitynan''" using w by auto
      then have "\<not> is_ascii_space (ascii_lower c)" by (auto simp: is_ascii_space_def)
      then show "\<not> is_ascii_space c" using lower_space by blast
    qed
  qed (use parse_decimal_no_space in blast)
  then show ?thesis using sub assms(2) by (auto simp: is_ascii_space_def)
qed

lemma trim_no_space: "\<forall>c \<in> set s. \<not> is_ascii_space c \<Longrightarrow> str_trim s = s"
proof -
  assume a: "\<forall>c \<in> set s. \<not> is_ascii_space c"
  then have "dropWhile is_ascii_space s = s" by (cases s) auto
  moreover have "dropWhile is_ascii_space (rev s) = rev s" using a by (metis dropWhile_eq_self_iff hd_in_set rev_is_Nil_conv set_rev)
  ultimately show ?thesis by (simp add: str_trim_def)
qed

lemma parse_f64_trim: "parse_f64 s = Some x \<Longrightarrow> str_trim s = s"
  using parse_f64_no_space by (intro trim_no_space) blast

definition magnitude :: "string \<Rightarrow> f64 option" where
  "magnitude r =
     (let word = to_ascii_lowercase r
      in if word \<in> {''inf'', ''infinity''} then Some (Inf False) else if word = ''nan'' then Some NaN else parse_decimal r)"

lemma parse_f64_magnitude: "parse_f64 s = (let (negative, r) = split_sign s in map_option (\<lambda>x. if negative then - x else x) (magnitude r))"
  by (simp add: parse_f64_def magnitude_def Let_def split_beta)

text \<open>A magnitude never begins with a sign.\<close>

lemma magnitude_no_sign: "magnitude (c # r) = Some x \<Longrightarrow> c \<noteq> CHR ''-'' \<and> c \<noteq> CHR ''+''"
proof -
  assume m: "magnitude (c # r) = Some x"
  { assume c: "c = CHR ''-'' \<or> c = CHR ''+''"
    then have w: "to_ascii_lowercase (c # r) \<notin> {''inf'', ''infinity'', ''nan''}" by (auto simp: to_ascii_lowercase_def ascii_lower_def)
    have "\<not> is_ascii_digit c" using c by (auto simp: is_ascii_digit_def)
    then have "parse_decimal (c # r) = None" using c by (auto simp: parse_decimal_def)
    then have False using m w by (simp add: magnitude_def Let_def) }
  then show ?thesis by blast
qed

lemma unsigned_parse: "magnitude r = Some x \<Longrightarrow> parse_f64 r = Some x"
  using magnitude_no_sign by (cases r) (auto simp: parse_f64_magnitude split_sign_def)

lemma parse_decimal_form: "parse_decimal r = Some x \<Longrightarrow> \<exists>n e. x = rnd (of_nat n * 10 powi e)"
  unfolding parse_decimal_def Let_def split_beta by (simp split: if_splits) blast+

lemma magnitude_nonneg: "magnitude r = Some (Fin q) \<Longrightarrow> 0 \<le> q"
proof -
  assume "magnitude r = Some (Fin q)"
  then have "parse_decimal r = Some (Fin q)" by (auto simp: magnitude_def Let_def split: if_splits)
  then obtain n e where "rnd (of_nat n * 10 powi e) = Fin q" using parse_decimal_form by metis
  moreover have "0 \<le> (of_nat n * 10 powi e :: rat)" by simp
  ultimately show ?thesis using rnd_val_nonneg by (simp add: rnd_Fin_iff)
qed

lemma decimal_text_spec:
  assumes "parse_number s = Inr x"
  shows "\<exists>t. absolute_decimal s = Inr t \<and> parse_number t = Inr \<bar>x\<bar>"
    and "\<exists>t. signed_decimal s = Inr t \<and> parse_number t = Inr x"
    and "\<exists>t. negate_decimal s = Inr t \<and> parse_number t = Inr (- x)"
proof -
  have p: "parse_f64 s = Some x" "is_finite x" using assms by (auto simp: parse_number_def split: option.splits if_splits)
  then obtain q where q: "x = Fin q" by (cases x) auto
  have trim: "str_trim s = s" using parse_f64_trim p(1) by blast
  obtain negative r where r: "split_sign s = (negative, r)" by (cases "split_sign s")
  then obtain y where y: "magnitude r = Some y" "x = (if negative then - y else y)"
    using p(1) by (auto simp: parse_f64_magnitude)
  then obtain u where u: "y = Fin u" using q by (cases y) (auto split: if_splits)
  have u0: "0 \<le> u" using magnitude_nonneg y(1) u by blast
  have nosign: "r \<noteq> []" "hd r \<noteq> CHR ''-''" "hd r \<noteq> CHR ''+''"
  proof -
    show "r \<noteq> []" using y(1) by (auto simp: magnitude_def parse_decimal_def to_ascii_lowercase_def)
    then show "hd r \<noteq> CHR ''-''" "hd r \<noteq> CHR ''+''" using magnitude_no_sign [of "hd r" "tl r"] y(1) by auto
  qed
  have zero: "parse_number ''0'' = Inr (Fin 0)" by code_simp
  have r': "parse_number r = Inr (Fin u)" using unsigned_parse y(1) u by (simp add: parse_number_def)
  have neg: "parse_number (CHR ''-'' # r) = Inr (Fin (- u))" using y(1) u
    by (simp add: parse_number_def parse_f64_magnitude split_sign_def)
  have shape: "negative \<and> s = CHR ''-'' # r \<or> \<not> negative \<and> (s = r \<or> s = CHR ''+'' # r)"
    using r by (cases s) (auto simp: split_sign_def split: if_splits)
  have strip: "strip_sign s = r" "strip_plus s = (if negative then CHR ''-'' # r else r)"
    using shape nosign by (cases r; auto simp: strip_sign_def strip_plus_def)+
  have fz: "feq x 0 \<longleftrightarrow> u = 0" using y(2) u by (auto simp: feq_def zero_f64_def)
  have abs: "\<bar>x\<bar> = Fin u" using y(2) u u0 by auto
  show "\<exists>t. absolute_decimal s = Inr t \<and> parse_number t = Inr \<bar>x\<bar>"
    using assms fz abs r' zero trim strip by (auto simp: absolute_decimal_def)
  have signed: "signed_decimal s = Inr (if u = 0 then ''0'' else if negative then CHR ''-'' # r else r)"
    using assms fz trim strip by (auto simp: signed_decimal_def)
  show "\<exists>t. signed_decimal s = Inr t \<and> parse_number t = Inr x"
    using signed r' neg zero y(2) u by auto
  have "r \<noteq> ''0''" if "u \<noteq> 0" using r' zero that by auto
  then have "negate_decimal s = Inr (if u = 0 then ''0'' else if negative then r else CHR ''-'' # r)"
    unfolding negate_decimal_def signed using nosign by (cases r) auto
  then show "\<exists>t. negate_decimal s = Inr t \<and> parse_number t = Inr (- x)"
    using r' neg zero y(2) u by auto
qed

text \<open>Taking the absolute value of decimal text, dropping a plus sign and negating it act on its value as the names say:
  the text that is stored still parses, to the absolute value, the same value and the negated value.\<close>

theorem decimal_text_value:
  assumes "parse_number s = Inr x"
  shows "case (absolute_decimal s, signed_decimal s, negate_decimal s) of
      (Inr a, Inr b, Inr c) \<Rightarrow> parse_number a = Inr \<bar>x\<bar> \<and> parse_number b = Inr x \<and> parse_number c = Inr (- x)
    | _ \<Rightarrow> False"
  using decimal_text_spec [OF assms] by auto

lemma decimal_text_value_witness:
  "absolute_decimal ''-2'' = Inr ''2'' \<and> negate_decimal ''-2'' = Inr ''2'' \<and> signed_decimal ''-2'' = Inr ''-2'' \<and>
   parse_number ''2'' = Inr \<bar>Fin (- 2)\<bar>"
proof -
  have "rnd 2 = Fin 2" using rnd_of_int [of 2] by simp
  then have p: "parse_number ''-2'' = Inr (Fin (- 2))"
    by (simp add: parse_number_def parse_f64_def split_sign_def to_ascii_lowercase_def ascii_lower_def parse_decimal_def is_ascii_digit_def
        digits_nat_def digit_val_def parse_exponent_def)
  have "str_trim ''-2'' = ''-2''" "feq (Fin (- 2)) 0 = False" by code_simp+
  then have t: "absolute_decimal ''-2'' = Inr ''2''" "negate_decimal ''-2'' = Inr ''2''" "signed_decimal ''-2'' = Inr ''-2''"
    using p by (simp_all add: absolute_decimal_def negate_decimal_def signed_decimal_def strip_sign_def strip_plus_def)
  show ?thesis using decimal_text_value [OF p] t by simp
qed

end
