(* ===== verification/TradeNormalizers.thy ===== *)
theory TradeNormalizers
  imports JsonFields
begin

text \<open>
  \<open>src/src/bin/sync_history.rs\<close>, the normalisers: one JSON row of an exchange's history becomes a trade, cash, liquidation
  or rebate row of the database, or an error.  Fees are signed costs and interest follows each table's own sign.
\<close>

section \<open>Rows\<close>

datatype dataset = AllData | Trades | FundingData | InterestData | Rebates | Liquidations

fun dataset_name :: "dataset \<Rightarrow> string" where
  "dataset_name AllData = ''all''" | "dataset_name Trades = ''trades''" | "dataset_name FundingData = ''funding''"
| "dataset_name InterestData = ''interest''" | "dataset_name Rebates = ''rebates''" | "dataset_name Liquidations = ''liquidations''"

datatype leg = SpotTrade | Derivative

record trade_row =
  ht_leg :: leg
  ht_market :: string
  ht_symbol :: string
  ht_trade_id :: string
  ht_order_id :: string
  ht_side :: string
  ht_role :: string
  ht_price :: string
  ht_quantity :: string
  ht_quote_quantity :: string
  ht_fee_amount :: string
  ht_fee_asset :: string
  ht_realized_pnl :: "string option"
  ht_event_time_ms :: int

record cash_row =
  cr_record_id :: string
  cr_symbol :: "string option"
  cr_asset :: string
  cr_amount :: string
  cr_event_time_ms :: int

record liquidation_row =
  lq_order_id :: string
  lq_symbol :: string
  lq_position_size_contracts :: string
  lq_contract_multiplier :: string
  lq_leverage :: "string option"
  lq_margin :: "string option"
  lq_entry_price :: "string option"
  lq_liquidation_price :: "string option"
  lq_mark_price :: "string option"
  lq_order_price :: "string option"
  lq_fill_price :: "string option"
  lq_remaining_size_contracts :: "string option"
  lq_event_time_ms :: int
  lq_raw :: json

record binance_liquidation_row =
  bl_order_id :: string
  bl_symbol :: string
  bl_status :: string
  bl_client_order_id :: "string option"
  bl_order_price :: "string option"
  bl_average_price :: "string option"
  bl_original_quantity :: string
  bl_executed_quantity :: string
  bl_cumulative_quote :: "string option"
  bl_time_in_force :: "string option"
  bl_order_type :: "string option"
  bl_reduce_only :: "bool option"
  bl_side :: string
  bl_position_side :: "string option"
  bl_original_type :: "string option"
  bl_event_time_ms :: int
  bl_update_time_ms :: "int option"
  bl_raw :: json

record rebate_row =
  rb_record_id :: string
  rb_transaction_id :: "string option"
  rb_asset :: string
  rb_amount :: string
  rb_event_time_ms :: int
  rb_description :: string
  rb_direction :: "int option"
  rb_raw :: json

section \<open>Trades\<close>

definition or_text :: "string option \<Rightarrow> string \<Rightarrow> string" where
  "or_text x d = (case x of Some t \<Rightarrow> t | None \<Rightarrow> d)"

definition or_zero :: "string + string \<Rightarrow> string" where
  "or_zero r = (case r of Inr t \<Rightarrow> t | Inl _ \<Rightarrow> ''0'')"

definition check_optional :: "string option \<Rightarrow> string + unit" where
  "check_optional x = (case x of None \<Rightarrow> Inr () | Some t \<Rightarrow> bind_res (parse_number t) (\<lambda>_. Inr ()))"

definition make_trade :: "leg \<Rightarrow> string \<Rightarrow> string \<Rightarrow> string \<Rightarrow> string \<Rightarrow> string \<Rightarrow> string \<Rightarrow> string \<Rightarrow> string \<Rightarrow> string option \<Rightarrow>
    string \<Rightarrow> string \<Rightarrow> string option \<Rightarrow> int \<Rightarrow> string + trade_row" where
  "make_trade lg market symbol trade_id order_id sd role price quantity quote_quantity0 fee_amount fee_asset realized_pnl event_time_ms =
     (if sd \<notin> {''buy'', ''sell''} then Inl ''invalid trade side''
      else bind_res (parse_number price) (\<lambda>price_value.
        bind_res (parse_number quantity) (\<lambda>signed_quantity.
        let quantity_value = \<bar>signed_quantity\<bar> in
        if price_value \<le> 0 \<or> quantity_value \<le> 0 \<or> event_time_ms \<le> 0 then Inl ''invalid trade values''
        else let quote_quantity = or_text quote_quantity0 (decimal_string (price_value * quantity_value)) in
          bind_res (parse_number quote_quantity) (\<lambda>_.
          bind_res (parse_number fee_amount) (\<lambda>_.
          bind_res (check_optional realized_pnl) (\<lambda>_.
          bind_res (absolute_decimal quantity) (\<lambda>quantity_text.
          bind_res (signed_decimal fee_amount) (\<lambda>fee_text.
            Inr \<lparr>ht_leg = lg, ht_market = market, ht_symbol = symbol, ht_trade_id = trade_id, ht_order_id = order_id,
              ht_side = sd, ht_role = role, ht_price = price, ht_quantity = quantity_text, ht_quote_quantity = quote_quantity,
              ht_fee_amount = fee_text, ht_fee_asset = to_ascii_uppercase fee_asset, ht_realized_pnl = realized_pnl,
              ht_event_time_ms = event_time_ms\<rparr>)))))))) "

definition normalize_binance_trade :: "(f64 \<Rightarrow> string) \<Rightarrow> leg \<Rightarrow> json \<Rightarrow> string + trade_row" where
  "normalize_binance_trade ft lg raw =
     bind_res (text_field ft raw [''symbol'']) (\<lambda>symbol.
     bind_res (text_field ft raw [''id'']) (\<lambda>trade_id.
     bind_res (if lg = SpotTrade then Inr (if bool_field raw [''isBuyer''] = Some True then ''buy'' else ''sell'')
         else bind_res (text_field ft raw [''side'']) (\<lambda>s. Inr (lower_side s))) (\<lambda>sd.
     bind_res (text_field ft raw [''orderId'']) (\<lambda>order_id.
     bind_res (number_field ft raw [''price'']) (\<lambda>price.
     bind_res (number_field ft raw [''qty'']) (\<lambda>quantity.
     bind_res (timestamp_field ft raw [''time'']) (\<lambda>time.
       make_trade lg (if lg = SpotTrade then ''spot'' else ''usdm_futures'') (plain_symbol symbol) trade_id order_id sd
         (if bool_field raw [''isMaker'', ''maker''] = Some True then ''maker'' else ''taker'') price quantity
         (opt_number ft raw [''quoteQty'']) (or_zero (number_field ft raw [''commission'']))
         (or_text (opt_text ft raw [''commissionAsset'']) ''USDT'') (opt_number ft raw [''realizedPnl'']) time)))))))"

definition normalize_bybit_trade :: "(f64 \<Rightarrow> string) \<Rightarrow> leg \<Rightarrow> json \<Rightarrow> string + trade_row" where
  "normalize_bybit_trade ft lg raw =
     bind_res (text_field ft raw [''symbol'']) (\<lambda>symbol.
     bind_res (text_field ft raw [''execId'']) (\<lambda>trade_id.
     bind_res (text_field ft raw [''orderId'']) (\<lambda>order_id.
     bind_res (text_field ft raw [''side'']) (\<lambda>s.
     bind_res (number_field ft raw [''execPrice'']) (\<lambda>price.
     bind_res (number_field ft raw [''execQty'']) (\<lambda>quantity.
     bind_res (timestamp_field ft raw [''execTime'']) (\<lambda>time.
       make_trade lg (if lg = SpotTrade then ''spot'' else ''swap'') (plain_symbol symbol) trade_id order_id (lower_side s)
         (if bool_field raw [''isMaker''] = Some True then ''maker'' else ''taker'') price quantity
         (opt_number ft raw [''execValue'']) (or_zero (number_field ft raw [''execFee'']))
         (or_text (opt_text ft raw [''feeCurrency'', ''feeCcy'']) ''USDT'') (opt_number ft raw [''execPnl'']) time)))))))"

definition gate_role :: "(f64 \<Rightarrow> string) \<Rightarrow> json \<Rightarrow> string" where
  "gate_role ft raw =
     (if bool_field raw [''is_maker''] = Some True \<or>
         (case opt_text ft raw [''role''] of Some r \<Rightarrow> eq_ignore_ascii_case r ''maker'' | None \<Rightarrow> False)
      then ''maker'' else ''taker'')"

definition normalize_gate_trade :: "(f64 \<Rightarrow> string) \<Rightarrow> leg \<Rightarrow> json \<Rightarrow> (string \<rightharpoonup> f64) \<Rightarrow> string + trade_row" where
  "normalize_gate_trade ft lg raw multipliers =
     (if lg = SpotTrade
      then bind_res (text_field ft raw [''currency_pair'']) (\<lambda>pair.
        bind_res (text_field ft raw [''id'']) (\<lambda>trade_id.
        bind_res (text_field ft raw [''side'']) (\<lambda>s.
        bind_res (number_field ft raw [''price'']) (\<lambda>price.
        bind_res (number_field ft raw [''amount'']) (\<lambda>quantity.
        bind_res (timestamp_field ft raw [''create_time_ms'', ''create_time'']) (\<lambda>time.
          make_trade lg ''spot'' (plain_symbol pair) trade_id (or_text (opt_text ft raw [''order_id'']) []) (lower_side s)
            (gate_role ft raw) price quantity None (or_zero (number_field ft raw [''fee'']))
            (or_text (opt_text ft raw [''fee_currency'']) ''USDT'') None time))))))
      else bind_res (text_field ft raw [''contract'']) (\<lambda>contract0.
        let contract = to_ascii_uppercase contract0 in
        bind_res (number_field ft raw [''size'']) (\<lambda>size_text.
        bind_res (parse_number size_text) (\<lambda>size_value.
        if feq size_value 0 then Inl ''Gate futures trade has zero size''
        else bind_res (ok_or (''missing Gate multiplier for '' @ contract) (multipliers contract)) (\<lambda>multiplier.
        bind_res (text_field ft raw [''trade_id'']) (\<lambda>trade_id.
        bind_res (number_field ft raw [''price'']) (\<lambda>price.
        bind_res (timestamp_field ft raw [''create_time_ms'', ''create_time'']) (\<lambda>time.
          make_trade lg ''swap'' (plain_symbol contract) trade_id (or_text (opt_text ft raw [''order_id'']) [])
            (if 0 < size_value then ''buy'' else ''sell'') (gate_role ft raw) price (decimal_string (\<bar>size_value\<bar> * multiplier))
            None (or_zero (number_field ft raw [''fee''])) ''USDT'' (opt_number ft raw [''pnl'']) time))))))))"

definition bitget_fee :: "(f64 \<Rightarrow> string) \<Rightarrow> json \<Rightarrow> string \<times> string" where
  "bitget_fee ft raw =
     (let detail = (case json_get ''feeDetail'' raw of
            None \<Rightarrow> None
          | Some v \<Rightarrow> (case as_array v of Some (x # _) \<Rightarrow> Some x | _ \<Rightarrow> None));
          amount = (case (case detail of None \<Rightarrow> None | Some v \<Rightarrow> opt_number ft v [''fee'', ''totalFee'']) of
              Some t \<Rightarrow> t
            | None \<Rightarrow> or_text (opt_number ft raw [''fee'', ''execFee'']) ''0'');
          asset = (case (case detail of None \<Rightarrow> None | Some v \<Rightarrow> opt_text ft v [''feeCoin'']) of
              Some t \<Rightarrow> t
            | None \<Rightarrow> or_text (opt_text ft raw [''feeCoin'', ''feeCurrency'', ''feeCcy'']) ''USDT'')
      in (amount, asset))"

definition normalize_bitget_trade :: "(f64 \<Rightarrow> string) \<Rightarrow> leg \<Rightarrow> json \<Rightarrow> string + trade_row" where
  "normalize_bitget_trade ft lg raw =
     (let role_text = to_ascii_lowercase (or_text (opt_text ft raw [''tradeRole'', ''execType'', ''tradeScope'']) []);
          role = (if role_text \<in> {''maker'', ''m''} then ''maker'' else ''taker'');
          (fee_amount, fee_asset) = bitget_fee ft raw
      in bind_res (text_field ft raw [''symbol'']) (\<lambda>symbol.
         bind_res (text_field ft raw [''execId'', ''tradeId'', ''id'']) (\<lambda>trade_id.
         bind_res (text_field ft raw [''side'']) (\<lambda>s.
         bind_res (number_field ft raw [''price'', ''fillPrice'', ''execPrice'']) (\<lambda>price.
         bind_res (number_field ft raw [''size'', ''qty'', ''baseVolume'', ''execQty'']) (\<lambda>quantity.
         bind_res (timestamp_field ft raw [''createdTime'', ''cTime'', ''ts'']) (\<lambda>time.
           make_trade lg (if lg = SpotTrade then ''margin'' else ''usdt_futures'') (plain_symbol symbol) trade_id
             (or_text (opt_text ft raw [''orderId'']) []) (lower_side s) role price quantity
             (opt_number ft raw [''quoteVolume'', ''amount'', ''execValue'']) fee_amount fee_asset
             (opt_number ft raw [''profit'', ''pnl'', ''realizedPnl'', ''execPnl'']) time)))))))"

definition normalize_okx_trade :: "(f64 \<Rightarrow> string) \<Rightarrow> leg \<Rightarrow> json \<Rightarrow> string + trade_row" where
  "normalize_okx_trade ft lg raw =
     bind_res (text_field ft raw [''instId'']) (\<lambda>instrument.
     bind_res (negate_decimal (or_zero (number_field ft raw [''fee'']))) (\<lambda>fee_amount.
     bind_res (text_field ft raw [''tradeId'']) (\<lambda>trade_id.
     bind_res (text_field ft raw [''side'']) (\<lambda>s.
     bind_res (number_field ft raw [''fillPx'']) (\<lambda>price.
     bind_res (number_field ft raw [''fillSz'']) (\<lambda>quantity.
     bind_res (timestamp_field ft raw [''ts'', ''fillTime'']) (\<lambda>time.
       make_trade lg (if lg = SpotTrade then ''margin'' else ''swap'')
         (plain_symbol (if lg = Derivative then trim_end_matches ''-SWAP'' instrument else instrument)) trade_id
         (or_text (opt_text ft raw [''ordId'']) []) (lower_side s)
         (if eq_ignore_ascii_case (or_text (opt_text ft raw [''execType'']) []) ''M'' then ''maker'' else ''taker'')
         price quantity None fee_amount (or_text (opt_text ft raw [''feeCcy'']) ''USDT'') (opt_number ft raw [''fillPnl'']) time)))))))"

definition ltp_symbol_text :: "string \<Rightarrow> string + string" where
  "ltp_symbol_text name =
     (let parts = split_by (\<lambda>c. c = CHR ''_'') name
      in if length parts \<noteq> 4 \<or> [] \<in> set parts then Inl ''unexpected LTP sym format''
         else Inr (plain_symbol (parts ! 2 @ parts ! 3)))"

definition ltp_symbol :: "(f64 \<Rightarrow> string) \<Rightarrow> json \<Rightarrow> string + string" where
  "ltp_symbol ft raw = bind_res (text_field ft raw [''sym'']) ltp_symbol_text"

definition ltp_business_leg :: "string \<Rightarrow> string + leg \<times> string" where
  "ltp_business_leg business =
     (if business = ''SPOT'' then Inr (SpotTrade, ''spot'')
      else if business = ''MARGIN'' then Inr (SpotTrade, ''margin'')
      else if business = ''PERP'' then Inr (Derivative, ''usdm_futures'')
      else Inl ''unsupported LTP businessType'')"

text \<open>The stored fee is the fee less the rebate, when both are in one currency.\<close>

definition ltp_fee_amount :: "(f64 \<Rightarrow> string) \<Rightarrow> json \<Rightarrow> string \<Rightarrow> string \<Rightarrow> string + string" where
  "ltp_fee_amount ft raw fee fee_coin =
     (let rebate = or_text (opt_number ft raw [''rebate'']) ''0''
      in bind_res (parse_number rebate) (\<lambda>rebate_value.
        if \<not> feq rebate_value 0
        then (if \<not> eq_ignore_ascii_case (or_text (opt_text ft raw [''rebateCoin'']) fee_coin) fee_coin
              then Inl ''LTP fee/rebate currency mismatch''
              else bind_res (parse_number fee) (\<lambda>fee_value. Inr (decimal_string (fee_value - rebate_value))))
        else Inr fee))"

definition normalize_ltp_trade :: "(f64 \<Rightarrow> string) \<Rightarrow> leg \<Rightarrow> json \<Rightarrow> string + trade_row" where
  "normalize_ltp_trade ft lg raw =
     bind_res (text_field ft raw [''businessType'']) (\<lambda>business0.
     let business = to_ascii_uppercase business0 in
     bind_res (ltp_business_leg business) (\<lambda>(expected_leg, market).
     if lg \<noteq> expected_leg then Inl ''LTP businessType does not match leg''
     else bind_res (text_field ft raw [''sym'']) (\<lambda>name.
     bind_res (text_field ft raw [''exchangeType'']) (\<lambda>exchange_type.
     let parts = split_by (\<lambda>c. c = CHR ''_'') name in
     if length parts \<noteq> 4 \<or> \<not> eq_ignore_ascii_case (parts ! 0) exchange_type \<or> \<not> eq_ignore_ascii_case (parts ! 1) business
     then Inl ''LTP sym does not match''
     else bind_res (number_field ft raw [''fee'']) (\<lambda>fee.
     let fee_coin = or_text (opt_text ft raw [''feeCoin'']) ''USDT'' in
     bind_res (ltp_fee_amount ft raw fee fee_coin) (\<lambda>fee_amount.
     bind_res (ltp_symbol_text name) (\<lambda>symbol.
     bind_res (text_field ft raw [''transactionId'']) (\<lambda>trade_id.
     bind_res (text_field ft raw [''orderId'']) (\<lambda>order_id.
     bind_res (text_field ft raw [''side'']) (\<lambda>s.
     bind_res (number_field ft raw [''price'']) (\<lambda>price.
     bind_res (number_field ft raw [''quantity'']) (\<lambda>quantity.
     bind_res (timestamp_field ft raw [''createAt'']) (\<lambda>time.
       make_trade lg market symbol trade_id order_id (lower_side s) (lower_side (or_text (opt_text ft raw [''execType'']) ''taker''))
         price quantity None fee_amount fee_coin (opt_number ft raw [''rpnl'']) time)))))))))))))"

definition normalize_trade :: "(f64 \<Rightarrow> string) \<Rightarrow> string \<Rightarrow> string \<Rightarrow> leg \<Rightarrow> json \<Rightarrow> (string \<rightharpoonup> f64) \<Rightarrow> string + trade_row" where
  "normalize_trade ft exchange account_mode lg raw gate_multipliers =
     (if account_mode = ''rapidx'' then normalize_ltp_trade ft lg raw
      else if exchange = ''binance'' then normalize_binance_trade ft lg raw
      else if exchange = ''bybit'' then normalize_bybit_trade ft lg raw
      else if exchange = ''gate'' then normalize_gate_trade ft lg raw gate_multipliers
      else if exchange = ''bitget'' then normalize_bitget_trade ft lg raw
      else if exchange \<in> {''okx'', ''okex''} then normalize_okx_trade ft lg raw
      else Inl ''unsupported trade normalizer'')"


section \<open>Cash, liquidations and rebates\<close>

definition normalize_ltp_cash :: "(f64 \<Rightarrow> string) \<Rightarrow> dataset \<Rightarrow> json \<Rightarrow> string + cash_row" where
  "normalize_ltp_cash ft data raw =
     bind_res (text_field ft raw [''statementType'']) (\<lambda>statement_type0.
     let statement_type = to_ascii_uppercase statement_type0 in
     bind_res (case data of FundingData \<Rightarrow> Inr ''FUNDING_FEE'' | InterestData \<Rightarrow> Inr ''DEDUCT_INTEREST''
         | _ \<Rightarrow> Inl (''LTP statements do not support '' @ dataset_name data)) (\<lambda>expected.
     if statement_type \<noteq> expected then Inl ''unexpected LTP statementType''
     else bind_res (number_field ft raw [''deltaAmount'']) (\<lambda>delta.
     bind_res (timestamp_field ft raw [''createAt'']) (\<lambda>time.
     if time \<le> 0 then Inl ''invalid LTP timestamp''
     else bind_res (case opt_text ft raw [''sym''] of None \<Rightarrow> Inr None
         | Some name \<Rightarrow> bind_res (ltp_symbol_text name) (\<lambda>s. Inr (Some s))) (\<lambda>symbol.
     bind_res (if data = FundingData then signed_decimal delta else negate_decimal delta) (\<lambda>amount.
     bind_res (parse_number amount) (\<lambda>_.
     bind_res (text_field ft raw [''statementId'']) (\<lambda>record_id.
     bind_res (text_field ft raw [''coin'']) (\<lambda>coin.
       Inr \<lparr>cr_record_id = record_id, cr_symbol = symbol, cr_asset = to_ascii_uppercase coin, cr_amount = amount,
         cr_event_time_ms = time\<rparr>)))))))))"

text \<open>The fields a normaliser of cash rows reads: id, symbol, asset, amount and time.\<close>

type_synonym cash_fields = "string \<times> string option \<times> string \<times> string \<times> int"

definition normalize_binance_cash :: "(f64 \<Rightarrow> string) \<Rightarrow> dataset \<Rightarrow> json \<Rightarrow> string + cash_fields" where
  "normalize_binance_cash ft data raw =
     (if data = FundingData
      then bind_res (text_field ft raw [''tranId'']) (\<lambda>record_id.
        bind_res (text_field ft raw [''asset'']) (\<lambda>asset.
        bind_res (number_field ft raw [''income'']) (\<lambda>amount.
        bind_res (timestamp_field ft raw [''time'']) (\<lambda>time.
          Inr (record_id, map_option plain_symbol (opt_text ft raw [''symbol'']), asset, amount, time)))))
      else bind_res (text_field ft raw [''txId'']) (\<lambda>record_id.
        bind_res (text_field ft raw [''asset'']) (\<lambda>asset.
        bind_res (number_field ft raw [''interest'']) (\<lambda>amount.
        bind_res (timestamp_field ft raw [''interestAccuredTime'']) (\<lambda>time.
          Inr (record_id, None, asset, amount, time))))))"

definition normalize_bybit_cash :: "(f64 \<Rightarrow> string) \<Rightarrow> dataset \<Rightarrow> json \<Rightarrow> string + cash_fields" where
  "normalize_bybit_cash ft data raw =
     (if data = FundingData
      then bind_res (text_field ft raw [''id'']) (\<lambda>record_id.
        bind_res (text_field ft raw [''symbol'']) (\<lambda>symbol.
        bind_res (nonzero_number ft raw [''cashFlow'', ''change'']) (\<lambda>amount.
        bind_res (timestamp_field ft raw [''transactionTime'']) (\<lambda>time.
          Inr (record_id, Some (plain_symbol symbol), or_text (opt_text ft raw [''currency'']) ''USDT'', amount, time)))))
      else bind_res (text_field ft raw [''id'']) (\<lambda>record_id.
        bind_res (text_field ft raw [''currency'']) (\<lambda>asset.
        bind_res (nonzero_number ft raw [''cashFlow'', ''change'']) (\<lambda>amount.
        bind_res (timestamp_field ft raw [''transactionTime'']) (\<lambda>time.
          Inr (record_id, None, asset, amount, time))))))"

definition normalize_gate_cash :: "(f64 \<Rightarrow> string) \<Rightarrow> dataset \<Rightarrow> json \<Rightarrow> string + cash_fields" where
  "normalize_gate_cash ft data raw =
     (if data = FundingData
      then bind_res (text_field ft raw [''id'']) (\<lambda>record_id.
        bind_res (ok_or ''Gate funding row has no contract''
            (case opt_text ft raw [''contract''] of Some c \<Rightarrow> Some c | None \<Rightarrow> contract_from_text (opt_text ft raw [''text'']))) (\<lambda>contract.
        bind_res (number_field ft raw [''change'']) (\<lambda>amount.
        bind_res (timestamp_field ft raw [''time_ms'', ''time'']) (\<lambda>time.
          Inr (record_id, Some (plain_symbol contract), ''USDT'', amount, time)))))
      else bind_res (text_field ft raw [''currency'']) (\<lambda>asset.
        bind_res (timestamp_field ft raw [''time_ms'', ''time'', ''create_time'']) (\<lambda>time.
        bind_res (number_field ft raw [''interest'']) (\<lambda>amount.
        bind_res (parse_number amount) (\<lambda>number.
          Inr (or_text (opt_text ft raw [''id'']) (asset @ '':'' @ int_text time @ '':'' @ amount), None, asset,
            decimal_string (- \<bar>number\<bar>), time))))))"

definition normalize_bitget_cash :: "(f64 \<Rightarrow> string) \<Rightarrow> json \<Rightarrow> string + cash_fields" where
  "normalize_bitget_cash ft raw =
     (let record_type = or_text (opt_text ft raw [''type'']) []
      in bind_res (nonzero_number ft raw [''amount'', ''change'', ''cashFlow'']) (\<lambda>raw_amount.
         bind_res (if ends_with ''_OUT'' record_type then bind_res (absolute_decimal raw_amount) (\<lambda>t. Inr (CHR ''-'' # t))
             else if ends_with ''_IN'' record_type then absolute_decimal raw_amount
             else Inr raw_amount) (\<lambda>amount.
         bind_res (text_field ft raw [''id'', ''bizId'']) (\<lambda>record_id.
         bind_res (timestamp_field ft raw [''createdTime'', ''cTime'', ''ts'']) (\<lambda>time.
           Inr (record_id, map_option plain_symbol (opt_text ft raw [''symbol'']),
             or_text (opt_text ft raw [''coin'', ''currency'', ''asset'']) ''USDT'', amount, time))))))"

definition normalize_okx_cash :: "(f64 \<Rightarrow> string) \<Rightarrow> dataset \<Rightarrow> json \<Rightarrow> string + cash_fields" where
  "normalize_okx_cash ft data raw =
     (if data = FundingData
      then bind_res (text_field ft raw [''billId'']) (\<lambda>record_id.
        bind_res (nonzero_number ft raw [''balChg'', ''pnl'']) (\<lambda>amount.
        bind_res (timestamp_field ft raw [''ts'']) (\<lambda>time.
          Inr (record_id, map_option plain_symbol (opt_text ft raw [''instId'']), or_text (opt_text ft raw [''ccy'']) ''USDT'', amount, time))))
      else bind_res (text_field ft raw [''ccy'']) (\<lambda>asset.
        bind_res (timestamp_field ft raw [''ts'']) (\<lambda>time.
        bind_res (number_field ft raw [''interest'']) (\<lambda>amount.
          Inr (or_text (opt_text ft raw [''billId'']) (asset @ '':'' @ int_text time @ '':'' @ amount), None, asset, amount, time)))))"

definition normalize_cash :: "(f64 \<Rightarrow> string) \<Rightarrow> string \<Rightarrow> string \<Rightarrow> dataset \<Rightarrow> json \<Rightarrow> string + cash_row" where
  "normalize_cash ft exchange account_mode data raw =
     (if account_mode = ''rapidx'' then normalize_ltp_cash ft data raw
      else let cash = data \<in> {FundingData, InterestData} in
        bind_res
          (if exchange = ''binance'' \<and> cash then normalize_binance_cash ft data raw
           else if exchange = ''bybit'' \<and> cash then normalize_bybit_cash ft data raw
           else if exchange = ''gate'' \<and> cash then normalize_gate_cash ft data raw
           else if exchange = ''bitget'' then normalize_bitget_cash ft raw
           else if exchange \<in> {''okx'', ''okex''} \<and> cash then normalize_okx_cash ft data raw
           else Inl (''unsupported '' @ exchange @ '' normalizer''))
          (\<lambda>(record_id, symbol, asset, amount, time).
            bind_res (parse_number amount) (\<lambda>_.
              if time \<le> 0 then Inl ''invalid timestamp''
              else Inr \<lparr>cr_record_id = record_id, cr_symbol = symbol, cr_asset = to_ascii_uppercase asset, cr_amount = amount,
                cr_event_time_ms = time\<rparr>)))"

definition normalize_binance_liquidation :: "(f64 \<Rightarrow> string) \<Rightarrow> json \<Rightarrow> string + binance_liquidation_row" where
  "normalize_binance_liquidation ft raw =
     bind_res (text_field ft raw [''orderId'']) (\<lambda>order_id.
     bind_res (text_field ft raw [''symbol'']) (\<lambda>symbol.
     bind_res (number_field ft raw [''origQty'']) (\<lambda>original_quantity.
     bind_res (number_field ft raw [''executedQty'']) (\<lambda>executed_quantity.
     bind_res (timestamp_field ft raw [''time'']) (\<lambda>time.
     bind_res (case opt_text ft raw [''updateTime''] of None \<Rightarrow> Inr None
         | Some _ \<Rightarrow> bind_res (timestamp_field ft raw [''updateTime'']) (\<lambda>t. Inr (Some t))) (\<lambda>update_time.
     bind_res (text_field ft raw [''status'']) (\<lambda>status.
     bind_res (text_field ft raw [''side'']) (\<lambda>sd.
       Inr \<lparr>bl_order_id = order_id, bl_symbol = plain_symbol symbol, bl_status = status,
         bl_client_order_id = opt_text ft raw [''clientOrderId''], bl_order_price = opt_number ft raw [''price''],
         bl_average_price = opt_number ft raw [''avgPrice''], bl_original_quantity = original_quantity,
         bl_executed_quantity = executed_quantity, bl_cumulative_quote = opt_number ft raw [''cumQuote''],
         bl_time_in_force = opt_text ft raw [''timeInForce''], bl_order_type = opt_text ft raw [''type''],
         bl_reduce_only = bool_field raw [''reduceOnly''], bl_side = lower_side sd,
         bl_position_side = opt_text ft raw [''positionSide''], bl_original_type = opt_text ft raw [''origType''],
         bl_event_time_ms = time, bl_update_time_ms = update_time, bl_raw = raw\<rparr>))))))))"

definition normalize_gate_liquidation :: "(f64 \<Rightarrow> string) \<Rightarrow> json \<Rightarrow> (string \<rightharpoonup> f64) \<Rightarrow> string + liquidation_row" where
  "normalize_gate_liquidation ft raw multipliers =
     bind_res (text_field ft raw [''contract'']) (\<lambda>contract.
     bind_res (text_field ft raw [''order_id'']) (\<lambda>order_id.
     bind_res (number_field ft raw [''size'']) (\<lambda>size_text.
     bind_res (ok_or (''missing Gate multiplier for '' @ contract) (multipliers (to_ascii_uppercase contract))) (\<lambda>multiplier.
     bind_res (timestamp_field ft raw [''time'']) (\<lambda>time.
       Inr \<lparr>lq_order_id = order_id, lq_symbol = plain_symbol contract, lq_position_size_contracts = size_text,
         lq_contract_multiplier = decimal_string multiplier, lq_leverage = opt_number ft raw [''leverage''],
         lq_margin = opt_number ft raw [''margin''], lq_entry_price = opt_number ft raw [''entry_price''],
         lq_liquidation_price = opt_number ft raw [''liq_price''], lq_mark_price = opt_number ft raw [''mark_price''],
         lq_order_price = opt_number ft raw [''order_price''], lq_fill_price = opt_number ft raw [''fill_price''],
         lq_remaining_size_contracts = opt_number ft raw [''left''], lq_event_time_ms = time, lq_raw = raw\<rparr>)))))"

definition parse_i16 :: "string \<Rightarrow> int option" where
  "parse_i16 s = (case parse_i64 s of Some n \<Rightarrow> if - (2 ^ 15) \<le> n \<and> n < 2 ^ 15 then Some n else None | None \<Rightarrow> None)"

definition normalize_binance_rebate :: "(f64 \<Rightarrow> string) \<Rightarrow> json \<Rightarrow> string + rebate_row" where
  "normalize_binance_rebate ft raw =
     bind_res (text_field ft raw [''id'']) (\<lambda>record_id.
     bind_res (number_field ft raw [''amount'']) (\<lambda>amount.
     bind_res (timestamp_field ft raw [''divTime'']) (\<lambda>time.
     if time \<le> 0 then Inl ''invalid rebate timestamp''
     else bind_res (case opt_text ft raw [''direction''] of None \<Rightarrow> Inr None
         | Some t \<Rightarrow> bind_res (ok_or ''parse Binance rebate direction'' (parse_i16 t)) (\<lambda>d. Inr (Some d))) (\<lambda>direction.
     bind_res (text_field ft raw [''asset'']) (\<lambda>asset.
     bind_res (text_field ft raw [''enInfo'']) (\<lambda>description.
       Inr \<lparr>rb_record_id = record_id, rb_transaction_id = opt_text ft raw [''tranId''], rb_asset = to_ascii_uppercase asset,
         rb_amount = amount, rb_event_time_ms = time, rb_description = description, rb_direction = direction, rb_raw = raw\<rparr>))))))"

section \<open>What every normalised row satisfies\<close>

definition numeric :: "string \<Rightarrow> bool" where
  "numeric s \<longleftrightarrow> (\<exists>x. parse_number s = Inr x)"

definition positive_text :: "string \<Rightarrow> bool" where
  "positive_text s \<longleftrightarrow> (\<exists>x. parse_number s = Inr x \<and> 0 < x)"

definition trade_row_ok :: "trade_row \<Rightarrow> bool" where
  "trade_row_ok row \<longleftrightarrow> ht_side row \<in> {''buy'', ''sell''} \<and> positive_text (ht_price row) \<and> positive_text (ht_quantity row) \<and>
     numeric (ht_quote_quantity row) \<and> numeric (ht_fee_amount row) \<and>
     (\<forall>t. ht_realized_pnl row = Some t \<longrightarrow> numeric t) \<and> to_ascii_uppercase (ht_fee_asset row) = ht_fee_asset row \<and>
     0 < ht_event_time_ms row \<and> ht_event_time_ms row \<le> i64_max"

lemma upper_upper [simp]: "to_ascii_uppercase (to_ascii_uppercase s) = to_ascii_uppercase s"
proof -
  have "ascii_upper (ascii_upper c) = ascii_upper c" for c by (auto simp: ascii_upper_def)
  then show ?thesis by (simp add: to_ascii_uppercase_def)
qed

lemma parse_number_finite: "parse_number s = Inr x \<Longrightarrow> is_finite x"
  by (auto simp: parse_number_def split: option.splits if_splits)

lemma make_trade_ok:
  assumes m: "make_trade lg market symbol trade_id order_id sd role price quantity quote0 fee_amount fee_asset realized_pnl time = Inr row"
    and t: "time \<le> i64_max"
  shows "trade_row_ok row \<and> ht_leg row = lg"
proof -
  have sd: "sd \<in> {''buy'', ''sell''}" using m by (auto simp: make_trade_def split: if_splits)
  obtain p q x y a b where
    p: "parse_number price = Inr p" "\<not> p \<le> 0" and q: "parse_number quantity = Inr q" "\<not> \<bar>q\<bar> \<le> 0" and tm: "\<not> time \<le> 0"
    and quote: "parse_number (or_text quote0 (decimal_string (p * \<bar>q\<bar>))) = Inr x" and fee: "parse_number fee_amount = Inr y"
    and real: "check_optional realized_pnl = Inr ()"
    and a: "absolute_decimal quantity = Inr a" and b: "signed_decimal fee_amount = Inr b"
    and row: "row = \<lparr>ht_leg = lg, ht_market = market, ht_symbol = symbol, ht_trade_id = trade_id, ht_order_id = order_id,
              ht_side = sd, ht_role = role, ht_price = price, ht_quantity = a,
              ht_quote_quantity = or_text quote0 (decimal_string (p * \<bar>q\<bar>)),
              ht_fee_amount = b, ht_fee_asset = to_ascii_uppercase fee_asset, ht_realized_pnl = realized_pnl,
              ht_event_time_ms = time\<rparr>"
    using m unfolding make_trade_def Let_def if_Inr bind_res_Inr by auto
  have "is_finite q" by (rule parse_number_finite [OF q(1)])
  then have fp: "is_finite p" "is_finite \<bar>q\<bar>" using parse_number_finite [OF p(1)] by (simp, cases q, simp_all)
  have "positive_text price" using p fp finite_not_le by (auto simp: positive_text_def)
  moreover have "positive_text a"
    using decimal_text_spec(1) [OF q(1)] a q(2) fp finite_not_le by (auto simp: positive_text_def)
  moreover have "numeric b" using decimal_text_spec(2) [OF fee] b by (auto simp: numeric_def)
  moreover have "\<forall>t. realized_pnl = Some t \<longrightarrow> numeric t"
    using real by (auto simp: check_optional_def numeric_def bind_res_Inr split: option.splits)
  ultimately show ?thesis using sd quote tm t by (auto simp: row trade_row_ok_def numeric_def)
qed

lemma clamp_le_max: "clamp_i64 x \<le> i64_max"
  by (simp add: clamp_i64_def i64_min_def i64_max_def)

lemma i64_max_nonneg: "0 \<le> i64_max"
  by (simp add: i64_max_def)

lemma timestamp_le_max: "timestamp_field ft v names = Inr t \<Longrightarrow> t \<le> i64_max"
  using i64_max_nonneg clamp_le_max
  by (auto simp: timestamp_field_def bind_res_Inr Let_def round_positive_def split: if_splits f64.splits)

lemma binance_trade_ok: "normalize_binance_trade ft lg raw = Inr row \<Longrightarrow> trade_row_ok row \<and> ht_leg row = lg"
  unfolding normalize_binance_trade_def bind_res_Inr by (elim exE conjE) (rule make_trade_ok, assumption, rule timestamp_le_max)

lemma bybit_trade_ok: "normalize_bybit_trade ft lg raw = Inr row \<Longrightarrow> trade_row_ok row \<and> ht_leg row = lg"
  unfolding normalize_bybit_trade_def bind_res_Inr by (elim exE conjE) (rule make_trade_ok, assumption, rule timestamp_le_max)

lemma bitget_trade_ok: "normalize_bitget_trade ft lg raw = Inr row \<Longrightarrow> trade_row_ok row \<and> ht_leg row = lg"
  unfolding normalize_bitget_trade_def Let_def split_beta bind_res_Inr
  by (elim exE conjE) (rule make_trade_ok, assumption, rule timestamp_le_max)

lemma okx_trade_ok: "normalize_okx_trade ft lg raw = Inr row \<Longrightarrow> trade_row_ok row \<and> ht_leg row = lg"
  unfolding normalize_okx_trade_def bind_res_Inr by (elim exE conjE) (rule make_trade_ok, assumption, rule timestamp_le_max)

lemma gate_trade_ok: "normalize_gate_trade ft lg raw ms = Inr row \<Longrightarrow> trade_row_ok row \<and> ht_leg row = lg"
proof (cases "lg = SpotTrade")
  case True
  assume "normalize_gate_trade ft lg raw ms = Inr row"
  then show ?thesis unfolding normalize_gate_trade_def if_P [OF True] bind_res_Inr
    by (elim exE conjE) (rule make_trade_ok, assumption, rule timestamp_le_max)
next
  case False
  assume "normalize_gate_trade ft lg raw ms = Inr row"
  then show ?thesis unfolding normalize_gate_trade_def if_not_P [OF False] Let_def bind_res_Inr if_Inr
    by (elim exE conjE) (rule make_trade_ok, assumption, rule timestamp_le_max)
qed

lemma ltp_trade_ok: "normalize_ltp_trade ft lg raw = Inr row \<Longrightarrow> trade_row_ok row \<and> ht_leg row = lg"
  unfolding normalize_ltp_trade_def Let_def bind_res_Inr split_beta if_Inr
  by (elim exE conjE) (rule make_trade_ok, assumption, rule timestamp_le_max)

text \<open>C22: Whatever an exchange sends, a trade row that a normaliser accepts has a side, a positive price and quantity, numeric
  quote, fee and realised amounts, a fee asset in upper case and a positive timestamp, and keeps the leg it was fetched for.\<close>

theorem normalized_trade_typed:
  "case normalize_trade ft exchange account_mode lg raw multipliers of
     Inl e \<Rightarrow> True
   | Inr row \<Rightarrow> trade_row_ok row \<and> ht_leg row = lg"
  using binance_trade_ok bybit_trade_ok gate_trade_ok bitget_trade_ok okx_trade_ok ltp_trade_ok
  by (auto simp: normalize_trade_def split: sum.splits if_splits)

text \<open>OKX reports charges as negative amounts; the stored fee is the negated one.\<close>

lemma okx_fee_negated:
  assumes "normalize_okx_trade ft lg raw = Inr row" "number_field ft raw [''fee''] = Inr fee" "parse_number fee = Inr x"
  shows "parse_number (ht_fee_amount row) = Inr (- x)"
proof -
  obtain n where n: "negate_decimal fee = Inr n" "parse_number n = Inr (- x)" using decimal_text_spec(3) [OF assms(3)] by blast
  then obtain b where b: "signed_decimal n = Inr b" "parse_number b = Inr (- x)" using decimal_text_spec(2) by blast
  have "ht_fee_amount row = b" using assms(1) n(1) b(1)
    unfolding normalize_okx_trade_def make_trade_def Let_def bind_res_Inr if_Inr assms(2) by (auto simp: or_zero_def)
  then show ?thesis using b by simp
qed

definition sample_execution :: json where
  "sample_execution = JObject [(''symbol'', JString ''BTCUSDT''), (''execId'', JString ''7''), (''orderId'', JString ''9''),
     (''side'', JString ''Buy''), (''execPrice'', JString ''2''), (''execQty'', JString ''2''), (''execValue'', JString ''2''),
     (''execFee'', JString ''2''), (''execTime'', JString ''2'')]"

definition sample_row :: trade_row where
  "sample_row = \<lparr>ht_leg = SpotTrade, ht_market = ''spot'', ht_symbol = ''BTCUSDT'', ht_trade_id = ''7'', ht_order_id = ''9'',
     ht_side = ''buy'', ht_role = ''taker'', ht_price = ''2'', ht_quantity = ''2'', ht_quote_quantity = ''2'', ht_fee_amount = ''2'',
     ht_fee_asset = ''USDT'', ht_realized_pnl = None, ht_event_time_ms = 2000\<rparr>"

lemma parse_two: "parse_number ''2'' = Inr (Fin 2)"
proof -
  have "rnd 2 = Fin 2" using rnd_of_int [of 2] by simp
  then have "parse_f64 ''2'' = Some (Fin 2)"
    by (simp add: parse_f64_def split_sign_def to_ascii_lowercase_def ascii_lower_def parse_decimal_def is_ascii_digit_def
        digits_nat_def digit_val_def parse_exponent_def)
  then show ?thesis by (simp add: parse_number_def)
qed

lemma sample_normalized: "normalize_trade (\<lambda>_. []) ''bybit'' ''unified'' SpotTrade sample_execution (\<lambda>_. None) = Inr sample_row"
proof -
  let ?v = sample_execution
  have get: "json_get ''symbol'' ?v = Some (JString ''BTCUSDT'')" "json_get ''execId'' ?v = Some (JString ''7'')"
    "json_get ''orderId'' ?v = Some (JString ''9'')" "json_get ''side'' ?v = Some (JString ''Buy'')"
    "json_get ''execPrice'' ?v = Some (JString ''2'')" "json_get ''execQty'' ?v = Some (JString ''2'')"
    "json_get ''execValue'' ?v = Some (JString ''2'')" "json_get ''execFee'' ?v = Some (JString ''2'')"
    "json_get ''execTime'' ?v = Some (JString ''2'')" "json_get ''isMaker'' ?v = None" "json_get ''execPnl'' ?v = None"
    "json_get ''feeCurrency'' ?v = None" "json_get ''feeCcy'' ?v = None"
    by (simp_all add: json_get_def sample_execution_def)
  have trims: "str_trim ''BTCUSDT'' = ''BTCUSDT''" "str_trim ''7'' = ''7''" "str_trim ''9'' = ''9''" "str_trim ''Buy'' = ''Buy''"
    "str_trim ''2'' = ''2''" "lower_side ''Buy'' = ''buy''" "plain_symbol ''BTCUSDT'' = ''BTCUSDT''"
    "to_ascii_uppercase ''USDT'' = ''USDT''" by code_simp+
  have "rnd 2 = Fin 2" "rnd 2000 = Fin 2000" using rnd_of_int [of 2] rnd_of_int [of 2000] by simp_all
  then have p: "parse_f64 ''2'' = Some (Fin 2)" and m: "to_milliseconds (Fin 2) = Fin 2000"
    by (simp_all add: parse_f64_def split_sign_def to_ascii_lowercase_def ascii_lower_def parse_decimal_def is_ascii_digit_def
        digits_nat_def digit_val_def parse_exponent_def to_milliseconds_def)
  note n = parse_two
  note readers = text_field_def number_field_def opt_number_def opt_text_def field_text_def find_some_def ok_or_def List.map_filter_def
    Let_def bool_field_def timestamp_field_def ok_option_def
  have "absolute_decimal ''2'' = Inr ''2''" "signed_decimal ''2'' = Inr ''2''"
    by (simp_all add: absolute_decimal_def signed_decimal_def n trims feq_def zero_f64_def strip_sign_def strip_plus_def)
  moreover have "\<lfloor>4001 / 2 :: rat\<rfloor> = 2000" by (rule floor_unique) simp_all
  then have "round_positive 2000 = 2000" by (simp add: round_positive_def clamp_i64_def i64_min_def i64_max_def)
  ultimately show ?thesis
    by (simp add: normalize_trade_def normalize_bybit_trade_def make_trade_def readers get trims p n m or_text_def or_zero_def
        check_optional_def zero_f64_def sample_row_def)
qed

lemma normalized_trade_typed_witness:
  "normalize_trade (\<lambda>_. []) ''bybit'' ''unified'' SpotTrade sample_execution (\<lambda>_. None) = Inr sample_row \<and> trade_row_ok sample_row \<and>
     ht_side sample_row = ''buy'' \<and> ht_event_time_ms sample_row = 2000"
  using normalized_trade_typed [where ft = "\<lambda>_. []" and exchange = "''bybit''" and account_mode = "''unified''" and lg = SpotTrade
      and raw = sample_execution and multipliers = "\<lambda>_. None"] sample_normalized by (simp add: sample_row_def)

end
