(* ===== verification/TimeRange.thy ===== *)
theory TimeRange
  imports Prelude
begin

text \<open>
  \<open>src/src/models.rs\<close>: a range of time with both ends included, and its division into chunks of bounded length.  The
  loop is a partial function: \<open>None\<close> is a loop that never ends, which a range up to the largest \<open>i64\<close> makes it.
\<close>

record time_range =
  rg_start_ms :: int
  rg_end_ms :: int

definition time_range_new :: "int \<Rightarrow> int \<Rightarrow> string + time_range" where
  "time_range_new start_ms end_ms =
     (if start_ms < 0 then Inl ''start_ms must not be negative''
      else if end_ms < start_ms then Inl ''end_ms must be greater than or equal to start_ms''
      else Inr \<lparr>rg_start_ms = start_ms, rg_end_ms = end_ms\<rparr>)"

partial_function (option) chunk_loop :: "int \<Rightarrow> int \<Rightarrow> int \<Rightarrow> time_range list \<Rightarrow> time_range list option" where
  "chunk_loop span stop start chunks =
     (if start \<le> stop
      then let e = min (saturating_sub_i64 (saturating_add_i64 start span) 1) stop;
               chunks = chunks @ [\<lparr>rg_start_ms = start, rg_end_ms = e\<rparr>]
        in if e = stop then Some chunks else chunk_loop span stop (saturating_add_i64 e 1) chunks
      else Some chunks)"

definition range_chunks :: "time_range \<Rightarrow> int \<Rightarrow> (string + time_range list) option" where
  "range_chunks r max_span_ms =
     (if max_span_ms \<le> 0 then Some (Inl ''max_span_ms must be greater than zero'')
      else map_option Inr (chunk_loop max_span_ms (rg_end_ms r) (rg_start_ms r) []))"

text \<open>Chunks that follow each other without a gap from \<open>start\<close> to \<open>stop\<close>, each of at most \<open>span\<close> milliseconds.\<close>

fun tiles :: "int \<Rightarrow> int \<Rightarrow> int \<Rightarrow> time_range list \<Rightarrow> bool" where
  "tiles span start stop [] \<longleftrightarrow> start = stop + 1"
| "tiles span start stop (c # cs) \<longleftrightarrow> rg_start_ms c = start \<and> start \<le> rg_end_ms c \<and> rg_end_ms c \<le> stop \<and>
     rg_end_ms c - start < span \<and> tiles span (rg_end_ms c + 1) stop cs"

lemma chunk_loop_tiles:
  assumes "0 \<le> start" "start \<le> stop" "stop < i64_max" "0 < span"
  shows "\<exists>cs. chunk_loop span stop start acc = Some (acc @ cs) \<and> cs \<noteq> [] \<and> tiles span start stop cs"
  using assms(1,2)
proof (induction "nat (stop - start)" arbitrary: start acc rule: less_induct)
  case less
  define e where "e = min (saturating_sub_i64 (saturating_add_i64 start span) 1) stop"
  let ?c = "\<lparr>rg_start_ms = start, rg_end_ms = e\<rparr>"
  have e: "start \<le> e" "e \<le> stop" "e - start < span"
    using less.prems assms(3,4) by (auto simp: e_def saturating_sub_i64_def saturating_add_i64_def clamp_i64_def i64_max_def i64_min_def)
  show ?case
  proof (cases "e = stop")
    case True
    then have "chunk_loop span stop start acc = Some (acc @ [?c])"
      using less.prems by (subst chunk_loop.simps) (simp add: Let_def e_def [symmetric])
    moreover have "tiles span start stop [?c]" using e True by simp
    ultimately show ?thesis by blast
  next
    case False
    have n: "saturating_add_i64 e 1 = e + 1"
      using e less.prems assms(3) by (simp add: saturating_add_i64_def clamp_i64_def i64_max_def i64_min_def)
    then have "chunk_loop span stop start acc = chunk_loop span stop (e + 1) (acc @ [?c])"
      using less.prems False by (subst chunk_loop.simps) (simp add: Let_def e_def [symmetric])
    moreover obtain cs where "chunk_loop span stop (e + 1) (acc @ [?c]) = Some ((acc @ [?c]) @ cs)" "tiles span (e + 1) stop cs"
      using less.hyps [of "e + 1" "acc @ [?c]"] e False less.prems by auto
    ultimately have "chunk_loop span stop start acc = Some (acc @ (?c # cs))" "tiles span start stop (?c # cs)" using e by simp_all
    then show ?thesis by blast
  qed
qed

text \<open>Every instant of the range lies in exactly one chunk.\<close>

lemma tiles_cover: "tiles span start stop cs \<Longrightarrow> start \<le> t \<Longrightarrow> t \<le> stop \<Longrightarrow> \<exists>c \<in> set cs. rg_start_ms c \<le> t \<and> t \<le> rg_end_ms c"
proof (induction cs arbitrary: start)
  case (Cons c cs)
  then show ?case by (cases "t \<le> rg_end_ms c") auto
qed simp

lemma tiles_range: "tiles span start stop cs \<Longrightarrow> c \<in> set cs \<Longrightarrow> start \<le> rg_start_ms c \<and> rg_start_ms c \<le> rg_end_ms c \<and> rg_end_ms c \<le> stop \<and> rg_end_ms c - rg_start_ms c < span"
  by (induction cs arbitrary: start) fastforce+

lemma range_chunks_spec:
  assumes "0 \<le> rg_start_ms r" "rg_start_ms r \<le> rg_end_ms r" "rg_end_ms r < i64_max" "0 < span"
  shows "\<exists>cs. range_chunks r span = Some (Inr cs) \<and> cs \<noteq> [] \<and> tiles span (rg_start_ms r) (rg_end_ms r) cs"
  using chunk_loop_tiles [OF assms, of "[]"] assms(4) by (auto simp: range_chunks_def)

text \<open>Dividing a range that ends before the largest \<open>i64\<close> ends, and yields chunks of at most the wanted length that
  follow each other without gap or overlap from the start of the range to its end.\<close>

theorem range_chunks_tile:
  assumes "0 \<le> rg_start_ms r" "rg_start_ms r \<le> rg_end_ms r" "rg_end_ms r < i64_max" "0 < span"
  shows "\<exists>cs. range_chunks r span = Some (Inr cs) \<and> cs \<noteq> [] \<and> tiles span (rg_start_ms r) (rg_end_ms r) cs"
  by (rule range_chunks_spec [OF assms])

lemma range_chunks_tile_witness:
  "\<exists>cs. range_chunks \<lparr>rg_start_ms = 5, rg_end_ms = 11\<rparr> 3 = Some (Inr cs) \<and> cs \<noteq> [] \<and> tiles 3 5 11 cs"
  using range_chunks_tile [of "\<lparr>rg_start_ms = 5, rg_end_ms = 11\<rparr>" 3] by (simp add: i64_max_def)

text \<open>Up to the largest \<open>i64\<close> the loop never ends: no chunk reaches the end, because the end of a chunk is one less than a
  saturated sum.\<close>

lemma chunk_loop_stuck:
  assumes "0 < span" "0 \<le> start" "start \<le> i64_max"
  shows "chunk_loop span i64_max start acc = None"
proof -
  have "\<not> (s = span \<and> t = i64_max \<and> 0 \<le> x \<and> x \<le> i64_max)" if "chunk_loop s t x a = Some r" for s t x a r
    using that
  proof (rule chunk_loop.raw_induct [where P = "\<lambda>s t x a r. \<not> (s = span \<and> t = i64_max \<and> 0 \<le> x \<and> x \<le> i64_max)", rotated])
    fix f s t x and a :: "time_range list" and r
    assume IH: "\<And>s t x a r. f s t x a = Some r \<Longrightarrow> \<not> (s = span \<and> t = i64_max \<and> 0 \<le> x \<and> x \<le> i64_max)"
      and body: "(if x \<le> t then let e = min (saturating_sub_i64 (saturating_add_i64 x s) 1) t;
               chunks = a @ [\<lparr>rg_start_ms = x, rg_end_ms = e\<rparr>]
        in if e = t then Some chunks else f s t (saturating_add_i64 e 1) chunks
      else Some a) = Some r"
    show "\<not> (s = span \<and> t = i64_max \<and> 0 \<le> x \<and> x \<le> i64_max)"
    proof
      assume e: "s = span \<and> t = i64_max \<and> 0 \<le> x \<and> x \<le> i64_max"
      define e0 where "e0 = min (saturating_sub_i64 (saturating_add_i64 x span) 1) i64_max"
      have r: "0 \<le> e0 + 1" "e0 < i64_max" "saturating_add_i64 e0 1 = e0 + 1"
        using e assms(1)
        by (auto simp: e0_def saturating_sub_i64_def saturating_add_i64_def clamp_i64_def i64_max_def i64_min_def)
      have "f span i64_max (e0 + 1) (a @ [\<lparr>rg_start_ms = x, rg_end_ms = e0\<rparr>]) = Some r"
        using body e r by (simp add: Let_def e0_def [symmetric])
      then show False using IH r by fastforce
    qed
  qed
  then show ?thesis using assms(2,3) by (cases "chunk_loop span i64_max start acc") auto
qed

text \<open>A range that ends at the largest \<open>i64\<close> is never divided: the loop does not end, whatever the length of a chunk.\<close>

theorem range_chunks_diverge:
  assumes "0 < span" "0 \<le> start" "start \<le> i64_max"
  shows "range_chunks \<lparr>rg_start_ms = start, rg_end_ms = i64_max\<rparr> span = None"
  using chunk_loop_stuck [OF assms] assms by (simp add: range_chunks_def)

lemma range_chunks_diverge_witness:
  "range_chunks \<lparr>rg_start_ms = 0, rg_end_ms = i64_max\<rparr> 604800000 = None"
  by (rule range_chunks_diverge) (simp_all add: i64_max_def)

end
