(* ===== verification/SyncHistory.thy ===== *)
theory SyncHistory
  imports TradeNormalizers TimeRange PnlSeries "HOL-Library.AList"
begin

text \<open>
  \<open>src/src/bin/sync_history.rs\<close>: one synchronisation of the history of a strategy.  What an exchange client answers is a
  function of the method called, the symbol and the range.  The tables of the strategy's schema are lists of entries by key
  (the \<open>generic\<close> storage; the older storages differ in the columns only); a commit is one transaction, so that an error leaves
  the store as it was.  A batch of an \<open>INSERT ... ON CONFLICT DO UPDATE\<close> that names a key twice is an error in PostgreSQL.
  Printing is not modelled.
\<close>

section \<open>Strategies\<close>

datatype strategy_class = FrClass | IntraClass | MmClass

record strategy =
  sg_slug :: string
  sg_schema :: string
  sg_exchange :: string
  sg_account_mode :: string
  sg_strategy_kind :: string
  sg_class :: strategy_class
  sg_st_ms :: int

definition is_rapidx :: "strategy \<Rightarrow> bool" where
  "is_rapidx s \<longleftrightarrow> sg_account_mode s = ''rapidx''"

definition include_spot_trades :: "strategy \<Rightarrow> bool \<Rightarrow> bool" where
  "include_spot_trades s derivatives_only \<longleftrightarrow>
     \<not> derivatives_only \<and> (sg_class s \<noteq> MmClass \<or> is_rapidx s \<and> sg_strategy_kind s = ''cta'')"

definition supports :: "strategy \<Rightarrow> dataset \<Rightarrow> bool" where
  "supports s data =
     (if is_rapidx s then data \<in> {AllData, Trades, FundingData, InterestData}
      else (case data of
          AllData \<Rightarrow> True | Trades \<Rightarrow> True | FundingData \<Rightarrow> True
        | InterestData \<Rightarrow> sg_class s \<noteq> MmClass
        | Rebates \<Rightarrow> sg_exchange s = ''binance'' \<and> sg_class s = IntraClass
        | Liquidations \<Rightarrow> sg_exchange s \<in> {''binance'', ''gate''} \<and> sg_class s = FrClass))"

definition selected_datasets :: "dataset \<Rightarrow> dataset list" where
  "selected_datasets data =
     (if data = AllData then [Trades, FundingData, InterestData, Rebates, Liquidations] else [data])"

record strategy_env_row =
  er_db_schema :: string
  er_exchange :: string
  er_account_mode :: string
  er_strategy_kind :: string
  er_st_ms :: int

definition load_strategy :: "(string \<rightharpoonup> strategy_env_row) \<Rightarrow> string \<Rightarrow> string + strategy" where
  "load_strategy envs slug =
     bind_res (ok_or (''strategy not found: '' @ slug) (envs slug)) (\<lambda>row.
     if \<not> valid_schema (er_db_schema row) then Inl (''invalid PostgreSQL schema for '' @ slug)
     else bind_res
       (if er_strategy_kind row = ''funding_rate'' then Inr FrClass
        else if er_strategy_kind row = ''intra_exchange'' then Inr IntraClass
        else if er_strategy_kind row \<in> {''market_making'', ''cta''} then Inr MmClass
        else Inl (''unsupported strategy kind for '' @ slug)) (\<lambda>cls.
       Inr \<lparr>sg_slug = slug, sg_schema = er_db_schema row, sg_exchange = to_ascii_lowercase (er_exchange row),
         sg_account_mode = er_account_mode row, sg_strategy_kind = er_strategy_kind row, sg_class = cls, sg_st_ms = er_st_ms row\<rparr>))"

definition scan_start :: "int \<Rightarrow> int option \<Rightarrow> int option \<Rightarrow> bool \<Rightarrow> int option \<Rightarrow> int \<Rightarrow> string + int" where
  "scan_start st_ms watermark latest_ms full requested_start_ms overlap_ms =
     (case requested_start_ms of
        Some start_ms \<Rightarrow> Inr start_ms
      | None \<Rightarrow>
          if full then Inr st_ms
          else (case (case watermark of Some w \<Rightarrow> Some w | None \<Rightarrow> latest_ms) of
              Some cursor \<Rightarrow> Inr (max (saturating_sub_i64 cursor overlap_ms) st_ms)
            | None \<Rightarrow> Inl ''no successful scan watermark or stored rows; run once with --full''))"

section \<open>Exchange clients\<close>

datatype client_kind = BinanceClient | BybitClient | GateClient | BitgetClient | OkxClient | LtpClient

datatype api_error = ApiCode string | OtherApiError string

text \<open>\<open>cl_call method symbol range\<close> is what the client answers; \<open>cl_contract\<close> is Gate's lookup of one contract.\<close>

record exchange_client =
  cl_kind :: client_kind
  cl_call :: "string \<Rightarrow> string \<Rightarrow> time_range \<Rightarrow> api_error + json list"
  cl_contracts :: "api_error + json list"
  cl_contract :: "string \<Rightarrow> api_error + json"

definition api_context :: "string \<Rightarrow> api_error + 'a \<Rightarrow> string + 'a" where
  "api_context what r = (case r of Inl _ \<Rightarrow> Inl what | Inr x \<Rightarrow> Inr x)"

text \<open>A symbol that the exchange does not know (any more) is skipped.\<close>

definition append_binance_trades :: "(leg \<times> json) list \<Rightarrow> leg \<Rightarrow> string \<Rightarrow> api_error + json list \<Rightarrow> string + (leg \<times> json) list" where
  "append_binance_trades output lg symbol result =
     (case result of
        Inr rows \<Rightarrow> Inr (output @ map (Pair lg) rows)
      | Inl (ApiCode code) \<Rightarrow> if code = ''-1121'' then Inr output else Inl (''fetch Binance '' @ symbol)
      | Inl (OtherApiError _) \<Rightarrow> Inl (''fetch Binance '' @ symbol))"

definition fetch_binance_symbol :: "exchange_client \<Rightarrow> bool \<Rightarrow> bool \<Rightarrow> time_range \<Rightarrow> string \<Rightarrow> (leg \<times> json) list \<Rightarrow> string + (leg \<times> json) list" where
  "fetch_binance_symbol client portfolio_margin include_spot r symbol rows =
     bind_res (if include_spot
         then append_binance_trades rows SpotTrade symbol
           (cl_call client (if portfolio_margin then ''margin_trades'' else ''spot_trades'') symbol r)
         else Inr rows) (\<lambda>rows.
       append_binance_trades rows Derivative symbol
         (cl_call client (if portfolio_margin then ''um_trades'' else ''user_trades'') symbol r))"

definition fetch_two_legs :: "exchange_client \<Rightarrow> bool \<Rightarrow> time_range \<Rightarrow> string \<Rightarrow> string \<Rightarrow> string + (leg \<times> json) list" where
  "fetch_two_legs client include_spot r spot_method derivative_method =
     bind_res (if include_spot then api_context spot_method (cl_call client spot_method [] r) else Inr []) (\<lambda>spot.
     bind_res (api_context derivative_method (cl_call client derivative_method [] r)) (\<lambda>derivatives.
       Inr (map (Pair SpotTrade) spot @ map (Pair Derivative) derivatives)))"

definition ltp_execution :: "(f64 \<Rightarrow> string) \<Rightarrow> bool \<Rightarrow> string set \<Rightarrow> json \<Rightarrow> (leg \<times> json) list \<Rightarrow> string + (leg \<times> json) list" where
  "ltp_execution ft include_spot wanted v rows =
     (let business = to_ascii_uppercase (or_text (opt_text ft v [''businessType'']) [])
      in bind_res (if business \<in> {''SPOT'', ''MARGIN''} then Inr (SpotTrade, include_spot)
           else if business = ''PERP'' then Inr (Derivative, True)
           else Inl (''unsupported LTP execution businessType '' @ business)) (\<lambda>(lg, included).
         if \<not> included then Inr rows
         else if wanted = {} then Inr (rows @ [(lg, v)])
         else bind_res (ltp_symbol ft v) (\<lambda>symbol. Inr (if symbol \<in> wanted then rows @ [(lg, v)] else rows))))"

definition fetch_trades :: "(f64 \<Rightarrow> string) \<Rightarrow> exchange_client \<Rightarrow> strategy \<Rightarrow> string list \<Rightarrow> time_range \<Rightarrow> bool \<Rightarrow> string + (leg \<times> json) list" where
  "fetch_trades ft client s symbols r derivatives_only =
     (let include_spot = include_spot_trades s derivatives_only
      in case cl_kind client of
           BinanceClient \<Rightarrow>
             if symbols = [] then Inl ''Binance trade sync needs at least one --symbol or a stored symbol''
             else fold_res (fetch_binance_symbol client (sg_account_mode s = ''portfolio_margin'') include_spot r) symbols []
         | BybitClient \<Rightarrow> fetch_two_legs client include_spot r ''spot trades'' ''linear trades''
         | GateClient \<Rightarrow> fetch_two_legs client include_spot r ''spot_trades'' ''futures_trades''
         | BitgetClient \<Rightarrow> fetch_two_legs client include_spot r ''margin fills'' ''futures fills''
         | OkxClient \<Rightarrow> fetch_two_legs client include_spot r ''margin fills'' ''swap fills''
         | LtpClient \<Rightarrow> bind_res (api_context ''fetch LTP executions'' (cl_call client ''execution_history'' [] r)) (\<lambda>vs.
             fold_res (ltp_execution ft include_spot (set symbols)) vs []))"

definition funding_method :: "client_kind \<Rightarrow> string" where
  "funding_method k = (case k of LtpClient \<Rightarrow> ''statement_history FUNDING_FEE'' | _ \<Rightarrow> ''funding_fees'')"

definition interest_method :: "client_kind \<Rightarrow> string" where
  "interest_method k = (case k of BinanceClient \<Rightarrow> ''margin_interest_history'' | BybitClient \<Rightarrow> ''borrow_interest''
     | GateClient \<Rightarrow> ''interest_records'' | BitgetClient \<Rightarrow> ''margin_interest'' | OkxClient \<Rightarrow> ''interest_accrued''
     | LtpClient \<Rightarrow> ''statement_history DEDUCT_INTEREST'')"

definition fetch_funding :: "exchange_client \<Rightarrow> time_range \<Rightarrow> string + json list" where
  "fetch_funding client r = api_context ''fetch funding history'' (cl_call client (funding_method (cl_kind client)) [] r)"

definition fetch_interest :: "exchange_client \<Rightarrow> time_range \<Rightarrow> string + json list" where
  "fetch_interest client r = api_context ''fetch interest history'' (cl_call client (interest_method (cl_kind client)) [] r)"

definition fetch_rebates :: "exchange_client \<Rightarrow> time_range \<Rightarrow> string + json list" where
  "fetch_rebates client r =
     (if cl_kind client \<noteq> BinanceClient then Inl ''rebate history is only supported for Binance''
      else api_context ''fetch Binance wallet distributions'' (cl_call client ''asset_dividends'' [] r))"

definition fetch_liquidations :: "exchange_client \<Rightarrow> time_range \<Rightarrow> string + json list" where
  "fetch_liquidations client r =
     (case cl_kind client of
        BinanceClient \<Rightarrow> api_context ''fetch Binance liquidation history'' (cl_call client ''force_orders'' [] r)
      | GateClient \<Rightarrow> api_context ''fetch Gate liquidation history'' (cl_call client ''liquidation_history'' [] r)
      | _ \<Rightarrow> Inl ''liquidation history is currently only supported for Binance and Gate'')"

section \<open>Gate contract multipliers\<close>

definition gate_quanto_multiplier :: "(f64 \<Rightarrow> string) \<Rightarrow> json \<Rightarrow> string + f64" where
  "gate_quanto_multiplier ft row =
     bind_res (text_field ft row [''name'']) (\<lambda>name.
     bind_res (number_field ft row [''quanto_multiplier'']) (\<lambda>t.
     bind_res (ok_or ''parse Gate quanto_multiplier'' (parse_f64 t)) (\<lambda>multiplier.
       if \<not> is_finite multiplier \<or> multiplier \<le> 0 then Inl (''invalid Gate multiplier for '' @ name) else Inr multiplier)))"

definition load_gate_multipliers :: "(f64 \<Rightarrow> string) \<Rightarrow> exchange_client \<Rightarrow> string + (string \<rightharpoonup> f64)" where
  "load_gate_multipliers ft client =
     (if cl_kind client \<noteq> GateClient then Inr (\<lambda>_. None)
      else bind_res (api_context ''fetch Gate futures contract multipliers'' (cl_contracts client)) (\<lambda>contracts.
        fold_res (\<lambda>row values.
          bind_res (text_field ft row [''name'']) (\<lambda>name.
          bind_res (gate_quanto_multiplier ft row) (\<lambda>multiplier.
            Inr (values(to_ascii_uppercase name \<mapsto> multiplier))))) contracts (\<lambda>_. None)))"

text \<open>A \<open>BTreeSet\<close> of contracts is a sorted list.\<close>

definition gate_contract_names :: "(f64 \<Rightarrow> string) \<Rightarrow> json list \<Rightarrow> string list" where
  "gate_contract_names ft rows =
     sort (remdups (List.map_filter (\<lambda>v. map_option to_ascii_uppercase (opt_text ft v [''contract''])) rows))"

definition resolve_contract :: "(f64 \<Rightarrow> string) \<Rightarrow> exchange_client \<Rightarrow> string \<Rightarrow> string list \<times> (string \<rightharpoonup> f64) \<Rightarrow> string list \<times> (string \<rightharpoonup> f64)" where
  "resolve_contract ft client contract = (\<lambda>(unresolved, multipliers).
     if multipliers contract \<noteq> None then (unresolved, multipliers)
     else (case cl_contract client contract of
         Inl _ \<Rightarrow> (unresolved @ [contract], multipliers)
       | Inr row \<Rightarrow> (case gate_quanto_multiplier ft row of
             Inl _ \<Rightarrow> (unresolved @ [contract], multipliers)
           | Inr multiplier \<Rightarrow> (unresolved, multipliers(contract \<mapsto> multiplier)))))"

definition resolve_gate_multipliers :: "(f64 \<Rightarrow> string) \<Rightarrow> exchange_client \<Rightarrow> string list \<Rightarrow> (string \<rightharpoonup> f64) \<Rightarrow> string list \<times> (string \<rightharpoonup> f64)" where
  "resolve_gate_multipliers ft client contracts multipliers =
     (if cl_kind client \<noteq> GateClient then ([], multipliers)
      else fold (resolve_contract ft client) contracts ([], multipliers))"

definition on_unresolved :: "(f64 \<Rightarrow> string) \<Rightarrow> string list \<Rightarrow> json \<Rightarrow> bool" where
  "on_unresolved ft unresolved v \<longleftrightarrow>
     (case opt_text ft v [''contract''] of Some contract \<Rightarrow> to_ascii_uppercase contract \<in> set unresolved | None \<Rightarrow> False)"


section \<open>Rows of one scan\<close>

datatype fetched = TradeRows "trade_row list" | CashRows "cash_row list" | RebateRows "rebate_row list"
  | GateLiquidations "liquidation_row list" | BinanceLiquidations "binance_liquidation_row list"

definition trade_order :: "trade_row \<Rightarrow> int \<times> string \<times> string \<times> string" where
  "trade_order r = (ht_event_time_ms r, ht_market r, ht_symbol r, ht_trade_id r)"

definition scan_trades :: "(f64 \<Rightarrow> string) \<Rightarrow> exchange_client \<Rightarrow> strategy \<Rightarrow> string list \<Rightarrow> bool \<Rightarrow> time_range \<Rightarrow> string + fetched" where
  "scan_trades ft client s symbols derivatives_only r =
     bind_res (fetch_trades ft client s symbols r derivatives_only) (\<lambda>raw.
     bind_res (load_gate_multipliers ft client) (\<lambda>multipliers0.
       let contracts = gate_contract_names ft (map snd (filter (\<lambda>(lg, _). lg = Derivative) raw));
           (unresolved, multipliers) = (if sg_exchange s = ''gate'' then resolve_gate_multipliers ft client contracts multipliers0
             else ([], multipliers0));
           raw = filter (\<lambda>(lg, v). \<not> (lg = Derivative \<and> on_unresolved ft unresolved v)) raw
       in bind_res (map_res (\<lambda>(lg, v). normalize_trade ft (sg_exchange s) (sg_account_mode s) lg v multipliers) raw) (\<lambda>rows.
            Inr (TradeRows (sort_key trade_order rows)))))"

definition scan_cash :: "(f64 \<Rightarrow> string) \<Rightarrow> strategy \<Rightarrow> dataset \<Rightarrow> string + json list \<Rightarrow> string + fetched" where
  "scan_cash ft s data answer =
     bind_res answer (\<lambda>raw.
     bind_res (map_res (normalize_cash ft (sg_exchange s) (sg_account_mode s) data) raw) (\<lambda>rows. Inr (CashRows rows)))"

definition scan_rebates :: "(f64 \<Rightarrow> string) \<Rightarrow> exchange_client \<Rightarrow> time_range \<Rightarrow> string + fetched" where
  "scan_rebates ft client r =
     bind_res (fetch_rebates client r) (\<lambda>raw.
     bind_res (map_res (normalize_binance_rebate ft) raw) (\<lambda>rows. Inr (RebateRows (sort_key rb_event_time_ms rows))))"

definition scan_liquidations :: "(f64 \<Rightarrow> string) \<Rightarrow> exchange_client \<Rightarrow> strategy \<Rightarrow> time_range \<Rightarrow> string + fetched" where
  "scan_liquidations ft client s r =
     bind_res (fetch_liquidations client r) (\<lambda>raw.
       if sg_exchange s = ''gate''
       then bind_res (load_gate_multipliers ft client) (\<lambda>multipliers0.
         let (unresolved, multipliers) = resolve_gate_multipliers ft client (gate_contract_names ft raw) multipliers0
         in bind_res (map_res (\<lambda>v. normalize_gate_liquidation ft v multipliers) (filter (\<lambda>v. \<not> on_unresolved ft unresolved v) raw)) (\<lambda>rows.
              Inr (GateLiquidations (sort_key lq_event_time_ms rows))))
       else if sg_exchange s = ''binance''
       then bind_res (map_res (normalize_binance_liquidation ft) raw) (\<lambda>rows.
         Inr (BinanceLiquidations (sort_key bl_event_time_ms rows)))
       else Inl (''unsupported liquidation normalizer: '' @ sg_exchange s))"

definition scan_rows :: "(f64 \<Rightarrow> string) \<Rightarrow> exchange_client \<Rightarrow> strategy \<Rightarrow> dataset \<Rightarrow> string list \<Rightarrow> bool \<Rightarrow> time_range \<Rightarrow> string + fetched" where
  "scan_rows ft client s data symbols derivatives_only r =
     (case data of
        Trades \<Rightarrow> scan_trades ft client s symbols derivatives_only r
      | FundingData \<Rightarrow> scan_cash ft s FundingData (fetch_funding client r)
      | InterestData \<Rightarrow> scan_cash ft s InterestData (fetch_interest client r)
      | Rebates \<Rightarrow> scan_rebates ft client r
      | Liquidations \<Rightarrow> scan_liquidations ft client s r
      | AllData \<Rightarrow> Inl ''unreachable'')"

section \<open>The store\<close>

text \<open>A stored trade carries the fee in USDT when that is the fee's asset, a stored cash row its amount in USDT.\<close>

record store =
  sr_trades :: "((string \<times> string \<times> string) \<times> (trade_row \<times> string option)) list"
  sr_cash :: "dataset \<Rightarrow> (string \<times> (cash_row \<times> string option)) list"
  sr_rebates :: "(string \<times> (rebate_row \<times> string option)) list"
  sr_gate_liquidations :: "((string \<times> string \<times> int) \<times> liquidation_row) list"
  sr_binance_liquidations :: "((string \<times> string \<times> int) \<times> binance_liquidation_row) list"
  sr_watermarks :: "dataset \<Rightarrow> int option"

definition batch_size :: nat where
  "batch_size = 1000"

definition upsert_batch :: "('k \<times> 'v) list \<Rightarrow> ('k \<times> 'v) list \<Rightarrow> string + ('k \<times> 'v) list" where
  "upsert_batch entries table =
     (if \<not> distinct (map fst entries) then Inl ''ON CONFLICT DO UPDATE command cannot affect row a second time''
      else Inr (fold (\<lambda>(k, v). AList.update k v) entries table))"

definition upsert :: "('k \<times> 'v) list \<Rightarrow> ('k \<times> 'v) list \<Rightarrow> string + ('k \<times> 'v) list" where
  "upsert entries table = fold_res upsert_batch (chunks batch_size entries) table"

definition trade_entry :: "trade_row \<Rightarrow> (string \<times> string \<times> string) \<times> (trade_row \<times> string option)" where
  "trade_entry r = ((ht_market r, ht_symbol r, ht_trade_id r),
     (r, if eq_ignore_ascii_case (ht_fee_asset r) ''USDT'' then Some (ht_fee_amount r) else None))"

definition cash_entry :: "cash_row \<Rightarrow> string \<times> (cash_row \<times> string option)" where
  "cash_entry r = (cr_record_id r, (r, if eq_ignore_ascii_case (cr_asset r) ''USDT'' then Some (cr_amount r) else None))"

definition rebate_entry :: "rebate_row \<Rightarrow> string \<times> (rebate_row \<times> string option)" where
  "rebate_entry r = (rb_record_id r, (r, if rb_asset r \<in> {''USD'', ''USDC'', ''USDT''} then Some (rb_amount r) else None))"

definition gate_liquidation_entry :: "liquidation_row \<Rightarrow> (string \<times> string \<times> int) \<times> liquidation_row" where
  "gate_liquidation_entry r = ((lq_symbol r, lq_order_id r, lq_event_time_ms r), r)"

definition binance_liquidation_entry :: "binance_liquidation_row \<Rightarrow> (string \<times> string \<times> int) \<times> binance_liquidation_row" where
  "binance_liquidation_entry r = ((bl_symbol r, bl_order_id r, bl_event_time_ms r), r)"

definition advance_watermark :: "dataset \<Rightarrow> int \<Rightarrow> store \<Rightarrow> store" where
  "advance_watermark data end_ms st =
     st\<lparr>sr_watermarks := (sr_watermarks st)(data \<mapsto> (case sr_watermarks st data of None \<Rightarrow> end_ms | Some w \<Rightarrow> max w end_ms))\<rparr>"

definition commit_rows :: "dataset \<Rightarrow> fetched \<Rightarrow> int \<Rightarrow> bool \<Rightarrow> store \<Rightarrow> string + store" where
  "commit_rows data rows end_ms update_watermark st =
     bind_res (case rows of
         TradeRows rs \<Rightarrow> bind_res (upsert (map trade_entry rs) (sr_trades st)) (\<lambda>t. Inr (st\<lparr>sr_trades := t\<rparr>))
       | CashRows rs \<Rightarrow> bind_res (upsert (map cash_entry rs) (sr_cash st data)) (\<lambda>t. Inr (st\<lparr>sr_cash := (sr_cash st)(data := t)\<rparr>))
       | RebateRows rs \<Rightarrow> bind_res (upsert (map rebate_entry rs) (sr_rebates st)) (\<lambda>t. Inr (st\<lparr>sr_rebates := t\<rparr>))
       | GateLiquidations rs \<Rightarrow> bind_res (upsert (map gate_liquidation_entry rs) (sr_gate_liquidations st))
           (\<lambda>t. Inr (st\<lparr>sr_gate_liquidations := t\<rparr>))
       | BinanceLiquidations rs \<Rightarrow> bind_res (upsert (map binance_liquidation_entry rs) (sr_binance_liquidations st))
           (\<lambda>t. Inr (st\<lparr>sr_binance_liquidations := t\<rparr>)))
       (\<lambda>st. Inr (if update_watermark then advance_watermark data end_ms st else st))"

text \<open>The times of the stored rows of a dataset; a strategy has the liquidations table of its own exchange.\<close>

definition stored_times :: "strategy \<Rightarrow> dataset \<Rightarrow> store \<Rightarrow> int list" where
  "stored_times s data st =
     (case data of
        Trades \<Rightarrow> map (ht_event_time_ms \<circ> fst \<circ> snd) (sr_trades st)
      | FundingData \<Rightarrow> map (cr_event_time_ms \<circ> fst \<circ> snd) (sr_cash st FundingData)
      | InterestData \<Rightarrow> map (cr_event_time_ms \<circ> fst \<circ> snd) (sr_cash st InterestData)
      | Rebates \<Rightarrow> map (rb_event_time_ms \<circ> fst \<circ> snd) (sr_rebates st)
      | Liquidations \<Rightarrow> (if sg_exchange s = ''gate'' then map (lq_event_time_ms \<circ> snd) (sr_gate_liquidations st)
          else map (bl_event_time_ms \<circ> snd) (sr_binance_liquidations st))
      | AllData \<Rightarrow> [])"

definition latest_dataset_time :: "strategy \<Rightarrow> dataset \<Rightarrow> store \<Rightarrow> int option" where
  "latest_dataset_time s data st = (case stored_times s data st of [] \<Rightarrow> None | t # ts \<Rightarrow> Some (fold max ts t))"

section \<open>Synchronising\<close>

record sync_args =
  sa_dataset :: dataset
  sa_full :: bool
  sa_start_ms :: "int option"
  sa_overlap_minutes :: int
  sa_end_ms :: int
  sa_symbols :: "string list"
  sa_no_advance_watermark :: bool
  sa_derivatives_only :: bool

definition load_trade_symbols :: "strategy \<Rightarrow> string list \<Rightarrow> string list \<Rightarrow> string + string list" where
  "load_trade_symbols s requested stored =
     (if sg_exchange s \<noteq> ''binance'' then Inr []
      else let wanted = filter (\<lambda>v. v \<noteq> []) (map plain_symbol requested) in
        if is_rapidx s then Inr wanted
        else let symbols = sort (remdups (if wanted = [] then map plain_symbol stored else wanted))
          in if symbols = [] then Inl (sg_slug s @ '' has no stored Binance symbols'') else Inr symbols)"

definition scan_range :: "strategy \<Rightarrow> dataset \<Rightarrow> sync_args \<Rightarrow> int \<Rightarrow> store \<Rightarrow> string + int" where
  "scan_range s data args overlap_ms st =
     scan_start (sg_st_ms s) (sr_watermarks st data) (latest_dataset_time s data st) (sa_full args) (sa_start_ms args) overlap_ms"

text \<open>\<open>stored_symbols\<close> are the symbols found in the tables of the schema; only Binance trades are fetched by symbol.\<close>

definition sync_dataset :: "(f64 \<Rightarrow> string) \<Rightarrow> exchange_client \<Rightarrow> strategy \<Rightarrow> (store \<Rightarrow> string list) \<Rightarrow> sync_args \<Rightarrow> int \<Rightarrow> dataset \<Rightarrow>
    store \<Rightarrow> string + store" where
  "sync_dataset ft client s stored_symbols args overlap_ms data st =
     bind_res (scan_range s data args overlap_ms st) (\<lambda>start_ms.
     if sa_end_ms args < start_ms then Inr st
     else bind_res (time_range_new start_ms (sa_end_ms args)) (\<lambda>r.
       bind_res (if data = Trades then load_trade_symbols s (sa_symbols args) (stored_symbols st) else Inr []) (\<lambda>symbols.
       bind_res (scan_rows ft client s data symbols (sa_derivatives_only args) r) (\<lambda>rows.
         commit_rows data rows (sa_end_ms args) (\<not> sa_no_advance_watermark args) st))))"

text \<open>The datasets of a run in their order: one that fails ends the run, what was committed before it stays.\<close>

fun sync_datasets :: "(dataset \<Rightarrow> store \<Rightarrow> string + store) \<Rightarrow> (dataset \<Rightarrow> bool) \<Rightarrow> dataset \<Rightarrow> dataset list \<Rightarrow> store \<Rightarrow> store \<times> string option" where
  "sync_datasets sync supported requested [] st = (st, None)"
| "sync_datasets sync supported requested (d # ds) st =
     (if \<not> supported d
      then (if requested = d then (st, Some (''does not support the '' @ dataset_name d @ '' dataset''))
            else sync_datasets sync supported requested ds st)
      else (case sync d st of
          Inl e \<Rightarrow> (st, Some e)
        | Inr st' \<Rightarrow> sync_datasets sync supported requested ds st'))"

definition sync_strategy :: "(f64 \<Rightarrow> string) \<Rightarrow> exchange_client \<Rightarrow> strategy \<Rightarrow> (store \<Rightarrow> string list) \<Rightarrow> sync_args \<Rightarrow> store \<Rightarrow> store \<times> string option" where
  "sync_strategy ft client s stored_symbols args st =
     (let overlap_ms = sa_overlap_minutes args * 60000
      in if \<not> is_i64 overlap_ms then (st, Some ''overlap minutes overflow'')
         else if sa_end_ms args < sg_st_ms s then (st, Some ''end_ms is earlier than st_ms'')
         else if (case sa_start_ms args of Some start_ms \<Rightarrow> start_ms < sg_st_ms s | None \<Rightarrow> False) then (st, Some ''start_ms is earlier than st_ms'')
         else if (case sa_start_ms args of Some start_ms \<Rightarrow> sa_end_ms args < start_ms | None \<Rightarrow> False) then (st, Some ''start_ms is later than end_ms'')
         else sync_datasets (sync_dataset ft client s stored_symbols args overlap_ms) (supports s) (sa_dataset args)
           (selected_datasets (sa_dataset args)) st)"

section \<open>What the watermark promises\<close>

definition fetched_times :: "fetched \<Rightarrow> int list" where
  "fetched_times rows =
     (case rows of
        TradeRows rs \<Rightarrow> map ht_event_time_ms rs
      | CashRows rs \<Rightarrow> map cr_event_time_ms rs
      | RebateRows rs \<Rightarrow> map rb_event_time_ms rs
      | GateLiquidations rs \<Rightarrow> map lq_event_time_ms rs
      | BinanceLiquidations rs \<Rightarrow> map bl_event_time_ms rs)"

fun of_dataset :: "dataset \<Rightarrow> fetched \<Rightarrow> bool" where
  "of_dataset data (TradeRows _) \<longleftrightarrow> data = Trades"
| "of_dataset data (CashRows _) \<longleftrightarrow> data \<in> {FundingData, InterestData}"
| "of_dataset data (RebateRows _) \<longleftrightarrow> data = Rebates"
| "of_dataset data (GateLiquidations _) \<longleftrightarrow> data = Liquidations"
| "of_dataset data (BinanceLiquidations _) \<longleftrightarrow> data = Liquidations"

lemma scan_rows_dataset: "scan_rows ft client s data symbols derivatives_only r = Inr rows \<Longrightarrow> of_dataset data rows"
  by (cases data) (auto simp: scan_rows_def scan_trades_def scan_cash_def scan_rebates_def scan_liquidations_def bind_res_Inr Let_def
      split_beta split: if_splits)

lemma upsert_batch_map_of: "upsert_batch es t = Inr t' \<Longrightarrow> map_of t' = map_of t ++ map_of (rev es)"
proof -
  have "map_of (fold (\<lambda>(k, v). AList.update k v) es t) = map_of t ++ map_of (rev es)" for t :: "('a \<times> 'b) list"
    by (induction es arbitrary: t) (auto simp: update_conv' map_add_def fun_eq_iff split: option.splits)
  then show "upsert_batch es t = Inr t' \<Longrightarrow> map_of t' = map_of t ++ map_of (rev es)"
    by (auto simp: upsert_batch_def split: if_splits)
qed

definition entry_values :: "('k \<times> 'v) list \<Rightarrow> 'v set" where
  "entry_values t = snd ` set t"

lemma entry_values_simps [simp]: "entry_values [] = {}" "entry_values (e # es) = insert (snd e) (entry_values es)"
  "entry_values (xs @ ys) = entry_values xs \<union> entry_values ys"
  by (auto simp: entry_values_def)

lemma update_values: "entry_values (AList.update k v t) \<subseteq> insert v (entry_values t)"
  by (induction t) auto

lemma upsert_batch_values: "upsert_batch es t = Inr t' \<Longrightarrow> entry_values t' \<subseteq> entry_values t \<union> entry_values es"
proof -
  have "entry_values (fold (\<lambda>(k, v). AList.update k v) es t) \<subseteq> entry_values t \<union> entry_values es" for t :: "('a \<times> 'b) list"
  proof (induction es arbitrary: t)
    case (Cons e es)
    have "entry_values (AList.update (fst e) (snd e) t) \<subseteq> insert (snd e) (entry_values t)" by (rule update_values)
    then show ?case using Cons.IH [of "AList.update (fst e) (snd e) t"] by (simp add: split_beta) blast
  qed simp
  then show "upsert_batch es t = Inr t' \<Longrightarrow> entry_values t' \<subseteq> entry_values t \<union> entry_values es"
    by (auto simp: upsert_batch_def split: if_splits)
qed

lemma concat_chunks: "0 < n \<Longrightarrow> concat (chunks n xs) = xs"
  by (induction n xs rule: chunks.induct) (subst chunks.simps, auto)

text \<open>An upsert leaves the table with the new entries, the last of a key, over the old ones.\<close>

lemma upsert_map_of:
  assumes "upsert entries t = Inr t'"
  shows "map_of t' = map_of t ++ map_of (rev entries)" and "entry_values t' \<subseteq> entry_values t \<union> entry_values entries"
proof -
  have "map_of t' = map_of t ++ map_of (rev (concat bs)) \<and> entry_values t' \<subseteq> entry_values t \<union> entry_values (concat bs)"
    if "fold_res upsert_batch bs t = Inr t'" for bs
    using that
  proof (induction bs arbitrary: t)
    case (Cons b bs)
    then obtain t1 where t1: "upsert_batch b t = Inr t1" "fold_res upsert_batch bs t1 = Inr t'" by (auto simp: bind_res_Inr)
    have "map_of t' = map_of t ++ map_of (rev (concat (b # bs)))"
      using Cons.IH [OF t1(2)] upsert_batch_map_of [OF t1(1)] by (simp add: map_add_assoc)
    moreover have "entry_values t' \<subseteq> entry_values t \<union> entry_values (concat (b # bs))"
      using Cons.IH [OF t1(2)] upsert_batch_values [OF t1(1)] by (simp add: Un_assoc) blast
    ultimately show ?case ..
  qed simp
  from this [of "chunks batch_size entries"] assms
  show "map_of t' = map_of t ++ map_of (rev entries)" "entry_values t' \<subseteq> entry_values t \<union> entry_values entries"
    by (simp_all add: upsert_def concat_chunks batch_size_def)
qed

lemma advance_stored [simp]: "stored_times s d (advance_watermark data e st) = stored_times s d st"
  by (simp add: stored_times_def advance_watermark_def split: dataset.splits)

lemma times_subset:
  assumes "upsert (map f rs) t = Inr t'" "\<And>r. g (snd (f r)) = h r"
  shows "set (map (g \<circ> snd) t') \<subseteq> set (map (g \<circ> snd) t) \<union> set (map h rs)"
proof -
  have "g ` entry_values t' \<subseteq> g ` (entry_values t \<union> entry_values (map f rs))" using upsert_map_of(2) [OF assms(1)] by (rule image_mono)
  moreover have "g ` entry_values (map f rs) = h ` set rs" using assms(2) by (auto simp: entry_values_def image_iff)
  ultimately show ?thesis by (simp add: image_Un) (simp add: entry_values_def image_comp comp_def)
qed

lemma commit_times:
  assumes "commit_rows data rows e adv st = Inr st'" "of_dataset data rows"
  shows "set (stored_times s data st') \<subseteq> set (stored_times s data st) \<union> set (fetched_times rows)"
    and "d \<noteq> data \<Longrightarrow> stored_times s d st' = stored_times s d st"
    and "sr_watermarks st' = (if adv then (sr_watermarks st)(data \<mapsto> (case sr_watermarks st data of None \<Rightarrow> e | Some w \<Rightarrow> max w e)) else sr_watermarks st)"
proof -
  obtain st1 where st1: "(case rows of
         TradeRows rs \<Rightarrow> bind_res (upsert (map trade_entry rs) (sr_trades st)) (\<lambda>t. Inr (st\<lparr>sr_trades := t\<rparr>))
       | CashRows rs \<Rightarrow> bind_res (upsert (map cash_entry rs) (sr_cash st data)) (\<lambda>t. Inr (st\<lparr>sr_cash := (sr_cash st)(data := t)\<rparr>))
       | RebateRows rs \<Rightarrow> bind_res (upsert (map rebate_entry rs) (sr_rebates st)) (\<lambda>t. Inr (st\<lparr>sr_rebates := t\<rparr>))
       | GateLiquidations rs \<Rightarrow> bind_res (upsert (map gate_liquidation_entry rs) (sr_gate_liquidations st))
           (\<lambda>t. Inr (st\<lparr>sr_gate_liquidations := t\<rparr>))
       | BinanceLiquidations rs \<Rightarrow> bind_res (upsert (map binance_liquidation_entry rs) (sr_binance_liquidations st))
           (\<lambda>t. Inr (st\<lparr>sr_binance_liquidations := t\<rparr>))) = Inr st1"
    and st': "st' = (if adv then advance_watermark data e st1 else st1)"
    using assms(1) by (auto simp: commit_rows_def bind_res_Inr)
  have st1_times: "set (stored_times s data st1) \<subseteq> set (stored_times s data st) \<union> set (fetched_times rows) \<and>
    (d \<noteq> data \<longrightarrow> stored_times s d st1 = stored_times s d st) \<and> sr_watermarks st1 = sr_watermarks st"
  proof (cases rows)
    case (TradeRows rs)
    then obtain t where "upsert (map trade_entry rs) (sr_trades st) = Inr t" "st1 = st\<lparr>sr_trades := t\<rparr>" "data = Trades"
      using st1 assms(2) by (auto simp: bind_res_Inr)
    then show ?thesis using TradeRows times_subset [of trade_entry rs "sr_trades st" t "ht_event_time_ms \<circ> fst" ht_event_time_ms]
      by (cases d) (auto simp: stored_times_def fetched_times_def trade_entry_def comp_assoc)
  next
    case (CashRows rs)
    then obtain t where "upsert (map cash_entry rs) (sr_cash st data) = Inr t" "st1 = st\<lparr>sr_cash := (sr_cash st)(data := t)\<rparr>"
      "data = FundingData \<or> data = InterestData"
      using st1 assms(2) by (auto simp: bind_res_Inr)
    then show ?thesis using CashRows times_subset [of cash_entry rs "sr_cash st data" t "cr_event_time_ms \<circ> fst" cr_event_time_ms]
      by (elim disjE; cases d) (simp_all add: stored_times_def fetched_times_def cash_entry_def comp_assoc)
  next
    case (RebateRows rs)
    then obtain t where "upsert (map rebate_entry rs) (sr_rebates st) = Inr t" "st1 = st\<lparr>sr_rebates := t\<rparr>" "data = Rebates"
      using st1 assms(2) by (auto simp: bind_res_Inr)
    then show ?thesis using RebateRows times_subset [of rebate_entry rs "sr_rebates st" t "rb_event_time_ms \<circ> fst" rb_event_time_ms]
      by (cases d) (auto simp: stored_times_def fetched_times_def rebate_entry_def comp_assoc)
  next
    case (GateLiquidations rs)
    then obtain t where "upsert (map gate_liquidation_entry rs) (sr_gate_liquidations st) = Inr t" "st1 = st\<lparr>sr_gate_liquidations := t\<rparr>"
      "data = Liquidations"
      using st1 assms(2) by (auto simp: bind_res_Inr)
    then show ?thesis
      using GateLiquidations times_subset [of gate_liquidation_entry rs "sr_gate_liquidations st" t lq_event_time_ms lq_event_time_ms]
      by (cases d) (auto simp: stored_times_def fetched_times_def gate_liquidation_entry_def)
  next
    case (BinanceLiquidations rs)
    then obtain t where "upsert (map binance_liquidation_entry rs) (sr_binance_liquidations st) = Inr t"
      "st1 = st\<lparr>sr_binance_liquidations := t\<rparr>" "data = Liquidations"
      using st1 assms(2) by (auto simp: bind_res_Inr)
    then show ?thesis
      using BinanceLiquidations times_subset [of binance_liquidation_entry rs "sr_binance_liquidations st" t bl_event_time_ms bl_event_time_ms]
      by (cases d) (auto simp: stored_times_def fetched_times_def binance_liquidation_entry_def)
  qed
  then show "set (stored_times s data st') \<subseteq> set (stored_times s data st) \<union> set (fetched_times rows)"
    "d \<noteq> data \<Longrightarrow> stored_times s d st' = stored_times s d st"
    "sr_watermarks st' = (if adv then (sr_watermarks st)(data \<mapsto> (case sr_watermarks st data of None \<Rightarrow> e | Some w \<Rightarrow> max w e)) else sr_watermarks st)"
    by (simp_all add: st') (simp add: advance_watermark_def)
qed

text \<open>What the exchanges document: a scan of a range returns rows of that range only.\<close>

definition answers_in_range :: "(f64 \<Rightarrow> string) \<Rightarrow> exchange_client \<Rightarrow> strategy \<Rightarrow> bool" where
  "answers_in_range ft client s \<longleftrightarrow>
     (\<forall>data symbols derivatives_only r rows. scan_rows ft client s data symbols derivatives_only r = Inr rows \<longrightarrow>
        (\<forall>t \<in> set (fetched_times rows). rg_start_ms r \<le> t \<and> t \<le> rg_end_ms r))"

definition empty_store :: store where
  "empty_store = \<lparr>sr_trades = [], sr_cash = (\<lambda>_. []), sr_rebates = [], sr_gate_liquidations = [], sr_binance_liquidations = [],
     sr_watermarks = (\<lambda>_. None)\<rparr>"

text \<open>The states that runs lead to, with the instants that were scanned for each dataset.  The exchange may answer each run
  differently.  A run may ask for a start of its own as long as the history before it was scanned; a run that fails commits
  nothing.\<close>

inductive synced :: "(f64 \<Rightarrow> string) \<Rightarrow> strategy \<Rightarrow> store \<Rightarrow> (dataset \<Rightarrow> int set) \<Rightarrow> bool" for ft s where
  Fresh: "synced ft s empty_store (\<lambda>_. {})"
| Scan: "synced ft s st scanned \<Longrightarrow> answers_in_range ft client s \<Longrightarrow> 0 \<le> overlap_ms \<Longrightarrow>
    (\<And>t. sa_start_ms args = Some t \<Longrightarrow> {sg_st_ms s..<t} \<subseteq> scanned data) \<Longrightarrow>
    scan_range s data args overlap_ms st = Inr start_ms \<Longrightarrow>
    sync_dataset ft client s stored_symbols args overlap_ms data st = Inr st' \<Longrightarrow>
    synced ft s st' (scanned(data := scanned data \<union> {start_ms..sa_end_ms args}))"

definition covered :: "strategy \<Rightarrow> store \<Rightarrow> (dataset \<Rightarrow> int set) \<Rightarrow> bool" where
  "covered s st scanned \<longleftrightarrow>
     (\<forall>data w. sr_watermarks st data = Some w \<longrightarrow> {sg_st_ms s..w} \<subseteq> scanned data) \<and>
     (\<forall>data. \<forall>t \<in> set (stored_times s data st). {sg_st_ms s..t} \<subseteq> scanned data)"

lemma covered_mono: "covered s st scanned \<Longrightarrow> (\<And>d. scanned d \<subseteq> scanned' d) \<Longrightarrow> covered s st scanned'"
  unfolding covered_def by (meson order_trans)

lemma latest_in: "latest_dataset_time s data st = Some t \<Longrightarrow> t \<in> set (stored_times s data st)"
proof -
  have "fold max ts x \<in> insert x (set ts)" for ts and x :: int
    by (induction ts arbitrary: x) (auto simp: max_def)
  then show "latest_dataset_time s data st = Some t \<Longrightarrow> t \<in> set (stored_times s data st)"
    by (auto simp: latest_dataset_time_def split: list.splits)
qed

text \<open>A scan starts where the scanned history ends, or before.\<close>

lemma scan_contiguous:
  assumes "covered s st scanned" "scan_range s data args overlap_ms st = Inr start_ms" "0 \<le> overlap_ms" "is_i64 (sg_st_ms s)"
    and "\<And>t. sa_start_ms args = Some t \<Longrightarrow> {sg_st_ms s..<t} \<subseteq> scanned data"
  shows "{sg_st_ms s..<start_ms} \<subseteq> scanned data"
proof (cases "sa_start_ms args")
  case (Some t)
  then show ?thesis using assms(2,5) by (simp add: scan_range_def scan_start_def)
next
  case None
  show ?thesis
  proof (cases "sa_full args")
    case True
    then have "start_ms = sg_st_ms s" using None assms(2) by (simp add: scan_range_def scan_start_def)
    then show ?thesis by simp
  next
    case False
    then obtain c where c: "start_ms = max (saturating_sub_i64 c overlap_ms) (sg_st_ms s)"
      "sr_watermarks st data = Some c \<or> latest_dataset_time s data st = Some c"
      using None assms(2) by (auto simp: scan_range_def scan_start_def split: option.splits)
    then have "{sg_st_ms s..c} \<subseteq> scanned data" using c(2) assms(1) latest_in [of s data st c] unfolding covered_def by metis
    moreover have "saturating_sub_i64 c overlap_ms \<le> max c i64_min" using assms(3)
      by (auto simp: saturating_sub_i64_def clamp_i64_def i64_min_def i64_max_def)
    then have "{sg_st_ms s..<start_ms} \<subseteq> {sg_st_ms s..c}" using c(1) assms(4) by (auto simp: is_i64_def)
    ultimately show ?thesis by blast
  qed
qed

lemma synced_covered: "synced ft s st scanned \<Longrightarrow> is_i64 (sg_st_ms s) \<Longrightarrow> covered s st scanned"
proof (induction rule: synced.induct)
  case Fresh
  then show ?case by (auto simp: covered_def empty_store_def stored_times_def split: dataset.splits)
next
  case (Scan st scanned client overlap_ms args data start_ms stored_symbols st')
  let ?e = "sa_end_ms args" and ?new = "scanned(data := scanned data \<union> {start_ms..sa_end_ms args})"
  have cov: "covered s st scanned" using Scan by blast
  have reach: "{sg_st_ms s..<start_ms} \<subseteq> scanned data" by (rule scan_contiguous [OF cov Scan(5,3) _ Scan(4)]) (use Scan in blast)+
  show ?case
  proof (cases "?e < start_ms")
    case True
    then have "st' = st" using Scan(5,6) by (simp add: sync_dataset_def)
    moreover have "covered s st ?new" by (rule covered_mono [OF cov]) simp
    ultimately show ?thesis by (simp only:)
  next
    case False
    obtain r symbols rows where r: "time_range_new start_ms ?e = Inr r"
      and rows: "scan_rows ft client s data symbols (sa_derivatives_only args) r = Inr rows"
      and com: "commit_rows data rows ?e (\<not> sa_no_advance_watermark args) st = Inr st'"
      using False Scan(5,6) by (auto simp: sync_dataset_def bind_res_Inr)
    have rr: "rg_start_ms r = start_ms" "rg_end_ms r = ?e" using r by (auto simp: time_range_new_def split: if_splits)
    have times: "\<forall>t \<in> set (fetched_times rows). start_ms \<le> t \<and> t \<le> ?e"
      using Scan(2) rows rr unfolding answers_in_range_def by metis
    note C = commit_times [OF com scan_rows_dataset [OF rows]]
    have upto: "{sg_st_ms s..t} \<subseteq> ?new data" if "t \<le> ?e" for t
    proof
      fix x assume "x \<in> {sg_st_ms s..t}"
      then show "x \<in> ?new data" using reach that by (cases "x < start_ms") auto
    qed
    have old: "scanned d \<subseteq> ?new d" for d by simp
    show ?thesis unfolding covered_def
    proof (intro conjI allI impI ballI)
      fix d w assume w: "sr_watermarks st' d = Some w"
      show "{sg_st_ms s..w} \<subseteq> ?new d"
      proof (cases "sr_watermarks st d = Some w")
        case True
        then show ?thesis using cov old unfolding covered_def by (meson order_trans)
      next
        case False
        then have "d = data" "w = ?e \<or> (\<exists>v. sr_watermarks st data = Some v \<and> w = max v ?e)"
          using w C(3) by (auto split: if_splits option.splits)
        then have "d = data" "w \<le> ?e" using False by (auto simp: max_def split: if_splits)
        then show ?thesis using upto by simp
      qed
    next
      fix d t assume t: "t \<in> set (stored_times s d st')"
      show "{sg_st_ms s..t} \<subseteq> ?new d"
      proof (cases "t \<in> set (stored_times s d st)")
        case True
        then show ?thesis using cov old unfolding covered_def by (meson order_trans)
      next
        case False
        then have "d = data" using t C(2) by metis
        then show ?thesis using t False C(1) times upto by blast
      qed
    qed
  qed
qed


definition quiet_client :: exchange_client where
  "quiet_client = \<lparr>cl_kind = BybitClient, cl_call = (\<lambda>_ _ _. Inr []), cl_contracts = Inr [], cl_contract = (\<lambda>_. Inl (ApiCode ''0''))\<rparr>"

definition sample_strategy :: strategy where
  "sample_strategy = \<lparr>sg_slug = ''fr'', sg_schema = ''fr'', sg_exchange = ''bybit'', sg_account_mode = ''unified'',
     sg_strategy_kind = ''funding_rate'', sg_class = FrClass, sg_st_ms = 10\<rparr>"

definition sample_args :: sync_args where
  "sample_args = \<lparr>sa_dataset = FundingData, sa_full = True, sa_start_ms = None, sa_overlap_minutes = 30, sa_end_ms = 100,
     sa_symbols = [], sa_no_advance_watermark = False, sa_derivatives_only = False\<rparr>"

lemma quiet_scan: "scan_rows ft quiet_client sample_strategy data symbols d r = Inr rows \<Longrightarrow> fetched_times rows = []"
  by (cases data) (auto simp: scan_rows_def scan_trades_def scan_cash_def scan_rebates_def scan_liquidations_def fetch_trades_def
      fetch_two_legs_def fetch_funding_def fetch_interest_def fetch_rebates_def fetch_liquidations_def api_context_def quiet_client_def
      load_gate_multipliers_def sample_strategy_def fetched_times_def bind_res_Inr split: if_splits)



section \<open>What the store holds\<close>

definition cash_row_ok :: "cash_row \<Rightarrow> bool" where
  "cash_row_ok row \<longleftrightarrow> numeric (cr_amount row) \<and> 0 < cr_event_time_ms row \<and> to_ascii_uppercase (cr_asset row) = cr_asset row"

definition store_ok :: "store \<Rightarrow> bool" where
  "store_ok st \<longleftrightarrow>
     (\<forall>v \<in> entry_values (sr_trades st). trade_row_ok (fst v) \<and>
        snd v = (if eq_ignore_ascii_case (ht_fee_asset (fst v)) ''USDT'' then Some (ht_fee_amount (fst v)) else None)) \<and>
     (\<forall>data. \<forall>v \<in> entry_values (sr_cash st data). cash_row_ok (fst v) \<and>
        snd v = (if eq_ignore_ascii_case (cr_asset (fst v)) ''USDT'' then Some (cr_amount (fst v)) else None))"

lemma cash_ok: "normalize_cash ft exchange account_mode data raw = Inr row \<Longrightarrow> cash_row_ok row"
proof (cases "account_mode = ''rapidx''")
  case True
  assume "normalize_cash ft exchange account_mode data raw = Inr row"
  then show ?thesis using True unfolding normalize_cash_def normalize_ltp_cash_def Let_def bind_res_Inr if_Inr
    by (auto simp: cash_row_ok_def numeric_def bind_res_Inr split: if_splits)
next
  case False
  assume "normalize_cash ft exchange account_mode data raw = Inr row"
  then show ?thesis unfolding normalize_cash_def if_not_P [OF False] Let_def bind_res_Inr split_beta if_Inr
    by (elim exE conjE) (auto simp: cash_row_ok_def numeric_def)
qed

fun rows_typed :: "fetched \<Rightarrow> bool" where
  "rows_typed (TradeRows rs) \<longleftrightarrow> (\<forall>r \<in> set rs. trade_row_ok r)"
| "rows_typed (CashRows rs) \<longleftrightarrow> (\<forall>r \<in> set rs. cash_row_ok r)"
| "rows_typed _ \<longleftrightarrow> True"

lemma normalize_trade_ok: "normalize_trade ft exchange account_mode lg raw multipliers = Inr row \<Longrightarrow> trade_row_ok row"
  using binance_trade_ok bybit_trade_ok gate_trade_ok bitget_trade_ok okx_trade_ok ltp_trade_ok
  by (auto simp: normalize_trade_def split: if_splits)

lemma scan_typed:
  assumes "scan_rows ft client s data symbols derivatives_only r = Inr rows"
  shows "rows_typed rows"
proof (cases rows)
  case (TradeRows rs)
  have data: "data = Trades" using scan_rows_dataset [OF assms] TradeRows by simp
  obtain raw ms rs0 where m: "map_res (\<lambda>(lg, v). normalize_trade ft (sg_exchange s) (sg_account_mode s) lg v ms) raw = Inr rs0"
    "rs = sort_key trade_order rs0"
    using assms TradeRows data by (auto simp: scan_rows_def scan_trades_def bind_res_Inr Let_def split_beta)
  have "trade_row_ok x" if "x \<in> set rs" for x
    using map_res_set [OF m(1)] m(2) that normalize_trade_ok by fastforce
  then show ?thesis using TradeRows by simp
next
  case (CashRows rs)
  then have "data = FundingData \<or> data = InterestData" using scan_rows_dataset [OF assms] by simp
  then obtain raw d where m: "map_res (normalize_cash ft (sg_exchange s) (sg_account_mode s) d) raw = Inr rs"
    using assms CashRows by (auto simp: scan_rows_def scan_cash_def bind_res_Inr)
  have "cash_row_ok x" if "x \<in> set rs" for x using map_res_set [OF m that] cash_ok by blast
  then show ?thesis using CashRows by simp
qed simp_all

lemma entry_values_map [simp]: "entry_values (map f rs) = (\<lambda>r. snd (f r)) ` set rs"
  by (auto simp: entry_values_def image_iff)

lemma commit_store_ok:
  assumes "commit_rows data rows e adv st = Inr st'" "rows_typed rows" "store_ok st"
  shows "store_ok st'"
proof -
  have adv: "store_ok (advance_watermark data e x) = store_ok x" for x
    by (simp add: store_ok_def advance_watermark_def)
  show ?thesis
  proof (cases rows)
    case (TradeRows rs)
    then obtain t where t: "upsert (map trade_entry rs) (sr_trades st) = Inr t"
      "st' = (let x = st\<lparr>sr_trades := t\<rparr> in if adv then advance_watermark data e x else x)"
      using assms(1) by (auto simp: commit_rows_def bind_res_Inr)
    have "store_ok (st\<lparr>sr_trades := t\<rparr>)" using upsert_map_of(2) [OF t(1)] assms(2,3) TradeRows
      by (fastforce simp: store_ok_def trade_entry_def)
    then show ?thesis using t(2) adv by (simp add: Let_def)
  next
    case (CashRows rs)
    then obtain t where t: "upsert (map cash_entry rs) (sr_cash st data) = Inr t"
      "st' = (let x = st\<lparr>sr_cash := (sr_cash st)(data := t)\<rparr> in if adv then advance_watermark data e x else x)"
      using assms(1) by (auto simp: commit_rows_def bind_res_Inr)
    have "store_ok (st\<lparr>sr_cash := (sr_cash st)(data := t)\<rparr>)" using upsert_map_of(2) [OF t(1)] assms(2,3) CashRows
      by (fastforce simp: store_ok_def cash_entry_def)
    then show ?thesis using t(2) adv by (simp add: Let_def)
  next
    case (RebateRows rs)
    then obtain t where "upsert (map rebate_entry rs) (sr_rebates st) = Inr t"
      and t: "st' = (let x = st\<lparr>sr_rebates := t\<rparr> in if adv then advance_watermark data e x else x)"
      using assms(1) by (auto simp: commit_rows_def bind_res_Inr)
    have "store_ok (st\<lparr>sr_rebates := t\<rparr>)" using assms(3) by (simp add: store_ok_def)
    then show ?thesis using t adv by (simp add: Let_def)
  next
    case (GateLiquidations rs)
    then obtain t where "upsert (map gate_liquidation_entry rs) (sr_gate_liquidations st) = Inr t"
      and t: "st' = (let x = st\<lparr>sr_gate_liquidations := t\<rparr> in if adv then advance_watermark data e x else x)"
      using assms(1) by (auto simp: commit_rows_def bind_res_Inr)
    have "store_ok (st\<lparr>sr_gate_liquidations := t\<rparr>)" using assms(3) by (simp add: store_ok_def)
    then show ?thesis using t adv by (simp add: Let_def)
  next
    case (BinanceLiquidations rs)
    then obtain t where "upsert (map binance_liquidation_entry rs) (sr_binance_liquidations st) = Inr t"
      and t: "st' = (let x = st\<lparr>sr_binance_liquidations := t\<rparr> in if adv then advance_watermark data e x else x)"
      using assms(1) by (auto simp: commit_rows_def bind_res_Inr)
    have "store_ok (st\<lparr>sr_binance_liquidations := t\<rparr>)" using assms(3) by (simp add: store_ok_def)
    then show ?thesis using t adv by (simp add: Let_def)
  qed
qed

lemma sync_store_ok:
  assumes "sync_dataset ft client s stored_symbols args overlap_ms data st = Inr st'" "store_ok st"
  shows "store_ok st'"
proof (cases "st' = st")
  case False
  then obtain symbols r rows where "scan_rows ft client s data symbols (sa_derivatives_only args) r = Inr rows"
    "commit_rows data rows (sa_end_ms args) (\<not> sa_no_advance_watermark args) st = Inr st'"
    using assms(1) by (auto simp: sync_dataset_def bind_res_Inr split: if_splits)
  then show ?thesis using scan_typed commit_store_ok assms(2) by blast
qed (use assms in simp)

lemma synced_store_ok: "synced ft s st scanned \<Longrightarrow> store_ok st"
proof (induction rule: synced.induct)
  case (Scan st scanned client overlap_ms args data start_ms stored_symbols st')
  then show ?case using sync_store_ok by blast
qed (simp add: store_ok_def empty_store_def)

end
