(* ===== verification/Pipeline.thy ===== *)
theory Pipeline
  imports SyncHistory PnlInputs
begin

text \<open>
  The way of an amount through the program: rows of an exchange, normalised and stored by \<open>sync_history\<close>, read back by the
  queries of \<open>src/src/pnl.rs\<close> (text columns in the order of their bytes) and replayed by \<open>calculate\<close>.  A numeric column holds the decimal text it was given, and
  \<open>::float8\<close> reads it as the nearest double.
\<close>

section \<open>The queries of the loaders\<close>

definition float8 :: "string \<Rightarrow> f64" where
  "float8 s = (case parse_number s of Inr x \<Rightarrow> x | Inl _ \<Rightarrow> NaN)"

definition in_window :: "int \<Rightarrow> int \<Rightarrow> int \<Rightarrow> bool" where
  "in_window start_ms end_ms t \<longleftrightarrow> start_ms \<le> t \<and> t \<le> end_ms"

definition trades_query :: "store \<Rightarrow> int \<Rightarrow> int \<Rightarrow> (trade_row \<times> string option) list" where
  "trades_query st start_ms end_ms =
     sort_key (\<lambda>(r, _). (ht_event_time_ms r, ht_symbol r, ht_trade_id r))
       (filter (\<lambda>(r, _). in_window start_ms end_ms (ht_event_time_ms r)) (map snd (sr_trades st)))"

definition spot_swap_row :: "trade_row \<times> string option \<Rightarrow> spot_swap_trade_row" where
  "spot_swap_row = (\<lambda>(r, fee_usdt). \<lparr>st_market = ht_market r, st_symbol = ht_symbol r, st_side = ht_side r,
     st_price = float8 (ht_price r), st_amount_u = float8 (ht_quote_quantity r), st_quantity = float8 (ht_quantity r),
     st_fee = float8 (ht_fee_amount r), st_fee_usdt = map_option float8 fee_usdt, st_commission_asset = ht_fee_asset r,
     st_ts = ht_event_time_ms r\<rparr>)"

definition binance_intra_row :: "trade_row \<times> string option \<Rightarrow> binance_intra_trade_row" where
  "binance_intra_row = (\<lambda>(r, _). \<lparr>bt_market = ht_market r, bt_liquidity_role = ht_role r, bt_symbol = ht_symbol r, bt_side = ht_side r,
     bt_price = float8 (ht_price r), bt_amount_u = float8 (ht_quote_quantity r), bt_quantity = float8 (ht_quantity r),
     bt_fee = float8 (ht_fee_amount r), bt_commission_asset = ht_fee_asset r, bt_ts = ht_event_time_ms r\<rparr>)"

definition market_making_row :: "trade_row \<times> string option \<Rightarrow> market_making_trade_row" where
  "market_making_row = (\<lambda>(r, fee_usdt). \<lparr>mm_symbol = ht_symbol r, mm_side = ht_side r, mm_price = float8 (ht_price r),
     mm_quantity = float8 (ht_quantity r), mm_quote_quantity = Some (float8 (ht_quote_quantity r)),
     mm_fee_usdt = map_option float8 fee_usdt, mm_ts = ht_event_time_ms r\<rparr>)"

definition cash_query :: "store \<Rightarrow> dataset \<Rightarrow> (cash_row \<Rightarrow> string) \<Rightarrow> int \<Rightarrow> int \<Rightarrow> (cash_row \<times> string option) list" where
  "cash_query st data name start_ms end_ms =
     sort_key (\<lambda>(r, _). (cr_event_time_ms r, name r, cr_record_id r))
       (filter (\<lambda>(r, _). in_window start_ms end_ms (cr_event_time_ms r)) (map snd (sr_cash st data)))"

definition funding_row_of :: "cash_row \<times> string option \<Rightarrow> funding_row" where
  "funding_row_of = (\<lambda>(r, usdt). \<lparr>fr_symbol = or_text (cr_symbol r) [],
     fr_amount_usdt = float8 (case usdt of Some t \<Rightarrow> t | None \<Rightarrow> cr_amount r), fr_ts = cr_event_time_ms r\<rparr>)"

definition interest_row_of :: "cash_row \<times> string option \<Rightarrow> spot_swap_interest_row" where
  "interest_row_of = (\<lambda>(r, usdt). \<lparr>si_currency = cr_asset r, si_interest = float8 (cr_amount r),
     si_cost_usdt = map_option float8 usdt, si_ts = cr_event_time_ms r\<rparr>)"

text \<open>The loader of spot and swap does not ask for funding rows with a symbol; a row without one cannot be decoded.\<close>

definition query_database :: "store \<Rightarrow> table_row list \<Rightarrow> bool \<Rightarrow> int \<Rightarrow> int \<Rightarrow> string + database" where
  "query_database st multipliers spot_swap start_ms end_ms =
     (let trades = trades_query st start_ms end_ms;
          funding = cash_query st FundingData (\<lambda>r. or_text (cr_symbol r) []) start_ms end_ms;
          interest = cash_query st InterestData cr_asset start_ms end_ms
      in if spot_swap \<and> list_ex (\<lambda>(r, _). cr_symbol r = None) funding then Inl ''unexpected null in column symbol''
         else Inr \<lparr>db_binance_intra_trades = map binance_intra_row trades, db_market_making_trades = map market_making_row trades,
           db_spot_swap_trades = map spot_swap_row trades,
           db_funding = map funding_row_of (filter (\<lambda>(r, _). cr_symbol r \<noteq> None) funding),
           db_interest = map interest_row_of interest, db_multipliers = multipliers\<rparr>)"

section \<open>From the exchange to the replay\<close>

lemma float8_positive: "positive_text s \<Longrightarrow> positive (float8 s)"
  by (auto simp: positive_text_def positive_def float8_def dest: parse_number_finite)

lemma float8_finite: "numeric s \<Longrightarrow> is_finite (float8 s)"
  by (auto simp: numeric_def float8_def dest: parse_number_finite)

lemma set_trades_query: "set (trades_query st a b) \<subseteq> entry_values (sr_trades st)"
  by (auto simp: trades_query_def entry_values_def)

lemma set_cash_query: "set (cash_query st data name a b) \<subseteq> entry_values (sr_cash st data)"
  by (auto simp: cash_query_def entry_values_def)

lemma usdt_stable: "eq_ignore_ascii_case x ''USDT'' \<Longrightarrow> to_ascii_uppercase x \<in> set stablecoins"
proof -
  assume "eq_ignore_ascii_case x ''USDT''"
  moreover have "to_ascii_lowercase ''USDT'' = ''usdt''" by code_simp
  ultimately have l: "map ascii_lower x = ''usdt''" by (simp add: eq_ignore_ascii_case_def to_ascii_lowercase_def)
  have u: "ascii_upper (ascii_lower c) = ascii_upper c" for c by (auto simp: ascii_upper_def ascii_lower_def)
  have "to_ascii_uppercase x = map ascii_upper (map ascii_lower x)" by (simp add: to_ascii_uppercase_def u comp_def)
  also have "\<dots> = ''USDT''" unfolding l by code_simp
  finally show ?thesis by (simp add: stablecoins_def)
qed

text \<open>Rows read back from a store that the synchroniser filled satisfy what the loaders expect.\<close>

lemma queried_rows_ok:
  assumes "store_ok st" "query_database st multipliers spot_swap a b = Inr db"
  shows "rows_ok db"
proof -
  have t: "positive (float8 (ht_price (fst v)))" if "v \<in> set (trades_query st a b)" for v
    using that set_trades_query assms(1) by (intro float8_positive) (fastforce simp: store_ok_def trade_row_ok_def)
  have i: "is_finite (float8 (cr_amount (fst v)))" "snd v = None \<or> to_ascii_uppercase (cr_asset (fst v)) \<in> set stablecoins"
    if v: "v \<in> set (cash_query st InterestData cr_asset a b)" for v
  proof -
    have "v \<in> entry_values (sr_cash st InterestData)" using v set_cash_query by blast
    then have *: "cash_row_ok (fst v)" "snd v = (if eq_ignore_ascii_case (cr_asset (fst v)) ''USDT'' then Some (cr_amount (fst v)) else None)"
      using assms(1) by (auto simp: store_ok_def)
    show "is_finite (float8 (cr_amount (fst v)))" using * float8_finite by (simp add: cash_row_ok_def)
    show "snd v = None \<or> to_ascii_uppercase (cr_asset (fst v)) \<in> set stablecoins" using * usdt_stable by simp
  qed
  have db: "db_binance_intra_trades db = map binance_intra_row (trades_query st a b)"
    "db_market_making_trades db = map market_making_row (trades_query st a b)"
    "db_spot_swap_trades db = map spot_swap_row (trades_query st a b)"
    "db_interest db = map interest_row_of (cash_query st InterestData cr_asset a b)"
    using assms(2) by (auto simp: query_database_def Let_def split: if_splits)
  show ?thesis unfolding rows_ok_def db
    using t i by (auto simp: binance_intra_row_def market_making_row_def spot_swap_row_def interest_row_of_def split_beta)
qed



text \<open>One execution on Bybit, from the answer of the exchange to the replay.\<close>

definition one_trade_client :: exchange_client where
  "one_trade_client = \<lparr>cl_kind = BybitClient,
     cl_call = (\<lambda>method _ r. Inr (if method = ''spot trades'' \<and> rg_start_ms r \<le> 2000 \<and> 2000 \<le> rg_end_ms r then [sample_execution] else [])),
     cl_contracts = Inr [], cl_contract = (\<lambda>_. Inl (ApiCode ''0''))\<rparr>"

definition trade_args :: sync_args where
  "trade_args = sample_args\<lparr>sa_dataset := Trades, sa_end_ms := 3000\<rparr>"

lemma one_trade_scan:
  "scan_rows (\<lambda>_. []) one_trade_client sample_strategy data symbols d r =
     Inr (case data of Trades \<Rightarrow> TradeRows (if d \<or> 2000 < rg_start_ms r \<or> rg_end_ms r < 2000 then [] else [sample_row])
       | _ \<Rightarrow> CashRows []) \<or>
   (\<exists>e. scan_rows (\<lambda>_. []) one_trade_client sample_strategy data symbols d r = Inl e)"
proof (cases "data = Trades")
  case True
  have n: "normalize_trade (\<lambda>_. []) (sg_exchange sample_strategy) (sg_account_mode sample_strategy) SpotTrade sample_execution (\<lambda>_. None) = Inr sample_row"
    using sample_normalized by (simp add: sample_strategy_def)
  have m: "load_gate_multipliers (\<lambda>_. []) one_trade_client = Inr (\<lambda>_. None)"
    by (simp add: load_gate_multipliers_def one_trade_client_def)
  have f: "fetch_trades (\<lambda>_. []) one_trade_client sample_strategy symbols r d =
      Inr (if d \<or> 2000 < rg_start_ms r \<or> rg_end_ms r < 2000 then [] else [(SpotTrade, sample_execution)])"
    by (auto simp: fetch_trades_def fetch_two_legs_def api_context_def one_trade_client_def include_spot_trades_def sample_strategy_def)
  have "sg_exchange sample_strategy \<noteq> ''gate''" by (simp add: sample_strategy_def)
  then show ?thesis using True f m n by (simp add: scan_rows_def scan_trades_def)
next
  case False
  then show ?thesis
    by (cases data) (simp_all add: scan_rows_def scan_cash_def scan_rebates_def scan_liquidations_def fetch_funding_def fetch_interest_def
        fetch_rebates_def fetch_liquidations_def api_context_def one_trade_client_def funding_method_def interest_method_def)
qed

definition one_trade_store :: store where
  "one_trade_store = advance_watermark Trades 3000 (empty_store\<lparr>sr_trades := [trade_entry sample_row]\<rparr>)"

lemma one_trade_synced:
  "synced (\<lambda>_. []) sample_strategy one_trade_store ((\<lambda>_. {})(Trades := {} \<union> {10..sa_end_ms trade_args}))"
proof -
  let ?s = sample_strategy
  let ?r = "\<lparr>rg_start_ms = 10, rg_end_ms = 3000\<rparr>"
  have "\<exists>rows. scan_rows (\<lambda>_. []) one_trade_client ?s Trades [] False ?r = Inr rows"
    using sample_normalized by (simp add: scan_rows_def scan_trades_def fetch_trades_def fetch_two_legs_def api_context_def one_trade_client_def
        include_spot_trades_def sample_strategy_def load_gate_multipliers_def)
  then have rows: "scan_rows (\<lambda>_. []) one_trade_client ?s Trades [] False ?r = Inr (TradeRows [sample_row])"
    using one_trade_scan [of Trades "[]" False ?r] by auto
  have com: "commit_rows Trades (TradeRows [sample_row]) 3000 True empty_store = Inr one_trade_store"
    by (simp add: commit_rows_def upsert_def upsert_batch_def batch_size_def chunks.simps empty_store_def split_beta one_trade_store_def)
  have l: "load_trade_symbols ?s [] [] = Inr []" by (simp add: load_trade_symbols_def sample_strategy_def)
  have run: "sync_dataset (\<lambda>_. []) one_trade_client ?s (\<lambda>_. []) trade_args 0 Trades empty_store = Inr one_trade_store"
    using rows com l by (simp add: sync_dataset_def scan_range_def scan_start_def trade_args_def sample_args_def time_range_new_def)
      (simp add: sample_strategy_def)
  have "answers_in_range (\<lambda>_. []) one_trade_client ?s" unfolding answers_in_range_def
  proof (intro allI impI)
    fix data symbols d r rows assume "scan_rows (\<lambda>_. []) one_trade_client ?s data symbols d r = Inr rows"
    then have "rows = (case data of Trades \<Rightarrow> TradeRows (if d \<or> 2000 < rg_start_ms r \<or> rg_end_ms r < 2000 then [] else [sample_row])
       | _ \<Rightarrow> CashRows [])" using one_trade_scan [of data symbols d r] by auto
    then show "\<forall>t \<in> set (fetched_times rows). rg_start_ms r \<le> t \<and> t \<le> rg_end_ms r"
      by (cases data) (auto simp: fetched_times_def sample_row_def)
  qed
  then show ?thesis
    by (rule Scan [OF Fresh _ _ _ _ run]) (auto simp: scan_range_def scan_start_def trade_args_def sample_args_def sample_strategy_def)
qed


end
