(* ===== verification/ExchangeCommon.thy ===== *)
theory ExchangeCommon
  imports JsonFields TimeRange RestDispatcher "HOL-Library.Multiset"
begin

text \<open>
  What the exchange clients share (\<open>src/src/exchange/common.rs\<close>, \<open>error.rs\<close> and the helpers that every client
  repeats): errors, the reading of answers, the text of a JSON value that rows are deduplicated by, and the loops over the
  chunks and the pages of a history.

  A \<open>transport\<close> answers the request of a base URL, a path, parameters and a weight; its first argument counts the attempts of
  the caller.  It stands for the dispatcher with the HTTP connection, the signature and the wall clock.  The value \<open>None\<close> of a
  history is a loop that never ends.
\<close>

section \<open>Errors and answers\<close>

datatype exchange_error =
    DispatchFailed dispatch_error
  | InvalidQuery string
  | Http nat string
  | ApiError string string
  | InvalidResponse string
  | HeaderError string

type_synonym params = "(string \<times> string) list"

type_synonym transport = "nat \<Rightarrow> string \<Rightarrow> string \<Rightarrow> params \<Rightarrow> nat \<Rightarrow> exchange_error + json"

type_synonym history = "(exchange_error + json list) option"

definition invalid_query :: "string + 'a \<Rightarrow> exchange_error + 'a" where
  "invalid_query r = (case r of Inl e \<Rightarrow> Inl (InvalidQuery e) | Inr x \<Rightarrow> Inr x)"

lemma invalid_query_simps [simp]: "invalid_query (Inr x) = Inr x" "invalid_query (Inl e) = Inl (InvalidQuery e)"
  by (simp_all add: invalid_query_def)

definition then_res :: "('e + 'a) option \<Rightarrow> ('a \<Rightarrow> ('e + 'b) option) \<Rightarrow> ('e + 'b) option" where
  "then_res r f = (case r of None \<Rightarrow> None | Some (Inl e) \<Rightarrow> Some (Inl e) | Some (Inr x) \<Rightarrow> f x)"

lemma then_res_simps [simp]: "then_res None f = None" "then_res (Some (Inl e)) f = Some (Inl e)" "then_res (Some (Inr x)) f = f x"
  by (simp_all add: then_res_def)

definition root_array :: "json \<Rightarrow> exchange_error + json list" where
  "root_array v = ok_or (InvalidResponse ''expected array'') (as_array v)"

definition data_array :: "json \<Rightarrow> exchange_error + json list" where
  "data_array v = ok_or (InvalidResponse ''missing data array'') (Option.bind (json_get ''data'' v) as_array)"

definition value_i64 :: "json \<Rightarrow> string \<Rightarrow> int option" where
  "value_i64 v key =
     (case json_get key v of
        None \<Rightarrow> None
      | Some item \<Rightarrow> (case as_i64 item of Some n \<Rightarrow> Some n | None \<Rightarrow> Option.bind (as_str item) parse_i64))"

text \<open>The whole-range request of a client that validates its range.\<close>

definition checked_range :: "time_range \<Rightarrow> exchange_error + time_range" where
  "checked_range r = invalid_query (time_range_new (rg_start_ms r) (rg_end_ms r))"

definition checked_chunks :: "time_range \<Rightarrow> int \<Rightarrow> (exchange_error + time_range list) option" where
  "checked_chunks r span_ms = map_option invalid_query (range_chunks r span_ms)"

definition in_range :: "time_range \<Rightarrow> int \<Rightarrow> bool" where
  "in_range r ts \<longleftrightarrow> rg_start_ms r \<le> ts \<and> ts \<le> rg_end_ms r"

definition time_within :: "(json \<Rightarrow> int option) \<Rightarrow> time_range \<Rightarrow> json \<Rightarrow> bool" where
  "time_within time r row \<longleftrightarrow> (case time row of Some ts \<Rightarrow> in_range r ts | None \<Rightarrow> False)"

section \<open>The text of a JSON value\<close>

definition hex_digit :: "nat \<Rightarrow> char" where
  "hex_digit d = (if d < 10 then char_of (48 + d) else char_of (87 + d))"

definition escape_char :: "char \<Rightarrow> string" where
  "escape_char c =
     (let n = of_char c :: nat
      in if n = 34 then [char_of (92 :: nat), c]
         else if n = 92 then [c, c]
         else if n = 8 then char_of (92 :: nat) # ''b''
         else if n = 9 then char_of (92 :: nat) # ''t''
         else if n = 10 then char_of (92 :: nat) # ''n''
         else if n = 12 then char_of (92 :: nat) # ''f''
         else if n = 13 then char_of (92 :: nat) # ''r''
         else if n < 32 then char_of (92 :: nat) # ''u00'' @ [hex_digit (n div 16), hex_digit (n mod 16)]
         else [c])"

definition quote_text :: "string \<Rightarrow> string" where
  "quote_text s = char_of (34 :: nat) # concat (map escape_char s) @ [char_of (34 :: nat)]"

fun join :: "string \<Rightarrow> string list \<Rightarrow> string" where
  "join sep [] = []"
| "join sep [s] = s"
| "join sep (s # ss) = s @ sep @ join sep ss"

text \<open>The fields of an object in the order of their names, the last value of a repeated name.\<close>

definition object_entries :: "(string \<times> 'v) list \<Rightarrow> (string \<times> 'v) list" where
  "object_entries fs = fold (\<lambda>(k, v). bt_insert k v) fs []"

fun json_text :: "(f64 \<Rightarrow> string) \<Rightarrow> json \<Rightarrow> string" where
  "json_text ft JNull = ''null''"
| "json_text ft (JBool b) = (if b then ''true'' else ''false'')"
| "json_text ft (JNumber (JInt n)) = int_text n"
| "json_text ft (JNumber (JFloat x)) = ft x"
| "json_text ft (JString s) = quote_text s"
| "json_text ft (JArray vs) = ''['' @ join '','' (map (json_text ft) vs) @ '']''"
| "json_text ft (JObject fs) = ''{'' @ join '','' (map (\<lambda>(k, t). quote_text k @ '':'' @ t)
     (object_entries (map (\<lambda>(k, v). (k, json_text ft v)) fs))) @ ''}''"

definition api_code :: "(f64 \<Rightarrow> string) \<Rightarrow> json \<Rightarrow> string" where
  "api_code ft code = (case as_str code of Some t \<Rightarrow> t | None \<Rightarrow> json_text ft code)"

definition api_message :: "string \<Rightarrow> string \<Rightarrow> json \<Rightarrow> string" where
  "api_message key fallback v = (case Option.bind (json_get key v) as_str of Some t \<Rightarrow> t | None \<Rightarrow> fallback)"

definition non_empty :: "string option \<Rightarrow> string option" where
  "non_empty t = (case t of Some s \<Rightarrow> if s = [] then None else Some s | None \<Rightarrow> None)"

text \<open>A request that is sent again while it fails in a way worth another attempt: \<open>retries\<close> times after the first.\<close>

primrec retry_from :: "(exchange_error \<Rightarrow> bool) \<Rightarrow> (nat \<Rightarrow> exchange_error + json) \<Rightarrow> nat \<Rightarrow> nat \<Rightarrow> exchange_error + json" where
  "retry_from again send 0 attempt = send attempt"
| "retry_from again send (Suc retries) attempt =
     (case send attempt of
        Inr v \<Rightarrow> Inr v
      | Inl error \<Rightarrow> if again error then retry_from again send retries (Suc attempt) else Inl error)"

definition retry_get :: "(exchange_error \<Rightarrow> bool) \<Rightarrow> (nat \<Rightarrow> exchange_error + json) \<Rightarrow> nat \<Rightarrow> exchange_error + json" where
  "retry_get again send retries = retry_from again send retries 0"

definition row_key :: "(f64 \<Rightarrow> string) \<Rightarrow> string list \<Rightarrow> json \<Rightarrow> string" where
  "row_key ft keys row = join ''|'' (map (\<lambda>key. case json_get key row of Some v \<Rightarrow> json_text ft v | None \<Rightarrow> []) keys)"

text \<open>\<open>retain\<close> keeps the first row of a key.\<close>

fun retain_first :: "('a \<Rightarrow> 'k) \<Rightarrow> 'k list \<Rightarrow> 'a list \<Rightarrow> 'a list" where
  "retain_first key seen [] = []"
| "retain_first key seen (row # rows) =
     (if key row \<in> set seen then retain_first key seen rows else row # retain_first key (key row # seen) rows)"

definition dedup :: "(f64 \<Rightarrow> string) \<Rightarrow> string list \<Rightarrow> json list \<Rightarrow> json list" where
  "dedup ft keys rows = retain_first (row_key ft keys) [] rows"

definition or_zero_time :: "int option \<Rightarrow> int" where
  "or_zero_time t = (case t of Some n \<Rightarrow> n | None \<Rightarrow> 0)"

definition sort_by_field :: "string \<Rightarrow> json list \<Rightarrow> json list" where
  "sort_by_field key rows = sort_key (\<lambda>row. or_zero_time (value_i64 row key)) rows"

definition first_i64 :: "string list \<Rightarrow> json \<Rightarrow> int option" where
  "first_i64 keys row = find_some (value_i64 row) keys"

definition sort_by_fields :: "string list \<Rightarrow> json list \<Rightarrow> json list" where
  "sort_by_fields keys rows = sort_key (\<lambda>row. or_zero_time (first_i64 keys row)) rows"

section \<open>Chunks and pages\<close>

fun for_chunks :: "(time_range \<Rightarrow> json list \<Rightarrow> history) \<Rightarrow> time_range list \<Rightarrow> json list \<Rightarrow> history" where
  "for_chunks body [] rows = Some (Inr rows)"
| "for_chunks body (c # cs) rows = then_res (body c rows) (for_chunks body cs)"

text \<open>A loop over pages carries the cursor and the rows so far; a page either ends it or moves the cursor.\<close>

definition page_loop :: "('c \<Rightarrow> exchange_error + json list \<times> 'c option) \<Rightarrow> 'c \<Rightarrow> json list \<Rightarrow> history" where
  "page_loop get_page cursor rows =
     map_option (map_sum id snd)
       (loop_res (\<lambda>(cursor, rows). bind_res (get_page cursor) (\<lambda>(page, next).
          Inr (case next of None \<Rightarrow> ((cursor, rows @ page), False) | Some c \<Rightarrow> ((c, rows @ page), True)))) (cursor, rows))"

text \<open>Windows that are split as long as their answer may be cut off: a stack of windows, the earliest first.\<close>

partial_function (option) window_loop ::
    "(time_range \<Rightarrow> exchange_error + json list option) \<Rightarrow> (time_range \<Rightarrow> exchange_error + time_range \<times> time_range) \<Rightarrow>
     time_range list \<Rightarrow> json list \<Rightarrow> history" where
  "window_loop fetch split pending rows =
     (case pending of
        [] \<Rightarrow> Some (Inr rows)
      | w # ws \<Rightarrow> (case fetch w of
            Inl e \<Rightarrow> Some (Inl e)
          | Inr None \<Rightarrow> (case split w of
                Inl e \<Rightarrow> Some (Inl e)
              | Inr halves \<Rightarrow> window_loop fetch split (fst halves # snd halves # ws) rows)
          | Inr (Some page) \<Rightarrow> window_loop fetch split ws (rows @ page)))"

definition middle_ms :: "time_range \<Rightarrow> int" where
  "middle_ms r = rg_start_ms r + (rg_end_ms r - rg_start_ms r) div 2"

definition split_range :: "string \<Rightarrow> time_range \<Rightarrow> exchange_error + time_range \<times> time_range" where
  "split_range message r =
     (if rg_start_ms r = rg_end_ms r then Inl (InvalidResponse message)
      else Inr (\<lparr>rg_start_ms = rg_start_ms r, rg_end_ms = middle_ms r\<rparr>,
                \<lparr>rg_start_ms = middle_ms r + 1, rg_end_ms = rg_end_ms r\<rparr>))"

section \<open>Facts on the loops\<close>

lemma retry_get_spec:
  "\<exists>k \<le> n. retry_get again send n = send k \<and> (\<forall>j < k. \<exists>e. send j = Inl e \<and> again e) \<and>
     (k < n \<longrightarrow> (\<forall>e. send k = Inl e \<longrightarrow> \<not> again e))"
proof -
  have R: "\<exists>k. i \<le> k \<and> k \<le> i + n \<and> retry_from again send n i = send k \<and> (\<forall>j. i \<le> j \<longrightarrow> j < k \<longrightarrow> (\<exists>e. send j = Inl e \<and> again e)) \<and>
      (k < i + n \<longrightarrow> (\<forall>e. send k = Inl e \<longrightarrow> \<not> again e))" for i
  proof (induction n arbitrary: i)
    case (Suc n)
    show ?case
    proof (cases "\<exists>e. send i = Inl e \<and> again e")
      case True
      then obtain e where e: "send i = Inl e" "again e" by blast
      obtain k where k: "Suc i \<le> k" "k \<le> Suc i + n" "retry_from again send n (Suc i) = send k"
        "\<forall>j. Suc i \<le> j \<longrightarrow> j < k \<longrightarrow> (\<exists>e. send j = Inl e \<and> again e)"
        "k < Suc i + n \<longrightarrow> (\<forall>e. send k = Inl e \<longrightarrow> \<not> again e)" using Suc.IH [of "Suc i"] by blast
      have "\<exists>e. send j = Inl e \<and> again e" if "i \<le> j" "j < k" for j
        using that e k(4) by (cases "j = i") auto
      then show ?thesis using e k by (intro exI [of _ k]) auto
    next
      case False
      then show ?thesis by (intro exI [of _ i]) (auto split: sum.splits)
    qed
  qed auto
  then show ?thesis using R [of 0] by (auto simp: retry_get_def)
qed

lemma retain_first_distinct: "distinct (map key rows) \<Longrightarrow> key ` set rows \<inter> set seen = {} \<Longrightarrow> retain_first key seen rows = rows"
  by (induction rows arbitrary: seen) auto

lemma dedup_distinct: "distinct (map (row_key ft keys) rows) \<Longrightarrow> dedup ft keys rows = rows"
  by (simp add: dedup_def retain_first_distinct)

lemma retain_first_spec:
  "distinct (map key (retain_first key seen rows)) \<and> key ` set (retain_first key seen rows) = key ` set rows - set seen \<and>
   set (retain_first key seen rows) \<subseteq> set rows"
  by (induction key seen rows rule: retain_first.induct) auto

lemma page_loop_unfold:
  "page_loop get_page cursor rows =
     (case get_page cursor of
        Inl e \<Rightarrow> Some (Inl e)
      | Inr (page, None) \<Rightarrow> Some (Inr (rows @ page))
      | Inr (page, Some c) \<Rightarrow> page_loop get_page c (rows @ page))"
  unfolding page_loop_def by (subst loop_res.simps) (auto split: sum.splits option.splits)

text \<open>A client pages through what is left of a listing: every page is a front part of it, and moves on.\<close>

lemma page_loop_complete:
  fixes m :: "'c \<Rightarrow> nat"
  assumes "I c"
    and step: "\<And>c. I c \<Longrightarrow> \<exists>page next. get_page c = Inr (page, next) \<and>
      (case next of None \<Rightarrow> left c = page | Some c' \<Rightarrow> I c' \<and> left c = page @ left c' \<and> m c' < m c)"
  shows "page_loop get_page c rows = Some (Inr (rows @ left c))"
  using assms(1)
proof (induction "m c" arbitrary: c rows rule: less_induct)
  case less
  obtain page nxt where g: "get_page c = Inr (page, nxt)"
    "case nxt of None \<Rightarrow> left c = page | Some c' \<Rightarrow> I c' \<and> left c = page @ left c' \<and> m c' < m c"
    using step [OF less.prems] by blast
  then show ?case using less.hyps by (subst page_loop_unfold) (auto split: option.splits)
qed

lemma for_chunks_complete:
  assumes "\<And>c rows. c \<in> set cs \<Longrightarrow> body c rows = Some (Inr (rows @ f c))"
  shows "for_chunks body cs rows = Some (Inr (rows @ concat (map f cs)))"
  using assms by (induction cs arbitrary: rows) auto

lemma checked_chunks_spec:
  assumes "0 \<le> rg_start_ms r" "rg_start_ms r \<le> rg_end_ms r" "rg_end_ms r < i64_max" "0 < span_ms"
  obtains cs where "checked_chunks r span_ms = Some (Inr cs)" "tiles span_ms (rg_start_ms r) (rg_end_ms r) cs"
  using range_chunks_spec [OF assms] by (auto simp: checked_chunks_def)

text \<open>Rows in order of time, cut at the borders of the chunks and put together again.\<close>

lemma concat_tiles:
  assumes "tiles span_ms start stop cs" "\<forall>row \<in> set rows. time row \<noteq> None" "sorted (map (\<lambda>row. the (time row)) rows)"
  shows "concat (map (\<lambda>c. filter (time_within time c) rows) cs) =
    filter (time_within time \<lparr>rg_start_ms = start, rg_end_ms = stop\<rparr>) rows"
  using assms(1)
proof (induction cs arbitrary: start)
  case Nil
  then show ?case by (auto simp: time_within_def in_range_def filter_empty_conv split: option.splits)
next
  case (Cons c cs)
  have split: "filter (\<lambda>row. a \<le> f row \<and> f row \<le> b) xs @ filter (\<lambda>row. b + 1 \<le> f row \<and> f row \<le> d) xs = filter (\<lambda>row. a \<le> f row \<and> f row \<le> d) xs"
    if "sorted (map f xs)" "a \<le> b" "b \<le> d" for a b d :: int and f and xs :: "json list"
    using that
  proof (induction xs)
    case (Cons x xs)
    show ?case
    proof (cases "f x \<le> b")
      case False
      then have "filter (\<lambda>row. a \<le> f row \<and> f row \<le> b) xs = []" using Cons.prems by (auto simp: filter_empty_conv)
      then show ?thesis using Cons False by auto
    qed (use Cons in auto)
  qed simp
  let ?f = "\<lambda>row. the (time row)"
  have w: "filter (time_within time r) rows = filter (\<lambda>row. rg_start_ms r \<le> ?f row \<and> ?f row \<le> rg_end_ms r) rows" for r
    using assms(2) by (intro filter_cong) (auto simp: time_within_def in_range_def)
  have c: "rg_start_ms c = start" "start \<le> rg_end_ms c" "rg_end_ms c \<le> stop" "tiles span_ms (rg_end_ms c + 1) stop cs" using Cons.prems by simp_all
  show ?case using Cons.IH [OF c(4)] split [OF assms(3) c(2,3)] by (simp add: w c(1))
qed

lemma sort_by_field_sorted: "sorted (map (\<lambda>row. or_zero_time (value_i64 row key)) rows) \<Longrightarrow> sort_by_field key rows = rows"
  by (simp add: sort_by_field_def sort_key_id_if_sorted)

text \<open>Splitting finds every row unless one instant has as many as an answer may hold.\<close>

definition crowded :: "nat \<Rightarrow> (json \<Rightarrow> int option) \<Rightarrow> json list \<Rightarrow> time_range \<Rightarrow> bool" where
  "crowded limit time db w \<longleftrightarrow> (\<exists>t. in_range w t \<and> limit \<le> length (filter (\<lambda>row. time row = Some t) db))"

definition complete_windows :: "nat \<Rightarrow> (json \<Rightarrow> int option) \<Rightarrow> json list \<Rightarrow> (time_range \<Rightarrow> exchange_error + json list option) \<Rightarrow> bool" where
  "complete_windows limit time db fetch \<longleftrightarrow>
     (\<forall>w. 0 \<le> rg_start_ms w \<longrightarrow> rg_start_ms w \<le> rg_end_ms w \<longrightarrow> rg_end_ms w \<le> i64_max \<longrightarrow>
        (if length (filter (time_within time w) db) < limit
         then \<exists>page. fetch w = Inr (Some page) \<and> mset page = mset (filter (time_within time w) db) else fetch w = Inr None))"

lemma crowded_split:
  assumes "split_range msg w = Inr (l, r)" "rg_start_ms w \<le> rg_end_ms w"
  shows "crowded limit time db w \<longleftrightarrow> crowded limit time db l \<or> crowded limit time db r"
    and "mset (filter (time_within time w) db) = mset (filter (time_within time l) db) + mset (filter (time_within time r) db)"
    and "rg_start_ms l = rg_start_ms w" "rg_start_ms l \<le> rg_end_ms l" "rg_start_ms r \<le> rg_end_ms r" "rg_start_ms w \<le> rg_start_ms r" "rg_end_ms l \<le> rg_end_ms w" "rg_end_ms r = rg_end_ms w"
    and "nat (rg_end_ms l - rg_start_ms l) < nat (rg_end_ms w - rg_start_ms w)" "nat (rg_end_ms r - rg_start_ms r) < nat (rg_end_ms w - rg_start_ms w)"
proof -
  have m: "rg_start_ms w \<noteq> rg_end_ms w" and l: "l = \<lparr>rg_start_ms = rg_start_ms w, rg_end_ms = middle_ms w\<rparr>"
    and r: "r = \<lparr>rg_start_ms = middle_ms w + 1, rg_end_ms = rg_end_ms w\<rparr>" using assms(1) by (auto simp: split_range_def split: if_splits)
  have b: "rg_start_ms w \<le> middle_ms w" "middle_ms w < rg_end_ms w" using m assms(2) by (auto simp: middle_ms_def)
  have i: "in_range w t \<longleftrightarrow> in_range l t \<or> in_range r t" "\<not> (in_range l t \<and> in_range r t)" for t
    using b by (auto simp: in_range_def l r)
  show "crowded limit time db w \<longleftrightarrow> crowded limit time db l \<or> crowded limit time db r"
    unfolding crowded_def using i(1) by blast
  show "mset (filter (time_within time w) db) = mset (filter (time_within time l) db) + mset (filter (time_within time r) db)"
    by (induction db) (use i in \<open>auto simp: time_within_def split: option.splits\<close>)
  show "rg_start_ms l = rg_start_ms w" "rg_start_ms l \<le> rg_end_ms l" "rg_start_ms r \<le> rg_end_ms r" "rg_start_ms w \<le> rg_start_ms r" "rg_end_ms l \<le> rg_end_ms w" "rg_end_ms r = rg_end_ms w"
    "nat (rg_end_ms l - rg_start_ms l) < nat (rg_end_ms w - rg_start_ms w)" "nat (rg_end_ms r - rg_start_ms r) < nat (rg_end_ms w - rg_start_ms w)"
    using b by (simp_all add: l r)
qed

lemma window_loop_step:
  "window_loop fetch split [] rows = Some (Inr rows)"
  "fetch w = Inr (Some page) \<Longrightarrow> window_loop fetch split (w # ws) rows = window_loop fetch split ws (rows @ page)"
  "fetch w = Inr None \<Longrightarrow> split w = Inr (l, r) \<Longrightarrow> window_loop fetch split (w # ws) rows = window_loop fetch split (l # r # ws) rows"
  "fetch w = Inr None \<Longrightarrow> split w = Inl e \<Longrightarrow> window_loop fetch split (w # ws) rows = Some (Inl e)"
  by (subst window_loop.simps, simp)+

lemma window_loop_one:
  assumes c: "complete_windows limit time db fetch" and "0 \<le> rg_start_ms w" "rg_start_ms w \<le> rg_end_ms w" "rg_end_ms w \<le> i64_max"
  shows "if crowded limit time db w then \<forall>ws rows. window_loop fetch (split_range msg) (w # ws) rows = Some (Inl (InvalidResponse msg))
    else \<exists>out. mset out = mset (filter (time_within time w) db) \<and>
      (\<forall>ws rows. window_loop fetch (split_range msg) (w # ws) rows = window_loop fetch (split_range msg) ws (rows @ out))"
  using assms(2,3,4)
proof (induction "nat (rg_end_ms w - rg_start_ms w)" arbitrary: w rule: less_induct)
  case less
  show ?case
  proof (cases "length (filter (time_within time w) db) < limit")
    case True
    then obtain page where p: "fetch w = Inr (Some page)" "mset page = mset (filter (time_within time w) db)"
      using c less.prems unfolding complete_windows_def by metis
    have "length (filter (\<lambda>row. time row = Some t) db) \<le> length (filter (time_within time w) db)" if "in_range w t" for t
      using that by (induction db) (auto simp: time_within_def)
    then have "\<not> crowded limit time db w" using True unfolding crowded_def by fastforce
    then show ?thesis using p by (auto simp: window_loop_step)
  next
    case False
    then have f: "fetch w = Inr None" using c less.prems unfolding complete_windows_def by metis
    show ?thesis
    proof (cases "split_range msg w")
      case (Inl e)
      then have e: "rg_start_ms w = rg_end_ms w" "e = InvalidResponse msg" by (auto simp: split_range_def split: if_splits)
      then have "time_within time w = (\<lambda>row. time row = Some (rg_start_ms w))"
        by (auto simp: time_within_def in_range_def fun_eq_iff split: option.splits)
      then have "crowded limit time db w" using False e(1) unfolding crowded_def by (auto simp: in_range_def intro!: exI [of _ "rg_start_ms w"])
      then show ?thesis using f Inl e(2) by (simp add: window_loop_step)
    next
      case (Inr lr)
      then obtain l r where lr: "split_range msg w = Inr (l, r)" by (cases lr) simp
      note S = crowded_split [OF lr less.prems(2)]
      have L: "if crowded limit time db l then \<forall>ws rows. window_loop fetch (split_range msg) (l # ws) rows = Some (Inl (InvalidResponse msg))
        else \<exists>out. mset out = mset (filter (time_within time l) db) \<and>
          (\<forall>ws rows. window_loop fetch (split_range msg) (l # ws) rows = window_loop fetch (split_range msg) ws (rows @ out))"
        by (rule less.hyps [OF S(9)]) (use S less.prems in simp_all)
      have R: "if crowded limit time db r then \<forall>ws rows. window_loop fetch (split_range msg) (r # ws) rows = Some (Inl (InvalidResponse msg))
        else \<exists>out. mset out = mset (filter (time_within time r) db) \<and>
          (\<forall>ws rows. window_loop fetch (split_range msg) (r # ws) rows = window_loop fetch (split_range msg) ws (rows @ out))"
        by (rule less.hyps [OF S(10)]) (use S less.prems in simp_all)
      have w: "window_loop fetch (split_range msg) (w # ws) rows = window_loop fetch (split_range msg) (l # r # ws) rows" for ws rows
        using f lr by (simp add: window_loop_step)
      consider "crowded limit time db l" | "\<not> crowded limit time db l" "crowded limit time db r"
        | "\<not> crowded limit time db l" "\<not> crowded limit time db r" by blast
      then show ?thesis
      proof cases
        case 1
        then show ?thesis using L S(1) w by simp
      next
        case 2
        then obtain o1 where "\<forall>ws rows. window_loop fetch (split_range msg) (l # ws) rows = window_loop fetch (split_range msg) ws (rows @ o1)"
          using L by (metis (full_types))
        then show ?thesis using 2 R S(1) w by simp
      next
        case 3
        obtain o1 where o1: "mset o1 = mset (filter (time_within time l) db)"
          "\<forall>ws rows. window_loop fetch (split_range msg) (l # ws) rows = window_loop fetch (split_range msg) ws (rows @ o1)"
          using L 3(1) unfolding if_not_P [OF 3(1)] by blast
        obtain o2 where o2: "mset o2 = mset (filter (time_within time r) db)"
          "\<forall>ws rows. window_loop fetch (split_range msg) (r # ws) rows = window_loop fetch (split_range msg) ws (rows @ o2)"
          using R unfolding if_not_P [OF 3(2)] by blast
        have "mset (o1 @ o2) = mset (filter (time_within time w) db)" using S(2) o1(1) o2(1) by simp
        moreover have "\<forall>ws rows. window_loop fetch (split_range msg) (w # ws) rows = window_loop fetch (split_range msg) ws (rows @ (o1 @ o2))"
          using w o1(2) o2(2) by simp
        ultimately have "\<exists>out. mset out = mset (filter (time_within time w) db) \<and>
          (\<forall>ws rows. window_loop fetch (split_range msg) (w # ws) rows = window_loop fetch (split_range msg) ws (rows @ out))" by blast
        then show ?thesis using S(1) 3 by simp
      qed
    qed
  qed
qed

lemma window_loop_complete:
  assumes c: "complete_windows limit time db fetch" and "tiles span_ms start stop ws" "0 \<le> start" "stop \<le> i64_max"
  shows "if crowded limit time db \<lparr>rg_start_ms = start, rg_end_ms = stop\<rparr>
    then window_loop fetch (split_range msg) ws rows = Some (Inl (InvalidResponse msg))
    else \<exists>out. window_loop fetch (split_range msg) ws rows = Some (Inr (rows @ out)) \<and>
      mset out = mset (filter (time_within time \<lparr>rg_start_ms = start, rg_end_ms = stop\<rparr>) db)"
  using assms(2,3)
proof (induction ws arbitrary: start rows)
  case Nil
  have "filter (time_within time \<lparr>rg_start_ms = start, rg_end_ms = stop\<rparr>) db = []" "\<not> crowded limit time db \<lparr>rg_start_ms = start, rg_end_ms = stop\<rparr>"
    using Nil by (auto simp: time_within_def in_range_def filter_empty_conv crowded_def split: option.splits)
  then show ?case by (simp add: window_loop_step)
next
  case (Cons w ws)
  let ?all = "\<lparr>rg_start_ms = start, rg_end_ms = stop\<rparr>" and ?rest = "\<lparr>rg_start_ms = rg_end_ms w + 1, rg_end_ms = stop\<rparr>"
  have w: "rg_start_ms w = start" "start \<le> rg_end_ms w" "rg_end_ms w \<le> stop" "tiles span_ms (rg_end_ms w + 1) stop ws" using Cons.prems by simp_all
  have i: "in_range ?all t \<longleftrightarrow> in_range w t \<or> in_range ?rest t" "\<not> (in_range w t \<and> in_range ?rest t)" for t
    using w by (auto simp: in_range_def)
  have cr: "crowded limit time db ?all \<longleftrightarrow> crowded limit time db w \<or> crowded limit time db ?rest"
    unfolding crowded_def using i(1) by blast
  have ms: "mset (filter (time_within time ?all) db) = mset (filter (time_within time w) db) + mset (filter (time_within time ?rest) db)"
    by (induction db) (use i in \<open>auto simp: time_within_def split: option.splits\<close>)
  have one: "if crowded limit time db w then \<forall>ws rows. window_loop fetch (split_range msg) (w # ws) rows = Some (Inl (InvalidResponse msg))
    else \<exists>out. mset out = mset (filter (time_within time w) db) \<and>
      (\<forall>ws rows. window_loop fetch (split_range msg) (w # ws) rows = window_loop fetch (split_range msg) ws (rows @ out))"
    by (rule window_loop_one [OF c]) (use w Cons.prems assms(4) in simp_all)
  show ?case
  proof (cases "crowded limit time db w")
    case True
    then show ?thesis using one cr by simp
  next
    case False
    then obtain out where out: "mset out = mset (filter (time_within time w) db)"
      "\<And>rows. window_loop fetch (split_range msg) (w # ws) rows = window_loop fetch (split_range msg) ws (rows @ out)"
      using one unfolding if_not_P [OF False] by blast
    have IH: "if crowded limit time db ?rest then window_loop fetch (split_range msg) ws (rows @ out) = Some (Inl (InvalidResponse msg))
      else \<exists>out'. window_loop fetch (split_range msg) ws (rows @ out) = Some (Inr ((rows @ out) @ out')) \<and>
        mset out' = mset (filter (time_within time ?rest) db)"
      by (rule Cons.IH) (use w Cons.prems in simp_all)
    show ?thesis
    proof (cases "crowded limit time db ?rest")
      case True
      then show ?thesis using IH cr out(2) by simp
    next
      case f2: False
      then obtain out' where "window_loop fetch (split_range msg) ws (rows @ out) = Some (Inr ((rows @ out) @ out'))"
        "mset out' = mset (filter (time_within time ?rest) db)" using IH unfolding if_not_P [OF f2] by blast
      then show ?thesis using False f2 cr out ms by (auto intro!: exI [of _ "out @ out'"])
    qed
  qed
qed


lemma range_eta [simp]: "\<lparr>rg_start_ms = rg_start_ms r, rg_end_ms = rg_end_ms r\<rparr> = (r :: time_range)"
  by (cases r) simp


text \<open>Pages by number: page \<open>k\<close> is the \<open>k\<close>-th slice of the listing, and a slice that is not full is the last.\<close>

definition slice :: "nat \<Rightarrow> int \<Rightarrow> 'a list \<Rightarrow> 'a list" where
  "slice n k rows = take n (drop (n * (nat k - 1)) rows)"

lemma numbered_pages_complete:
  assumes "0 < n" and get: "\<And>k. 1 \<le> k \<Longrightarrow> k \<le> int (length rows) + 1 \<Longrightarrow>
      get_page k = Inr (filter P (slice n k rows), if length (slice n k rows) < n then None else Some (k + 1))"
  shows "page_loop get_page 1 acc = Some (Inr (acc @ filter P rows))"
proof -
  define left where "left k = filter P (drop (n * (nat k - 1)) rows)" for k
  define I where "I k \<longleftrightarrow> 1 \<le> k \<and> k \<le> int (length rows) + 1" for k
  define m where "m k = length rows - n * (nat k - 1)" for k
  have "page_loop get_page 1 acc = Some (Inr (acc @ left 1))"
  proof (rule page_loop_complete [where I = I and m = m])
    show "I 1" by (simp add: I_def)
    fix k assume k: "I k"
    let ?s = "slice n k rows" and ?d = "drop (n * (nat k - 1)) rows"
    have g: "get_page k = Inr (filter P ?s, if length ?s < n then None else Some (k + 1))" using get k by (simp add: I_def)
    show "\<exists>page next. get_page k = Inr (page, next) \<and>
      (case next of None \<Rightarrow> left k = page | Some c' \<Rightarrow> I c' \<and> left k = page @ left c' \<and> m c' < m k)"
    proof (cases "length ?s < n")
      case True
      then have "?s = ?d" by (simp add: slice_def)
      then show ?thesis using g True by (simp add: left_def)
    next
      case False
      then have len: "n * (nat k - 1) + n \<le> length rows" using assms(1) by (auto simp: slice_def min_def split: if_splits)
      have nk: "nat (k + 1) - 1 = (nat k - 1) + 1" using k by (simp add: I_def nat_add_distrib)
      have "drop (n * (nat (k + 1) - 1)) rows = drop n ?d" unfolding nk by (simp add: add.commute)
      then have next_left: "left (k + 1) = filter P (drop n ?d)" unfolding left_def by (rule arg_cong)
      have "filter P (take n ?d @ drop n ?d) = filter P (take n ?d) @ filter P (drop n ?d)" by (rule filter_append)
      then have "left k = filter P ?s @ left (k + 1)" unfolding next_left unfolding left_def slice_def append_take_drop_id .
      moreover have "nat k \<le> length rows"
      proof -
        have "nat k = (nat k - 1) + 1" using k by (simp add: I_def)
        also have "\<dots> \<le> n * (nat k - 1) + n" using assms(1) mult_le_mono1 [of 1 n "nat k - 1"] by linarith
        finally show ?thesis using len by simp
      qed
      then have "I (k + 1)" using k by (simp add: I_def)
      moreover have "m (k + 1) < m k" using len assms(1) unfolding m_def nk by simp
      ultimately show ?thesis using g False by simp
    qed
  qed
  then show ?thesis by (simp add: left_def)
qed

lemma dedup_set:
  assumes "inj_on (row_key ft keys) (set rows)"
  shows "set (dedup ft keys rows) = set rows" "distinct (dedup ft keys rows)"
proof -
  note R = retain_first_spec [of "row_key ft keys" "[]" rows]
  show "set (dedup ft keys rows) = set rows" unfolding dedup_def using R inj_on_image_eq_iff [OF assms, of "set (retain_first (row_key ft keys) [] rows)" "set rows"] by simp
  show "distinct (dedup ft keys rows)" using R by (simp add: dedup_def distinct_map)
qed


lemma drop_sorted:
  assumes "sorted_wrt (<) (map f xs)" "0 < k" "k \<le> length xs"
  shows "drop k xs = filter (\<lambda>x. f (xs ! (k - 1)) < (f x :: int)) xs"
  using assms
proof (induction xs arbitrary: k)
  case (Cons x xs)
  show ?case
  proof (cases "k = 1")
    case True
    then show ?thesis using Cons.prems by (auto intro!: filter_True [symmetric])
  next
    case False
    then have k: "0 < k - 1" "k - 1 \<le> length xs" using Cons.prems by auto
    have "(x # xs) ! (k - 1) = xs ! (k - 1 - 1)" using k by (simp add: nth_Cons')
    moreover have "xs ! (k - 1 - 1) \<in> set xs" using k by auto
    then have "\<not> f (xs ! (k - 1 - 1)) < f x" using Cons.prems(1) by auto
    moreover have "drop k (x # xs) = drop (k - 1) xs" using k by (cases k) auto
    ultimately show ?thesis using Cons.IH [of "k - 1"] k Cons.prems(1) by simp
  qed
qed simp

lemma int_text_inj: "is_i64 a \<Longrightarrow> is_i64 b \<Longrightarrow> int_text a = int_text b \<Longrightarrow> a = b"
  by (metis option.inject parse_i64_int_text)

lemma value_i64_is_i64: "value_i64 row key = Some n \<Longrightarrow> is_i64 n"
proof -
  have "parse_i64 s = Some n \<Longrightarrow> is_i64 n" for s by (auto simp: parse_i64_def Let_def split: option.splits if_splits list.splits)
  then show "value_i64 row key = Some n \<Longrightarrow> is_i64 n"
    by (auto simp: value_i64_def as_i64_def bind_eq_Some_conv split: option.splits json.splits json_number.splits if_splits)
qed


lemma first_i64_single: "first_i64 [key] = (\<lambda>row. value_i64 row key)"
proof
  fix row
  show "first_i64 [key] row = value_i64 row key"
    by (cases "value_i64 row key") (simp_all add: first_i64_def find_some_def List.map_filter_def)
qed


end
