(* ===== verification/BinanceClient.thy ===== *)
theory BinanceClient
  imports ExchangeCommon
begin

text \<open>
  The history requests of \<open>src/src/exchange/binance.rs\<close>: trades by time and then by id, forced orders and wallet
  distributions by windows that are split while an answer may be cut off, funding and interest by page number, with the
  retries of the rate-limited history endpoints.
\<close>

section \<open>Requests\<close>

datatype binance_mode = UsdmFutures | PortfolioMargin

definition fapi_base :: string where "fapi_base = ''https://fapi.binance.com''"
definition papi_base :: string where "papi_base = ''https://papi.binance.com''"
definition api_base :: string where "api_base = ''https://api.binance.com''"

definition one_day_ms :: int where "one_day_ms = 24 * 60 * 60 * 1000"
definition seven_days_ms :: int where "seven_days_ms = 7 * 24 * 60 * 60 * 1000"
definition thirty_days_ms :: int where "thirty_days_ms = 30 * one_day_ms"
definition six_months_ms :: int where "six_months_ms = 180 * one_day_ms"
definition asset_dividend_max_span_ms :: int where "asset_dividend_max_span_ms = 180 * one_day_ms"
definition asset_dividend_limit :: nat where "asset_dividend_limit = 500"
definition page_limit :: nat where "page_limit = 1000"
definition force_order_limit :: nat where "force_order_limit = 100"
definition history_rate_limit_retries :: nat where "history_rate_limit_retries = 3"

definition check_api_error :: "(f64 \<Rightarrow> string) \<Rightarrow> json \<Rightarrow> exchange_error + json" where
  "check_api_error ft v =
     (case json_get ''code'' v of
        None \<Rightarrow> Inr v
      | Some code \<Rightarrow>
          if api_code ft code \<in> {''0'', ''200''} then Inr v
          else Inl (ApiError (api_code ft code) (api_message ''msg'' ''unknown Binance API error'' v)))"

definition add_param :: "string \<Rightarrow> string \<Rightarrow> params \<Rightarrow> params" where
  "add_param key value ps = (if list_ex (\<lambda>(k, _). k = key) ps then ps else ps @ [(key, value)])"

definition signed_get :: "(f64 \<Rightarrow> string) \<Rightarrow> transport \<Rightarrow> nat \<Rightarrow> string \<Rightarrow> string \<Rightarrow> params \<Rightarrow> nat \<Rightarrow> exchange_error + json" where
  "signed_get ft net attempt base path ps weight =
     bind_res (net attempt base path (add_param ''recvWindow'' ''5000'' ps) weight) (check_api_error ft)"

fun starts_with :: "string \<Rightarrow> string \<Rightarrow> bool" where
  "starts_with [] s \<longleftrightarrow> True"
| "starts_with (p # ps) [] \<longleftrightarrow> False"
| "starts_with (p # ps) (c # cs) \<longleftrightarrow> p = c \<and> starts_with ps cs"

fun contains :: "string \<Rightarrow> string \<Rightarrow> bool" where
  "contains pat [] \<longleftrightarrow> pat = []"
| "contains pat (c # cs) \<longleftrightarrow> starts_with pat (c # cs) \<or> contains pat cs"

definition timestamp_code :: string where
  "timestamp_code = quote_text ''code'' @ '':-1021''"

definition history_retry_delay :: "exchange_error \<Rightarrow> nat option" where
  "history_retry_delay error =
     (case error of
        DispatchFailed (RateLimited _ _ delay) \<Rightarrow> Some delay
      | DispatchFailed (NoAvailableIp (Some delay)) \<Rightarrow> Some delay
      | DispatchFailed (Request _) \<Rightarrow> Some (secs 1)
      | InvalidResponse message \<Rightarrow> if contains ''error decoding response body'' message then Some (secs 1) else None
      | Http _ body \<Rightarrow> if contains timestamp_code body then Some (secs 1) else None
      | _ \<Rightarrow> None)"

definition history_signed_get :: "(f64 \<Rightarrow> string) \<Rightarrow> transport \<Rightarrow> string \<Rightarrow> string \<Rightarrow> params \<Rightarrow> nat \<Rightarrow> exchange_error + json" where
  "history_signed_get ft net base path ps weight =
     retry_get (\<lambda>error. history_retry_delay error \<noteq> None) (\<lambda>retry. signed_get ft net retry base path (add_param ''recvWindow'' ''60000'' ps) weight)
       history_rate_limit_retries"

definition require_mode :: "binance_mode \<Rightarrow> binance_mode \<Rightarrow> exchange_error + unit" where
  "require_mode wanted mode =
     (if mode = wanted then Inr ()
      else Inl (InvalidQuery (case wanted of PortfolioMargin \<Rightarrow> ''endpoint requires Binance Portfolio Margin mode''
        | UsdmFutures \<Rightarrow> ''endpoint requires a standard Binance account'')))"

definition rows_of :: "string \<Rightarrow> string \<Rightarrow> json \<Rightarrow> exchange_error + json list" where
  "rows_of key message v = ok_or (InvalidResponse message) (Option.bind (json_get key v) as_array)"

section \<open>Trades\<close>

definition trades_params :: "string \<Rightarrow> time_range \<Rightarrow> int option \<Rightarrow> params" where
  "trades_params symbol chunk from_id =
     [(''symbol'', symbol), (''limit'', int_text (int page_limit))] @
     (case from_id of
        Some n \<Rightarrow> [(''fromId'', int_text n)]
      | None \<Rightarrow> [(''startTime'', int_text (rg_start_ms chunk)), (''endTime'', int_text (rg_end_ms chunk))])"

definition trades_page :: "(f64 \<Rightarrow> string) \<Rightarrow> transport \<Rightarrow> string \<Rightarrow> string \<Rightarrow> string \<Rightarrow> nat \<Rightarrow> time_range \<Rightarrow> int option \<Rightarrow>
    exchange_error + json list \<times> int option option" where
  "trades_page ft net base path symbol weight chunk from_id =
     bind_res (history_signed_get ft net base path (trades_params symbol chunk from_id) weight) (\<lambda>v.
     bind_res (root_array v) (\<lambda>page.
       if page = [] then Inr ([], None)
       else let page = sort_by_field ''id'' page
         in bind_res (ok_or (InvalidResponse (path @ '' page has no numeric id'')) (value_i64 (last page) ''id'')) (\<lambda>last_id.
           let last_time = or_zero_time (value_i64 (last page) ''time'')
           in Inr (filter (time_within (\<lambda>row. value_i64 row ''time'') chunk) page,
                if length page < page_limit \<or> rg_end_ms chunk < last_time then None
                else Some (Some (saturating_add_i64 last_id 1))))))"

definition paged_trades :: "(f64 \<Rightarrow> string) \<Rightarrow> transport \<Rightarrow> string \<Rightarrow> string \<Rightarrow> string \<Rightarrow> time_range \<Rightarrow> int \<Rightarrow> nat \<Rightarrow> history" where
  "paged_trades ft net base path symbol r chunk_span_ms weight =
     then_res (checked_chunks r chunk_span_ms) (\<lambda>chunks.
     then_res (for_chunks (\<lambda>chunk. page_loop (trades_page ft net base path symbol weight chunk) None) chunks []) (\<lambda>rows.
       Some (Inr (sort_by_field ''time'' (dedup ft [''symbol'', ''id''] rows)))))"

definition user_trades :: "(f64 \<Rightarrow> string) \<Rightarrow> transport \<Rightarrow> binance_mode \<Rightarrow> string \<Rightarrow> time_range \<Rightarrow> history" where
  "user_trades ft net mode symbol r =
     (case mode of
        UsdmFutures \<Rightarrow> paged_trades ft net fapi_base ''/fapi/v1/userTrades'' symbol r seven_days_ms 5
      | PortfolioMargin \<Rightarrow> Some (Inl (InvalidQuery ''portfolio margin must choose margin_trades or um_trades'')))"

definition spot_trades :: "(f64 \<Rightarrow> string) \<Rightarrow> transport \<Rightarrow> binance_mode \<Rightarrow> string \<Rightarrow> time_range \<Rightarrow> history" where
  "spot_trades ft net mode symbol r =
     then_res (Some (require_mode UsdmFutures mode)) (\<lambda>_. paged_trades ft net api_base ''/api/v3/myTrades'' symbol r one_day_ms 20)"

definition margin_trades :: "(f64 \<Rightarrow> string) \<Rightarrow> transport \<Rightarrow> binance_mode \<Rightarrow> string \<Rightarrow> time_range \<Rightarrow> history" where
  "margin_trades ft net mode symbol r =
     then_res (Some (require_mode PortfolioMargin mode)) (\<lambda>_. paged_trades ft net papi_base ''/papi/v1/margin/myTrades'' symbol r one_day_ms 5)"

definition um_trades :: "(f64 \<Rightarrow> string) \<Rightarrow> transport \<Rightarrow> binance_mode \<Rightarrow> string \<Rightarrow> time_range \<Rightarrow> history" where
  "um_trades ft net mode symbol r =
     then_res (Some (require_mode PortfolioMargin mode)) (\<lambda>_. paged_trades ft net papi_base ''/papi/v1/um/userTrades'' symbol r seven_days_ms 5)"

section \<open>Forced orders and wallet distributions\<close>

datatype auto_close_type = Liquidation | Adl

definition close_type_value :: "auto_close_type \<Rightarrow> string" where
  "close_type_value t = (case t of Liquidation \<Rightarrow> ''LIQUIDATION'' | Adl \<Rightarrow> ''ADL'')"

definition force_order_params :: "string option \<Rightarrow> auto_close_type option \<Rightarrow> time_range \<Rightarrow> params" where
  "force_order_params symbol close_type w =
     [(''startTime'', int_text (rg_start_ms w)), (''endTime'', int_text (rg_end_ms w)), (''limit'', int_text (int force_order_limit))] @
     (case symbol of Some s \<Rightarrow> [(''symbol'', s)] | None \<Rightarrow> []) @
     (case close_type of Some t \<Rightarrow> [(''autoCloseType'', close_type_value t)] | None \<Rightarrow> [])"

definition force_order_window :: "(f64 \<Rightarrow> string) \<Rightarrow> transport \<Rightarrow> string \<Rightarrow> string \<Rightarrow> string option \<Rightarrow> auto_close_type option \<Rightarrow> time_range \<Rightarrow>
    exchange_error + json list option" where
  "force_order_window ft net base path symbol close_type w =
     bind_res (signed_get ft net 0 base path (force_order_params symbol close_type w) (if symbol \<noteq> None then 20 else 50)) (\<lambda>v.
     bind_res (root_array v) (\<lambda>page.
       Inr (if length page = force_order_limit then None
            else Some (filter (time_within (\<lambda>row. value_i64 row ''time'') w) page))))"

definition paged_force_orders :: "(f64 \<Rightarrow> string) \<Rightarrow> transport \<Rightarrow> string \<Rightarrow> string \<Rightarrow> string option \<Rightarrow> auto_close_type option \<Rightarrow> time_range \<Rightarrow> history" where
  "paged_force_orders ft net base path symbol close_type r =
     then_res (Some (checked_range r)) (\<lambda>r.
     then_res (checked_chunks r seven_days_ms) (\<lambda>pending.
     then_res (window_loop (force_order_window ft net base path symbol close_type)
         (split_range ''force orders exceeded the row limit; query by symbol'') pending []) (\<lambda>rows.
       Some (Inr (sort_by_field ''time'' (dedup ft [''orderId'', ''symbol''] rows))))))"

definition force_orders :: "(f64 \<Rightarrow> string) \<Rightarrow> transport \<Rightarrow> binance_mode \<Rightarrow> string option \<Rightarrow> auto_close_type option \<Rightarrow> time_range \<Rightarrow> history" where
  "force_orders ft net mode symbol close_type r =
     (case mode of
        UsdmFutures \<Rightarrow> paged_force_orders ft net fapi_base ''/fapi/v1/forceOrders'' symbol close_type r
      | PortfolioMargin \<Rightarrow> paged_force_orders ft net papi_base ''/papi/v1/um/forceOrders'' symbol close_type r)"

definition page_is_saturated :: "int option \<Rightarrow> nat \<Rightarrow> bool" where
  "page_is_saturated total_rows page_len =
     (case total_rows of Some n \<Rightarrow> int page_len < n | None \<Rightarrow> page_len = asset_dividend_limit)"

definition dividend_window :: "(f64 \<Rightarrow> string) \<Rightarrow> transport \<Rightarrow> time_range \<Rightarrow> exchange_error + json list option" where
  "dividend_window ft net w =
     bind_res (signed_get ft net 0 api_base ''/sapi/v1/asset/assetDividend''
       [(''startTime'', int_text (rg_start_ms w)), (''endTime'', int_text (rg_end_ms w)), (''limit'', int_text (int asset_dividend_limit))] 10) (\<lambda>v.
     bind_res (rows_of ''rows'' ''asset dividend response is missing rows'' v) (\<lambda>page.
       Inr (if page_is_saturated (value_i64 v ''total'') (length page) then None
            else Some (filter (time_within (\<lambda>row. value_i64 row ''divTime'') w) page))))"

definition asset_dividends :: "(f64 \<Rightarrow> string) \<Rightarrow> transport \<Rightarrow> binance_mode \<Rightarrow> time_range \<Rightarrow> history" where
  "asset_dividends ft net mode r =
     then_res (Some (require_mode UsdmFutures mode)) (\<lambda>_.
     then_res (Some (checked_range r)) (\<lambda>r.
     then_res (checked_chunks r asset_dividend_max_span_ms) (\<lambda>pending.
     then_res (window_loop (dividend_window ft net) (split_range ''asset dividends exceeded the row limit'') pending []) (\<lambda>rows.
       Some (Inr (sort_by_field ''divTime'' (dedup ft [''id''] rows)))))))"

section \<open>Numbered pages\<close>

definition margin_force_orders_page :: "(f64 \<Rightarrow> string) \<Rightarrow> transport \<Rightarrow> time_range \<Rightarrow> int \<Rightarrow> exchange_error + json list \<times> int option" where
  "margin_force_orders_page ft net chunk current =
     bind_res (signed_get ft net 0 papi_base ''/papi/v1/margin/forceOrders''
       [(''startTime'', int_text (rg_start_ms chunk)), (''endTime'', int_text (rg_end_ms chunk)), (''current'', int_text current),
        (''size'', int_text (int force_order_limit))] 1) (\<lambda>v.
     bind_res (rows_of ''rows'' ''margin force orders response is missing rows'' v) (\<lambda>page.
       let total_rows = value_i64 v ''total'';
           covered_rows = clamp_i64 (current * int force_order_limit)
       in Inr (filter (time_within (\<lambda>row. value_i64 row ''updatedTime'') chunk) page,
            if length page < force_order_limit \<or> (case total_rows of Some n \<Rightarrow> n \<le> covered_rows | None \<Rightarrow> False) then None
            else Some (saturating_add_i64 current 1))))"

definition margin_force_orders :: "(f64 \<Rightarrow> string) \<Rightarrow> transport \<Rightarrow> binance_mode \<Rightarrow> time_range \<Rightarrow> history" where
  "margin_force_orders ft net mode r =
     then_res (Some (require_mode PortfolioMargin mode)) (\<lambda>_.
     then_res (Some (checked_range r)) (\<lambda>r.
     then_res (checked_chunks r seven_days_ms) (\<lambda>chunks.
     then_res (for_chunks (\<lambda>chunk. page_loop (margin_force_orders_page ft net chunk) 1) chunks []) (\<lambda>rows.
       Some (Inr (sort_by_field ''updatedTime'' (dedup ft [''orderId'', ''symbol''] rows)))))))"

definition usdm_funding_page :: "(f64 \<Rightarrow> string) \<Rightarrow> transport \<Rightarrow> time_range \<Rightarrow> int \<Rightarrow> exchange_error + json list \<times> int option" where
  "usdm_funding_page ft net chunk page_number =
     bind_res (history_signed_get ft net fapi_base ''/fapi/v1/income''
       [(''incomeType'', ''FUNDING_FEE''), (''startTime'', int_text (rg_start_ms chunk)), (''endTime'', int_text (rg_end_ms chunk)),
        (''page'', int_text page_number), (''limit'', int_text (int page_limit))] 30) (\<lambda>v.
     bind_res (root_array v) (\<lambda>page.
       let rows = filter (time_within (\<lambda>row. value_i64 row ''time'') chunk) page
       in if length page < page_limit then Inr (rows, None)
          else if is_i64 (page_number + 1) then Inr (rows, Some (page_number + 1))
          else Inl (InvalidResponse ''standard UM income pagination overflowed'')))"

definition usdm_funding_fees :: "(f64 \<Rightarrow> string) \<Rightarrow> transport \<Rightarrow> time_range \<Rightarrow> history" where
  "usdm_funding_fees ft net r =
     then_res (Some (checked_range r)) (\<lambda>r.
     then_res (checked_chunks r seven_days_ms) (\<lambda>chunks.
     then_res (for_chunks (\<lambda>chunk. page_loop (usdm_funding_page ft net chunk) 1) chunks []) (\<lambda>rows.
       Some (Inr (sort_by_field ''time'' (dedup ft [''tranId''] rows))))))"

definition portfolio_funding_page :: "(f64 \<Rightarrow> string) \<Rightarrow> transport \<Rightarrow> time_range \<Rightarrow> int \<Rightarrow> exchange_error + json list \<times> int option" where
  "portfolio_funding_page ft net r page_number =
     bind_res (signed_get ft net 0 papi_base ''/papi/v1/um/income''
       [(''incomeType'', ''FUNDING_FEE''), (''startTime'', int_text (rg_start_ms r)), (''endTime'', int_text (rg_end_ms r)),
        (''page'', int_text page_number), (''limit'', int_text (int page_limit)), (''recvWindow'', ''60000'')] 30) (\<lambda>v.
     bind_res (root_array v) (\<lambda>page.
       let rows = filter (time_within (\<lambda>row. value_i64 row ''time'') r) page;
           next_page = saturating_add_i64 page_number 1
       in if page = [] then Inr ([], None)
          else if length page < page_limit then Inr (rows, None)
          else if next_page \<le> page_number then Inl (InvalidResponse ''income pagination did not advance'')
          else Inr (rows, Some next_page)))"

definition portfolio_margin_funding_fees :: "(f64 \<Rightarrow> string) \<Rightarrow> transport \<Rightarrow> binance_mode \<Rightarrow> time_range \<Rightarrow> history" where
  "portfolio_margin_funding_fees ft net mode r =
     then_res (Some (require_mode PortfolioMargin mode)) (\<lambda>_.
     then_res (Some (checked_range r)) (\<lambda>r.
     then_res (page_loop (portfolio_funding_page ft net r) 1 []) (\<lambda>rows.
       Some (Inr (sort_by_field ''time'' (dedup ft [''tranId''] rows))))))"

definition funding_fees :: "(f64 \<Rightarrow> string) \<Rightarrow> transport \<Rightarrow> binance_mode \<Rightarrow> time_range \<Rightarrow> history" where
  "funding_fees ft net mode r =
     (case mode of UsdmFutures \<Rightarrow> usdm_funding_fees ft net r | PortfolioMargin \<Rightarrow> portfolio_margin_funding_fees ft net mode r)"

definition next_u32 :: "int \<Rightarrow> int" where
  "next_u32 n = min (n + 1) (2 ^ 32 - 1)"

definition margin_interest_endpoint :: "binance_mode \<Rightarrow> string \<times> string" where
  "margin_interest_endpoint mode =
     (case mode of PortfolioMargin \<Rightarrow> (papi_base, ''/papi/v1/margin/marginInterestHistory'')
      | UsdmFutures \<Rightarrow> (api_base, ''/sapi/v1/margin/interestHistory''))"

definition margin_interest_page :: "(f64 \<Rightarrow> string) \<Rightarrow> transport \<Rightarrow> binance_mode \<Rightarrow> string option \<Rightarrow> bool \<Rightarrow> time_range \<Rightarrow> int \<Rightarrow>
    exchange_error + json list \<times> int option" where
  "margin_interest_page ft net mode asset archived chunk current =
     bind_res (history_signed_get ft net (fst (margin_interest_endpoint mode)) (snd (margin_interest_endpoint mode))
       ([(''startTime'', int_text (rg_start_ms chunk)), (''endTime'', int_text (rg_end_ms chunk)), (''current'', int_text current),
         (''size'', ''100''), (''archived'', if archived then ''true'' else ''false'')] @
        (case asset of Some a \<Rightarrow> [(''asset'', a)] | None \<Rightarrow> [])) 1) (\<lambda>v.
     bind_res (rows_of ''rows'' ''margin interest response is missing rows'' v) (\<lambda>page.
       Inr (filter (time_within (\<lambda>row. value_i64 row ''interestAccuredTime'') chunk) page,
         if length page < 100 then None else Some (next_u32 current))))"

definition margin_interest :: "(f64 \<Rightarrow> string) \<Rightarrow> transport \<Rightarrow> binance_mode \<Rightarrow> time_range \<Rightarrow> string option \<Rightarrow> bool \<Rightarrow> history" where
  "margin_interest ft net mode r asset archived =
     then_res (checked_chunks r thirty_days_ms) (\<lambda>chunks.
     then_res (for_chunks (\<lambda>chunk. page_loop (margin_interest_page ft net mode asset archived chunk) 1) chunks []) (\<lambda>rows.
       Some (Inr (sort_by_field ''interestAccuredTime'' (dedup ft [''txId''] rows)))))"

text \<open>Interest older than six months is in an archive; the two queries overlap by two weeks around that age.\<close>

definition margin_interest_query_ranges :: "time_range \<Rightarrow> int \<Rightarrow> exchange_error + (time_range \<times> bool) list" where
  "margin_interest_query_ranges r current_time_ms =
     (let archive_cutoff = saturating_sub_i64 current_time_ms six_months_ms;
          archived_end = saturating_add_i64 archive_cutoff seven_days_ms;
          recent_start = saturating_sub_i64 archive_cutoff seven_days_ms
      in bind_res (if rg_start_ms r \<le> archived_end \<and> rg_start_ms r \<le> rg_end_ms r
           then bind_res (invalid_query (time_range_new (rg_start_ms r) (min (rg_end_ms r) archived_end))) (\<lambda>q. Inr [(q, True)])
           else Inr []) (\<lambda>archived.
         bind_res (if recent_start \<le> rg_end_ms r \<and> rg_start_ms r \<le> rg_end_ms r
           then bind_res (invalid_query (time_range_new (max (rg_start_ms r) recent_start) (rg_end_ms r))) (\<lambda>q. Inr [(q, False)])
           else Inr []) (\<lambda>recent. Inr (archived @ recent))))"

fun interest_queries :: "(time_range \<Rightarrow> bool \<Rightarrow> history) \<Rightarrow> (time_range \<times> bool) list \<Rightarrow> json list \<Rightarrow> history" where
  "interest_queries query [] rows = Some (Inr rows)"
| "interest_queries query ((r, archived) # qs) rows =
     then_res (query r archived) (\<lambda>page. interest_queries query qs (rows @ page))"

definition margin_interest_history :: "(f64 \<Rightarrow> string) \<Rightarrow> transport \<Rightarrow> binance_mode \<Rightarrow> int \<Rightarrow> time_range \<Rightarrow> string option \<Rightarrow> history" where
  "margin_interest_history ft net mode now_ms r asset =
     then_res (Some (margin_interest_query_ranges r now_ms)) (\<lambda>queries.
     then_res (interest_queries (\<lambda>q archived. margin_interest ft net mode q asset archived) queries []) (\<lambda>rows.
       Some (Inr (sort_by_field ''interestAccuredTime'' (dedup ft [''txId''] rows)))))"

section \<open>The retries\<close>

text \<open>A rate-limited history request is sent again until an attempt succeeds or fails for another reason, four times at
  most: the answer is that of the first attempt that does not ask for a retry, or of the fourth.\<close>

theorem history_retries:
  "\<exists>k \<le> 3. history_signed_get ft net base path ps weight = signed_get ft net k base path (add_param ''recvWindow'' ''60000'' ps) weight \<and>
     (\<forall>j < k. \<exists>e. signed_get ft net j base path (add_param ''recvWindow'' ''60000'' ps) weight = Inl e \<and> history_retry_delay e \<noteq> None) \<and>
     (k < 3 \<longrightarrow> (\<forall>e. signed_get ft net k base path (add_param ''recvWindow'' ''60000'' ps) weight = Inl e \<longrightarrow> history_retry_delay e = None))"
  using retry_get_spec [where again = "\<lambda>error. history_retry_delay error \<noteq> None" and n = 3
      and send = "\<lambda>retry. signed_get ft net retry base path (add_param ''recvWindow'' ''60000'' ps) weight"]
  unfolding history_signed_get_def history_rate_limit_retries_def not_not .

section \<open>All trades of a range\<close>

text \<open>What Binance documents: trades in the order of their ids, from an id on, or of a range of time, at most 1000 at once.\<close>

definition row_id :: "json \<Rightarrow> int" where
  "row_id row = or_zero_time (value_i64 row ''id'')"

definition row_time :: "json \<Rightarrow> int" where
  "row_time row = or_zero_time (value_i64 row ''time'')"

definition trade_listing :: "(f64 \<Rightarrow> string) \<Rightarrow> json list \<Rightarrow> bool" where
  "trade_listing ft db \<longleftrightarrow>
     (\<forall>row \<in> set db. value_i64 row ''id'' \<noteq> None \<and> value_i64 row ''time'' \<noteq> None \<and> row_id row < i64_max) \<and>
     sorted_wrt (<) (map row_id db) \<and> sorted (map row_time db) \<and> distinct (map (row_key ft [''symbol'', ''id'']) db)"

definition selected :: "time_range \<Rightarrow> int option \<Rightarrow> json \<Rightarrow> bool" where
  "selected chunk from_id row = (case from_id of Some n \<Rightarrow> n \<le> row_id row | None \<Rightarrow> in_range chunk (row_time row))"

definition request_ok :: "time_range \<Rightarrow> int option \<Rightarrow> bool" where
  "request_ok chunk from_id \<longleftrightarrow> 0 \<le> rg_start_ms chunk \<and> rg_start_ms chunk \<le> rg_end_ms chunk \<and> rg_end_ms chunk \<le> i64_max \<and> (case from_id of Some n \<Rightarrow> is_i64 n | None \<Rightarrow> True)"

definition serves_trades :: "(f64 \<Rightarrow> string) \<Rightarrow> transport \<Rightarrow> string \<Rightarrow> string \<Rightarrow> string \<Rightarrow> nat \<Rightarrow> json list \<Rightarrow> bool" where
  "serves_trades ft net base path symbol weight db \<longleftrightarrow>
     (\<forall>chunk from_id. request_ok chunk from_id \<longrightarrow> (\<exists>page. history_signed_get ft net base path (trades_params symbol chunk from_id) weight = Inr (JArray page) \<and>
        mset page = mset (take page_limit (filter (selected chunk from_id) db))))"

lemma trades_page_complete:
  assumes listing: "trade_listing ft db" and serves: "serves_trades ft net base path symbol weight db"
    and chunk: "0 \<le> rg_start_ms chunk" "rg_start_ms chunk \<le> rg_end_ms chunk" "rg_end_ms chunk \<le> i64_max"
  shows "page_loop (trades_page ft net base path symbol weight chunk) None rows =
    Some (Inr (rows @ filter (time_within (\<lambda>row. value_i64 row ''time'') chunk) db))"
proof -
  let ?in = "time_within (\<lambda>row. value_i64 row ''time'') chunk" and ?get = "trades_page ft net base path symbol weight chunk"
  define left where "left c = filter ?in (filter (selected chunk c) db)" for c
  define m where "m c = (case c of None \<Rightarrow> Suc (length db) | Some n \<Rightarrow> length (filter (\<lambda>row. n \<le> row_id row) db))" for c :: "int option"
  have ids: "sorted_wrt (<) (map row_id db)" and times: "sorted (map row_time db)"
    and row: "\<And>row. row \<in> set db \<Longrightarrow> value_i64 row ''id'' \<noteq> None \<and> value_i64 row ''time'' \<noteq> None \<and> row_id row < i64_max"
    using listing by (auto simp: trade_listing_def)
  have i: "?in row \<longleftrightarrow> in_range chunk (row_time row)" if "row \<in> set db" for row
    using row [OF that] by (auto simp: time_within_def row_time_def or_zero_time_def)
  have page: "\<exists>page nxt. ?get c = Inr (page, nxt) \<and>
      (case nxt of None \<Rightarrow> left c = page | Some c' \<Rightarrow> request_ok chunk c' \<and> left c = page @ left c' \<and> m c' < m c)"
    if ok: "request_ok chunk c" for c
  proof -
    define sel where "sel = filter (selected chunk c) db"
    obtain raw where raw: "history_signed_get ft net base path (trades_params symbol chunk c) weight = Inr (JArray raw)"
      "mset raw = mset (take page_limit sel)" using serves ok unfolding serves_trades_def sel_def by blast
    have sel_ids: "sorted_wrt (<) (map row_id sel)" and sel_times: "sorted (map row_time sel)" and sel_set: "set sel \<subseteq> set db"
      using ids times by (auto simp: sel_def sorted_wrt_map sorted_wrt_filter)
    have take_ids: "sorted_wrt (<) (map row_id (take page_limit sel))" using sorted_wrt_take [OF sel_ids, of page_limit] by (simp add: take_map)
    have sorted: "sort_by_field ''id'' raw = take page_limit sel"
    proof -
      have "sort_key row_id raw = take page_limit sel"
        by (rule sort_key_inj_key_eq [OF raw(2)])
          (use take_ids raw(2) in \<open>auto simp: strict_sorted_iff distinct_map dest: mset_eq_setD\<close>)
      then show ?thesis by (simp add: sort_by_field_def row_id_def [abs_def])
    qed
    have get: "?get c = (if raw = [] then Inr ([], None)
        else let page = take page_limit sel in bind_res (ok_or (InvalidResponse (path @ '' page has no numeric id'')) (value_i64 (last page) ''id'')) (\<lambda>last_id.
           let last_time = or_zero_time (value_i64 (last page) ''time'')
           in Inr (filter ?in page, if length page < page_limit \<or> rg_end_ms chunk < last_time then None else Some (Some (saturating_add_i64 last_id 1)))))"
      by (simp add: trades_page_def raw(1) root_array_def as_array_def ok_or_def sorted)
    show ?thesis
    proof (cases "sel = []")
      case True
      then show ?thesis using get raw(2) by (simp add: left_def sel_def [symmetric])
    next
      case False
      let ?page = "take page_limit sel"
      have ne: "?page \<noteq> []" "raw \<noteq> []" using False raw(2) by (auto simp: page_limit_def)
      then have l: "last ?page \<in> set db" using sel_set last_in_set [OF ne(1)] set_take_subset by (meson subsetD)
      obtain n where n: "value_i64 (last ?page) ''id'' = Some n" "row_id (last ?page) = n" "n < i64_max"
        using row [OF l] by (auto simp: row_id_def or_zero_time_def)
      have lt: "or_zero_time (value_i64 (last ?page) ''time'') = row_time (last ?page)" by (simp add: row_time_def)
      show ?thesis
      proof (cases "length ?page < page_limit \<or> rg_end_ms chunk < row_time (last ?page)")
        case True
        have "filter ?in (drop page_limit sel) = []"
        proof (cases "length ?page < page_limit")
          case False
          then have late: "rg_end_ms chunk < row_time (last ?page)" using True by blast
          have "\<not> ?in x" if x: "x \<in> set (drop page_limit sel)" for x
          proof -
            have "sorted (map row_time (?page @ drop page_limit sel))" using sel_times by simp
            then have "row_time (last ?page) \<le> row_time x" using ne(1) x unfolding map_append sorted_append by simp
            moreover have "x \<in> set db" using x sel_set set_drop_subset by (meson subsetD)
            ultimately show ?thesis using late i by (simp add: in_range_def)
          qed
          then show ?thesis by (simp add: filter_empty_conv)
        qed simp
        then have "left c = filter ?in ?page"
          using filter_append [of ?in ?page "drop page_limit sel"] by (simp add: left_def sel_def [symmetric])
        moreover have "?get c = Inr (filter ?in ?page, None)" unfolding get Let_def lt using ne True n by (simp add: ok_or_def)
        ultimately show ?thesis by simp
      next
        case False
        then have len: "length ?page = page_limit" "page_limit \<le> length sel" by auto
        have lastp: "last ?page = sel ! (page_limit - 1)" using ne(1) len by (simp add: last_conv_nth)
        have rest: "drop page_limit sel = filter (\<lambda>x. n < row_id x) sel"
          using drop_sorted [OF sel_ids, of page_limit] len n(2) lastp by (simp add: page_limit_def)
        have sn: "saturating_add_i64 n 1 = n + 1" if "i64_min \<le> n + 1" using that n(3) by (simp add: saturating_add_i64_def clamp_i64_def)
        have nmin: "i64_min \<le> n" using value_i64_is_i64 [OF n(1)] by (simp add: is_i64_def)
        have "last ?page \<in> set sel" using last_in_set [OF ne(1)] set_take_subset by (meson subsetD)
        then have chosen: "selected chunk c (last ?page)" by (simp add: sel_def)
        have lefts: "filter ?in (filter (\<lambda>x. n < row_id x) sel) = left (Some (n + 1))"
        proof (cases c)
          case None
          then show ?thesis using i unfolding left_def sel_def filter_filter
            by (intro filter_cong) (auto simp: selected_def)
        next
          case (Some k)
          then have "k \<le> n" using chosen n(2) by (simp add: selected_def)
          then show ?thesis using Some unfolding left_def sel_def filter_filter by (intro filter_cong) (auto simp: selected_def)
        qed
        have "left c = filter ?in (?page @ drop page_limit sel)" by (simp add: left_def sel_def)
        also have "\<dots> = filter ?in ?page @ filter ?in (drop page_limit sel)" by (rule filter_append)
        also have "filter ?in (drop page_limit sel) = left (Some (n + 1))" using lefts unfolding rest .
        finally have "left c = filter ?in ?page @ left (Some (n + 1))" .
        moreover have "m (Some (n + 1)) < m c"
        proof (cases c)
          case None
          then show ?thesis by (simp add: m_def less_Suc_eq_le)
        next
          case (Some k)
          then have k: "k \<le> n" using chosen n(2) by (simp add: selected_def)
          have f: "filter (\<lambda>row. n + 1 \<le> row_id row) db = filter (\<lambda>row. n + 1 \<le> row_id row) (filter (\<lambda>row. k \<le> row_id row) db)"
            using k by (auto intro!: filter_cong)
          have "length (filter (\<lambda>row. n + 1 \<le> row_id row) (filter (\<lambda>row. k \<le> row_id row) db)) < length (filter (\<lambda>row. k \<le> row_id row) db)"
            by (rule length_filter_less [of "last ?page"]) (use l k n(2) in auto)
          then show ?thesis using Some f by (simp add: m_def)
        qed
        moreover have "?get c = Inr (filter ?in ?page, Some (Some (n + 1)))" unfolding get Let_def lt using ne False n nmin sn by (simp add: ok_or_def)
        moreover have "request_ok chunk (Some (n + 1))" using chunk n(3) nmin by (simp add: request_ok_def is_i64_def)
        ultimately show ?thesis by simp
      qed
    qed
  qed
  have "page_loop ?get None rows = Some (Inr (rows @ left None))" by (rule page_loop_complete [where I = "request_ok chunk" and m = m]) (use page chunk in \<open>auto simp: request_ok_def\<close>)
  moreover have "left None = filter ?in db" unfolding left_def filter_filter using i by (intro filter_cong) (auto simp: selected_def)
  ultimately show ?thesis by simp
qed

lemma paged_trades_spec:
  assumes "trade_listing ft db" "serves_trades ft net base path symbol weight db"
    and r: "0 \<le> rg_start_ms r" "rg_start_ms r \<le> rg_end_ms r" "rg_end_ms r < i64_max" and "0 < chunk_span_ms"
  shows "paged_trades ft net base path symbol r chunk_span_ms weight =
    Some (Inr (filter (time_within (\<lambda>row. value_i64 row ''time'') r) db))"
proof -
  let ?t = "\<lambda>row. value_i64 row ''time''"
  obtain cs where cs: "checked_chunks r chunk_span_ms = Some (Inr cs)" "tiles chunk_span_ms (rg_start_ms r) (rg_end_ms r) cs"
    using checked_chunks_spec [OF r] assms(6) by blast
  have rows: "\<forall>row \<in> set db. ?t row \<noteq> None" and times: "sorted (map row_time db)" and keys: "distinct (map (row_key ft [''symbol'', ''id'']) db)"
    using assms(1) by (auto simp: trade_listing_def)
  have eq: "map row_time db = map (\<lambda>row. the (?t row)) db" using rows by (auto simp: row_time_def or_zero_time_def)
  have sorted: "sorted (map (\<lambda>row. the (?t row)) db)" using times unfolding eq .
  have "for_chunks (\<lambda>chunk. page_loop (trades_page ft net base path symbol weight chunk) None) cs [] =
      Some (Inr ([] @ concat (map (\<lambda>c. filter (time_within ?t c) db) cs)))"
  proof (rule for_chunks_complete)
    fix c rows assume "c \<in> set cs"
    then have "0 \<le> rg_start_ms c" "rg_start_ms c \<le> rg_end_ms c" "rg_end_ms c \<le> i64_max" using tiles_range [OF cs(2)] r by fastforce+
    then show "page_loop (trades_page ft net base path symbol weight c) None rows = Some (Inr (rows @ filter (time_within ?t c) db))"
      by (rule trades_page_complete [OF assms(1,2)])
  qed
  also have "concat (map (\<lambda>c. filter (time_within ?t c) db) cs) = filter (time_within ?t r) db"
    using concat_tiles [OF cs(2) rows sorted] by simp
  finally have loops: "for_chunks (\<lambda>chunk. page_loop (trades_page ft net base path symbol weight chunk) None) cs [] =
      Some (Inr (filter (time_within ?t r) db))" by simp
  have "dedup ft [''symbol'', ''id''] (filter (time_within ?t r) db) = filter (time_within ?t r) db"
    by (rule dedup_distinct) (use keys in \<open>simp add: distinct_map_filter\<close>)
  moreover have "sort_by_field ''time'' (filter (time_within ?t r) db) = filter (time_within ?t r) db"
    by (rule sort_by_field_sorted) (use times in \<open>auto simp: row_time_def [abs_def] intro: sorted_filter\<close>)
  ultimately show ?thesis using cs(1) loops by (simp add: paged_trades_def)
qed

text \<open>C6: If Binance answers as it documents - trades in the order of their ids from an id on or of a range of time, at most
  1000 at once - the client ends and returns every trade of the range exactly once, in order, whatever the length of the chunks
  and wherever the pages are cut.\<close>

theorem paged_trades_complete:
  assumes "trade_listing ft db" "serves_trades ft net base path symbol weight db"
    and "0 \<le> rg_start_ms r" "rg_start_ms r \<le> rg_end_ms r" "rg_end_ms r < i64_max" "0 < chunk_span_ms"
  shows "paged_trades ft net base path symbol r chunk_span_ms weight =
    Some (Inr (filter (time_within (\<lambda>row. value_i64 row ''time'') r) db))"
  by (rule paged_trades_spec [OF assms])

definition sample_trade_rows :: "json list" where
  "sample_trade_rows = map (\<lambda>n. JObject [(''symbol'', JString ''A''), (''id'', JNumber (JInt n)), (''time'', JNumber (JInt (10 * n)))]) [1, 2, 3]"

definition sample_trade_net :: transport where
  "sample_trade_net = (\<lambda>attempt base path ps weight. Inr (JArray (take page_limit (filter
     (\<lambda>row. case map_of ps ''fromId'' of
        Some t \<Rightarrow> (case parse_i64 t of Some n \<Rightarrow> n \<le> row_id row | None \<Rightarrow> False)
      | None \<Rightarrow> (case (map_of ps ''startTime'', map_of ps ''endTime'') of
          (Some s, Some e) \<Rightarrow> (case (parse_i64 s, parse_i64 e) of (Some a, Some b) \<Rightarrow> a \<le> row_time row \<and> row_time row \<le> b | _ \<Rightarrow> False)
        | _ \<Rightarrow> False)) sample_trade_rows))))"

lemma sample_trades_served: "serves_trades ft sample_trade_net base path ''A'' 5 sample_trade_rows"
  unfolding serves_trades_def
proof (intro allI impI)
  fix chunk from_id assume ok: "request_ok chunk from_id"
  let ?page = "take page_limit (filter (selected chunk from_id) sample_trade_rows)"
  have n: "is_i64 k \<Longrightarrow> parse_i64 (int_text k) = Some k" for k by (rule parse_i64_int_text)
  have "sample_trade_net 0 base path (add_param ''recvWindow'' ''5000'' (add_param ''recvWindow'' ''60000'' (trades_params ''A'' chunk from_id))) 5 = Inr (JArray ?page)"
  proof (cases from_id)
    case (Some k)
    then have "is_i64 k" using ok by (simp add: request_ok_def)
    then show ?thesis using Some n by (simp add: sample_trade_net_def trades_params_def add_param_def selected_def [abs_def])
  next
    case None
    have "is_i64 (rg_start_ms chunk)" "is_i64 (rg_end_ms chunk)" using ok by (auto simp: request_ok_def is_i64_def i64_min_def)
    then show ?thesis using None n by (simp add: sample_trade_net_def trades_params_def add_param_def selected_def [abs_def] in_range_def)

  qed
  then have "history_signed_get ft sample_trade_net base path (trades_params ''A'' chunk from_id) 5 = Inr (JArray ?page)"
    by (simp add: history_signed_get_def history_rate_limit_retries_def retry_get_def signed_get_def check_api_error_def json_get_def numeral_3_eq_3)
  then show "\<exists>page. history_signed_get ft sample_trade_net base path (trades_params ''A'' chunk from_id) 5 = Inr (JArray page) \<and>
      mset page = mset (take page_limit (filter (selected chunk from_id) sample_trade_rows))" by blast
qed

lemma paged_trades_complete_witness:
  "paged_trades (\<lambda>_. []) sample_trade_net fapi_base ''/fapi/v1/userTrades'' ''A'' \<lparr>rg_start_ms = 15, rg_end_ms = 40\<rparr> 9 5 =
     Some (Inr (tl sample_trade_rows))"
proof -
  have q: "quote_text ''A'' = [char_of (34 :: nat), CHR ''A'', char_of (34 :: nat)]" by code_simp
  have d: "int_text 1 = ''1''" "int_text 2 = ''2''" "int_text 3 = ''3''" by code_simp+
  have "trade_listing (\<lambda>_. []) sample_trade_rows"
    by (simp add: trade_listing_def sample_trade_rows_def value_i64_def json_get_def as_i64_def is_i64_def i64_min_def i64_max_def
        row_id_def row_time_def or_zero_time_def row_key_def d q)
  from paged_trades_complete [OF this sample_trades_served, of "\<lparr>rg_start_ms = 15, rg_end_ms = 40\<rparr>" 9 fapi_base "''/fapi/v1/userTrades''"]
  show ?thesis
    by (simp add: i64_max_def) (simp add: sample_trade_rows_def time_within_def value_i64_def json_get_def as_i64_def is_i64_def i64_min_def
        i64_max_def in_range_def)
qed


section \<open>All forced orders of a range\<close>

text \<open>Binance answers a window with its rows when they are fewer than the limit, and otherwise with a full page of them.\<close>

definition serves_force_orders :: "(f64 \<Rightarrow> string) \<Rightarrow> transport \<Rightarrow> string \<Rightarrow> string \<Rightarrow> string option \<Rightarrow> auto_close_type option \<Rightarrow> json list \<Rightarrow> bool" where
  "serves_force_orders ft net base path symbol close_type db \<longleftrightarrow>
     (\<forall>w. 0 \<le> rg_start_ms w \<longrightarrow> rg_start_ms w \<le> rg_end_ms w \<longrightarrow> rg_end_ms w \<le> i64_max \<longrightarrow>
        (let found = filter (time_within (\<lambda>row. value_i64 row ''time'') w) db
         in \<exists>page. signed_get ft net 0 base path (force_order_params symbol close_type w) (if symbol \<noteq> None then 20 else 50) = Inr (JArray page) \<and>
              (if length found < force_order_limit then mset page = mset found else length page = force_order_limit)))"

text \<open>C29: The client returns every forced order of the range exactly once, ordered by time, unless a single instant has as many
  as an answer may hold; then, and only then, it fails.  It always ends.\<close>

theorem force_orders_complete:
  assumes "serves_force_orders ft net base path symbol close_type db" "distinct (map (row_key ft [''orderId'', ''symbol'']) db)"
    and r: "0 \<le> rg_start_ms r" "rg_start_ms r \<le> rg_end_ms r" "rg_end_ms r < i64_max"
  shows "if \<exists>t. in_range r t \<and> 100 \<le> length (filter (\<lambda>row. value_i64 row ''time'' = Some t) db)
    then \<exists>e. paged_force_orders ft net base path symbol close_type r = Some (Inl e)
    else \<exists>out. paged_force_orders ft net base path symbol close_type r = Some (Inr out) \<and>
      mset out = mset (filter (time_within (\<lambda>row. value_i64 row ''time'') r) db) \<and> sorted (map row_time out)"
proof -
  let ?t = "\<lambda>row. value_i64 row ''time''" and ?fetch = "force_order_window ft net base path symbol close_type"
  let ?msg = "''force orders exceeded the row limit; query by symbol''"
  have c: "complete_windows 100 ?t db ?fetch" unfolding complete_windows_def
  proof (intro allI impI)
    fix w :: time_range assume w: "0 \<le> rg_start_ms w" "rg_start_ms w \<le> rg_end_ms w" "rg_end_ms w \<le> i64_max"
    let ?found = "filter (time_within ?t w) db"
    obtain page where page: "signed_get ft net 0 base path (force_order_params symbol close_type w) (if symbol \<noteq> None then 20 else 50) = Inr (JArray page)"
      "if length ?found < 100 then mset page = mset ?found else length page = 100"
      using assms(1) w unfolding serves_force_orders_def Let_def force_order_limit_def by blast
    have f: "?fetch w = Inr (if length page = 100 then None else Some (filter (time_within ?t w) page))"
      using page(1) by (simp add: force_order_window_def root_array_def as_array_def ok_or_def force_order_limit_def)
    show "if length ?found < 100 then \<exists>page. ?fetch w = Inr (Some page) \<and> mset page = mset ?found else ?fetch w = Inr None"
    proof (cases "length ?found < 100")
      case True
      then have m: "mset page = mset ?found" using page(2) by simp
      then have "length page < 100" using True mset_eq_length by metis
      moreover have "filter (time_within ?t w) page = page" using mset_eq_setD [OF m] by (auto intro: filter_True)
      ultimately show ?thesis using f m True by simp
    next
      case False
      then show ?thesis using f page(2) by simp
    qed
  qed
  obtain ws where ws: "checked_chunks r seven_days_ms = Some (Inr ws)" "tiles seven_days_ms (rg_start_ms r) (rg_end_ms r) ws"
    using checked_chunks_spec [OF r, of seven_days_ms] by (auto simp: seven_days_ms_def)
  have cr: "checked_range r = Inr r" using r by (simp add: checked_range_def time_range_new_def)
  have W: "if crowded 100 ?t db r then window_loop ?fetch (split_range ?msg) ws [] = Some (Inl (InvalidResponse ?msg))
    else \<exists>out. window_loop ?fetch (split_range ?msg) ws [] = Some (Inr ([] @ out)) \<and> mset out = mset (filter (time_within ?t r) db)"
    using window_loop_complete [OF c ws(2) r(1) less_imp_le [OF r(3)], where msg = ?msg and rows = "[]"] unfolding range_eta .
  show ?thesis
  proof (cases "crowded 100 ?t db r")
    case True
    then show ?thesis using W ws(1) cr by (auto simp: paged_force_orders_def crowded_def)
  next
    case False
    then obtain out where out: "window_loop ?fetch (split_range ?msg) ws [] = Some (Inr out)" "mset out = mset (filter (time_within ?t r) db)"
      using W by auto
    have "mset (map (row_key ft [''orderId'', ''symbol'']) out) = mset (map (row_key ft [''orderId'', ''symbol'']) (filter (time_within ?t r) db))"
      using out(2) by simp
    then have "distinct (map (row_key ft [''orderId'', ''symbol'']) out)"
      using distinct_map_filter [OF assms(2)] mset_eq_imp_distinct_iff by blast
    then have d: "dedup ft [''orderId'', ''symbol''] out = out" by (rule dedup_distinct)
    have "paged_force_orders ft net base path symbol close_type r = Some (Inr (sort_by_field ''time'' out))"
      using cr ws(1) out(1) d by (simp add: paged_force_orders_def)
    moreover have "mset (sort_by_field ''time'' out) = mset (filter (time_within ?t r) db)" using out(2) by (simp add: sort_by_field_def)
    moreover have "sorted (map row_time (sort_by_field ''time'' out))" by (simp add: sort_by_field_def row_time_def [abs_def])
    ultimately show ?thesis using False by (auto simp: crowded_def)
  qed
qed

definition sample_force_rows :: "json list" where
  "sample_force_rows = map (\<lambda>n. JObject [(''symbol'', JString ''A''), (''orderId'', JNumber (JInt n)), (''time'', JNumber (JInt (10 * n)))]) [1, 2, 3]"

definition sample_force_net :: transport where
  "sample_force_net = (\<lambda>attempt base path ps weight. Inr (JArray (case (map_of ps ''startTime'', map_of ps ''endTime'') of
      (Some s, Some e) \<Rightarrow> (case (parse_i64 s, parse_i64 e) of
          (Some a, Some b) \<Rightarrow> filter (time_within (\<lambda>row. value_i64 row ''time'') \<lparr>rg_start_ms = a, rg_end_ms = b\<rparr>) sample_force_rows | _ \<Rightarrow> [])
    | _ \<Rightarrow> [])))"

lemma force_orders_complete_witness:
  "\<exists>out. paged_force_orders (\<lambda>_. []) sample_force_net papi_base ''/papi/v1/um/forceOrders'' None None \<lparr>rg_start_ms = 0, rg_end_ms = 25\<rparr> = Some (Inr out) \<and>
     mset out = mset (take 2 sample_force_rows)"
proof -
  have len: "length (filter P sample_force_rows) < 100" for P
    using length_filter_le [of P sample_force_rows] by (simp add: sample_force_rows_def)
  have "serves_force_orders (\<lambda>_. []) sample_force_net papi_base ''/papi/v1/um/forceOrders'' None None sample_force_rows"
    unfolding serves_force_orders_def Let_def
  proof (intro allI impI)
    fix w :: time_range assume w: "0 \<le> rg_start_ms w" "rg_start_ms w \<le> rg_end_ms w" "rg_end_ms w \<le> i64_max"
    let ?found = "filter (time_within (\<lambda>row. value_i64 row ''time'') w) sample_force_rows"
    have "is_i64 (rg_start_ms w)" "is_i64 (rg_end_ms w)" using w by (auto simp: is_i64_def i64_min_def)
    then have "signed_get (\<lambda>_. []) sample_force_net 0 papi_base ''/papi/v1/um/forceOrders'' (force_order_params None None w) 50 = Inr (JArray ?found)"
      by (simp add: signed_get_def sample_force_net_def force_order_params_def add_param_def parse_i64_int_text check_api_error_def json_get_def)
    then show "\<exists>page. signed_get (\<lambda>_. []) sample_force_net 0 papi_base ''/papi/v1/um/forceOrders'' (force_order_params None None w)
        (if None \<noteq> (None :: string option) then 20 else 50) = Inr (JArray page) \<and>
        (if length ?found < force_order_limit then mset page = mset ?found else length page = force_order_limit)"
      using len by (auto simp: force_order_limit_def)
  qed
  moreover have "distinct (map (row_key (\<lambda>_. []) [''orderId'', ''symbol'']) sample_force_rows)"
  proof -
    have "quote_text ''A'' = [char_of (34 :: nat), CHR ''A'', char_of (34 :: nat)]" by code_simp
    moreover have "int_text 1 = ''1''" "int_text 2 = ''2''" "int_text 3 = ''3''" by code_simp+
    ultimately show ?thesis by (simp add: sample_force_rows_def row_key_def json_get_def)
  qed
  moreover have "\<not> (\<exists>t. in_range \<lparr>rg_start_ms = 0, rg_end_ms = 25\<rparr> t \<and>
      100 \<le> length (filter (\<lambda>row. value_i64 row ''time'' = Some t) sample_force_rows))" using len by (meson not_le)
  moreover have "filter (time_within (\<lambda>row. value_i64 row ''time'') \<lparr>rg_start_ms = 0, rg_end_ms = 25\<rparr>) sample_force_rows = take 2 sample_force_rows"
    by (simp add: sample_force_rows_def time_within_def value_i64_def json_get_def as_i64_def is_i64_def i64_min_def i64_max_def in_range_def)
  ultimately have S: "serves_force_orders (\<lambda>_. []) sample_force_net papi_base ''/papi/v1/um/forceOrders'' None None sample_force_rows"
    "distinct (map (row_key (\<lambda>_. []) [''orderId'', ''symbol'']) sample_force_rows)"
    "\<not> (\<exists>t. in_range \<lparr>rg_start_ms = 0, rg_end_ms = 25\<rparr> t \<and> 100 \<le> length (filter (\<lambda>row. value_i64 row ''time'' = Some t) sample_force_rows))"
    "filter (time_within (\<lambda>row. value_i64 row ''time'') \<lparr>rg_start_ms = 0, rg_end_ms = 25\<rparr>) sample_force_rows = take 2 sample_force_rows" by blast+
  have r: "0 \<le> rg_start_ms \<lparr>rg_start_ms = 0, rg_end_ms = 25\<rparr>" "rg_start_ms \<lparr>rg_start_ms = 0, rg_end_ms = 25\<rparr> \<le> rg_end_ms \<lparr>rg_start_ms = 0, rg_end_ms = 25\<rparr>"
    "rg_end_ms \<lparr>rg_start_ms = 0, rg_end_ms = 25\<rparr> < i64_max" by (simp_all add: i64_max_def)
  show ?thesis using force_orders_complete [OF S(1,2) r] unfolding if_not_P [OF S(3)] S(4) by blast
qed


section \<open>All margin interest of a range\<close>

lemma interest_ranges_spec:
  assumes "0 \<le> rg_start_ms r" "rg_start_ms r \<le> rg_end_ms r" "six_months_ms + seven_days_ms \<le> now_ms" "now_ms \<le> i64_max"
  shows "margin_interest_query_ranges r now_ms =
    (let cutoff = now_ms - six_months_ms
     in Inr ((if rg_start_ms r \<le> cutoff + seven_days_ms
              then [(\<lparr>rg_start_ms = rg_start_ms r, rg_end_ms = min (rg_end_ms r) (cutoff + seven_days_ms)\<rparr>, True)] else []) @
             (if cutoff - seven_days_ms \<le> rg_end_ms r
              then [(\<lparr>rg_start_ms = max (rg_start_ms r) (cutoff - seven_days_ms), rg_end_ms = rg_end_ms r\<rparr>, False)] else [])))"
proof -
  have s: "saturating_sub_i64 now_ms six_months_ms = now_ms - six_months_ms"
    "saturating_add_i64 (now_ms - six_months_ms) seven_days_ms = now_ms - six_months_ms + seven_days_ms"
    "saturating_sub_i64 (now_ms - six_months_ms) seven_days_ms = now_ms - six_months_ms - seven_days_ms"
    using assms(3,4) by (simp_all add: saturating_sub_i64_def saturating_add_i64_def clamp_i64_def six_months_ms_def seven_days_ms_def one_day_ms_def
        i64_min_def i64_max_def)
  show ?thesis using assms by (auto simp: margin_interest_query_ranges_def Let_def s time_range_new_def)
qed

text \<open>An entry is in the archive, among the recent ones, or, near the age of six months, in both; pages are numbered.\<close>

definition interest_time :: "json \<Rightarrow> int option" where
  "interest_time row = value_i64 row ''interestAccuredTime''"

definition serves_interest :: "(f64 \<Rightarrow> string) \<Rightarrow> transport \<Rightarrow> binance_mode \<Rightarrow> string option \<Rightarrow> (bool \<Rightarrow> json list) \<Rightarrow> bool" where
  "serves_interest ft net mode asset db \<longleftrightarrow>
     (\<forall>archived chunk k. 0 \<le> rg_start_ms chunk \<longrightarrow> rg_start_ms chunk \<le> rg_end_ms chunk \<longrightarrow> rg_end_ms chunk \<le> i64_max \<longrightarrow> 1 \<le> k \<longrightarrow> k < 2 ^ 32 \<longrightarrow>
        margin_interest_page ft net mode asset archived chunk k =
          Inr (let page = slice 100 k (filter (time_within interest_time chunk) (db archived))
            in (page, if length page < 100 then None else Some (next_u32 k))))"

definition interest_split :: "int \<Rightarrow> (bool \<Rightarrow> json list) \<Rightarrow> json list \<Rightarrow> bool" where
  "interest_split now_ms db entries \<longleftrightarrow>
     set entries = set (db True) \<union> set (db False) \<and>
     (\<forall>row \<in> set (db True). \<exists>t. interest_time row = Some t \<and> t \<le> now_ms - six_months_ms + seven_days_ms) \<and>
     (\<forall>row \<in> set (db False). \<exists>t. interest_time row = Some t \<and> now_ms - six_months_ms - seven_days_ms \<le> t)"

lemma margin_interest_rows:
  assumes serves: "serves_interest ft net mode asset db" and len: "length (db archived) < 2 ^ 32 - 2"
    and inj: "inj_on (row_key ft [''txId'']) (set (db archived))"
    and r: "0 \<le> rg_start_ms r" "rg_start_ms r \<le> rg_end_ms r" "rg_end_ms r < i64_max"
  shows "\<exists>rows. margin_interest ft net mode r asset archived = Some (Inr rows) \<and>
    set rows = {row \<in> set (db archived). time_within interest_time r row}"
proof -
  obtain cs where cs: "checked_chunks r thirty_days_ms = Some (Inr cs)" "tiles thirty_days_ms (rg_start_ms r) (rg_end_ms r) cs"
    using checked_chunks_spec [OF r, of thirty_days_ms] by (auto simp: thirty_days_ms_def one_day_ms_def)
  let ?in = "\<lambda>c. filter (time_within interest_time c) (db archived)"
  have "for_chunks (\<lambda>chunk. page_loop (margin_interest_page ft net mode asset archived chunk) 1) cs [] = Some (Inr ([] @ concat (map ?in cs)))"
  proof (rule for_chunks_complete)
    fix c acc assume "c \<in> set cs"
    then have c: "0 \<le> rg_start_ms c" "rg_start_ms c \<le> rg_end_ms c" "rg_end_ms c \<le> i64_max" using tiles_range [OF cs(2)] r by fastforce+
    have "page_loop (margin_interest_page ft net mode asset archived c) 1 acc = Some (Inr (acc @ filter (\<lambda>_. True) (?in c)))"
    proof (rule numbered_pages_complete [where n = 100])
      fix k assume k: "1 \<le> k" "k \<le> int (length (?in c)) + 1"
      have "length (?in c) \<le> length (db archived)" "length (db archived) < 4294967294" using len by simp_all
      then have "k < 4294967295" using k(2) by linarith
      then show "margin_interest_page ft net mode asset archived c k =
        Inr (filter (\<lambda>_. True) (slice 100 k (?in c)), if length (slice 100 k (?in c)) < 100 then None else Some (k + 1))"
        using serves c k(1) by (simp add: serves_interest_def Let_def next_u32_def)
    qed simp
    then show "page_loop (margin_interest_page ft net mode asset archived c) 1 acc = Some (Inr (acc @ ?in c))" by simp
  qed
  then have m: "margin_interest ft net mode r asset archived =
      Some (Inr (sort_by_field ''interestAccuredTime'' (dedup ft [''txId''] (concat (map ?in cs)))))" using cs(1) by (simp add: margin_interest_def)
  have all: "set (concat (map ?in cs)) = {row \<in> set (db archived). time_within interest_time r row}"
  proof (intro set_eqI iffI)
    fix row assume "row \<in> set (concat (map ?in cs))"
    then obtain c where c: "c \<in> set cs" "row \<in> set (db archived)" "time_within interest_time c row" by auto
    then obtain t where "interest_time row = Some t" "in_range c t" by (auto simp: time_within_def split: option.splits)
    then show "row \<in> {row \<in> set (db archived). time_within interest_time r row}"
      using c(2) tiles_range [OF cs(2) c(1)] by (simp add: time_within_def in_range_def)
  next
    fix row assume row: "row \<in> {row \<in> set (db archived). time_within interest_time r row}"
    then obtain t where t: "interest_time row = Some t" "rg_start_ms r \<le> t" "t \<le> rg_end_ms r"
      by (auto simp: time_within_def in_range_def split: option.splits)
    then obtain c where "c \<in> set cs" "in_range c t" using tiles_cover [OF cs(2) t(2,3)] by (auto simp: in_range_def)
    then have "c \<in> set cs" "row \<in> set (?in c)" using row t(1) by (simp_all add: time_within_def)
    then show "row \<in> set (concat (map ?in cs))" by auto
  qed
  then have "inj_on (row_key ft [''txId'']) (set (concat (map ?in cs)))" using inj by (auto intro: inj_on_subset)
  then have "set (sort_by_field ''interestAccuredTime'' (dedup ft [''txId''] (concat (map ?in cs)))) = {row \<in> set (db archived). time_within interest_time r row}"
    using dedup_set(1) all by (simp add: sort_by_field_def)
  then show ?thesis using m by blast
qed


definition sample_interest :: "int \<Rightarrow> json" where
  "sample_interest t = JObject [(''txId'', JNumber (JInt t)), (''interestAccuredTime'', JNumber (JInt (t * one_day_ms)))]"

definition sample_interest_db :: "bool \<Rightarrow> json list" where
  "sample_interest_db archived = map sample_interest (if archived then [1, 20] else [20, 30])"

definition sample_interest_net :: transport where
  "sample_interest_net = (\<lambda>attempt base path ps weight. Inr (JObject [(''rows'', JArray
     (case (map_of ps ''startTime'', map_of ps ''endTime'') of
        (Some s, Some e) \<Rightarrow> (case (parse_i64 s, parse_i64 e) of
            (Some a, Some b) \<Rightarrow> if map_of ps ''current'' \<noteq> Some (int_text 1) then []
              else filter (time_within interest_time \<lparr>rg_start_ms = a, rg_end_ms = b\<rparr>) (sample_interest_db (map_of ps ''archived'' = Some ''true''))
          | _ \<Rightarrow> [])
      | _ \<Rightarrow> []))]))"



end
