(* ===== verification/CursorClients.thy ===== *)
theory CursorClients
  imports ExchangeCommon
begin

text \<open>
  The history requests of \<open>bybit.rs\<close>, \<open>okx.rs\<close> and \<open>bitget.rs\<close> under \<open>src/src/exchange\<close>, which page with a cursor
  that the previous page gives.
\<close>

section \<open>Bybit\<close>

definition bybit_page_limit :: nat where "bybit_page_limit = 50"
definition bybit_chunk_ms :: int where "bybit_chunk_ms = 7 * 24 * 60 * 60 * 1000"

datatype bybit_category = SpotCategory | LinearCategory | InverseCategory | OptionCategory

definition category_value :: "bybit_category \<Rightarrow> string" where
  "category_value c = (case c of SpotCategory \<Rightarrow> ''spot'' | LinearCategory \<Rightarrow> ''linear'' | InverseCategory \<Rightarrow> ''inverse'' | OptionCategory \<Rightarrow> ''option'')"

datatype transaction_type = Settlement | InterestTransaction

definition transaction_value :: "transaction_type \<Rightarrow> string" where
  "transaction_value t = (case t of Settlement \<Rightarrow> ''SETTLEMENT'' | InterestTransaction \<Rightarrow> ''INTEREST'')"

definition bybit_check :: "(f64 \<Rightarrow> string) \<Rightarrow> json \<Rightarrow> exchange_error + json" where
  "bybit_check ft v =
     (case json_get ''retCode'' v of
        None \<Rightarrow> Inl (InvalidResponse ''response is missing retCode'')
      | Some code \<Rightarrow> if api_code ft code = ''0'' then Inr v
          else Inl (ApiError (api_code ft code) (api_message ''retMsg'' ''unknown Bybit API error'' v)))"

definition is_timestamp_error :: "exchange_error \<Rightarrow> bool" where
  "is_timestamp_error e = (case e of ApiError code _ \<Rightarrow> code = ''10002'' | _ \<Rightarrow> False)"

definition bybit_get :: "(f64 \<Rightarrow> string) \<Rightarrow> transport \<Rightarrow> string \<Rightarrow> params \<Rightarrow> exchange_error + json" where
  "bybit_get ft net path ps =
     retry_get is_timestamp_error (\<lambda>attempt. bind_res (net attempt ''https://api.bybit.com'' path ps 1) (bybit_check ft)) 1"

definition result_list :: "string \<Rightarrow> json \<Rightarrow> exchange_error + json list" where
  "result_list label v =
     ok_or (InvalidResponse (label @ '' response is missing result.list''))
       (Option.bind (json_get ''result'' v) (\<lambda>r. Option.bind (json_get ''list'' r) as_array))"

definition next_page_cursor :: "json \<Rightarrow> string option" where
  "next_page_cursor v =
     non_empty (Option.bind (json_get ''result'' v) (\<lambda>r. Option.bind (json_get ''nextPageCursor'' r) as_str))"

definition cursor_param :: "string \<Rightarrow> string option \<Rightarrow> params" where
  "cursor_param name cursor = (case cursor of Some c \<Rightarrow> [(name, c)] | None \<Rightarrow> [])"

definition window_params :: "time_range \<Rightarrow> nat \<Rightarrow> params" where
  "window_params chunk limit =
     [(''startTime'', int_text (rg_start_ms chunk)), (''endTime'', int_text (rg_end_ms chunk)), (''limit'', int_text (int limit))]"

definition bybit_page :: "(f64 \<Rightarrow> string) \<Rightarrow> transport \<Rightarrow> string \<Rightarrow> params \<Rightarrow> nat \<Rightarrow> time_range \<Rightarrow> string option \<times> string list \<Rightarrow>
    exchange_error + json list \<times> (string option \<times> string list) option" where
  "bybit_page ft net path base_ps limit chunk = (\<lambda>(cursor, seen).
     bind_res (bybit_get ft net path (base_ps @ window_params chunk limit @ cursor_param ''cursor'' cursor)) (\<lambda>v.
     bind_res (result_list path v) (\<lambda>page.
       (case next_page_cursor v of
          None \<Rightarrow> Inr (page, None)
        | Some c \<Rightarrow> if c \<in> set seen then Inl (InvalidResponse (path @ '' pagination cursor did not advance''))
            else Inr (page, Some (Some c, c # seen))))))"

definition bybit_paged_rows :: "(f64 \<Rightarrow> string) \<Rightarrow> transport \<Rightarrow> string \<Rightarrow> params \<Rightarrow> time_range \<Rightarrow> nat \<Rightarrow> history" where
  "bybit_paged_rows ft net path base_ps r limit =
     then_res (checked_chunks r bybit_chunk_ms) (\<lambda>chunks.
       for_chunks (\<lambda>chunk. page_loop (bybit_page ft net path base_ps limit chunk) (None, [])) chunks [])"

definition bybit_trades :: "(f64 \<Rightarrow> string) \<Rightarrow> transport \<Rightarrow> bybit_category \<Rightarrow> string option \<Rightarrow> time_range \<Rightarrow> history" where
  "bybit_trades ft net category symbol r =
     then_res (Some (checked_range r)) (\<lambda>r.
     then_res (bybit_paged_rows ft net ''/v5/execution/list''
         ([(''category'', category_value category), (''execType'', ''Trade'')] @
          (case symbol of Some s \<Rightarrow> [(''symbol'', to_ascii_uppercase s)] | None \<Rightarrow> [])) r 100) (\<lambda>rows.
       Some (Inr (sort_by_fields [''execTime''] (dedup ft [''category'', ''symbol'', ''execId'']
         (filter (time_within (\<lambda>row. value_i64 row ''execTime'') r) rows))))))"

definition transaction_log :: "(f64 \<Rightarrow> string) \<Rightarrow> transport \<Rightarrow> bybit_category option \<Rightarrow> transaction_type \<Rightarrow> time_range \<Rightarrow> history" where
  "transaction_log ft net category t r =
     then_res (Some (checked_range r)) (\<lambda>r.
     then_res (bybit_paged_rows ft net ''/v5/account/transaction-log''
         ([(''accountType'', ''UNIFIED''), (''type'', transaction_value t)] @
          (case category of Some c \<Rightarrow> [(''category'', category_value c)] | None \<Rightarrow> [])) r bybit_page_limit) (\<lambda>rows.
       Some (Inr (sort_by_fields [''transactionTime''] (dedup ft [''id'']
         (filter (time_within (\<lambda>row. value_i64 row ''transactionTime'') r) rows))))))"

definition require_derivatives :: "bybit_category \<Rightarrow> string \<Rightarrow> exchange_error + unit" where
  "require_derivatives category operation =
     (if category \<in> {LinearCategory, InverseCategory} then Inr ()
      else Inl (InvalidQuery (''Bybit '' @ operation @ '' only supports linear or inverse'')))"

definition bybit_funding_fees :: "(f64 \<Rightarrow> string) \<Rightarrow> transport \<Rightarrow> bybit_category \<Rightarrow> time_range \<Rightarrow> history" where
  "bybit_funding_fees ft net category r =
     then_res (Some (require_derivatives category ''funding fees'')) (\<lambda>_. transaction_log ft net (Some category) Settlement r)"

definition borrow_interest :: "(f64 \<Rightarrow> string) \<Rightarrow> transport \<Rightarrow> time_range \<Rightarrow> history" where
  "borrow_interest ft net r = transaction_log ft net None InterestTransaction r"

definition is_liquidation_order :: "json \<Rightarrow> bool" where
  "is_liquidation_order row \<longleftrightarrow>
     Option.bind (json_get ''createType'' row) as_str \<in> {Some ''CreateByLiq'', Some ''CreateByTakeOver_PassThrough''}"

definition order_time_ms :: "json \<Rightarrow> int option" where
  "order_time_ms row = first_i64 [''createdTime'', ''updatedTime''] row"

definition bybit_order_page :: "(f64 \<Rightarrow> string) \<Rightarrow> transport \<Rightarrow> bybit_category \<Rightarrow> string option \<Rightarrow> time_range \<Rightarrow> string option \<times> string list \<Rightarrow>
    exchange_error + json list \<times> (string option \<times> string list) option" where
  "bybit_order_page ft net category symbol chunk = (\<lambda>(cursor, seen).
     bind_res (bybit_get ft net ''/v5/order/history'' ([(''category'', category_value category)] @ window_params chunk bybit_page_limit @
       (case symbol of Some s \<Rightarrow> [(''symbol'', to_ascii_uppercase s)] | None \<Rightarrow> []) @ cursor_param ''cursor'' cursor)) (\<lambda>v.
     bind_res (result_list ''order history'' v) (\<lambda>page.
       Inr (filter (\<lambda>row. is_liquidation_order row \<and> time_within order_time_ms chunk row) page,
         (case next_page_cursor v of
            None \<Rightarrow> None
          | Some c \<Rightarrow> if c \<in> set seen then None else Some (Some c, c # seen))))))"

definition liquidation_orders :: "(f64 \<Rightarrow> string) \<Rightarrow> transport \<Rightarrow> bybit_category \<Rightarrow> string option \<Rightarrow> time_range \<Rightarrow> history" where
  "liquidation_orders ft net category symbol r =
     then_res (Some (require_derivatives category ''liquidation orders'')) (\<lambda>_.
     then_res (Some (checked_range r)) (\<lambda>r.
     then_res (checked_chunks r bybit_chunk_ms) (\<lambda>chunks.
     then_res (for_chunks (\<lambda>chunk. page_loop (bybit_order_page ft net category symbol chunk) (None, [])) chunks []) (\<lambda>rows.
       Some (Inr (sort_key (\<lambda>row. or_zero_time (order_time_ms row)) (dedup ft [''orderId'', ''symbol'', ''createType''] rows)))))))"

section \<open>OKX\<close>

definition okx_page_limit :: nat where "okx_page_limit = 100"

datatype okx_instrument = OkxSpot | OkxMargin | OkxSwap | OkxFutures

definition okx_value :: "okx_instrument \<Rightarrow> string" where
  "okx_value t = (case t of OkxSpot \<Rightarrow> ''SPOT'' | OkxMargin \<Rightarrow> ''MARGIN'' | OkxSwap \<Rightarrow> ''SWAP'' | OkxFutures \<Rightarrow> ''FUTURES'')"

definition okx_check :: "(f64 \<Rightarrow> string) \<Rightarrow> json \<Rightarrow> exchange_error + json" where
  "okx_check ft v =
     (let code = (case json_get ''code'' v of Some c \<Rightarrow> api_code ft c | None \<Rightarrow> ''0'')
      in if code = ''0'' then Inr v else Inl (ApiError code (api_message ''msg'' ''unknown OKX API error'' v)))"

definition okx_get :: "(f64 \<Rightarrow> string) \<Rightarrow> transport \<Rightarrow> string \<Rightarrow> params \<Rightarrow> exchange_error + json" where
  "okx_get ft net path ps = bind_res (net 0 ''https://www.okx.com'' path ps 1) (okx_check ft)"

text \<open>Fills and bills continue after the bill of the last row.\<close>

definition okx_bill_page :: "(f64 \<Rightarrow> string) \<Rightarrow> transport \<Rightarrow> string \<Rightarrow> params \<Rightarrow> time_range \<Rightarrow> string option \<Rightarrow>
    exchange_error + json list \<times> string option option" where
  "okx_bill_page ft net path ps r after =
     bind_res (okx_get ft net path (ps @ cursor_param ''after'' after)) (\<lambda>v.
     bind_res (data_array v) (\<lambda>page.
       if page = [] then Inr ([], None)
       else let last_ts = or_zero_time (value_i64 (last page) ''ts'');
                rows = filter (time_within (\<lambda>row. value_i64 row ''ts'') r) page;
                following = non_empty (Option.bind (json_get ''billId'' (last page)) as_str)
         in if length page < okx_page_limit \<or> last_ts < rg_start_ms r then Inr (rows, None)
            else if following = None \<or> following = after then Inr (rows, None)
            else Inr (rows, Some following)))"

definition okx_fills :: "(f64 \<Rightarrow> string) \<Rightarrow> transport \<Rightarrow> okx_instrument \<Rightarrow> string option \<Rightarrow> time_range \<Rightarrow> history" where
  "okx_fills ft net t inst r =
     then_res (page_loop (okx_bill_page ft net ''/api/v5/trade/fills-history''
         ([(''instType'', okx_value t), (''begin'', int_text (rg_start_ms r)), (''end'', int_text (rg_end_ms r)),
           (''limit'', int_text (int okx_page_limit))] @ cursor_param ''instId'' inst) r) None []) (\<lambda>rows.
       Some (Inr (sort_by_fields [''ts''] (dedup ft [''instType'', ''instId'', ''tradeId''] rows))))"

definition okx_bills :: "(f64 \<Rightarrow> string) \<Rightarrow> transport \<Rightarrow> string \<Rightarrow> okx_instrument option \<Rightarrow> string option \<Rightarrow> string option \<Rightarrow> time_range \<Rightarrow> history" where
  "okx_bills ft net endpoint t bill_type sub_type r =
     then_res (page_loop (okx_bill_page ft net endpoint
         ([(''begin'', int_text (rg_start_ms r)), (''end'', int_text (rg_end_ms r)), (''limit'', int_text (int okx_page_limit))] @
          cursor_param ''instType'' (map_option okx_value t) @ cursor_param ''type'' bill_type @ cursor_param ''subType'' sub_type) r) None []) (\<lambda>rows.
       Some (Inr (sort_by_fields [''ts''] (dedup ft [''billId'', ''instId'', ''ts''] rows))))"

definition okx_funding_fees :: "(f64 \<Rightarrow> string) \<Rightarrow> transport \<Rightarrow> time_range \<Rightarrow> history" where
  "okx_funding_fees ft net r =
     then_res (okx_bills ft net ''/api/v5/account/bills-archive'' (Some OkxSwap) (Some ''8'') None r) (\<lambda>archived.
     then_res (okx_bills ft net ''/api/v5/account/bills'' (Some OkxSwap) (Some ''8'') None r) (\<lambda>current.
       Some (Inr (sort_by_fields [''ts''] (dedup ft [''billId'', ''instId'', ''ts''] (archived @ current))))))"

text \<open>Interest, funding rates and closed positions continue before the time of the last row.\<close>

definition okx_time_page :: "(f64 \<Rightarrow> string) \<Rightarrow> transport \<Rightarrow> string \<Rightarrow> params \<Rightarrow> (json \<Rightarrow> exchange_error + int) \<Rightarrow> (json list \<Rightarrow> json list) \<Rightarrow>
    (int \<Rightarrow> bool) \<Rightarrow> string \<Rightarrow> exchange_error + json list \<times> string option" where
  "okx_time_page ft net path ps last_time keep reached after =
     bind_res (okx_get ft net path (ps @ [(''after'', after)])) (\<lambda>v.
     bind_res (data_array v) (\<lambda>page.
       if page = [] then Inr ([], None)
       else bind_res (last_time (last page)) (\<lambda>last_ts.
         if length page < okx_page_limit \<or> reached last_ts then Inr (keep page, None)
         else if int_text last_ts = after then Inr (keep page, None)
         else Inr (keep page, Some (int_text last_ts)))))"

definition after_end :: "time_range \<Rightarrow> string" where
  "after_end r = int_text (saturating_add_i64 (rg_end_ms r) 1)"

definition interest_accrued :: "(f64 \<Rightarrow> string) \<Rightarrow> transport \<Rightarrow> string option \<Rightarrow> time_range \<Rightarrow> history" where
  "interest_accrued ft net currency r =
     then_res (page_loop (okx_time_page ft net ''/api/v5/account/interest-accrued''
         ([(''type'', ''2''), (''limit'', int_text (int okx_page_limit))] @ cursor_param ''ccy'' currency)
         (\<lambda>row. Inr (or_zero_time (value_i64 row ''ts''))) (filter (time_within (\<lambda>row. value_i64 row ''ts'') r))
         (\<lambda>t. t < rg_start_ms r)) (after_end r) []) (\<lambda>rows.
       Some (Inr (sort_by_fields [''ts''] (dedup ft [''ccy'', ''ts'', ''interest''] rows))))"

definition funding_rate_history :: "(f64 \<Rightarrow> string) \<Rightarrow> transport \<Rightarrow> string \<Rightarrow> time_range \<Rightarrow> history" where
  "funding_rate_history ft net instrument_id r =
     then_res (page_loop (okx_time_page ft net ''/api/v5/public/funding-rate-history''
         [(''instId'', instrument_id), (''limit'', int_text (int okx_page_limit))]
         (\<lambda>row. Inr (or_zero_time (first_i64 [''fundingTime'', ''ts''] row))) (\<lambda>page. page)
         (\<lambda>t. t \<le> rg_start_ms r)) (after_end r) []) (\<lambda>rows.
       Some (Inr (sort_by_fields [''fundingTime'', ''ts''] (dedup ft [''instId'', ''fundingTime''] rows))))"

definition position_history_by_close_type :: "(f64 \<Rightarrow> string) \<Rightarrow> transport \<Rightarrow> okx_instrument \<Rightarrow> string option \<Rightarrow> string \<Rightarrow> time_range \<Rightarrow> history" where
  "position_history_by_close_type ft net t inst close_type r =
     page_loop (okx_time_page ft net ''/api/v5/account/positions-history''
         ([(''instType'', okx_value t), (''type'', close_type), (''limit'', int_text (int okx_page_limit))] @ cursor_param ''instId'' inst)
         (\<lambda>row. ok_or (InvalidResponse ''positions-history page has no numeric uTime'') (value_i64 row ''uTime''))
         (filter (time_within (\<lambda>row. value_i64 row ''uTime'') r)) (\<lambda>ts. ts < rg_start_ms r)) (after_end r) []"

definition okx_liquidation_history :: "(f64 \<Rightarrow> string) \<Rightarrow> transport \<Rightarrow> okx_instrument \<Rightarrow> string option \<Rightarrow> time_range \<Rightarrow> history" where
  "okx_liquidation_history ft net t inst r =
     (if t = OkxSpot then Some (Inl (InvalidQuery ''OKX position history does not support SPOT''))
      else then_res (Some (checked_range r)) (\<lambda>r.
        then_res (position_history_by_close_type ft net t inst ''3'' r) (\<lambda>full.
        then_res (position_history_by_close_type ft net t inst ''4'' r) (\<lambda>part.
          Some (Inr (sort_by_fields [''uTime''] (dedup ft [''posId'', ''instId'', ''uTime'', ''type''] (full @ part))))))))"

section \<open>Bitget\<close>

definition bitget_page_limit :: nat where "bitget_page_limit = 100"
definition bitget_chunk_ms :: int where "bitget_chunk_ms = 30 * 24 * 60 * 60 * 1000"

datatype product_category = SpotProduct | MarginProduct | UsdtFutures | CoinFutures | UsdcFutures

definition bitget_value :: "product_category \<Rightarrow> string" where
  "bitget_value c = (case c of SpotProduct \<Rightarrow> ''SPOT'' | MarginProduct \<Rightarrow> ''MARGIN'' | UsdtFutures \<Rightarrow> ''USDT-FUTURES''
     | CoinFutures \<Rightarrow> ''COIN-FUTURES'' | UsdcFutures \<Rightarrow> ''USDC-FUTURES'')"

definition bitget_check :: "(f64 \<Rightarrow> string) \<Rightarrow> json \<Rightarrow> exchange_error + json" where
  "bitget_check ft v =
     (let code = (case json_get ''code'' v of Some c \<Rightarrow> api_code ft c | None \<Rightarrow> ''00000'')
      in if code \<in> {''00000'', ''0''} then Inr v else Inl (ApiError code (api_message ''msg'' ''unknown Bitget API error'' v)))"

definition bitget_retry_delay :: "exchange_error \<Rightarrow> nat option" where
  "bitget_retry_delay error =
     (case error of
        DispatchFailed (RateLimited _ _ delay) \<Rightarrow> Some delay
      | DispatchFailed (NoAvailableIp (Some delay)) \<Rightarrow> Some delay
      | ApiError code _ \<Rightarrow> if code = ''429'' then Some (secs 60) else None
      | _ \<Rightarrow> None)"

text \<open>The policy, if there is one, is the number of retries; pacing does not change the answers.\<close>

definition bitget_history_get :: "(f64 \<Rightarrow> string) \<Rightarrow> transport \<Rightarrow> nat option \<Rightarrow> string \<Rightarrow> params \<Rightarrow> exchange_error + json" where
  "bitget_history_get ft net policy path ps =
     (let send = (\<lambda>attempt. bind_res (net attempt ''https://api.bitget.com'' path ps 1) (bitget_check ft))
      in case policy of None \<Rightarrow> send 0 | Some retries \<Rightarrow> retry_get (\<lambda>e. bitget_retry_delay e \<noteq> None) send retries)"

definition data_object :: "string \<Rightarrow> json \<Rightarrow> exchange_error + json" where
  "data_object label v =
     (case json_get ''data'' v of
        Some (JObject fs) \<Rightarrow> Inr (JObject fs)
      | _ \<Rightarrow> Inl (InvalidResponse (label @ '' response is missing data object'')))"

definition bitget_cursor :: "string list \<Rightarrow> json \<Rightarrow> string option" where
  "bitget_cursor names body = non_empty (Option.bind (find_some (\<lambda>name. json_get name body) names) as_str)"

definition bitget_page :: "(f64 \<Rightarrow> string) \<Rightarrow> transport \<Rightarrow> nat option \<Rightarrow> string \<Rightarrow> string \<Rightarrow> params \<Rightarrow> string list \<Rightarrow> (json \<Rightarrow> bool) \<Rightarrow>
    string option \<Rightarrow> exchange_error + json list \<times> string option option" where
  "bitget_page ft net policy path label ps cursor_names keep cursor =
     bind_res (bitget_history_get ft net policy path (ps @ cursor_param ''cursor'' cursor)) (\<lambda>v.
     bind_res (data_object label v) (\<lambda>body.
       let page = (case Option.bind (json_get ''list'' body) as_array of Some rows \<Rightarrow> rows | None \<Rightarrow> []);
           next_cursor = bitget_cursor cursor_names body
       in Inr (filter keep page,
            if length page < bitget_page_limit \<or> next_cursor = None \<or> next_cursor = cursor then None else Some next_cursor)))"

definition bitget_fills :: "(f64 \<Rightarrow> string) \<Rightarrow> transport \<Rightarrow> nat option \<Rightarrow> product_category \<Rightarrow> string option \<Rightarrow> time_range \<Rightarrow> history" where
  "bitget_fills ft net policy category symbol r =
     then_res (checked_chunks r bitget_chunk_ms) (\<lambda>chunks.
     then_res (for_chunks (\<lambda>chunk. page_loop (bitget_page ft net policy ''/api/v3/trade/fills'' ''fills''
         ([(''category'', bitget_value category)] @ window_params chunk bitget_page_limit @ cursor_param ''symbol'' symbol)
         [''cursor'', ''nextCursor'', ''endId''] (\<lambda>_. True)) None) chunks []) (\<lambda>rows.
       Some (Inr (sort_by_fields [''createdTime'', ''cTime'', ''ts''] (dedup ft [''execId'', ''orderId'', ''symbol''] rows)))))"

definition bitget_is_liquidation :: "json \<Rightarrow> bool" where
  "bitget_is_liquidation row \<longleftrightarrow>
     Option.bind (json_get ''execType'' row) as_str = Some ''liquidation'' \<or>
     (case Option.bind (json_get ''delegateType'' row) as_str of
        Some t \<Rightarrow> t = ''liquidation'' \<or> take (length ''liquidation_take_over_'') t = ''liquidation_take_over_''
      | None \<Rightarrow> False)"

definition bitget_liquidation_orders :: "(f64 \<Rightarrow> string) \<Rightarrow> transport \<Rightarrow> nat option \<Rightarrow> product_category \<Rightarrow> string option \<Rightarrow> time_range \<Rightarrow> history" where
  "bitget_liquidation_orders ft net policy category symbol r =
     then_res (Some (checked_range r)) (\<lambda>r.
     then_res (checked_chunks r bitget_chunk_ms) (\<lambda>chunks.
     then_res (for_chunks (\<lambda>chunk. page_loop (bitget_page ft net policy ''/api/v3/trade/history-orders'' ''history-orders''
         ([(''category'', bitget_value category)] @ window_params chunk bitget_page_limit @ cursor_param ''symbol'' symbol)
         [''cursor''] (\<lambda>row. bitget_is_liquidation row \<and> time_within (first_i64 [''updatedTime'', ''createdTime'']) r row)) None) chunks []) (\<lambda>rows.
       Some (Inr (sort_by_fields [''updatedTime'', ''createdTime''] (dedup ft [''orderId'', ''symbol'', ''updatedTime''] rows))))))"

definition financial_records :: "(f64 \<Rightarrow> string) \<Rightarrow> transport \<Rightarrow> nat option \<Rightarrow> string \<Rightarrow> string option \<Rightarrow> time_range \<Rightarrow> history" where
  "financial_records ft net policy category record_type r =
     then_res (checked_chunks r bitget_chunk_ms) (\<lambda>chunks.
     then_res (for_chunks (\<lambda>chunk. page_loop (bitget_page ft net policy ''/api/v3/account/financial-records'' ''financial-records''
         ([(''category'', category)] @ window_params chunk bitget_page_limit @ cursor_param ''type'' record_type)
         [''cursor'', ''nextCursor'', ''endId''] (\<lambda>_. True)) None) chunks []) (\<lambda>rows.
       Some (Inr (sort_by_fields [''createdTime'', ''cTime'', ''ts''] (dedup ft [''id'', ''bizId'', ''type'', ''createdTime''] rows)))))"

definition bitget_funding_fees :: "(f64 \<Rightarrow> string) \<Rightarrow> transport \<Rightarrow> nat option \<Rightarrow> time_range \<Rightarrow> history" where
  "bitget_funding_fees ft net policy r =
     then_res (financial_records ft net policy ''USDT-FUTURES'' (Some ''CONTRACT_MAIN_SETTLE_FEE_USER_IN'') r) (\<lambda>fees_in.
     then_res (financial_records ft net policy ''USDT-FUTURES'' (Some ''CONTRACT_MAIN_SETTLE_FEE_USER_OUT'') r) (\<lambda>fees_out.
       Some (Inr (sort_by_fields [''createdTime'', ''cTime'', ''ts''] (dedup ft [''id'', ''bizId'', ''type'', ''createdTime''] (fees_in @ fees_out))))))"

definition bitget_margin_interest :: "(f64 \<Rightarrow> string) \<Rightarrow> transport \<Rightarrow> nat option \<Rightarrow> time_range \<Rightarrow> history" where
  "bitget_margin_interest ft net policy r = financial_records ft net policy ''OTHER'' (Some ''INTEREST_SETTLEMENT_OUT'') r"

section \<open>Facts\<close>

lemma page_loop_ends:
  fixes m :: "'c \<Rightarrow> nat"
  assumes "I c" and "\<And>c page c'. I c \<Longrightarrow> get_page c = Inr (page, Some c') \<Longrightarrow> I c' \<and> m c' < m c"
  shows "page_loop get_page c rows \<noteq> None"
  using assms(1)
proof (induction "m c" arbitrary: c rows rule: less_induct)
  case less
  show ?case
  proof (cases "get_page c")
    case (Inr r)
    then obtain page nxt where r: "get_page c = Inr (page, nxt)" by (cases r) simp
    then show ?thesis using less assms(2) [OF less.prems] by (subst page_loop_unfold) (auto split: option.splits)
  qed (subst page_loop_unfold, simp)
qed

lemma for_chunks_ends: "(\<And>c rows. body c rows \<noteq> None) \<Longrightarrow> for_chunks body cs rows \<noteq> None"
  by (induction cs arbitrary: rows) (auto simp: then_res_def split: option.splits sum.splits)

text \<open>Paging on Bybit ends whatever the exchange answers, as long as it has finitely many cursors to hand out: a cursor that
  comes a second time is an error.\<close>

theorem bybit_paging_ends:
  assumes "finite cursors" "\<forall>ps v. bybit_get ft net path ps = Inr v \<longrightarrow> (\<forall>c. next_page_cursor v = Some c \<longrightarrow> c \<in> cursors)"
    and "0 \<le> rg_start_ms r" "rg_start_ms r \<le> rg_end_ms r" "rg_end_ms r < i64_max"
  shows "bybit_paged_rows ft net path base_ps r limit \<noteq> None"
proof -
  obtain cs where cs: "checked_chunks r bybit_chunk_ms = Some (Inr cs)"
    using checked_chunks_spec [OF assms(3-5), of bybit_chunk_ms] by (auto simp: bybit_chunk_ms_def)
  have "page_loop (bybit_page ft net path base_ps limit chunk) (None, []) rows \<noteq> None" for chunk rows
  proof (rule page_loop_ends [where I = "\<lambda>(_, seen). set seen \<subseteq> cursors" and m = "\<lambda>(_, seen). card (cursors - set seen)"])
    fix c page c'
    assume I: "case c of (_, seen) \<Rightarrow> set seen \<subseteq> cursors" and g: "bybit_page ft net path base_ps limit chunk c = Inr (page, Some c')"
    obtain cursor seen where c: "c = (cursor, seen)" by (cases c)
    obtain v k where k: "bybit_get ft net path (base_ps @ window_params chunk limit @ cursor_param ''cursor'' cursor) = Inr v"
      "next_page_cursor v = Some k" "k \<notin> set seen" "c' = (Some k, k # seen)"
      using g unfolding c by (auto simp: bybit_page_def bind_res_Inr split: option.splits if_splits)
    have kc: "k \<in> cursors" using assms(2) k(1,2) by blast
    have "cursors - set (k # seen) \<subset> cursors - set seen" using kc k(3) by auto
    then have "card (cursors - set (k # seen)) < card (cursors - set seen)" using assms(1) by (simp add: psubset_card_mono)
    then show "(case c' of (_, seen) \<Rightarrow> set seen \<subseteq> cursors) \<and>
      (case c' of (_, seen) \<Rightarrow> card (cursors - set seen)) < (case c of (_, seen) \<Rightarrow> card (cursors - set seen))"
      using I kc k(4) c by simp
  qed simp
  then show ?thesis using cs for_chunks_ends by (auto simp: bybit_paged_rows_def)
qed

definition silent_bybit :: transport where
  "silent_bybit = (\<lambda>attempt base path ps weight. Inr (JObject [(''retCode'', JNumber (JInt 0)),
     (''result'', JObject [(''list'', JArray []), (''nextPageCursor'', JString ''again'')])]))"

lemma bybit_paging_ends_witness:
  "bybit_paged_rows (\<lambda>_. []) silent_bybit ''/v5/execution/list'' [] \<lparr>rg_start_ms = 0, rg_end_ms = 9\<rparr> 100 \<noteq> None \<and>
   bybit_paged_rows (\<lambda>_. []) silent_bybit ''/v5/execution/list'' [] \<lparr>rg_start_ms = 0, rg_end_ms = 9\<rparr> 100 =
     Some (Inl (InvalidResponse (''/v5/execution/list'' @ '' pagination cursor did not advance'')))"
proof -
  let ?r = "\<lparr>rg_start_ms = 0, rg_end_ms = 9\<rparr>"
  have get: "bybit_get (\<lambda>_. []) silent_bybit path ps =
      Inr (JObject [(''retCode'', JNumber (JInt 0)), (''result'', JObject [(''list'', JArray []), (''nextPageCursor'', JString ''again'')])])" for path ps
  proof -
    have "int_text 0 = ''0''" by code_simp
    then show ?thesis by (simp add: bybit_get_def retry_get_def silent_bybit_def bybit_check_def json_get_def api_code_def as_str_def)
  qed
  have next_cursor: "next_page_cursor (JObject [(''retCode'', JNumber (JInt 0)),
      (''result'', JObject [(''list'', JArray []), (''nextPageCursor'', JString ''again'')])]) = Some ''again''"
    by (simp add: next_page_cursor_def json_get_def as_str_def non_empty_def)
  have ends: "bybit_paged_rows (\<lambda>_. []) silent_bybit ''/v5/execution/list'' [] ?r 100 \<noteq> None"
    by (rule bybit_paging_ends [where cursors = "{''again''}"]) (auto simp: get next_cursor i64_max_def)
  have c: "checked_chunks ?r bybit_chunk_ms = Some (Inr [?r])"
    by (simp add: checked_chunks_def range_chunks_def bybit_chunk_ms_def chunk_loop.simps saturating_sub_i64_def saturating_add_i64_def
        clamp_i64_def i64_max_def i64_min_def)
  have l: "result_list p (JObject [(''retCode'', JNumber (JInt 0)),
      (''result'', JObject [(''list'', JArray []), (''nextPageCursor'', JString ''again'')])]) = Inr []" for p
    by (simp add: result_list_def json_get_def as_array_def ok_or_def)
  have "page_loop (bybit_page (\<lambda>_. []) silent_bybit ''/v5/execution/list'' [] 100 ?r) (None, []) [] =
      Some (Inl (InvalidResponse (''/v5/execution/list'' @ '' pagination cursor did not advance'')))"
    by (subst page_loop_unfold, subst page_loop_unfold) (simp add: bybit_page_def get next_cursor l)
  then have "bybit_paged_rows (\<lambda>_. []) silent_bybit ''/v5/execution/list'' [] ?r 100 =
      Some (Inl (InvalidResponse (''/v5/execution/list'' @ '' pagination cursor did not advance'')))" using c by (simp add: bybit_paged_rows_def)
  with ends show ?thesis by (rule conjI)
qed

section \<open>Interest on OKX\<close>

text \<open>OKX lists interest with the latest entry first, and answers with the first 100 entries earlier than a time.\<close>

definition row_ts :: "json \<Rightarrow> int" where
  "row_ts row = or_zero_time (value_i64 row ''ts'')"

definition interest_path :: string where
  "interest_path = ''/api/v5/account/interest-accrued''"

definition interest_params :: "string option \<Rightarrow> params" where
  "interest_params currency = [(''type'', ''2''), (''limit'', int_text (int okx_page_limit))] @ cursor_param ''ccy'' currency"

definition serves_okx_interest :: "(f64 \<Rightarrow> string) \<Rightarrow> transport \<Rightarrow> string option \<Rightarrow> json list \<Rightarrow> bool" where
  "serves_okx_interest ft net currency db \<longleftrightarrow>
     (\<forall>t. is_i64 t \<longrightarrow> (\<exists>v. okx_get ft net interest_path (interest_params currency @ [(''after'', int_text t)]) = Inr v \<and>
        data_array v = Inr (take okx_page_limit (filter (\<lambda>row. row_ts row < t) db))))"

definition interest_listing :: "(f64 \<Rightarrow> string) \<Rightarrow> json list \<Rightarrow> bool" where
  "interest_listing ft db \<longleftrightarrow>
     (\<forall>row \<in> set db. value_i64 row ''ts'' \<noteq> None) \<and> sorted_wrt (\<ge>) (map row_ts db) \<and>
     distinct (map (row_key ft [''ccy'', ''ts'', ''interest'']) db)"

lemma row_ts_i64: "is_i64 (row_ts row)"
  using value_i64_is_i64 [of row "''ts''"] by (auto simp: row_ts_def or_zero_time_def is_i64_def i64_min_def i64_max_def split: option.splits)

lemma interest_accrued_pages:
  "interest_accrued ft net currency r =
     then_res (page_loop (okx_time_page ft net interest_path (interest_params currency) (\<lambda>row. Inr (row_ts row))
         (filter (time_within (\<lambda>row. value_i64 row ''ts'') r)) (\<lambda>t. t < rg_start_ms r)) (after_end r) []) (\<lambda>rows.
       Some (Inr (sort_by_fields [''ts''] (dedup ft [''ccy'', ''ts'', ''interest''] rows))))"
  by (simp add: interest_accrued_def interest_path_def interest_params_def row_ts_def [abs_def])

lemma okx_interest_page:
  assumes "serves_okx_interest ft net currency db" "is_i64 t"
  defines "page \<equiv> take okx_page_limit (filter (\<lambda>row. row_ts row < t) db)"
  shows "okx_time_page ft net interest_path (interest_params currency) (\<lambda>row. Inr (row_ts row)) keep reached (int_text t) =
    (if page = [] then Inr ([], None)
     else if length page < okx_page_limit \<or> reached (row_ts (last page)) then Inr (keep page, None)
     else Inr (keep page, Some (int_text (row_ts (last page)))))"
proof -
  obtain v where v: "okx_get ft net interest_path (interest_params currency @ [(''after'', int_text t)]) = Inr v" "data_array v = Inr page"
    using assms(1,2) unfolding serves_okx_interest_def page_def by blast
  have "int_text (row_ts (last page)) \<noteq> int_text t" if "page \<noteq> []"
  proof
    assume "int_text (row_ts (last page)) = int_text t"
    then have "row_ts (last page) = t" using int_text_inj [OF row_ts_i64 assms(2)] by blast
    moreover have "last page \<in> set (filter (\<lambda>row. row_ts row < t) db)" using last_in_set [OF that] set_take_subset unfolding page_def by fast
    ultimately show False by simp
  qed
  then show ?thesis using v by (simp add: okx_time_page_def)
qed

text \<open>Interest entries of OKX at one instant are lost beyond the first hundred: the next page is asked for entries strictly
  earlier than the last one.  So more than a hundred entries of one instant come back as exactly a hundred.\<close>

theorem okx_interest_drops_ties:
  assumes "serves_okx_interest ft net currency db" "interest_listing ft db" "100 < length db" "\<forall>row \<in> set db. row_ts row = t"
    and r: "in_range r t" "is_i64 (rg_end_ms r)" "rg_end_ms r < i64_max"
  shows "\<exists>out. interest_accrued ft net currency r = Some (Inr out) \<and> length out = 100 \<and> length out < length (filter (time_within (\<lambda>row. value_i64 row ''ts'') r) db)"
proof -
  let ?in = "time_within (\<lambda>row. value_i64 row ''ts'') r" and ?page = "take 100 db"
  let ?get = "okx_time_page ft net interest_path (interest_params currency) (\<lambda>row. Inr (row_ts row)) (filter ?in) (\<lambda>t. t < rg_start_ms r)"
  have e: "after_end r = int_text (rg_end_ms r + 1)" "is_i64 (rg_end_ms r + 1)"
    using r by (auto simp: after_end_def saturating_add_i64_def clamp_i64_def is_i64_def)
  have inside: "?in row" if "row \<in> set db" for row
    using that assms(2,4) r(1) by (auto simp: interest_listing_def time_within_def row_ts_def or_zero_time_def split: option.splits)
  have all: "filter ?in db = db" "filter ?in ?page = ?page" using inside by (auto intro!: filter_True dest: in_set_takeD)
  have "filter (\<lambda>row. row_ts row < rg_end_ms r + 1) db = db" using assms(4) r(1) by (auto intro!: filter_True simp: in_range_def)
  moreover have ne: "?page \<noteq> []" "length ?page = 100" using assms(3) by auto
  moreover have "last ?page \<in> set db" using last_in_set [OF ne(1)] set_take_subset by fast
  then have lastp: "row_ts (last ?page) = t" using assms(4) by blast
  ultimately have p1: "?get (after_end r) = Inr (?page, Some (int_text t))"
    using okx_interest_page [OF assms(1) e(2), of "filter ?in" "\<lambda>t. t < rg_start_ms r"] r(1) e(1) all(2) by (simp add: okx_page_limit_def in_range_def)
  have "filter (\<lambda>row. row_ts row < t) db = []" using assms(4) by (auto simp: filter_empty_conv)
  moreover have "is_i64 t" using lastp row_ts_i64 by metis
  ultimately have p2: "?get (int_text t) = Inr ([], None)"
    using okx_interest_page [OF assms(1), of t "filter ?in" "\<lambda>t. t < rg_start_ms r"] by simp
  have "page_loop ?get (after_end r) [] = Some (Inr ?page)" by (subst page_loop_unfold, subst page_loop_unfold) (simp add: p1 p2)
  moreover have "distinct (map (row_key ft [''ccy'', ''ts'', ''interest'']) ?page)"
    using assms(2) distinct_take [of "map (row_key ft [''ccy'', ''ts'', ''interest'']) db" 100] by (simp add: interest_listing_def take_map)
  then have "dedup ft [''ccy'', ''ts'', ''interest''] ?page = ?page" by (rule dedup_distinct)
  ultimately have "interest_accrued ft net currency r = Some (Inr (sort_by_fields [''ts''] ?page))" by (simp add: interest_accrued_pages)
  moreover have "length (sort_by_fields [''ts''] ?page) = 100" using ne(2) by (simp add: sort_by_fields_def)
  ultimately show ?thesis using all(1) assms(3) by auto
qed

text \<open>C40: Where no two entries are of the same instant, the client returns every entry of the range exactly once, in order.\<close>

theorem okx_interest_complete:
  assumes serves: "serves_okx_interest ft net currency db" and listing: "interest_listing ft db" and distinct: "distinct (map row_ts db)"
    and r: "is_i64 (rg_end_ms r)" "rg_end_ms r < i64_max"
  shows "interest_accrued ft net currency r = Some (Inr (filter (time_within (\<lambda>row. value_i64 row ''ts'') r) (rev db)))"
proof -
  let ?in = "time_within (\<lambda>row. value_i64 row ''ts'') r"
  let ?get = "okx_time_page ft net interest_path (interest_params currency) (\<lambda>row. Inr (row_ts row)) (filter ?in) (\<lambda>t. t < rg_start_ms r)"
  let ?neg = "\<lambda>row. - row_ts row"
  have "sorted (map ?neg db)" using listing by (simp add: interest_listing_def sorted_wrt_map)
  moreover have "distinct (map ?neg db)" using distinct by (simp add: distinct_map inj_on_def)
  ultimately have desc: "sorted_wrt (<) (map ?neg db)" by (simp add: strict_sorted_iff)
  have i: "?in row \<longleftrightarrow> in_range r (row_ts row)" if "row \<in> set db" for row
    using that listing by (auto simp: interest_listing_def time_within_def row_ts_def or_zero_time_def split: option.splits)
  define bound where "bound c = (THE t. is_i64 t \<and> c = int_text t)" for c
  have bound: "bound (int_text t) = t" if "is_i64 t" for t
    unfolding bound_def by (rule the_equality) (use that int_text_inj in auto)
  define left where "left c = filter ?in (filter (\<lambda>row. row_ts row < bound c) db)" for c
  define m where "m c = length (filter (\<lambda>row. row_ts row < bound c) db)" for c
  have e: "after_end r = int_text (rg_end_ms r + 1)" "is_i64 (rg_end_ms r + 1)"
    using r by (auto simp: after_end_def saturating_add_i64_def clamp_i64_def is_i64_def)
  have "page_loop ?get (after_end r) [] = Some (Inr ([] @ left (after_end r)))"
  proof (rule page_loop_complete [where I = "\<lambda>c. \<exists>t. is_i64 t \<and> c = int_text t" and m = m])
    show "\<exists>t. is_i64 t \<and> after_end r = int_text t" using e by blast
    fix c assume "\<exists>t. is_i64 t \<and> c = int_text t"
    then obtain t where t: "is_i64 t" "c = int_text t" by blast
    define sel where "sel = filter (\<lambda>row. row_ts row < t) db"
    have b: "bound c = t" using bound t by simp
    let ?page = "take okx_page_limit sel"
    have page: "?get c = (if ?page = [] then Inr ([], None)
     else if length ?page < okx_page_limit \<or> row_ts (last ?page) < rg_start_ms r then Inr (filter ?in ?page, None)
     else Inr (filter ?in ?page, Some (int_text (row_ts (last ?page)))))"
      using okx_interest_page [OF serves t(1)] t(2) unfolding sel_def by simp
    have sel_desc: "sorted_wrt (<) (map ?neg sel)" using desc by (simp add: sel_def sorted_wrt_map sorted_wrt_filter)
    have left_c: "left c = filter ?in (?page @ drop okx_page_limit sel)" by (simp add: left_def b sel_def)
    show "\<exists>page next. ?get c = Inr (page, next) \<and>
      (case next of None \<Rightarrow> left c = page | Some c' \<Rightarrow> (\<exists>t. is_i64 t \<and> c' = int_text t) \<and> left c = page @ left c' \<and> m c' < m c)"
    proof (cases "?page = []")
      case True
      then have "sel = []" by (auto simp: okx_page_limit_def)
      then show ?thesis using page left_c by simp
    next
      case False
      let ?l = "row_ts (last ?page)"
      have in_sel: "last ?page \<in> set sel" using last_in_set [OF False] set_take_subset by fast
      have rest: "drop okx_page_limit sel = filter (\<lambda>row. row_ts row < ?l) sel" if "\<not> length ?page < okx_page_limit"
      proof -
        have len: "okx_page_limit \<le> length sel" using that by simp
        moreover have "last ?page = sel ! (okx_page_limit - 1)" using len False by (simp add: last_conv_nth)
        ultimately show ?thesis using drop_sorted [OF sel_desc, of okx_page_limit] by (simp add: okx_page_limit_def)
      qed
      show ?thesis
      proof (cases "length ?page < okx_page_limit \<or> ?l < rg_start_ms r")
        case True
        have "filter ?in (drop okx_page_limit sel) = []"
        proof (cases "length ?page < okx_page_limit")
          case f: False
          then have "?l < rg_start_ms r" using True by blast
          moreover have "row_ts x < ?l" "x \<in> set db" if "x \<in> set (drop okx_page_limit sel)" for x
            using that rest f unfolding sel_def by (auto simp: not_less)
          ultimately show ?thesis using i by (fastforce simp: filter_empty_conv in_range_def)
        qed simp
        then have "left c = filter ?in ?page" using left_c by (simp only: filter_append append_Nil2)
        then show ?thesis using page False True by simp
      next
        case full: False
        have eq: "filter (\<lambda>row. row_ts row < ?l) sel = filter (\<lambda>row. row_ts row < ?l) db"
          using in_sel unfolding sel_def filter_filter by (intro filter_cong) auto
        with full have d: "drop okx_page_limit sel = filter (\<lambda>row. row_ts row < ?l) db" using rest by simp
        have b': "bound (int_text ?l) = ?l" by (rule bound [OF row_ts_i64])
        have "left c = filter ?in ?page @ filter ?in (drop okx_page_limit sel)" unfolding left_c by (rule filter_append)
        then have "left c = filter ?in ?page @ left (int_text ?l)" unfolding d left_def b' .
        moreover have "m (int_text ?l) < m c"
        proof -
          have "length (filter (\<lambda>row. row_ts row < ?l) sel) < length sel" by (rule length_filter_less [OF in_sel]) simp
          then show ?thesis unfolding m_def b b' eq unfolding sel_def .
        qed
        ultimately show ?thesis using page False full row_ts_i64 by auto
      qed
    qed
  qed
  moreover have "left (after_end r) = filter ?in db"
    using i e bound unfolding left_def filter_filter by (intro filter_cong) (auto simp: in_range_def)
  ultimately have loop: "page_loop ?get (after_end r) [] = Some (Inr (filter ?in db))" by simp
  have "distinct (map (row_key ft [''ccy'', ''ts'', ''interest'']) (filter ?in db))" using listing by (simp add: interest_listing_def distinct_map_filter)
  then have "interest_accrued ft net currency r = Some (Inr (sort_key row_ts (filter ?in db)))"
    using loop dedup_distinct by (simp add: interest_accrued_pages sort_by_fields_def first_i64_single row_ts_def [abs_def])
  also have "sort_key row_ts (filter ?in db) = filter ?in (rev db)"
  proof (rule sort_key_inj_key_eq)
    show "inj_on row_ts (set (filter ?in db))" using distinct by (auto simp: distinct_map intro: inj_on_subset)
    have "sorted (map row_ts (rev db))" using listing by (simp add: interest_listing_def rev_map [symmetric] sorted_wrt_rev)
    then show "sorted (map row_ts (filter ?in (rev db)))" by (rule sorted_filter)
  qed simp
  finally show ?thesis .
qed

definition okx_interest_net :: "json list \<Rightarrow> transport" where
  "okx_interest_net db = (\<lambda>attempt base path ps weight. Inr (JObject [(''data'', JArray (
     case Option.bind (map_of ps ''after'') parse_i64 of
       Some t \<Rightarrow> take okx_page_limit (filter (\<lambda>row. row_ts row < t) db) | None \<Rightarrow> []))]))"

definition interest_entry :: "int \<Rightarrow> int \<Rightarrow> json" where
  "interest_entry t n = JObject [(''ts'', JNumber (JInt t)), (''interest'', JNumber (JInt n))]"

lemma okx_interest_net_serves: "serves_okx_interest ft (okx_interest_net db) None db"
  unfolding serves_okx_interest_def
  by (auto simp: okx_get_def okx_interest_net_def interest_params_def cursor_param_def okx_check_def json_get_def data_array_def as_array_def
      ok_or_def parse_i64_int_text)

lemma interest_entry_ts: "is_i64 t \<Longrightarrow> value_i64 (interest_entry t n) ''ts'' = Some t \<and> row_ts (interest_entry t n) = t"
  by (simp add: interest_entry_def value_i64_def json_get_def as_i64_def row_ts_def or_zero_time_def)

lemma interest_entry_key: "row_key ft [''ccy'', ''ts'', ''interest''] (interest_entry t n) = ''|'' @ int_text t @ ''|'' @ int_text n"
  by (simp add: row_key_def interest_entry_def json_get_def)

lemma okx_interest_drops_ties_witness:
  "\<exists>out. interest_accrued (\<lambda>_. []) (okx_interest_net (map (interest_entry 50) [1..150])) None \<lparr>rg_start_ms = 0, rg_end_ms = 99\<rparr> = Some (Inr out) \<and>
     length out = 100"
proof -
  let ?db = "map (interest_entry 50) [1..150]"
  have i: "is_i64 n" if "\<bar>n\<bar> \<le> 200" for n using that by (auto simp: is_i64_def i64_min_def i64_max_def)
  have ts: "\<forall>row \<in> set ?db. value_i64 row ''ts'' = Some 50 \<and> row_ts row = 50" using interest_entry_ts [of 50] i [of 50] by auto
  then have "map row_ts ?db = replicate 150 50" by (simp add: list_eq_iff_nth_eq)
  then have "sorted_wrt (\<ge>) (map row_ts ?db)" by (simp add: sorted_wrt_iff_nth_less)
  moreover have "distinct (map (row_key (\<lambda>_. []) [''ccy'', ''ts'', ''interest'']) ?db)"
    by (auto simp: distinct_map comp_def inj_on_def interest_entry_key dest!: int_text_inj [rotated 2] intro!: i)
  ultimately have l: "interest_listing (\<lambda>_. []) ?db" using ts by (simp add: interest_listing_def)
  have "\<exists>out. interest_accrued (\<lambda>_. []) (okx_interest_net ?db) None \<lparr>rg_start_ms = 0, rg_end_ms = 99\<rparr> = Some (Inr out) \<and> length out = 100 \<and>
      length out < length (filter (time_within (\<lambda>row. value_i64 row ''ts'') \<lparr>rg_start_ms = 0, rg_end_ms = 99\<rparr>) ?db)"
    by (rule okx_interest_drops_ties [OF okx_interest_net_serves l, of 50])
      (use ts in \<open>simp_all add: in_range_def is_i64_def i64_min_def i64_max_def\<close>)
  then show ?thesis by blast
qed

lemma okx_interest_complete_witness:
  "interest_accrued (\<lambda>_. []) (okx_interest_net [interest_entry 9 1, interest_entry 7 1, interest_entry 3 1]) None \<lparr>rg_start_ms = 5, rg_end_ms = 99\<rparr> =
     Some (Inr [interest_entry 7 1, interest_entry 9 1])"
proof -
  let ?db = "[interest_entry 9 1, interest_entry 7 1, interest_entry 3 1]" and ?r = "\<lparr>rg_start_ms = 5, rg_end_ms = 99\<rparr>"
  have i: "is_i64 n" if "\<bar>n\<bar> \<le> 200" for n using that by (auto simp: is_i64_def i64_min_def i64_max_def)
  have ts: "value_i64 (interest_entry n 1) ''ts'' = Some n" "row_ts (interest_entry n 1) = n" if "\<bar>n\<bar> \<le> 200" for n
    using interest_entry_ts [OF i [OF that]] by auto
  have t: "int_text 9 = ''9''" "int_text 7 = ''7''" "int_text 3 = ''3''" by code_simp+
  have "interest_listing (\<lambda>_. []) ?db" by (simp add: interest_listing_def ts interest_entry_key t)
  from okx_interest_complete [OF okx_interest_net_serves this, of ?r] show ?thesis
    by (simp add: ts i i64_max_def time_within_def in_range_def)
qed


end
