(* ===== verification/GateClient.thy ===== *)
theory GateClient
  imports ExchangeCommon
begin

text \<open>
  The history requests of \<open>src/src/exchange/gate.rs\<close>: listings of whole seconds, by page number or by offset, whose rows
  carry their time in one of eight fields.  Which transport errors are worth another attempt is the argument \<open>transient\<close>.
\<close>

definition gate_chunk_ms :: int where "gate_chunk_ms = 30 * 24 * 60 * 60 * 1000"

definition gate_check :: "json \<Rightarrow> exchange_error + json" where
  "gate_check v =
     (case Option.bind (json_get ''label'' v) as_str of
        Some label \<Rightarrow> Inl (ApiError label (api_message ''message'' ''unknown Gate API error'' v))
      | None \<Rightarrow> Inr v)"

definition gate_private_get :: "(exchange_error \<Rightarrow> bool) \<Rightarrow> transport \<Rightarrow> string \<Rightarrow> params \<Rightarrow> exchange_error + json" where
  "gate_private_get transient net path ps =
     retry_get transient (\<lambda>attempt. bind_res (net attempt ''https://api.gateio.ws'' (''/api/v4'' @ path) ps 1) gate_check) 1"

definition gate_public_get :: "(exchange_error \<Rightarrow> bool) \<Rightarrow> transport \<Rightarrow> string \<Rightarrow> params \<Rightarrow> exchange_error + json" where
  "gate_public_get transient net path ps =
     retry_get transient (\<lambda>attempt. net attempt ''https://api.gateio.ws'' (''/api/v4'' @ path) ps 1) 1"

section \<open>The time of a row\<close>

definition timestamp_value_ms :: "json \<Rightarrow> int option" where
  "timestamp_value_ms v =
     Option.bind (case v of JNumber _ \<Rightarrow> as_f64 v | JString t \<Rightarrow> parse_f64 t | _ \<Rightarrow> None) (\<lambda>number.
       if \<not> is_finite number \<or> number < 0 then None
       else let milliseconds = to_milliseconds number
         in if milliseconds \<le> Fin (2 ^ 63) then Some (case milliseconds of Fin q \<Rightarrow> round_positive q | _ \<Rightarrow> 0) else None)"

definition timestamp_ms :: "json \<Rightarrow> int option" where
  "timestamp_ms row =
     find_some (\<lambda>key. Option.bind (json_get key row) timestamp_value_ms)
       [''create_time_ms'', ''time_ms'', ''transaction_time_ms'', ''transaction_time'', ''create_time'', ''time'', ''timestamp'', ''t'']"

definition sort_by_timestamp :: "json list \<Rightarrow> json list" where
  "sort_by_timestamp rows = sort_key (\<lambda>row. or_zero_time (timestamp_ms row)) rows"

section \<open>Listings\<close>

definition seconds_params :: "time_range \<Rightarrow> params" where
  "seconds_params chunk = [(''from'', int_text (rg_start_ms chunk div 1000)), (''to'', int_text (rg_end_ms chunk div 1000))]"

text \<open>A page number starts at one, an offset at zero; both are \<open>u32\<close> and saturate.\<close>

definition u32_add :: "int \<Rightarrow> int \<Rightarrow> int" where
  "u32_add a b = min (a + b) (2 ^ 32 - 1)"

definition gate_page :: "(exchange_error \<Rightarrow> bool) \<Rightarrow> transport \<Rightarrow> string \<Rightarrow> (int \<Rightarrow> params) \<Rightarrow> nat \<Rightarrow> (int \<Rightarrow> int) \<Rightarrow> time_range \<Rightarrow> int \<Rightarrow>
    exchange_error + json list \<times> int option" where
  "gate_page transient net path ps limit advance r cursor =
     bind_res (gate_private_get transient net path (ps cursor)) (\<lambda>v.
     bind_res (root_array v) (\<lambda>batch.
       Inr (filter (time_within timestamp_ms r) batch, if length batch < limit then None else Some (advance cursor))))"

definition gate_listing :: "(f64 \<Rightarrow> string) \<Rightarrow> (exchange_error \<Rightarrow> bool) \<Rightarrow> transport \<Rightarrow> string \<Rightarrow> (time_range \<Rightarrow> int \<Rightarrow> params) \<Rightarrow> nat \<Rightarrow> int \<Rightarrow> (int \<Rightarrow> int) \<Rightarrow>
    string list \<Rightarrow> time_range \<Rightarrow> history" where
  "gate_listing ft transient net path ps limit start advance keys r =
     then_res (Some (checked_range r)) (\<lambda>r.
     then_res (checked_chunks r gate_chunk_ms) (\<lambda>chunks.
     then_res (for_chunks (\<lambda>chunk. page_loop (gate_page transient net path (ps chunk) limit advance r) start) chunks []) (\<lambda>rows.
       Some (Inr (sort_by_timestamp (dedup ft keys rows))))))"

definition gate_spot_trades :: "(f64 \<Rightarrow> string) \<Rightarrow> (exchange_error \<Rightarrow> bool) \<Rightarrow> transport \<Rightarrow> time_range \<Rightarrow> history" where
  "gate_spot_trades ft transient net =
     gate_listing ft transient net ''/spot/my_trades''
       (\<lambda>chunk page. [(''account'', ''unified'')] @ seconds_params chunk @ [(''limit'', ''100''), (''page'', int_text page)])
       100 1 (\<lambda>page. u32_add page 1) [''currency_pair'', ''id'']"

definition gate_futures_trades :: "(f64 \<Rightarrow> string) \<Rightarrow> (exchange_error \<Rightarrow> bool) \<Rightarrow> transport \<Rightarrow> time_range \<Rightarrow> history" where
  "gate_futures_trades ft transient net =
     gate_listing ft transient net ''/futures/usdt/my_trades_timerange''
       (\<lambda>chunk offset. seconds_params chunk @ [(''limit'', ''1000''), (''offset'', int_text offset)])
       1000 0 (\<lambda>offset. u32_add offset 1000) [''contract'', ''trade_id'']"

datatype gate_book_type = BookFunding | BookTradingFee | BookRealizedPnl | BookDepositWithdrawal

definition book_value :: "gate_book_type \<Rightarrow> string" where
  "book_value t = (case t of BookFunding \<Rightarrow> ''fund'' | BookTradingFee \<Rightarrow> ''fee'' | BookRealizedPnl \<Rightarrow> ''pnl'' | BookDepositWithdrawal \<Rightarrow> ''dnw'')"

definition futures_account_book :: "(f64 \<Rightarrow> string) \<Rightarrow> (exchange_error \<Rightarrow> bool) \<Rightarrow> transport \<Rightarrow> gate_book_type \<Rightarrow> time_range \<Rightarrow> history" where
  "futures_account_book ft transient net book_type =
     gate_listing ft transient net ''/futures/usdt/account_book''
       (\<lambda>chunk offset. seconds_params chunk @ [(''type'', book_value book_type), (''limit'', ''1000''), (''offset'', int_text offset)])
       1000 0 (\<lambda>offset. u32_add offset 1000) [''id'', ''contract'', ''time'', ''change'']"

definition gate_funding_fees :: "(f64 \<Rightarrow> string) \<Rightarrow> (exchange_error \<Rightarrow> bool) \<Rightarrow> transport \<Rightarrow> time_range \<Rightarrow> history" where
  "gate_funding_fees ft transient net = futures_account_book ft transient net BookFunding"

text \<open>The offset of the liquidations is a \<open>usize\<close>.\<close>

definition gate_liquidation_history :: "(f64 \<Rightarrow> string) \<Rightarrow> (exchange_error \<Rightarrow> bool) \<Rightarrow> transport \<Rightarrow> string option \<Rightarrow> time_range \<Rightarrow> history" where
  "gate_liquidation_history ft transient net contract =
     gate_listing ft transient net ''/futures/usdt/liquidates''
       (\<lambda>chunk offset. seconds_params chunk @ [(''limit'', ''100''), (''offset'', int_text offset)] @
          (case contract of Some c \<Rightarrow> [(''contract'', c)] | None \<Rightarrow> []))
       100 0 (\<lambda>offset. min (offset + 100) (2 ^ 64 - 1)) [''order_id'', ''contract'', ''time'']"

definition interest_records :: "(f64 \<Rightarrow> string) \<Rightarrow> (exchange_error \<Rightarrow> bool) \<Rightarrow> transport \<Rightarrow> time_range \<Rightarrow> history" where
  "interest_records ft transient net =
     gate_listing ft transient net ''/unified/interest_records''
       (\<lambda>chunk page. seconds_params chunk @ [(''type'', ''margin''), (''limit'', ''100''), (''page'', int_text page)])
       100 1 (\<lambda>page. u32_add page 1) [''id'', ''currency'', ''time'', ''interest'']"

definition spot_account_book :: "(f64 \<Rightarrow> string) \<Rightarrow> (exchange_error \<Rightarrow> bool) \<Rightarrow> transport \<Rightarrow> string \<Rightarrow> time_range \<Rightarrow> history" where
  "spot_account_book ft transient net currency =
     gate_listing ft transient net ''/spot/account_book''
       (\<lambda>chunk page. [(''currency'', currency)] @ seconds_params chunk @ [(''limit'', ''1000''), (''page'', int_text page)])
       1000 1 (\<lambda>page. u32_add page 1) [''id'', ''currency'', ''time'', ''change'']"

definition gate_funding_rates :: "(exchange_error \<Rightarrow> bool) \<Rightarrow> transport \<Rightarrow> string \<Rightarrow> time_range option \<Rightarrow> nat \<Rightarrow> exchange_error + json list" where
  "gate_funding_rates transient net contract range_opt limit =
     bind_res (case range_opt of None \<Rightarrow> Inr None | Some r \<Rightarrow> bind_res (checked_range r) (\<lambda>r. Inr (Some r))) (\<lambda>range_opt.
     bind_res (gate_public_get transient net ''/futures/usdt/funding_rate''
       ([(''contract'', contract), (''limit'', int_text (max 1 (min (int limit) 1000)))] @
        (case range_opt of Some r \<Rightarrow> seconds_params r | None \<Rightarrow> []))) (\<lambda>v.
     bind_res (root_array v) (\<lambda>rows.
       Inr (sort_by_timestamp (case range_opt of Some r \<Rightarrow> filter (time_within timestamp_ms r) rows | None \<Rightarrow> rows)))))"

definition futures_contracts :: "(exchange_error \<Rightarrow> bool) \<Rightarrow> transport \<Rightarrow> exchange_error + json list" where
  "futures_contracts transient net = bind_res (gate_public_get transient net ''/futures/usdt/contracts'' []) root_array"

definition futures_contract :: "(exchange_error \<Rightarrow> bool) \<Rightarrow> transport \<Rightarrow> string \<Rightarrow> exchange_error + json" where
  "futures_contract transient net contract = gate_public_get transient net (''/futures/usdt/contracts/'' @ contract) []"

section \<open>All rows of a range\<close>

text \<open>Gate lists the rows of whole seconds by offset: what a chunk asks for starts before it, within its first second, and ends
  after it, within its last.\<close>

definition in_seconds :: "time_range \<Rightarrow> json \<Rightarrow> bool" where
  "in_seconds chunk row \<longleftrightarrow>
     (case timestamp_ms row of Some t \<Rightarrow> rg_start_ms chunk div 1000 \<le> t div 1000 \<and> t div 1000 \<le> rg_end_ms chunk div 1000 | None \<Rightarrow> False)"

definition serves_offsets :: "(exchange_error \<Rightarrow> bool) \<Rightarrow> transport \<Rightarrow> string \<Rightarrow> (time_range \<Rightarrow> int \<Rightarrow> params) \<Rightarrow> nat \<Rightarrow> json list \<Rightarrow> bool" where
  "serves_offsets transient net path ps limit db \<longleftrightarrow>
     (\<forall>chunk offset. 0 \<le> rg_start_ms chunk \<longrightarrow> rg_start_ms chunk \<le> rg_end_ms chunk \<longrightarrow> rg_end_ms chunk \<le> i64_max \<longrightarrow> 0 \<le> offset \<longrightarrow> offset < 2 ^ 32 \<longrightarrow>
        gate_private_get transient net path (ps chunk offset) = Inr (JArray (take limit (drop (nat offset) (filter (in_seconds chunk) db)))))"

lemma offset_pages_complete:
  assumes "0 < n" and get: "\<And>j. j \<le> length rows \<Longrightarrow> n dvd j \<Longrightarrow>
      get_page (int j) = Inr (filter P (take n (drop j rows)), if length (take n (drop j rows)) < n then None else Some (int (j + n)))"
  shows "page_loop get_page 0 acc = Some (Inr (acc @ filter P rows))"
proof -
  define left where "left k = filter P (drop (nat k) rows)" for k
  have "page_loop get_page 0 acc = Some (Inr (acc @ left 0))"
  proof (rule page_loop_complete [where I = "\<lambda>k. \<exists>j. k = int j \<and> j \<le> length rows \<and> n dvd j" and m = "\<lambda>k. length rows - nat k"])
    show "\<exists>j. 0 = int j \<and> j \<le> length rows \<and> n dvd j" by (intro exI [of _ 0]) simp
    fix k assume "\<exists>j. k = int j \<and> j \<le> length rows \<and> n dvd j"
    then obtain j where j: "k = int j" "j \<le> length rows" "n dvd j" by blast
    let ?d = "drop j rows"
    have g: "get_page k = Inr (filter P (take n ?d), if length (take n ?d) < n then None else Some (int (j + n)))" using get j by simp
    show "\<exists>page next. get_page k = Inr (page, next) \<and>
      (case next of None \<Rightarrow> left k = page | Some c' \<Rightarrow> (\<exists>j. c' = int j \<and> j \<le> length rows \<and> n dvd j) \<and> left k = page @ left c' \<and>
         length rows - nat c' < length rows - nat k)"
    proof (cases "length (take n ?d) < n")
      case True
      then show ?thesis using g j(1) by (simp add: left_def)
    next
      case False
      then have len: "j + n \<le> length rows" using assms(1) by auto
      have "filter P (take n ?d @ drop n ?d) = filter P (take n ?d) @ filter P (drop n ?d)" by (rule filter_append)
      then have "left k = filter P (take n ?d) @ left (int (j + n))" unfolding append_take_drop_id left_def j(1) nat_int unfolding drop_drop by (simp only: add.commute)
      moreover have "n dvd j + n" using j(3) by simp
      ultimately show ?thesis using g False len assms(1) j(1) by (auto intro!: exI [of _ "j + n"])
    qed
  qed
  then show ?thesis by (simp add: left_def)
qed

lemma gate_listing_rows:
  assumes serves: "serves_offsets transient net path ps n db" and n: "0 < n" "n \<le> 1000" and len: "length db < 2 ^ 32 - 1001"
    and inj: "inj_on (row_key ft keys) (set db)"
    and r: "0 \<le> rg_start_ms r" "rg_start_ms r \<le> rg_end_ms r" "rg_end_ms r < i64_max"
  shows "\<exists>rows. gate_listing ft transient net path ps n 0 (\<lambda>offset. u32_add offset (int n)) keys r = Some (Inr (sort_by_timestamp rows)) \<and>
    set rows = {row \<in> set db. time_within timestamp_ms r row} \<and> distinct rows"
proof -
  obtain cs where cs: "checked_chunks r gate_chunk_ms = Some (Inr cs)" "tiles gate_chunk_ms (rg_start_ms r) (rg_end_ms r) cs"
    using checked_chunks_spec [OF r, of gate_chunk_ms] by (auto simp: gate_chunk_ms_def)
  let ?f = "\<lambda>c. filter (time_within timestamp_ms r) (filter (in_seconds c) db)"
  have loop: "for_chunks (\<lambda>chunk. page_loop (gate_page transient net path (ps chunk) n (\<lambda>offset. u32_add offset (int n)) r) 0) cs [] =
      Some (Inr ([] @ concat (map ?f cs)))"
  proof (rule for_chunks_complete)
    fix c acc assume "c \<in> set cs"
    then have c: "0 \<le> rg_start_ms c" "rg_start_ms c \<le> rg_end_ms c" "rg_end_ms c \<le> i64_max" using tiles_range [OF cs(2)] r by fastforce+
    let ?rows = "filter (in_seconds c) db"
    show "page_loop (gate_page transient net path (ps c) n (\<lambda>offset. u32_add offset (int n)) r) 0 acc = Some (Inr (acc @ ?f c))"
    proof (rule offset_pages_complete [OF n(1)])
      fix j assume j: "j \<le> length ?rows" "n dvd j"
      have "length ?rows \<le> length db" "length db < 4294966295" using len by simp_all
      then have "int j + int n < 4294967296" using j(1) n(2) by linarith
      then have b: "int j + int n < 2 ^ 32" by simp
      then have "gate_private_get transient net path (ps c (int j)) = Inr (JArray (take n (drop j ?rows)))"
        using serves c n(1) by (simp add: serves_offsets_def)
      then show "gate_page transient net path (ps c) n (\<lambda>offset. u32_add offset (int n)) r (int j) =
        Inr (filter (time_within timestamp_ms r) (take n (drop j ?rows)), if length (take n (drop j ?rows)) < n then None else Some (int (j + n)))"
        using b by (simp add: gate_page_def root_array_def as_array_def ok_or_def u32_add_def)
    qed
  qed
  have all: "set (concat (map ?f cs)) = {row \<in> set db. time_within timestamp_ms r row}"
  proof (intro set_eqI iffI)
    fix row assume row: "row \<in> {row \<in> set db. time_within timestamp_ms r row}"
    then obtain t where t: "timestamp_ms row = Some t" "rg_start_ms r \<le> t" "t \<le> rg_end_ms r"
      by (auto simp: time_within_def in_range_def split: option.splits)
    then obtain c where c: "c \<in> set cs" "rg_start_ms c \<le> t" "t \<le> rg_end_ms c" using tiles_cover [OF cs(2) t(2,3)] by blast
    then have "in_seconds c row" using t(1) by (simp add: in_seconds_def zdiv_mono1)
    then have "row \<in> set (?f c)" using row by simp
    then show "row \<in> set (concat (map ?f cs))" using c(1) by auto
  qed auto
  have "inj_on (row_key ft keys) (set (concat (map ?f cs)))" unfolding all by (rule inj_on_subset [OF inj]) blast
  note D = dedup_set [OF this]
  have cr: "checked_range r = Inr r" using r by (simp add: checked_range_def time_range_new_def)
  have "gate_listing ft transient net path ps n 0 (\<lambda>offset. u32_add offset (int n)) keys r =
      Some (Inr (sort_by_timestamp (dedup ft keys (concat (map ?f cs)))))"
    using loop cs(1) cr by (simp add: gate_listing_def)
  then show ?thesis using D all by (intro exI [of _ "dedup ft keys (concat (map ?f cs))"]) simp
qed

definition futures_trades_params :: "time_range \<Rightarrow> int \<Rightarrow> params" where
  "futures_trades_params chunk offset = seconds_params chunk @ [(''limit'', ''1000''), (''offset'', int_text offset)]"

text \<open>C36: Gate lists trades by whole seconds, so the chunks of the client overlap within a second at their borders; still every
  futures trade of the range comes back exactly once, ordered by time, and nothing of the seconds around the range.\<close>

theorem gate_trades_complete:
  assumes "serves_offsets transient net ''/futures/usdt/my_trades_timerange'' futures_trades_params 1000 db"
    and "length db < 2 ^ 32 - 1001" "distinct (map (row_key ft [''contract'', ''trade_id'']) db)"
    and "0 \<le> rg_start_ms r" "rg_start_ms r \<le> rg_end_ms r" "rg_end_ms r < i64_max"
  shows "\<exists>out. gate_futures_trades ft transient net r = Some (Inr out) \<and>
    mset out = mset (filter (time_within timestamp_ms r) db) \<and> sorted (map (\<lambda>row. or_zero_time (timestamp_ms row)) out)"
proof -
  have "distinct db" and inj: "inj_on (row_key ft [''contract'', ''trade_id'']) (set db)" using assms(3) by (auto simp: distinct_map)
  obtain rows where rows: "gate_listing ft transient net ''/futures/usdt/my_trades_timerange'' futures_trades_params 1000 0
      (\<lambda>offset. u32_add offset (int 1000)) [''contract'', ''trade_id''] r = Some (Inr (sort_by_timestamp rows))"
    "set rows = {row \<in> set db. time_within timestamp_ms r row}" "distinct rows"
    using gate_listing_rows [OF assms(1) _ _ assms(2) inj assms(4-6)] by auto
  have g: "gate_futures_trades ft transient net r = Some (Inr (sort_by_timestamp rows))"
    using rows(1) by (simp add: gate_futures_trades_def futures_trades_params_def [abs_def])
  have "mset rows = mset (filter (time_within timestamp_ms r) db)"
    using rows(2,3) \<open>distinct db\<close> by (subst set_eq_iff_mset_eq_distinct [symmetric]) auto
  then show ?thesis using g by (auto simp: sort_by_timestamp_def)
qed

definition gate_trade :: "int \<Rightarrow> json" where
  "gate_trade n = JObject [(''trade_id'', JNumber (JInt n)), (''create_time_ms'', JNumber (JFloat (Fin (of_int (100000000000 + 400 * n)))))]"

definition gate_net :: "json list \<Rightarrow> transport" where
  "gate_net db = (\<lambda>attempt base path ps weight. Inr (JArray (
     case (Option.bind (map_of ps ''from'') parse_i64, Option.bind (map_of ps ''to'') parse_i64, Option.bind (map_of ps ''offset'') parse_i64) of
       (Some a, Some b, Some offset) \<Rightarrow> take 1000 (drop (nat offset) (filter (\<lambda>row. case timestamp_ms row of Some t \<Rightarrow> a \<le> t div 1000 \<and> t div 1000 \<le> b | None \<Rightarrow> False) db))
     | _ \<Rightarrow> [])))"

lemma gate_net_serves: "serves_offsets transient (gate_net db) path futures_trades_params 1000 db"
  unfolding serves_offsets_def
proof (intro allI impI)
  fix chunk :: time_range and offset :: int
  assume c: "0 \<le> rg_start_ms chunk" "rg_start_ms chunk \<le> rg_end_ms chunk" "rg_end_ms chunk \<le> i64_max" and o: "0 \<le> offset" "offset < 2 ^ 32"
  have "is_i64 (rg_start_ms chunk div 1000)" "is_i64 (rg_end_ms chunk div 1000)" "is_i64 offset"
    using c o by (auto simp: is_i64_def i64_min_def i64_max_def)
  then show "gate_private_get transient (gate_net db) path (futures_trades_params chunk offset) =
      Inr (JArray (take 1000 (drop (nat offset) (filter (in_seconds chunk) db))))"
    by (simp add: gate_private_get_def retry_get_def gate_net_def futures_trades_params_def seconds_params_def parse_i64_int_text gate_check_def
        json_get_def in_seconds_def [abs_def])
qed

lemma gate_trades_complete_witness:
  "\<exists>out. gate_futures_trades (\<lambda>_. []) (\<lambda>_. False) (gate_net (map gate_trade [1, 2, 3, 4])) \<lparr>rg_start_ms = 100000000500, rg_end_ms = 100000001300\<rparr> =
      Some (Inr out) \<and> mset out = mset (map gate_trade [2, 3])"
proof -
  let ?db = "map gate_trade [1, 2, 3, 4]" and ?r = "\<lparr>rg_start_ms = 100000000500, rg_end_ms = 100000001300\<rparr>"
  have t: "timestamp_ms (gate_trade n) = Some (100000000000 + 400 * n)" if "0 \<le> n" "n < 1000" for n
  proof -
    have "\<lfloor>rat_of_int (100000000000 + 400 * n) + 1 / 2\<rfloor> = 100000000000 + 400 * n" by (rule floor_unique) simp_all
    then have "round_positive (rat_of_int (100000000000 + 400 * n)) = 100000000000 + 400 * n"
      using that by (simp add: round_positive_def clamp_i64_def i64_min_def i64_max_def)
    then have "timestamp_value_ms (JNumber (JFloat (Fin (of_int (100000000000 + 400 * n))))) = Some (100000000000 + 400 * n)"
      using that by (simp add: timestamp_value_ms_def as_f64_def to_milliseconds_def zero_f64_def)
    then show ?thesis by (simp add: timestamp_ms_def find_some_def List.map_filter_def gate_trade_def json_get_def)
  qed
  have "int_text 1 = ''1''" "int_text 2 = ''2''" "int_text 3 = ''3''" "int_text 4 = ''4''" by code_simp+
  then have "distinct (map (row_key (\<lambda>_. []) [''contract'', ''trade_id'']) ?db)" by (simp add: row_key_def gate_trade_def json_get_def)
  moreover have "filter (time_within timestamp_ms ?r) ?db = map gate_trade [2, 3]" by (simp add: t time_within_def in_range_def)
  ultimately show ?thesis
    using gate_trades_complete [of "\<lambda>_. False" "gate_net ?db" ?db "\<lambda>_. []" ?r, OF gate_net_serves] by (auto simp: i64_max_def)
qed


end
