(* ===== verification/LtpClient.thy ===== *)
theory LtpClient
  imports ExchangeCommon
begin

text \<open>
  The history requests of \<open>src/src/exchange/ltp.rs\<close> (RapidX): executions, split between the recent listing and its
  archive, and account statements, in numbered pages whose envelope is checked on every page.
\<close>

definition page_size :: nat where "page_size = 1000"
definition max_pages :: nat where "max_pages = 100"
definition ltp_day_ms :: int where "ltp_day_ms = 86400000"
definition recent_span_ms :: int where "recent_span_ms = 7 * ltp_day_ms"
definition archive_span_ms :: int where "archive_span_ms = 90 * ltp_day_ms"
definition executions_path :: string where "executions_path = ''/api/v1/trading/executions/pageable''"
definition archived_executions_path :: string where "archived_executions_path = ''/api/v1/trading/archive/executions/pageable''"
definition statement_path :: string where "statement_path = ''/api/v1/trading/statement''"

record ltp_client =
  lc_exchange :: string
  lc_portfolio_id :: string
  lc_base_url :: string

fun trim_slashes :: "string \<Rightarrow> string" where
  "trim_slashes s = (if s \<noteq> [] \<and> last s = CHR ''/'' then trim_slashes (butlast s) else s)"

declare trim_slashes.simps [simp del]

definition ltp_client_new :: "string \<Rightarrow> string \<Rightarrow> string option \<Rightarrow> exchange_error + ltp_client" where
  "ltp_client_new portfolio_id exchange base_url =
     (if exchange \<notin> {''BINANCE'', ''OKX''} then Inl (InvalidQuery (''unsupported RapidX exchange '' @ exchange))
      else if portfolio_id = [] then Inl (InvalidQuery ''RapidX portfolio id is empty'')
      else Inr \<lparr>lc_exchange = exchange, lc_portfolio_id = portfolio_id,
        lc_base_url = trim_slashes (case base_url of
          Some url \<Rightarrow> if str_trim url = [] then ''https://api.liquiditytech.com'' else url
        | None \<Rightarrow> ''https://api.liquiditytech.com'')\<rparr>)"

definition invalid_response :: "string \<Rightarrow> exchange_error + 'a" where
  "invalid_response message = Inl (InvalidResponse message)"

definition check_ltp_code :: "(f64 \<Rightarrow> string) \<Rightarrow> json \<Rightarrow> exchange_error + json" where
  "check_ltp_code ft v =
     (case json_get ''code'' v of
        None \<Rightarrow> invalid_response ''RapidX response missing code''
      | Some code \<Rightarrow>
          if api_code ft code \<in> {''200'', ''200000''} then Inr v
          else Inl (ApiError (api_code ft code)
            (case Option.bind (find_some (\<lambda>key. json_get key v) [''msg'', ''message'']) as_str of
               Some t \<Rightarrow> t | None \<Rightarrow> ''unknown RapidX API error'')))"

text \<open>The parameters are a \<open>BTreeMap\<close>: in the order of their names.\<close>

definition ltp_get :: "(f64 \<Rightarrow> string) \<Rightarrow> transport \<Rightarrow> ltp_client \<Rightarrow> string \<Rightarrow> params \<Rightarrow> exchange_error + json" where
  "ltp_get ft net client path ps = bind_res (net 0 (lc_base_url client) path (object_entries ps) 1) (check_ltp_code ft)"

section \<open>Readers\<close>

definition integer_field :: "json \<Rightarrow> string \<Rightarrow> exchange_error + nat" where
  "integer_field v key =
     (case json_get key v of
        Some (JNumber (JInt n)) \<Rightarrow> if 0 \<le> n \<and> n < 2 ^ 64 then Inr (nat n) else invalid_response (''missing integer '' @ key)
      | _ \<Rightarrow> invalid_response (''missing integer '' @ key))"

definition required_string :: "json \<Rightarrow> string \<Rightarrow> exchange_error + string" where
  "required_string row key = ok_or (InvalidResponse (''row missing string '' @ key)) (non_empty (Option.bind (json_get key row) as_str))"

definition portfolio_text :: "(f64 \<Rightarrow> string) \<Rightarrow> json \<Rightarrow> string \<Rightarrow> exchange_error + string" where
  "portfolio_text ft row key =
     (case json_get key row of
        Some (JString t) \<Rightarrow> if t \<noteq> [] then Inr t else invalid_response (''row missing '' @ key)
      | Some (JNumber n) \<Rightarrow> Inr (json_text ft (JNumber n))
      | _ \<Rightarrow> invalid_response (''row missing '' @ key))"

definition ltp_timestamp :: "json \<Rightarrow> string \<Rightarrow> exchange_error + int" where
  "ltp_timestamp row key =
     bind_res (case json_get key row of
         Some (JNumber n) \<Rightarrow> ok_or (InvalidResponse (key @ '' is not an integer timestamp'')) (as_i64 (JNumber n))
       | Some (JString t) \<Rightarrow> ok_or (InvalidResponse (key @ '' is not milliseconds'')) (parse_i64 t)
       | _ \<Rightarrow> invalid_response (''row missing '' @ key)) (\<lambda>timestamp.
       if timestamp \<le> 0 then invalid_response (key @ '' must be positive'') else Inr timestamp)"

section \<open>Pages\<close>

record ltp_page =
  lp_pages :: nat
  lp_total :: nat
  lp_rows :: "json list"

text \<open>The rows of a page one by one: an id not seen before, the portfolio and exchange of the client, a time in the window.\<close>

definition check_row :: "(f64 \<Rightarrow> string) \<Rightarrow> ltp_client \<Rightarrow> string \<Rightarrow> time_range \<Rightarrow> json \<Rightarrow> string list \<times> json list \<Rightarrow>
    exchange_error + string list \<times> json list" where
  "check_row ft client id_field r row = (\<lambda>(ids, rows).
     bind_res (required_string row id_field) (\<lambda>row_id.
     if row_id \<in> set ids then invalid_response (''duplicate '' @ id_field @ '' '' @ row_id)
     else bind_res (portfolio_text ft row ''portfolioId'') (\<lambda>portfolio.
       bind_res (if portfolio \<noteq> lc_portfolio_id client then Inr False
           else bind_res (required_string row ''exchangeType'') (\<lambda>e. Inr (eq_ignore_ascii_case e (lc_exchange client)))) (\<lambda>scope.
       if \<not> scope then invalid_response ''scope mismatch''
       else bind_res (ltp_timestamp row ''createAt'') (\<lambda>timestamp.
         if \<not> in_range r timestamp then invalid_response ''timestamp outside requested window''
         else Inr (row_id # ids, rows @ [row]))))))"

definition envelope :: "string \<Rightarrow> json \<Rightarrow> exchange_error + nat \<times> nat \<times> nat \<times> nat \<times> json" where
  "envelope label v =
     bind_res (case json_get ''data'' v of Some (JObject fs) \<Rightarrow> Inr (JObject fs)
         | _ \<Rightarrow> invalid_response (label @ '' response missing data object'')) (\<lambda>body.
     bind_res (integer_field body ''page'') (\<lambda>page.
     bind_res (integer_field body ''pageSize'') (\<lambda>size.
     bind_res (integer_field body ''pageNum'') (\<lambda>pages.
     bind_res (integer_field body ''totalSize'') (\<lambda>total_rows. Inr (page, size, pages, total_rows, body))))))"

definition page_list :: "string \<Rightarrow> json \<Rightarrow> exchange_error + json list" where
  "page_list label body = ok_or (InvalidResponse (label @ '' response missing list'')) (Option.bind (json_get ''list'' body) as_array)"

definition changed :: "nat option \<Rightarrow> nat \<Rightarrow> bool" where
  "changed expected n \<longleftrightarrow> (case expected of Some m \<Rightarrow> m \<noteq> n | None \<Rightarrow> False)"

definition validate_execution_page :: "(f64 \<Rightarrow> string) \<Rightarrow> ltp_client \<Rightarrow> time_range \<Rightarrow> nat \<Rightarrow> nat option \<Rightarrow> nat option \<Rightarrow> string list \<Rightarrow> json \<Rightarrow>
    exchange_error + string list \<times> ltp_page" where
  "validate_execution_page ft client r requested_page expected_pages expected_total ids v =
     bind_res (envelope ''execution'' v) (\<lambda>(page, size, pages, total_rows, body).
     if page \<noteq> requested_page \<or> size \<noteq> page_size \<or> max_pages < pages \<or> (0 < total_rows \<and> (pages = 0 \<or> pages < page)) \<or>
        (total_rows = 0 \<and> (1 < pages \<or> page \<noteq> 1))
     then invalid_response ''invalid execution pagination envelope''
     else if changed expected_pages pages \<or> changed expected_total total_rows
     then invalid_response ''execution pagination changed during fetch''
     else bind_res (page_list ''execution'' body) (\<lambda>list.
       if list = [] \<and> total_rows \<noteq> 0 then invalid_response ''unexpected empty execution page''
       else if page_size < length list \<or> total_rows < length list \<or> (page < pages \<and> length list \<noteq> page_size)
       then invalid_response ''execution page is incomplete or oversized''
       else bind_res (fold_res (check_row ft client ''transactionId'' r) list (ids, [])) (\<lambda>(ids, rows).
         Inr (ids, \<lparr>lp_pages = pages, lp_total = total_rows, lp_rows = rows\<rparr>))))"

definition div_ceil :: "nat \<Rightarrow> nat \<Rightarrow> nat" where
  "div_ceil a b = (a + b - 1) div b"

definition validate_statement_page :: "(f64 \<Rightarrow> string) \<Rightarrow> ltp_client \<Rightarrow> time_range \<Rightarrow> nat \<Rightarrow> nat option \<Rightarrow> nat option \<Rightarrow> string list \<Rightarrow> json \<Rightarrow>
    exchange_error + string list \<times> ltp_page" where
  "validate_statement_page ft client r requested_page expected_pages expected_total ids v =
     bind_res (envelope ''statement'' v) (\<lambda>(page, size, pages, total_rows, body).
     if page \<noteq> requested_page \<or> size \<noteq> page_size \<or> max_pages < pages \<or> max_pages * page_size < total_rows \<or>
        (0 < total_rows \<and> (pages \<noteq> div_ceil total_rows page_size \<or> pages < page)) \<or> (total_rows = 0 \<and> (1 < pages \<or> page \<noteq> 1)) \<or>
        changed expected_pages pages \<or> changed expected_total total_rows
     then invalid_response ''invalid statement pagination envelope''
     else bind_res (page_list ''statement'' body) (\<lambda>list.
       if length list \<noteq> min (total_rows - (page - 1) * page_size) page_size
       then invalid_response ''incomplete or oversized statement page''
       else bind_res (fold_res (check_row ft client ''statementId'' r) list (ids, [])) (\<lambda>(ids, rows).
         Inr (ids, \<lparr>lp_pages = pages, lp_total = total_rows, lp_rows = rows\<rparr>))))"

text \<open>The pages are asked for in turn, at most \<open>max_pages\<close> of them.\<close>

record paging_state =
  ps_ids :: "string list"
  ps_expected :: "(nat \<times> nat) option"
  ps_rows :: "json list"

fun ltp_pages :: "string \<Rightarrow> (nat \<Rightarrow> exchange_error + json) \<Rightarrow>
    (nat \<Rightarrow> nat option \<Rightarrow> nat option \<Rightarrow> string list \<Rightarrow> json \<Rightarrow> exchange_error + string list \<times> ltp_page) \<Rightarrow> nat list \<Rightarrow> paging_state \<Rightarrow> exchange_error + json list" where
  "ltp_pages label get validate [] st = invalid_response (label @ '' history exceeds the page limit'')"
| "ltp_pages label get validate (page # ps) st =
     bind_res (get page) (\<lambda>v.
     bind_res (validate page (map_option fst (ps_expected st)) (map_option snd (ps_expected st)) (ps_ids st) v) (\<lambda>(ids, parsed).
       let rows = ps_rows st @ lp_rows parsed
       in if lp_pages parsed \<le> page
          then (if length rows \<noteq> lp_total parsed then invalid_response (label @ '' pagination totalSize mismatch'') else Inr rows)
          else ltp_pages label get validate ps \<lparr>ps_ids = ids, ps_expected = Some (lp_pages parsed, lp_total parsed), ps_rows = rows\<rparr>))"

definition no_pages :: paging_state where
  "no_pages = \<lparr>ps_ids = [], ps_expected = None, ps_rows = []\<rparr>"

definition page_params :: "nat \<Rightarrow> params" where
  "page_params page = [(''page'', int_text (int page)), (''pageSize'', int_text (int page_size))]"

definition execution_window :: "(f64 \<Rightarrow> string) \<Rightarrow> transport \<Rightarrow> ltp_client \<Rightarrow> string \<Rightarrow> time_range \<Rightarrow> exchange_error + json list" where
  "execution_window ft net client path r =
     ltp_pages ''execution''
       (\<lambda>page. ltp_get ft net client path ([(''exchange'', lc_exchange client), (''begin'', int_text (rg_start_ms r)),
          (''end'', int_text (rg_end_ms r))] @ page_params page))
       (validate_execution_page ft client r) [1..<max_pages + 1] no_pages"

definition execution_ranges :: "time_range \<Rightarrow> int \<Rightarrow> exchange_error + (string \<times> time_range) list" where
  "execution_ranges r now_ms =
     (if rg_start_ms r \<le> 0 \<or> now_ms < rg_end_ms r then Inl (InvalidQuery ''invalid execution history window'')
      else if rg_start_ms r < saturating_sub_i64 now_ms archive_span_ms
      then Inl (InvalidQuery ''execution recovery exceeds the documented 90-day archive'')
      else let cutoff = saturating_sub_i64 now_ms recent_span_ms
        in bind_res (if rg_start_ms r < cutoff
             then bind_res (invalid_query (time_range_new (rg_start_ms r) (min (rg_end_ms r) cutoff))) (\<lambda>w. Inr [(archived_executions_path, w)])
             else Inr []) (\<lambda>archived.
           bind_res (if cutoff \<le> rg_end_ms r
             then bind_res (invalid_query (time_range_new (max (rg_start_ms r) cutoff) (rg_end_ms r))) (\<lambda>w. Inr [(executions_path, w)])
             else Inr []) (\<lambda>recent. Inr (archived @ recent))))"

text \<open>Two values are equal when their objects have the same fields, in whatever order they came.\<close>

fun json_canon :: "json \<Rightarrow> json" where
  "json_canon (JArray vs) = JArray (map json_canon vs)"
| "json_canon (JObject fs) = JObject (object_entries (map (\<lambda>(k, v). (k, json_canon v)) fs))"
| "json_canon v = v"

text \<open>An execution of both listings, at their border, is taken once; two that differ are an error.\<close>

definition merge_row :: "json \<Rightarrow> (string \<times> json) list \<times> json list \<Rightarrow> exchange_error + (string \<times> json) list \<times> json list" where
  "merge_row row = (\<lambda>(seen, rows).
     bind_res (required_string row ''transactionId'') (\<lambda>row_id.
       case map_of seen row_id of
         Some previous \<Rightarrow>
           if json_canon previous \<noteq> json_canon row then invalid_response (''conflicting execution '' @ row_id @ '' across recent/archive boundary'')
           else Inr (seen, rows)
       | None \<Rightarrow> Inr ((row_id, row) # seen, rows @ [row])))"

definition execution_history :: "(f64 \<Rightarrow> string) \<Rightarrow> transport \<Rightarrow> ltp_client \<Rightarrow> int \<Rightarrow> time_range \<Rightarrow> exchange_error + json list" where
  "execution_history ft net client now_ms r =
     bind_res (execution_ranges r now_ms) (\<lambda>ranges.
     bind_res (fold_res (\<lambda>(path, window) st. bind_res (execution_window ft net client path window) (\<lambda>rows. fold_res merge_row rows st)) ranges ([], [])) (\<lambda>(seen, rows).
       Inr (sort_key (\<lambda>row. case ltp_timestamp row ''createAt'' of Inr t \<Rightarrow> t | Inl _ \<Rightarrow> 0) rows)))"

definition statement_history :: "(f64 \<Rightarrow> string) \<Rightarrow> transport \<Rightarrow> ltp_client \<Rightarrow> int \<Rightarrow> time_range \<Rightarrow> string \<Rightarrow> exchange_error + json list" where
  "statement_history ft net client now_ms r statement_type =
     (if rg_start_ms r \<le> 0 \<or> now_ms < rg_end_ms r \<or> rg_start_ms r < saturating_sub_i64 now_ms archive_span_ms
      then Inl (InvalidQuery ''statement history is outside the documented 90-day retention window'')
      else ltp_pages ''statement''
        (\<lambda>page. ltp_get ft net client statement_path ([(''exchange'', lc_exchange client), (''startTime'', int_text (rg_start_ms r)),
           (''endTime'', int_text (rg_end_ms r)), (''statementType'', statement_type)] @ page_params page))
        (validate_statement_page ft client r) [1..<max_pages + 1] no_pages)"

section \<open>What is accepted\<close>

definition id_of :: "string \<Rightarrow> json \<Rightarrow> string" where
  "id_of id_field row = (case required_string row id_field of Inr t \<Rightarrow> t | Inl _ \<Rightarrow> [])"

definition row_accepted :: "(f64 \<Rightarrow> string) \<Rightarrow> ltp_client \<Rightarrow> string \<Rightarrow> time_range \<Rightarrow> json \<Rightarrow> bool" where
  "row_accepted ft client id_field r row \<longleftrightarrow>
     required_string row id_field = Inr (id_of id_field row) \<and> portfolio_text ft row ''portfolioId'' = Inr (lc_portfolio_id client) \<and>
     (\<exists>e. required_string row ''exchangeType'' = Inr e \<and> eq_ignore_ascii_case e (lc_exchange client)) \<and>
     (\<exists>t. ltp_timestamp row ''createAt'' = Inr t \<and> in_range r t)"

lemma check_row_Inr:
  assumes "check_row ft client id_field r row (ids, rows) = Inr st"
  shows "row_accepted ft client id_field r row \<and> id_of id_field row \<notin> set ids \<and> st = (id_of id_field row # ids, rows @ [row])"
proof -
  obtain i where i: "required_string row id_field = Inr i" "i \<notin> set ids" "portfolio_text ft row ''portfolioId'' = Inr (lc_portfolio_id client)"
    "\<exists>e. required_string row ''exchangeType'' = Inr e \<and> eq_ignore_ascii_case e (lc_exchange client)"
    "\<exists>t. ltp_timestamp row ''createAt'' = Inr t \<and> in_range r t" "st = (i # ids, rows @ [row])"
    using assms by (auto simp: check_row_def bind_res_Inr invalid_response_def split: if_splits)
  then show ?thesis by (simp add: row_accepted_def id_of_def)
qed

lemma check_rows:
  "fold_res (check_row ft client id_field r) list (ids, rows) = Inr (ids', rows') \<Longrightarrow>
   rows' = rows @ list \<and> ids' = rev (map (id_of id_field) list) @ ids \<and> (distinct ids \<longrightarrow> distinct ids') \<and>
   (\<forall>row \<in> set list. row_accepted ft client id_field r row)"
proof (induction list arbitrary: ids rows)
  case (Cons row list)
  obtain st where st: "check_row ft client id_field r row (ids, rows) = Inr st" "fold_res (check_row ft client id_field r) list st = Inr (ids', rows')"
    using Cons.prems unfolding fold_res.simps bind_res_Inr by blast
  note C = check_row_Inr [OF st(1)]
  then have "fold_res (check_row ft client id_field r) list (id_of id_field row # ids, rows @ [row]) = Inr (ids', rows')" using st(2) by simp
  from Cons.IH [OF this] C show ?case by fastforce
qed simp

definition page_checked :: "(f64 \<Rightarrow> string) \<Rightarrow> ltp_client \<Rightarrow> string \<Rightarrow> time_range \<Rightarrow>
    (nat \<Rightarrow> nat option \<Rightarrow> nat option \<Rightarrow> string list \<Rightarrow> json \<Rightarrow> exchange_error + string list \<times> ltp_page) \<Rightarrow> bool" where
  "page_checked ft client id_field r validate \<longleftrightarrow>
     (\<forall>page ep et ids v ids' parsed. validate page ep et ids v = Inr (ids', parsed) \<longrightarrow>
        ids' = rev (map (id_of id_field) (lp_rows parsed)) @ ids \<and> (distinct ids \<longrightarrow> distinct ids') \<and>
        (\<forall>row \<in> set (lp_rows parsed). row_accepted ft client id_field r row) \<and> \<not> changed ep (lp_pages parsed) \<and> \<not> changed et (lp_total parsed))"

lemma execution_page_checked: "page_checked ft client ''transactionId'' r (validate_execution_page ft client r)"
  unfolding page_checked_def
proof (intro allI impI)
  fix page ep et ids v ids' parsed assume "validate_execution_page ft client r page ep et ids v = Inr (ids', parsed)"
  then have "\<exists>list pages total_rows rows. fold_res (check_row ft client ''transactionId'' r) list (ids, []) = Inr (ids', rows) \<and>
      parsed = \<lparr>lp_pages = pages, lp_total = total_rows, lp_rows = rows\<rparr> \<and> \<not> changed ep pages \<and> \<not> changed et total_rows"
    unfolding validate_execution_page_def bind_res_Inr split_beta if_Inr invalid_response_def by (elim exE conjE) (simp, metis prod.collapse)
  then obtain list where f: "fold_res (check_row ft client ''transactionId'' r) list (ids, []) = Inr (ids', lp_rows parsed)"
    and c: "\<not> changed ep (lp_pages parsed)" "\<not> changed et (lp_total parsed)" by auto
  note R = check_rows [OF f, unfolded append_Nil]
  have e: "lp_rows parsed = list" using R by blast
  show "ids' = rev (map (id_of ''transactionId'') (lp_rows parsed)) @ ids \<and> (distinct ids \<longrightarrow> distinct ids') \<and>
      (\<forall>row \<in> set (lp_rows parsed). row_accepted ft client ''transactionId'' r row) \<and> \<not> changed ep (lp_pages parsed) \<and> \<not> changed et (lp_total parsed)"
    unfolding e using R c by blast
qed

lemma statement_page_checked: "page_checked ft client ''statementId'' r (validate_statement_page ft client r)"
  unfolding page_checked_def
proof (intro allI impI)
  fix page ep et ids v ids' parsed assume "validate_statement_page ft client r page ep et ids v = Inr (ids', parsed)"
  then have "\<exists>list pages total_rows rows. fold_res (check_row ft client ''statementId'' r) list (ids, []) = Inr (ids', rows) \<and>
      parsed = \<lparr>lp_pages = pages, lp_total = total_rows, lp_rows = rows\<rparr> \<and> \<not> changed ep pages \<and> \<not> changed et total_rows"
    unfolding validate_statement_page_def bind_res_Inr split_beta if_Inr invalid_response_def by (elim exE conjE) (simp, metis prod.collapse)
  then obtain list where f: "fold_res (check_row ft client ''statementId'' r) list (ids, []) = Inr (ids', lp_rows parsed)"
    and c: "\<not> changed ep (lp_pages parsed)" "\<not> changed et (lp_total parsed)" by auto
  note R = check_rows [OF f, unfolded append_Nil]
  have e: "lp_rows parsed = list" using R by blast
  show "ids' = rev (map (id_of ''statementId'') (lp_rows parsed)) @ ids \<and> (distinct ids \<longrightarrow> distinct ids') \<and>
      (\<forall>row \<in> set (lp_rows parsed). row_accepted ft client ''statementId'' r row) \<and> \<not> changed ep (lp_pages parsed) \<and> \<not> changed et (lp_total parsed)"
    unfolding e using R c by blast
qed

text \<open>The rows of the pages together, as many as every page announced.\<close>

lemma ltp_pages_checked:
  assumes "page_checked ft client id_field r validate" "ltp_pages label get validate ps st = Inr out"
    and "distinct (ps_ids st)" "ps_ids st = rev (map (id_of id_field) (ps_rows st))" "\<forall>row \<in> set (ps_rows st). row_accepted ft client id_field r row"
  shows "distinct (map (id_of id_field) out) \<and> (\<forall>row \<in> set out. row_accepted ft client id_field r row) \<and>
    (\<forall>expected. ps_expected st = Some expected \<longrightarrow> length out = snd expected)"
  using assms(2-5)
proof (induction ps arbitrary: st)
  case (Cons page ps)
  obtain v ids parsed where v: "validate page (map_option fst (ps_expected st)) (map_option snd (ps_expected st)) (ps_ids st) v = Inr (ids, parsed)"
    and next_step: "(if lp_pages parsed \<le> page
          then (if length (ps_rows st @ lp_rows parsed) \<noteq> lp_total parsed then invalid_response (label @ '' pagination totalSize mismatch'')
            else Inr (ps_rows st @ lp_rows parsed))
          else ltp_pages label get validate ps \<lparr>ps_ids = ids, ps_expected = Some (lp_pages parsed, lp_total parsed), ps_rows = ps_rows st @ lp_rows parsed\<rparr>) = Inr out"
    using Cons.prems(1) by (auto simp: bind_res_Inr Let_def)
  have c: "ids = rev (map (id_of id_field) (lp_rows parsed)) @ ps_ids st" "distinct ids" "\<forall>row \<in> set (lp_rows parsed). row_accepted ft client id_field r row"
    "\<not> changed (map_option snd (ps_expected st)) (lp_total parsed)"
    using assms(1) v Cons.prems(2) unfolding page_checked_def by blast+
  have same: "snd expected = lp_total parsed" if "ps_expected st = Some expected" for expected using c(4) that by (simp add: changed_def)
  have ids: "ids = rev (map (id_of id_field) (ps_rows st @ lp_rows parsed))" using c(1) Cons.prems(3) by simp
  show ?case
  proof (cases "lp_pages parsed \<le> page")
    case True
    then have out: "out = ps_rows st @ lp_rows parsed" "length out = lp_total parsed"
      using next_step by (auto simp: invalid_response_def split: if_splits)
    have "distinct (map (id_of id_field) out)" using c(2) unfolding ids out(1) distinct_rev .
    then show ?thesis using c(3) Cons.prems(4) out same by auto
  next
    case False
    let ?st = "\<lparr>ps_ids = ids, ps_expected = Some (lp_pages parsed, lp_total parsed), ps_rows = ps_rows st @ lp_rows parsed\<rparr>"
    have "ltp_pages label get validate ps ?st = Inr out" using next_step False by simp
    then have "distinct (map (id_of id_field) out) \<and> (\<forall>row \<in> set out. row_accepted ft client id_field r row) \<and>
        (\<forall>expected. ps_expected ?st = Some expected \<longrightarrow> length out = snd expected)"
      by (rule Cons.IH) (use c ids Cons.prems(4) in auto)
    then show ?thesis using same by auto
  qed
qed (simp add: invalid_response_def)

lemma execution_window_checked:
  "execution_window ft net client path r = Inr rows \<Longrightarrow>
   distinct (map (id_of ''transactionId'') rows) \<and> (\<forall>row \<in> set rows. row_accepted ft client ''transactionId'' r row)"
  using ltp_pages_checked [OF execution_page_checked, where st = no_pages] unfolding execution_window_def by (fastforce simp: no_pages_def)

lemma merge_rows:
  assumes "fold_res merge_row new (seen, rows) = Inr (seen', rows')" "\<forall>row \<in> set new. row_accepted ft client ''transactionId'' r row"
    and "distinct (map (id_of ''transactionId'') rows)" "fst ` set seen = id_of ''transactionId'' ` set rows"
  shows "distinct (map (id_of ''transactionId'') rows') \<and> fst ` set seen' = id_of ''transactionId'' ` set rows' \<and>
    set rows \<subseteq> set rows' \<and> set rows' \<subseteq> set rows \<union> set new \<and> id_of ''transactionId'' ` set new \<subseteq> id_of ''transactionId'' ` set rows'"
  using assms
proof (induction new arbitrary: seen rows)
  case (Cons row new)
  let ?id = "id_of ''transactionId''"
  have i: "required_string row ''transactionId'' = Inr (?id row)" using Cons.prems(2) by (simp add: row_accepted_def)
  show ?case
  proof (cases "map_of seen (?id row)")
    case None
    then have new_id: "?id row \<notin> ?id ` set rows" using Cons.prems(4) by (metis map_of_eq_None_iff)
    have m: "merge_row row (seen, rows) = Inr ((?id row, row) # seen, rows @ [row])" using i None by (simp add: merge_row_def)
    have "fold_res merge_row new ((?id row, row) # seen, rows @ [row]) = Inr (seen', rows')" using Cons.prems(1) m by simp
    then have "distinct (map ?id rows') \<and> fst ` set seen' = ?id ` set rows' \<and> set (rows @ [row]) \<subseteq> set rows' \<and>
        set rows' \<subseteq> set (rows @ [row]) \<union> set new \<and> ?id ` set new \<subseteq> ?id ` set rows'"
      by (rule Cons.IH) (use Cons.prems new_id in auto)
    then show ?thesis by auto
  next
    case (Some previous)
    then have "?id row \<in> fst ` set seen" by (metis domI dom_map_of_conv_image_fst)
    then have known: "?id row \<in> ?id ` set rows" using Cons.prems(4) by simp
    obtain st where st: "merge_row row (seen, rows) = Inr st" "fold_res merge_row new st = Inr (seen', rows')"
      using Cons.prems(1) unfolding fold_res.simps bind_res_Inr by blast
    have "st = (seen, rows)" using st(1) i Some by (auto simp: merge_row_def invalid_response_def split: if_splits)
    then have "fold_res merge_row new (seen, rows) = Inr (seen', rows')" using st(2) by simp
    then have "distinct (map ?id rows') \<and> fst ` set seen' = ?id ` set rows' \<and> set rows \<subseteq> set rows' \<and>
        set rows' \<subseteq> set rows \<union> set new \<and> ?id ` set new \<subseteq> ?id ` set rows'"
      by (rule Cons.IH) (use Cons.prems in auto)
    then show ?thesis using known by auto
  qed
qed auto

text \<open>The window is divided at the border of the archive, which belongs to both parts.\<close>

lemma execution_ranges_cover:
  assumes "execution_ranges r now_ms = Inr ws" "rg_start_ms r \<le> rg_end_ms r"
  shows "(\<exists>w \<in> set ws. in_range (snd w) t) \<longleftrightarrow> in_range r t"
proof -
  let ?cut = "saturating_sub_i64 now_ms recent_span_ms"
  have "ws = (if rg_start_ms r < ?cut then [(archived_executions_path, \<lparr>rg_start_ms = rg_start_ms r, rg_end_ms = min (rg_end_ms r) ?cut\<rparr>)] else []) @
    (if ?cut \<le> rg_end_ms r then [(executions_path, \<lparr>rg_start_ms = max (rg_start_ms r) ?cut, rg_end_ms = rg_end_ms r\<rparr>)] else [])"
    using assms by (auto simp: execution_ranges_def Let_def time_range_new_def split: if_splits)
  then show ?thesis by (cases "rg_start_ms r < ?cut"; cases "?cut \<le> rg_end_ms r"; cases "t < ?cut") (auto simp: in_range_def)
qed

text \<open>C37: Whatever RapidX answers, the executions that the client accepts are of its portfolio and exchange and within the range,
  no transaction is among them twice although the recent listing and the archive overlap, and they are in order of time.\<close>

theorem executions_accepted:
  assumes "execution_history ft net client now_ms r = Inr rows" "rg_start_ms r \<le> rg_end_ms r"
  shows "distinct (map (id_of ''transactionId'') rows) \<and> (\<forall>row \<in> set rows. row_accepted ft client ''transactionId'' r row) \<and>
    sorted (map (\<lambda>row. case ltp_timestamp row ''createAt'' of Inr t \<Rightarrow> t | Inl _ \<Rightarrow> 0) rows)"
proof -
  let ?step = "\<lambda>(path, window) st. bind_res (execution_window ft net client path window) (\<lambda>rows. fold_res merge_row rows st)"
  let ?ok = "row_accepted ft client ''transactionId''"
  obtain ws seen out where ws: "execution_ranges r now_ms = Inr ws" and out: "fold_res ?step ws ([], []) = Inr (seen, out)"
    and rows: "rows = sort_key (\<lambda>row. case ltp_timestamp row ''createAt'' of Inr t \<Rightarrow> t | Inl _ \<Rightarrow> 0) out"
    using assms(1) by (auto simp: execution_history_def bind_res_Inr)
  have within: "?ok r row" if "w \<in> set ws" "?ok (snd w) row" for w row
    using that execution_ranges_cover [OF ws assms(2)] unfolding row_accepted_def by blast
  have "distinct (map (id_of ''transactionId'') out') \<and> (\<forall>row \<in> set out'. ?ok r row)"
    if "fold_res ?step vs (seen0, rows0) = Inr (seen', out')" "set vs \<subseteq> set ws" "distinct (map (id_of ''transactionId'') rows0)"
      "fst ` set seen0 = id_of ''transactionId'' ` set rows0" "\<forall>row \<in> set rows0. ?ok r row" for vs seen0 rows0 seen' out'
    using that
  proof (induction vs arbitrary: seen0 rows0)
    case (Cons w vs)
    obtain path window where w: "w = (path, window)" by (cases w)
    obtain page seen1 rows1 where page: "execution_window ft net client path window = Inr page"
      and m: "fold_res merge_row page (seen0, rows0) = Inr (seen1, rows1)" and rest: "fold_res ?step vs (seen1, rows1) = Inr (seen', out')"
      using Cons.prems(1) w by (auto simp: bind_res_Inr)
    have p: "\<forall>row \<in> set page. ?ok window row" using execution_window_checked [OF page] by blast
    note M = merge_rows [OF m p Cons.prems(3,4)]
    have "\<forall>row \<in> set rows1. ?ok r row"
    proof
      fix row assume "row \<in> set rows1"
      then consider "row \<in> set rows0" | "row \<in> set page" using M by blast
      then show "?ok r row"
      proof cases
        case 2
        then show ?thesis using p within [of w] Cons.prems(2) w by simp
      qed (use Cons.prems(5) in blast)
    qed
    then show ?case using Cons.IH [OF rest] M Cons.prems(2) by auto
  qed simp
  from this [OF out] have O: "distinct (map (id_of ''transactionId'') out)" "\<forall>row \<in> set out. ?ok r row" by simp_all
  have "mset (map (id_of ''transactionId'') rows) = mset (map (id_of ''transactionId'') out)" by (simp add: rows)
  then have "distinct (map (id_of ''transactionId'') rows)" using O(1) mset_eq_imp_distinct_iff by blast
  then show ?thesis using O(2) by (simp add: rows)
qed

definition sample_ltp_row :: json where
  "sample_ltp_row = JObject [(''transactionId'', JString ''t''), (''portfolioId'', JString ''p''), (''exchangeType'', JString ''BINANCE''),
     (''createAt'', JNumber (JInt 950))]"

definition sample_ltp_net :: transport where
  "sample_ltp_net = (\<lambda>attempt base path ps weight. Inr (JObject [(''code'', JString ''200''), (''data'', JObject
     [(''page'', JNumber (JInt 1)), (''pageSize'', JNumber (JInt 1000)), (''pageNum'', JNumber (JInt 1)), (''totalSize'', JNumber (JInt 1)),
      (''list'', JArray [sample_ltp_row])])]))"

definition sample_ltp_client :: ltp_client where
  "sample_ltp_client = \<lparr>lc_exchange = ''BINANCE'', lc_portfolio_id = ''p'', lc_base_url = ''u''\<rparr>"

lemma executions_accepted_witness:
  "execution_history (\<lambda>_. []) sample_ltp_net sample_ltp_client 1000 \<lparr>rg_start_ms = 900, rg_end_ms = 1000\<rparr> = Inr [sample_ltp_row] \<and>
   row_accepted (\<lambda>_. []) sample_ltp_client ''transactionId'' \<lparr>rg_start_ms = 900, rg_end_ms = 1000\<rparr> sample_ltp_row"
proof -
  let ?r = "\<lparr>rg_start_ms = 900, rg_end_ms = 1000\<rparr>" and ?c = sample_ltp_client
  have row: "required_string sample_ltp_row ''transactionId'' = Inr ''t''" "portfolio_text (\<lambda>_. []) sample_ltp_row ''portfolioId'' = Inr ''p''"
    "required_string sample_ltp_row ''exchangeType'' = Inr ''BINANCE''" "ltp_timestamp sample_ltp_row ''createAt'' = Inr 950"
    by (simp_all add: required_string_def portfolio_text_def ltp_timestamp_def sample_ltp_row_def json_get_def as_str_def non_empty_def ok_or_def
        as_i64_def is_i64_def i64_min_def i64_max_def)
  have "check_row (\<lambda>_. []) ?c ''transactionId'' ?r sample_ltp_row ([], []) = Inr ([''t''], [sample_ltp_row])"
    by (simp add: check_row_def row sample_ltp_client_def eq_ignore_ascii_case_def in_range_def)
  moreover obtain v where v: "ltp_get (\<lambda>_. []) sample_ltp_net ?c executions_path ps = Inr v"
      "envelope ''execution'' v = Inr (1, 1000, 1, 1, JObject
     [(''page'', JNumber (JInt 1)), (''pageSize'', JNumber (JInt 1000)), (''pageNum'', JNumber (JInt 1)), (''totalSize'', JNumber (JInt 1)),
      (''list'', JArray [sample_ltp_row])])" for ps
    by (simp add: ltp_get_def sample_ltp_net_def check_ltp_code_def json_get_def api_code_def as_str_def envelope_def integer_field_def)
  ultimately have "validate_execution_page (\<lambda>_. []) ?c ?r 1 None None [] v = Inr ([''t''], \<lparr>lp_pages = 1, lp_total = 1, lp_rows = [sample_ltp_row]\<rparr>)"
    by (simp add: validate_execution_page_def page_list_def json_get_def as_array_def ok_or_def page_size_def max_pages_def changed_def)
  then have "execution_window (\<lambda>_. []) sample_ltp_net ?c executions_path ?r = Inr [sample_ltp_row]"
    using v(1) by (simp add: execution_window_def no_pages_def max_pages_def upt_conv_Cons)
  moreover have "execution_ranges ?r 1000 = Inr [(executions_path, ?r)]"
    by (simp add: execution_ranges_def saturating_sub_i64_def clamp_i64_def archive_span_ms_def recent_span_ms_def ltp_day_ms_def i64_min_def
        i64_max_def time_range_new_def)
  ultimately have h: "execution_history (\<lambda>_. []) sample_ltp_net ?c 1000 ?r = Inr [sample_ltp_row]"
    by (simp add: execution_history_def merge_row_def row)
  from executions_accepted [OF h] have "row_accepted (\<lambda>_. []) ?c ''transactionId'' ?r sample_ltp_row" by simp
  with h show ?thesis by (rule conjI)
qed


end
