(* ===== verification/HistoryExport.thy ===== *)
theory HistoryExport
  imports SyncHistory "HOL-Library.Multiset"
begin

text \<open>
  \<open>src/src/bin/export_history.rs\<close> and its modules \<open>model\<close>, \<open>query\<close>, \<open>storage\<close>, \<open>write\<close>: stored history as daily CSV files.  A file
  is its name with its records.  What PostgreSQL prints for a stored number (\<open>num\<close>), the calendar of the chrono crate (\<open>day\<close>, the UTC
  date of an instant, none outside its years; the two time stamps) and the columns that exist are arguments.
\<close>

section \<open>model.rs\<close>

datatype export_dataset = ExportAll | ExportTrades | ExportFunding | ExportInterest

fun export_dataset_name :: "export_dataset \<Rightarrow> string" where
  "export_dataset_name ExportAll = ''all''" | "export_dataset_name ExportTrades = ''trades''"
| "export_dataset_name ExportFunding = ''funding''" | "export_dataset_name ExportInterest = ''interest''"

record export_strategy =
  ex_slug :: string
  ex_schema :: string
  ex_exchange :: string
  ex_account :: string
  ex_class :: strategy_class

definition export_supports :: "export_strategy \<Rightarrow> export_dataset \<Rightarrow> bool" where
  "export_supports s data = (case data of ExportInterest \<Rightarrow> ex_class s \<noteq> MmClass | _ \<Rightarrow> True)"

datatype trade_storage = LiangTrades | GenericTrades string
datatype cash_storage = BinanceCash string | TextCash string | GenericCash string

record trade_csv_row =
  tc_sid :: int
  tc_key :: string
  tc_symbol :: string
  tc_id :: string
  tc_order_id :: string
  tc_side :: string
  tc_price :: string
  tc_qty :: string
  tc_amountu :: string
  tc_fees :: string
  tc_commission_asset :: string
  tc_realized_pnl :: "string option"
  tc_ts :: int
  tc_ttype :: string
  tc_position_side :: string

record export_cash_row =
  ec_record_id :: string
  ec_symbol :: "string option"
  ec_asset :: string
  ec_amount :: string
  ec_amount_usdt :: "string option"
  ec_event_time_ms :: int
  ec_raw :: string

record cash_csv_row =
  cc_exchange :: string
  cc_account :: string
  cc_symbol :: string
  cc_asset :: string
  cc_amount :: string
  cc_amountu :: string
  cc_row_type :: string
  cc_record_id :: string
  cc_ts :: int
  cc_dt_utc :: string
  cc_dt_bj :: string
  cc_raw :: string

definition export_selected :: "export_dataset \<Rightarrow> export_dataset list" where
  "export_selected data = (if data = ExportAll then [ExportTrades, ExportFunding, ExportInterest] else [data])"

definition validate_time_range :: "int option \<Rightarrow> int option \<Rightarrow> string + unit" where
  "validate_time_range start_ms end_ms =
     (if (case start_ms of Some v \<Rightarrow> v < 0 | None \<Rightarrow> False) \<or> (case end_ms of Some v \<Rightarrow> v < 0 | None \<Rightarrow> False)
      then Inl ''start_ms and end_ms must be non-negative''
      else if (case (start_ms, end_ms) of (Some a, Some b) \<Rightarrow> b < a | _ \<Rightarrow> False) then Inl ''start_ms is later than end_ms''
      else Inr ())"

definition validate_timestamp :: "(int \<Rightarrow> string option) \<Rightarrow> int \<Rightarrow> string \<Rightarrow> string \<Rightarrow> string + unit" where
  "validate_timestamp day timestamp data key =
     (if day timestamp = None then Inl (''invalid '' @ data @ '' timestamp for record '' @ key) else Inr ())"

text \<open>The components of a relative path: empty ones and all but a leading \<open>.\<close> vanish.\<close>

definition strategy_output_dir :: "string \<Rightarrow> string \<Rightarrow> string + string" where
  "strategy_output_dir base slug =
     (let parts = split_by (\<lambda>c. c = CHR ''/'') slug; comps = filter (\<lambda>p. p \<noteq> [] \<and> p \<noteq> ''.'') (tl parts)
      in if hd parts \<in> {[], ''.'', ''..''} \<or> comps \<noteq> [] then Inl (''strategy slug is not a safe output directory name: '' @ slug)
         else Inr (base @ ''/'' @ slug))"

definition normalize_account :: "string \<Rightarrow> string" where
  "normalize_account alias =
     concat (case filter (\<lambda>w. w \<noteq> []) (split_by is_ascii_space alias) of [] \<Rightarrow> [] | w # ws \<Rightarrow> w # map (\<lambda>v. CHR ''_'' # v) ws)"

definition market_sid :: "string \<Rightarrow> int" where
  "market_sid market = (let m = to_ascii_lowercase market in if m = ''spot'' \<or> m = ''margin'' \<or> ends_with ''spot'' m then 1 else 0)"

definition trade_key :: "string \<Rightarrow> int \<Rightarrow> string" where
  "trade_key exchange sid = (if exchange = ''okex'' then ''okx'' else exchange) @ (if sid = 1 then ''spot'' else ''swap'')"

definition stable_asset :: "string \<Rightarrow> bool" where
  "stable_asset asset \<longleftrightarrow> asset \<in> {''USD'', ''USDC'', ''USDT''}"

section \<open>storage.rs\<close>

definition export_load_strategy :: "(string \<rightharpoonup> string \<times> string \<times> string \<times> string) \<Rightarrow> string \<Rightarrow> string + export_strategy" where
  "export_load_strategy envs slug =
     bind_res (ok_or (''strategy not found: '' @ slug) (envs slug)) (\<lambda>(schema, exchange, alias, kind).
     if \<not> valid_schema schema then Inl (''invalid PostgreSQL schema for '' @ slug)
     else bind_res
       (if kind = ''funding_rate'' then Inr FrClass
        else if kind = ''intra_exchange'' then Inr IntraClass
        else if kind \<in> {''market_making'', ''cta''} then Inr MmClass
        else Inl (''unsupported strategy kind for '' @ slug)) (\<lambda>cls.
       Inr \<lparr>ex_slug = slug, ex_schema = schema, ex_exchange = to_ascii_lowercase exchange, ex_account = normalize_account alias,
         ex_class = cls\<rparr>))"

definition trade_storage_of :: "(string \<Rightarrow> string \<Rightarrow> bool) \<Rightarrow> string \<Rightarrow> string + trade_storage" where
  "trade_storage_of column_exists schema =
     (if column_exists ''trades'' ''sid'' then Inr LiangTrades
      else (case List.find (\<lambda>table. column_exists table ''event_time_ms'') [''trades'', ''trade_fills''] of
          Some table \<Rightarrow> Inr (GenericTrades table)
        | None \<Rightarrow> Inl (schema @ '' has no supported trade storage'')))"

definition cash_storage_of :: "(string \<Rightarrow> bool) \<Rightarrow> (string \<Rightarrow> string \<Rightarrow> bool) \<Rightarrow> string \<Rightarrow> export_dataset \<Rightarrow> string + cash_storage" where
  "cash_storage_of table_exists column_exists schema data =
     bind_res (case data of ExportFunding \<Rightarrow> Inr ''funding_fees'' | ExportInterest \<Rightarrow> Inr ''borrow_interest''
       | _ \<Rightarrow> Inl (''cash storage requested for '' @ export_dataset_name data)) (\<lambda>generic_fallback.
     let primary = export_dataset_name data;
         fallback = (if column_exists generic_fallback ''event_time_ms'' then Inr (GenericCash generic_fallback)
           else Inl (schema @ '' has no supported '' @ primary @ '' storage''))
     in if \<not> table_exists primary then fallback
        else if column_exists primary ''event_time_ms'' then Inr (GenericCash primary)
        else if column_exists primary (if data = ExportFunding then ''tranId'' else ''txId'') then Inr (BinanceCash primary)
        else if column_exists primary ''id'' then Inr (TextCash primary)
        else fallback)"

section \<open>query.rs\<close>

definition time_filter :: "int option \<Rightarrow> int option \<Rightarrow> int \<Rightarrow> bool" where
  "time_filter start_ms end_ms t \<longleftrightarrow>
     (case start_ms of None \<Rightarrow> True | Some a \<Rightarrow> a \<le> t) \<and> (case end_ms of None \<Rightarrow> True | Some b \<Rightarrow> t \<le> b)"

definition export_row :: "(string \<Rightarrow> string) \<Rightarrow> (int \<Rightarrow> string option) \<Rightarrow> string \<Rightarrow> trade_row \<Rightarrow> string + trade_csv_row" where
  "export_row num day exchange r =
     bind_res (validate_timestamp day (ht_event_time_ms r) ''trade'' (ht_trade_id r)) (\<lambda>_.
       let sid = market_sid (ht_market r)
       in Inr \<lparr>tc_sid = sid, tc_key = trade_key exchange sid, tc_symbol = ht_symbol r, tc_id = ht_trade_id r,
            tc_order_id = ht_order_id r, tc_side = ht_side r, tc_price = num (ht_price r), tc_qty = num (ht_quantity r),
            tc_amountu = num (ht_quote_quantity r), tc_fees = num (ht_fee_amount r), tc_commission_asset = ht_fee_asset r,
            tc_realized_pnl = map_option num (ht_realized_pnl r), tc_ts = ht_event_time_ms r, tc_ttype = ht_role r,
            tc_position_side = ''BOTH''\<rparr>)"

definition liang_row :: "(int \<Rightarrow> string option) \<Rightarrow> trade_csv_row \<Rightarrow> string + trade_csv_row" where
  "liang_row day r = bind_res (validate_timestamp day (tc_ts r) ''trade'' (tc_id r)) (\<lambda>_. Inr r)"

definition load_trade_rows :: "(string \<Rightarrow> string) \<Rightarrow> (int \<Rightarrow> string option) \<Rightarrow> export_strategy \<Rightarrow> trade_storage \<Rightarrow> trade_csv_row list \<Rightarrow>
    trade_row list \<Rightarrow> int option \<Rightarrow> int option \<Rightarrow> string + trade_csv_row list" where
  "load_trade_rows num day s storage liang generic start_ms end_ms =
     (case storage of
        LiangTrades \<Rightarrow> map_res (liang_row day)
          (sort_key (\<lambda>r. (tc_ts r, tc_key r, tc_symbol r, tc_id r)) (filter (\<lambda>r. time_filter start_ms end_ms (tc_ts r)) liang))
      | GenericTrades table \<Rightarrow>
          if \<not> valid_schema table then Inl (''invalid trade table name: '' @ table)
          else map_res (export_row num day (ex_exchange s))
            (sort_key trade_order (filter (\<lambda>r. time_filter start_ms end_ms (ht_event_time_ms r)) generic)))"

definition select_cash :: "cash_storage \<Rightarrow> export_dataset \<Rightarrow> export_cash_row \<Rightarrow> export_cash_row" where
  "select_cash storage data r =
     (case storage of
        GenericCash _ \<Rightarrow> r
      | _ \<Rightarrow> if data = ExportFunding then r\<lparr>ec_asset := ''USDT'', ec_amount_usdt := None, ec_raw := []\<rparr>
             else r\<lparr>ec_symbol := None, ec_amount_usdt := None, ec_raw := []\<rparr>)"

definition storage_table :: "cash_storage \<Rightarrow> string" where
  "storage_table storage = (case storage of BinanceCash t \<Rightarrow> t | TextCash t \<Rightarrow> t | GenericCash t \<Rightarrow> t)"

definition load_cash_rows :: "(int \<Rightarrow> string option) \<Rightarrow> string \<Rightarrow> export_dataset \<Rightarrow> cash_storage \<Rightarrow> export_cash_row list \<Rightarrow>
    int option \<Rightarrow> int option \<Rightarrow> string + export_cash_row list" where
  "load_cash_rows day schema data storage table start_ms end_ms =
     (if \<not> valid_schema schema \<or> \<not> valid_schema (storage_table storage) then Inl ''unsafe cash storage identifier''
      else map_res (\<lambda>r. bind_res (validate_timestamp day (ec_event_time_ms r) (export_dataset_name data) (ec_record_id r)) (\<lambda>_.
          Inr (r\<lparr>ec_asset := (if data = ExportFunding \<and> ec_asset r = [] then ''USDT'' else to_ascii_uppercase (ec_asset r))\<rparr>)))
        (map (select_cash storage data) (sort_key (\<lambda>r. (ec_event_time_ms r, ec_record_id r))
          (filter (\<lambda>r. time_filter start_ms end_ms (ec_event_time_ms r)) table))))"

section \<open>write.rs\<close>

definition bt_push :: "'k :: linorder \<Rightarrow> 'v \<Rightarrow> ('k \<times> 'v list) list \<Rightarrow> ('k \<times> 'v list) list" where
  "bt_push k v m = bt_insert k (case map_of m k of None \<Rightarrow> [v] | Some vs \<Rightarrow> vs @ [v]) m"

definition group_by_day :: "(int \<Rightarrow> string option) \<Rightarrow> ('r \<Rightarrow> int) \<Rightarrow> 'r list \<Rightarrow> string + (string \<times> 'r list) list" where
  "group_by_day day timestamp rows =
     fold_res (\<lambda>r daily. bind_res (ok_or ''invalid export timestamp'' (day (timestamp r))) (\<lambda>date. Inr (bt_push date r daily))) rows []"

definition csv_name :: "string \<Rightarrow> string \<Rightarrow> string" where
  "csv_name data date = data @ ''_'' @ date @ ''.csv''"

definition write_trade_csv :: "(int \<Rightarrow> string option) \<Rightarrow> trade_csv_row list \<Rightarrow> string + (string \<times> trade_csv_row list) list" where
  "write_trade_csv day rows =
     bind_res (group_by_day day tc_ts rows) (\<lambda>daily. Inr (map (\<lambda>(date, rs). (csv_name ''trades'' date, rs)) daily))"

definition cash_csv :: "(int \<Rightarrow> string) \<Rightarrow> (int \<Rightarrow> string) \<Rightarrow> export_strategy \<Rightarrow> export_dataset \<Rightarrow> export_cash_row \<Rightarrow> cash_csv_row" where
  "cash_csv utc beijing s data r =
     \<lparr>cc_exchange = ex_exchange s, cc_account = ex_account s, cc_symbol = or_text (ec_symbol r) [], cc_asset = ec_asset r,
      cc_amount = ec_amount r,
      cc_amountu = (case ec_amount_usdt r of Some a \<Rightarrow> a | None \<Rightarrow> if stable_asset (ec_asset r) then ec_amount r else []),
      cc_row_type = (if data = ExportFunding then ''FUNDING_FEE'' else ''INTEREST''), cc_record_id = ec_record_id r,
      cc_ts = ec_event_time_ms r, cc_dt_utc = utc (ec_event_time_ms r), cc_dt_bj = beijing (ec_event_time_ms r), cc_raw = ec_raw r\<rparr>"

definition write_cash_csv :: "(int \<Rightarrow> string option) \<Rightarrow> (int \<Rightarrow> string) \<Rightarrow> (int \<Rightarrow> string) \<Rightarrow> export_strategy \<Rightarrow> export_dataset \<Rightarrow>
    export_cash_row list \<Rightarrow> string + (string \<times> cash_csv_row list) list" where
  "write_cash_csv day utc beijing s data rows =
     bind_res (group_by_day day ec_event_time_ms rows) (\<lambda>daily.
       Inr (map (\<lambda>(date, rs). (csv_name (export_dataset_name data) date, map (cash_csv utc beijing s data) rs)) daily))"

text \<open>The trades of one strategy as the reconciliation exports them: storage, query and files.\<close>

definition export_trades :: "(string \<Rightarrow> string) \<Rightarrow> (int \<Rightarrow> string option) \<Rightarrow> export_strategy \<Rightarrow> (string \<Rightarrow> string \<Rightarrow> bool) \<Rightarrow>
    trade_csv_row list \<Rightarrow> trade_row list \<Rightarrow> int option \<Rightarrow> int option \<Rightarrow> string + (string \<times> trade_csv_row list) list" where
  "export_trades num day s column_exists liang generic start_ms end_ms =
     bind_res (validate_time_range start_ms end_ms) (\<lambda>_.
     bind_res (trade_storage_of column_exists (ex_schema s)) (\<lambda>storage.
     bind_res (load_trade_rows num day s storage liang generic start_ms end_ms) (write_trade_csv day)))"

section \<open>Every stored row is in exactly one file\<close>

lemma mset_bt_insert_replace:
  assumes "bt_wf m" "map_of m k = Some vs"
  shows "add_mset (k, vs) (mset (bt_insert k w m)) = add_mset (k, w) (mset m)"
  using assms
proof (induction k w m rule: bt_insert.induct)
  case (2 k w k' v' m)
  have wf: "bt_wf m" using "2.prems"(1) by (simp add: bt_wf_def)
  consider "k < k'" | "k = k'" | "k' < k" by fastforce
  then show ?case
  proof cases
    case 1
    then have "k \<notin> fst ` set ((k', v') # m)" using "2.prems"(1) by (auto simp: bt_wf_def)
    then have "map_of ((k', v') # m) k = None" by (simp add: map_of_eq_None_iff)
    then show ?thesis using "2.prems"(2) by simp
  next
    case 3
    have m: "map_of m k = Some vs" using "2.prems"(2) less_imp_neq [OF 3] by (metis map_of_Cons_code(2))
    have n: "\<not> k < k'" "k \<noteq> k'" using 3 by auto
    have "add_mset (k', v') (add_mset (k, vs) (mset (bt_insert k w m))) = add_mset (k', v') (add_mset (k, w) (mset m))"
      using "2.IH" [OF n wf m] by simp
    then show ?thesis using n by (simp add: add_mset_commute)
  qed (use "2.prems" in simp)
qed simp

lemma mset_bt_insert_new: "map_of m k = None \<Longrightarrow> mset (bt_insert k w m) = add_mset (k, w) (mset m)"
  by (induction k w m rule: bt_insert.induct) (auto split: if_splits)

lemma mset_bt_push:
  assumes "bt_wf m" shows "mset (concat (map snd (bt_push k v m))) = add_mset v (mset (concat (map snd m)))"
proof -
  have flat: "mset (concat (map snd xs)) = sum_mset (image_mset (mset \<circ> snd) (mset xs))" for xs :: "('a \<times> 'b list) list"
    by (induction xs) auto
  show ?thesis
  proof (cases "map_of m k")
    case None
    then show ?thesis by (simp add: flat bt_push_def mset_bt_insert_new)
  next
    case (Some vs)
    let ?n = "bt_insert k (vs @ [v]) m"
    have "sum_mset (image_mset (mset \<circ> snd) (add_mset (k, vs) (mset ?n))) = sum_mset (image_mset (mset \<circ> snd) (add_mset (k, vs @ [v]) (mset m)))"
      using mset_bt_insert_replace [OF assms Some, of "vs @ [v]"] by simp
    then have "mset vs + mset (concat (map snd ?n)) = mset vs + add_mset v (mset (concat (map snd m)))" by (simp add: flat)
    then show ?thesis using Some by (simp add: bt_push_def)
  qed
qed

lemma bt_wf_push: "bt_wf m \<Longrightarrow> bt_wf (bt_push k v m)"
  by (simp add: bt_push_def)

lemma group_by_day_mset:
  assumes "group_by_day day timestamp rows = Inr daily"
  shows "mset (concat (map snd daily)) = mset rows" "bt_wf daily"
proof -
  let ?step = "\<lambda>r daily. bind_res (ok_or ''invalid export timestamp'' (day (timestamp r))) (\<lambda>date. Inr (bt_push date r daily))"
  have "mset (concat (map snd d')) = mset (concat (map snd d)) + mset rows \<and> bt_wf d'"
    if "fold_res ?step rows d = Inr d'" "bt_wf d" for d d'
    using that
  proof (induction rows arbitrary: d)
    case (Cons r rows)
    then obtain date where date: "fold_res ?step rows (bt_push date r d) = Inr d'" by (auto simp: bind_res_Inr)
    have "bt_wf (bt_push date r d)" using Cons.prems(2) by (rule bt_wf_push)
    from Cons.IH [OF date this] show ?case using mset_bt_push [OF Cons.prems(2), of date r] by simp
  qed simp
  from this [of "[]" daily] assms show "mset (concat (map snd daily)) = mset rows" "bt_wf daily"
    by (simp_all add: group_by_day_def)
qed

lemma write_trade_csv_mset: "write_trade_csv day rows = Inr files \<Longrightarrow> mset (concat (map snd files)) = mset rows"
  by (auto simp: write_trade_csv_def bind_res_Inr comp_def split_beta dest!: group_by_day_mset(1))

text \<open>Exporting the generic storage writes every stored trade of the range, once, and nothing else.\<close>

lemma export_generic_rows:
  assumes "export_trades num day s column_exists liang generic (Some a) (Some b) = Inr files" "\<not> column_exists ''trades'' ''sid''"
  shows "image_mset Inr (mset (concat (map snd files))) =
    image_mset (export_row num day (ex_exchange s)) (mset (filter (\<lambda>r. a \<le> ht_event_time_ms r \<and> ht_event_time_ms r \<le> b) generic))"
proof -
  obtain storage rows where st: "trade_storage_of column_exists (ex_schema s) = Inr storage"
    and rows: "load_trade_rows num day s storage liang generic (Some a) (Some b) = Inr rows" "write_trade_csv day rows = Inr files"
    using assms(1) by (auto simp: export_trades_def bind_res_Inr)
  from st assms(2) obtain t where "storage = GenericTrades t" by (auto simp: trade_storage_of_def split: option.splits)
  with rows(1) have "map (export_row num day (ex_exchange s)) (sort_key trade_order
      (filter (\<lambda>r. a \<le> ht_event_time_ms r \<and> ht_event_time_ms r \<le> b) generic)) = map Inr rows"
    by (simp add: load_trade_rows_def map_res_Inr time_filter_def split: if_splits)
  then have "mset (map (export_row num day (ex_exchange s)) (sort_key trade_order
      (filter (\<lambda>r. a \<le> ht_event_time_ms r \<and> ht_event_time_ms r \<le> b) generic))) = mset (map Inr rows)" by (rule arg_cong)
  then have "image_mset (export_row num day (ex_exchange s)) (mset (filter (\<lambda>r. a \<le> ht_event_time_ms r \<and> ht_event_time_ms r \<le> b) generic))
      = image_mset Inr (mset rows)" by (simp only: mset_map mset_sort)
  then show ?thesis using write_trade_csv_mset [OF rows(2)] by simp
qed

end
