(* ===== verification/Reconcile.thy ===== *)
theory Reconcile
  imports HistoryExport Pipeline "HOL-Library.Signed_Division"
begin

text \<open>
  \<open>src/src/bin/reconcile_rocksdb.rs\<close>: the fills that the trading stack recorded (RocksDB exports, as rows with nullable columns) are
  compared, per market, symbol and side, with the trades that the exchanges reported.  A run of the binary works on the history
  store, the checkpoint and the status row of each strategy; the programs it starts are the models of \<open>sync_history\<close> and
  \<open>export_history\<close>, and what the order export and the persist service answer is an argument.
\<close>

section \<open>Markets and groups\<close>

datatype rec_market = SpotMarket | SwapMarket

instantiation rec_market :: linorder
begin

definition less_eq_rec_market :: "rec_market \<Rightarrow> rec_market \<Rightarrow> bool" where
  "m \<le> n \<longleftrightarrow> m = SpotMarket \<or> n = SwapMarket"

definition less_rec_market :: "rec_market \<Rightarrow> rec_market \<Rightarrow> bool" where
  "m < n \<longleftrightarrow> m = SpotMarket \<and> n = SwapMarket"

instance
proof
  fix x y z :: rec_market
  show "(x < y) = (x \<le> y \<and> \<not> y \<le> x)" by (cases x; cases y) (auto simp: less_eq_rec_market_def less_rec_market_def)
  show "x \<le> x" by (cases x) (auto simp: less_eq_rec_market_def)
  show "x \<le> y \<Longrightarrow> y \<le> z \<Longrightarrow> x \<le> z" by (cases x; cases y; cases z) (auto simp: less_eq_rec_market_def)
  show "x \<le> y \<Longrightarrow> y \<le> x \<Longrightarrow> x = y" by (cases x; cases y) (auto simp: less_eq_rec_market_def)
  show "x \<le> y \<or> y \<le> x" by (cases x; cases y) (auto simp: less_eq_rec_market_def)
qed

end

definition market_from_sid :: "string \<Rightarrow> string + rec_market" where
  "market_from_sid v = (if v = ''1'' then Inr SpotMarket else if v = ''0'' then Inr SwapMarket else Inl ''unsupported PostgreSQL sid'')"

definition market_from_venue :: "string \<Rightarrow> string + rec_market" where
  "market_from_venue v =
     (if v \<in> {''BinanceMargin'', ''BybitMargin''} then Inr SpotMarket
      else if v \<in> {''BinanceFutures'', ''BybitFutures''} then Inr SwapMarket else Inl ''unsupported RocksDB trading_venue'')"

definition market_from_alignment_name :: "string \<Rightarrow> string + rec_market" where
  "market_from_alignment_name v =
     (if v = ''spot'' then Inr SpotMarket else if v = ''swap'' then Inr SwapMarket else Inl ''unsupported alignment exclusion market'')"

fun market_text :: "rec_market \<Rightarrow> string" where
  "market_text SpotMarket = ''spot''" | "market_text SwapMarket = ''swap''"

type_synonym group_key = "rec_market \<times> string \<times> string"

abbreviation group_symbol :: "group_key \<Rightarrow> string" where
  "group_symbol k \<equiv> fst (snd k)"

definition recon_symbol :: "string \<Rightarrow> string + string" where
  "recon_symbol v =
     (let symbol = filter (\<lambda>c. c \<noteq> CHR ''-'') (to_ascii_uppercase (str_trim v)) in if symbol = [] then Inl ''empty symbol'' else Inr symbol)"

definition recon_side :: "string \<Rightarrow> string + string" where
  "recon_side v =
     (let sd = to_ascii_lowercase (str_trim v) in if sd = ''buy'' then Inr ''buy'' else if sd = ''sell'' then Inr ''sell'' else Inl ''unsupported side'')"

definition group_key_of :: "rec_market \<Rightarrow> string \<Rightarrow> string \<Rightarrow> string + group_key" where
  "group_key_of market symbol sd =
     bind_res (recon_symbol symbol) (\<lambda>symbol. bind_res (recon_side sd) (\<lambda>sd. Inr (market, symbol, sd)))"

record stat =
  stt_qty :: f64
  stt_events :: nat
  stt_orders :: "string set"

definition no_stat :: stat where
  "no_stat = \<lparr>stt_qty = 0, stt_events = 0, stt_orders = {}\<rparr>"

type_synonym groups = "(group_key \<times> stat) list"

definition stat_of :: "groups \<Rightarrow> group_key \<Rightarrow> stat" where
  "stat_of groups key = (case map_of groups key of None \<Rightarrow> no_stat | Some s \<Rightarrow> s)"

definition grow_stat :: "f64 \<Rightarrow> nat \<Rightarrow> string \<Rightarrow> stat \<Rightarrow> stat" where
  "grow_stat qty events order_id s =
     \<lparr>stt_qty = stt_qty s + qty, stt_events = stt_events s + events, stt_orders = insert order_id (stt_orders s)\<rparr>"

definition add_stat :: "group_key \<Rightarrow> f64 \<Rightarrow> string \<Rightarrow> groups \<Rightarrow> groups" where
  "add_stat key qty order_id groups = bt_insert key (grow_stat qty 1 order_id (stat_of groups key)) groups"

definition selected_symbols :: "string \<Rightarrow> string set option" where
  "selected_symbols strategy =
     (if strategy = ''binance_mm_alpha'' then Some {''BNBUSDT'', ''BTCUSDT'', ''DOGEUSDT'', ''ETHUSDT'', ''SOLUSDT'', ''XRPUSDT''} else None)"

definition left_out :: "string set option \<Rightarrow> group_key \<Rightarrow> bool" where
  "left_out symbols key \<longleftrightarrow> (case symbols of None \<Rightarrow> False | Some selected \<Rightarrow> group_symbol key \<notin> selected)"

section \<open>What the exchanges reported\<close>

type_synonym seen_trades = "rec_market \<times> string \<times> string \<rightharpoonup> group_key \<times> string \<times> f64"

definition pg_row :: "int \<Rightarrow> int \<Rightarrow> string set option \<Rightarrow> (rec_market \<times> string) set \<Rightarrow> trade_csv_row \<Rightarrow> groups \<times> seen_trades \<Rightarrow>
    string + groups \<times> seen_trades" where
  "pg_row start_ms end_ms symbols exclusions row = (\<lambda>(groups, seen).
     bind_res (ok_or ''read PostgreSQL export'' (parse_f64 (tc_qty row))) (\<lambda>qty.
     if tc_ts row < start_ms \<or> end_ms < tc_ts row then Inr (groups, seen)
     else if \<not> is_finite qty then Inl ''non-finite PostgreSQL quantity''
     else if qty \<le> 0 then Inr (groups, seen)
     else bind_res (market_from_sid (str_trim (int_text (tc_sid row)))) (\<lambda>market.
     if (market, tc_order_id row) \<in> exclusions then Inr (groups, seen)
     else bind_res (group_key_of market (tc_symbol row) (tc_side row)) (\<lambda>key.
     if left_out symbols key then Inr (groups, seen)
     else let trade_key = (market, group_symbol key, tc_id row); fingerprint = (key, tc_order_id row, qty)
       in (case seen trade_key of
             Some previous \<Rightarrow> if previous \<noteq> fingerprint then Inl ''conflicting PostgreSQL duplicate'' else Inr (groups, seen)
           | None \<Rightarrow> Inr (add_stat key qty (tc_order_id row) groups, seen(trade_key \<mapsto> fingerprint)))))))"

definition is_trade_csv :: "string \<Rightarrow> bool" where
  "is_trade_csv name \<longleftrightarrow> ends_with ''.csv'' name \<and> take 7 name = ''trades_''"

definition pg_groups :: "(string \<times> trade_csv_row list) list \<Rightarrow> int \<Rightarrow> int \<Rightarrow> string set option \<Rightarrow> (rec_market \<times> string) set \<Rightarrow> string + groups" where
  "pg_groups files start_ms end_ms symbols exclusions =
     bind_res (fold_res (\<lambda>(name, rows) st. if is_trade_csv name then fold_res (pg_row start_ms end_ms symbols exclusions) rows st else Inr st)
       files ([], \<lambda>_. None)) (\<lambda>(groups, _). Inr groups)"

section \<open>What the trading stack recorded\<close>

record uniform_row =
  un_update_ts :: "int option"
  un_symbol :: "string option"
  un_trading_venue :: "string option"
  un_side :: "string option"
  un_amount_update :: "f64 option"
  un_client_order_id :: "int option"

record unmatched_row =
  um_event_time :: "int option"
  um_trade_time :: "int option"
  um_symbol :: "string option"
  um_order_id :: "int option"
  um_client_order_id :: "int option"
  um_side :: "string option"
  um_trading_venue :: "string option"
  um_cumulative :: "f64 option"

type_synonym client_ids = "group_key \<Rightarrow> int set"

definition group_of_columns :: "string option \<Rightarrow> string option \<Rightarrow> string option \<Rightarrow> string + group_key" where
  "group_of_columns venue symbol sd =
     bind_res (ok_or ''null trading_venue'' venue) (\<lambda>venue.
     bind_res (market_from_venue venue) (\<lambda>market.
     bind_res (ok_or ''null symbol'' symbol) (\<lambda>symbol.
     bind_res (ok_or ''null side'' sd) (\<lambda>sd. group_key_of market symbol sd))))"

definition uniform_row_step :: "int \<Rightarrow> int \<Rightarrow> f64 \<Rightarrow> string set option \<Rightarrow> uniform_row \<Rightarrow> groups \<times> client_ids \<Rightarrow> string + groups \<times> client_ids" where
  "uniform_row_step start_us end_us epsilon symbols row = (\<lambda>(groups, ids).
     bind_res (ok_or ''null uniform update_ts'' (un_update_ts row)) (\<lambda>timestamp.
     if timestamp < start_us \<or> end_us < timestamp then Inr (groups, ids)
     else bind_res (ok_or ''null uniform amount_update'' (un_amount_update row)) (\<lambda>qty.
     if \<not> is_finite qty then Inl ''non-finite uniform amount_update''
     else if qty < - epsilon then Inl ''negative uniform amount_update''
     else if qty \<le> epsilon then Inr (groups, ids)
     else bind_res (group_of_columns (un_trading_venue row) (un_symbol row) (un_side row)) (\<lambda>key.
     if left_out symbols key then Inr (groups, ids)
     else bind_res (ok_or ''null uniform client_order_id'' (un_client_order_id row)) (\<lambda>cid.
       Inr (add_stat key qty (int_text cid) groups, ids(key := insert cid (ids key))))))))"

definition uniform_groups :: "uniform_row list \<Rightarrow> int \<Rightarrow> int \<Rightarrow> f64 \<Rightarrow> string set option \<Rightarrow> string + groups \<times> client_ids" where
  "uniform_groups rows start_us end_us epsilon symbols = fold_res (uniform_row_step start_us end_us epsilon symbols) rows ([], \<lambda>_. {})"

record unmatched_series =
  us_group :: group_key
  us_client_ids :: "int set"
  us_observations :: "(int \<times> f64) list" \<comment> \<open>timestamp and cumulative quantity\<close>

type_synonym series_map = "((rec_market \<times> string \<times> int) \<times> unmatched_series) list"

definition unmatched_row_step :: "int \<Rightarrow> f64 \<Rightarrow> string set option \<Rightarrow> unmatched_row \<Rightarrow> series_map \<Rightarrow> string + series_map" where
  "unmatched_row_step end_us epsilon symbols row series =
     bind_res (ok_or ''null unmatched trade_time'' (um_trade_time row)) (\<lambda>trade_ts.
     bind_res (ok_or ''null unmatched event_time'' (um_event_time row)) (\<lambda>event_ts.
     let timestamp_us = (if 0 < trade_ts then trade_ts else event_ts)
     in if end_us < timestamp_us then Inr series
        else bind_res (group_of_columns (um_trading_venue row) (um_symbol row) (um_side row)) (\<lambda>key.
        if left_out symbols key then Inr series
        else bind_res (ok_or ''null unmatched cumulative_filled_quantity'' (um_cumulative row)) (\<lambda>qty.
        if \<not> is_finite qty then Inl ''non-finite unmatched cumulative quantity''
        else if qty < - epsilon then Inl ''negative unmatched cumulative quantity''
        else bind_res (ok_or ''null unmatched order_id'' (um_order_id row)) (\<lambda>exchange_order_id.
          let map_key = (fst key, group_symbol key, exchange_order_id);
              v = (case map_of series map_key of Some v \<Rightarrow> v
                   | None \<Rightarrow> \<lparr>us_group = key, us_client_ids = {}, us_observations = []\<rparr>)
          in if us_group v \<noteq> key then Inl ''unmatched order has inconsistent side''
             else bind_res (ok_or ''null unmatched client_order_id'' (um_client_order_id row)) (\<lambda>cid.
               Inr (bt_insert map_key (v\<lparr>us_client_ids := insert cid (us_client_ids v),
                 us_observations := us_observations v @ [(timestamp_us, qty)]\<rparr>) series)))))))"

record unmatched_order =
  uo_group :: group_key
  uo_client_ids :: "int set"
  uo_qty :: f64
  uo_events :: nat

text \<open>The quantity an order gained in the window: its largest cumulative quantity up to the end less the largest before the start.\<close>

definition summarize_unmatched :: "unmatched_series \<Rightarrow> int \<Rightarrow> int \<Rightarrow> f64 \<Rightarrow> unmatched_order option" where
  "summarize_unmatched series start_us end_us epsilon =
     (let observations = sort_key fst (us_observations series);
          baseline = foldl fmax 0 (map snd (filter (\<lambda>(t, _). t < start_us) observations));
          current = filter (\<lambda>(t, _). start_us \<le> t \<and> t \<le> end_us) observations;
          qty = foldl fmax baseline (map snd current) - baseline
      in if current = [] then None
         else if epsilon < qty then Some \<lparr>uo_group = us_group series, uo_client_ids = us_client_ids series, uo_qty = qty,
           uo_events = length current\<rparr>
         else None)"

definition unmatched_order_step :: "int \<Rightarrow> int \<Rightarrow> f64 \<Rightarrow> client_ids \<Rightarrow> (rec_market \<times> string \<times> int) \<times> unmatched_series \<Rightarrow>
    groups \<times> nat \<times> nat \<Rightarrow> groups \<times> nat \<times> nat" where
  "unmatched_order_step start_us end_us epsilon uniform_ids = (\<lambda>((_, _, exchange_order_id), series) (groups, represented, unmatched_only).
     case summarize_unmatched series start_us end_us epsilon of
       None \<Rightarrow> (groups, represented, unmatched_only)
     | Some order \<Rightarrow>
         if uo_client_ids order \<inter> uniform_ids (uo_group order) \<noteq> {} then (groups, represented + 1, unmatched_only)
         else (bt_insert (uo_group order) (grow_stat (uo_qty order) (uo_events order) (int_text exchange_order_id)
             (stat_of groups (uo_group order))) groups, represented, unmatched_only + 1))"

definition unmatched_groups :: "unmatched_row list \<Rightarrow> int \<Rightarrow> int \<Rightarrow> f64 \<Rightarrow> client_ids \<Rightarrow> string set option \<Rightarrow> string + groups \<times> nat \<times> nat" where
  "unmatched_groups rows start_us end_us epsilon uniform_ids symbols =
     bind_res (fold_res (unmatched_row_step end_us epsilon symbols) rows []) (\<lambda>series.
       Inr (fold (unmatched_order_step start_us end_us epsilon uniform_ids) series ([], 0, 0)))"

section \<open>The comparison\<close>

record group_report =
  gr_market :: string
  gr_symbol :: string
  gr_side :: string
  gr_pg :: stat
  gr_uniform :: stat
  gr_unmatched :: stat
  gr_local_qty :: f64
  gr_qty_diff :: f64
  gr_status :: string

definition quantities_equal :: "f64 \<Rightarrow> f64 \<Rightarrow> f64 \<Rightarrow> f64 \<Rightarrow> bool" where
  "quantities_equal a b abs_epsilon rel_epsilon =
     (if \<not> is_finite a \<or> \<not> is_finite b then False
      else let diff = \<bar>a - b\<bar> in diff \<le> abs_epsilon \<or> diff \<le> rel_epsilon * fmax \<bar>a\<bar> \<bar>b\<bar>)"

definition report_group :: "groups \<Rightarrow> groups \<Rightarrow> groups \<Rightarrow> f64 \<Rightarrow> f64 \<Rightarrow> group_key \<Rightarrow> group_report" where
  "report_group pg uniform unmatched abs_epsilon rel_epsilon key =
     (let p = stat_of pg key; u = stat_of uniform key; n = stat_of unmatched key; local_qty = stt_qty u + stt_qty n
      in \<lparr>gr_market = market_text (fst key), gr_symbol = group_symbol key, gr_side = snd (snd key), gr_pg = p, gr_uniform = u,
          gr_unmatched = n, gr_local_qty = local_qty, gr_qty_diff = local_qty - stt_qty p,
          gr_status = (if quantities_equal local_qty (stt_qty p) abs_epsilon rel_epsilon then ''MATCH'' else ''MISMATCH'')\<rparr>)"

definition compare_groups :: "groups \<Rightarrow> groups \<Rightarrow> groups \<Rightarrow> f64 \<Rightarrow> f64 \<Rightarrow> group_report list" where
  "compare_groups pg uniform unmatched abs_epsilon rel_epsilon =
     map (report_group pg uniform unmatched abs_epsilon rel_epsilon)
       (sort (remdups (map fst pg @ map fst uniform @ map fst unmatched)))"


section \<open>Reading the persist service in windows of an hour\<close>

text \<open>The loop of \<open>export_center_orders\<close>; \<open>read cursor window_end\<close> answers one window.\<close>

function center_windows :: "int \<Rightarrow> int \<Rightarrow> int \<Rightarrow> (int \<times> int) list" where
  "center_windows step cursor end_us =
     (if 0 < step \<and> cursor < end_us \<and> end_us \<le> i64_max
      then let window_end = min (saturating_add_i64 cursor step) end_us in (cursor, window_end) # center_windows step window_end end_us
      else [])"
  by pat_completeness auto
termination
  by (relation "measure (\<lambda>(step, cursor, end_us). nat (end_us - cursor))")
    (auto simp: saturating_add_i64_def clamp_i64_def i64_min_def i64_max_def min_def max_def)

declare center_windows.simps [simp del]

definition center_table :: "(int \<Rightarrow> int \<Rightarrow> string + 'row list) \<Rightarrow> int \<Rightarrow> int \<Rightarrow> string + 'row list" where
  "center_table read start_us end_us =
     bind_res (map_res (\<lambda>(a, b). read a b) (center_windows 3600000000 start_us end_us)) (\<lambda>frames.
       if frames = [] then Inl ''empty center window'' else Inr (concat frames))"

definition is_center :: "string \<Rightarrow> bool" where
  "is_center strategy \<longleftrightarrow> strategy \<in> {''bybit_mm_alpha'', ''binance-intra-arb01'', ''bybit-intra-arb01'', ''bybit-intra-arb02''}"

definition is_remote :: "string \<Rightarrow> bool" where
  "is_remote strategy \<longleftrightarrow> strategy \<in> {''bybit-intra-arb01'', ''bybit-intra-arb02''}"

definition checked_i64 :: "string \<Rightarrow> int \<Rightarrow> string + int" where
  "checked_i64 what x = (if is_i64 x then Inr x else Inl what)"

definition micro_range :: "int \<Rightarrow> int \<Rightarrow> string + int \<times> int" where
  "micro_range start_ms end_ms =
     bind_res (checked_i64 ''start microseconds overflow'' (start_ms * 1000)) (\<lambda>start_us.
     bind_res (checked_i64 ''end microseconds overflow'' (end_ms * 1000)) (\<lambda>e.
     bind_res (checked_i64 ''end microseconds overflow'' (e + 999)) (\<lambda>end_us. Inr (start_us, end_us))))"

text \<open>The answers of the world outside: the persist service by table, the order exporter (run here or over ssh; both tables at once),
  the exchange client of a started \<open>sync_history\<close> (or why it fails before it scans), the listing of a directory.\<close>

record recon_env =
  re_read_uniform :: "int \<Rightarrow> int \<Rightarrow> string + uniform_row list"
  re_read_orders :: "int \<Rightarrow> int \<Rightarrow> string + uniform_row list"
  re_read_unmatched :: "int \<Rightarrow> int \<Rightarrow> string + unmatched_row list"
  re_exporter :: "bool \<Rightarrow> int \<Rightarrow> int \<Rightarrow> string + uniform_row list \<times> unmatched_row list"
  re_client :: "string + exchange_client"
  re_float_text :: "f64 \<Rightarrow> string"
  re_stored_symbols :: "store \<Rightarrow> string list"
  re_num :: "string \<Rightarrow> string"
  re_day :: "int \<Rightarrow> string option"
  re_column_exists :: "string \<Rightarrow> string \<Rightarrow> bool"
  re_liang_trades :: "trade_csv_row list"
  re_listing :: "(string \<times> trade_csv_row list) list \<Rightarrow> (string \<times> trade_csv_row list) list"

definition export_center_orders :: "recon_env \<Rightarrow> int \<Rightarrow> int \<Rightarrow> string + uniform_row list \<times> unmatched_row list" where
  "export_center_orders env start_us end_us =
     bind_res (center_table (re_read_uniform env) start_us end_us) (\<lambda>uniform.
     bind_res (center_table (re_read_orders env) start_us end_us) (\<lambda>_.
     bind_res (center_table (re_read_unmatched env) start_us end_us) (\<lambda>unmatched. Inr (uniform, unmatched))))"

definition export_orders :: "recon_env \<Rightarrow> string \<Rightarrow> int \<Rightarrow> int \<Rightarrow> string + uniform_row list \<times> unmatched_row list" where
  "export_orders env strategy start_ms end_ms =
     bind_res (micro_range start_ms end_ms) (\<lambda>(start_us, end_us).
       if is_center strategy then export_center_orders env start_us end_us
       else re_exporter env (is_remote strategy) start_us end_us)"

section \<open>The database of one strategy\<close>

record align_status =
  as_state :: string
  as_phase :: string
  as_progress :: int
  as_run_id :: string
  as_candidate_end_ms :: int
  as_scan_start_ms :: "int option"
  as_pg_success_end_ms :: "int option"
  as_actual_end_ms :: "int option"
  as_group_count :: "nat option"
  as_mismatch_count :: "nat option"
  as_pg_event_count :: "nat option"
  as_local_event_count :: "nat option"
  as_message :: "string option"

record checkpoint =
  cp_aligned_from_ms :: int
  cp_verified_through_ms :: int

record recon_db =
  rd_store :: store
  rd_checkpoint :: "checkpoint option"
  rd_exclusions :: "(string \<times> string) list"
  rd_status :: "align_status option"

text \<open>Steps on the database that may fail; what a failed one has written stays.\<close>

type_synonym 'a recon = "recon_db \<Rightarrow> recon_db \<times> (string + 'a)"

definition bind_db :: "'a recon \<Rightarrow> ('a \<Rightarrow> 'b recon) \<Rightarrow> 'b recon" where
  "bind_db m f = (\<lambda>db. case m db of (db', Inl e) \<Rightarrow> (db', Inl e) | (db', Inr x) \<Rightarrow> f x db')"

definition lift_db :: "string + 'a \<Rightarrow> 'a recon" where
  "lift_db r = (\<lambda>db. (db, r))"

definition read_db :: "(recon_db \<Rightarrow> string + 'a) \<Rightarrow> 'a recon" where
  "read_db f = (\<lambda>db. (db, f db))"

definition write_db :: "(recon_db \<Rightarrow> recon_db) \<Rightarrow> unit recon" where
  "write_db f = (\<lambda>db. (f db, Inr ()))"

definition start_status :: "string \<Rightarrow> int \<Rightarrow> unit recon" where
  "start_status run_id candidate_end_ms = write_db (\<lambda>db. db\<lparr>rd_status := Some
     \<lparr>as_state = ''running'', as_phase = ''preparing'', as_progress = 5, as_run_id = run_id, as_candidate_end_ms = candidate_end_ms,
      as_scan_start_ms = None, as_pg_success_end_ms = None, as_actual_end_ms = None, as_group_count = None, as_mismatch_count = None,
      as_pg_event_count = None, as_local_event_count = None, as_message = None\<rparr>\<rparr>)"

definition coalesce :: "'a option \<Rightarrow> 'a option \<Rightarrow> 'a option" where
  "coalesce a b = (case a of None \<Rightarrow> b | Some _ \<Rightarrow> a)"

definition set_phase :: "string \<Rightarrow> int \<Rightarrow> int option \<Rightarrow> int option \<Rightarrow> int option \<Rightarrow> unit recon" where
  "set_phase phase progress scan_start_ms pg_success_end_ms actual_end_ms = write_db (\<lambda>db. db\<lparr>rd_status := map_option (\<lambda>s.
     s\<lparr>as_state := ''running'', as_phase := phase, as_progress := progress, as_scan_start_ms := coalesce scan_start_ms (as_scan_start_ms s),
       as_pg_success_end_ms := coalesce pg_success_end_ms (as_pg_success_end_ms s),
       as_actual_end_ms := coalesce actual_end_ms (as_actual_end_ms s)\<rparr>) (rd_status db)\<rparr>)"

record recon_summary =
  su_aligned :: bool
  su_checkpoint_advanced :: bool
  su_sync_error :: "string option"
  su_aligned_from_ms :: int
  su_previous_verified_through_ms :: int
  su_scan_start_ms :: int
  su_candidate_end_ms :: int
  su_pg_success_end_ms :: int
  su_actual_end_ms :: int
  su_group_count :: nat
  su_mismatched_group_count :: nat
  su_pg_event_count :: nat
  su_uniform_event_count :: nat
  su_unmatched_represented_order_count :: nat
  su_unmatched_only_order_count :: nat
  su_pg_qty :: f64
  su_local_qty :: f64

definition count_fits :: "nat \<Rightarrow> string \<Rightarrow> nat \<Rightarrow> string + unit" where
  "count_fits limit what n = (if n \<le> limit then Inr () else Inl what)"

text \<open>The messages are in Chinese (all groups match; so many groups differ): only the number is kept.\<close>

definition complete_status :: "recon_summary \<Rightarrow> unit recon" where
  "complete_status sm =
     bind_db (lift_db (count_fits (2 ^ 31 - 1) ''group count exceeds i32'' (su_group_count sm))) (\<lambda>_.
     bind_db (lift_db (count_fits (2 ^ 31 - 1) ''mismatch count exceeds i32'' (su_mismatched_group_count sm))) (\<lambda>_.
     bind_db (lift_db (count_fits (2 ^ 63 - 1) ''PG event count exceeds i64'' (su_pg_event_count sm))) (\<lambda>_.
     bind_db (lift_db (count_fits (2 ^ 63 - 1) ''local event count exceeds i64'' (su_uniform_event_count sm))) (\<lambda>_.
       write_db (\<lambda>db. db\<lparr>rd_status := map_option (\<lambda>s.
         s\<lparr>as_state := (if su_aligned sm then ''succeeded'' else ''mismatch''), as_phase := ''complete'', as_progress := 100,
           as_group_count := Some (su_group_count sm), as_mismatch_count := Some (su_mismatched_group_count sm),
           as_pg_event_count := Some (su_pg_event_count sm), as_local_event_count := Some (su_uniform_event_count sm),
           as_message := Some (if su_aligned sm then ''0'' else int_text (int (su_mismatched_group_count sm)))\<rparr>) (rd_status db)\<rparr>)))))"

definition fail_status :: "string \<Rightarrow> recon_db \<Rightarrow> recon_db" where
  "fail_status message db = db\<lparr>rd_status := map_option (\<lambda>s.
     s\<lparr>as_state := ''failed'', as_phase := ''complete'', as_progress := 100, as_message := Some (take 1000 message)\<rparr>) (rd_status db)\<rparr>"

definition load_checkpoint :: "(checkpoint \<times> int) recon" where
  "load_checkpoint = read_db (\<lambda>db. case (rd_checkpoint db, sr_watermarks (rd_store db) Trades) of
     (Some c, Some w) \<Rightarrow> Inr (c, w) | _ \<Rightarrow> Inl ''missing checkpoint or PostgreSQL trades watermark'')"

definition load_trade_exclusions :: "(rec_market \<times> string) set recon" where
  "load_trade_exclusions = read_db (\<lambda>db.
     bind_res (map_res (\<lambda>(market, order_id). bind_res (market_from_alignment_name market) (\<lambda>m. Inr (m, order_id))) (rd_exclusions db))
       (\<lambda>xs. Inr (set xs)))"

section \<open>One reconciliation\<close>

record recon_args =
  ra_settlement_gap_minutes :: int
  ra_overlap_minutes :: int
  ra_baseline_minutes :: int
  ra_end_ms :: "int option"
  ra_qty_epsilon :: f64
  ra_rel_epsilon :: f64
  ra_skip_sync :: bool

definition validate_args :: "recon_args \<Rightarrow> string + unit" where
  "validate_args args =
     (if ra_settlement_gap_minutes args < 0 \<or> ra_overlap_minutes args < 0 \<or> ra_baseline_minutes args < 0 then Inl ''must be non-negative''
      else if \<not> is_finite (ra_qty_epsilon args) \<or> ra_qty_epsilon args < 0 then Inl ''--qty-epsilon must be finite and non-negative''
      else if \<not> is_finite (ra_rel_epsilon args) \<or> ra_rel_epsilon args < 0 then Inl ''--rel-epsilon must be finite and non-negative''
      else Inr ())"

definition recon_sync_args :: "int \<Rightarrow> int \<Rightarrow> sync_args" where
  "recon_sync_args start_ms end_ms = \<lparr>sa_dataset = Trades, sa_full = False, sa_start_ms = Some start_ms, sa_overlap_minutes = 30,
     sa_end_ms = end_ms, sa_symbols = [], sa_no_advance_watermark = False, sa_derivatives_only = False\<rparr>"

text \<open>A started \<open>sync_history\<close>: its error is noted in the summary, what it committed stays.\<close>

definition sync_trades :: "recon_env \<Rightarrow> strategy \<Rightarrow> int \<Rightarrow> int \<Rightarrow> string option recon" where
  "sync_trades env s start_ms end_ms = (\<lambda>db.
     case re_client env of
       Inl e \<Rightarrow> (db, Inr (Some e))
     | Inr client \<Rightarrow>
         (let (st, err) = sync_strategy (re_float_text env) client s (re_stored_symbols env) (recon_sync_args start_ms end_ms) (rd_store db)
          in (db\<lparr>rd_store := st\<rparr>, Inr err)))"

definition export_pg :: "recon_env \<Rightarrow> export_strategy \<Rightarrow> int \<Rightarrow> int \<Rightarrow> store \<Rightarrow> string + (string \<times> trade_csv_row list) list" where
  "export_pg env ex start_ms end_ms st =
     export_trades (re_num env) (re_day env) ex (re_column_exists env) (re_liang_trades env) (map (fst \<circ> snd) (sr_trades st))
       (Some start_ms) (Some end_ms)"

definition recon_scan_start :: "recon_args \<Rightarrow> checkpoint \<Rightarrow> string + int" where
  "recon_scan_start args c =
     bind_res (checked_i64 ''overlap overflow'' (ra_overlap_minutes args * 60000)) (\<lambda>overlap_ms.
       Inr (max (cp_aligned_from_ms c) (((cp_verified_through_ms c - overlap_ms) sdiv 60000) * 60000)))"

text \<open>Everything that is read for the comparison of one window, and its outcome.\<close>

record recon_window =
  rw_pg :: groups
  rw_uniform :: groups
  rw_unmatched :: groups
  rw_represented :: nat
  rw_unmatched_only :: nat

definition compare_window :: "recon_env \<Rightarrow> recon_args \<Rightarrow> string \<Rightarrow> (string \<times> trade_csv_row list) list \<Rightarrow> uniform_row list \<Rightarrow> unmatched_row list \<Rightarrow>
    (rec_market \<times> string) set \<Rightarrow> int \<Rightarrow> int \<Rightarrow> string + recon_window" where
  "compare_window env args strategy pg_files uniform_rows unmatched_rows exclusions scan_start_ms actual_end_ms =
     bind_res (pg_groups (re_listing env pg_files) scan_start_ms actual_end_ms (selected_symbols strategy) exclusions) (\<lambda>pg.
     bind_res (micro_range scan_start_ms actual_end_ms) (\<lambda>(start_us, end_us).
     bind_res (uniform_groups uniform_rows start_us end_us (ra_qty_epsilon args) (selected_symbols strategy)) (\<lambda>(uniform, ids).
     bind_res (unmatched_groups unmatched_rows start_us end_us (ra_qty_epsilon args) ids (selected_symbols strategy))
       (\<lambda>(unmatched, represented, unmatched_only).
       Inr \<lparr>rw_pg = pg, rw_uniform = uniform, rw_unmatched = unmatched, rw_represented = represented, rw_unmatched_only = unmatched_only\<rparr>))))"

definition advance_checkpoint :: "int \<Rightarrow> unit recon" where
  "advance_checkpoint actual_end_ms = write_db (\<lambda>db. db\<lparr>rd_checkpoint := map_option (\<lambda>c.
     c\<lparr>cp_verified_through_ms := max (cp_verified_through_ms c) actual_end_ms\<rparr>) (rd_checkpoint db)\<rparr>)"

definition finish_window :: "recon_args \<Rightarrow> checkpoint \<Rightarrow> string option \<Rightarrow> int \<Rightarrow> int \<Rightarrow> int \<Rightarrow> int \<Rightarrow> recon_window \<Rightarrow> recon_summary recon" where
  "finish_window args c sync_error scan_start_ms candidate_end_ms pg_success_end_ms actual_end_ms w =
     (let reports = compare_groups (rw_pg w) (rw_uniform w) (rw_unmatched w) (ra_qty_epsilon args) (ra_rel_epsilon args);
          mismatch_count = length (filter (\<lambda>r. gr_status r = ''MISMATCH'') reports);
          aligned = (mismatch_count = 0);
          advanced = (aligned \<and> cp_verified_through_ms c < actual_end_ms);
          sm = \<lparr>su_aligned = aligned, su_checkpoint_advanced = advanced, su_sync_error = sync_error,
            su_aligned_from_ms = cp_aligned_from_ms c, su_previous_verified_through_ms = cp_verified_through_ms c,
            su_scan_start_ms = scan_start_ms, su_candidate_end_ms = candidate_end_ms, su_pg_success_end_ms = pg_success_end_ms,
            su_actual_end_ms = actual_end_ms, su_group_count = length reports, su_mismatched_group_count = mismatch_count,
            su_pg_event_count = sum_list (map (stt_events \<circ> snd) (rw_pg w)),
            su_uniform_event_count = sum_list (map (stt_events \<circ> snd) (rw_uniform w)),
            su_unmatched_represented_order_count = rw_represented w, su_unmatched_only_order_count = rw_unmatched_only w,
            su_pg_qty = fsum (map (stt_qty \<circ> snd) (rw_pg w)),
            su_local_qty = fsum (map (stt_qty \<circ> snd) (rw_uniform w)) + fsum (map (stt_qty \<circ> snd) (rw_unmatched w))\<rparr>
      in bind_db (if advanced then advance_checkpoint actual_end_ms else lift_db (Inr ())) (\<lambda>_.
         bind_db (complete_status sm) (\<lambda>_. lift_db (Inr sm))))"

text \<open>The part of \<open>reconcile\<close> after the second look at the watermark.\<close>

definition reconcile_window :: "recon_env \<Rightarrow> recon_args \<Rightarrow> strategy \<Rightarrow> export_strategy \<Rightarrow> int \<Rightarrow> checkpoint \<Rightarrow> int \<Rightarrow> string option \<Rightarrow> int \<Rightarrow>
    recon_summary recon" where
  "reconcile_window env args s ex candidate_end_ms c scan_start_ms sync_error pg_success_end_ms =
     (let actual_end_ms = min candidate_end_ms pg_success_end_ms
      in if actual_end_ms < scan_start_ms then lift_db (Inl ''PostgreSQL watermark is before scan start'')
         else bind_db (set_phase ''exporting_pg'' 30 None (Some pg_success_end_ms) (Some actual_end_ms)) (\<lambda>_.
         bind_db (read_db (\<lambda>db. export_pg env ex scan_start_ms actual_end_ms (rd_store db))) (\<lambda>pg_files.
         bind_db (lift_db (checked_i64 ''baseline overflow'' (ra_baseline_minutes args * 60000))) (\<lambda>baseline_ms.
         bind_db (set_phase ''exporting_orders'' 50 None None None) (\<lambda>_.
         bind_db (lift_db (export_orders env (sg_slug s)
           (max (cp_aligned_from_ms c) (saturating_sub_i64 scan_start_ms baseline_ms)) actual_end_ms)) (\<lambda>(uniform_rows, unmatched_rows).
         bind_db (set_phase ''comparing'' 85 None None None) (\<lambda>_.
         bind_db load_trade_exclusions (\<lambda>exclusions.
         bind_db (lift_db (compare_window env args (sg_slug s) pg_files uniform_rows unmatched_rows exclusions scan_start_ms actual_end_ms))
           (finish_window args c sync_error scan_start_ms candidate_end_ms pg_success_end_ms actual_end_ms)))))))))"

definition reconcile :: "recon_env \<Rightarrow> recon_args \<Rightarrow> strategy \<Rightarrow> export_strategy \<Rightarrow> int \<Rightarrow> string \<Rightarrow> recon_summary recon" where
  "reconcile env args s ex candidate_end_ms run_id =
     bind_db (start_status run_id candidate_end_ms) (\<lambda>_.
     bind_db load_checkpoint (\<lambda>(c, _).
     bind_db (lift_db (recon_scan_start args c)) (\<lambda>scan_start_ms.
     bind_db (set_phase ''loading_watermark'' 10 (Some scan_start_ms) None None) (\<lambda>_.
     bind_db (if ra_skip_sync args then lift_db (Inr None)
       else bind_db (set_phase ''syncing_trades'' 15 None None None) (\<lambda>_. sync_trades env s scan_start_ms candidate_end_ms)) (\<lambda>sync_error.
     bind_db load_checkpoint (\<lambda>(_, pg_success_end_ms).
       reconcile_window env args s ex candidate_end_ms c scan_start_ms sync_error pg_success_end_ms))))))"

section \<open>A run over strategies\<close>

definition supported_strategies :: "string list" where
  "supported_strategies = [''binance_mm_alpha'', ''binance-intra-arb01'', ''bybit_mm_alpha'', ''bybit-intra-arb01'', ''bybit-intra-arb02'']"

definition candidate_end :: "recon_args \<Rightarrow> int \<Rightarrow> string + int" where
  "candidate_end args now_ms =
     bind_res (checked_i64 ''settlement gap overflow'' (ra_settlement_gap_minutes args * 60000)) (\<lambda>gap_ms.
       let latest_end_ms = now_ms - gap_ms
       in Inr (min (case ra_end_ms args of None \<Rightarrow> latest_end_ms | Some e \<Rightarrow> e) latest_end_ms))"

text \<open>The strategies in turn, each on its own part of the database; one that fails is marked and does not stop the others.\<close>

definition reconcile_one :: "(string \<Rightarrow> recon_summary recon) \<Rightarrow> string \<Rightarrow> (string \<Rightarrow> recon_db) \<times> (string \<times> (string + recon_summary)) list \<Rightarrow>
    (string \<Rightarrow> recon_db) \<times> (string \<times> (string + recon_summary)) list" where
  "reconcile_one run slug = (\<lambda>(dbs, results).
     case run slug (dbs slug) of
       (db, Inr sm) \<Rightarrow> (dbs(slug := db), results @ [(slug, Inr sm)])
     | (db, Inl e) \<Rightarrow> (dbs(slug := fail_status e db), results @ [(slug, Inl e)]))"

definition result_failed :: "string + recon_summary \<Rightarrow> bool" where
  "result_failed r = (case r of Inl _ \<Rightarrow> True | Inr sm \<Rightarrow> \<not> su_aligned sm \<or> su_sync_error sm \<noteq> None)"

definition reconcile_main :: "(string \<Rightarrow> recon_env) \<Rightarrow> recon_args \<Rightarrow> (string \<Rightarrow> strategy) \<Rightarrow> (string \<Rightarrow> export_strategy) \<Rightarrow> string list \<Rightarrow> int \<Rightarrow>
    (string \<Rightarrow> string) \<Rightarrow> (string \<Rightarrow> recon_db) \<Rightarrow> string + (string \<Rightarrow> recon_db) \<times> (string \<times> (string + recon_summary)) list \<times> bool" where
  "reconcile_main env args s ex requested now_ms run_id dbs =
     bind_res (validate_args args) (\<lambda>_.
     let strategies = (if requested = [] then supported_strategies else requested)
     in if \<not> set strategies \<subseteq> set supported_strategies then Inl ''unsupported strategy''
        else bind_res (candidate_end args now_ms) (\<lambda>candidate_end_ms.
          let (dbs', results) = fold (reconcile_one (\<lambda>slug. reconcile (env slug) args (s slug) (ex slug) candidate_end_ms (run_id slug)))
                strategies (dbs, [])
          in Inr (dbs', results, list_ex (result_failed \<circ> snd) results)))"

text \<open>\<open>WorkDirGuard\<close>: of a failed run only limited reports survive, and its working directory goes unless it is to be kept.\<close>

definition max_persisted_groups :: nat where
  "max_persisted_groups = 1000"

definition copy_limited_groups :: "'r list \<Rightarrow> 'r list \<times> nat \<times> bool" where
  "copy_limited_groups records =
     (take max_persisted_groups records, min max_persisted_groups (length records), max_persisted_groups < length records)"

datatype report_place = InWorkRoot | InReportsRoot

definition finalize_work_dir :: "bool \<Rightarrow> bool \<Rightarrow> bool \<Rightarrow> report_place \<times> bool" where
  "finalize_work_dir succeeded cleanup_on_success keep_work_dir =
     (if succeeded then InWorkRoot else InReportsRoot, \<not> keep_work_dir \<and> (\<not> succeeded \<or> cleanup_on_success))"



section \<open>A window matches when every group does\<close>

definition group_equal :: "recon_args \<Rightarrow> recon_window \<Rightarrow> group_key \<Rightarrow> bool" where
  "group_equal args w key \<longleftrightarrow>
     quantities_equal (stt_qty (stat_of (rw_uniform w) key) + stt_qty (stat_of (rw_unmatched w) key)) (stt_qty (stat_of (rw_pg w) key))
       (ra_qty_epsilon args) (ra_rel_epsilon args)"

lemma stat_of_absent: "key \<notin> fst ` set groups \<Longrightarrow> stat_of groups key = no_stat"
proof -
  assume "key \<notin> fst ` set groups"
  then have "map_of groups key = None" by (simp add: map_of_eq_None_iff)
  then show ?thesis by (simp add: stat_of_def)
qed

lemma zero_equal: "0 \<le> abs_epsilon \<Longrightarrow> quantities_equal (0 + 0) 0 abs_epsilon rel_epsilon"
proof -
  have "(0 :: f64) + 0 = 0" "\<bar>(0 :: f64) - 0\<bar> = 0" "is_finite 0" by (simp_all add: f64_defs)
  then show "0 \<le> abs_epsilon \<Longrightarrow> ?thesis" by (simp add: quantities_equal_def)
qed

lemma compare_groups_match:
  assumes "0 \<le> ra_qty_epsilon args"
  shows "filter (\<lambda>r. gr_status r = ''MISMATCH'') (compare_groups (rw_pg w) (rw_uniform w) (rw_unmatched w) (ra_qty_epsilon args)
    (ra_rel_epsilon args)) = [] \<longleftrightarrow> (\<forall>key. group_equal args w key)"
proof -
  let ?keys = "fst ` set (rw_pg w) \<union> fst ` set (rw_uniform w) \<union> fst ` set (rw_unmatched w)"
  have absent: "group_equal args w key" if "key \<notin> ?keys" for key
    using that zero_equal [OF assms] by (simp add: group_equal_def stat_of_absent no_stat_def)
  have "filter (\<lambda>r. gr_status r = ''MISMATCH'') (compare_groups (rw_pg w) (rw_uniform w) (rw_unmatched w) (ra_qty_epsilon args)
    (ra_rel_epsilon args)) = [] \<longleftrightarrow> (\<forall>key \<in> ?keys. group_equal args w key)"
  proof -
    have status: "gr_status (report_group (rw_pg w) (rw_uniform w) (rw_unmatched w) (ra_qty_epsilon args) (ra_rel_epsilon args) key) = ''MISMATCH''
        \<longleftrightarrow> \<not> group_equal args w key" for key
      by (simp add: report_group_def Let_def group_equal_def del: fst_conv)
    have "set (sort (remdups (map fst (rw_pg w) @ map fst (rw_uniform w) @ map fst (rw_unmatched w)))) = ?keys" by (simp add: Un_assoc)
    then show ?thesis by (simp only: compare_groups_def filter_empty_conv set_map ball_simps status not_not)
  qed
  then show ?thesis using absent by (simp only:) metis
qed

text \<open>The window that a summary names matches: the rows read for it, on the store as it is, compare equal in every group.\<close>

definition window_matched :: "recon_env \<Rightarrow> recon_args \<Rightarrow> string \<Rightarrow> export_strategy \<Rightarrow> recon_db \<Rightarrow> int \<Rightarrow> int \<Rightarrow> bool" where
  "window_matched env args strategy ex db a b \<longleftrightarrow>
     (\<exists>files start uniform_rows unmatched_rows exclusions w.
        export_pg env ex a b (rd_store db) = Inr files \<and>
        export_orders env strategy start b = Inr (uniform_rows, unmatched_rows) \<and> start \<le> a \<and>
        compare_window env args strategy files uniform_rows unmatched_rows exclusions a b = Inr w \<and>
        (\<forall>key. group_equal args w key))"

definition summary_window :: "recon_env \<Rightarrow> recon_args \<Rightarrow> string \<Rightarrow> export_strategy \<Rightarrow> recon_db \<Rightarrow> string + recon_summary \<Rightarrow> int set" where
  "summary_window env args strategy ex db r =
     (case r of
        Inl _ \<Rightarrow> {}
      | Inr sm \<Rightarrow> if window_matched env args strategy ex db (su_scan_start_ms sm) (su_actual_end_ms sm)
          then {su_scan_start_ms sm..su_actual_end_ms sm} else {})"

section \<open>Runs of the synchroniser\<close>

lemma sync_dataset_watermark:
  assumes "sync_dataset ft client s stored_symbols args overlap_ms data st = Inr st'" "sr_watermarks st d = Some w"
  shows "\<exists>w'. sr_watermarks st' d = Some w' \<and> w \<le> w'"
proof -
  obtain start_ms where "scan_range s data args overlap_ms st = Inr start_ms" using assms(1) by (auto simp: sync_dataset_def bind_res_Inr)
  show ?thesis
  proof (cases "sa_end_ms args < start_ms")
    case True
    then have "st' = st" using assms(1) \<open>scan_range s data args overlap_ms st = Inr start_ms\<close> by (simp add: sync_dataset_def)
    then show ?thesis using assms(2) by simp
  next
    case False
    then obtain symbols r rows where "scan_rows ft client s data symbols (sa_derivatives_only args) r = Inr rows"
      "commit_rows data rows (sa_end_ms args) (\<not> sa_no_advance_watermark args) st = Inr st'"
      using assms(1) \<open>scan_range s data args overlap_ms st = Inr start_ms\<close> by (auto simp: sync_dataset_def bind_res_Inr)
    then have "sr_watermarks st' = (if \<not> sa_no_advance_watermark args then (sr_watermarks st)(data \<mapsto>
        (case sr_watermarks st data of None \<Rightarrow> sa_end_ms args | Some w \<Rightarrow> max w (sa_end_ms args))) else sr_watermarks st)"
      using commit_times(3) scan_rows_dataset by metis
    then show ?thesis using assms(2) by auto
  qed
qed

lemma sync_datasets_synced:
  assumes "sync_datasets (sync_dataset ft client s stored_symbols args overlap_ms) supported requested ds st = (st', err)"
    and "synced ft s st scanned" "answers_in_range ft client s" "0 \<le> overlap_ms"
    and "\<And>t d. sa_start_ms args = Some t \<Longrightarrow> d \<in> set ds \<Longrightarrow> {sg_st_ms s..<t} \<subseteq> scanned d"
    and "sr_watermarks st data = Some w"
  shows "\<exists>scanned' w'. synced ft s st' scanned' \<and> (\<forall>d. scanned d \<subseteq> scanned' d) \<and> sr_watermarks st' data = Some w' \<and> w \<le> w'"
  using assms
proof (induction ds arbitrary: st scanned w)
  case (Cons d ds)
  let ?sync = "sync_dataset ft client s stored_symbols args overlap_ms"
  consider (stop) "st' = st" | (skip) "sync_datasets ?sync supported requested ds st = (st', err)"
    | (step) st1 where "?sync d st = Inr st1" "sync_datasets ?sync supported requested ds st1 = (st', err)"
    using Cons.prems(1) by (auto split: if_splits sum.splits)
  then show ?case
  proof cases
    case stop
    then show ?thesis using Cons.prems(2,6) by auto
  next
    case skip
    show ?thesis by (rule Cons.IH [OF skip Cons.prems(2-4) _ Cons.prems(6)]) (use Cons.prems(5) in simp)
  next
    case step
    obtain start_ms where start: "scan_range s d args overlap_ms st = Inr start_ms"
      using step(1) by (auto simp: sync_dataset_def bind_res_Inr)
    let ?sc = "scanned(d := scanned d \<union> {start_ms..sa_end_ms args})"
    have syn: "synced ft s st1 ?sc"
      by (rule synced.Scan [OF Cons.prems(2-4) _ start step(1)]) (use Cons.prems(5) in simp)
    obtain w1 where w1: "sr_watermarks st1 data = Some w1" "w \<le> w1" using sync_dataset_watermark [OF step(1) Cons.prems(6)] by blast
    have "\<And>t e. sa_start_ms args = Some t \<Longrightarrow> e \<in> set ds \<Longrightarrow> {sg_st_ms s..<t} \<subseteq> ?sc e"
      using Cons.prems(5) by fastforce
    from Cons.IH [OF step(2) syn Cons.prems(3,4) this w1(1)] obtain sc' w' where "synced ft s st' sc'" "\<forall>e. ?sc e \<subseteq> sc' e"
      "sr_watermarks st' data = Some w'" "w1 \<le> w'" by blast
    moreover have "scanned e \<subseteq> ?sc e" for e by simp
    ultimately show ?thesis using w1(2) by (meson order_trans)
  qed
qed auto

lemma sync_strategy_synced:
  assumes "sync_strategy ft client s stored_symbols args st = (st', err)"
    and "synced ft s st scanned" "answers_in_range ft client s" "0 \<le> sa_overlap_minutes args"
    and "\<And>t d. sa_start_ms args = Some t \<Longrightarrow> d \<in> set (selected_datasets (sa_dataset args)) \<Longrightarrow> {sg_st_ms s..<t} \<subseteq> scanned d"
    and "sr_watermarks st data = Some w"
  shows "\<exists>scanned' w'. synced ft s st' scanned' \<and> (\<forall>d. scanned d \<subseteq> scanned' d) \<and> sr_watermarks st' data = Some w' \<and> w \<le> w'"
proof (cases "st' = st")
  case True
  then show ?thesis using assms(2,6) by auto
next
  case False
  then have "sync_datasets (sync_dataset ft client s stored_symbols args (sa_overlap_minutes args * 60000)) (supports s) (sa_dataset args)
      (selected_datasets (sa_dataset args)) st = (st', err)"
    using assms(1) by (auto simp: sync_strategy_def Let_def split: if_splits)
  then show ?thesis by (rule sync_datasets_synced [OF _ assms(2,3) _ assms(5,6)]) (use assms(4) in simp)
qed

section \<open>Triples for steps on the database\<close>

definition runs :: "(recon_db \<Rightarrow> bool) \<Rightarrow> 'a recon \<Rightarrow> ('a \<Rightarrow> recon_db \<Rightarrow> bool) \<Rightarrow> (recon_db \<Rightarrow> bool) \<Rightarrow> bool" where
  "runs P m Q E \<longleftrightarrow> (\<forall>db. P db \<longrightarrow> (case m db of (db', Inl _) \<Rightarrow> E db' | (db', Inr x) \<Rightarrow> Q x db'))"

lemma runsD: "runs P m Q E \<Longrightarrow> P db \<Longrightarrow> m db = (db', r) \<Longrightarrow> (case r of Inl _ \<Rightarrow> E db' | Inr x \<Rightarrow> Q x db')"
  by (auto simp: runs_def split: sum.splits)

lemma runs_bind: "runs P m Q E \<Longrightarrow> (\<And>x. runs (Q x) (f x) R E) \<Longrightarrow> runs P (bind_db m f) R E"
  unfolding runs_def bind_db_def by (fastforce split: prod.splits sum.splits)

lemma runs_pre: "runs P m Q E \<Longrightarrow> (\<And>db. P' db \<Longrightarrow> P db) \<Longrightarrow> runs P' m Q E"
  by (auto simp: runs_def)

lemma runs_lift: "(\<And>x db. r = Inr x \<Longrightarrow> P db \<Longrightarrow> Q x db) \<Longrightarrow> (\<And>db. P db \<Longrightarrow> E db) \<Longrightarrow> runs P (lift_db r) Q E"
  by (auto simp: runs_def lift_db_def split: sum.splits)

lemma runs_read: "(\<And>x db. f db = Inr x \<Longrightarrow> P db \<Longrightarrow> Q x db) \<Longrightarrow> (\<And>db. P db \<Longrightarrow> E db) \<Longrightarrow> runs P (read_db f) Q E"
  by (auto simp: runs_def read_db_def split: sum.splits)

lemma runs_write: "(\<And>db. P db \<Longrightarrow> Q () (f db)) \<Longrightarrow> runs P (write_db f) Q E"
  by (simp add: runs_def write_db_def)

lemma runs_check: "runs P (lift_db r) (\<lambda>_. P) P"
  by (rule runs_lift)

text \<open>A predicate that does not look at the status row is kept by the steps that only write it.\<close>

definition ignores_status :: "(recon_db \<Rightarrow> bool) \<Rightarrow> bool" where
  "ignores_status P \<longleftrightarrow> (\<forall>db x. P (db\<lparr>rd_status := x\<rparr>) = P db)"

lemma runs_set_phase: "ignores_status P \<Longrightarrow> runs P (set_phase phase progress x y z) (\<lambda>_. P) E"
  unfolding set_phase_def by (rule runs_write) (simp add: ignores_status_def)

lemma runs_start_status: "ignores_status P \<Longrightarrow> runs P (start_status run_id e) (\<lambda>_. P) E"
  unfolding start_status_def by (rule runs_write) (simp add: ignores_status_def)

lemma runs_complete_status: "ignores_status P \<Longrightarrow> runs P (complete_status sm) (\<lambda>_. P) P"
  unfolding complete_status_def
  by (intro runs_bind [OF runs_check] runs_write) (simp add: ignores_status_def)

section \<open>The verified interval\<close>

definition verified_ok :: "(f64 \<Rightarrow> string) \<Rightarrow> strategy \<Rightarrow> int \<Rightarrow> int set \<Rightarrow> recon_db \<Rightarrow> bool" where
  "verified_ok ft s base matched db \<longleftrightarrow>
     (\<exists>scanned c w. synced ft s (rd_store db) scanned \<and> rd_checkpoint db = Some c \<and> sr_watermarks (rd_store db) Trades = Some w \<and>
        cp_aligned_from_ms c \<le> cp_verified_through_ms c \<and> cp_verified_through_ms c \<le> w \<and> {base<..cp_verified_through_ms c} \<subseteq> matched \<and>
        0 < cp_aligned_from_ms c)"

lemma verified_ok_mono: "verified_ok ft s base matched db \<Longrightarrow> matched \<subseteq> matched' \<Longrightarrow> verified_ok ft s base matched' db"
  unfolding verified_ok_def by (meson order_trans)

lemma verified_ok_status: "ignores_status (verified_ok ft s base matched)"
  by (simp add: ignores_status_def verified_ok_def)

text \<open>The window of a run: from the scan start that the checkpoint gives to the end, or to the watermark when that is earlier.\<close>

definition run_window :: "recon_env \<Rightarrow> recon_args \<Rightarrow> string \<Rightarrow> export_strategy \<Rightarrow> int \<Rightarrow> checkpoint option \<Rightarrow> recon_db \<Rightarrow> int set" where
  "run_window env args strategy ex candidate_end_ms checkpoint db' =
     (case (checkpoint, sr_watermarks (rd_store db') Trades) of
        (Some c, Some w) \<Rightarrow>
          (case recon_scan_start args c of
             Inl _ \<Rightarrow> {}
           | Inr a \<Rightarrow> if window_matched env args strategy ex db' a (min candidate_end_ms w) then {a..min candidate_end_ms w} else {})
      | _ \<Rightarrow> {})"

lemma sdiv_floor: "(x sdiv 60000) * 60000 \<le> max x (0 :: int)"
proof (cases "0 < x")
  case True
  then have "x sdiv 60000 = x div 60000" by (simp add: signed_divide_int_def)
  then show ?thesis by simp
next
  case False
  then have "x sdiv 60000 \<le> 0" by (auto simp: signed_divide_int_def sgn_if pos_imp_zdiv_nonneg_iff)
  then show ?thesis by simp
qed

lemma scan_start_bounds:
  assumes "recon_scan_start args c = Inr a" "0 \<le> ra_overlap_minutes args" "cp_aligned_from_ms c \<le> cp_verified_through_ms c"
    "0 < cp_aligned_from_ms c"
  shows "cp_aligned_from_ms c \<le> a" "a \<le> cp_verified_through_ms c"
proof -
  let ?v = "cp_verified_through_ms c" and ?o = "ra_overlap_minutes args * 60000"
  have a: "a = max (cp_aligned_from_ms c) (((?v - ?o) sdiv 60000) * 60000)"
    using assms(1) by (auto simp: recon_scan_start_def bind_res_Inr checked_i64_def split: if_splits)
  then show "cp_aligned_from_ms c \<le> a" by simp
  have "0 < ?v" using assms(3,4) by simp
  then have "((?v - ?o) sdiv 60000) * 60000 \<le> ?v" using sdiv_floor [of "?v - ?o"] assms(2) by linarith
  then show "a \<le> ?v" using a assms(3) by simp
qed

definition run_inv :: "(f64 \<Rightarrow> string) \<Rightarrow> strategy \<Rightarrow> int \<Rightarrow> int set \<Rightarrow> checkpoint \<Rightarrow> recon_db \<Rightarrow> bool" where
  "run_inv ft s base matched c db \<longleftrightarrow> verified_ok ft s base matched db \<and> rd_checkpoint db = Some c"

lemma run_inv_status: "ignores_status (run_inv ft s base matched c)"
  using verified_ok_status [of ft s base matched] by (simp add: ignores_status_def run_inv_def)

text \<open>Started with a window that reaches back into the verified interval, the synchroniser leaves no gap.\<close>

lemma sync_trades_inv:
  assumes env: "re_float_text env = ft" "\<And>client. re_client env = Inr client \<Longrightarrow> answers_in_range ft client s"
    and a: "a \<le> cp_verified_through_ms c" and st: "is_i64 (sg_st_ms s)"
  shows "runs (run_inv ft s base matched c) (sync_trades env s a e) (\<lambda>_. run_inv ft s base matched c) E"
  unfolding runs_def
proof (intro allI impI)
  fix db assume inv: "run_inv ft s base matched c db"
  show "case sync_trades env s a e db of (db', Inl x) \<Rightarrow> E db' | (db', Inr x) \<Rightarrow> run_inv ft s base matched c db'"
  proof (cases "re_client env")
    case (Inl x)
    then show ?thesis using inv by (simp add: sync_trades_def)
  next
    case (Inr client)
    obtain st' err where run: "sync_strategy ft client s (re_stored_symbols env) (recon_sync_args a e) (rd_store db) = (st', err)" by fastforce
    obtain scanned w where ok: "synced ft s (rd_store db) scanned" "rd_checkpoint db = Some c"
      "sr_watermarks (rd_store db) Trades = Some w" "cp_aligned_from_ms c \<le> cp_verified_through_ms c"
      "cp_verified_through_ms c \<le> w" "{base<..cp_verified_through_ms c} \<subseteq> matched" "0 < cp_aligned_from_ms c"
      using inv by (auto simp: run_inv_def verified_ok_def)
    have "{sg_st_ms s..w} \<subseteq> scanned Trades" using synced_covered [OF ok(1) st] ok(3) by (simp add: covered_def)
    then have reach: "{sg_st_ms s..<a} \<subseteq> scanned Trades" using a ok(5) by fastforce
    have "\<exists>scanned' w'. synced ft s st' scanned' \<and> (\<forall>d. scanned d \<subseteq> scanned' d) \<and> sr_watermarks st' Trades = Some w' \<and> w \<le> w'"
      by (rule sync_strategy_synced [OF run ok(1) env(2) [OF Inr] _ _ ok(3)])
        (use reach in \<open>auto simp: recon_sync_args_def selected_datasets_def\<close>)
    then obtain scanned' w' where "synced ft s st' scanned'" "sr_watermarks st' Trades = Some w'" "w \<le> w'" by blast
    then have "run_inv ft s base matched c (db\<lparr>rd_store := st'\<rparr>)"
      using ok(2,4-7) unfolding run_inv_def verified_ok_def by fastforce
    then show ?thesis using Inr run env(1) by (simp add: sync_trades_def)
  qed
qed

lemma runs_assume: "(A \<Longrightarrow> runs P m Q E) \<Longrightarrow> runs (\<lambda>db. P db \<and> A) m Q E"
  by (auto simp: runs_def)

lemma runs_keep: "runs P m (\<lambda>_. P) E \<Longrightarrow> runs (\<lambda>db. P db \<and> A) m (\<lambda>_ db. P db \<and> A) E"
  by (rule runs_assume) (auto simp: runs_def split: sum.splits)

lemma runs_post: "runs P m Q E \<Longrightarrow> (\<And>x db. Q x db \<Longrightarrow> Q' x db) \<Longrightarrow> (\<And>db. E db \<Longrightarrow> E' db) \<Longrightarrow> runs P m Q' E'"
  unfolding runs_def by (auto split: prod.splits sum.splits; blast)

text \<open>What a run knows when it has read everything: the checkpoint is the one it started with and the window was compared.\<close>

definition compared :: "recon_env \<Rightarrow> recon_args \<Rightarrow> string \<Rightarrow> export_strategy \<Rightarrow> int \<Rightarrow> int \<Rightarrow> recon_window \<Rightarrow> recon_db \<Rightarrow> bool" where
  "compared env args strategy ex a b win db \<longleftrightarrow>
     (\<exists>files start uniform_rows unmatched_rows exclusions. export_pg env ex a b (rd_store db) = Inr files \<and>
        export_orders env strategy start b = Inr (uniform_rows, unmatched_rows) \<and> start \<le> a \<and>
        compare_window env args strategy files uniform_rows unmatched_rows exclusions a b = Inr win)"

lemma compared_matched: "compared env args strategy ex a b win db \<Longrightarrow> \<forall>key. group_equal args win key \<Longrightarrow> window_matched env args strategy ex db a b"
  unfolding compared_def window_matched_def by blast

lemma run_window_status: "run_window env args strategy ex cand cp (db\<lparr>rd_status := x\<rparr>) = run_window env args strategy ex cand cp db"
proof -
  have "window_matched env args strategy ex (db\<lparr>rd_status := x\<rparr>) a b = window_matched env args strategy ex db a b" for a b
    by (simp add: window_matched_def)
  moreover have "rd_store (db\<lparr>rd_status := x\<rparr>) = rd_store db" by simp
  ultimately show ?thesis unfolding run_window_def by (simp only:)
qed

lemma finish_window_inv:
  assumes eps: "0 \<le> ra_qty_epsilon args" and a: "recon_scan_start args c = Inr a" "a \<le> cp_verified_through_ms c"
  shows "runs (\<lambda>db. run_inv ft s base matched c db \<and> sr_watermarks (rd_store db) Trades = Some w \<and>
      compared env args strategy ex a (min cand w) win db)
    (finish_window args c sync_error a cand w (min cand w) win)
    (\<lambda>_ db. verified_ok ft s base (matched \<union> run_window env args strategy ex cand (Some c) db) db)
    (\<lambda>db. verified_ok ft s base (matched \<union> run_window env args strategy ex cand (Some c) db) db)"
    (is "runs ?P _ (\<lambda>_. ?R) ?R")
proof -
  have R_status: "ignores_status ?R"
    using verified_ok_status unfolding ignores_status_def run_window_status by blast
  have keep: "?R db" if "?P db" for db
    using that by (auto simp: run_inv_def intro: verified_ok_mono)
  have advance: "?R (db\<lparr>rd_checkpoint := map_option (\<lambda>c. c\<lparr>cp_verified_through_ms := max (cp_verified_through_ms c) (min cand w)\<rparr>) (rd_checkpoint db)\<rparr>)"
    if P: "?P db" and all: "\<forall>key. group_equal args win key" for db
  proof -
    let ?b = "min cand w" and ?db = "db\<lparr>rd_checkpoint := Some (c\<lparr>cp_verified_through_ms := max (cp_verified_through_ms c) (min cand w)\<rparr>)\<rparr>"
    obtain scanned w' where ok: "synced ft s (rd_store db) scanned" "rd_checkpoint db = Some c"
      "sr_watermarks (rd_store db) Trades = Some w" "cp_aligned_from_ms c \<le> cp_verified_through_ms c"
      "cp_verified_through_ms c \<le> w" "{base<..cp_verified_through_ms c} \<subseteq> matched" "0 < cp_aligned_from_ms c"
      using P by (auto simp: run_inv_def verified_ok_def)
    have "window_matched env args strategy ex ?db a ?b"
      using compared_matched [OF _ all] P by (auto simp: window_matched_def)
    then have win: "run_window env args strategy ex cand (Some c) ?db = {a..?b}" using ok(3) a(1) by (simp add: run_window_def)
    have "{base<..max (cp_verified_through_ms c) ?b} \<subseteq> matched \<union> {a..?b}"
    proof
      fix t assume "t \<in> {base<..max (cp_verified_through_ms c) ?b}"
      then show "t \<in> matched \<union> {a..?b}" using ok(6) a(2) by (cases "t \<le> cp_verified_through_ms c") auto
    qed
    then have "verified_ok ft s base (matched \<union> {a..?b}) ?db"
      unfolding verified_ok_def using ok by (intro exI [of _ scanned] exI [of _ "c\<lparr>cp_verified_through_ms := max (cp_verified_through_ms c) ?b\<rparr>"]
          exI [of _ w]) auto
    then show ?thesis using win ok(2) by simp
  qed
  show ?thesis unfolding finish_window_def Let_def
  proof (rule runs_bind [where Q = "\<lambda>_. ?R"], goal_cases)
    case 1
    show ?case
    proof (cases "filter (\<lambda>r. gr_status r = ''MISMATCH'') (compare_groups (rw_pg win) (rw_uniform win) (rw_unmatched win)
        (ra_qty_epsilon args) (ra_rel_epsilon args)) = []")
      case True
      then have all: "\<forall>key. group_equal args win key" using compare_groups_match [OF eps] by blast
      show ?thesis unfolding advance_checkpoint_def
        by (cases "cp_verified_through_ms c < min cand w")
          (simp_all add: True runs_write advance [OF _ all] runs_lift keep del: min_less_iff_conj)
    next
      case False
      then show ?thesis by (simp add: runs_lift keep)
    qed
  next
    case (2 x)
    show ?case by (rule runs_bind [OF runs_complete_status [OF R_status]]) (rule runs_check)
  qed
qed

section \<open>A run keeps the invariant, whatever fails in it\<close>

abbreviation at_watermark :: "(f64 \<Rightarrow> string) \<Rightarrow> strategy \<Rightarrow> int \<Rightarrow> int set \<Rightarrow> checkpoint \<Rightarrow> int \<Rightarrow> recon_db \<Rightarrow> bool" where
  "at_watermark ft s base matched c w db \<equiv> run_inv ft s base matched c db \<and> sr_watermarks (rd_store db) Trades = Some w"

abbreviation run_post :: "recon_env \<Rightarrow> recon_args \<Rightarrow> strategy \<Rightarrow> export_strategy \<Rightarrow> int \<Rightarrow> (f64 \<Rightarrow> string) \<Rightarrow> int \<Rightarrow> int set \<Rightarrow> checkpoint \<Rightarrow>
    recon_db \<Rightarrow> bool" where
  "run_post env args s ex cand ft base matched c db \<equiv>
     verified_ok ft s base (matched \<union> run_window env args (sg_slug s) ex cand (Some c) db) db"

lemma run_inv_post: "run_inv ft s base matched c db \<Longrightarrow> run_post env args s ex cand ft base matched c db"
  by (auto simp: run_inv_def intro: verified_ok_mono)

lemma validate_args_nonneg:
  assumes "validate_args args = Inr ()"
  shows "0 \<le> ra_overlap_minutes args" "0 \<le> ra_baseline_minutes args" "0 \<le> ra_qty_epsilon args"
  using assms by (auto simp: validate_args_def not_less split: if_splits) (cases "ra_qty_epsilon args"; simp add: f64_defs)

lemma reconcile_window_inv:
  assumes nonneg: "0 \<le> ra_baseline_minutes args" "0 \<le> ra_qty_epsilon args" and c: "0 < cp_aligned_from_ms c"
    and a: "recon_scan_start args c = Inr a" "cp_aligned_from_ms c \<le> a" "a \<le> cp_verified_through_ms c"
  shows "runs (at_watermark ft s base matched c w) (reconcile_window env args s ex cand c a sync_error w)
    (\<lambda>_. run_post env args s ex cand ft base matched c) (run_post env args s ex cand ft base matched c)"
    (is "runs ?W _ (\<lambda>_. ?R) ?R")
proof -
  have weakW: "?W db \<Longrightarrow> ?R db" for db using run_inv_post by blast
  note I_status = run_inv_status [of ft s base matched c]
  have W_status: "ignores_status ?W" using I_status by (simp add: ignores_status_def)
  let ?F = "\<lambda>files db. ?W db \<and> export_pg env ex a (min cand w) (rd_store db) = Inr files"
  have F_status: "ignores_status (?F files)" for files using I_status by (simp add: ignores_status_def)
  have start: "max (cp_aligned_from_ms c) (saturating_sub_i64 a baseline_ms) \<le> a"
    if "checked_i64 what (ra_baseline_minutes args * 60000) = Inr baseline_ms" for what baseline_ms
    using that nonneg(1) a(2) c by (auto simp: checked_i64_def saturating_sub_i64_def clamp_i64_def i64_min_def split: if_splits)
  show ?thesis
  proof (cases "min cand w < a")
    case True
    then show ?thesis by (simp add: reconcile_window_def runs_lift weakW)
  next
    case False
    show ?thesis unfolding reconcile_window_def Let_def if_not_P [OF False]
    proof (rule runs_bind [OF runs_set_phase [OF W_status]], rule runs_bind [where Q = "?F"], goal_cases)
      case 1
      show ?case by (rule runs_read) (auto simp: weakW)
    next
      case (2 _ files)
      show ?case
      proof (rule runs_bind [where Q = "\<lambda>b db. ?F files db \<and> checked_i64 ''baseline overflow'' (ra_baseline_minutes args * 60000) = Inr b"], goal_cases)
        case 1
        show ?case by (rule runs_lift) (auto simp: weakW)
      next
        case (2 baseline_ms)
        show ?case
        proof (rule runs_assume, rule runs_bind [OF runs_set_phase [OF F_status]], goal_cases)
          case 1
          note start = start [OF 1]
          let ?start = "max (cp_aligned_from_ms c) (saturating_sub_i64 a baseline_ms)"
          show ?case
          proof (rule runs_bind [where Q = "\<lambda>orders db. ?F files db \<and> export_orders env (sg_slug s) ?start (min cand w) = Inr orders"], goal_cases)
            case 1
            show ?case by (rule runs_lift) (auto simp: weakW)
          next
            case (2 orders)
            obtain uniform_rows unmatched_rows where orders: "orders = (uniform_rows, unmatched_rows)" by fastforce
            show ?case unfolding orders split_conv
            proof (rule runs_assume, rule runs_bind [OF runs_set_phase [OF F_status]], rule runs_bind [where Q = "\<lambda>_. ?F files"], goal_cases)
              case 1
              show ?case unfolding load_trade_exclusions_def by (rule runs_read) (auto simp: weakW)
            next
              case (2 _ exclusions)
              note orders_ok = 2
              show ?case
              proof (rule runs_bind [where Q = "\<lambda>win db. ?W db \<and> compared env args (sg_slug s) ex a (min cand w) win db"], goal_cases)
                case 1
                show ?case by (rule runs_lift) (use orders_ok start in \<open>unfold compared_def, blast\<close>, use weakW in blast)
              next
                case (2 win)
                show ?case by (rule runs_pre [OF finish_window_inv [OF nonneg(2) a(1,3)]]) blast
              qed
            qed
          qed
        qed
      qed
    qed
  qed
qed
lemma reconcile_inv:
  assumes args: "validate_args args = Inr ()"
    and env: "re_float_text env = ft" "\<And>client. re_client env = Inr client \<Longrightarrow> answers_in_range ft client s"
    and c: "0 < cp_aligned_from_ms c" "cp_aligned_from_ms c \<le> cp_verified_through_ms c" and st: "is_i64 (sg_st_ms s)"
  shows "runs (run_inv ft s base matched c) (reconcile env args s ex cand run_id)
    (\<lambda>_. run_post env args s ex cand ft base matched c) (run_post env args s ex cand ft base matched c)"
    (is "runs ?I (_ :: _ recon) (\<lambda>_. ?R) ?R")
proof -
  note nonneg = validate_args_nonneg [OF args] and I_status = run_inv_status [of ft s base matched c]
  have after_scan_start: "runs ?I
      (bind_db (if ra_skip_sync args then lift_db (Inr None)
         else bind_db (set_phase ''syncing_trades'' 15 None None None) (\<lambda>_. sync_trades env s a cand)) (\<lambda>sync_error.
       bind_db load_checkpoint (\<lambda>(_, pg_success_end_ms). reconcile_window env args s ex cand c a sync_error pg_success_end_ms))) (\<lambda>_. ?R) ?R"
    if a: "recon_scan_start args c = Inr a" "cp_aligned_from_ms c \<le> a" "a \<le> cp_verified_through_ms c" for a
  proof (rule runs_bind [where Q = "\<lambda>_. ?I"], goal_cases)
    case 1
    have sync: "runs ?I (sync_trades env s a cand) (\<lambda>_. ?I) ?R" by (rule sync_trades_inv [OF env a(3) st])
    show ?case by (auto intro!: runs_lift run_inv_post runs_bind [OF runs_set_phase [OF I_status]] sync)
  next
    case (2 sync_error)
    show ?case
    proof (rule runs_bind [where Q = "\<lambda>(_, w). at_watermark ft s base matched c w"], goal_cases)
      case 1
      show ?case unfolding load_checkpoint_def by (rule runs_read) (auto simp: run_inv_def intro: verified_ok_mono split: option.splits)
    next
      case (2 r)
      obtain c' w where r: "r = (c', w)" by fastforce
      show ?case unfolding r split_conv by (rule reconcile_window_inv [OF nonneg(2,3) c(1) a])
    qed
  qed
  show ?thesis unfolding reconcile_def
  proof (rule runs_bind [OF runs_start_status [OF I_status]],
      rule runs_bind [where Q = "\<lambda>r db. run_inv ft s base matched c db \<and> fst r = c"], goal_cases)
    case 1
    show ?case unfolding load_checkpoint_def by (rule runs_read) (auto simp: run_inv_def intro: verified_ok_mono split: option.splits)
  next
    case (2 x r)
    show ?case
    proof (rule runs_assume)
      assume "fst r = c"
      then obtain w0 where r: "r = (c, w0)" by (cases r) simp
      show "runs (run_inv ft s base matched c) (case r of (c, _) \<Rightarrow> bind_db (lift_db (recon_scan_start args c)) (\<lambda>scan_start_ms.
         bind_db (set_phase ''loading_watermark'' 10 (Some scan_start_ms) None None) (\<lambda>_.
         bind_db (if ra_skip_sync args then lift_db (Inr None)
           else bind_db (set_phase ''syncing_trades'' 15 None None None) (\<lambda>_. sync_trades env s scan_start_ms cand)) (\<lambda>sync_error.
         bind_db load_checkpoint (\<lambda>(_, pg_success_end_ms).
           reconcile_window env args s ex cand c scan_start_ms sync_error pg_success_end_ms))))) (\<lambda>_. ?R) ?R" unfolding r split_conv
      proof (rule runs_bind [where Q = "\<lambda>a db. run_inv ft s base matched c db \<and> recon_scan_start args c = Inr a"], goal_cases)
        case 1
        show ?case by (rule runs_lift) (auto intro: run_inv_post)
      next
        case (2 a)
        show ?case
          by (rule runs_assume, rule runs_bind [OF runs_set_phase [OF I_status]], rule after_scan_start)
            (auto dest: scan_start_bounds [OF _ nonneg(1) c(2,1)])
      qed
    qed
  qed
qed

section \<open>The checkpoint tells the truth\<close>

text \<open>What happens to the database of a strategy: its checkpoint is inserted at a point that the history covers, then scheduled
  synchronisations and reconciliations follow, with whatever outcome.  \<open>matched\<close> collects the windows that compared equal.\<close>

inductive reconciled :: "(f64 \<Rightarrow> string) \<Rightarrow> strategy \<Rightarrow> export_strategy \<Rightarrow> int \<Rightarrow> recon_db \<Rightarrow> int set \<Rightarrow> bool" for ft s ex base where
  Begin: "synced ft s (rd_store db) scanned \<Longrightarrow> rd_checkpoint db = Some c \<Longrightarrow> 0 < cp_aligned_from_ms c \<Longrightarrow>
    cp_aligned_from_ms c \<le> base \<Longrightarrow> cp_verified_through_ms c = base \<Longrightarrow> sr_watermarks (rd_store db) Trades = Some w \<Longrightarrow> base \<le> w \<Longrightarrow>
    reconciled ft s ex base db {}"
| History: "reconciled ft s ex base db matched \<Longrightarrow> answers_in_range ft client s \<Longrightarrow> 0 \<le> sa_overlap_minutes args \<Longrightarrow>
    sa_start_ms args = None \<Longrightarrow> sync_strategy ft client s stored_symbols args (rd_store db) = (st', err) \<Longrightarrow>
    reconciled ft s ex base (db\<lparr>rd_store := st'\<rparr>) matched"
| Run: "reconciled ft s ex base db matched \<Longrightarrow> validate_args args = Inr () \<Longrightarrow> re_float_text env = ft \<Longrightarrow>
    (\<And>client. re_client env = Inr client \<Longrightarrow> answers_in_range ft client s) \<Longrightarrow>
    reconcile env args s ex cand run_id db = (db', r) \<Longrightarrow>
    reconciled ft s ex base (case r of Inl e \<Rightarrow> fail_status e db' | Inr _ \<Rightarrow> db')
      (matched \<union> run_window env args (sg_slug s) ex cand (rd_checkpoint db) db')"

lemma fail_status_ok: "verified_ok ft s base matched db \<Longrightarrow> verified_ok ft s base matched (fail_status e db)"
  by (simp add: verified_ok_def fail_status_def)

lemma reconciled_verified: "reconciled ft s ex base db matched \<Longrightarrow> is_i64 (sg_st_ms s) \<Longrightarrow> verified_ok ft s base matched db"
proof (induction rule: reconciled.induct)
  case (Begin db scanned c w)
  then show ?case unfolding verified_ok_def by (intro exI [of _ scanned] exI [of _ c] exI [of _ w]) simp
next
  case (History db matched client args stored_symbols st' err)
  then obtain scanned c w where ok: "synced ft s (rd_store db) scanned" "rd_checkpoint db = Some c"
    "sr_watermarks (rd_store db) Trades = Some w" "cp_aligned_from_ms c \<le> cp_verified_through_ms c"
    "cp_verified_through_ms c \<le> w" "{base<..cp_verified_through_ms c} \<subseteq> matched" "0 < cp_aligned_from_ms c"
    by (auto simp: verified_ok_def)
  from sync_strategy_synced [OF History(5) ok(1) History(2,3) _ ok(3)] History(4)
  obtain scanned' w' where "synced ft s st' scanned'" "sr_watermarks st' Trades = Some w'" "w \<le> w'" by auto
  then show ?case using ok unfolding verified_ok_def by fastforce
next
  case (Run db matched args env cand run_id db' r)
  then have ok: "verified_ok ft s base matched db" by blast
  then obtain c where c: "rd_checkpoint db = Some c" "0 < cp_aligned_from_ms c" "cp_aligned_from_ms c \<le> cp_verified_through_ms c"
    by (auto simp: verified_ok_def)
  have "run_inv ft s base matched c db" using ok c(1) by (simp add: run_inv_def)
  from runsD [OF reconcile_inv [OF Run(2-4) c(2,3) Run.prems] this Run(5)]
  have post: "verified_ok ft s base (matched \<union> run_window env args (sg_slug s) ex cand (Some c) db') db'" by (cases r) auto
  then show ?case unfolding c(1) by (cases r) (simp_all add: fail_status_ok)
qed


section \<open>A run that verifies one trade\<close>

definition sample_fill :: uniform_row where
  "sample_fill = \<lparr>un_update_ts = Some 2000000, un_symbol = Some ''BTC-USDT'', un_trading_venue = Some ''BybitMargin'', un_side = Some ''BUY'',
     un_amount_update = Some (Fin 2), un_client_order_id = Some 1\<rparr>"

definition sample_env :: recon_env where
  "sample_env = \<lparr>re_read_uniform = (\<lambda>_ _. Inr []), re_read_orders = (\<lambda>_ _. Inr []), re_read_unmatched = (\<lambda>_ _. Inr []),
     re_exporter = (\<lambda>_ _ _. Inr ([sample_fill], [])), re_client = Inl ''offline'', re_float_text = (\<lambda>_. []), re_stored_symbols = (\<lambda>_. []),
     re_num = id, re_day = (\<lambda>_. Some ''1970-01-01''), re_column_exists = (\<lambda>t c. t = ''trades'' \<and> c = ''event_time_ms''),
     re_liang_trades = [], re_listing = id\<rparr>"

definition sample_recon_args :: recon_args where
  "sample_recon_args = \<lparr>ra_settlement_gap_minutes = 10, ra_overlap_minutes = 0, ra_baseline_minutes = 60, ra_end_ms = None,
     ra_qty_epsilon = 0, ra_rel_epsilon = 0, ra_skip_sync = True\<rparr>"

definition sample_export :: export_strategy where
  "sample_export = \<lparr>ex_slug = ''fr'', ex_schema = ''fr'', ex_exchange = ''bybit'', ex_account = ''a'', ex_class = FrClass\<rparr>"

definition recon_sample_db :: recon_db where
  "recon_sample_db = \<lparr>rd_store = one_trade_store, rd_checkpoint = Some \<lparr>cp_aligned_from_ms = 10, cp_verified_through_ms = 10\<rparr>,
     rd_exclusions = [], rd_status = None\<rparr>"

definition sample_csv :: trade_csv_row where
  "sample_csv = \<lparr>tc_sid = 1, tc_key = ''bybitspot'', tc_symbol = ''BTCUSDT'', tc_id = ''7'', tc_order_id = ''9'', tc_side = ''buy'',
     tc_price = ''2'', tc_qty = ''2'', tc_amountu = ''2'', tc_fees = ''2'', tc_commission_asset = ''USDT'', tc_realized_pnl = None,
     tc_ts = 2000, tc_ttype = ''taker'', tc_position_side = ''BOTH''\<rparr>"

lemma sample_exported: "export_pg sample_env sample_export 10 3000 one_trade_store = Inr [(''trades_1970-01-01.csv'', [sample_csv])]"
proof -
  have s: "market_sid ''spot'' = 1" "trade_key ''bybit'' 1 = ''bybitspot''" "valid_schema ''trades''"
    "csv_name ''trades'' ''1970-01-01'' = ''trades_1970-01-01.csv''" by code_simp+
  have r: "export_row id (\<lambda>_. Some ''1970-01-01'') ''bybit'' sample_row = Inr sample_csv"
    by (simp add: export_row_def validate_timestamp_def sample_row_def s sample_csv_def Let_def)
  have w: "write_trade_csv (\<lambda>_. Some ''1970-01-01'') [sample_csv] = Inr [(''trades_1970-01-01.csv'', [sample_csv])]"
    by (simp add: write_trade_csv_def group_by_day_def bt_push_def ok_or_def s)
  have t: "trade_storage_of (\<lambda>t c. t = ''trades'' \<and> c = ''event_time_ms'') ''fr'' = Inr (GenericTrades ''trades'')"
    by (simp add: trade_storage_of_def)
  have q: "filter (\<lambda>r. time_filter (Some 10) (Some 3000) (ht_event_time_ms r)) (map (fst \<circ> snd) (sr_trades one_trade_store)) = [sample_row]"
    by (simp add: one_trade_store_def advance_watermark_def trade_entry_def time_filter_def) (simp add: sample_row_def)
  show ?thesis
    by (simp add: export_pg_def export_trades_def validate_time_range_def sample_env_def sample_export_def t load_trade_rows_def s q r w)
qed

definition sample_group :: group_key where
  "sample_group = (SpotMarket, ''BTCUSDT'', ''buy'')"

lemma sample_stat: "grow_stat (Fin 2) 1 oid no_stat = \<lparr>stt_qty = Fin 2, stt_events = 1, stt_orders = {oid}\<rparr>"
  using rnd_of_int [of 2] by (simp add: grow_stat_def no_stat_def)

lemma sample_compared:
  "compare_window sample_env sample_recon_args ''fr'' [(''trades_1970-01-01.csv'', [sample_csv])] [sample_fill] [] {} 10 3000 =
     Inr \<lparr>rw_pg = [(sample_group, \<lparr>stt_qty = Fin 2, stt_events = 1, stt_orders = {''9''}\<rparr>)],
       rw_uniform = [(sample_group, \<lparr>stt_qty = Fin 2, stt_events = 1, stt_orders = {''1''}\<rparr>)], rw_unmatched = [],
       rw_represented = 0, rw_unmatched_only = 0\<rparr>"
proof -
  have p: "parse_f64 ''2'' = Some (Fin 2)" using parse_two by (simp add: parse_number_def split: option.splits if_splits)
  have s: "str_trim ''1'' = ''1''" "is_trade_csv ''trades_1970-01-01.csv''" "int_text 1 = ''1''"
    "selected_symbols ''fr'' = None" "market_from_venue ''BybitMargin'' = Inr SpotMarket" by code_simp+
  have g: "group_key_of SpotMarket ''BTCUSDT'' ''buy'' = Inr sample_group" "group_key_of SpotMarket ''BTC-USDT'' ''BUY'' = Inr sample_group"
    unfolding sample_group_def by code_simp+
  have row: "pg_row 10 3000 None {} sample_csv ([], \<lambda>_. None) =
      Inr ([(sample_group, \<lparr>stt_qty = Fin 2, stt_events = 1, stt_orders = {''9''}\<rparr>)],
        [(SpotMarket, group_symbol sample_group, ''7'') \<mapsto> (sample_group, ''9'', Fin 2)])"
    using sample_stat [of "''9''"]
    by (simp add: pg_row_def sample_csv_def p s g left_out_def add_stat_def stat_of_def market_from_sid_def ok_or_def zero_f64_def)
  have pg: "pg_groups [(''trades_1970-01-01.csv'', [sample_csv])] 10 3000 None {} =
      Inr [(sample_group, \<lparr>stt_qty = Fin 2, stt_events = 1, stt_orders = {''9''}\<rparr>)]"
    by (simp add: pg_groups_def s row)
  have m: "micro_range 10 3000 = Inr (10000, 3000999)" by (simp add: micro_range_def checked_i64_def is_i64_def i64_min_def i64_max_def)
  have u: "uniform_groups [sample_fill] 10000 3000999 0 None =
      Inr ([(sample_group, \<lparr>stt_qty = Fin 2, stt_events = 1, stt_orders = {''1''}\<rparr>)], (\<lambda>_. {})(sample_group := {1}))"
    using sample_stat [of "''1''"]
    by (simp add: uniform_groups_def uniform_row_step_def sample_fill_def ok_or_def group_of_columns_def s g left_out_def add_stat_def
        stat_of_def zero_f64_def)
  show ?thesis using pg m u
    by (simp add: compare_window_def s sample_env_def sample_recon_args_def unmatched_groups_def)
qed

lemma sample_equal:
  assumes "compare_window sample_env sample_recon_args ''fr'' [(''trades_1970-01-01.csv'', [sample_csv])] [sample_fill] [] {} 10 3000 = Inr w"
  shows "group_equal sample_recon_args w key"
proof -
  have "Fin 2 + (0 :: f64) = Fin 2" "rnd 0 = Fin 0" using rnd_of_int [of 2] by (simp_all add: f64_defs)
  then show ?thesis using assms sample_compared zero_equal [of 0 0]
    by (auto simp: group_equal_def stat_of_def no_stat_def quantities_equal_def sample_recon_args_def f64_defs)
qed

lemma sample_run: "\<exists>db' sm. reconcile sample_env sample_recon_args sample_strategy sample_export 5000 ''r'' recon_sample_db = (db', Inr sm) \<and>
    rd_checkpoint db' = Some \<lparr>cp_aligned_from_ms = 10, cp_verified_through_ms = 3000\<rparr> \<and> rd_store db' = one_trade_store \<and> su_aligned sm"
proof -
  have w: "sr_watermarks one_trade_store Trades = Some 3000"
    by (simp add: one_trade_store_def advance_watermark_def empty_store_def)
  have ss: "recon_scan_start sample_recon_args \<lparr>cp_aligned_from_ms = 10, cp_verified_through_ms = 10\<rparr> = Inr 10"
    by (simp add: recon_scan_start_def sample_recon_args_def checked_i64_def is_i64_def i64_min_def i64_max_def signed_divide_int_def)
  have b: "checked_i64 what (ra_baseline_minutes sample_recon_args * 60000) = Inr 3600000" for what
    by (simp add: checked_i64_def sample_recon_args_def is_i64_def i64_min_def i64_max_def)
  have o: "export_orders sample_env ''fr'' x 3000 = Inr ([sample_fill], [])" if "x = 10" for x
    using that by (simp add: export_orders_def micro_range_def checked_i64_def is_i64_def i64_min_def i64_max_def is_center_def sample_env_def)
  obtain win where win: "compare_window sample_env sample_recon_args ''fr'' [(''trades_1970-01-01.csv'', [sample_csv])] [sample_fill] [] {} 10 3000
      = Inr win" "length (rw_pg win) = 1" "length (rw_uniform win) = 1" "rw_unmatched win = []"
    "sum_list (map (stt_events \<circ> snd) (rw_pg win)) = 1" "sum_list (map (stt_events \<circ> snd) (rw_uniform win)) = 1"
    "fst ` set (rw_pg win) = {sample_group}" "fst ` set (rw_uniform win) = {sample_group}"
    using sample_compared by simp
  have "0 \<le> ra_qty_epsilon sample_recon_args" by (simp add: sample_recon_args_def zero_f64_def)
  then have mm: "filter (\<lambda>r. gr_status r = ''MISMATCH'') (compare_groups (rw_pg win) (rw_uniform win) (rw_unmatched win)
      (ra_qty_epsilon sample_recon_args) (ra_rel_epsilon sample_recon_args)) = []"
    using compare_groups_match sample_equal [OF win(1)] by blast
  have len: "length (compare_groups (rw_pg win) (rw_uniform win) (rw_unmatched win) e1 e2) \<le> 2" for e1 e2
    using win(2-4) length_remdups_leq [of "map fst (rw_pg win) @ map fst (rw_uniform win)"] by (simp add: compare_groups_def)
  have args: "sg_slug sample_strategy = ''fr''" "ra_skip_sync sample_recon_args" by (simp_all add: sample_strategy_def sample_recon_args_def)
  have fin: "\<exists>db' sm. finish_window sample_recon_args \<lparr>cp_aligned_from_ms = 10, cp_verified_through_ms = 10\<rparr> None 10 5000 3000 3000 win db
      = (db', Inr sm) \<and> rd_checkpoint db' = Some \<lparr>cp_aligned_from_ms = 10, cp_verified_through_ms = 3000\<rparr> \<and>
      rd_store db' = one_trade_store \<and> su_aligned sm"
    if "db = \<lparr>rd_store = one_trade_store, rd_checkpoint = Some \<lparr>cp_aligned_from_ms = 10, cp_verified_through_ms = 10\<rparr>,
      rd_exclusions = [], rd_status = st\<rparr>" for db st
    unfolding finish_window_def mm Let_def using that win(5,6) len [of "ra_qty_epsilon sample_recon_args" "ra_rel_epsilon sample_recon_args"]
    by (simp add: bind_db_def lift_db_def write_db_def advance_checkpoint_def complete_status_def count_fits_def)
  show ?thesis
    by (simp add: fin [OF refl] win(1) sample_exported reconcile_def reconcile_window_def args bind_db_def lift_db_def write_db_def read_db_def start_status_def set_phase_def
        load_checkpoint_def load_trade_exclusions_def recon_sample_db_def w ss b o saturating_sub_i64_def clamp_i64_def i64_min_def i64_max_def)
qed


end
