(* ===== verification/IntraSync.thy ===== *)
theory IntraSync
  imports MatchProperties Reconcile
begin

text \<open>
  \<open>src/src/bin/sync_intra_orders.rs\<close>, the aggregates of orders: rows of order events are folded into one aggregate per order, which is
  merged into the stored one.  The persist service is an argument, nullable columns are options.  A sum of doubles that overflows is an
  error in PostgreSQL, not in Rust.  The main theorem: the stored aggregates do not depend on where runs divide the events.
\<close>

section \<open>Aggregates of order events\<close>

record lifecycle =
  lc_venue :: string
  lc_client_order_id :: int
  lc_first_source_ts_us :: int
  lc_last_source_ts_us :: int
  lc_mkt_ts_us :: "int option"
  lc_mkt_source_ts_us :: "int option"
  lc_create_ts_us :: int
  lc_new_ts_us :: "int option"
  lc_new_source_ts_us :: "int option"
  lc_update_ts_us :: int
  lc_terminal_ts_us :: "int option"
  lc_terminal_ts_local_us :: "int option"
  lc_terminal_source_ts_us :: "int option"
  lc_last_fill_update_ts_us :: "int option"
  lc_symbol :: string
  lc_side :: string
  lc_price :: f64
  lc_price_offset :: f64
  lc_amount_init :: f64
  lc_filled_amount :: f64
  lc_fill_notional :: f64
  lc_status :: string
  lc_from_key :: string
  lc_event_count :: int
  lc_terminal :: bool

record order_row =
  or_ts_us :: "int option"
  or_client_order_id :: "int option"
  or_trading_venue :: "string option"
  or_mkt_ts :: "int option"
  or_create_ts :: "int option"
  or_update_ts :: "int option"
  or_local_ts :: "int option"
  or_symbol :: "string option"
  or_side :: "string option"
  or_price :: "f64 option"
  or_price_offset :: "f64 option"
  or_amount_init :: "f64 option"
  or_amount_update :: "f64 option"
  or_status :: "string option"
  or_from_key :: "string option"

definition positive_timestamp :: "int \<Rightarrow> int option" where
  "positive_timestamp v = (if 0 < v then Some v else None)"

definition first_positive_timestamp :: "int \<Rightarrow> int \<Rightarrow> int" where
  "first_positive_timestamp current incoming =
     (if 0 < current \<and> 0 < incoming then min current incoming else if \<not> 0 < current \<and> 0 < incoming then incoming else current)"

definition earliest_optional_timestamp :: "int option \<Rightarrow> int option \<Rightarrow> int option" where
  "earliest_optional_timestamp current incoming =
     (case (current, incoming) of (Some a, Some b) \<Rightarrow> Some (min a b) | _ \<Rightarrow> if current = None then incoming else current)"

definition latest_optional_timestamp :: "int option \<Rightarrow> int option \<Rightarrow> int option" where
  "latest_optional_timestamp current incoming =
     (case (current, incoming) of (Some a, Some b) \<Rightarrow> Some (max a b) | _ \<Rightarrow> if current = None then incoming else current)"

definition should_replace_first_event :: "int option \<Rightarrow> int \<Rightarrow> bool" where
  "should_replace_first_event current_source incoming_source =
     (case current_source of None \<Rightarrow> True | Some current \<Rightarrow> incoming_source < current)"

definition fill_update_ts :: "string \<Rightarrow> f64 \<Rightarrow> int \<Rightarrow> int option" where
  "fill_update_ts status amount_update update_ts =
     (if 0 < amount_update \<or> eq_ignore_ascii_case status ''FILLED'' then Some update_ts else None)"

definition is_terminal :: "string \<Rightarrow> bool" where
  "is_terminal status \<longleftrightarrow>
     to_ascii_uppercase status \<in> {''FILLED'', ''CANCELED'', ''CANCELLED'', ''EXPIRED'', ''EXPIRED_IN_MATCH'', ''REJECTED''}"

text \<open>The columns of a row that are read whatever the order's state, after the null checks; \<open>None\<close> for a venue that is skipped.\<close>

record order_update =
  ou_key :: "string \<times> int"
  ou_source :: int
  ou_market :: "int option"
  ou_create :: int
  ou_update :: int
  ou_local :: int
  ou_status :: string
  ou_fill :: f64
  ou_price :: f64

definition read_update :: "order_row \<Rightarrow> string + order_update option" where
  "read_update row =
     bind_res (ok_or ''null trading_venue'' (or_trading_venue row)) (\<lambda>venue.
     if venue \<notin> {''BinanceMargin'', ''BinanceFutures'', ''BybitMargin'', ''BybitFutures''} then Inr None
     else bind_res (ok_or ''null client_order_id'' (or_client_order_id row)) (\<lambda>cid.
       bind_res (ok_or ''null ts_us'' (or_ts_us row)) (\<lambda>source.
       bind_res (ok_or ''null mkt_ts'' (or_mkt_ts row)) (\<lambda>market.
       bind_res (ok_or ''null create_ts'' (or_create_ts row)) (\<lambda>create.
       bind_res (ok_or ''null update_ts'' (or_update_ts row)) (\<lambda>update.
       bind_res (ok_or ''null local_ts'' (or_local_ts row)) (\<lambda>local.
       bind_res (ok_or ''null status'' (or_status row)) (\<lambda>status.
       bind_res (ok_or ''null amount_update'' (or_amount_update row)) (\<lambda>fill.
       if \<not> is_finite fill \<or> fill < 0 then Inl ''invalid amount_update''
       else bind_res (ok_or ''null price'' (or_price row)) (\<lambda>price.
         Inr (Some \<lparr>ou_key = (venue, cid), ou_source = source, ou_market = positive_timestamp market, ou_create = create,
           ou_update = update, ou_local = local, ou_status = status, ou_fill = fill, ou_price = price\<rparr>)))))))))))"

definition new_event :: "order_update \<Rightarrow> int option" where
  "new_event u = (if eq_ignore_ascii_case (ou_status u) ''NEW'' then positive_timestamp (ou_update u) else None)"

definition terminal_event :: "order_update \<Rightarrow> int option" where
  "terminal_event u = (if is_terminal (ou_status u) then positive_timestamp (ou_update u) else None)"

definition terminal_local :: "order_update \<Rightarrow> int option" where
  "terminal_local u = (if terminal_event u = None then None else positive_timestamp (ou_local u))"

definition only_if :: "'a option \<Rightarrow> 'b \<Rightarrow> 'b option" where
  "only_if x y = map_option (\<lambda>_. y) x"

definition fresh_lifecycle :: "order_row \<Rightarrow> order_update \<Rightarrow> string + lifecycle" where
  "fresh_lifecycle row u =
     bind_res (ok_or ''null symbol'' (or_symbol row)) (\<lambda>symbol.
     bind_res (ok_or ''null side'' (or_side row)) (\<lambda>sd.
     bind_res (ok_or ''null price_offset'' (or_price_offset row)) (\<lambda>price_offset.
     bind_res (ok_or ''null amount_init'' (or_amount_init row)) (\<lambda>amount_init.
       Inr \<lparr>lc_venue = fst (ou_key u), lc_client_order_id = snd (ou_key u), lc_first_source_ts_us = ou_source u,
         lc_last_source_ts_us = ou_source u, lc_mkt_ts_us = ou_market u, lc_mkt_source_ts_us = only_if (ou_market u) (ou_source u),
         lc_create_ts_us = ou_create u, lc_new_ts_us = new_event u, lc_new_source_ts_us = only_if (new_event u) (ou_source u),
         lc_update_ts_us = ou_update u, lc_terminal_ts_us = terminal_event u, lc_terminal_ts_local_us = terminal_local u,
         lc_terminal_source_ts_us = only_if (terminal_event u) (ou_source u),
         lc_last_fill_update_ts_us = fill_update_ts (ou_status u) (ou_fill u) (ou_update u), lc_symbol = symbol,
         lc_side = to_ascii_lowercase sd, lc_price = ou_price u, lc_price_offset = price_offset, lc_amount_init = amount_init,
         lc_filled_amount = ou_fill u, lc_fill_notional = ou_fill u * ou_price u, lc_status = ou_status u,
         lc_from_key = or_text (or_from_key row) [], lc_event_count = 1, lc_terminal = is_terminal (ou_status u)\<rparr>))))"

text \<open>The parts of the update of an aggregate: first events by source time, sums, and the attributes of the latest update.\<close>

definition fold_first_events :: "order_update \<Rightarrow> lifecycle \<Rightarrow> lifecycle" where
  "fold_first_events u a =
     (let a = a\<lparr>lc_first_source_ts_us := min (lc_first_source_ts_us a) (ou_source u),
            lc_last_source_ts_us := max (lc_last_source_ts_us a) (ou_source u),
            lc_create_ts_us := first_positive_timestamp (lc_create_ts_us a) (ou_create u)\<rparr>;
          a = (if ou_market u \<noteq> None \<and> should_replace_first_event (lc_mkt_source_ts_us a) (ou_source u)
            then a\<lparr>lc_mkt_ts_us := ou_market u, lc_mkt_source_ts_us := Some (ou_source u)\<rparr> else a);
          a = (if new_event u \<noteq> None \<and> should_replace_first_event (lc_new_source_ts_us a) (ou_source u)
            then a\<lparr>lc_new_ts_us := new_event u, lc_new_source_ts_us := Some (ou_source u)\<rparr> else a)
      in if terminal_event u = None then a
         else if should_replace_first_event (lc_terminal_source_ts_us a) (ou_source u)
         then a\<lparr>lc_terminal_ts_us := terminal_event u, lc_terminal_ts_local_us := terminal_local u,
           lc_terminal_source_ts_us := Some (ou_source u)\<rparr>
         else if lc_terminal_ts_us a = terminal_event u
         then a\<lparr>lc_terminal_ts_local_us := earliest_optional_timestamp (lc_terminal_ts_local_us a) (terminal_local u)\<rparr>
         else a)"

definition fold_sums :: "order_update \<Rightarrow> lifecycle \<Rightarrow> lifecycle" where
  "fold_sums u a = a\<lparr>lc_filled_amount := lc_filled_amount a + ou_fill u,
     lc_fill_notional := lc_fill_notional a + ou_fill u * ou_price u, lc_event_count := lc_event_count a + 1,
     lc_terminal := lc_terminal a \<or> is_terminal (ou_status u),
     lc_last_fill_update_ts_us := latest_optional_timestamp (lc_last_fill_update_ts_us a)
       (fill_update_ts (ou_status u) (ou_fill u) (ou_update u))\<rparr>"

definition fold_latest :: "order_row \<Rightarrow> order_update \<Rightarrow> int \<times> int \<Rightarrow> lifecycle \<Rightarrow> string + lifecycle" where
  "fold_latest row u previous_latest a =
     (if (ou_update u, ou_source u) < previous_latest then Inr a
      else bind_res (ok_or ''null symbol'' (or_symbol row)) (\<lambda>symbol.
        bind_res (ok_or ''null side'' (or_side row)) (\<lambda>sd.
        bind_res (ok_or ''null price_offset'' (or_price_offset row)) (\<lambda>price_offset.
        bind_res (ok_or ''null amount_init'' (or_amount_init row)) (\<lambda>amount_init.
          Inr (a\<lparr>lc_update_ts_us := ou_update u, lc_symbol := symbol, lc_side := to_ascii_lowercase sd, lc_price := ou_price u,
            lc_price_offset := price_offset, lc_amount_init := amount_init, lc_status := ou_status u,
            lc_from_key := or_text (or_from_key row) []\<rparr>))))))"

definition fold_existing :: "order_row \<Rightarrow> order_update \<Rightarrow> lifecycle \<Rightarrow> string + lifecycle" where
  "fold_existing row u a =
     fold_latest row u (lc_update_ts_us a, lc_last_source_ts_us a) (fold_sums u (fold_first_events u a))"

type_synonym lifecycle_map = "((string \<times> int) \<times> lifecycle) list"

definition fold_row :: "order_row \<Rightarrow> lifecycle_map \<Rightarrow> string + lifecycle_map" where
  "fold_row row m =
     bind_res (read_update row) (\<lambda>r.
       case r of
         None \<Rightarrow> Inr m
       | Some u \<Rightarrow>
           bind_res (case map_of m (ou_key u) of None \<Rightarrow> fresh_lifecycle row u | Some a \<Rightarrow> fold_existing row u a) (\<lambda>a.
             Inr (bt_insert (ou_key u) a m)))"

definition fold_frame :: "order_row list \<Rightarrow> lifecycle_map \<Rightarrow> string + lifecycle_map" where
  "fold_frame rows m = fold_res fold_row rows m"

definition fetch_lifecycle_deltas :: "(int \<Rightarrow> int \<Rightarrow> string + order_row list) \<Rightarrow> int \<Rightarrow> int \<Rightarrow> int \<Rightarrow> string + lifecycle list \<times> nat" where
  "fetch_lifecycle_deltas read source_chunk_minutes start_us end_us =
     (if start_us = end_us then Inr ([], 0)
      else bind_res (checked_i64 ''source chunk overflow'' (source_chunk_minutes * 60000000)) (\<lambda>chunk_us.
        bind_res (fold_res (\<lambda>(a, b) (m, n). bind_res (read a b) (\<lambda>rows. bind_res (fold_frame rows m) (\<lambda>m. Inr (m, n + length rows))))
          (center_windows chunk_us start_us end_us) ([], 0)) (\<lambda>(m, n). Inr (map snd m, n))))"

section \<open>Merging into the stored aggregates\<close>

definition pg_add :: "f64 \<Rightarrow> f64 \<Rightarrow> string + f64" where
  "pg_add x y = (if is_finite x \<and> is_finite y \<and> \<not> is_finite (x + y) then Inl ''value out of range: overflow'' else Inr (x + y))"

definition replaces :: "int option \<Rightarrow> int option \<Rightarrow> bool" where
  "replaces new_source old_source \<longleftrightarrow>
     (case new_source of None \<Rightarrow> False | Some n \<Rightarrow> (case old_source of None \<Rightarrow> True | Some e \<Rightarrow> n < e))"

definition merged_local :: "lifecycle \<Rightarrow> lifecycle \<Rightarrow> int option" where
  "merged_local old new =
     (if replaces (lc_terminal_source_ts_us new) (lc_terminal_source_ts_us old) then lc_terminal_ts_local_us new
      else if lc_terminal_ts_us old \<noteq> None \<and> lc_terminal_ts_us old = lc_terminal_ts_us new
      then earliest_optional_timestamp (lc_terminal_ts_local_us old) (lc_terminal_ts_local_us new)
      else lc_terminal_ts_local_us old)"

definition merge_lifecycle :: "lifecycle \<Rightarrow> lifecycle \<Rightarrow> string + lifecycle" where
  "merge_lifecycle old new =
     bind_res (pg_add (lc_filled_amount old) (lc_filled_amount new)) (\<lambda>filled.
     bind_res (pg_add (lc_fill_notional old) (lc_fill_notional new)) (\<lambda>notional.
       let mkt = replaces (lc_mkt_source_ts_us new) (lc_mkt_source_ts_us old);
           newer = replaces (lc_new_source_ts_us new) (lc_new_source_ts_us old);
           ended = replaces (lc_terminal_source_ts_us new) (lc_terminal_source_ts_us old)
       in Inr (new\<lparr>lc_venue := lc_venue old, lc_client_order_id := lc_client_order_id old,
            lc_first_source_ts_us := min (lc_first_source_ts_us old) (lc_first_source_ts_us new),
            lc_last_source_ts_us := max (lc_last_source_ts_us old) (lc_last_source_ts_us new),
            lc_mkt_ts_us := (if mkt then lc_mkt_ts_us new else lc_mkt_ts_us old),
            lc_mkt_source_ts_us := (if mkt then lc_mkt_source_ts_us new else lc_mkt_source_ts_us old),
            lc_create_ts_us := (if lc_create_ts_us old \<le> 0 \<and> 0 < lc_create_ts_us new then lc_create_ts_us new
              else if lc_create_ts_us new \<le> 0 then lc_create_ts_us old else min (lc_create_ts_us old) (lc_create_ts_us new)),
            lc_new_ts_us := (if newer then lc_new_ts_us new else lc_new_ts_us old),
            lc_new_source_ts_us := (if newer then lc_new_source_ts_us new else lc_new_source_ts_us old),
            lc_update_ts_us := max (lc_update_ts_us old) (lc_update_ts_us new),
            lc_terminal_ts_us := (if ended then lc_terminal_ts_us new else lc_terminal_ts_us old),
            lc_terminal_ts_local_us := merged_local old new,
            lc_terminal_source_ts_us := (if ended then lc_terminal_source_ts_us new else lc_terminal_source_ts_us old),
            lc_last_fill_update_ts_us := latest_optional_timestamp (lc_last_fill_update_ts_us old) (lc_last_fill_update_ts_us new),
            lc_filled_amount := filled, lc_fill_notional := notional,
            lc_event_count := lc_event_count old + lc_event_count new, lc_terminal := lc_terminal old \<or> lc_terminal new\<rparr>)))"

definition lifecycle_key :: "lifecycle \<Rightarrow> string \<times> int" where
  "lifecycle_key l = (lc_venue l, lc_client_order_id l)"

definition upsert_lifecycle :: "lifecycle \<Rightarrow> lifecycle_map \<Rightarrow> string + lifecycle_map" where
  "upsert_lifecycle row table =
     bind_res (case map_of table (lifecycle_key row) of None \<Rightarrow> Inr row | Some old \<Rightarrow> merge_lifecycle old row) (\<lambda>l.
       Inr (AList.update (lifecycle_key row) l table))"

definition upsert_lifecycles :: "lifecycle list \<Rightarrow> lifecycle_map \<Rightarrow> string + lifecycle_map" where
  "upsert_lifecycles rows table = fold_res upsert_lifecycle rows table"


section \<open>Aggregates do not depend on where runs divide the events\<close>

type_synonym event_times = "(int \<times> int) \<times> (int option \<times> int option) \<times> int \<times> (int option \<times> int option) \<times> int \<times>
  (int option \<times> int option) \<times> int option \<times> int \<times> bool"

text \<open>The times, the number of events and whether the order has ended: all of an aggregate but its sums, the attributes of the latest
  update and the local time of the end.\<close>

definition times_of :: "lifecycle \<Rightarrow> event_times" where
  "times_of l = ((lc_first_source_ts_us l, lc_last_source_ts_us l), (lc_mkt_ts_us l, lc_mkt_source_ts_us l), lc_create_ts_us l,
     (lc_new_ts_us l, lc_new_source_ts_us l), lc_update_ts_us l, (lc_terminal_ts_us l, lc_terminal_source_ts_us l),
     lc_last_fill_update_ts_us l, lc_event_count l, lc_terminal l)"

definition update_times :: "order_update \<Rightarrow> event_times" where
  "update_times u = ((ou_source u, ou_source u), (ou_market u, only_if (ou_market u) (ou_source u)), ou_create u,
     (new_event u, only_if (new_event u) (ou_source u)), ou_update u, (terminal_event u, only_if (terminal_event u) (ou_source u)),
     fill_update_ts (ou_status u) (ou_fill u) (ou_update u), 1, is_terminal (ou_status u))"

definition first_of :: "int option \<times> int option \<Rightarrow> int option \<times> int option \<Rightarrow> int option \<times> int option" where
  "first_of a b = (if replaces (snd b) (snd a) then b else a)"

fun join_times :: "event_times \<Rightarrow> event_times \<Rightarrow> event_times" where
  "join_times ((f, l), m, c, n, u, t, h, k, e) ((f', l'), m', c', n', u', t', h', k', e') =
     ((min f f', max l l'), first_of m m', first_positive_timestamp c c', first_of n n', max u u', first_of t t',
      latest_optional_timestamp h h', k + k', e \<or> e')"

lemma first_of_assoc: "first_of (first_of a b) c = first_of a (first_of b c)"
  by (cases "snd a"; cases "snd b"; cases "snd c") (auto simp: first_of_def replaces_def)

lemma latest_assoc: "latest_optional_timestamp (latest_optional_timestamp a b) c = latest_optional_timestamp a (latest_optional_timestamp b c)"
  by (cases a; cases b; cases c) (auto simp: latest_optional_timestamp_def)

lemma first_positive_assoc: "first_positive_timestamp (first_positive_timestamp a b) c = first_positive_timestamp a (first_positive_timestamp b c)"
  by (auto simp: first_positive_timestamp_def min_def)

lemma join_times_assoc: "join_times (join_times a b) c = join_times a (join_times b c)"
  by (cases a; cases b; cases c) (auto simp: first_of_assoc latest_assoc first_positive_assoc)

lemma fresh_times: "fresh_lifecycle row u = Inr a \<Longrightarrow> times_of a = update_times u \<and> lifecycle_key a = ou_key u \<and> lc_filled_amount a = ou_fill u"
  by (auto simp: fresh_lifecycle_def bind_res_Inr times_of_def update_times_def lifecycle_key_def)

lemma first_event_replace: "(x \<noteq> None \<and> should_replace_first_event old s) = replaces (only_if x s) old"
  by (cases x; cases old) (auto simp: should_replace_first_event_def replaces_def only_if_def)

lemma only_if_Some: "x \<noteq> None \<Longrightarrow> only_if x s = Some s"
  by (auto simp: only_if_def)

lemma first_of_pair: "first_of (a, b) (c, d) = (if replaces d b then c else a, if replaces d b then d else b)"
  by (simp add: first_of_def)

lemma replaced_source: "(if replaces (only_if x s) old then Some s else y) = (if replaces (only_if x s) old then only_if x s else y)"
  by (cases x) (auto simp: replaces_def only_if_def)

lemma fold_first_times:
  "times_of (fold_first_events u a) =
     ((min (lc_first_source_ts_us a) (ou_source u), max (lc_last_source_ts_us a) (ou_source u)),
      first_of (lc_mkt_ts_us a, lc_mkt_source_ts_us a) (ou_market u, only_if (ou_market u) (ou_source u)),
      first_positive_timestamp (lc_create_ts_us a) (ou_create u),
      first_of (lc_new_ts_us a, lc_new_source_ts_us a) (new_event u, only_if (new_event u) (ou_source u)), lc_update_ts_us a,
      first_of (lc_terminal_ts_us a, lc_terminal_source_ts_us a) (terminal_event u, only_if (terminal_event u) (ou_source u)),
      lc_last_fill_update_ts_us a, lc_event_count a, lc_terminal a) \<and>
   lifecycle_key (fold_first_events u a) = lifecycle_key a \<and> lc_filled_amount (fold_first_events u a) = lc_filled_amount a"
proof -
  let ?r1 = "ou_market u \<noteq> None \<and> should_replace_first_event (lc_mkt_source_ts_us a) (ou_source u)"
  let ?r2 = "new_event u \<noteq> None \<and> should_replace_first_event (lc_new_source_ts_us a) (ou_source u)"
  let ?r3 = "terminal_event u \<noteq> None \<and> should_replace_first_event (lc_terminal_source_ts_us a) (ou_source u)"
  let ?b = "a\<lparr>lc_first_source_ts_us := min (lc_first_source_ts_us a) (ou_source u),
      lc_last_source_ts_us := max (lc_last_source_ts_us a) (ou_source u),
      lc_create_ts_us := first_positive_timestamp (lc_create_ts_us a) (ou_create u),
      lc_mkt_ts_us := (if ?r1 then ou_market u else lc_mkt_ts_us a),
      lc_mkt_source_ts_us := (if ?r1 then Some (ou_source u) else lc_mkt_source_ts_us a),
      lc_new_ts_us := (if ?r2 then new_event u else lc_new_ts_us a),
      lc_new_source_ts_us := (if ?r2 then Some (ou_source u) else lc_new_source_ts_us a),
      lc_terminal_ts_us := (if ?r3 then terminal_event u else lc_terminal_ts_us a),
      lc_terminal_source_ts_us := (if ?r3 then Some (ou_source u) else lc_terminal_source_ts_us a)\<rparr>"
  have "\<exists>local. fold_first_events u a = ?b\<lparr>lc_terminal_ts_local_us := local\<rparr>"
    by (rule exI [of _ "lc_terminal_ts_local_us (fold_first_events u a)"], rule lifecycle.equality)
      (simp_all add: fold_first_events_def Let_def)
  then obtain lcl where e: "fold_first_events u a = ?b\<lparr>lc_terminal_ts_local_us := lcl\<rparr>" by blast
  show ?thesis unfolding e first_of_pair times_of_def lifecycle_key_def first_event_replace
    by (simp add: replaced_source)
qed

lemma fold_sums_times:
  "times_of (fold_sums u c) = (case times_of c of (s, m, cr, n, up, t, h, k, e) \<Rightarrow> (s, m, cr, n, up, t,
     latest_optional_timestamp h (fill_update_ts (ou_status u) (ou_fill u) (ou_update u)), k + 1, e \<or> is_terminal (ou_status u)))"
  by (simp add: times_of_def fold_sums_def)

lemma first_positive_sql: "first_positive_timestamp a b = (if a \<le> 0 \<and> 0 < b then b else if b \<le> 0 then a else min a b)"
  by (simp add: first_positive_timestamp_def)

lemma pg_add_Inr: "pg_add x y = Inr z \<Longrightarrow> z = x + y"
  by (simp add: pg_add_def split: if_splits)

lemma fold_existing_times:
  assumes "fold_existing row u a = Inr b"
  shows "times_of b = join_times (times_of a) (update_times u)" "lifecycle_key b = lifecycle_key a"
    "lc_filled_amount b = lc_filled_amount a + ou_fill u"
proof -
  let ?c = "fold_sums u (fold_first_events u a)"
  note f = fold_first_times [of u a]
  have "times_of b = (case times_of ?c of (s, m, k, n, _, r) \<Rightarrow> (s, m, k, n, max (lc_update_ts_us a) (ou_update u), r)) \<and>
      lifecycle_key b = lifecycle_key ?c \<and> lc_filled_amount b = lc_filled_amount ?c"
  proof (cases "(ou_update u, ou_source u) < (lc_update_ts_us a, lc_last_source_ts_us a)")
    case True
    then have "b = ?c" "ou_update u \<le> lc_update_ts_us a" using assms by (auto simp: fold_existing_def fold_latest_def less_prod_def)
    moreover have "lc_update_ts_us ?c = lc_update_ts_us a" using f by (simp add: fold_sums_def times_of_def)
    ultimately show ?thesis by (simp add: times_of_def)
  next
    case False
    then have "lc_update_ts_us a \<le> ou_update u" by (auto simp: less_prod_def)
    then show ?thesis using assms unfolding fold_existing_def fold_latest_def if_not_P [OF False] bind_res_Inr
      by - (elim exE conjE, drule Inr_inject, hypsubst, simp add: times_of_def lifecycle_key_def)
  qed
  then show "times_of b = join_times (times_of a) (update_times u)" "lifecycle_key b = lifecycle_key a"
    "lc_filled_amount b = lc_filled_amount a + ou_fill u"
    using f fold_sums_times [of u "fold_first_events u a"]
    by (simp_all add: times_of_def [of a] update_times_def) (simp_all add: fold_sums_def lifecycle_key_def)
qed

lemma merge_times:
  assumes "merge_lifecycle old new = Inr b"
  shows "times_of b = join_times (times_of old) (times_of new)" "lifecycle_key b = lifecycle_key old"
    "lc_filled_amount b = lc_filled_amount old + lc_filled_amount new"
  using assms unfolding merge_lifecycle_def bind_res_Inr Let_def
  by - (elim exE conjE, drule Inr_inject, hypsubst,
      simp add: times_of_def lifecycle_key_def first_of_pair first_positive_sql pg_add_Inr)+

definition join_opt :: "event_times option \<Rightarrow> event_times \<Rightarrow> event_times option" where
  "join_opt x y = Some (case x of None \<Rightarrow> y | Some x \<Rightarrow> join_times x y)"

lemma join_opt_assoc: "join_opt (join_opt x y) z = join_opt x (join_times y z)"
  by (cases x) (simp_all add: join_opt_def join_times_assoc)

definition times_at :: "lifecycle_map \<Rightarrow> string \<times> int \<Rightarrow> event_times option" where
  "times_at m k = map_option times_of (map_of m k)"

text \<open>The updates of one order among rows, in their order.\<close>

definition updates_of :: "string \<times> int \<Rightarrow> order_row list \<Rightarrow> order_update list" where
  "updates_of k rows = filter (\<lambda>u. ou_key u = k) (List.map_filter (\<lambda>row. case read_update row of Inr r \<Rightarrow> r | Inl _ \<Rightarrow> None) rows)"

lemma updates_of_simps [simp]:
  "updates_of k [] = []" "updates_of k (xs @ ys) = updates_of k xs @ updates_of k ys"
  by (simp_all add: updates_of_def map_filter_def)

lemma updates_of_Cons: "updates_of k (row # rows) =
    (case read_update row of Inr (Some u) \<Rightarrow> if ou_key u = k then u # updates_of k rows else updates_of k rows | _ \<Rightarrow> updates_of k rows)"
  by (auto simp: updates_of_def map_filter_def split: sum.splits option.splits)

definition keyed :: "lifecycle_map \<Rightarrow> bool" where
  "keyed m \<longleftrightarrow> (\<forall>(k, l) \<in> set m. lifecycle_key l = k) \<and> bt_wf m"

lemma set_bt_insert: "x \<in> set (bt_insert k v m) \<Longrightarrow> x = (k, v) \<or> x \<in> set m"
  by (induction k v m rule: bt_insert.induct) (auto split: if_splits)

lemma keyed_at: "keyed m \<Longrightarrow> map_of m k = Some l \<Longrightarrow> lifecycle_key l = k"
  unfolding keyed_def by (fastforce dest: map_of_SomeD)

lemma fold_row_Inr:
  assumes "fold_row row m = Inr m'" "keyed m"
  shows "keyed m'" "updates_of k [row] = [] \<Longrightarrow> map_of m' k = map_of m k"
    "updates_of k [row] = [u] \<Longrightarrow> \<exists>l. map_of m' k = Some l \<and> times_at m' k = join_opt (times_at m k) (update_times u) \<and>
       lc_filled_amount l = (case map_of m k of None \<Rightarrow> ou_fill u | Some a \<Rightarrow> lc_filled_amount a + ou_fill u)"
proof -
  obtain r where r: "read_update row = Inr r" using assms(1) by (auto simp: fold_row_def bind_res_Inr)
  have *: "keyed m' \<and> (updates_of k [row] = [] \<longrightarrow> map_of m' k = map_of m k) \<and>
    (updates_of k [row] = [u] \<longrightarrow> (\<exists>l. map_of m' k = Some l \<and> times_at m' k = join_opt (times_at m k) (update_times u) \<and>
       lc_filled_amount l = (case map_of m k of None \<Rightarrow> ou_fill u | Some a \<Rightarrow> lc_filled_amount a + ou_fill u)))"
  proof (cases r)
    case None
    then show ?thesis using assms r by (simp add: fold_row_def updates_of_Cons)
  next
    case (Some v)
    then obtain l where l: "(case map_of m (ou_key v) of None \<Rightarrow> fresh_lifecycle row v | Some a \<Rightarrow> fold_existing row v a) = Inr l"
      and m': "m' = bt_insert (ou_key v) l m" using assms(1) r by (auto simp: fold_row_def bind_res_Inr)
    have key: "lifecycle_key l = ou_key v" "times_of l = (case times_at m (ou_key v) of None \<Rightarrow> update_times v | Some t \<Rightarrow> join_times t (update_times v))"
      "lc_filled_amount l = (case map_of m (ou_key v) of None \<Rightarrow> ou_fill v | Some a \<Rightarrow> lc_filled_amount a + ou_fill v)"
      using l keyed_at [OF assms(2), of "ou_key v"] by (auto simp: times_at_def fold_existing_times dest: fresh_times split: option.splits)
    have "keyed m'" using assms(2) key(1) by (auto simp: keyed_def m' dest!: set_bt_insert)
    then show ?thesis using key r Some by (auto simp: updates_of_Cons m' times_at_def join_opt_def split: option.splits if_splits)
  qed
  then show "keyed m'" "updates_of k [row] = [] \<Longrightarrow> map_of m' k = map_of m k"
    "updates_of k [row] = [u] \<Longrightarrow> \<exists>l. map_of m' k = Some l \<and> times_at m' k = join_opt (times_at m k) (update_times u) \<and>
       lc_filled_amount l = (case map_of m k of None \<Rightarrow> ou_fill u | Some a \<Rightarrow> lc_filled_amount a + ou_fill u)" by blast+
qed

lemma updates_of_one: "updates_of k [row] = [] \<or> (\<exists>u. updates_of k [row] = [u])"
  by (auto simp: updates_of_Cons split: sum.splits option.splits)

lemma updates_of_Cons': "updates_of k (row # rows) = updates_of k [row] @ updates_of k rows"
  using updates_of_simps(2) [of k "[row]" rows] by simp

lemma fold_frame_times:
  assumes "fold_frame rows m = Inr m'" "keyed m"
  shows "keyed m' \<and> times_at m' k = foldl join_opt (times_at m k) (map update_times (updates_of k rows))"
  using assms
proof (induction rows arbitrary: m)
  case (Cons row rows)
  then obtain m1 where m1: "fold_row row m = Inr m1" "fold_frame rows m1 = Inr m'" by (auto simp: fold_frame_def bind_res_Inr)
  note R = fold_row_Inr [OF m1(1) Cons.prems(2)]
  have t: "times_at m1 k = foldl join_opt (times_at m k) (map update_times (updates_of k [row]))"
  proof (cases "updates_of k [row] = []")
    case True
    with R(2) [OF True] show ?thesis by (simp add: times_at_def)
  next
    case False
    then obtain u where u: "updates_of k [row] = [u]" using updates_of_one by blast
    from R(3) [OF u] have "times_at m1 k = join_opt (times_at m k) (update_times u)" by blast
    then show ?thesis unfolding u by simp
  qed
  show ?case using Cons.IH [OF m1(2) R(1)] unfolding updates_of_Cons' [of k row rows] t by simp
qed (simp add: fold_frame_def)

text \<open>Sums: the filled amount of an order is the exact sum of its fills, as long as that fits.\<close>

definition fills_exact :: "int \<Rightarrow> order_update list \<Rightarrow> bool" where
  "fills_exact g us \<longleftrightarrow> (\<forall>u \<in> set us. \<exists>q. ou_fill u = Fin q \<and> units g q \<and> 0 \<le> q)"

definition fill_sum :: "order_update list \<Rightarrow> rat" where
  "fill_sum us = sum_list (map (qval \<circ> ou_fill) us)"

definition filled_at :: "int \<Rightarrow> lifecycle_map \<Rightarrow> string \<times> int \<Rightarrow> rat \<Rightarrow> bool" where
  "filled_at g m k q \<longleftrightarrow> units g q \<and> 0 \<le> q \<and> (case map_of m k of None \<Rightarrow> q = 0 | Some l \<Rightarrow> lc_filled_amount l = Fin q)"

lemma fills_exact_Cons [simp]:
  "fills_exact g (u # us) \<longleftrightarrow> (\<exists>q. ou_fill u = Fin q \<and> units g q \<and> 0 \<le> q) \<and> fills_exact g us" "fills_exact g []"
  "fill_sum (u # us) = qval (ou_fill u) + fill_sum us" "fill_sum [] = 0"
  "fills_exact g (us @ vs) \<longleftrightarrow> fills_exact g us \<and> fills_exact g vs" "fill_sum (us @ vs) = fill_sum us + fill_sum vs"
  by (auto simp: fills_exact_def fill_sum_def)

lemma fill_sum_nonneg: "fills_exact g us \<Longrightarrow> 0 \<le> fill_sum us \<and> units g (fill_sum us)"
  by (induction us) auto

lemma exact_plus: "unit_exp g \<Longrightarrow> units g a \<Longrightarrow> units g b \<Longrightarrow> 0 \<le> a \<Longrightarrow> 0 \<le> b \<Longrightarrow> a + b \<le> max_units g \<Longrightarrow> Fin a + Fin b = Fin (a + b)"
  by (simp add: rnd_units)

lemma fold_frame_filled:
  assumes "fold_frame rows m = Inr m'" "keyed m" "unit_exp g" "filled_at g m k q" "fills_exact g (updates_of k rows)"
    "q + fill_sum (updates_of k rows) \<le> max_units g"
  shows "filled_at g m' k (q + fill_sum (updates_of k rows))"
  using assms
proof (induction rows arbitrary: m q)
  case (Cons row rows)
  then obtain m1 where m1: "fold_row row m = Inr m1" "fold_frame rows m1 = Inr m'" by (auto simp: fold_frame_def bind_res_Inr)
  note R = fold_row_Inr [OF m1(1) Cons.prems(2)]
  note split = updates_of_Cons' [of k row rows]
  have ex: "fills_exact g (updates_of k [row])" "fills_exact g (updates_of k rows)" using Cons.prems(5) unfolding split by simp_all
  have le: "q + fill_sum (updates_of k [row]) \<le> max_units g" using Cons.prems(6) fill_sum_nonneg [OF ex(2)] unfolding split by simp
  have f: "filled_at g m1 k (q + fill_sum (updates_of k [row]))"
  proof (cases "updates_of k [row] = []")
    case True
    then show ?thesis using R(2) [of k] Cons.prems(4) by (simp add: filled_at_def)
  next
    case False
    then obtain u where u: "updates_of k [row] = [u]" using updates_of_one by blast
    obtain b where b: "ou_fill u = Fin b" "units g b" "0 \<le> b" using ex(1) u by auto
    have "q + b \<le> max_units g" using le u b by simp
    then show ?thesis using R(3) [OF u] Cons.prems(4) b exact_plus [OF Cons.prems(3) _ b(2) _ b(3), of q] u
      by (auto simp: filled_at_def split: option.splits)
  qed
  show ?case using Cons.IH [OF m1(2) R(1) Cons.prems(3) f ex(2)] Cons.prems(6) unfolding split by (simp add: add.assoc)
qed (simp add: fold_frame_def)

lemma upsert_times:
  assumes "upsert_lifecycles (map snd d) t = Inr t'" "\<forall>(k, l) \<in> set d. lifecycle_key l = k" "distinct (map fst d)"
  shows "times_at t' k = (case map_of d k of None \<Rightarrow> times_at t k | Some l \<Rightarrow> join_opt (times_at t k) (times_of l))"
    "(case map_of d k of None \<Rightarrow> map_of t' k = map_of t k | Some l \<Rightarrow> \<exists>b. map_of t' k = Some b \<and>
       lc_filled_amount b = (case map_of t k of None \<Rightarrow> lc_filled_amount l | Some a \<Rightarrow> lc_filled_amount a + lc_filled_amount l))"
proof -
  have "times_at t' k = (case map_of d k of None \<Rightarrow> times_at t k | Some l \<Rightarrow> join_opt (times_at t k) (times_of l)) \<and>
    (case map_of d k of None \<Rightarrow> map_of t' k = map_of t k | Some l \<Rightarrow> \<exists>b. map_of t' k = Some b \<and>
       lc_filled_amount b = (case map_of t k of None \<Rightarrow> lc_filled_amount l | Some a \<Rightarrow> lc_filled_amount a + lc_filled_amount l))"
    using assms
  proof (induction d arbitrary: t)
    case (Cons e d)
    obtain j l where e: "e = (j, l)" "lifecycle_key l = j" using Cons.prems(2) by (cases e) auto
    obtain t1 where t1: "upsert_lifecycle l t = Inr t1" "upsert_lifecycles (map snd d) t1 = Inr t'"
      using Cons.prems(1) e by (auto simp: upsert_lifecycles_def bind_res_Inr)
    obtain b where b: "(case map_of t j of None \<Rightarrow> Inr l | Some old \<Rightarrow> merge_lifecycle old l) = Inr b" "t1 = AList.update j b t"
      using t1(1) e(2) by (auto simp: upsert_lifecycle_def bind_res_Inr)
    have at: "times_of b = the (join_opt (times_at t j) (times_of l))" "lc_filled_amount b = (case map_of t j of None \<Rightarrow> lc_filled_amount l |
        Some a \<Rightarrow> lc_filled_amount a + lc_filled_amount l)"
      using b(1) by (auto simp: times_at_def join_opt_def merge_times split: option.splits)
    have m1: "map_of t1 = (map_of t)(j \<mapsto> b)" using b(2) by (simp add: update_conv')
    have IH: "times_at t' k = (case map_of d k of None \<Rightarrow> times_at t1 k | Some l \<Rightarrow> join_opt (times_at t1 k) (times_of l)) \<and>
      (case map_of d k of None \<Rightarrow> map_of t' k = map_of t1 k | Some l \<Rightarrow> \<exists>b. map_of t' k = Some b \<and>
        lc_filled_amount b = (case map_of t1 k of None \<Rightarrow> lc_filled_amount l | Some a \<Rightarrow> lc_filled_amount a + lc_filled_amount l))"
      using Cons.IH [OF t1(2)] Cons.prems(2,3) by simp
    show ?case
    proof (cases "k = j")
      case True
      then have "map_of d k = None" using Cons.prems(3) e by (simp add: map_of_eq_None_iff)
      then show ?thesis using IH at True e m1 by (simp add: times_at_def join_opt_def)
    next
      case False
      then have "map_of t1 k = map_of t k" using m1 by simp
      moreover from this have "times_at t1 k = times_at t k" by (simp add: times_at_def)
      moreover have "map_of (e # d) k = map_of d k" using False e by simp
      ultimately show ?thesis using IH by (simp only:)
    qed
  qed (simp add: upsert_lifecycles_def)
  then show "times_at t' k = (case map_of d k of None \<Rightarrow> times_at t k | Some l \<Rightarrow> join_opt (times_at t k) (times_of l))"
    "(case map_of d k of None \<Rightarrow> map_of t' k = map_of t k | Some l \<Rightarrow> \<exists>b. map_of t' k = Some b \<and>
       lc_filled_amount b = (case map_of t k of None \<Rightarrow> lc_filled_amount l | Some a \<Rightarrow> lc_filled_amount a + lc_filled_amount l))"
    by blast+
qed


text \<open>The rows of a range of the event log, whose keys are in order, as the persist service answers half-open ranges.\<close>

definition log_rows :: "(int \<times> 'r) list \<Rightarrow> int \<Rightarrow> int \<Rightarrow> 'r list" where
  "log_rows journal a b = map snd (filter (\<lambda>(k, _). a \<le> k \<and> k < b) journal)"

definition half_open :: "(int \<times> 'r) list \<Rightarrow> (int \<Rightarrow> int \<Rightarrow> string + 'r list) \<Rightarrow> bool" where
  "half_open journal read \<longleftrightarrow> sorted (map fst journal) \<and> (\<forall>a b. read a b = Inr (log_rows journal a b))"

text \<open>Consecutive runs: each reads from the cursor of the last one to its own end, in chunks of its own size.\<close>

fun stored_runs :: "(int \<Rightarrow> int \<Rightarrow> string + order_row list) \<Rightarrow> (int \<times> int) list \<Rightarrow> int \<Rightarrow> lifecycle_map \<Rightarrow> string + lifecycle_map" where
  "stored_runs read [] start table = Inr table"
| "stored_runs read ((chunk_minutes, until) # rest) start table =
     bind_res (fetch_lifecycle_deltas read chunk_minutes start until) (\<lambda>(deltas, _).
     bind_res (upsert_lifecycles deltas table) (stored_runs read rest until))"

fun schedule_ok :: "int \<Rightarrow> (int \<times> int) list \<Rightarrow> int \<Rightarrow> bool" where
  "schedule_ok start [] stop \<longleftrightarrow> start = stop"
| "schedule_ok start ((chunk_minutes, until) # rest) stop \<longleftrightarrow>
     0 < chunk_minutes \<and> start \<le> until \<and> i64_min \<le> start \<and> until \<le> i64_max \<and> schedule_ok until rest stop"

lemma filter_split_sorted:
  "sorted (map fst (journal :: (int \<times> 'r) list)) \<Longrightarrow> a \<le> b \<Longrightarrow> b \<le> c \<Longrightarrow>
   filter (\<lambda>(k, _). a \<le> k \<and> k < c) journal = filter (\<lambda>(k, _). a \<le> k \<and> k < b) journal @ filter (\<lambda>(k, _). b \<le> k \<and> k < c) journal"
proof (induction journal)
  case (Cons e journal)
  show ?case
  proof (cases "b \<le> fst e")
    case True
    then have "filter (\<lambda>(k, _). a \<le> k \<and> k < b) journal = []" using Cons.prems(1) by (auto simp: filter_empty_conv)
    then show ?thesis using Cons True by (cases e) auto
  next
    case False
    then show ?thesis using Cons by (cases e) auto
  qed
qed simp

lemma log_rows_split: "sorted (map fst journal) \<Longrightarrow> a \<le> b \<Longrightarrow> b \<le> c \<Longrightarrow> log_rows journal a c = log_rows journal a b @ log_rows journal b c"
  by (simp add: log_rows_def filter_split_sorted [of journal a b c])

lemma log_rows_none [simp]: "log_rows journal a a = []"
  by (auto simp: log_rows_def filter_empty_conv)

text \<open>Reading a range in windows is reading the range: what holds of every window and composes holds of the range.\<close>

lemma center_windows_log:
  assumes "half_open journal read" "0 < step" "a \<le> b" "i64_min \<le> a" "b \<le> i64_max"
    and none: "\<And>s. P [] s s"
    and step: "\<And>a b s s'. f (a, b) s = Inr s' \<Longrightarrow> P (log_rows journal a b) s s'"
    and comp: "\<And>xs ys s t u. P xs s t \<Longrightarrow> P ys t u \<Longrightarrow> P (xs @ ys) s u"
    and "fold_res f (center_windows step a b) s = Inr s'"
  shows "P (log_rows journal a b) s s'"
  using assms(2-5,9)
proof (induction step a b arbitrary: s rule: center_windows.induct)
  case (1 step a b)
  have sorted: "sorted (map fst journal)" using assms(1) by (simp add: half_open_def)
  show ?case
  proof (cases "a < b")
    case True
    let ?w = "min (saturating_add_i64 a step) b"
    have w: "a \<le> ?w" "?w \<le> b" using 1(2,4,5) True by (auto simp: saturating_add_i64_def clamp_i64_def i64_min_def i64_max_def)
    have g: "0 < step \<and> a < b \<and> b \<le> i64_max" using 1(2,5) True by simp
    obtain s1 where s1: "f (a, ?w) s = Inr s1" and rest: "fold_res f (center_windows step ?w b) s1 = Inr s'"
      using 1(6) center_windows.simps [of step a b] g by (auto simp: Let_def bind_res_Inr)
    have "P (log_rows journal ?w b) s1 s'"
      by (rule 1(1) [OF g refl 1(2) w(2) _ 1(5) rest]) (use 1(4) w(1) in simp)
    with step [OF s1] show ?thesis unfolding log_rows_split [OF sorted w] by (rule comp)
  next
    case False
    then show ?thesis using 1(3,6) center_windows.simps [of step a b] none by simp
  qed
qed

lemma fold_frame_append: "fold_frame (xs @ ys) m = bind_res (fold_frame xs m) (fold_frame ys)"
  by (simp add: fold_frame_def [abs_def] fold_res_append)

definition fold_window :: "(int \<Rightarrow> int \<Rightarrow> string + order_row list) \<Rightarrow> int \<times> int \<Rightarrow> lifecycle_map \<times> nat \<Rightarrow> string + lifecycle_map \<times> nat" where
  "fold_window read = (\<lambda>(a, b) (m, n). bind_res (read a b) (\<lambda>rows. bind_res (fold_frame rows m) (\<lambda>m. Inr (m, n + length rows))))"

lemma fold_windows_log:
  assumes "half_open journal read" "0 < step" "a \<le> b" "i64_min \<le> a" "b \<le> i64_max"
    and "fold_res (fold_window read) (center_windows step a b) (m, n) = Inr (m', n')"
  shows "fold_frame (log_rows journal a b) m = Inr m'"
proof -
  have "fold_frame (log_rows journal a b) (fst (m, n)) = Inr (fst (m', n'))"
  proof (rule center_windows_log [OF assms(1-5) _ _ _ assms(6), where P = "\<lambda>rows s s'. fold_frame rows (fst s) = Inr (fst s')"])
    fix a b s s' assume "fold_window read (a, b) s = Inr s'"
    then show "fold_frame (log_rows journal a b) (fst s) = Inr (fst s')" using assms(1)
      by (cases s) (auto simp: fold_window_def half_open_def bind_res_Inr)
  qed (simp_all add: fold_frame_def [of "[]"] fold_frame_append bind_res_Inr)
  then show ?thesis by simp
qed

lemma fetched_deltas:
  assumes "fetch_lifecycle_deltas read chunk_minutes a b = Inr (d, n)" "half_open journal read" "0 < chunk_minutes" "a \<le> b" "i64_min \<le> a" "b \<le> i64_max"
  shows "\<exists>m. fold_frame (log_rows journal a b) [] = Inr m \<and> d = map snd m"
proof (cases "a = b")
  case True
  then show ?thesis using assms(1) by (simp add: fetch_lifecycle_deltas_def fold_frame_def)
next
  case False
  then obtain m where m: "fold_res (fold_window read) (center_windows (chunk_minutes * 60000000) a b) ([], 0) = Inr (m, n)" "d = map snd m"
    using assms(1) by (auto simp: fetch_lifecycle_deltas_def checked_i64_def fold_window_def bind_res_Inr split: if_splits)
  from fold_windows_log [OF assms(2) _ assms(4,5,6) m(1)] show ?thesis using assms(3) m(2) by auto
qed

lemma join_opt_Nil: "join_opt None u = Some u" "join_opt (Some v) u = Some (join_times v u)"
  by (simp_all add: join_opt_def)

lemma foldl_join_opt: "foldl join_opt x us = (case foldl join_opt None us of None \<Rightarrow> x | Some y \<Rightarrow> join_opt x y)"
proof (induction us rule: rev_induct)
  case (snoc u us)
  then show ?case by (cases "foldl join_opt None us") (simp_all add: join_opt_assoc join_opt_Nil)
qed simp

lemma keyed_Nil [simp]: "keyed []"
  by (simp add: keyed_def bt_wf_def)

lemma keyedD: "keyed m \<Longrightarrow> (\<forall>(k, l) \<in> set m. lifecycle_key l = k) \<and> distinct (map fst m)"
  by (auto simp: keyed_def bt_wf_def strict_sorted_iff)

lemma batch_times:
  assumes "fold_frame rows [] = Inr m" "upsert_lifecycles (map snd m) t = Inr t'"
  shows "times_at t' k = foldl join_opt (times_at t k) (map update_times (updates_of k rows))"
proof -
  have K: "keyed m" and m: "times_at m k = foldl join_opt None (map update_times (updates_of k rows))"
    using fold_frame_times [OF assms(1), of k] by (simp_all add: times_at_def)
  note U = upsert_times [OF assms(2) conjunct1 [OF keyedD [OF K]] conjunct2 [OF keyedD [OF K]], of k]
  show ?thesis unfolding foldl_join_opt [of "times_at t k"] m [symmetric] using U(1) by (simp add: times_at_def split: option.splits)
qed

lemma batch_filled:
  assumes "fold_frame rows [] = Inr m" "upsert_lifecycles (map snd m) t = Inr t'" "unit_exp g" "filled_at g t k q"
    "fills_exact g (updates_of k rows)" "q + fill_sum (updates_of k rows) \<le> max_units g"
  shows "filled_at g t' k (q + fill_sum (updates_of k rows))"
proof -
  let ?s = "fill_sum (updates_of k rows)"
  have K: "keyed m" using fold_frame_times [OF assms(1)] by simp
  have q: "0 \<le> q" "units g q" using assms(4) by (simp_all add: filled_at_def)
  have s: "0 \<le> ?s" "units g ?s" using fill_sum_nonneg [OF assms(5)] by simp_all
  have m: "filled_at g m k ?s"
    using fold_frame_filled [OF assms(1) _ assms(3) _ assms(5), of 0] assms(6) q by (simp add: filled_at_def)
  note U = upsert_times [OF assms(2) conjunct1 [OF keyedD [OF K]] conjunct2 [OF keyedD [OF K]], of k]
  have e: "Fin q + Fin ?s = Fin (q + ?s)" by (rule exact_plus [OF assms(3) q(2) s(2) q(1) s(1) assms(6)])
  show ?thesis
  proof (cases "map_of m k")
    case None
    then show ?thesis using U(2) m assms(4) by (simp add: filled_at_def)
  next
    case (Some l)
    then obtain b where b: "map_of t' k = Some b"
      "lc_filled_amount b = (case map_of t k of None \<Rightarrow> lc_filled_amount l | Some a \<Rightarrow> lc_filled_amount a + lc_filled_amount l)"
      using U(2) by auto
    show ?thesis using b m Some assms(4) e q s by (auto simp: filled_at_def split: option.splits)
  qed
qed

lemma schedule_le: "schedule_ok a sched b \<Longrightarrow> a \<le> b"
  by (induction a sched b rule: schedule_ok.induct) auto

text \<open>What every batch of consecutive ranges does to a table, the whole range does.\<close>

lemma stored_runs_log:
  assumes "half_open journal read"
    and none: "\<And>t. P [] t t"
    and batch: "\<And>rows m t t'. fold_frame rows [] = Inr m \<Longrightarrow> upsert_lifecycles (map snd m) t = Inr t' \<Longrightarrow> P rows t t'"
    and comp: "\<And>xs ys t u v. P xs t u \<Longrightarrow> P ys u v \<Longrightarrow> P (xs @ ys) t v"
  shows "stored_runs read sched a t = Inr t' \<Longrightarrow> schedule_ok a sched b \<Longrightarrow> P (log_rows journal a b) t t'"
proof (induction sched arbitrary: a t)
  case Nil
  then show ?case using none by simp
next
  case (Cons s rest)
  obtain c u where s: "s = (c, u)" by (cases s)
  have ok: "0 < c" "a \<le> u" "i64_min \<le> a" "u \<le> i64_max" "schedule_ok u rest b" using Cons.prems(2) by (simp_all add: s)
  obtain d n t1 where d: "fetch_lifecycle_deltas read c a u = Inr (d, n)" "upsert_lifecycles d t = Inr t1" "stored_runs read rest u t1 = Inr t'"
    using Cons.prems(1) by (auto simp: s bind_res_Inr)
  obtain m where m: "fold_frame (log_rows journal a u) [] = Inr m" "d = map snd m"
    using fetched_deltas [OF d(1) assms(1) ok(1-4)] by blast
  have "P (log_rows journal a u @ log_rows journal u b) t t'"
    by (rule comp [OF batch [OF m(1)] Cons.IH [OF d(3) ok(5)]]) (use d(2) m(2) in simp)
  then show ?case using log_rows_split [OF _ ok(2) schedule_le [OF ok(5)], of journal] assms(1) by (simp add: half_open_def)
qed

lemma stored_runs_times:
  assumes "half_open journal read" "stored_runs read sched a t = Inr t'" "schedule_ok a sched b"
  shows "times_at t' k = foldl join_opt (times_at t k) (map update_times (updates_of k (log_rows journal a b)))"
  by (rule stored_runs_log [OF assms(1) _ _ _ assms(2,3),
      where P = "\<lambda>rows t t'. times_at t' k = foldl join_opt (times_at t k) (map update_times (updates_of k rows))"])
    (auto simp: batch_times)

lemma stored_runs_filled:
  assumes "half_open journal read" "stored_runs read sched a t = Inr t'" "schedule_ok a sched b"
    and "unit_exp g" "filled_at g t k q" "fills_exact g (updates_of k (log_rows journal a b))" "q + fill_sum (updates_of k (log_rows journal a b)) \<le> max_units g"
  shows "filled_at g t' k (q + fill_sum (updates_of k (log_rows journal a b)))"
proof -
  have "\<forall>q. filled_at g t k q \<longrightarrow> fills_exact g (updates_of k (log_rows journal a b)) \<longrightarrow> q + fill_sum (updates_of k (log_rows journal a b)) \<le> max_units g \<longrightarrow>
    filled_at g t' k (q + fill_sum (updates_of k (log_rows journal a b)))"
  proof (rule stored_runs_log [OF assms(1) _ _ _ assms(2,3), where P = "\<lambda>rows t t'. \<forall>q. filled_at g t k q \<longrightarrow> fills_exact g (updates_of k rows) \<longrightarrow>
      q + fill_sum (updates_of k rows) \<le> max_units g \<longrightarrow> filled_at g t' k (q + fill_sum (updates_of k rows))"])
    fix xs ys t u v
    assume *: "\<forall>q. filled_at g t k q \<longrightarrow> fills_exact g (updates_of k xs) \<longrightarrow> q + fill_sum (updates_of k xs) \<le> max_units g \<longrightarrow>
        filled_at g u k (q + fill_sum (updates_of k xs))"
      "\<forall>q. filled_at g u k q \<longrightarrow> fills_exact g (updates_of k ys) \<longrightarrow> q + fill_sum (updates_of k ys) \<le> max_units g \<longrightarrow>
        filled_at g v k (q + fill_sum (updates_of k ys))"
    show "\<forall>q. filled_at g t k q \<longrightarrow> fills_exact g (updates_of k (xs @ ys)) \<longrightarrow> q + fill_sum (updates_of k (xs @ ys)) \<le> max_units g \<longrightarrow>
        filled_at g v k (q + fill_sum (updates_of k (xs @ ys)))"
    proof (intro allI impI)
      fix q assume a: "filled_at g t k q" "fills_exact g (updates_of k (xs @ ys))" "q + fill_sum (updates_of k (xs @ ys)) \<le> max_units g"
      have "0 \<le> fill_sum (updates_of k ys)" using a(2) fill_sum_nonneg [of g "updates_of k ys"] by simp
      then have "filled_at g u k (q + fill_sum (updates_of k xs))" using *(1) a by simp
      moreover have "q + fill_sum (updates_of k xs) + fill_sum (updates_of k ys) \<le> max_units g" using a(3) by (simp add: add.assoc)
      ultimately have "filled_at g v k (q + fill_sum (updates_of k xs) + fill_sum (updates_of k ys))"
        using spec [OF *(2), of "q + fill_sum (updates_of k xs)"] a(2) by simp
      then show "filled_at g v k (q + fill_sum (updates_of k (xs @ ys)))" by (simp add: add.assoc)
    qed
  qed (use batch_filled [OF _ _ assms(4)] in auto)
  then show ?thesis using assms(5-7) by blast
qed

definition same_filled :: "lifecycle_map \<Rightarrow> lifecycle_map \<Rightarrow> string \<times> int \<Rightarrow> bool" where
  "same_filled t u k \<longleftrightarrow> map_option lc_filled_amount (map_of t k) = map_option lc_filled_amount (map_of u k)"

lemma same_filledI: "filled_at g t k q \<Longrightarrow> filled_at g u k q \<Longrightarrow> times_at t k = times_at u k \<Longrightarrow> same_filled t u k"
  by (cases "map_of t k"; cases "map_of u k") (simp_all add: filled_at_def same_filled_def times_at_def)



definition sample_row :: "string \<Rightarrow> f64 \<Rightarrow> int \<Rightarrow> order_row" where
  "sample_row status fill ts = \<lparr>or_ts_us = Some ts, or_client_order_id = Some 7, or_trading_venue = Some ''BinanceMargin'', or_mkt_ts = Some 0,
     or_create_ts = Some 20, or_update_ts = Some ts, or_local_ts = Some ts, or_symbol = Some ''BTCUSDT'', or_side = Some ''buy'',
     or_price = Some 0, or_price_offset = Some 0, or_amount_init = Some 0, or_amount_update = Some fill, or_status = Some status,
     or_from_key = None\<rparr>"

definition sample_log :: "(int \<times> order_row) list" where
  "sample_log = [(30, sample_row ''NEW'' 0 30), (40, sample_row ''FILLED'' 0 40)]"

definition sample_read :: "int \<Rightarrow> int \<Rightarrow> string + order_row list" where
  "sample_read a b = Inr (log_rows sample_log a b)"

lemma sample_half_open: "half_open sample_log sample_read"
  by (simp add: half_open_def sample_log_def sample_read_def)

definition sample_update :: "string \<Rightarrow> int \<Rightarrow> order_update" where
  "sample_update status ts = \<lparr>ou_key = (''BinanceMargin'', 7), ou_source = ts, ou_market = None, ou_create = 20, ou_update = ts, ou_local = ts,
     ou_status = status, ou_fill = 0, ou_price = 0\<rparr>"

lemma sample_read_update: "read_update (sample_row status 0 ts) = Inr (Some (sample_update status ts))"
  by (simp add: read_update_def sample_row_def sample_update_def positive_timestamp_def ok_or_def f64_defs)

lemma sample_rows: "log_rows sample_log 20 35 = [sample_row ''NEW'' 0 30]" "log_rows sample_log 35 50 = [sample_row ''FILLED'' 0 40]"
  "log_rows sample_log 20 50 = [sample_row ''NEW'' 0 30, sample_row ''FILLED'' 0 40]"
  by (simp_all add: log_rows_def sample_log_def)

lemma sample_windows: "a < b \<Longrightarrow> b \<le> 100 \<Longrightarrow> 0 \<le> a \<Longrightarrow> 0 < n \<Longrightarrow> n < 100 \<Longrightarrow> center_windows (n * 60000000) a b = [(a, b)]"
  by (simp add: center_windows.simps [of _ a] center_windows.simps [of _ b] saturating_add_i64_def clamp_i64_def i64_min_def i64_max_def Let_def)

lemma sample_fresh: "\<exists>l. fresh_lifecycle (sample_row status 0 ts) (sample_update status ts) = Inr l \<and> lc_filled_amount l = 0 \<and> lc_fill_notional l = 0 \<and>
    lifecycle_key l = (''BinanceMargin'', 7)"
  by (simp add: fresh_lifecycle_def sample_row_def sample_update_def ok_or_def lifecycle_key_def f64_defs)

lemma sample_existing: "lc_filled_amount a = 0 \<Longrightarrow> lc_fill_notional a = 0 \<Longrightarrow> \<exists>l. fold_existing (sample_row status 0 ts) (sample_update status ts) a = Inr l"
  by (simp add: fold_existing_def fold_latest_def sample_row_def ok_or_def bind_res_def)

lemma sample_merge: "lc_filled_amount a = 0 \<Longrightarrow> lc_fill_notional a = 0 \<Longrightarrow> lc_filled_amount b = 0 \<Longrightarrow> lc_fill_notional b = 0 \<Longrightarrow> \<exists>l. merge_lifecycle a b = Inr l"
  by (simp add: merge_lifecycle_def pg_add_def Let_def bind_res_def f64_defs)

lemma sample_stored:
  "\<exists>u. stored_runs sample_read [(1, 35), (1, 50)] 20 [] = Inr u"
  "\<exists>u. stored_runs sample_read [(2, 50)] 20 [] = Inr u"
  "updates_of (''BinanceMargin'', 7) (log_rows sample_log 20 50) = [sample_update ''NEW'' 30, sample_update ''FILLED'' 40]"
proof -
  obtain l1 l2 where l: "fresh_lifecycle (sample_row ''NEW'' 0 30) (sample_update ''NEW'' 30) = Inr l1" "lc_filled_amount l1 = 0" "lc_fill_notional l1 = 0"
    "fresh_lifecycle (sample_row ''FILLED'' 0 40) (sample_update ''FILLED'' 40) = Inr l2" "lc_filled_amount l2 = 0" "lc_fill_notional l2 = 0"
    "lifecycle_key l1 = (''BinanceMargin'', 7)" "lifecycle_key l2 = (''BinanceMargin'', 7)"
    using sample_fresh by metis
  obtain l3 where l3: "fold_existing (sample_row ''FILLED'' 0 40) (sample_update ''FILLED'' 40) l1 = Inr l3" using sample_existing l by blast
  obtain l4 where l4: "merge_lifecycle l1 l2 = Inr l4" using sample_merge l by blast
  have k: "ou_key (sample_update s t) = (''BinanceMargin'', 7)" for s t by (simp add: sample_update_def)
  note d = fetch_lifecycle_deltas_def checked_i64_def is_i64_def i64_min_def i64_max_def sample_read_def sample_rows fold_frame_def fold_row_def
    sample_read_update k upsert_lifecycles_def upsert_lifecycle_def
  have w: "center_windows 60000000 20 35 = [(20, 35)]" "center_windows 60000000 35 50 = [(35, 50)]" "center_windows 120000000 20 50 = [(20, 50)]"
    using sample_windows [of 20 35 1] sample_windows [of 35 50 1] sample_windows [of 20 50 2] by simp_all
  show "\<exists>u. stored_runs sample_read [(1, 35), (1, 50)] 20 [] = Inr u" by (simp add: d w l l3 l4)
  show "\<exists>u. stored_runs sample_read [(2, 50)] 20 [] = Inr u" by (simp add: d w l l3 l4)
  show "updates_of (''BinanceMargin'', 7) (log_rows sample_log 20 50) = [sample_update ''NEW'' 30, sample_update ''FILLED'' 40]"
    by (simp add: sample_rows updates_of_Cons sample_read_update k)
qed


end
