(* ===== verification/IntraSynthesis.thy ===== *)
theory IntraSynthesis
  imports IntraSync
begin

text \<open>
  The rest of a run of \<open>src/src/bin/sync_intra_orders.rs\<close>: the events of the orders that ended, the stored orders, hedges and
  watermarks, the transaction and the run around it, and what holds of the stored synthesis whatever runs fail or overlap.  Rows that
  SQL leaves unordered come in the order of the table.
\<close>

section \<open>The events of ended orders\<close>

text \<open>\<open>str::rsplit_once\<close>.\<close>

fun rsplit_once :: "string \<Rightarrow> string \<Rightarrow> (string \<times> string) option" where
  "rsplit_once pat [] = (if pat = [] then Some ([], []) else None)"
| "rsplit_once pat (c # s) =
     (case rsplit_once pat s of
        Some (a, b) \<Rightarrow> Some (c # a, b)
      | None \<Rightarrow> if pat = take (length pat) (c # s) then Some ([], drop (length pat) (c # s)) else None)"

definition parse_tlen :: "string \<Rightarrow> f64 option" where
  "parse_tlen from_key = (case rsplit_once '':tlen='' from_key of None \<Rightarrow> None | Some (_, v) \<Rightarrow> parse_f64 v)"

definition parse_main_fkey :: "string \<Rightarrow> int option" where
  "parse_main_fkey from_key = (case split_by (\<lambda>c. c = CHR ''|'') from_key of [] \<Rightarrow> None | v # _ \<Rightarrow> parse_i64 v)"

definition hedge_new_ts :: "string \<Rightarrow> string \<Rightarrow> int option \<Rightarrow> int option \<Rightarrow> int option" where
  "hedge_new_ts venue from_key new_ts terminal_ts =
     (if new_ts \<noteq> None then new_ts
      else if venue = ''BybitFutures'' \<and>
        (case split_by (\<lambda>c. c = CHR ''|'') from_key of
           _ # reason # _ \<Rightarrow> reason \<in> {''arb_hedge_force_taker_direct'', ''arb_hedge_lazy_model_direct'', ''arb_hedge_lazy_taker_direct''}
         | _ \<Rightarrow> False)
      then terminal_ts else None)"

definition margin_event :: "side \<Rightarrow> int \<Rightarrow> lifecycle \<Rightarrow> match_event" where
  "margin_event sd uts row = Margin
     \<lparr>fkey = lc_client_order_id row, mo_symbol = lc_symbol row, mo_side = sd, cts = lc_create_ts_us row, open_uts = uts,
      open_mkt_ts_us = lc_mkt_ts_us row, open_new_ts_us = lc_new_ts_us row, open_terminal_ts_us = lc_terminal_ts_us row,
      open_terminal_ts_local_us = lc_terminal_ts_local_us row, hts = None, hedge_new_ts_us = None, hedge_terminal_ts_us = None,
      fts = None, close_count = 0, mo_price = lc_price row, mo_amount = lc_amount_init row,
      mo_range = lc_price_offset row * Fin 10000,
      tlen = map_option (\<lambda>quantity. quantity * lc_price row) (parse_tlen (lc_from_key row)), open_fill_amount = lc_filled_amount row,
      remaining_amount = lc_filled_amount row, camount = 0, netted_amount = 0, close_notional = 0, state = Pending,
      open_source_ts_us = lc_last_source_ts_us row\<rparr>"

definition futures_event :: "f64 \<Rightarrow> side \<Rightarrow> int option \<Rightarrow> lifecycle \<Rightarrow> match_event" where
  "futures_event epsilon sd fill row = Futures
     \<lparr>fo_client_order_id = lc_client_order_id row, main_fkey = parse_main_fkey (lc_from_key row), fo_symbol = lc_symbol row,
      fo_side = sd, create_ts_us = lc_create_ts_us row, update_ts_us = lc_update_ts_us row,
      new_ts_us = hedge_new_ts (lc_venue row) (lc_from_key row) (lc_new_ts_us row) (lc_terminal_ts_us row),
      terminal_ts_us = lc_terminal_ts_us row, fill_ts_us = fill, source_ts_us = lc_last_source_ts_us row,
      fo_amount = lc_filled_amount row,
      fo_cprice = (if epsilon < lc_filled_amount row then Some (lc_fill_notional row / lc_filled_amount row) else None),
      event_count = lc_event_count row\<rparr>"

definition lifecycle_event :: "f64 \<Rightarrow> lifecycle \<Rightarrow> match_event list \<times> nat \<times> nat \<Rightarrow> string + match_event list \<times> nat \<times> nat" where
  "lifecycle_event epsilon row = (\<lambda>(events, margins, futures).
     bind_res (ok_or ''invalid side'' (IntraOrderMatch.parse_side (lc_side row))) (\<lambda>sd.
       if ends_with ''Margin'' (lc_venue row)
       then if lc_filled_amount row \<le> epsilon then Inr (events, margins, futures)
         else bind_res (ok_or ''filled Margin order has no FILLED or PARTIALLY_FILLED timestamp'' (lc_last_fill_update_ts_us row)) (\<lambda>uts.
           Inr (events @ [margin_event sd uts row], margins + 1, futures))
       else if ends_with ''Futures'' (lc_venue row)
       then bind_res (if epsilon < lc_filled_amount row
           then bind_res (ok_or ''filled Futures order has no FILLED or PARTIALLY_FILLED timestamp'' (lc_last_fill_update_ts_us row)) (\<lambda>t. Inr (Some t))
           else Inr None) (\<lambda>fill.
         Inr (events @ [futures_event epsilon sd fill row], margins, futures + 1))
       else Inr (events, margins, futures)))"

definition lifecycle_events :: "lifecycle list \<Rightarrow> f64 \<Rightarrow> string + match_event list \<times> nat \<times> nat" where
  "lifecycle_events rows epsilon = fold_res (lifecycle_event epsilon) rows ([], 0, 0)"

section \<open>The stored synthesis\<close>

text \<open>A stored order is the order with the columns computed when it was first written (\<open>holding\<close>) or last written.\<close>

record stored_order =
  so_order :: margin_order
  so_holding :: int
  so_holding_close :: "int option"
  so_cprice :: "f64 option"
  so_crange :: f64
  so_pnlu :: "f64 option"

record synth_watermark =
  wm_source_read_through_us :: int
  wm_events_released_through_us :: int
  wm_margin_finalized_through_us :: int
  wm_verified_through_ms :: int
  wm_reorder_window_us :: int

text \<open>\<open>sd_scope\<close> is the join of the strategy with its checkpoint: schema, aligned start, verified end.\<close>

record synth_db =
  sd_scope :: "(string \<times> int \<times> int) option"
  sd_lifecycles :: lifecycle_map
  sd_hedges :: "(int \<times> hedge_result) list"
  sd_orders :: "(int \<times> stored_order) list"
  sd_watermark :: "synth_watermark option"

text \<open>The database orders NaN above every number.\<close>

definition pg_less :: "f64 \<Rightarrow> f64 \<Rightarrow> bool" where
  "pg_less x y \<longleftrightarrow> x \<noteq> NaN \<and> (y = NaN \<or> x < y)"

definition ready :: "int \<Rightarrow> lifecycle \<Rightarrow> bool" where
  "ready released_through_us l \<longleftrightarrow> lc_terminal l \<and> lc_last_source_ts_us l \<le> released_through_us"

definition load_ready_lifecycles :: "int \<Rightarrow> synth_db \<Rightarrow> lifecycle list" where
  "load_ready_lifecycles released_through_us db = filter (ready released_through_us) (map snd (sd_lifecycles db))"

definition load_pending_orders :: "synth_db \<Rightarrow> margin_order list" where
  "load_pending_orders db =
     sort_key (\<lambda>m. (open_uts m, open_source_ts_us m, fkey m)) (filter (\<lambda>m. state m = Pending) (map (so_order \<circ> snd) (sd_orders db)))"

definition history_of :: "hedge_result list \<Rightarrow> int \<Rightarrow> hedge_history option" where
  "history_of hedges key =
     (let group = filter (\<lambda>h. main_fkey (hr_order h) = Some key) hedges
      in case sort_key (\<lambda>h. (create_ts_us (hr_order h), source_ts_us (hr_order h), fo_client_order_id (hr_order h))) group of
           [] \<Rightarrow> None
         | h # _ \<Rightarrow> Some \<lparr>hh_main_fkey = key, first_order = timing_of (hr_order h),
             hh_last_fill_ts_us = fold latest_optional_timestamp (map (fill_ts_us \<circ> hr_order) group) None,
             order_count = int (length group)\<rparr>)"

definition load_hedge_history :: "lifecycle list \<Rightarrow> f64 \<Rightarrow> synth_db \<Rightarrow> hedge_history list" where
  "load_hedge_history ready_rows epsilon db =
     List.map_filter (history_of (map snd (sd_hedges db)))
       (remdups_adj (sort (map lc_client_order_id
         (filter (\<lambda>l. ends_with ''Margin'' (lc_venue l) \<and> epsilon < lc_filled_amount l) ready_rows))))"

text \<open>The checks of the table on a proposed row.\<close>

definition order_checks :: "margin_order \<Rightarrow> bool" where
  "order_checks m \<longleftrightarrow> 0 < cts m \<and> \<not> pg_less (mo_amount m) 0 \<and> pg_less 0 (open_fill_amount m) \<and> \<not> pg_less (remaining_amount m) 0 \<and>
     \<not> pg_less (camount m) 0 \<and> \<not> pg_less (netted_amount m) 0"

definition written_order :: "margin_order \<Rightarrow> stored_order" where
  "written_order m = \<lparr>so_order = m, so_holding = holding m, so_holding_close = holding_close m, so_cprice = order_cprice m,
     so_crange = Fin (- 1), so_pnlu = pnlu m\<rparr>"

definition rewritten_order :: "stored_order \<Rightarrow> margin_order \<Rightarrow> stored_order" where
  "rewritten_order old m = old\<lparr>
     so_order := (so_order old)\<lparr>open_mkt_ts_us := open_mkt_ts_us m, open_new_ts_us := open_new_ts_us m,
       open_terminal_ts_us := open_terminal_ts_us m, open_terminal_ts_local_us := open_terminal_ts_local_us m, hts := hts m,
       hedge_new_ts_us := hedge_new_ts_us m, hedge_terminal_ts_us := hedge_terminal_ts_us m, fts := fts m,
       close_count := close_count m, camount := camount m, remaining_amount := remaining_amount m,
       netted_amount := netted_amount m, close_notional := close_notional m, state := state m\<rparr>,
     so_holding_close := holding_close m, so_cprice := order_cprice m, so_pnlu := pnlu m\<rparr>"

definition upsert_order :: "margin_order \<Rightarrow> synth_db \<Rightarrow> string + synth_db" where
  "upsert_order m db =
     (if \<not> order_checks m then Inl ''upsert synthesized intra orders''
      else Inr (db\<lparr>sd_orders := AList.update (fkey m)
        (case map_of (sd_orders db) (fkey m) of None \<Rightarrow> written_order m | Some old \<Rightarrow> rewritten_order old m) (sd_orders db)\<rparr>))"

definition upsert_orders :: "margin_order list \<Rightarrow> synth_db \<Rightarrow> string + synth_db" where
  "upsert_orders rows db = fold_res upsert_order rows db"

definition insert_hedge :: "hedge_result \<Rightarrow> synth_db \<Rightarrow> synth_db" where
  "insert_hedge h db =
     (if map_of (sd_hedges db) (fo_client_order_id (hr_order h)) \<noteq> None then db
      else db\<lparr>sd_hedges := sd_hedges db @ [(fo_client_order_id (hr_order h), h)]\<rparr>)"

definition insert_hedges :: "hedge_result list \<Rightarrow> synth_db \<Rightarrow> synth_db" where
  "insert_hedges rows db = fold insert_hedge rows db"

definition delete_released_lifecycles :: "int \<Rightarrow> nat \<Rightarrow> synth_db \<Rightarrow> string + synth_db" where
  "delete_released_lifecycles released_through_us expected db =
     (let kept = filter (\<lambda>(_, l). \<not> ready released_through_us l) (sd_lifecycles db)
      in if length (sd_lifecycles db) - length kept \<noteq> expected then Inl ''released lifecycle delete mismatch''
         else Inr (db\<lparr>sd_lifecycles := kept\<rparr>))"

definition before_min :: "int list \<Rightarrow> int \<Rightarrow> int" where
  "before_min xs x = (if xs = [] then x else Min (set xs) - 1)"

definition margin_finalized_watermark :: "int \<Rightarrow> synth_db \<Rightarrow> int" where
  "margin_finalized_watermark released_through_us db =
     min (before_min (map open_source_ts_us (load_pending_orders db)) released_through_us)
       (min (before_min (map lc_first_source_ts_us (filter (\<lambda>l. pg_less 0 (lc_filled_amount l)) (map snd (sd_lifecycles db)))) released_through_us)
         released_through_us)"

definition update_watermark :: "int \<Rightarrow> int \<Rightarrow> int \<Rightarrow> int \<Rightarrow> int \<Rightarrow> synth_db \<Rightarrow> synth_db" where
  "update_watermark source_end_us released_through_us finalized verified_through_ms reorder_us db =
     db\<lparr>sd_watermark := map_option (\<lambda>_. \<lparr>wm_source_read_through_us = source_end_us, wm_events_released_through_us = released_through_us,
       wm_margin_finalized_through_us = finalized, wm_verified_through_ms = verified_through_ms,
       wm_reorder_window_us = reorder_us\<rparr>) (sd_watermark db)\<rparr>"

definition validate_schema :: "string \<Rightarrow> string + unit" where
  "validate_schema schema = (if valid_schema schema then Inr () else Inl ''invalid PostgreSQL strategy schema'')"

definition strategy_scope :: "synth_db \<Rightarrow> string + string \<times> int \<times> int" where
  "strategy_scope db =
     bind_res (ok_or ''missing strategy/checkpoint'' (sd_scope db)) (\<lambda>(schema, aligned_from_ms, verified_through_ms).
     bind_res (validate_schema schema) (\<lambda>_. Inr (schema, aligned_from_ms, verified_through_ms)))"

definition load_watermark :: "synth_db \<Rightarrow> string + synth_watermark" where
  "load_watermark db = ok_or ''load synthesis watermark'' (sd_watermark db)"

text \<open>A watermark that exists keeps its reorder window; \<open>$1 - 1\<close> out of range is an error of the database.\<close>

definition reset_synthesis :: "int \<Rightarrow> synth_db \<Rightarrow> string + synth_db" where
  "reset_synthesis aligned_from_ms db =
     bind_res (checked_i64 ''aligned source start overflows microseconds'' (aligned_from_ms * 1000)) (\<lambda>start_us.
     bind_res (checked_i64 ''recreate synthesis watermark'' (start_us - 1)) (\<lambda>before.
       Inr (db\<lparr>sd_lifecycles := [], sd_hedges := [], sd_orders := [],
         sd_watermark := Some \<lparr>wm_source_read_through_us = start_us, wm_events_released_through_us = before,
           wm_margin_finalized_through_us = before, wm_verified_through_ms = aligned_from_ms,
           wm_reorder_window_us = (case sd_watermark db of None \<Rightarrow> 600000000 | Some w \<Rightarrow> wm_reorder_window_us w)\<rparr>\<rparr>)))"

section \<open>One run\<close>

datatype synth_error = SynthFailed string | SynthMatch match_error

definition text_error :: "string + 'a \<Rightarrow> synth_error + 'a" where
  "text_error r = (case r of Inl e \<Rightarrow> Inl (SynthFailed e) | Inr x \<Rightarrow> Inr x)"

definition engine_error :: "match_error + 'a \<Rightarrow> synth_error + 'a" where
  "engine_error r = (case r of Inl e \<Rightarrow> Inl (SynthMatch e) | Inr x \<Rightarrow> Inr x)"

record synth_args =
  sa_strategy :: string
  sa_end_ms :: "int option"
  sa_source_chunk_minutes :: int
  sa_reorder_minutes :: int
  sa_qty_epsilon :: f64
  sa_rebuild :: bool

definition supported_sources :: "string list" where
  "supported_sources = [''binance-intra-arb01'', ''bybit-intra-arb01'', ''bybit-intra-arb02'']"

definition validate_synth_args :: "synth_args \<Rightarrow> string + unit" where
  "validate_synth_args args =
     (if sa_strategy args \<notin> set supported_sources then Inl ''unsupported online source''
      else if sa_source_chunk_minutes args \<le> 0 then Inl ''--source-chunk-minutes must be positive''
      else if sa_reorder_minutes args < 0 then Inl ''--reorder-minutes must be non-negative''
      else if \<not> is_finite (sa_qty_epsilon args) \<or> sa_qty_epsilon args < 0 then Inl ''--qty-epsilon must be finite and non-negative''
      else Inr ())"

record synth_summary =
  sy_strategy :: string
  sy_source_start_us :: int
  sy_source_end_us :: int
  sy_released_through_us :: int
  sy_margin_finalized_through_us :: int
  sy_downloaded_rows :: nat
  sy_lifecycle_orders :: nat
  sy_released_orders :: nat
  sy_margin_orders :: nat
  sy_futures_orders :: nat
  sy_pending_margin_orders :: nat
  sy_unallocated_futures_orders :: nat
  sy_anchor_misses :: nat

text \<open>What a run reads before it locks: the range of the source and the release boundary.\<close>

record synth_plan =
  pl_target_ms :: int
  pl_source_start_us :: int
  pl_source_end_us :: int
  pl_deltas :: "lifecycle list"
  pl_rows :: nat
  pl_reorder_us :: int
  pl_released_through_us :: int

definition plan_run :: "(int \<Rightarrow> int \<Rightarrow> string + order_row list) \<Rightarrow> synth_args \<Rightarrow> int \<Rightarrow> synth_db \<Rightarrow> string + synth_plan" where
  "plan_run read args verified_through_ms db =
     (let target_ms = min (case sa_end_ms args of None \<Rightarrow> verified_through_ms | Some e \<Rightarrow> e) verified_through_ms
      in bind_res (checked_i64 ''verified endpoint overflows microseconds'' (target_ms + 1)) (\<lambda>e.
        bind_res (checked_i64 ''verified endpoint overflows microseconds'' (e * 1000)) (\<lambda>source_end_us.
        bind_res (load_watermark db) (\<lambda>w.
          if source_end_us < wm_source_read_through_us w then Inl ''requested endpoint is behind source cursor''
          else bind_res (fetch_lifecycle_deltas read (sa_source_chunk_minutes args) (wm_source_read_through_us w) source_end_us) (\<lambda>(deltas, rows).
            bind_res (checked_i64 ''reorder window overflow'' (sa_reorder_minutes args * 60000000)) (\<lambda>reorder_us.
              Inr \<lparr>pl_target_ms = target_ms, pl_source_start_us = wm_source_read_through_us w, pl_source_end_us = source_end_us,
                pl_deltas = deltas, pl_rows = rows, pl_reorder_us = reorder_us,
                pl_released_through_us = max (saturating_sub_i64 (saturating_sub_i64 source_end_us reorder_us) 1)
                  (wm_events_released_through_us w)\<rparr>))))))"

text \<open>The matching between the reads and the writes: the pending orders, their history, then the ready orders.  \<open>None\<close>: a loop of the
  engine does not end.\<close>

definition match_ready :: "f64 \<Rightarrow> lifecycle list \<Rightarrow> synth_db \<Rightarrow> (synth_error + (hedge_result list \<times> margin_order list) \<times> nat \<times> nat) option" where
  "match_ready epsilon ready_rows db =
     (case text_error (lifecycle_events ready_rows epsilon) of
        Inl e \<Rightarrow> Some (Inl e)
      | Inr (events, margins, futures) \<Rightarrow>
          (case engine_error (engine_new (load_pending_orders db) epsilon) of
             Inl e \<Rightarrow> Some (Inl e)
           | Inr engine \<Rightarrow>
               map_option (\<lambda>r. bind_res (engine_error r) (\<lambda>(hedges, engine). Inr ((hedges, into_orders engine), margins, futures)))
                 (engine_apply events (seed_hedge_history (load_hedge_history ready_rows epsilon db) engine))))"

definition store_matches :: "synth_plan \<Rightarrow> nat \<Rightarrow> hedge_result list \<Rightarrow> margin_order list \<Rightarrow> synth_db \<Rightarrow> string + int \<times> synth_db" where
  "store_matches p expected hedges matched db =
     bind_res (upsert_orders matched db) (\<lambda>db.
     bind_res (delete_released_lifecycles (pl_released_through_us p) expected (insert_hedges hedges db)) (\<lambda>db.
       let finalized = margin_finalized_watermark (pl_released_through_us p) db
       in Inr (finalized, update_watermark (pl_source_end_us p) (pl_released_through_us p) finalized (pl_target_ms p) (pl_reorder_us p) db)))"

definition synth_transaction :: "synth_args \<Rightarrow> synth_plan \<Rightarrow> synth_db \<Rightarrow> (synth_error + synth_db \<times> synth_summary) option" where
  "synth_transaction args p db =
     (case text_error (bind_res (load_watermark db) (\<lambda>locked.
             if wm_source_read_through_us locked \<noteq> pl_source_start_us p then Inl ''concurrent synthesis advanced source cursor''
             else upsert_lifecycles (pl_deltas p) (sd_lifecycles db))) of
        Inl e \<Rightarrow> Some (Inl e)
      | Inr table \<Rightarrow>
          (let db = db\<lparr>sd_lifecycles := table\<rparr>;
               ready_rows = load_ready_lifecycles (pl_released_through_us p) db
           in map_option (\<lambda>r. bind_res r (\<lambda>((hedges, matched), margins, futures).
                bind_res (text_error (store_matches p (length ready_rows) hedges matched db)) (\<lambda>(finalized, db).
                  Inr (db, \<lparr>sy_strategy = sa_strategy args, sy_source_start_us = pl_source_start_us p, sy_source_end_us = pl_source_end_us p,
                    sy_released_through_us = pl_released_through_us p, sy_margin_finalized_through_us = finalized,
                    sy_downloaded_rows = pl_rows p, sy_lifecycle_orders = length (pl_deltas p), sy_released_orders = length ready_rows,
                    sy_margin_orders = margins, sy_futures_orders = futures,
                    sy_pending_margin_orders = length (filter (\<lambda>m. state m = Pending) matched),
                    sy_unallocated_futures_orders = length (filter (\<lambda>h. sa_qty_epsilon args < unallocated_amount h) hedges),
                    sy_anchor_misses = length (filter (\<lambda>h. main_fkey (hr_order h) \<noteq> None \<and> \<not> anchor_matched h) hedges)\<rparr>))))
              (match_ready (sa_qty_epsilon args) ready_rows db)))"

text \<open>The database and the answer of a run; what other runs committed between its reads and its transaction is \<open>between\<close>.\<close>

definition synthesise :: "(int \<Rightarrow> int \<Rightarrow> string + order_row list) \<Rightarrow> synth_args \<Rightarrow> (synth_db \<Rightarrow> synth_db) \<Rightarrow> synth_db \<Rightarrow>
    (synth_db \<times> (synth_error + synth_summary)) option" where
  "synthesise read args between db =
     (case text_error (bind_res (validate_synth_args args) (\<lambda>_. strategy_scope db)) of
        Inl e \<Rightarrow> Some (db, Inl e)
      | Inr (_, aligned_from_ms, verified_through_ms) \<Rightarrow>
          (case text_error (if sa_rebuild args then reset_synthesis aligned_from_ms db else Inr db) of
             Inl e \<Rightarrow> Some (db, Inl e)
           | Inr db \<Rightarrow>
               (case text_error (plan_run read args verified_through_ms db) of
                  Inl e \<Rightarrow> Some (db, Inl e)
                | Inr p \<Rightarrow>
                    map_option (\<lambda>r. case r of Inl e \<Rightarrow> (between db, Inl e) | Inr (db', s) \<Rightarrow> (db', Inr s))
                      (synth_transaction args p (between db)))))"


section \<open>What holds of the stored synthesis\<close>

definition released_ok :: "synth_db \<Rightarrow> synth_watermark \<Rightarrow> bool" where
  "released_ok db w \<longleftrightarrow>
     wm_margin_finalized_through_us w \<le> wm_events_released_through_us w \<and> i64_min \<le> wm_events_released_through_us w \<and>
     wm_events_released_through_us w < wm_source_read_through_us w \<and>
     (\<forall>l \<in> snd ` set (sd_lifecycles db). \<not> ready (wm_events_released_through_us w) l \<and>
        (pg_less 0 (lc_filled_amount l) \<longrightarrow> wm_margin_finalized_through_us w < lc_first_source_ts_us l)) \<and>
     (\<forall>m \<in> so_order ` snd ` set (sd_orders db). state m = Pending \<longrightarrow> wm_margin_finalized_through_us w < open_source_ts_us m)"

definition amounts_f64 :: "synth_db \<Rightarrow> bool" where
  "amounts_f64 db \<longleftrightarrow> (\<forall>l \<in> snd ` set (sd_lifecycles db). is_f64 (lc_filled_amount l)) \<and>
     (\<forall>m \<in> so_order ` snd ` set (sd_orders db). is_f64 (remaining_amount m))"

definition synth_ok :: "synth_db \<Rightarrow> bool" where
  "synth_ok db \<longleftrightarrow> amounts_f64 db \<and> (\<forall>w. sd_watermark db = Some w \<longrightarrow> released_ok db w)"

definition rows_f64 :: "(int \<Rightarrow> int \<Rightarrow> string + order_row list) \<Rightarrow> bool" where
  "rows_f64 read \<longleftrightarrow> (\<forall>a b rows. read a b = Inr rows \<longrightarrow> (\<forall>row \<in> set rows. \<forall>x. or_amount_update row = Some x \<longrightarrow> is_f64 x))"

text \<open>The databases of a strategy: created by the migration, or left by a run on such a database, between whose reads and transaction
  other runs may have brought it to another one; the checkpoint is moved by others.\<close>

inductive synth_reachable :: "synth_db \<Rightarrow> bool" where
  created: "sd_lifecycles db = [] \<Longrightarrow> sd_orders db = [] \<Longrightarrow> sd_watermark db = Some w \<Longrightarrow> i64_min \<le> wm_events_released_through_us w \<Longrightarrow>
    wm_events_released_through_us w = wm_source_read_through_us w - 1 \<Longrightarrow> wm_margin_finalized_through_us w = wm_source_read_through_us w - 1 \<Longrightarrow>
    synth_reachable db"
| scope: "synth_reachable db \<Longrightarrow> synth_reachable (db\<lparr>sd_scope := s\<rparr>)"
| run: "synth_reachable db \<Longrightarrow> synth_reachable other \<Longrightarrow> rows_f64 read \<Longrightarrow>
    synthesise read args (\<lambda>_. other) db = Some (db', r) \<Longrightarrow> synth_reachable db'"

lemma update_mem: "x \<in> set (AList.update k v al) \<Longrightarrow> x = (k, v) \<or> x \<in> set al"
  by (induction al) (auto split: if_splits)

definition lifecycles_f64 :: "lifecycle_map \<Rightarrow> bool" where
  "lifecycles_f64 m \<longleftrightarrow> (\<forall>l \<in> snd ` set m. is_f64 (lc_filled_amount l))"

lemma lifecycles_f64_at: "lifecycles_f64 m \<Longrightarrow> map_of m k = Some l \<Longrightarrow> is_f64 (lc_filled_amount l)"
  unfolding lifecycles_f64_def by (metis imageI map_of_SomeD snd_conv)

lemma read_update_fill: "read_update row = Inr (Some u) \<Longrightarrow> or_amount_update row = Some (ou_fill u)"
  unfolding read_update_def bind_res_Inr by (auto simp: ok_or_def bind_res_Inr split: if_splits option.splits)

lemma fold_row_f64:
  assumes "fold_row row m = Inr m'" "lifecycles_f64 m" "\<forall>x. or_amount_update row = Some x \<longrightarrow> is_f64 x"
  shows "lifecycles_f64 m'"
proof -
  obtain r where r: "read_update row = Inr r" using assms(1) by (auto simp: fold_row_def bind_res_Inr)
  show ?thesis
  proof (cases r)
    case None
    then show ?thesis using assms r by (simp add: fold_row_def)
  next
    case (Some u)
    then obtain l where l: "(case map_of m (ou_key u) of None \<Rightarrow> fresh_lifecycle row u | Some a \<Rightarrow> fold_existing row u a) = Inr l"
      and m': "m' = bt_insert (ou_key u) l m" using assms(1) r by (auto simp: fold_row_def bind_res_Inr)
    have "is_f64 (ou_fill u)" using read_update_fill r Some assms(3) by blast
    then have "is_f64 (lc_filled_amount l)"
      using l fresh_times [of row u l] fold_existing_times(3) [of row u _ l] by (auto split: option.splits)
    then show ?thesis using assms(2) by (auto simp: lifecycles_f64_def m' dest!: set_bt_insert)
  qed
qed

lemma fold_frame_f64:
  "fold_frame rows m = Inr m' \<Longrightarrow> lifecycles_f64 m \<Longrightarrow> \<forall>row \<in> set rows. \<forall>x. or_amount_update row = Some x \<longrightarrow> is_f64 x \<Longrightarrow> lifecycles_f64 m'"
  unfolding fold_frame_def by (erule fold_res_inv [rotated 2, where I = lifecycles_f64]) (auto intro: fold_row_f64)

lemma fetch_f64:
  assumes "fetch_lifecycle_deltas read c a b = Inr (d, n)" "rows_f64 read"
  shows "\<forall>l \<in> set d. is_f64 (lc_filled_amount l)"
proof (cases "a = b")
  case True
  then show ?thesis using assms(1) by (simp add: fetch_lifecycle_deltas_def)
next
  case False
  then obtain m where m: "fold_res (fold_window read) (center_windows (c * 60000000) a b) ([], 0) = Inr (m, n)" "d = map snd m"
    using assms(1) by (auto simp: fetch_lifecycle_deltas_def checked_i64_def fold_window_def bind_res_Inr split: if_splits)
  have "lifecycles_f64 (fst (m, n))"
  proof (rule fold_res_inv [OF _ _ m(1), where I = "\<lambda>s. lifecycles_f64 (fst s)"])
    fix w s s' assume "lifecycles_f64 (fst s)" "fold_window read w s = Inr s'"
    then show "lifecycles_f64 (fst s')" using assms(2) fold_frame_f64
      by (cases w; cases s) (auto simp: fold_window_def bind_res_Inr rows_f64_def)
  qed (simp add: lifecycles_f64_def)
  then show ?thesis using m(2) by (simp add: lifecycles_f64_def)
qed

lemma upsert_f64:
  assumes "upsert_lifecycles d t = Inr t'" "\<forall>l \<in> set d. is_f64 (lc_filled_amount l)" "lifecycles_f64 t"
  shows "lifecycles_f64 t'"
proof (rule fold_res_inv [where I = lifecycles_f64, OF _ assms(3) assms(1) [unfolded upsert_lifecycles_def]])
  fix l s s' assume l: "l \<in> set d" and s: "lifecycles_f64 s" "upsert_lifecycle l s = Inr s'"
  obtain b where b: "(case map_of s (lifecycle_key l) of None \<Rightarrow> Inr l | Some old \<Rightarrow> merge_lifecycle old l) = Inr b"
    "s' = AList.update (lifecycle_key l) b s" using s(2) by (auto simp: upsert_lifecycle_def bind_res_Inr)
  have "is_f64 (lc_filled_amount b)" using b(1) l assms(2) merge_times(3) [of _ l b] by (auto split: option.splits)
  then show "lifecycles_f64 s'" using s(1) by (auto simp: lifecycles_f64_def b(2) dest!: update_mem)
qed

lemma lifecycle_events_f64:
  assumes "lifecycle_events rows e = Inr (evs, a, b)" "\<forall>l \<in> set rows. is_f64 (lc_filled_amount l)"
  shows "list_all event_f64 evs"
proof -
  have "list_all event_f64 (fst (evs, a, b))"
  proof (rule fold_res_inv [OF _ _ assms(1) [unfolded lifecycle_events_def], where I = "\<lambda>s. list_all event_f64 (fst s)"])
    fix l s s' assume "l \<in> set rows" "list_all event_f64 (fst s)" "lifecycle_event e l s = Inr s'"
    then show "list_all event_f64 (fst s')" using assms(2)
      by (cases s) (auto simp: lifecycle_event_def bind_res_Inr margin_event_def futures_event_def split: if_splits)
  qed simp
  then show ?thesis by simp
qed

lemma orders_f64: "wf_engine {} s \<Longrightarrow> \<forall>m \<in> set (into_orders s). is_f64 (remaining_amount m)"
proof
  fix m assume wf: "wf_engine {} s" and m: "m \<in> set (into_orders s)"
  then obtain k where k: "(k, m) \<in> set (orders s)" by (auto simp: into_orders_def)
  have "distinct (map fst (orders s))" using wf by (simp add: wf_engine_def orders_ok_def bt_wf_def strict_sorted_iff)
  then have "map_of (orders s) k = Some m" using k by simp
  then show "is_f64 (remaining_amount m)" using wf by (auto simp: wf_engine_def orders_ok_def)
qed

lemma engine_new_no_panic:
  "engine_new pending e = Inl er \<Longrightarrow> er \<noteq> Panic"
proof -
  have "fold_res load_pending ms s = Inl er \<Longrightarrow> er \<noteq> Panic" for ms s
    by (induction ms arbitrary: s) (auto simp: load_pending_def Let_def bind_res_def split: if_splits sum.splits)
  then show "engine_new pending e = Inl er \<Longrightarrow> er \<noteq> Panic" by (auto simp: engine_new_def split: if_splits)
qed

lemma match_ready_total:
  assumes "\<forall>m \<in> set (load_pending_orders db). is_f64 (remaining_amount m)" "\<forall>l \<in> set rows. is_f64 (lc_filled_amount l)"
  shows "\<exists>r. match_ready e rows db = Some r \<and>
    (case r of Inl er \<Rightarrow> er \<noteq> SynthMatch Panic | Inr ((hedges, ms), _) \<Rightarrow> \<forall>m \<in> set ms. is_f64 (remaining_amount m))"
proof (cases "lifecycle_events rows e")
  case (Inr ev)
  obtain evs a b where ev: "ev = (evs, a, b)" by (cases ev)
  have f: "list_all event_f64 (sort_key event_key evs)" using lifecycle_events_f64 Inr ev assms(2) by (fastforce simp: list_all_iff)
  show ?thesis
  proof (cases "engine_new (load_pending_orders db) e")
    case (Inl er)
    then show ?thesis using Inr engine_new_no_panic [OF Inl] by (simp add: match_ready_def text_error_def engine_error_def ev)
  next
    case new: (Inr s)
    let ?s = "seed_hedge_history (load_hedge_history rows e db) s"
    have wf: "wf_engine {} ?s"
      using reachable_wf [OF reachable_engine.seeded [OF reachable_engine.loaded [OF new assms(1)]]] .
    obtain r where r: "engine_apply evs ?s = Some r" and ok: "case r of Inl er \<Rightarrow> \<exists>ev \<in> set (sort_key event_key evs). er \<in> event_error ev
        | Inr (hs', s') \<Rightarrow> wf_engine {} s' \<and> eps s' = eps ?s"
      using apply_events_wf [OF wf f, of "[]"] by (auto simp: engine_apply_def)
    have m: "match_ready e rows db = Some (bind_res (engine_error r) (\<lambda>(hedges, engine). Inr ((hedges, into_orders engine), a, b)))"
      using Inr new r by (simp add: match_ready_def text_error_def engine_error_def ev)
    show ?thesis
    proof (cases r)
      case (Inl er)
      have "Panic \<notin> event_error ev" for ev by (cases ev) auto
      then have "er \<noteq> Panic" using ok Inl by auto
      then show ?thesis using m Inl by (simp add: engine_error_def)
    next
      case (Inr q)
      then show ?thesis using m ok orders_f64 by (cases q) (auto simp: engine_error_def)
    qed
  qed
qed (simp add: match_ready_def text_error_def)

lemma update_stored: "\<forall>m \<in> so_order ` snd ` set al. P m \<Longrightarrow> P (so_order v) \<Longrightarrow> \<forall>m \<in> so_order ` snd ` set (AList.update k v al). P m"
  by (fastforce dest!: update_mem)

lemma upsert_orders_stored:
  assumes "upsert_orders ms db = Inr db'" "\<forall>m \<in> so_order ` snd ` set (sd_orders db). is_f64 (remaining_amount m)"
    "\<forall>m \<in> set ms. is_f64 (remaining_amount m)"
  shows "\<forall>m \<in> so_order ` snd ` set (sd_orders db'). is_f64 (remaining_amount m)" "sd_lifecycles db' = sd_lifecycles db"
    "sd_watermark db' = sd_watermark db"
proof -
  let ?I = "\<lambda>d. (\<forall>m \<in> so_order ` snd ` set (sd_orders d). is_f64 (remaining_amount m)) \<and> sd_lifecycles d = sd_lifecycles db \<and>
    sd_watermark d = sd_watermark db"
  have "?I db'"
  proof (rule fold_res_inv [where I = ?I, OF _ _ assms(1) [unfolded upsert_orders_def]])
    fix m s s' assume m: "m \<in> set ms" and s: "?I s" "upsert_order m s = Inr s'"
    let ?o = "case map_of (sd_orders s) (fkey m) of None \<Rightarrow> written_order m | Some old \<Rightarrow> rewritten_order old m"
    have s': "sd_orders s' = AList.update (fkey m) ?o (sd_orders s)" "sd_lifecycles s' = sd_lifecycles s" "sd_watermark s' = sd_watermark s"
      using s(2) by (auto simp: upsert_order_def split: if_splits)
    have f: "is_f64 (remaining_amount (so_order ?o))" using assms(3) m
      by (simp add: written_order_def rewritten_order_def split: option.split)
    have "\<forall>m \<in> so_order ` snd ` set (sd_orders s'). is_f64 (remaining_amount m)" unfolding s'
      by (rule update_stored [OF conjunct1 [OF s(1)] f])
    moreover have "sd_lifecycles s' = sd_lifecycles db \<and> sd_watermark s' = sd_watermark db" unfolding s' using s(1) by blast
    ultimately show "?I s'" by blast
  qed (use assms(2) in blast)
  then show "\<forall>m \<in> so_order ` snd ` set (sd_orders db'). is_f64 (remaining_amount m)" "sd_lifecycles db' = sd_lifecycles db"
    "sd_watermark db' = sd_watermark db" by blast+
qed

lemma insert_hedges_stored: "sd_lifecycles (insert_hedges hs db) = sd_lifecycles db \<and> sd_orders (insert_hedges hs db) = sd_orders db \<and>
    sd_watermark (insert_hedges hs db) = sd_watermark db"
  unfolding insert_hedges_def by (induction hs arbitrary: db) (simp_all add: insert_hedge_def)

lemma before_min_le: "y \<in> set xs \<Longrightarrow> before_min xs x < y"
proof -
  assume y: "y \<in> set xs"
  have "Min (set xs) \<le> y" by (rule Min_le [OF finite_set y])
  then have "Min (set xs) - 1 < y" by linarith
  then show ?thesis using y by (cases xs) (simp_all add: before_min_def)
qed

lemma finalized_bounds:
  "margin_finalized_watermark r db \<le> r"
  "m \<in> so_order ` snd ` set (sd_orders db) \<Longrightarrow> state m = Pending \<Longrightarrow> margin_finalized_watermark r db < open_source_ts_us m"
  "l \<in> snd ` set (sd_lifecycles db) \<Longrightarrow> pg_less 0 (lc_filled_amount l) \<Longrightarrow> margin_finalized_watermark r db < lc_first_source_ts_us l"
proof -
  show "margin_finalized_watermark r db \<le> r" by (simp add: margin_finalized_watermark_def)
  let ?p = "map open_source_ts_us (load_pending_orders db)"
  let ?q = "map lc_first_source_ts_us (filter (\<lambda>l. pg_less 0 (lc_filled_amount l)) (map snd (sd_lifecycles db)))"
  show "m \<in> so_order ` snd ` set (sd_orders db) \<Longrightarrow> state m = Pending \<Longrightarrow> margin_finalized_watermark r db < open_source_ts_us m"
    using before_min_le [of "open_source_ts_us m" ?p r] by (force simp: margin_finalized_watermark_def load_pending_orders_def)
  show "l \<in> snd ` set (sd_lifecycles db) \<Longrightarrow> pg_less 0 (lc_filled_amount l) \<Longrightarrow> margin_finalized_watermark r db < lc_first_source_ts_us l"
    using before_min_le [of "lc_first_source_ts_us l" ?q r] by (force simp: margin_finalized_watermark_def)
qed

lemma store_matches_ok:
  assumes "store_matches p n hs ms db = Inr (fin, db')" "amounts_f64 db" "\<forall>m \<in> set ms. is_f64 (remaining_amount m)"
    and "i64_min \<le> pl_released_through_us p" "pl_released_through_us p < pl_source_end_us p" "sd_watermark db \<noteq> None"
  shows "synth_ok db' \<and> sd_watermark db' = Some \<lparr>wm_source_read_through_us = pl_source_end_us p,
    wm_events_released_through_us = pl_released_through_us p, wm_margin_finalized_through_us = fin, wm_verified_through_ms = pl_target_ms p,
    wm_reorder_window_us = pl_reorder_us p\<rparr>"
proof -
  obtain d1 d2 where d1: "upsert_orders ms db = Inr d1"
    and d2: "delete_released_lifecycles (pl_released_through_us p) n (insert_hedges hs d1) = Inr d2"
    and fin: "fin = margin_finalized_watermark (pl_released_through_us p) d2"
    and db': "db' = update_watermark (pl_source_end_us p) (pl_released_through_us p) fin (pl_target_ms p) (pl_reorder_us p) d2"
    using assms(1) by (auto simp: store_matches_def bind_res_Inr Let_def)
  have "\<forall>m \<in> so_order ` snd ` set (sd_orders db). is_f64 (remaining_amount m)" using assms(2) by (simp add: amounts_f64_def)
  note U = upsert_orders_stored [OF d1 this assms(3)]
  have d2': "sd_lifecycles d2 = filter (\<lambda>(_, l). \<not> ready (pl_released_through_us p) l) (sd_lifecycles db)" "sd_orders d2 = sd_orders d1"
    "sd_watermark d2 = sd_watermark db"
    using d2 U insert_hedges_stored [of hs d1] by (auto simp: delete_released_lifecycles_def Let_def split: if_splits)
  have "amounts_f64 d2" using U(1) assms(2) by (auto simp: amounts_f64_def d2')
  then have f: "amounts_f64 db'" by (simp add: amounts_f64_def db' update_watermark_def)
  have w: "sd_watermark db' = Some \<lparr>wm_source_read_through_us = pl_source_end_us p,
    wm_events_released_through_us = pl_released_through_us p, wm_margin_finalized_through_us = fin, wm_verified_through_ms = pl_target_ms p,
    wm_reorder_window_us = pl_reorder_us p\<rparr>" using assms(6) d2'(3) by (auto simp: db' update_watermark_def)
  have "released_ok db' (the (sd_watermark db'))"
    unfolding released_ok_def w option.sel synth_watermark.simps
  proof (intro conjI ballI impI)
    fix l assume l: "l \<in> snd ` set (sd_lifecycles db')"
    then show "\<not> ready (pl_released_through_us p) l" by (auto simp: db' update_watermark_def d2'(1))
    show "pg_less 0 (lc_filled_amount l) \<Longrightarrow> fin < lc_first_source_ts_us l" using finalized_bounds(3) l by (simp add: fin db' update_watermark_def)
  next
    fix m assume "m \<in> so_order ` snd ` set (sd_orders db')" "state m = Pending"
    then show "fin < open_source_ts_us m" using finalized_bounds(2) by (simp add: fin db' update_watermark_def)
  qed (use assms(4,5) finalized_bounds(1) fin in simp_all)
  then show ?thesis using f w by (simp add: synth_ok_def)
qed

lemma transaction_total:
  assumes "amounts_f64 db" "\<forall>l \<in> set (pl_deltas p). is_f64 (lc_filled_amount l)"
    "i64_min \<le> pl_released_through_us p" "pl_released_through_us p < pl_source_end_us p"
  shows "\<exists>r. synth_transaction args p db = Some r \<and>
    (case r of Inl e \<Rightarrow> e \<noteq> SynthMatch Panic | Inr (db', s) \<Rightarrow> synth_ok db' \<and> sy_released_through_us s = pl_released_through_us p \<and>
      (\<exists>w w'. sd_watermark db = Some w \<and> sd_watermark db' = Some w' \<and> wm_source_read_through_us w = pl_source_start_us p \<and>
        wm_source_read_through_us w' = pl_source_end_us p \<and> wm_events_released_through_us w' = pl_released_through_us p))"
proof (cases "bind_res (load_watermark db) (\<lambda>locked.
      if wm_source_read_through_us locked \<noteq> pl_source_start_us p then Inl ''concurrent synthesis advanced source cursor''
      else upsert_lifecycles (pl_deltas p) (sd_lifecycles db))")
  case (Inl e)
  then show ?thesis by (simp add: synth_transaction_def text_error_def)
next
  case (Inr table)
  then obtain w where w: "sd_watermark db = Some w" "wm_source_read_through_us w = pl_source_start_us p"
    and table: "upsert_lifecycles (pl_deltas p) (sd_lifecycles db) = Inr table"
    by (auto simp: bind_res_Inr load_watermark_def ok_or_def split: option.splits if_splits)
  let ?d = "db\<lparr>sd_lifecycles := table\<rparr>"
  let ?ready = "load_ready_lifecycles (pl_released_through_us p) ?d"
  have t: "lifecycles_f64 table"
    by (rule upsert_f64 [OF table assms(2)]) (use assms(1) in \<open>simp add: amounts_f64_def lifecycles_f64_def\<close>)
  have f: "amounts_f64 ?d" using assms(1) t by (simp add: amounts_f64_def lifecycles_f64_def)
  have "\<forall>m \<in> set (load_pending_orders ?d). is_f64 (remaining_amount m)" "\<forall>l \<in> set ?ready. is_f64 (lc_filled_amount l)"
    using f by (auto simp: amounts_f64_def load_pending_orders_def load_ready_lifecycles_def)
  from match_ready_total [OF this, of "sa_qty_epsilon args"] obtain r where r: "match_ready (sa_qty_epsilon args) ?ready ?d = Some r"
    and ok: "case r of Inl er \<Rightarrow> er \<noteq> SynthMatch Panic | Inr ((hedges, ms), _) \<Rightarrow> \<forall>m \<in> set ms. is_f64 (remaining_amount m)" by blast
  show ?thesis
  proof (cases r)
    case (Inl e)
    then show ?thesis using Inr r ok by (simp add: synth_transaction_def text_error_def Let_def)
  next
    case rr: (Inr q)
    obtain hs ms a b where q: "q = ((hs, ms), a, b)" by (metis prod.exhaust)
    have ms: "\<forall>m \<in> set ms. is_f64 (remaining_amount m)" using ok rr q by simp
    show ?thesis
    proof (cases "store_matches p (length ?ready) hs ms ?d")
      case (Inl e)
      then show ?thesis using Inr r rr q by (simp add: synth_transaction_def text_error_def Let_def)
    next
      case st: (Inr x)
      obtain fin d' where x: "x = (fin, d')" by (cases x)
      note S = store_matches_ok [OF st [unfolded x] f ms assms(3,4)]
      show ?thesis using Inr r rr q st x S w by (simp add: synth_transaction_def text_error_def Let_def)
    qed
  qed
qed

lemma plan_run_ok:
  assumes "plan_run read args v db = Inr p" "synth_ok db" "rows_f64 read" "validate_synth_args args = Inr ()"
  shows "\<forall>l \<in> set (pl_deltas p). is_f64 (lc_filled_amount l)" "i64_min \<le> pl_released_through_us p" "pl_released_through_us p < pl_source_end_us p"
    "\<exists>w. sd_watermark db = Some w \<and> pl_source_start_us p = wm_source_read_through_us w \<and>
      wm_source_read_through_us w \<le> pl_source_end_us p \<and> wm_events_released_through_us w \<le> pl_released_through_us p"
proof -
  obtain w d n reorder where w: "sd_watermark db = Some w" "wm_source_read_through_us w \<le> pl_source_end_us p" "pl_source_start_us p = wm_source_read_through_us w"
    and d: "fetch_lifecycle_deltas read (sa_source_chunk_minutes args) (wm_source_read_through_us w) (pl_source_end_us p) = Inr (d, n)" "pl_deltas p = d"
    and re: "reorder = sa_reorder_minutes args * 60000000"
      "pl_released_through_us p = max (saturating_sub_i64 (saturating_sub_i64 (pl_source_end_us p) reorder) 1) (wm_events_released_through_us w)"
    using assms(1) by (auto simp: plan_run_def bind_res_Inr Let_def load_watermark_def ok_or_def checked_i64_def split: option.splits if_splits)
  have ok: "released_ok db w" using assms(2) w(1) by (simp add: synth_ok_def)
  have reorder: "0 \<le> reorder" using assms(4) by (auto simp: validate_synth_args_def re(1) split: if_splits)
  show "\<forall>l \<in> set (pl_deltas p). is_f64 (lc_filled_amount l)" using fetch_f64 [OF d(1) assms(3)] d(2) by simp
  show "i64_min \<le> pl_released_through_us p" using ok re(2) by (simp add: released_ok_def le_max_iff_disj)
  show "pl_released_through_us p < pl_source_end_us p" using ok re(2) w(2) reorder
    by (auto simp: released_ok_def saturating_sub_i64_def clamp_i64_def i64_min_def i64_max_def)
  show "\<exists>w. sd_watermark db = Some w \<and> pl_source_start_us p = wm_source_read_through_us w \<and>
      wm_source_read_through_us w \<le> pl_source_end_us p \<and> wm_events_released_through_us w \<le> pl_released_through_us p"
    using w re(2) by simp
qed

lemma reset_ok: "reset_synthesis a db = Inr db' \<Longrightarrow> synth_ok db'"
  by (auto simp: reset_synthesis_def bind_res_Inr checked_i64_def is_i64_def synth_ok_def amounts_f64_def released_ok_def split: if_splits)

text \<open>The outcomes of one run: it ends; it fails and leaves what it found, or its own reset, or commits a new database.\<close>

lemma synthesise_cases:
  assumes "synth_ok db" "synth_ok other" "rows_f64 read"
  shows "\<exists>db' r. synthesise read args (\<lambda>_. other) db = Some (db', r) \<and>
    (case r of
       Inl e \<Rightarrow> e \<noteq> SynthMatch Panic \<and> (db' = db \<or> db' = other \<or> sa_rebuild args \<and> (\<exists>a. reset_synthesis a db = Inr db'))
     | Inr s \<Rightarrow> synth_ok db' \<and> (\<exists>w w'. sd_watermark other = Some w \<and> sd_watermark db' = Some w' \<and>
         wm_source_read_through_us w \<le> wm_source_read_through_us w' \<and> wm_events_released_through_us w' = sy_released_through_us s))"
proof (cases "bind_res (validate_synth_args args) (\<lambda>_. strategy_scope db)")
  case (Inl e)
  then show ?thesis by (simp add: synthesise_def text_error_def)
next
  case v: (Inr x)
  obtain schema a v where x: "x = (schema, a, v)" by (metis prod.exhaust)
  have valid: "validate_synth_args args = Inr ()" using v by (simp add: bind_res_Inr)
  show ?thesis
  proof (cases "if sa_rebuild args then reset_synthesis a db else Inr db")
    case (Inl e)
    then show ?thesis using v x by (simp add: synthesise_def text_error_def)
  next
    case r: (Inr d)
    then have d: "synth_ok d" "d = db \<or> sa_rebuild args \<and> (\<exists>a. reset_synthesis a db = Inr d)"
      using assms(1) reset_ok by (auto split: if_splits)
    show ?thesis
    proof (cases "plan_run read args v d")
      case (Inl e)
      then show ?thesis using v x r d(2) by (auto simp: synthesise_def text_error_def)
    next
      case p: (Inr p)
      note P = plan_run_ok [OF p d(1) assms(3) valid]
      have "amounts_f64 other" using assms(2) by (simp add: synth_ok_def)
      from transaction_total [OF this P(1-3), of args] obtain t where t: "synth_transaction args p other = Some t"
        and ok: "case t of Inl e \<Rightarrow> e \<noteq> SynthMatch Panic | Inr (db', s) \<Rightarrow> synth_ok db' \<and> sy_released_through_us s = pl_released_through_us p \<and>
          (\<exists>w w'. sd_watermark other = Some w \<and> sd_watermark db' = Some w' \<and> wm_source_read_through_us w = pl_source_start_us p \<and>
            wm_source_read_through_us w' = pl_source_end_us p \<and> wm_events_released_through_us w' = pl_released_through_us p)" by blast
      show ?thesis using v x r p t ok P(4) by (cases t) (auto simp: synthesise_def text_error_def)
    qed
  qed
qed


lemma synth_reachable_ok: "synth_reachable db \<Longrightarrow> synth_ok db"
proof (induction rule: synth_reachable.induct)
  case (created db w)
  then show ?case by (simp add: synth_ok_def amounts_f64_def released_ok_def)
next
  case (scope db s)
  then show ?case by (simp add: synth_ok_def amounts_f64_def released_ok_def)
next
  case (run db other read args db' r)
  then show ?case using synthesise_cases [OF run.IH run.hyps(3), of args] reset_ok by (auto split: sum.splits)
qed


text \<open>C13: A run always ends, without a panic of the engine.  A run that fails leaves the database it found, or what others committed
  meanwhile, or the reset it was asked for; one that succeeds has moved the source cursor forward from the one it locked and the release
  boundary to the one it reports.\<close>

theorem synthesis_total:
  assumes "synth_reachable db" "synth_reachable other" "rows_f64 read"
  shows "\<exists>db' r. synthesise read args (\<lambda>_. other) db = Some (db', r) \<and>
    (case r of
       Inl e \<Rightarrow> e \<noteq> SynthMatch Panic \<and> (db' = db \<or> db' = other \<or> sa_rebuild args \<and> (\<exists>a. reset_synthesis a db = Inr db'))
     | Inr s \<Rightarrow> (\<exists>w w'. sd_watermark other = Some w \<and> sd_watermark db' = Some w' \<and>
         wm_source_read_through_us w \<le> wm_source_read_through_us w' \<and> wm_events_released_through_us w' = sy_released_through_us s))"
proof -
  obtain db' r where "synthesise read args (\<lambda>_. other) db = Some (db', r)" and c: "case r of
       Inl e \<Rightarrow> e \<noteq> SynthMatch Panic \<and> (db' = db \<or> db' = other \<or> sa_rebuild args \<and> (\<exists>a. reset_synthesis a db = Inr db'))
     | Inr s \<Rightarrow> synth_ok db' \<and> (\<exists>w w'. sd_watermark other = Some w \<and> sd_watermark db' = Some w' \<and>
         wm_source_read_through_us w \<le> wm_source_read_through_us w' \<and> wm_events_released_through_us w' = sy_released_through_us s)"
    using synthesise_cases [OF synth_reachable_ok [OF assms(1)] synth_reachable_ok [OF assms(2)] assms(3), of args] by blast
  then show ?thesis by (cases r) auto
qed

section \<open>Two runs on a small log\<close>

definition two_log :: "(int \<times> order_row) list" where
  "two_log = [(30, sample_row ''NEW'' 0 30), (1500, sample_row ''PARTIALLY_FILLED'' 1 1500)]"

definition two_read :: "int \<Rightarrow> int \<Rightarrow> string + order_row list" where
  "two_read a b = Inr (log_rows two_log a b)"

definition two_mark :: synth_watermark where
  "two_mark = \<lparr>wm_source_read_through_us = 0, wm_events_released_through_us = - 1, wm_margin_finalized_through_us = - 1,
     wm_verified_through_ms = 0, wm_reorder_window_us = 600000000\<rparr>"

definition two_db :: "int \<Rightarrow> synth_db" where
  "two_db verified_through_ms = \<lparr>sd_scope = Some (''intra'', 0, verified_through_ms), sd_lifecycles = [], sd_hedges = [], sd_orders = [],
     sd_watermark = Some two_mark\<rparr>"

definition two_args :: synth_args where
  "two_args = \<lparr>sa_strategy = ''binance-intra-arb01'', sa_end_ms = None, sa_source_chunk_minutes = 1, sa_reorder_minutes = 0,
     sa_qty_epsilon = 0, sa_rebuild = False\<rparr>"

lemma rnd_one: "rnd 1 = Fin 1"
  using rnd_of_int [of 1] by simp

lemma two_f64: "rows_f64 two_read"
  by (simp add: rows_f64_def two_read_def log_rows_def two_log_def sample_row_def one_f64_def rnd_one)

lemma two_created: "synth_reachable (two_db v)"
  by (rule synth_reachable.created [of _ two_mark]) (simp_all add: two_db_def two_mark_def i64_min_def)

theorem synthesis_total_witness:
  "\<exists>db' r. synthesise two_read two_args (\<lambda>_. two_db 1) (two_db 0) = Some (db', r) \<and> (\<forall>e. r = Inl e \<longrightarrow> e \<noteq> SynthMatch Panic)"
proof -
  obtain db' r where "synthesise two_read two_args (\<lambda>_. two_db 1) (two_db 0) = Some (db', r)" and c: "case r of
       Inl e \<Rightarrow> e \<noteq> SynthMatch Panic \<and> (db' = two_db 0 \<or> db' = two_db 1 \<or> sa_rebuild two_args \<and> (\<exists>a. reset_synthesis a (two_db 0) = Inr db'))
     | Inr s \<Rightarrow> (\<exists>w w'. sd_watermark (two_db 1) = Some w \<and> sd_watermark db' = Some w' \<and>
         wm_source_read_through_us w \<le> wm_source_read_through_us w' \<and> wm_events_released_through_us w' = sy_released_through_us s)"
    using synthesis_total [OF two_created [of 0] two_created [of 1] two_f64, of two_args] by blast
  then show ?thesis by (cases r) auto
qed


lemma two_rows: "log_rows two_log 0 1000 = [sample_row ''NEW'' 0 30]" "log_rows two_log 1000 2000 = [sample_row ''PARTIALLY_FILLED'' 1 1500]"
  by (simp_all add: log_rows_def two_log_def)

lemma two_update: "read_update (sample_row ''PARTIALLY_FILLED'' 1 1500) = Inr (Some ((sample_update ''PARTIALLY_FILLED'' 1500)\<lparr>ou_fill := 1\<rparr>))"
  by (simp add: read_update_def sample_row_def sample_update_def positive_timestamp_def ok_or_def f64_defs)

lemma not_terminal: "\<not> is_terminal ''NEW''" "\<not> is_terminal ''PARTIALLY_FILLED''"
  by code_simp+

definition two_first :: lifecycle where
  "two_first = (case fresh_lifecycle (sample_row ''NEW'' 0 30) (sample_update ''NEW'' 30) of Inr l \<Rightarrow> l | Inl _ \<Rightarrow> undefined)"

lemma two_first: "fresh_lifecycle (sample_row ''NEW'' 0 30) (sample_update ''NEW'' 30) = Inr two_first" "lc_filled_amount two_first = 0"
  "lc_fill_notional two_first = 0" "lifecycle_key two_first = (''BinanceMargin'', 7)" "lc_first_source_ts_us two_first = 30"
  "lc_last_source_ts_us two_first = 30" "\<not> lc_terminal two_first"
  by (simp_all add: two_first_def fresh_lifecycle_def sample_row_def sample_update_def ok_or_def lifecycle_key_def not_terminal f64_defs)

lemma two_second: "\<exists>l. fresh_lifecycle (sample_row ''PARTIALLY_FILLED'' 1 1500) ((sample_update ''PARTIALLY_FILLED'' 1500)\<lparr>ou_fill := 1\<rparr>) = Inr l \<and>
    lc_filled_amount l = 1 \<and> lc_fill_notional l = 0 \<and> lifecycle_key l = (''BinanceMargin'', 7) \<and> lc_first_source_ts_us l = 1500 \<and>
    lc_last_source_ts_us l = 1500 \<and> \<not> lc_terminal l"
  by (simp add: fresh_lifecycle_def sample_row_def sample_update_def ok_or_def lifecycle_key_def not_terminal f64_defs)

lemma two_merged:
  assumes "lc_filled_amount l = 1" "lc_fill_notional l = 0" "lc_first_source_ts_us l = 1500" "\<not> lc_terminal l"
  shows "\<exists>b. merge_lifecycle two_first l = Inr b \<and> lc_filled_amount b = 1 \<and> lc_first_source_ts_us b = 30 \<and> \<not> lc_terminal b"
  using assms two_first by (simp add: merge_lifecycle_def pg_add_def Let_def bind_res_def f64_defs rnd_one)

definition between_runs :: synth_db where
  "between_runs = \<lparr>sd_scope = Some (''intra'', 0, 0), sd_lifecycles = [((''BinanceMargin'', 7), two_first)], sd_hedges = [], sd_orders = [],
     sd_watermark = Some \<lparr>wm_source_read_through_us = 1000, wm_events_released_through_us = 999, wm_margin_finalized_through_us = 999,
       wm_verified_through_ms = 0, wm_reorder_window_us = 0\<rparr>\<rparr>"

lemma two_scope: "validate_synth_args two_args = Inr ()" "valid_schema ''intra''"
  subgoal by (simp add: validate_synth_args_def two_args_def supported_sources_def f64_defs)
  subgoal by code_simp
  done

lemma no_matches: "match_ready 0 [] db = Some (Inr (([], []), 0, 0))" if "sd_orders db = []"
  using that by (simp add: match_ready_def lifecycle_events_def text_error_def engine_new_def load_pending_orders_def engine_error_def f64_defs
    load_hedge_history_def seed_hedge_history_def engine_apply_def into_orders_def empty_engine_def)

lemma run_without_matches:
  assumes "sd_watermark db = Some w" "wm_source_read_through_us w = pl_source_start_us p" "upsert_lifecycles (pl_deltas p) (sd_lifecycles db) = Inr t"
    "\<forall>l \<in> snd ` set t. \<not> lc_terminal l" "sd_orders db = []" "sa_qty_epsilon args = 0"
  shows "\<exists>s. synth_transaction args p db = Some (Inr (update_watermark (pl_source_end_us p) (pl_released_through_us p)
    (margin_finalized_watermark (pl_released_through_us p) (db\<lparr>sd_lifecycles := t\<rparr>)) (pl_target_ms p) (pl_reorder_us p) (db\<lparr>sd_lifecycles := t\<rparr>), s))"
proof -
  have r: "load_ready_lifecycles r (db\<lparr>sd_lifecycles := t\<rparr>) = []" for r
    using assms(4) by (auto simp: load_ready_lifecycles_def ready_def filter_empty_conv)
  have k: "filter (\<lambda>(_, l). \<not> ready r l) t = t" for r using assms(4) by (auto simp: ready_def filter_id_conv)
  show ?thesis using assms
    by (simp add: synth_transaction_def load_watermark_def ok_or_def text_error_def Let_def r no_matches store_matches_def upsert_orders_def
      insert_hedges_def delete_released_lifecycles_def k)
qed

lemma first_run:
  assumes "between (two_db 0) = two_db 0" shows "\<exists>s. synthesise two_read two_args between (two_db 0) = Some (between_runs, Inr s)"
proof -
  have w: "center_windows 60000000 0 1000 = [(0, 1000)]"
    by (simp add: center_windows.simps [of _ 0] center_windows.simps [of _ 1000] saturating_add_i64_def clamp_i64_def i64_min_def i64_max_def Let_def)
  have f: "fetch_lifecycle_deltas two_read 1 0 1000 = Inr ([two_first], 1)"
    by (simp add: fetch_lifecycle_deltas_def checked_i64_def is_i64_def i64_min_def i64_max_def w two_read_def two_rows fold_frame_def fold_row_def
      sample_read_update sample_update_def two_first(1) [unfolded sample_update_def])
  let ?p = "\<lparr>pl_target_ms = 0, pl_source_start_us = 0, pl_source_end_us = 1000, pl_deltas = [two_first], pl_rows = Suc 0, pl_reorder_us = 0,
    pl_released_through_us = 999\<rparr>"
  have p: "plan_run two_read two_args 0 (two_db 0) = Inr ?p"
    by (simp add: plan_run_def two_args_def two_db_def two_mark_def f checked_i64_def is_i64_def i64_min_def i64_max_def load_watermark_def ok_or_def
      saturating_sub_i64_def clamp_i64_def)
  have u: "upsert_lifecycles (pl_deltas ?p) (sd_lifecycles (two_db 0)) = Inr [((''BinanceMargin'', 7), two_first)]"
    by (simp add: upsert_lifecycles_def upsert_lifecycle_def two_db_def two_first)
  obtain s where s: "synth_transaction two_args ?p (two_db 0) = Some (Inr (update_watermark 1000 999
      (margin_finalized_watermark 999 (two_db 0\<lparr>sd_lifecycles := [((''BinanceMargin'', 7), two_first)]\<rparr>)) 0 0
      (two_db 0\<lparr>sd_lifecycles := [((''BinanceMargin'', 7), two_first)]\<rparr>), s))"
    using run_without_matches [of "two_db 0" two_mark ?p _ two_args, OF _ _ u] two_first(7) by (auto simp: two_db_def two_mark_def two_args_def)
  have "margin_finalized_watermark 999 (two_db 0\<lparr>sd_lifecycles := [((''BinanceMargin'', 7), two_first)]\<rparr>) = 999"
    by (simp add: margin_finalized_watermark_def before_min_def load_pending_orders_def two_db_def pg_less_def two_first(2) f64_defs)
  with s have t: "synth_transaction two_args ?p (two_db 0) = Some (Inr (between_runs, s))"
    by (simp add: update_watermark_def two_db_def between_runs_def)
  have c: "sd_scope (two_db 0) = Some (''intra'', 0, 0)" "\<not> sa_rebuild two_args" by (simp_all add: two_db_def two_args_def)
  show ?thesis
    by (simp add: synthesise_def text_error_def two_scope strategy_scope_def ok_or_def validate_schema_def c p t assms)
qed

lemma second_run:
  "\<exists>db' s w. synthesise two_read two_args (\<lambda>d. d) (between_runs\<lparr>sd_scope := Some (''intra'', 0, 1)\<rparr>) = Some (db', Inr s) \<and>
     sd_watermark db' = Some w \<and> wm_margin_finalized_through_us w = 29"
proof -
  let ?d = "between_runs\<lparr>sd_scope := Some (''intra'', 0, 1)\<rparr>"
  obtain l where l: "fresh_lifecycle (sample_row ''PARTIALLY_FILLED'' 1 1500) ((sample_update ''PARTIALLY_FILLED'' 1500)\<lparr>ou_fill := 1\<rparr>) = Inr l"
    "lc_filled_amount l = 1" "lc_fill_notional l = 0" "lifecycle_key l = (''BinanceMargin'', 7)" "lc_first_source_ts_us l = 1500" "\<not> lc_terminal l"
    using two_second by blast
  obtain b where b: "merge_lifecycle two_first l = Inr b" "lc_filled_amount b = 1" "lc_first_source_ts_us b = 30" "\<not> lc_terminal b"
    using two_merged [OF l(2,3,5,6)] by blast
  have w: "center_windows 60000000 1000 2000 = [(1000, 2000)]"
    by (simp add: center_windows.simps [of _ 1000] center_windows.simps [of _ 2000] saturating_add_i64_def clamp_i64_def i64_min_def i64_max_def Let_def)
  have k: "ou_key ((sample_update ''PARTIALLY_FILLED'' 1500)\<lparr>ou_fill := 1\<rparr>) = (''BinanceMargin'', 7)" by (simp add: sample_update_def)
  have f: "fetch_lifecycle_deltas two_read 1 1000 2000 = Inr ([l], Suc 0)"
    by (simp add: fetch_lifecycle_deltas_def checked_i64_def is_i64_def i64_min_def i64_max_def w two_read_def two_rows fold_frame_def fold_row_def
      two_update k l(1))
  let ?p = "\<lparr>pl_target_ms = 1, pl_source_start_us = 1000, pl_source_end_us = 2000, pl_deltas = [l], pl_rows = Suc 0, pl_reorder_us = 0,
    pl_released_through_us = 1999\<rparr>"
  have p: "plan_run two_read two_args 1 ?d = Inr ?p"
    by (simp add: plan_run_def two_args_def between_runs_def f checked_i64_def is_i64_def i64_min_def i64_max_def load_watermark_def ok_or_def
      saturating_sub_i64_def clamp_i64_def)
  have u: "upsert_lifecycles (pl_deltas ?p) (sd_lifecycles ?d) = Inr [((''BinanceMargin'', 7), b)]"
    by (simp add: upsert_lifecycles_def upsert_lifecycle_def between_runs_def l(4) b(1))
  let ?e = "?d\<lparr>sd_lifecycles := [((''BinanceMargin'', 7), b)]\<rparr>"
  obtain s where s: "synth_transaction two_args ?p ?d = Some (Inr (update_watermark 2000 1999 (margin_finalized_watermark 1999 ?e) 1 0 ?e, s))"
    using run_without_matches [of ?d _ ?p _ two_args, OF _ _ u] b(4) by (auto simp: between_runs_def two_args_def)
  have m: "margin_finalized_watermark 1999 ?e = 29"
    by (simp add: margin_finalized_watermark_def before_min_def load_pending_orders_def between_runs_def pg_less_def b(2,3) f64_defs)
  have c: "sd_scope ?d = Some (''intra'', 0, 1)" "\<not> sa_rebuild two_args" by (simp_all add: two_args_def)
  show ?thesis
    by (simp add: synthesise_def text_error_def two_scope strategy_scope_def ok_or_def validate_schema_def c(2) p s m)
      (simp add: update_watermark_def between_runs_def)
qed

text \<open>The finalised boundary may move back: an order first seen at 30, without a fill, does not hold it at 999; a fill of the order at 1500
  brings it to 29, although the boundary is described as a prefix of the source that pending orders no longer block.\<close>

lemma finalized_moves_back:
  "\<exists>db s db' s' w w'. synthesise two_read two_args (\<lambda>d. d) (two_db 0) = Some (db, Inr s) \<and> sd_watermark db = Some w \<and>
     synthesise two_read two_args (\<lambda>d. d) (db\<lparr>sd_scope := Some (''intra'', 0, 1)\<rparr>) = Some (db', Inr s') \<and> sd_watermark db' = Some w' \<and>
     wm_margin_finalized_through_us w' < wm_margin_finalized_through_us w"
proof -
  obtain s db' s' w' where r: "synthesise two_read two_args (\<lambda>d. d) (two_db 0) = Some (between_runs, Inr s)"
    "synthesise two_read two_args (\<lambda>d. d) (between_runs\<lparr>sd_scope := Some (''intra'', 0, 1)\<rparr>) = Some (db', Inr s')"
    "sd_watermark db' = Some w'" "wm_margin_finalized_through_us w' = 29" using first_run [of "\<lambda>d. d"] second_run by blast
  obtain w where w: "sd_watermark between_runs = Some w" "wm_margin_finalized_through_us w = 999" by (simp add: between_runs_def)
  show ?thesis by (intro exI conjI, rule r(1), rule w(1), rule r(2), rule r(3)) (simp add: r(4) w(2))
qed


end
