(* ===== verification/IntraLatency.thy ===== *)
theory IntraLatency
  imports ContractMultipliers
begin

text \<open>
  \<open>src/src/intra_latency.rs\<close>: latencies of orders by hour.  Windows of whole hours are planned from a requested range and the clock; the rows
  of one hour give the quantiles of four latencies; computed hours are kept by strategy and start.  The clock and the environment
  variable are arguments.  Not modelled: the loop that waits for the next hour and starts the program.
\<close>

section \<open>Windows\<close>

definition hour_ms :: int where "hour_ms = 3600000"

definition supported_slugs :: "string list" where
  "supported_slugs = [''binance-intra-arb01'', ''bybit-intra-arb01'']"

definition supports_hourly_latency :: "string \<Rightarrow> bool" where
  "supports_hourly_latency slug \<longleftrightarrow> slug \<in> set supported_slugs"

definition floor_hour_ms :: "int \<Rightarrow> string + int" where
  "floor_hour_ms ts_ms = (if ts_ms < 0 then Inl ''timestamp must be non-negative'' else Inr (ts_ms - ts_ms mod hour_ms))"

definition last_complete_hour_end_ms :: "int \<Rightarrow> string + int" where
  "last_complete_hour_end_ms now_ms = floor_hour_ms now_ms"

definition last_complete_hour_start_ms :: "int \<Rightarrow> string + int" where
  "last_complete_hour_start_ms now_ms = bind_res (last_complete_hour_end_ms now_ms) (\<lambda>e. Inr (saturating_sub_i64 e hour_ms))"

type_synonym hour_window = "int \<times> int"

definition new_hour_window :: "int \<Rightarrow> string + hour_window" where
  "new_hour_window start_ms =
     (if start_ms mod hour_ms \<noteq> 0 then Inl ''latency window must start on an hour boundary''
      else if \<not> is_i64 (start_ms + hour_ms) then Inl ''hour window overflow''
      else Inr (start_ms, start_ms + hour_ms))"

function hour_windows :: "int \<Rightarrow> int \<Rightarrow> string + hour_window list" where
  "hour_windows cursor end_ms =
     (if cursor < end_ms
      then bind_res (new_hour_window cursor) (\<lambda>w.
        if \<not> is_i64 (cursor + hour_ms) then Inl ''hour window overflow''
        else bind_res (hour_windows (cursor + hour_ms) end_ms) (\<lambda>ws. Inr (w # ws)))
      else Inr [])"
  by pat_completeness auto
termination
  by (relation "measure (\<lambda>(cursor, end_ms). nat (end_ms - cursor))") (auto simp: hour_ms_def)

declare hour_windows.simps [simp del]

definition planned_hour_windows :: "int \<Rightarrow> int option \<Rightarrow> int option \<Rightarrow> string + hour_window list" where
  "planned_hour_windows now_ms range_start_ms range_end_ms =
     bind_res (last_complete_hour_end_ms now_ms) (\<lambda>last_complete_end_ms.
       if last_complete_end_ms = 0 then Inl ''no complete hour is available yet''
       else bind_res (last_complete_hour_start_ms now_ms) (\<lambda>default_start_ms.
         let start_ms = (case range_start_ms of None \<Rightarrow> default_start_ms | Some s \<Rightarrow> s);
             requested_end_ms = (case range_end_ms of None \<Rightarrow> saturating_add_i64 start_ms hour_ms | Some e \<Rightarrow> e)
         in if start_ms mod hour_ms \<noteq> 0 then Inl ''--window-start-ms must be aligned to an hour''
            else if requested_end_ms mod hour_ms \<noteq> 0 then Inl ''--window-end-ms must be aligned to an hour''
            else if requested_end_ms \<le> start_ms then Inl ''recompute range end must be after start''
            else
              let end_ms = min requested_end_ms last_complete_end_ms
              in if end_ms \<le> start_ms then Inl ''no complete hour is available in the requested range''
                 else bind_res (hour_windows start_ms end_ms) (\<lambda>windows.
                   if windows = [] then Inl ''no complete hour is available in the requested range'' else Inr windows)))"

section \<open>Latencies of one hour\<close>

record latency_order_row =
  lr_ts_us :: int
  lr_trading_venue :: string
  lr_status :: string
  lr_create_ts :: int
  lr_update_ts :: int
  lr_signal_ts :: int
  lr_signal_open_ts :: int
  lr_signal_hedge_ts :: int

record latency_quantiles =
  lq_sample_count :: nat
  lq_normal_count :: nat
  lq_p50_ms :: "f64 option"
  lq_p90_ms :: "f64 option"

record hourly_latency_point =
  hp_strategy_slug :: string
  hp_window_start_ms :: int
  hp_window_end_ms :: int
  hp_computed_at_ms :: int
  hp_margin_new_create :: latency_quantiles
  hp_futures_new_create :: latency_quantiles
  hp_spot_trigger :: latency_quantiles
  hp_futures_trigger :: latency_quantiles

datatype trigger_leg = SpotLeg | FuturesLeg

definition classify_trigger_leg :: "int \<Rightarrow> int \<Rightarrow> trigger_leg option" where
  "classify_trigger_leg open_ts hedge_ts =
     (if open_ts \<le> 0 \<or> hedge_ts \<le> 0 then None
      else if hedge_ts < open_ts then Some SpotLeg
      else if open_ts < hedge_ts then Some FuturesLeg
      else None)"

definition is_new_status :: "string \<Rightarrow> bool" where
  "is_new_status s \<longleftrightarrow> eq_ignore_ascii_case s ''NEW''"

definition is_margin_venue :: "string \<Rightarrow> bool" where
  "is_margin_venue venue \<longleftrightarrow> eq_ignore_ascii_case venue ''BinanceMargin'' \<or> eq_ignore_ascii_case venue ''BybitMargin''"

definition is_futures_venue :: "string \<Rightarrow> bool" where
  "is_futures_venue venue \<longleftrightarrow> eq_ignore_ascii_case venue ''BinanceFutures'' \<or> eq_ignore_ascii_case venue ''BybitFutures''"

definition latency_ms :: "int \<Rightarrow> int \<Rightarrow> f64 option" where
  "latency_ms lhs rhs = (if lhs \<le> 0 \<or> rhs \<le> 0 then None else Some (f64_of_int (lhs - rhs) / Fin 1000))"

text \<open>\<open>f64::total_cmp\<close> without the signs of zeros and NaN, as a rank.\<close>

fun f64_rank :: "f64 \<Rightarrow> int \<times> rat" where
  "f64_rank (Inf True) = (0, 0)" | "f64_rank (Fin q) = (1, q)" | "f64_rank (Inf False) = (2, 0)" | "f64_rank NaN = (3, 0)"

definition percentile :: "f64 list \<Rightarrow> f64 \<Rightarrow> f64 option" where
  "percentile sorted_values q =
     (if sorted_values = [] then None
      else (case q * f64_of_int (int (length sorted_values - 1)) of
          Fin rank \<Rightarrow>
            let lower = nat \<lfloor>rank\<rfloor>; upper = nat \<lceil>rank\<rceil>
            in if lower = upper then Some (sorted_values ! lower)
               else let weight = Fin rank - f64_of_int (int lower)
                    in Some (sorted_values ! lower * (1 - weight) + sorted_values ! upper * weight)
        | _ \<Rightarrow> None))"

definition quantiles :: "f64 list \<Rightarrow> f64 \<Rightarrow> latency_quantiles" where
  "quantiles samples normal_max_ms =
     (let normal = sort_key f64_rank (filter (\<lambda>v. is_finite v \<and> 0 \<le> v \<and> v \<le> normal_max_ms) samples)
      in \<lparr>lq_sample_count = length samples, lq_normal_count = length normal, lq_p50_ms = percentile normal (rnd (1 / 2)),
        lq_p90_ms = percentile normal (rnd (9 / 10))\<rparr>)"

definition normal_max_ms :: f64 where "normal_max_ms = Fin 100"

text \<open>The samples of the four latencies: margin, futures, spot trigger, futures trigger.\<close>

type_synonym latency_samples = "f64 list \<times> f64 list \<times> f64 list \<times> f64 list"

definition push_some :: "'a option \<Rightarrow> 'a list \<Rightarrow> 'a list" where
  "push_some x xs = (case x of None \<Rightarrow> xs | Some v \<Rightarrow> xs @ [v])"

definition latency_row :: "int \<Rightarrow> int \<Rightarrow> latency_order_row \<Rightarrow> latency_samples \<Rightarrow> latency_samples" where
  "latency_row window_start_us window_end_us row = (\<lambda>(m, f, s, t).
     if lr_ts_us row < window_start_us \<or> window_end_us \<le> lr_ts_us row \<or> \<not> is_new_status (lr_status row) then (m, f, s, t)
     else if is_margin_venue (lr_trading_venue row)
     then (let m = push_some (latency_ms (lr_update_ts row) (lr_create_ts row)) m
           in if 0 < lr_signal_ts row
              then (case classify_trigger_leg (lr_signal_open_ts row) (lr_signal_hedge_ts row) of
                  Some SpotLeg \<Rightarrow> (m, f, push_some (latency_ms (lr_signal_ts row) (lr_signal_open_ts row)) s, t)
                | Some FuturesLeg \<Rightarrow> (m, f, s, push_some (latency_ms (lr_signal_ts row) (lr_signal_hedge_ts row)) t)
                | None \<Rightarrow> (m, f, s, t))
              else (m, f, s, t))
     else if is_futures_venue (lr_trading_venue row) then (m, push_some (latency_ms (lr_update_ts row) (lr_create_ts row)) f, s, t)
     else (m, f, s, t))"

definition compute_hourly_latency :: "string \<Rightarrow> int \<Rightarrow> int \<Rightarrow> int \<Rightarrow> latency_order_row list \<Rightarrow> string + hourly_latency_point" where
  "compute_hourly_latency slug window_start_ms window_end_ms computed_at_ms rows =
     (if \<not> supports_hourly_latency slug then Inl (''hourly latency is not configured for '' @ slug)
      else if window_end_ms \<le> window_start_ms then Inl ''latency window end must be after start''
      else if window_end_ms - window_start_ms \<noteq> hour_ms then Inl ''latency window must be exactly one hour''
      else if window_start_ms mod hour_ms \<noteq> 0 then Inl ''latency window must start on an hour boundary''
      else
        let (m, f, s, t) = fold (latency_row (saturating_mul_i64 window_start_ms 1000) (saturating_mul_i64 window_end_ms 1000)) rows ([], [], [], [])
        in Inr \<lparr>hp_strategy_slug = slug, hp_window_start_ms = window_start_ms, hp_window_end_ms = window_end_ms,
             hp_computed_at_ms = computed_at_ms, hp_margin_new_create = quantiles m normal_max_ms,
             hp_futures_new_create = quantiles f normal_max_ms, hp_spot_trigger = quantiles s normal_max_ms,
             hp_futures_trigger = quantiles t normal_max_ms\<rparr>)"

section \<open>Computed hours\<close>

type_synonym hourly_latency_store = "((string \<times> int) \<times> hourly_latency_point) list"

definition store_upsert :: "hourly_latency_point \<Rightarrow> hourly_latency_store \<Rightarrow> hourly_latency_store" where
  "store_upsert point rows = bt_insert (hp_strategy_slug point, hp_window_start_ms point) point rows"

record hourly_latency_series =
  hs_strategy_slug :: string
  hs_points :: "hourly_latency_point list"

definition store_load :: "hourly_latency_store \<Rightarrow> string \<Rightarrow> int \<Rightarrow> int \<Rightarrow> hourly_latency_series" where
  "store_load rows slug start_ms end_ms = \<lparr>hs_strategy_slug = slug,
     hs_points = filter (\<lambda>p. hp_strategy_slug p = slug \<and> start_ms \<le> hp_window_start_ms p \<and> hp_window_start_ms p < end_ms) (map snd rows)\<rparr>"

section \<open>The schedule\<close>

text \<open>The interval from the environment: a positive number of whole minutes, \<open>None\<close> when disabled.\<close>

definition latency_interval_secs :: "string option \<Rightarrow> string + nat option" where
  "latency_interval_secs var =
     bind_res (case var of None \<Rightarrow> Inr 3600
       | Some v \<Rightarrow> ok_or ''CRYPTO_NAV_HOURLY_LATENCY_SECS must be an integer'' (parse_unsigned (2 ^ 64 - 1) v)) (\<lambda>secs.
     if secs = 0 then Inr None
     else if secs mod 60 \<noteq> 0 then Inl ''CRYPTO_NAV_HOURLY_LATENCY_SECS must be a whole number of minutes''
     else Inr (Some secs))"

definition delay_until_next_hour :: "int \<Rightarrow> string + int \<times> int" where
  "delay_until_next_hour now_ms =
     bind_res (floor_hour_ms now_ms) (\<lambda>h.
       if \<not> is_i64 (h + hour_ms) then Inl ''next hour overflow'' else Inr (h + hour_ms - now_ms, h + hour_ms))"

section \<open>What holds of windows and hours\<close>

lemma hour_windows_from:
  assumes "a mod hour_ms = 0" "i64_min \<le> a" "a + hour_ms * int n \<le> i64_max"
  shows "hour_windows a (a + hour_ms * int n) = Inr (map (\<lambda>i. (a + hour_ms * int i, a + hour_ms * int i + hour_ms)) [0..<n])"
  using assms
proof (induction n arbitrary: a)
  case 0
  then show ?case by (simp add: hour_windows.simps)
next
  case (Suc n)
  have h: "0 < hour_ms" by (simp add: hour_ms_def)
  have "0 \<le> hour_ms * int n" using h by simp
  moreover have "a + hour_ms + hour_ms * int n \<le> i64_max" using Suc.prems(3) by (simp add: distrib_left)
  ultimately have w: "is_i64 (a + hour_ms)" using Suc.prems(2) h unfolding is_i64_def by linarith
  have e: "a + hour_ms * int (Suc n) = (a + hour_ms) + hour_ms * int n" by (simp add: distrib_left)
  have lt: "a < a + hour_ms * int (Suc n)" using h by simp
  have "(a + hour_ms) mod hour_ms = 0" using Suc.prems(1) by simp
  then have IH: "hour_windows (a + hour_ms) ((a + hour_ms) + hour_ms * int n) =
      Inr (map (\<lambda>i. (a + hour_ms + hour_ms * int i, a + hour_ms + hour_ms * int i + hour_ms)) [0..<n])"
    using Suc.IH [of "a + hour_ms"] Suc.prems w e by (simp add: is_i64_def)
  have m: "map (\<lambda>i. (a + hour_ms * int i, a + hour_ms * int i + hour_ms)) [0..<Suc n] =
      (a, a + hour_ms) # map (\<lambda>i. (a + hour_ms + hour_ms * int i, a + hour_ms + hour_ms * int i + hour_ms)) [0..<n]"
    unfolding map_upt_Suc by (simp add: algebra_simps)
  have "hour_windows a (a + hour_ms * int (Suc n)) = bind_res (Inr (a, a + hour_ms)) (\<lambda>w.
      bind_res (hour_windows (a + hour_ms) ((a + hour_ms) + hour_ms * int n)) (\<lambda>ws. Inr (w # ws)))"
    using lt w Suc.prems(1) unfolding e hour_windows.simps [of a "(a + hour_ms) + hour_ms * int n"] by (simp add: new_hour_window_def)
  then show ?case unfolding m IH by simp
qed

text \<open>The hours planned for a request are exactly the whole hours from its start (by default the last complete hour) to its end or the
  last complete hour, whichever comes first: consecutive, an hour long, aligned and complete; the plan fails exactly when a bound is not
  aligned or no complete hour lies between them.\<close>

theorem planned_hour_windows_tile:
  assumes "0 \<le> now_ms" "now_ms \<le> i64_max" "\<forall>s. range_start_ms = Some s \<longrightarrow> is_i64 s" "\<forall>e. range_end_ms = Some e \<longrightarrow> is_i64 e"
  shows "planned_hour_windows now_ms range_start_ms range_end_ms = Inr ws \<longleftrightarrow>
    (let complete = now_ms - now_ms mod hour_ms;
         start = (case range_start_ms of None \<Rightarrow> complete - hour_ms | Some s \<Rightarrow> s);
         stop = (case range_end_ms of None \<Rightarrow> saturating_add_i64 start hour_ms | Some e \<Rightarrow> e)
     in 0 < complete \<and> start mod hour_ms = 0 \<and> stop mod hour_ms = 0 \<and> start < min stop complete \<and>
        ws = map (\<lambda>i. (start + hour_ms * int i, start + hour_ms * int i + hour_ms)) [0..<nat ((min stop complete - start) div hour_ms)])"
proof -
  define complete where "complete = now_ms - now_ms mod hour_ms"
  define start where "start = (case range_start_ms of None \<Rightarrow> complete - hour_ms | Some s \<Rightarrow> s)"
  define stop where "stop = (case range_end_ms of None \<Rightarrow> saturating_add_i64 start hour_ms | Some e \<Rightarrow> e)"
  have h: "0 < hour_ms" "hour_ms < i64_max" by (simp_all add: hour_ms_def i64_max_def)
  have c: "0 \<le> complete" "complete \<le> i64_max" "complete mod hour_ms = 0"
    using assms(2) pos_mod_sign [OF h(1), of now_ms] zmod_le_nonneg_dividend [OF assms(1), of hour_ms] unfolding complete_def
    by (linarith, linarith, simp add: mod_diff_eq [symmetric, of now_ms])
  have d: "saturating_sub_i64 complete hour_ms = complete - hour_ms" using c h by (simp add: saturating_sub_i64_def clamp_i64_def i64_min_def hour_ms_def)
  have i: "i64_min \<le> start" using assms(3) c(1) by (auto simp: start_def is_i64_def i64_min_def hour_ms_def split: option.splits)
  have w: "hour_windows start (min stop complete) =
      Inr (map (\<lambda>i. (start + hour_ms * int i, start + hour_ms * int i + hour_ms)) [0..<nat ((min stop complete - start) div hour_ms)])"
    if a: "start mod hour_ms = 0" "stop mod hour_ms = 0" "start < min stop complete"
  proof -
    let ?n = "nat ((min stop complete - start) div hour_ms)"
    have "(min stop complete - start) mod hour_ms = 0" using a(1,2) c(3) by (auto simp: min_def mod_diff_eq [symmetric])
    then have n: "start + hour_ms * int ?n = min stop complete" using a(3) h(1) by (simp add: pos_imp_zdiv_nonneg_iff mult_div_mod_eq minus_mod_eq_mult_div [symmetric])
    then show ?thesis using hour_windows_from [OF a(1) i, of ?n] c(2) by simp
  qed
  have n: "0 < nat ((min stop complete - start) div hour_ms)"
    if a: "start mod hour_ms = 0" "stop mod hour_ms = 0" "start < min stop complete"
  proof -
    have "(min stop complete - start) mod hour_ms = 0" using a(1,2) c(3) by (auto simp: min_def mod_diff_eq [symmetric])
    then have "hour_ms \<le> min stop complete - start" using a(3) h(1) by (intro zdvd_imp_le) (auto simp: dvd_eq_mod_eq_0)
    then show ?thesis using h(1) by (simp add: pos_imp_zdiv_pos_iff)
  qed
  have hours: "last_complete_hour_end_ms now_ms = Inr complete" "last_complete_hour_start_ms now_ms = Inr (complete - hour_ms)"
    using assms(1) d by (simp_all add: last_complete_hour_start_ms_def last_complete_hour_end_ms_def floor_hour_ms_def flip: complete_def)
  have p: "planned_hour_windows now_ms range_start_ms range_end_ms =
      (if complete = 0 then Inl ''no complete hour is available yet''
       else if start mod hour_ms \<noteq> 0 then Inl ''--window-start-ms must be aligned to an hour''
       else if stop mod hour_ms \<noteq> 0 then Inl ''--window-end-ms must be aligned to an hour''
       else if stop \<le> start then Inl ''recompute range end must be after start''
       else if min stop complete \<le> start then Inl ''no complete hour is available in the requested range''
       else bind_res (hour_windows start (min stop complete)) (\<lambda>windows.
         if windows = [] then Inl ''no complete hour is available in the requested range'' else Inr windows))"
    unfolding planned_hour_windows_def hours bind_res_def sum.case Let_def start_def [symmetric] unfolding stop_def [symmetric] ..
  show ?thesis unfolding Let_def complete_def [symmetric] unfolding start_def [symmetric] unfolding stop_def [symmetric]
  proof (cases "0 < complete \<and> start mod hour_ms = 0 \<and> stop mod hour_ms = 0 \<and> start < min stop complete")
    case True
    then show "planned_hour_windows now_ms range_start_ms range_end_ms = Inr ws \<longleftrightarrow> 0 < complete \<and> start mod hour_ms = 0 \<and> stop mod hour_ms = 0 \<and>
        start < min stop complete \<and> ws = map (\<lambda>i. (start + hour_ms * int i, start + hour_ms * int i + hour_ms)) [0..<nat ((min stop complete - start) div hour_ms)]"
      using w n unfolding p by auto
  next
    case False
    then show "planned_hour_windows now_ms range_start_ms range_end_ms = Inr ws \<longleftrightarrow> 0 < complete \<and> start mod hour_ms = 0 \<and> stop mod hour_ms = 0 \<and>
        start < min stop complete \<and> ws = map (\<lambda>i. (start + hour_ms * int i, start + hour_ms * int i + hour_ms)) [0..<nat ((min stop complete - start) div hour_ms)]"
      using c(1) unfolding p by (auto split: if_splits)
  qed
qed

theorem planned_hour_windows_tile_witness:
  "planned_hour_windows 10000000 None None = Inr [(3600000, 7200000)]"
  using planned_hour_windows_tile [of 10000000 None None "[(3600000, 7200000)]"]
  by (simp add: hour_ms_def i64_max_def saturating_add_i64_def clamp_i64_def i64_min_def Let_def)

end
