(* ===== verification/LatencySync.thy ===== *)
theory LatencySync
  imports IntraLatency IntraSync
begin

text \<open>
  \<open>src/src/bin/sync_intra_hourly_latency.rs\<close>: stores the latencies of the planned hours of every enabled strategy.  The persist service, the
  clock and the set of enabled strategies are arguments; a cell of a nullable or missing column is an option; the table is the map of
  computed hours.  A run that fails keeps the hours it stored before.
\<close>

section \<open>Rows\<close>

record latency_cells =
  cl_ts_us :: "int option"
  cl_trading_venue :: "string option"
  cl_status :: "string option"
  cl_create_ts :: "int option"
  cl_update_ts :: "int option"
  cl_signal_ts :: "int option"
  cl_signal_open_ts :: "int option"
  cl_signal_hedge_ts :: "int option"

definition or_zero_cell :: "int option \<Rightarrow> int" where
  "or_zero_cell c = (case c of None \<Rightarrow> 0 | Some n \<Rightarrow> n)"

definition append_latency_row :: "latency_cells \<Rightarrow> latency_order_row list \<Rightarrow> string + latency_order_row list" where
  "append_latency_row c rows =
     bind_res (ok_or ''null ts_us'' (cl_ts_us c)) (\<lambda>ts. Inr (rows @ [\<lparr>lr_ts_us = ts, lr_trading_venue = or_text (cl_trading_venue c) [],
       lr_status = or_text (cl_status c) [], lr_create_ts = or_zero_cell (cl_create_ts c), lr_update_ts = or_zero_cell (cl_update_ts c),
       lr_signal_ts = or_zero_cell (cl_signal_ts c), lr_signal_open_ts = or_zero_cell (cl_signal_open_ts c),
       lr_signal_hedge_ts = or_zero_cell (cl_signal_hedge_ts c)\<rparr>]))"

definition append_latency_rows :: "latency_cells list \<Rightarrow> latency_order_row list \<Rightarrow> string + latency_order_row list" where
  "append_latency_rows cells rows = fold_res append_latency_row cells rows"

definition fetch_latency_window :: "(int \<Rightarrow> int \<Rightarrow> string + latency_cells list) \<Rightarrow> int \<times> int \<Rightarrow> latency_order_row list \<times> nat \<Rightarrow>
    string + latency_order_row list \<times> nat" where
  "fetch_latency_window read = (\<lambda>(a, b) (rows, n). bind_res (read a b) (\<lambda>cells.
     bind_res (append_latency_rows cells rows) (\<lambda>rows. Inr (rows, n + length cells))))"

definition fetch_latency_rows :: "(int \<Rightarrow> int \<Rightarrow> string + latency_cells list) \<Rightarrow> int \<Rightarrow> int \<Rightarrow> int \<Rightarrow> string + latency_order_row list \<times> nat" where
  "fetch_latency_rows read source_chunk_minutes window_start_ms window_end_ms =
     bind_res (checked_i64 ''window start overflows microseconds'' (window_start_ms * 1000)) (\<lambda>start_us.
     bind_res (checked_i64 ''window end overflows microseconds'' (window_end_ms * 1000)) (\<lambda>end_us.
     bind_res (checked_i64 ''source chunk overflow'' (source_chunk_minutes * 60000000)) (\<lambda>chunk_us.
       fold_res (fetch_latency_window read) (center_windows chunk_us start_us end_us) ([], 0))))"

section \<open>A run\<close>

record latency_args =
  la_strategy :: "string list"
  la_window_start_ms :: "int option"
  la_window_end_ms :: "int option"
  la_source_chunk_minutes :: int

record latency_summary =
  ls_strategy :: string
  ls_window_start_ms :: int
  ls_window_end_ms :: int
  ls_downloaded_rows :: nat
  ls_margin_new_create_count :: nat
  ls_futures_new_create_count :: nat
  ls_spot_trigger_count :: nat
  ls_futures_trigger_count :: nat

definition latency_hour :: "(string \<Rightarrow> int \<Rightarrow> int \<Rightarrow> string + latency_cells list) \<Rightarrow> latency_args \<Rightarrow> int \<Rightarrow> string \<Rightarrow> hour_window \<Rightarrow>
    string + hourly_latency_point \<times> latency_summary" where
  "latency_hour read args now_ms slug = (\<lambda>(window_start_ms, window_end_ms).
     bind_res (fetch_latency_rows (read slug) (la_source_chunk_minutes args) window_start_ms window_end_ms) (\<lambda>(rows, downloaded_rows).
     bind_res (compute_hourly_latency slug window_start_ms window_end_ms now_ms rows) (\<lambda>point.
       Inr (point, \<lparr>ls_strategy = slug, ls_window_start_ms = window_start_ms, ls_window_end_ms = window_end_ms,
         ls_downloaded_rows = downloaded_rows, ls_margin_new_create_count = lq_sample_count (hp_margin_new_create point),
         ls_futures_new_create_count = lq_sample_count (hp_futures_new_create point),
         ls_spot_trigger_count = lq_sample_count (hp_spot_trigger point),
         ls_futures_trigger_count = lq_sample_count (hp_futures_trigger point)\<rparr>))))"

text \<open>The two loops: the table after them, and the summaries or the first error.\<close>

fun latency_hours :: "(string \<Rightarrow> int \<Rightarrow> int \<Rightarrow> string + latency_cells list) \<Rightarrow> latency_args \<Rightarrow> int \<Rightarrow> (string \<times> hour_window) list \<Rightarrow>
    hourly_latency_store \<Rightarrow> latency_summary list \<Rightarrow> hourly_latency_store \<times> (string + latency_summary list)" where
  "latency_hours read args now_ms [] table summaries = (table, Inr summaries)"
| "latency_hours read args now_ms ((slug, w) # jobs) table summaries =
     (case latency_hour read args now_ms slug w of
        Inl e \<Rightarrow> (table, Inl e)
      | Inr (point, s) \<Rightarrow> latency_hours read args now_ms jobs (store_upsert point table) (summaries @ [s]))"

definition requested_slugs :: "latency_args \<Rightarrow> string list" where
  "requested_slugs args = (if la_strategy args = [] then supported_slugs else la_strategy args)"

definition latency_strategies :: "latency_args \<Rightarrow> string set \<Rightarrow> string list" where
  "latency_strategies args enabled =
     (if la_strategy args \<noteq> [] then requested_slugs args else filter (\<lambda>s. s \<in> enabled) (requested_slugs args))"

definition sync_hourly_latency :: "(string \<Rightarrow> int \<Rightarrow> int \<Rightarrow> string + latency_cells list) \<Rightarrow> latency_args \<Rightarrow> int \<Rightarrow> string set \<Rightarrow>
    hourly_latency_store \<Rightarrow> hourly_latency_store \<times> (string + latency_summary list)" where
  "sync_hourly_latency read args now_ms enabled table =
     (if la_source_chunk_minutes args \<le> 0 then (table, Inl ''--source-chunk-minutes must be positive'')
      else if \<exists>s \<in> set (requested_slugs args). \<not> supports_hourly_latency s then (table, Inl ''unsupported hourly latency strategy'')
      else (case planned_hour_windows now_ms (la_window_start_ms args) (la_window_end_ms args) of
          Inl e \<Rightarrow> (table, Inl e)
        | Inr windows \<Rightarrow>
            latency_hours read args now_ms (concat (map (\<lambda>s. map (\<lambda>w. (s, w)) windows) (latency_strategies args enabled))) table []))"

section \<open>What a run stores\<close>

lemma append_latency_rows_append: "append_latency_rows (xs @ ys) rows = bind_res (append_latency_rows xs rows) (append_latency_rows ys)"
  by (simp add: append_latency_rows_def [abs_def] fold_res_append)

lemma fetched_latency_rows:
  assumes "fetch_latency_rows read chunk s e = Inr (rows, n)" "half_open journal read" "0 < chunk" "s \<le> e"
  shows "append_latency_rows (log_rows journal (s * 1000) (e * 1000)) [] = Inr rows"
proof -
  have b: "i64_min \<le> s * 1000" "e * 1000 \<le> i64_max" "0 < chunk * 60000000" "s * 1000 \<le> e * 1000"
    and f: "fold_res (fetch_latency_window read) (center_windows (chunk * 60000000) (s * 1000) (e * 1000)) ([], 0) = Inr (rows, n)"
    using assms(1,3,4) by (auto simp: fetch_latency_rows_def checked_i64_def is_i64_def bind_res_Inr split: if_splits)
  have "append_latency_rows (log_rows journal (s * 1000) (e * 1000)) (fst ([], 0 :: nat)) = Inr (fst (rows, n))"
  proof (rule center_windows_log [OF assms(2) b(3,4,1,2) _ _ _ f, where P = "\<lambda>cells s s'. append_latency_rows cells (fst s) = Inr (fst s')"])
    fix a b s s' assume "fetch_latency_window read (a, b) s = Inr s'"
    then show "append_latency_rows (log_rows journal a b) (fst s) = Inr (fst s')" using assms(2)
      by (cases s) (auto simp: fetch_latency_window_def half_open_def bind_res_Inr)
  qed (simp_all add: append_latency_rows_def [of "[]"] append_latency_rows_append bind_res_Inr)
  then show ?thesis by simp
qed

text \<open>The point of an hour: computed from the rows of the log within it.\<close>

definition hour_point :: "(string \<Rightarrow> (int \<times> latency_cells) list) \<Rightarrow> int \<Rightarrow> string \<Rightarrow> hour_window \<Rightarrow> string + hourly_latency_point" where
  "hour_point journal now_ms slug = (\<lambda>(s, e). bind_res (append_latency_rows (log_rows (journal slug) (s * 1000) (e * 1000)) [])
     (compute_hourly_latency slug s e now_ms))"

lemma latency_hour_point:
  assumes "latency_hour read args now_ms slug (s, e) = Inr (p, sm)" "\<forall>slug. half_open (journal slug) (read slug)"
    "0 < la_source_chunk_minutes args"
  shows "hour_point journal now_ms slug (s, e) = Inr p" "hp_strategy_slug p = slug" "hp_window_start_ms p = s"
proof -
  obtain rows n where r: "fetch_latency_rows (read slug) (la_source_chunk_minutes args) s e = Inr (rows, n)"
    and c: "compute_hourly_latency slug s e now_ms rows = Inr p" using assms(1) by (auto simp: latency_hour_def bind_res_Inr)
  have p: "s \<le> e" "hp_strategy_slug p = slug" "hp_window_start_ms p = s"
    using c by (auto simp: compute_hourly_latency_def Let_def split: if_splits prod.splits)
  then show "hour_point journal now_ms slug (s, e) = Inr p" "hp_strategy_slug p = slug" "hp_window_start_ms p = s"
    using fetched_latency_rows [OF r _ assms(3), of "journal slug"] assms(2) c by (auto simp: hour_point_def bind_res_Inr)
qed

lemma latency_hours_stored:
  assumes "latency_hours read args now_ms jobs table ss = (table', r)" "\<forall>slug. half_open (journal slug) (read slug)"
    "0 < la_source_chunk_minutes args" "bt_wf table" "\<forall>w w' slug. (slug, w) \<in> set jobs \<longrightarrow> (slug, w') \<in> set jobs \<longrightarrow> fst w = fst w' \<longrightarrow> w = w'"
  shows "bt_wf table' \<and> (\<forall>k. map_of table' k = map_of table k \<or>
      (\<exists>slug s e p. (slug, s, e) \<in> set jobs \<and> k = (slug, s) \<and> map_of table' k = Some p \<and> hour_point journal now_ms slug (s, e) = Inr p)) \<and>
    (\<forall>ss'. r = Inr ss' \<longrightarrow> (\<forall>(slug, s, e) \<in> set jobs. \<exists>p. map_of table' (slug, s) = Some p \<and> hour_point journal now_ms slug (s, e) = Inr p))"
  using assms
proof (induction jobs arbitrary: table ss)
  case (Cons j jobs)
  obtain slug s e where j: "j = (slug, s, e)" by (metis prod.exhaust)
  show ?case
  proof (cases "latency_hour read args now_ms slug (s, e)")
    case (Inl er)
    then show ?thesis using Cons.prems j by auto
  next
    case (Inr x)
    obtain p sm where x: "x = (p, sm)" by (cases x)
    note P = latency_hour_point [OF Inr [unfolded x] Cons.prems(2,3)]
    let ?t = "store_upsert p table"
    have wf: "bt_wf ?t" using Cons.prems(4) by (simp add: store_upsert_def)
    have m: "map_of ?t = (map_of table)((slug, s) \<mapsto> p)" using P by (simp add: store_upsert_def)
    have run: "latency_hours read args now_ms jobs ?t (ss @ [sm]) = (table', r)" using Cons.prems(1) j Inr x by simp
    have uniq: "\<forall>w w' slug. (slug, w) \<in> set jobs \<longrightarrow> (slug, w') \<in> set jobs \<longrightarrow> fst w = fst w' \<longrightarrow> w = w'" using Cons.prems(5) by (meson list.set_intros(2))
    note IH = Cons.IH [OF run Cons.prems(2,3) wf uniq]
    have here: "(slug, s, e') \<in> set jobs \<Longrightarrow> e' = e" for e' using Cons.prems(5) j by fastforce
    have mine: "\<exists>p. map_of table' (slug, s) = Some p \<and> hour_point journal now_ms slug (s, e) = Inr p"
      using conjunct1 [OF conjunct2 [OF IH], rule_format, of "(slug, s)"] m P(1) here by auto
    have "map_of table' k = map_of table k \<or> (\<exists>slug s e p. (slug, s, e) \<in> set (j # jobs) \<and> k = (slug, s) \<and> map_of table' k = Some p \<and>
        hour_point journal now_ms slug (s, e) = Inr p)" for k
    proof (cases "k = (slug, s)")
      case True
      then show ?thesis using mine j by auto
    next
      case False
      then have "map_of ?t k = map_of table k" using m by simp
      then show ?thesis using conjunct1 [OF conjunct2 [OF IH], rule_format, of k] by (auto simp: j)
    qed
    moreover have "\<forall>(slug, s, e) \<in> set (j # jobs). \<exists>p. map_of table' (slug, s) = Some p \<and> hour_point journal now_ms slug (s, e) = Inr p"
      if "r = Inr ss'" for ss'
      using conjunct2 [OF conjunct2 [OF IH], rule_format, OF that] mine by (auto simp: j)
    ultimately show ?thesis using IH by blast
  qed
qed simp

lemma hour_windows_length: "hour_windows a b = Inr ws \<Longrightarrow> (s, e) \<in> set ws \<Longrightarrow> e = s + hour_ms"
proof (induction a b arbitrary: ws rule: hour_windows.induct)
  case (1 a b)
  then show ?case using hour_windows.simps [of a b] by (auto simp: new_hour_window_def bind_res_Inr split: if_splits)
qed

lemma planned_length: "planned_hour_windows now_ms a b = Inr ws \<Longrightarrow> (s, e) \<in> set ws \<Longrightarrow> e = s + hour_ms"
  by (auto simp: planned_hour_windows_def bind_res_Inr Let_def split: if_splits dest: hour_windows_length)


definition silent_args :: latency_args where
  "silent_args = \<lparr>la_strategy = [''binance-intra-arb01''], la_window_start_ms = None, la_window_end_ms = None, la_source_chunk_minutes = 60\<rparr>"


end
