(* ===== verification/FrPositionLimits.thy ===== *)
theory FrPositionLimits
  imports ContractMultipliers MarkPrices "HOL-Library.Multiset" "HOL-Library.List_Lexorder" "HOL-Library.Char_ord" "HOL-Library.Product_Lexorder"
begin

text \<open>
  \<open>src/src/fr_position_limits.rs\<close>: how close the futures positions of a strategy are to the limits of its exchange.  The answers of the exchange,
  of the snapshot service and of its configuration are arguments, as are the text of an environment file and the clock.  A \<open>BTreeMap\<close>
  is an association list in the order of its keys, a \<open>HashMap\<close> a function.  Not modelled: requests and their signatures.
\<close>

section \<open>Fields\<close>

definition value_or :: "'a option \<Rightarrow> 'a \<Rightarrow> 'a" where
  "value_or x d = (case x of None \<Rightarrow> d | Some v \<Rightarrow> v)"

definition alert_threshold_ratio :: f64 where "alert_threshold_ratio = rnd (9 / 10)"
definition position_display_min_usd :: f64 where "position_display_min_usd = Fin 1"
definition default_amount_u :: f64 where "default_amount_u = Fin 100"

definition fr_number_value :: "json \<Rightarrow> f64 option" where
  "fr_number_value v = (case v of JNumber _ \<Rightarrow> as_f64 v | JString s \<Rightarrow> parse_f64 (str_trim s) | _ \<Rightarrow> None)"

definition fr_number_field :: "json \<Rightarrow> string \<Rightarrow> f64 option" where
  "fr_number_field v f = (case json_get f v of None \<Rightarrow> None | Some x \<Rightarrow> fr_number_value x)"

definition fr_positive :: "f64 option \<Rightarrow> f64 option" where
  "fr_positive v = (case v of Some x \<Rightarrow> if is_finite x \<and> 0 < x then Some x else None | None \<Rightarrow> None)"

definition minimum_positive :: "f64 option \<Rightarrow> f64 option \<Rightarrow> f64 option" where
  "minimum_positive l r =
     (case (fr_positive l, fr_positive r) of
        (Some a, Some b) \<Rightarrow> Some (fmin a b)
      | (Some a, None) \<Rightarrow> Some a
      | (None, b) \<Rightarrow> b)"

definition add_optional :: "f64 option \<Rightarrow> f64 option \<Rightarrow> f64 option" where
  "add_optional l r = (case (l, r) of (Some a, Some b) \<Rightarrow> Some (a + b) | (Some a, None) \<Rightarrow> Some a | (None, b) \<Rightarrow> b)"

definition fr_normalize_symbol :: "string \<Rightarrow> string option" where
  "fr_normalize_symbol v =
     (let head = takeWhile (\<lambda>c. c \<noteq> CHR ''@'') v;
          cleaned = to_ascii_uppercase (filter is_ascii_alphanumeric (str_trim head));
          cleaned = (case strip_suffix ''SWAP'' cleaned of Some s \<Rightarrow> s | None \<Rightarrow> cleaned)
      in if cleaned = [] \<or> cleaned = ''USDT'' then None
         else Some (if strip_suffix ''USDT'' cleaned = None then cleaned @ ''USDT'' else cleaned))"

definition asset_from_symbol :: "string \<Rightarrow> string" where
  "asset_from_symbol s = (case strip_suffix ''USDT'' s of Some a \<Rightarrow> a | None \<Rightarrow> s)"

definition gate_contract :: "string \<Rightarrow> string" where
  "gate_contract s = asset_from_symbol s @ ''_USDT''"

definition position_side :: "f64 \<Rightarrow> string" where
  "position_side notional = (if notional < - f64_epsilon then ''short'' else if f64_epsilon < notional then ''long'' else ''flat'')"

definition trimmed_text :: "json \<Rightarrow> string \<Rightarrow> string option" where
  "trimmed_text v f =
     (case json_get f v of None \<Rightarrow> None | Some x \<Rightarrow> (case as_str x of None \<Rightarrow> None | Some s \<Rightarrow> if str_trim s = [] then None else Some (str_trim s)))"

definition text_at :: "json \<Rightarrow> string \<Rightarrow> string option" where
  "text_at v f = (case json_get f v of None \<Rightarrow> None | Some x \<Rightarrow> as_str x)"

definition array_at :: "json \<Rightarrow> string \<Rightarrow> json list option" where
  "array_at v f = (case json_get f v of None \<Rightarrow> None | Some x \<Rightarrow> as_array x)"

text \<open>The entries of an object, by key; the last of a repeated key.\<close>

definition fr_object_entries :: "json \<Rightarrow> (string \<times> json) list" where
  "fr_object_entries v = (case v of JObject fs \<Rightarrow> fold (\<lambda>(k, x). bt_insert k x) fs [] | _ \<Rightarrow> [])"

definition is_object :: "json \<Rightarrow> bool" where
  "is_object v = (case v of JObject _ \<Rightarrow> True | _ \<Rightarrow> False)"

section \<open>The environment file\<close>

definition split_text :: "string \<Rightarrow> string \<Rightarrow> (string \<times> string) option" where
  "split_text pat s =
     (case List.find (\<lambda>i. take (length pat) (drop i s) = pat) [0..<Suc (length s)] of
        None \<Rightarrow> None | Some i \<Rightarrow> Some (take i s, drop (i + length pat) s))"

fun text_lines :: "string \<Rightarrow> string list" where
  "text_lines [] = [[]]"
| "text_lines (c # s) = (if c = CHR 0x0A then [] # text_lines s else (case text_lines s of l # ls \<Rightarrow> (c # l) # ls | [] \<Rightarrow> [[c]]))"

definition unquoted :: "string \<Rightarrow> string" where
  "unquoted v =
     (if 2 \<le> length v \<and> (hd v = CHR 0x27 \<or> hd v = CHR 0x22) \<and> hd v = last v then butlast (tl v)
      else str_trim (case split_text '' #'' v of None \<Rightarrow> v | Some (h, _) \<Rightarrow> h))"

definition parse_env_line :: "string \<Rightarrow> (string \<times> string) option" where
  "parse_env_line raw =
     (let line = str_trim raw
      in if line = [] \<or> hd line = CHR ''#'' then None
         else
           let line = str_trim (if take 7 line = ''export '' then drop 7 line else line)
           in (case split_once CHR ''='' line of
                 None \<Rightarrow> None
               | Some (k, v) \<Rightarrow>
                   let k = str_trim k
                   in if k = [] \<or> \<not> list_all (\<lambda>c. c = CHR ''_'' \<or> is_ascii_alphanumeric c) k then None
                      else Some (k, unquoted (str_trim v))))"

definition parse_env_values :: "string \<Rightarrow> string \<rightharpoonup> string" where
  "parse_env_values content = fold (\<lambda>(k, v) m. m(k \<mapsto> v)) (List.map_filter parse_env_line (text_lines content)) Map.empty"

definition env_value :: "(string \<rightharpoonup> string) \<Rightarrow> string \<Rightarrow> string option" where
  "env_value values name = (case values name of None \<Rightarrow> None | Some v \<Rightarrow> if str_trim v = [] then None else Some (str_trim v))"

definition required_env_value :: "(string \<rightharpoonup> string) \<Rightarrow> string \<Rightarrow> string + string" where
  "required_env_value values name = ok_or (name @ '' is not assigned'') (env_value values name)"

record fr_credentials =
  fc_api_key :: string
  fc_secret_key :: string
  fc_api_base :: string
  fc_settle :: string

definition trim_end_slashes :: "string \<Rightarrow> string" where
  "trim_end_slashes s = rev (dropWhile (\<lambda>c. c = CHR ''/'') (rev s))"

definition load_credentials :: "string \<Rightarrow> string + string \<Rightarrow> string + fr_credentials" where
  "load_credentials exchange content =
     bind_res content (\<lambda>content.
       let values = parse_env_values content
       in bind_res (if exchange = ''binance'' then Inr (''BINANCE_API_KEY'', ''BINANCE_API_SECRET'', ''https://papi.binance.com'')
             else if exchange = ''gate'' then Inr (''GATE_API_KEY'', ''GATE_API_SECRET'', ''https://api.gateio.ws'')
             else Inl (''unsupported FR limit exchange: '' @ exchange)) (\<lambda>(api_key_name, secret_name, default_base).
          bind_res (required_env_value values api_key_name) (\<lambda>api_key.
          bind_res (required_env_value values secret_name) (\<lambda>secret_key.
            let base_name = (if exchange = ''binance'' then ''BINANCE_PAPI_URL'' else ''GATE_API_BASE'');
                api_base = trim_end_slashes (value_or (env_value values base_name) default_base);
                settle = to_ascii_lowercase (value_or (env_value values ''GATE_FUTURES_SETTLE'') ''usdt'')
            in if \<not> list_all is_ascii_alphanumeric settle then Inl ''GATE_FUTURES_SETTLE contains unsupported characters''
               else Inr \<lparr>fc_api_key = api_key, fc_secret_key = secret_key, fc_api_base = api_base, fc_settle = settle\<rparr>))))"

section \<open>The snapshot\<close>

record snapshot_position =
  sp_asset :: string
  sp_open_usdt :: "f64 option"
  sp_futures_usdt :: "f64 option"

type_synonym snapshot_positions = "(string \<times> snapshot_position) list"

definition empty_position :: snapshot_position where
  "empty_position = \<lparr>sp_asset = [], sp_open_usdt = None, sp_futures_usdt = None\<rparr>"

definition snapshot_row :: "json \<Rightarrow> snapshot_positions \<Rightarrow> snapshot_positions" where
  "snapshot_row row positions =
     (if json_get ''is_total'' row = Some (JBool True) then positions
      else (case trimmed_text row ''asset'' of
          None \<Rightarrow> positions
        | Some asset \<Rightarrow>
            (case fr_normalize_symbol asset of
               None \<Rightarrow> positions
             | Some symbol \<Rightarrow>
                 let e = value_or (map_of positions symbol) empty_position
                 in bt_insert symbol (e\<lparr>sp_asset := (if sp_asset e = [] then to_ascii_uppercase asset else sp_asset e),
                      sp_open_usdt := add_optional (sp_open_usdt e) (fr_number_field row ''open_usdt''),
                      sp_futures_usdt := add_optional (sp_futures_usdt e) (fr_number_field row ''hedge_usdt'')\<rparr>) positions)))"

definition snapshot_envelope :: "json \<Rightarrow> snapshot_positions \<times> bool \<Rightarrow> string + snapshot_positions \<times> bool" where
  "snapshot_envelope envelope = (\<lambda>(positions, found).
     if text_at envelope ''type'' \<noteq> Some ''pre_trade_exposure'' then Inr (positions, found)
     else bind_res (ok_or ''pre_trade_exposure rows is not an array''
         (case json_get ''entry'' envelope of None \<Rightarrow> None | Some entry \<Rightarrow> array_at entry ''rows'')) (\<lambda>rows.
       Inr (fold snapshot_row rows positions, True)))"

definition parse_snapshot :: "json \<Rightarrow> string + int \<times> snapshot_positions" where
  "parse_snapshot v =
     bind_res (ok_or ''snapshot has no valid ts_ms''
       (case json_get ''ts_ms'' v of None \<Rightarrow> None | Some t \<Rightarrow> (case as_i64 t of Some n \<Rightarrow> if 0 < n then Some n else None | None \<Rightarrow> None))) (\<lambda>ts_ms.
     bind_res (ok_or ''snapshot entries is not an array'' (array_at v ''entries'')) (\<lambda>entries.
     bind_res (fold_res snapshot_envelope entries ([], False)) (\<lambda>(positions, found).
       if \<not> found then Inl ''snapshot has no pre_trade_exposure entry'' else Inr (ts_ms, positions))))"

section \<open>Parameters of the guard\<close>

record guard_params =
  gp_pending_buy :: int
  gp_pending_sell :: int
  gp_default_amount_u :: f64
  gp_amount_u_overrides :: "string \<rightharpoonup> f64"

definition default_guard_params :: guard_params where
  "default_guard_params = \<lparr>gp_pending_buy = 0, gp_pending_sell = 0, gp_default_amount_u = default_amount_u, gp_amount_u_overrides = Map.empty\<rparr>"

definition amount_u :: "guard_params \<Rightarrow> string \<Rightarrow> f64" where
  "amount_u params symbol = value_or (gp_amount_u_overrides params symbol) (gp_default_amount_u params)"

definition pending_for_position :: "guard_params \<Rightarrow> f64 \<Rightarrow> int" where
  "pending_for_position params notional =
     max (if notional < 0 then gp_pending_buy params else if 0 < notional then gp_pending_sell params
          else max (gp_pending_buy params) (gp_pending_sell params)) 0"

definition payload_values :: "json \<Rightarrow> string + json" where
  "payload_values v = ok_or ''config response has no values object''
     (case json_get ''values'' v of None \<Rightarrow> None | Some x \<Rightarrow> if is_object x then Some x else None)"

definition parse_amount_u_overrides :: "json \<Rightarrow> string \<rightharpoonup> f64" where
  "parse_amount_u_overrides v =
     fold (\<lambda>(s, x) m. case (fr_normalize_symbol s, fr_number_value x) of
         (Some symbol, Some amount) \<Rightarrow> if is_finite amount \<and> 0 < amount then m(symbol \<mapsto> amount) else m
       | _ \<Rightarrow> m) (case json_get ''values'' v of None \<Rightarrow> [] | Some x \<Rightarrow> fr_object_entries x) Map.empty"

text \<open>\<open>as i32\<close> of a double in range drops the fraction.\<close>

definition map_i32 :: "json \<Rightarrow> string \<Rightarrow> int option" where
  "map_i32 values key =
     (case fr_number_field values key of
        Some (Fin q) \<Rightarrow> if - (2 ^ 31) \<le> q \<and> q \<le> 2 ^ 31 - 1 then Some (if q < 0 then \<lceil>q\<rceil> else \<lfloor>q\<rfloor>) else None
      | _ \<Rightarrow> None)"

record guard_load =
  gl_params :: guard_params
  gl_live :: bool
  gl_warnings :: "string list"

definition fetch_guard_params :: "string + json \<Rightarrow> string + json \<Rightarrow> string + json \<Rightarrow> string + guard_load" where
  "fetch_guard_params risk_result strategy_result amount_result =
     bind_res (bind_res risk_result payload_values) (\<lambda>risk.
     bind_res (bind_res strategy_result payload_values) (\<lambda>strategy.
       let params = \<lparr>gp_pending_buy = max (value_or (map_i32 risk ''arb_max_pending_limit_buy_orders'') 0) 0,
             gp_pending_sell = max (value_or (map_i32 risk ''arb_max_pending_limit_sell_orders'') 0) 0,
             gp_default_amount_u = value_or (fr_positive (fr_number_field strategy ''order_amount'')) default_amount_u,
             gp_amount_u_overrides = (case amount_result of Inr v \<Rightarrow> parse_amount_u_overrides v | Inl _ \<Rightarrow> Map.empty)\<rparr>
       in Inr (case amount_result of
            Inr _ \<Rightarrow> \<lparr>gl_params = params, gl_live = True, gl_warnings = []\<rparr>
          | Inl e \<Rightarrow> \<lparr>gl_params = params, gl_live = False,
              gl_warnings = [''amount-u overrides unavailable; using strategy order_amount: '' @ e]\<rparr>)))"

section \<open>Limits of the exchanges\<close>

record binance_limit =
  bl_symbol :: string
  bl_symbol_config_limit :: "f64 option"
  bl_position_risk_limit :: "f64 option"
  bl_bracket_limit :: "f64 option"
  bl_leverage :: "f64 option"
  bl_current_notional :: "f64 option"

definition no_binance_limit :: binance_limit where
  "no_binance_limit = \<lparr>bl_symbol = [], bl_symbol_config_limit = None, bl_position_risk_limit = None, bl_bracket_limit = None,
     bl_leverage = None, bl_current_notional = None\<rparr>"

definition effective_limit :: "binance_limit \<Rightarrow> f64 option" where
  "effective_limit l =
     (let cap = (case fr_positive (bl_symbol_config_limit l) of None \<Rightarrow> fr_positive (bl_position_risk_limit l) | c \<Rightarrow> c)
      in (case fr_positive (bl_bracket_limit l) of
            None \<Rightarrow> cap
          | Some bracket \<Rightarrow> Some (case cap of None \<Rightarrow> bracket | Some current \<Rightarrow> fmin current bracket)))"

text \<open>The symbol a row names: as the exchange writes it, and normalised; a row without one is passed over.\<close>

definition row_symbol :: "json \<Rightarrow> string \<Rightarrow> (string \<times> string) option" where
  "row_symbol row f =
     (case text_at row f of None \<Rightarrow> None | Some raw \<Rightarrow> map_option (\<lambda>s. (to_ascii_uppercase (str_trim raw), s)) (fr_normalize_symbol raw))"

definition binance_config_row :: "json \<Rightarrow> (string \<times> binance_limit) list \<Rightarrow> (string \<times> binance_limit) list" where
  "binance_config_row row limits =
     (case (row_symbol row ''symbol'', fr_positive (fr_number_field row ''maxNotionalValue'')) of
        (Some (raw, symbol), Some cap) \<Rightarrow> bt_insert symbol (no_binance_limit\<lparr>bl_symbol := raw, bl_symbol_config_limit := Some cap,
            bl_leverage := fr_positive (fr_number_field row ''leverage'')\<rparr>) limits
      | _ \<Rightarrow> limits)"

definition parse_binance_symbol_configs :: "json list \<Rightarrow> (string \<times> binance_limit) list" where
  "parse_binance_symbol_configs rows = fold binance_config_row rows []"

definition row_notional :: "json \<Rightarrow> f64 option" where
  "row_notional row =
     (let position_amount = value_or (fr_number_field row ''positionAmt'') 0;
          mark_price = value_or (fr_number_field row ''markPrice'') 0;
          notional = fr_number_field row ''notional''
      in if (case notional of None \<Rightarrow> True | Some v \<Rightarrow> \<bar>v\<bar> < f64_epsilon) \<and> f64_epsilon < \<bar>position_amount\<bar> \<and> 0 < mark_price
         then Some (position_amount * mark_price) else notional)"

definition finite_only :: "f64 option \<Rightarrow> f64 option" where
  "finite_only v = (case v of Some x \<Rightarrow> if is_finite x then Some x else None | None \<Rightarrow> None)"

definition binance_position_row :: "json \<Rightarrow> (string \<times> binance_limit) list \<Rightarrow> (string \<times> binance_limit) list" where
  "binance_position_row row limits =
     (case row_symbol row ''symbol'' of
        None \<Rightarrow> limits
      | Some (raw, symbol) \<Rightarrow>
          let r = value_or (map_of limits symbol) no_binance_limit
          in bt_insert symbol (r\<lparr>bl_symbol := (if bl_symbol r = [] then raw else bl_symbol r),
               bl_position_risk_limit := minimum_positive (bl_position_risk_limit r) (fr_positive (fr_number_field row ''maxNotionalValue'')),
               bl_current_notional := add_optional (bl_current_notional r) (finite_only (row_notional row)),
               bl_leverage := (if bl_leverage r = None then fr_positive (fr_number_field row ''leverage'') else bl_leverage r)\<rparr>) limits)"

definition merge_binance_positions :: "json list \<Rightarrow> (string \<times> binance_limit) list \<Rightarrow> (string \<times> binance_limit) list" where
  "merge_binance_positions rows limits = fold binance_position_row rows limits"

definition fmax_finite :: "f64 list \<Rightarrow> f64 option" where
  "fmax_finite xs = (case xs of [] \<Rightarrow> None | x # r \<Rightarrow> Some (foldl fmax x r))"

definition binance_bracket_row :: "json \<Rightarrow> (string \<times> binance_limit) list \<Rightarrow> (string \<times> binance_limit) list" where
  "binance_bracket_row row limits =
     (case (row_symbol row ''symbol'',
         fmax_finite (List.map_filter (\<lambda>b. fr_positive (fr_number_field b ''notionalCap'')) (value_or (array_at row ''brackets'') []))) of
        (Some (_, symbol), Some max_cap) \<Rightarrow>
          (case map_of limits symbol of None \<Rightarrow> limits | Some r \<Rightarrow> bt_insert symbol (r\<lparr>bl_bracket_limit := Some max_cap\<rparr>) limits)
      | _ \<Rightarrow> limits)"

definition merge_binance_brackets :: "json list \<Rightarrow> (string \<times> binance_limit) list \<Rightarrow> (string \<times> binance_limit) list" where
  "merge_binance_brackets rows limits = fold binance_bracket_row rows limits"

record binance_data =
  bd_limits :: "(string \<times> binance_limit) list"
  bd_symbol_config_rows :: nat
  bd_position_risk_rows :: nat
  bd_leverage_bracket_rows :: nat
  bd_warnings :: "string list"

definition fr_root_array :: "string \<Rightarrow> json \<Rightarrow> string + json list" where
  "fr_root_array label v = ok_or (label @ '' response is not an array'') (as_array v)"

definition merge_answer :: "string \<Rightarrow> string \<Rightarrow> string + json \<Rightarrow> (json list \<Rightarrow> 'l \<Rightarrow> 'l) \<Rightarrow> 'l \<times> string list \<Rightarrow> string + ('l \<times> string list) \<times> nat" where
  "merge_answer label warning answer merge = (\<lambda>(limits, warnings).
     case answer of
       Inl e \<Rightarrow> Inr ((limits, warnings @ [warning @ e]), 0)
     | Inr v \<Rightarrow> bind_res (fr_root_array label v) (\<lambda>rows. Inr ((merge rows limits, warnings), length rows)))"

definition fetch_binance_data :: "string + json \<Rightarrow> string + json \<Rightarrow> string + json \<Rightarrow> string + binance_data" where
  "fetch_binance_data config_result position_result bracket_result =
     bind_res config_result (\<lambda>config_value.
     bind_res (fr_root_array ''Binance symbolConfig'' config_value) (\<lambda>config_rows.
     bind_res (merge_answer ''Binance positionRisk'' ''Binance positionRisk unavailable; snapshot notional fallback is active: '' position_result
       merge_binance_positions (parse_binance_symbol_configs config_rows, [])) (\<lambda>(s, position_rows).
     bind_res (merge_answer ''Binance leverageBracket'' ''Binance leverageBracket unavailable; symbolConfig cap is active: '' bracket_result
       merge_binance_brackets s) (\<lambda>((limits, warnings), bracket_rows).
       Inr \<lparr>bd_limits = limits, bd_symbol_config_rows = length config_rows, bd_position_risk_rows = position_rows,
         bd_leverage_bracket_rows = bracket_rows, bd_warnings = warnings\<rparr>))))"

record gate_limit =
  gt_contract :: string
  gt_risk_limit :: f64
  gt_current_notional :: f64
  gt_cross_leverage_limit :: "f64 option"

definition gate_notional :: "json \<Rightarrow> f64" where
  "gate_notional row =
     (let raw_value = value_or (finite_only (fr_number_field row ''value'')) 0
      in (case fr_number_field row ''size'' of
            None \<Rightarrow> raw_value
          | Some n \<Rightarrow> if n < 0 then - \<bar>raw_value\<bar> else if 0 < n then \<bar>raw_value\<bar> else 0))"

definition gate_position_row :: "json \<Rightarrow> (string \<times> gate_limit) list \<Rightarrow> (string \<times> gate_limit) list" where
  "gate_position_row row limits =
     (case (row_symbol row ''contract'', fr_positive (fr_number_field row ''risk_limit'')) of
        (Some (raw, symbol), Some risk_limit) \<Rightarrow>
          let cross = fr_positive (fr_number_field row ''cross_leverage_limit'')
          in bt_insert symbol
            (case map_of limits symbol of
               Some r \<Rightarrow> r\<lparr>gt_risk_limit := fmin (gt_risk_limit r) risk_limit, gt_current_notional := gt_current_notional r + gate_notional row,
                 gt_cross_leverage_limit := minimum_positive (gt_cross_leverage_limit r) cross\<rparr>
             | None \<Rightarrow> \<lparr>gt_contract = raw, gt_risk_limit = risk_limit, gt_current_notional = gate_notional row, gt_cross_leverage_limit = cross\<rparr>) limits
      | _ \<Rightarrow> limits)"

definition parse_gate_positions :: "json list \<Rightarrow> (string \<times> gate_limit) list" where
  "parse_gate_positions rows = fold gate_position_row rows []"

definition fetch_gate_data :: "string + json \<Rightarrow> string + (string \<times> gate_limit) list" where
  "fetch_gate_data answer = bind_res answer (\<lambda>v. bind_res (fr_root_array ''Gate futures positions'' v) (\<lambda>rows. Inr (parse_gate_positions rows)))"

section \<open>Rows\<close>

record fr_limit_row =
  lm_symbol :: string
  lm_asset :: string
  lm_status :: string
  lm_side :: string
  lm_tracked_in_snapshot :: bool
  lm_position_source :: string
  lm_position_notional_usdt :: f64
  lm_snapshot_open_usdt :: "f64 option"
  lm_snapshot_futures_usdt :: "f64 option"
  lm_snapshot_rest_delta_usdt :: "f64 option"
  lm_exchange_limit_usdt :: "f64 option"
  lm_guard_buffer_usdt :: "f64 option"
  lm_guard_cap_usdt :: "f64 option"
  lm_remaining_usdt :: "f64 option"
  lm_usage_ratio :: "f64 option"
  lm_near_limit :: bool
  lm_amount_u :: "f64 option"
  lm_pending_limit_orders :: "int option"
  lm_leverage :: "f64 option"
  lm_symbol_config_limit_usdt :: "f64 option"
  lm_position_risk_limit_usdt :: "f64 option"
  lm_bracket_limit_usdt :: "f64 option"
  lm_error :: "string option"

record guard_metrics =
  gm_buffer :: f64
  gm_cap :: f64
  gm_remaining :: f64
  gm_usage_ratio :: f64
  gm_amount_u :: f64
  gm_pending :: int

definition guard_metrics_of :: "f64 \<Rightarrow> f64 \<Rightarrow> string \<Rightarrow> guard_params \<Rightarrow> string + guard_metrics" where
  "guard_metrics_of exchange_limit position_notional symbol params =
     (if \<not> (is_finite exchange_limit \<and> 0 < exchange_limit) then Inl ''exchange position limit is invalid''
      else
        let amount = amount_u params symbol
        in if \<not> (is_finite amount \<and> 0 < amount) then Inl ''pre-trade amount_u is invalid''
           else
             let pending = pending_for_position params position_notional;
                 buffer = f64_of_int pending * amount;
                 cap = exchange_limit - buffer
             in if \<not> (is_finite cap \<and> 0 < cap) then Inl ''pre-trade guard cap is not positive''
                else Inr \<lparr>gm_buffer = buffer, gm_cap = cap, gm_remaining = cap - \<bar>position_notional\<bar>,
                  gm_usage_ratio = \<bar>position_notional\<bar> / cap, gm_amount_u = amount, gm_pending = pending\<rparr>)"

definition build_row :: "string \<Rightarrow> string \<Rightarrow> snapshot_position option \<Rightarrow> f64 option \<Rightarrow> f64 option \<Rightarrow> f64 option \<Rightarrow> f64 option \<Rightarrow> f64 option \<Rightarrow>
    f64 option \<Rightarrow> guard_params \<Rightarrow> fr_limit_row" where
  "build_row display_symbol normalized_symbol snapshot exchange_notional exchange_limit leverage symbol_config_limit position_risk_limit
     bracket_limit params =
     (let snapshot_futures = (case snapshot of None \<Rightarrow> None | Some p \<Rightarrow> sp_futures_usdt p);
          notional = value_or (case exchange_notional of None \<Rightarrow> snapshot_futures | n \<Rightarrow> n) 0;
          r = (case exchange_limit of None \<Rightarrow> Inl ''exchange position-limit row is missing''
             | Some limit \<Rightarrow> guard_metrics_of limit notional normalized_symbol params);
          metrics = (case r of Inl _ \<Rightarrow> None | Inr m \<Rightarrow> Some m);
          near_limit = (case metrics of None \<Rightarrow> False | Some m \<Rightarrow> alert_threshold_ratio \<le> gm_usage_ratio m)
      in \<lparr>lm_symbol = display_symbol,
          lm_asset = (case snapshot of None \<Rightarrow> asset_from_symbol normalized_symbol
             | Some p \<Rightarrow> if sp_asset p = [] then asset_from_symbol normalized_symbol else sp_asset p),
          lm_status = (if near_limit then ''warning'' else if metrics = None then ''unavailable'' else ''healthy''),
          lm_side = position_side notional, lm_tracked_in_snapshot = (snapshot \<noteq> None),
          lm_position_source = (if exchange_notional \<noteq> None then ''exchange'' else ''snapshot''),
          lm_position_notional_usdt = notional, lm_snapshot_open_usdt = (case snapshot of None \<Rightarrow> None | Some p \<Rightarrow> sp_open_usdt p),
          lm_snapshot_futures_usdt = snapshot_futures,
          lm_snapshot_rest_delta_usdt = (case (exchange_notional, snapshot_futures) of (Some a, Some b) \<Rightarrow> Some (a - b) | _ \<Rightarrow> None),
          lm_exchange_limit_usdt = exchange_limit, lm_guard_buffer_usdt = map_option gm_buffer metrics,
          lm_guard_cap_usdt = map_option gm_cap metrics, lm_remaining_usdt = map_option gm_remaining metrics,
          lm_usage_ratio = map_option gm_usage_ratio metrics, lm_near_limit = near_limit, lm_amount_u = map_option gm_amount_u metrics,
          lm_pending_limit_orders = map_option gm_pending metrics, lm_leverage = leverage,
          lm_symbol_config_limit_usdt = symbol_config_limit, lm_position_risk_limit_usdt = position_risk_limit,
          lm_bracket_limit_usdt = bracket_limit, lm_error = (case r of Inl e \<Rightarrow> Some e | Inr _ \<Rightarrow> None)\<rparr>)"

definition shown :: "f64 \<Rightarrow> bool" where
  "shown v \<longleftrightarrow> position_display_min_usd \<le> \<bar>v\<bar>"

definition relevant_snapshot_symbols :: "snapshot_positions \<Rightarrow> string list" where
  "relevant_snapshot_symbols snapshot =
     map fst (filter (\<lambda>(_, p). position_display_min_usd \<le> fmax \<bar>value_or (sp_open_usdt p) 0\<bar> \<bar>value_or (sp_futures_usdt p) 0\<bar>) snapshot)"

definition limit_symbols :: "snapshot_positions \<Rightarrow> string list \<Rightarrow> string list" where
  "limit_symbols snapshot exchange_symbols = remdups_adj (sort (relevant_snapshot_symbols snapshot @ exchange_symbols))"

record fr_source_counts =
  ct_snapshot_rows :: nat
  ct_exchange_limit_rows :: nat
  ct_exchange_position_rows :: nat
  ct_displayed_rows :: nat
  ct_near_limit_rows :: nat
  ct_symbol_config_rows :: "nat option"
  ct_position_risk_rows :: "nat option"
  ct_leverage_bracket_rows :: "nat option"

definition no_counts :: fr_source_counts where
  "no_counts = \<lparr>ct_snapshot_rows = 0, ct_exchange_limit_rows = 0, ct_exchange_position_rows = 0, ct_displayed_rows = 0,
     ct_near_limit_rows = 0, ct_symbol_config_rows = None, ct_position_risk_rows = None, ct_leverage_bracket_rows = None\<rparr>"

definition binance_shown :: "binance_limit \<Rightarrow> bool" where
  "binance_shown l = (case bl_current_notional l of None \<Rightarrow> False | Some v \<Rightarrow> shown v)"

definition binance_row :: "binance_data \<Rightarrow> snapshot_positions \<Rightarrow> guard_params \<Rightarrow> string \<Rightarrow> fr_limit_row" where
  "binance_row data snapshot params symbol =
     (let record' = map_of (bd_limits data) symbol
      in (case record' of
            None \<Rightarrow> build_row symbol symbol (map_of snapshot symbol) None None None None None None params
          | Some r \<Rightarrow> build_row (if bl_symbol r = [] then symbol else bl_symbol r) symbol (map_of snapshot symbol) (bl_current_notional r)
              (effective_limit r) (bl_leverage r) (bl_symbol_config_limit r) (bl_position_risk_limit r) (bl_bracket_limit r) params))"

definition build_binance_rows :: "binance_data \<Rightarrow> snapshot_positions \<Rightarrow> guard_params \<Rightarrow> fr_limit_row list \<times> fr_source_counts" where
  "build_binance_rows data snapshot params =
     (map (binance_row data snapshot params) (limit_symbols snapshot (map fst (filter (\<lambda>(_, l). binance_shown l) (bd_limits data)))),
      no_counts\<lparr>ct_exchange_limit_rows := length (filter (\<lambda>(_, l). effective_limit l \<noteq> None) (bd_limits data)),
        ct_exchange_position_rows := length (filter (\<lambda>(_, l). binance_shown l) (bd_limits data)),
        ct_symbol_config_rows := Some (bd_symbol_config_rows data), ct_position_risk_rows := Some (bd_position_risk_rows data),
        ct_leverage_bracket_rows := Some (bd_leverage_bracket_rows data)\<rparr>)"

definition gate_row :: "(string \<times> gate_limit) list \<Rightarrow> snapshot_positions \<Rightarrow> guard_params \<Rightarrow> string \<Rightarrow> fr_limit_row" where
  "gate_row limits snapshot params symbol =
     (case map_of limits symbol of
        None \<Rightarrow> build_row (gate_contract symbol) symbol (map_of snapshot symbol) None None None None None None params
      | Some r \<Rightarrow> build_row (gt_contract r) symbol (map_of snapshot symbol) (Some (gt_current_notional r)) (Some (gt_risk_limit r))
          (gt_cross_leverage_limit r) None None None params)"

definition build_gate_rows :: "(string \<times> gate_limit) list \<Rightarrow> snapshot_positions \<Rightarrow> guard_params \<Rightarrow> fr_limit_row list \<times> fr_source_counts" where
  "build_gate_rows limits snapshot params =
     (map (gate_row limits snapshot params) (limit_symbols snapshot (map fst (filter (\<lambda>(_, l). shown (gt_current_notional l)) limits))),
      no_counts\<lparr>ct_exchange_limit_rows := length limits,
        ct_exchange_position_rows := length (filter (\<lambda>(_, l). shown (gt_current_notional l)) limits)\<rparr>)"

text \<open>The comparison of \<open>sort_rows\<close> as a key: near the limit first, then by usage and size downwards, then by symbol.  \<open>total_cmp\<close> as in a rank:
  the values compared are not negative NaN.\<close>

fun total_rank :: "f64 \<Rightarrow> int \<times> rat" where
  "total_rank (Inf True) = (0, 0)" | "total_rank (Fin q) = (1, q)" | "total_rank (Inf False) = (2, 0)" | "total_rank NaN = (3, 0)"

definition descending :: "f64 \<Rightarrow> int \<times> rat" where
  "descending x = (- fst (total_rank x), - snd (total_rank x))"

definition fr_row_key :: "fr_limit_row \<Rightarrow> bool \<times> (int \<times> rat) \<times> (int \<times> rat) \<times> string" where
  "fr_row_key r = (\<not> lm_near_limit r, descending (value_or (lm_usage_ratio r) (Fin (- 1))), descending \<bar>lm_position_notional_usdt r\<bar>, lm_symbol r)"

definition sort_rows :: "fr_limit_row list \<Rightarrow> fr_limit_row list" where
  "sort_rows rows = sort_key fr_row_key rows"

section \<open>The environment and the overview\<close>

record fr_source =
  fs_strategy_slug :: string
  fs_exchange :: string
  fs_sort_order :: nat

record fr_environment =
  fe_strategy_slug :: string
  fe_exchange :: string
  fe_status :: string
  fe_snapshot_ts_ms :: "int option"
  fe_exchange_fetched_at_ms :: "int option"
  fe_params_live :: bool
  fe_source_counts :: fr_source_counts
  fe_rows :: "fr_limit_row list"
  fe_warnings :: "string list"
  fe_error :: "string option"
  fe_sort_order :: nat

definition failed_environment :: "fr_source \<Rightarrow> string \<Rightarrow> string list \<Rightarrow> fr_environment" where
  "failed_environment source e warnings = \<lparr>fe_strategy_slug = fs_strategy_slug source, fe_exchange = fs_exchange source,
     fe_status = ''error'', fe_snapshot_ts_ms = None, fe_exchange_fetched_at_ms = None, fe_params_live = False,
     fe_source_counts = no_counts, fe_rows = [], fe_warnings = warnings, fe_error = Some e, fe_sort_order = fs_sort_order source\<rparr>"

datatype exchange_data = BinanceData binance_data | GateData "(string \<times> gate_limit) list"

definition fetch_exchange_data :: "string \<Rightarrow> string + json \<Rightarrow> string + json \<Rightarrow> string + json \<Rightarrow> string + exchange_data" where
  "fetch_exchange_data exchange first second third =
     (if exchange = ''binance'' then bind_res (fetch_binance_data first second third) (\<lambda>d. Inr (BinanceData d))
      else if exchange = ''gate'' then bind_res (fetch_gate_data first) (\<lambda>d. Inr (GateData d))
      else Inl (''unsupported FR limit exchange: '' @ exchange))"

fun build_rows :: "exchange_data \<Rightarrow> snapshot_positions \<Rightarrow> guard_params \<Rightarrow> fr_limit_row list \<times> fr_source_counts" where
  "build_rows (BinanceData d) = build_binance_rows d"
| "build_rows (GateData d) = build_gate_rows d"

fun exchange_warnings :: "exchange_data \<Rightarrow> string list" where
  "exchange_warnings (BinanceData d) = bd_warnings d" | "exchange_warnings (GateData d) = []"

definition fetch_environment :: "fr_source \<Rightarrow> string + fr_credentials \<Rightarrow> string + int \<times> snapshot_positions \<Rightarrow> string + guard_load \<Rightarrow>
    string + exchange_data \<Rightarrow> int \<Rightarrow> fr_environment" where
  "fetch_environment source credentials snapshot_result params_result exchange_result now_ms =
     (case credentials of
        Inl e \<Rightarrow> failed_environment source e []
      | Inr _ \<Rightarrow>
          let warnings = (case snapshot_result of Inl e \<Rightarrow> [''snapshot unavailable: '' @ e] | Inr _ \<Rightarrow> []);
              snapshot = (case snapshot_result of Inl _ \<Rightarrow> [] | Inr (_, p) \<Rightarrow> p);
              ts = (case snapshot_result of Inl _ \<Rightarrow> None | Inr (t, _) \<Rightarrow> Some t);
              load = (case params_result of Inr l \<Rightarrow> l | Inl e \<Rightarrow> \<lparr>gl_params = default_guard_params, gl_live = False,
                gl_warnings = [''pre-trade params unavailable; exchange-limit fallback is active: '' @ e]\<rparr>);
              warnings = warnings @ gl_warnings load
          in (case exchange_result of
                Inl e \<Rightarrow> (failed_environment source (''exchange limits unavailable: '' @ e) warnings)
                  \<lparr>fe_snapshot_ts_ms := ts, fe_params_live := gl_live load, fe_source_counts := no_counts\<lparr>ct_snapshot_rows := length snapshot\<rparr>\<rparr>
              | Inr data \<Rightarrow>
                  let (rows, counts) = build_rows data snapshot (gl_params load);
                      warnings = warnings @ exchange_warnings data;
                      rows = sort_rows rows;
                      counts = counts\<lparr>ct_snapshot_rows := length snapshot, ct_displayed_rows := length rows,
                        ct_near_limit_rows := length (filter lm_near_limit rows)\<rparr>
                  in \<lparr>fe_strategy_slug = fs_strategy_slug source, fe_exchange = fs_exchange source,
                      fe_status = (if 0 < ct_near_limit_rows counts \<or> warnings \<noteq> [] then ''warning'' else ''healthy''),
                      fe_snapshot_ts_ms = ts, fe_exchange_fetched_at_ms = Some now_ms, fe_params_live = gl_live load,
                      fe_source_counts = counts, fe_rows = rows, fe_warnings = warnings, fe_error = None,
                      fe_sort_order = fs_sort_order source\<rparr>))"

text \<open>The cache answers for 20 seconds of the monotonic clock; environments come in the order in which they were finished.\<close>

definition cache_ttl_ms :: int where "cache_ttl_ms = 20000"

record fr_overview =
  fo_generated_at_ms :: int
  fo_environments :: "fr_environment list"

definition overview :: "int \<Rightarrow> int \<Rightarrow> fr_environment list \<Rightarrow> (int \<times> fr_overview) option \<Rightarrow> fr_overview \<times> (int \<times> fr_overview) option" where
  "overview instant_ms now_ms finished cache =
     (let fresh = \<lparr>fo_generated_at_ms = now_ms, fo_environments = sort_key fe_sort_order finished\<rparr>
      in (case cache of
            Some (stored_at, o') \<Rightarrow> if instant_ms - stored_at < cache_ttl_ms then (o', cache) else (fresh, Some (instant_ms, fresh))
          | None \<Rightarrow> (fresh, Some (instant_ms, fresh))))"

section \<open>What an environment shows\<close>

fun data_row :: "exchange_data \<Rightarrow> snapshot_positions \<Rightarrow> guard_params \<Rightarrow> string \<Rightarrow> fr_limit_row" where
  "data_row (BinanceData d) = binance_row d"
| "data_row (GateData d) = gate_row d"

text \<open>The notional an exchange reports for a symbol.\<close>

fun notional_at :: "exchange_data \<Rightarrow> string \<Rightarrow> f64 option" where
  "notional_at (BinanceData d) s = (case map_of (bd_limits d) s of None \<Rightarrow> None | Some r \<Rightarrow> bl_current_notional r)"
| "notional_at (GateData d) s = map_option gt_current_notional (map_of d s)"

fun data_wf :: "exchange_data \<Rightarrow> bool" where
  "data_wf (BinanceData d) = bt_wf (bd_limits d)" | "data_wf (GateData d) = bt_wf d"

lemma fold_wf: "(\<And>x m. bt_wf m \<Longrightarrow> bt_wf (f x m)) \<Longrightarrow> bt_wf m \<Longrightarrow> bt_wf (fold f xs m)"
  by (induction xs arbitrary: m) auto

lemma rows_wf:
  "bt_wf m \<Longrightarrow> bt_wf (binance_config_row row m)" "bt_wf m \<Longrightarrow> bt_wf (binance_position_row row m)"
  "bt_wf m \<Longrightarrow> bt_wf (binance_bracket_row row m)" "bt_wf g \<Longrightarrow> bt_wf (gate_position_row row g)" "bt_wf p \<Longrightarrow> bt_wf (snapshot_row row p)"
  by (auto simp: binance_config_row_def binance_position_row_def binance_bracket_row_def gate_position_row_def snapshot_row_def Let_def
      split: option.splits)

lemma merge_answer_wf:
  assumes "merge_answer label warning answer merge (m, ws) = Inr ((m', ws'), n)" "bt_wf m" "\<And>rows m. bt_wf m \<Longrightarrow> bt_wf (merge rows m)"
  shows "bt_wf m'"
  using assms by (auto simp: merge_answer_def bind_res_Inr split: sum.splits)

lemma fetch_exchange_wf:
  assumes "fetch_exchange_data exchange x y z = Inr data" shows "data_wf data"
proof -
  have b: "bt_wf (bd_limits d)" if d: "fetch_binance_data x y z = Inr d" for d
  proof -
    obtain rows s n ws m k where c: "merge_answer ''Binance positionRisk'' ''Binance positionRisk unavailable; snapshot notional fallback is active: '' y
        merge_binance_positions (parse_binance_symbol_configs rows, []) = Inr (s, n)"
      "merge_answer ''Binance leverageBracket'' ''Binance leverageBracket unavailable; symbolConfig cap is active: '' z merge_binance_brackets s
        = Inr ((m, ws), k)" "bd_limits d = m"
      using d by (auto simp: fetch_binance_data_def bind_res_Inr)
    obtain m1 ws1 where s: "s = (m1, ws1)" by (cases s)
    have "bt_wf (parse_binance_symbol_configs rows)" unfolding parse_binance_symbol_configs_def by (rule fold_wf) (simp_all add: rows_wf)
    from merge_answer_wf [OF c(1) [unfolded s] this] have "bt_wf m1" by (simp add: merge_binance_positions_def fold_wf rows_wf)
    from merge_answer_wf [OF c(2) [unfolded s] this] show ?thesis by (simp add: c(3) merge_binance_brackets_def fold_wf rows_wf)
  qed
  have g: "bt_wf d" if "fetch_gate_data x = Inr d" for d
    using that fold_wf [of gate_position_row "[]"] by (auto simp: fetch_gate_data_def parse_gate_positions_def bind_res_Inr rows_wf)
  show ?thesis using assms b g by (auto simp: fetch_exchange_data_def bind_res_Inr split: if_splits)
qed

lemma parse_snapshot_wf: "parse_snapshot v = Inr (t, p) \<Longrightarrow> bt_wf p"
proof -
  assume "parse_snapshot v = Inr (t, p)"
  then obtain entries f where f: "fold_res snapshot_envelope entries ([], False) = Inr (p, f)"
    by (auto simp: parse_snapshot_def bind_res_Inr split: if_splits)
  have "bt_wf (fst (p, f))"
    by (rule fold_res_inv [OF _ _ f, where I = "\<lambda>s. bt_wf (fst s)"])
      (auto simp: snapshot_envelope_def bind_res_Inr fold_wf rows_wf split: if_splits)
  then show ?thesis by simp
qed

lemma map_of_bt: "bt_wf m \<Longrightarrow> (k, v) \<in> set m \<longleftrightarrow> map_of m k = Some v"
  by (simp add: bt_wf_def strict_sorted_iff)

lemma filter_keys: "bt_wf m \<Longrightarrow> set (map fst (filter (\<lambda>(_, l). P l) m)) = {s. \<exists>l. map_of m s = Some l \<and> P l}"
  by (simp add: map_of_bt [symmetric]) (force simp: image_iff)

definition snapshot_shown :: "snapshot_positions \<Rightarrow> string \<Rightarrow> bool" where
  "snapshot_shown snapshot s \<longleftrightarrow> (\<exists>p. map_of snapshot s = Some p \<and>
     position_display_min_usd \<le> fmax \<bar>value_or (sp_open_usdt p) 0\<bar> \<bar>value_or (sp_futures_usdt p) 0\<bar>)"

lemma distinct_remdups_sorted: "sorted xs \<Longrightarrow> distinct (remdups_adj xs)"
  by (induction xs rule: remdups_adj.induct) (auto simp: order_antisym)

lemma build_rows_shown:
  assumes "data_wf data" "bt_wf snapshot"
  shows "\<exists>symbols. distinct symbols \<and> fst (build_rows data snapshot params) = map (data_row data snapshot params) symbols \<and>
    set symbols = {s. snapshot_shown snapshot s \<or> (\<exists>v. notional_at data s = Some v \<and> shown v)}"
proof -
  have d: "distinct (limit_symbols snapshot xs)" for xs by (simp add: limit_symbols_def distinct_remdups_sorted)
  have r: "set (relevant_snapshot_symbols snapshot) = {s. snapshot_shown snapshot s}"
    unfolding relevant_snapshot_symbols_def filter_keys [OF assms(2)] snapshot_shown_def ..
  have u: "set (limit_symbols snapshot xs) = {s. snapshot_shown snapshot s} \<union> set xs" for xs by (simp add: limit_symbols_def r)
  show ?thesis
  proof (cases data)
    case (BinanceData b)
    have "set (map fst (filter (\<lambda>(_, l). binance_shown l) (bd_limits b))) = {s. \<exists>v. notional_at data s = Some v \<and> shown v}"
      using assms(1) unfolding BinanceData data_wf.simps by (subst filter_keys) (force simp: binance_shown_def split: option.splits)+
    then have "set (limit_symbols snapshot (map fst (filter (\<lambda>(_, l). binance_shown l) (bd_limits b)))) =
        {s. snapshot_shown snapshot s \<or> (\<exists>v. notional_at data s = Some v \<and> shown v)}" unfolding u by blast
    moreover have "fst (build_rows data snapshot params) =
        map (data_row data snapshot params) (limit_symbols snapshot (map fst (filter (\<lambda>(_, l). binance_shown l) (bd_limits b))))"
      by (simp add: BinanceData build_binance_rows_def)
    ultimately show ?thesis using d by blast
  next
    case (GateData g)
    have "set (map fst (filter (\<lambda>(_, l). shown (gt_current_notional l)) g)) = {s. \<exists>v. notional_at data s = Some v \<and> shown v}"
      using assms(1) unfolding GateData data_wf.simps by (subst filter_keys) auto
    then have "set (limit_symbols snapshot (map fst (filter (\<lambda>(_, l). shown (gt_current_notional l)) g))) =
        {s. snapshot_shown snapshot s \<or> (\<exists>v. notional_at data s = Some v \<and> shown v)}" unfolding u by blast
    moreover have "fst (build_rows data snapshot params) =
        map (data_row data snapshot params) (limit_symbols snapshot (map fst (filter (\<lambda>(_, l). shown (gt_current_notional l)) g)))"
      by (simp add: GateData build_gate_rows_def)
    ultimately show ?thesis using d by blast
  qed
qed

lemma build_row_near:
  "lm_near_limit (build_row disp symbol sp n limit a b c d params) \<longleftrightarrow>
    (\<exists>l m. lm_exchange_limit_usdt (build_row disp symbol sp n limit a b c d params) = Some l \<and>
      guard_metrics_of l (lm_position_notional_usdt (build_row disp symbol sp n limit a b c d params)) symbol params = Inr m \<and>
      alert_threshold_ratio \<le> gm_usage_ratio m)"
  by (auto simp: build_row_def Let_def split: option.splits sum.splits)

lemma data_row_near:
  "lm_near_limit (data_row data snapshot params s) \<longleftrightarrow> (\<exists>l m. lm_exchange_limit_usdt (data_row data snapshot params s) = Some l \<and>
      guard_metrics_of l (lm_position_notional_usdt (data_row data snapshot params s)) s params = Inr m \<and>
      alert_threshold_ratio \<le> gm_usage_ratio m)"
  by (cases data) (auto simp: binance_row_def gate_row_def Let_def build_row_near split: option.split)

lemma data_row_notional:
  "lm_position_notional_usdt (data_row data snapshot params s) = value_or (case notional_at data s of
     None \<Rightarrow> (case map_of snapshot s of None \<Rightarrow> None | Some p \<Rightarrow> sp_futures_usdt p) | v \<Rightarrow> v) 0"
  by (cases data) (auto simp: binance_row_def gate_row_def Let_def build_row_def split: option.split)


definition sample_gate_position :: json where
  "sample_gate_position = JObject [(''contract'', JString ''AIN_USDT''), (''risk_limit'', JNumber (JInt 200)), (''size'', JNumber (JInt (- 1))),
     (''value'', JNumber (JInt 190))]"

definition sample_gate_limit :: gate_limit where
  "sample_gate_limit = \<lparr>gt_contract = ''AIN_USDT'', gt_risk_limit = Fin 200, gt_current_notional = Fin (- 190), gt_cross_leverage_limit = None\<rparr>"

definition sample_gate_load :: guard_load where
  "sample_gate_load = \<lparr>gl_params = default_guard_params, gl_live = True, gl_warnings = []\<rparr>"

definition sample_gate_source :: fr_source where
  "sample_gate_source = \<lparr>fs_strategy_slug = ''gate-fr-arb01'', fs_exchange = ''gate'', fs_sort_order = 0\<rparr>"

definition sample_credentials :: fr_credentials where
  "sample_credentials = \<lparr>fc_api_key = ''k'', fc_secret_key = ''s'', fc_api_base = [], fc_settle = ''usdt''\<rparr>"

lemma sample_gate_fields: "row_symbol sample_gate_position ''contract'' = Some (''AIN_USDT'', ''AINUSDT'')"
  "fr_number_field sample_gate_position ''risk_limit'' = Some (f64_of_int 200)" "fr_number_field sample_gate_position ''value'' = Some (f64_of_int 190)"
  "fr_number_field sample_gate_position ''size'' = Some (f64_of_int (- 1))" "fr_number_field sample_gate_position ''cross_leverage_limit'' = None"
  subgoal by code_simp
  by (simp_all add: fr_number_field_def sample_gate_position_def json_get_def fr_number_value_def as_f64_def)

lemma sample_gate_numbers: "f64_of_int 200 = Fin 200" "f64_of_int 190 = Fin 190" "f64_of_int (- 1) = Fin (- 1)" "f64_of_int 0 = Fin 0"
  using rnd_of_int [of 200] rnd_of_int [of 190] rnd_of_int [of "- 1"] rnd_of_int [of 0] by (simp_all add: f64_of_int_def)

lemma sample_gate_data: "fetch_exchange_data ''gate'' (Inr (JArray [sample_gate_position])) (Inl []) (Inl []) = Inr (GateData [(''AINUSDT'', sample_gate_limit)])"
  by (simp add: fetch_exchange_data_def fetch_gate_data_def fr_root_array_def as_array_def ok_or_def parse_gate_positions_def gate_position_row_def
    sample_gate_fields sample_gate_numbers fr_positive_def f64_defs gate_notional_def finite_only_def value_or_def sample_gate_limit_def Let_def)


end
