(* ===== verification/AccountRisk.thy ===== *)
theory AccountRisk
  imports MarkPrices "HOL-Library.List_Lexorder" "HOL-Library.Char_ord" "HOL-Library.Product_Lexorder"
begin

text \<open>
  \<open>src/src/account_risk.rs\<close>: the account risk of every strategy as its monitor publishes it.  Messages are bytes; the shared-memory service
  (whether it opens, what it delivers) and the clocks are arguments.  The state is what the readers of the cache see together with the
  feeds of the listener thread; a poisoned lock is not modelled.
\<close>

section \<open>Feeds\<close>

record risk_feed =
  rf_strategy_slug :: string
  rf_exchange :: string
  rf_service_name :: string
  rf_sort_order :: int

definition new_feed :: "string \<Rightarrow> string \<Rightarrow> int \<Rightarrow> risk_feed option" where
  "new_feed slug exchange sort_order =
     (case (if exchange \<in> {''binance'', ''gate'', ''bitget'', ''bybit''} then Some exchange else if exchange = ''okx'' then Some ''okex'' else None) of
        None \<Rightarrow> None
      | Some service \<Rightarrow> Some \<lparr>rf_strategy_slug = slug, rf_exchange = exchange,
          rf_service_name = slug @ ''/account_pubs/'' @ service @ ''_pm'', rf_sort_order = sort_order\<rparr>)"

definition rapidx_feed :: "string \<Rightarrow> string \<Rightarrow> string \<Rightarrow> int \<Rightarrow> risk_feed option" where
  "rapidx_feed slug exchange portfolio_id sort_order =
     (case (if exchange = ''binance'' then Some ''binance'' else if exchange = ''okx'' then Some ''okex'' else None) of
        None \<Rightarrow> None
      | Some service \<Rightarrow>
          if portfolio_id = [] \<or> 64 < length portfolio_id \<or> \<not> list_all is_ascii_digit portfolio_id then None
          else Some \<lparr>rf_strategy_slug = slug, rf_exchange = exchange,
            rf_service_name = slug @ ''/account_pubs/rapidx_'' @ service @ ''_'' @ portfolio_id @ ''_pm'', rf_sort_order = sort_order\<rparr>)"

section \<open>Readings\<close>

datatype account_scope = BinanceUnified | BinanceStandardSpot | BinanceStandardUm | OkxUnified | GateUnified | BitgetUnified | BybitUnified

definition decode_scope :: "nat \<Rightarrow> string + account_scope" where
  "decode_scope v =
     (if v = 1 then Inr BinanceUnified else if v = 2 then Inr BinanceStandardSpot else if v = 3 then Inr BinanceStandardUm
      else if v = 10 then Inr OkxUnified else if v = 11 then Inr GateUnified else if v = 12 then Inr BitgetUnified
      else if v = 13 then Inr BybitUnified else Inl ''unsupported account risk scope'')"

fun scope_text :: "account_scope \<Rightarrow> string" where
  "scope_text BinanceUnified = ''binance_unified''" | "scope_text BinanceStandardSpot = ''binance_std_spot''"
| "scope_text BinanceStandardUm = ''binance_std_um''" | "scope_text OkxUnified = ''okx_unified''" | "scope_text GateUnified = ''gate_unified''"
| "scope_text BitgetUnified = ''bitget_unified''" | "scope_text BybitUnified = ''bybit_unified''"

record risk_reading =
  rr_source_ts_ms :: int
  rr_scope :: account_scope
  rr_adjusted_equity_usd :: f64
  rr_actual_equity_usd :: f64
  rr_maintenance_margin_usd :: f64
  rr_initial_margin_usd :: f64
  rr_margin_ratio :: f64
  rr_borrowed_usd :: f64
  rr_notional_usd :: f64
  rr_received_at_ms :: int

definition account_risk_event_type :: nat where "account_risk_event_type = 4007"
definition account_event_header_bytes :: nat where "account_event_header_bytes = 12"
definition account_risk_legacy_body_bytes :: nat where "account_risk_legacy_body_bytes = 4 + 8 + 8 * 7"
definition account_risk_body_bytes :: nat where "account_risk_body_bytes = account_risk_legacy_body_bytes + 8"

definition field :: "'a option \<Rightarrow> ('a \<Rightarrow> string + 'b) \<Rightarrow> string + 'b" where
  "field x f = (case x of None \<Rightarrow> Inl ''message truncated'' | Some v \<Rightarrow> f v)"

definition finite_or_absent :: "f64 \<Rightarrow> bool" where
  "finite_or_absent v \<longleftrightarrow> is_finite v \<or> v = NaN"

definition risk_amounts :: "risk_reading \<Rightarrow> f64 list" where
  "risk_amounts r = [rr_adjusted_equity_usd r, rr_actual_equity_usd r, rr_maintenance_margin_usd r, rr_initial_margin_usd r,
     rr_borrowed_usd r, rr_notional_usd r]"

definition decode_risk_body :: "account_scope \<Rightarrow> nat list \<Rightarrow> string + risk_reading" where
  "decode_risk_body s body =
     field (read_i64 body 4) (\<lambda>ts. field (read_f64 body 12) (\<lambda>adjusted. field (read_f64 body 20) (\<lambda>actual.
     field (read_f64 body 28) (\<lambda>maintenance. field (read_f64 body 36) (\<lambda>initial. field (read_f64 body 44) (\<lambda>ratio.
     field (read_f64 body 52) (\<lambda>borrowed. field (read_f64 body 60) (\<lambda>notional.
       Inr \<lparr>rr_source_ts_ms = ts, rr_scope = s, rr_adjusted_equity_usd = adjusted, rr_actual_equity_usd = actual,
         rr_maintenance_margin_usd = maintenance, rr_initial_margin_usd = initial, rr_margin_ratio = ratio,
         rr_borrowed_usd = borrowed, rr_notional_usd = notional, rr_received_at_ms = 0\<rparr>))))))))"

definition check_reading :: "risk_reading \<Rightarrow> string + risk_reading" where
  "check_reading r =
     (if rr_source_ts_ms r \<le> 0 then Inl ''account risk timestamp must be positive''
      else if \<not> list_all finite_or_absent (risk_amounts r) then Inl ''account risk amount is not finite''
      else if \<not> is_finite (rr_margin_ratio r) \<and> \<not> (rr_maintenance_margin_usd r \<le> f64_epsilon \<and> rr_margin_ratio r = Inf False)
      then Inl ''account risk margin_ratio is not finite''
      else Inr r)"

definition decode_account_risk :: "nat list \<Rightarrow> string + risk_reading option" where
  "decode_account_risk data =
     (if length data < account_event_header_bytes then Inl ''account event too short''
      else field (read_u32 data 0) (\<lambda>event_type.
        if event_type \<noteq> account_risk_event_type then Inr None
        else field (read_u32 data 4) (\<lambda>s. bind_res (decode_scope s) (\<lambda>scope. field (read_u32 data 8) (\<lambda>body_len.
          if body_len \<noteq> account_risk_legacy_body_bytes \<and> body_len \<noteq> account_risk_body_bytes then Inl ''unsupported account risk body length''
          else if length data < account_event_header_bytes + body_len then Inl ''truncated account risk event''
          else field (slice account_event_header_bytes (account_event_header_bytes + body_len) data) (\<lambda>body.
            field (read_u32 body 0) (\<lambda>inner.
              if inner \<noteq> account_risk_event_type then Inl ''account risk inner event type does not match wrapper''
              else bind_res (decode_risk_body scope body) (\<lambda>r. bind_res (check_reading r) (\<lambda>r. Inr (Some r)))))))))) "

section \<open>The cache\<close>

record risk_state =
  rs_connected :: "string \<rightharpoonup> bool"
  rs_readings :: "string \<rightharpoonup> risk_reading"

definition start_state :: "risk_feed list \<Rightarrow> risk_state" where
  "start_state feeds = \<lparr>rs_connected = map_of (map (\<lambda>f. (rf_strategy_slug f, False)) feeds), rs_readings = Map.empty\<rparr>"

definition set_connected :: "string \<Rightarrow> bool \<Rightarrow> risk_state \<Rightarrow> risk_state" where
  "set_connected slug c st = st\<lparr>rs_connected := (rs_connected st)(slug \<mapsto> c)\<rparr>"

definition update_reading :: "string \<Rightarrow> risk_reading \<Rightarrow> int \<Rightarrow> risk_state \<Rightarrow> risk_state" where
  "update_reading slug reading now_ms st =
     (let reading = reading\<lparr>rr_received_at_ms := now_ms\<rparr>
      in (case rs_readings st slug of
            Some existing \<Rightarrow> if rr_source_ts_ms reading < rr_source_ts_ms existing then st else st\<lparr>rs_readings := (rs_readings st)(slug \<mapsto> reading)\<rparr>
          | None \<Rightarrow> st\<lparr>rs_readings := (rs_readings st)(slug \<mapsto> reading)\<rparr>))"

record risk_snapshot =
  sn_strategy_slug :: string
  sn_exchange :: string
  sn_connected :: bool
  sn_status :: string
  sn_risk_level :: "string option"
  sn_scope :: "string option"
  sn_source_ts_ms :: "int option"
  sn_received_at_ms :: "int option"
  sn_uni_mmr :: "f64 option"
  sn_adjusted_equity_usd :: "f64 option"
  sn_actual_equity_usd :: "f64 option"
  sn_maintenance_margin_usd :: "f64 option"
  sn_initial_margin_usd :: "f64 option"
  sn_borrowed_usd :: "f64 option"
  sn_notional_usd :: "f64 option"

definition stale_after_ms :: int where "stale_after_ms = 90000"

definition risk_level :: "risk_reading \<Rightarrow> string" where
  "risk_level r =
     (if rr_maintenance_margin_usd r \<le> f64_epsilon then ''free_trade''
      else if rnd (3 / 2) < rr_margin_ratio r then ''free_trade''
      else if rnd (6 / 5) < rr_margin_ratio r then ''warning''
      else if rnd (21 / 20) < rr_margin_ratio r then ''reduce_only''
      else ''liquidation'')"

definition snapshot_for_feed :: "risk_feed \<Rightarrow> bool \<Rightarrow> risk_reading option \<Rightarrow> int \<Rightarrow> risk_snapshot" where
  "snapshot_for_feed feed con reading now_ms =
     (let stale = (case reading of None \<Rightarrow> False | Some r \<Rightarrow> stale_after_ms < saturating_sub_i64 now_ms (rr_received_at_ms r))
      in \<lparr>sn_strategy_slug = rf_strategy_slug feed, sn_exchange = rf_exchange feed, sn_connected = con,
          sn_status = (if \<not> con then ''unavailable'' else if reading = None then ''waiting'' else if stale then ''stale'' else ''live''),
          sn_risk_level = map_option risk_level reading, sn_scope = map_option (scope_text \<circ> rr_scope) reading,
          sn_source_ts_ms = map_option rr_source_ts_ms reading, sn_received_at_ms = map_option rr_received_at_ms reading,
          sn_uni_mmr = (case reading of None \<Rightarrow> None
            | Some r \<Rightarrow> if f64_epsilon < rr_maintenance_margin_usd r then Some (rr_margin_ratio r) else None),
          sn_adjusted_equity_usd = map_option rr_adjusted_equity_usd reading, sn_actual_equity_usd = map_option rr_actual_equity_usd reading,
          sn_maintenance_margin_usd = map_option rr_maintenance_margin_usd reading,
          sn_initial_margin_usd = map_option rr_initial_margin_usd reading, sn_borrowed_usd = map_option rr_borrowed_usd reading,
          sn_notional_usd = map_option rr_notional_usd reading\<rparr>)"

definition snapshots :: "risk_feed list \<Rightarrow> risk_state \<Rightarrow> int \<Rightarrow> risk_snapshot list" where
  "snapshots feeds st now_ms =
     map (\<lambda>feed. snapshot_for_feed feed (case rs_connected st (rf_strategy_slug feed) of None \<Rightarrow> False | Some c \<Rightarrow> c)
         (rs_readings st (rf_strategy_slug feed)) now_ms)
       (sort_key (\<lambda>f. (rf_sort_order f, rf_strategy_slug f)) feeds)"

section \<open>The listener\<close>

record ipc_feed =
  ip_config :: risk_feed
  ip_subscribed :: bool
  ip_next_open_attempt_at :: int

definition new_ipc_feed :: "int \<Rightarrow> risk_feed \<Rightarrow> ipc_feed" where
  "new_ipc_feed instant config = \<lparr>ip_config = config, ip_subscribed = False, ip_next_open_attempt_at = instant\<rparr>"

definition ipc_reconnect_interval_ms :: int where "ipc_reconnect_interval_ms = 500"

text \<open>What a poll of one feed meets: the instants of its steps, whether the service opens, and what is delivered: messages with the time they
  are handled, then nothing more or a failure.\<close>

record feed_world =
  fw_instant :: int
  fw_opens :: bool
  fw_failed_instant :: int
  fw_messages :: "(nat list \<times> int) list"
  fw_breaks :: bool
  fw_break_instant :: int

definition ensure_subscriber :: "feed_world \<Rightarrow> ipc_feed \<times> risk_state \<Rightarrow> ipc_feed \<times> risk_state" where
  "ensure_subscriber w = (\<lambda>(f, st).
     if ip_subscribed f \<or> fw_instant w < ip_next_open_attempt_at f then (f, st)
     else if fw_opens w then (f\<lparr>ip_subscribed := True\<rparr>, set_connected (rf_strategy_slug (ip_config f)) True st)
     else (f\<lparr>ip_next_open_attempt_at := fw_failed_instant w + ipc_reconnect_interval_ms\<rparr>, set_connected (rf_strategy_slug (ip_config f)) False st))"

definition receive_message :: "string \<Rightarrow> nat list \<times> int \<Rightarrow> risk_state \<Rightarrow> risk_state" where
  "receive_message slug = (\<lambda>(payload, now_ms) st.
     case decode_account_risk payload of Inr (Some reading) \<Rightarrow> update_reading slug reading now_ms st | _ \<Rightarrow> st)"

definition drain :: "feed_world \<Rightarrow> ipc_feed \<times> risk_state \<Rightarrow> ipc_feed \<times> risk_state" where
  "drain w = (\<lambda>(f, st).
     if \<not> ip_subscribed f then (f, st)
     else
       let st = fold (receive_message (rf_strategy_slug (ip_config f))) (fw_messages w) st
       in if fw_breaks w
          then (f\<lparr>ip_subscribed := False, ip_next_open_attempt_at := fw_break_instant w + ipc_reconnect_interval_ms\<rparr>,
            set_connected (rf_strategy_slug (ip_config f)) False st)
          else (f, st))"

fun poll :: "(string \<Rightarrow> feed_world) \<Rightarrow> ipc_feed list \<Rightarrow> risk_state \<Rightarrow> ipc_feed list \<times> risk_state" where
  "poll world [] st = ([], st)"
| "poll world (f # fs) st =
     (let w = world (rf_strategy_slug (ip_config f));
          (f, st) = drain w (ensure_subscriber w (f, st));
          (fs, st) = poll world fs st
      in (f # fs, st))"

text \<open>The states of the cache: after its start and any number of polls.\<close>

inductive risk_reachable :: "risk_feed list \<Rightarrow> ipc_feed list \<Rightarrow> risk_state \<Rightarrow> bool" for feeds where
  started: "risk_reachable feeds (map (new_ipc_feed instant) feeds) (start_state feeds)"
| polled: "risk_reachable feeds fs st \<Longrightarrow> poll world fs st = (fs', st') \<Longrightarrow> risk_reachable feeds fs' st'"

section \<open>What readers see\<close>

definition reading_ok :: "risk_reading \<Rightarrow> bool" where
  "reading_ok r \<longleftrightarrow> 0 < rr_source_ts_ms r \<and> list_all finite_or_absent (risk_amounts r) \<and>
     (is_finite (rr_margin_ratio r) \<or> rr_maintenance_margin_usd r \<le> f64_epsilon \<and> rr_margin_ratio r = Inf False)"

definition readings_ok :: "risk_state \<Rightarrow> bool" where
  "readings_ok st \<longleftrightarrow> (\<forall>slug r. rs_readings st slug = Some r \<longrightarrow> reading_ok r)"

lemma field_Inr: "field x f = Inr y \<longleftrightarrow> (\<exists>v. x = Some v \<and> f v = Inr y)"
  by (cases x) (simp_all add: field_def)

lemma check_ok: "check_reading r = Inr r' \<Longrightarrow> r' = r \<and> reading_ok r"
  by (auto simp: check_reading_def reading_ok_def split: if_splits)

lemma decode_ok: "decode_account_risk data = Inr (Some r) \<Longrightarrow> reading_ok r"
  by (auto simp: decode_account_risk_def field_Inr bind_res_Inr split: if_splits dest!: check_ok)

lemma update_reading_ok: "readings_ok st \<Longrightarrow> reading_ok r \<Longrightarrow> readings_ok (update_reading slug r now st)"
  by (auto simp: readings_ok_def update_reading_def Let_def reading_ok_def risk_amounts_def split: option.splits)

lemma update_reading_connected [simp]: "rs_connected (update_reading slug r now st) = rs_connected st"
  by (auto simp: update_reading_def Let_def split: option.splits)

lemma receive_ok: "readings_ok st \<Longrightarrow> readings_ok (receive_message slug m st) \<and> rs_connected (receive_message slug m st) = rs_connected st"
  using decode_ok update_reading_ok by (cases m) (auto simp: receive_message_def split: sum.splits option.splits)

lemma receives_ok: "readings_ok st \<Longrightarrow> readings_ok (fold (receive_message slug) ms st) \<and> rs_connected (fold (receive_message slug) ms st) = rs_connected st"
  by (induction ms arbitrary: st) (simp_all add: receive_ok)

lemma set_connected_ok: "readings_ok st \<Longrightarrow> readings_ok (set_connected slug c st)" "rs_connected (set_connected slug c st) = (rs_connected st)(slug \<mapsto> c)"
  by (simp_all add: readings_ok_def set_connected_def)

lemma feed_polled:
  assumes "drain w (ensure_subscriber w (f, st)) = (f', st')" "readings_ok st" "rs_connected st (rf_strategy_slug (ip_config f)) = Some (ip_subscribed f)"
  shows "readings_ok st' \<and> ip_config f' = ip_config f \<and> rs_connected st' (rf_strategy_slug (ip_config f)) = Some (ip_subscribed f') \<and>
    (\<forall>slug. slug \<noteq> rf_strategy_slug (ip_config f) \<longrightarrow> rs_connected st' slug = rs_connected st slug)"
proof -
  obtain f1 st1 where e: "ensure_subscriber w (f, st) = (f1, st1)" by fastforce
  have E: "readings_ok st1 \<and> ip_config f1 = ip_config f \<and> rs_connected st1 (rf_strategy_slug (ip_config f)) = Some (ip_subscribed f1) \<and>
    (\<forall>slug. slug \<noteq> rf_strategy_slug (ip_config f) \<longrightarrow> rs_connected st1 slug = rs_connected st slug)"
    using e assms(2,3) by (auto simp: ensure_subscriber_def set_connected_ok split: if_splits)
  then have R: "readings_ok (fold (receive_message (rf_strategy_slug (ip_config f))) (fw_messages w) st1)"
      "rs_connected (fold (receive_message (rf_strategy_slug (ip_config f))) (fw_messages w) st1) = rs_connected st1"
    using receives_ok by blast+
  show ?thesis using assms(1) E R by (auto simp: e drain_def set_connected_ok Let_def split: if_splits)
qed

lemma poll_ok:
  assumes "poll world fs st = (fs', st')" "readings_ok st" "distinct (map (rf_strategy_slug \<circ> ip_config) fs)"
    "\<forall>f \<in> set fs. rs_connected st (rf_strategy_slug (ip_config f)) = Some (ip_subscribed f)"
  shows "readings_ok st' \<and> map ip_config fs' = map ip_config fs \<and> (\<forall>f \<in> set fs'. rs_connected st' (rf_strategy_slug (ip_config f)) = Some (ip_subscribed f)) \<and>
    (\<forall>slug. slug \<notin> set (map (rf_strategy_slug \<circ> ip_config) fs) \<longrightarrow> rs_connected st' slug = rs_connected st slug)"
  using assms
proof (induction fs arbitrary: st fs')
  case (Cons f fs)
  let ?slug = "rf_strategy_slug (ip_config f)"
  obtain f1 st1 where f1: "drain (world ?slug) (ensure_subscriber (world ?slug) (f, st)) = (f1, st1)" by fastforce
  obtain fs1 st2 where p: "poll world fs st1 = (fs1, st2)" by fastforce
  have r: "fs' = f1 # fs1" "st' = st2" using Cons.prems(1) by (simp_all add: Let_def f1 p)
  note F = feed_polled [OF f1 Cons.prems(2)]
  have F': "readings_ok st1 \<and> ip_config f1 = ip_config f \<and> rs_connected st1 ?slug = Some (ip_subscribed f1) \<and>
    (\<forall>slug. slug \<noteq> ?slug \<longrightarrow> rs_connected st1 slug = rs_connected st slug)" by (rule F) (use Cons.prems(4) in simp)
  have n: "?slug \<notin> set (map (rf_strategy_slug \<circ> ip_config) fs)" "distinct (map (rf_strategy_slug \<circ> ip_config) fs)" using Cons.prems(3) by (simp_all add: comp_def)
  have others: "\<forall>g \<in> set fs. rs_connected st1 (rf_strategy_slug (ip_config g)) = Some (ip_subscribed g)"
  proof
    fix g assume g: "g \<in> set fs"
    have "rf_strategy_slug (ip_config g) \<noteq> ?slug" using n(1) imageI [OF g, of "rf_strategy_slug \<circ> ip_config"] by (cases "rf_strategy_slug (ip_config g) = ?slug") simp_all
    then show "rs_connected st1 (rf_strategy_slug (ip_config g)) = Some (ip_subscribed g)" using F' Cons.prems(4) g by simp
  qed
  have IH: "readings_ok st2 \<and> map ip_config fs1 = map ip_config fs \<and>
    (\<forall>f \<in> set fs1. rs_connected st2 (rf_strategy_slug (ip_config f)) = Some (ip_subscribed f)) \<and>
    (\<forall>slug. slug \<notin> set (map (rf_strategy_slug \<circ> ip_config) fs) \<longrightarrow> rs_connected st2 slug = rs_connected st1 slug)"
    using Cons.IH [OF p [folded r(2)] _ n(2) others] F' unfolding r(2) by blast
  have c1: "rs_connected st2 ?slug = Some (ip_subscribed f1)" using IH F' n(1) by (metis)
  have c2: "\<forall>slug. slug \<notin> set (map (rf_strategy_slug \<circ> ip_config) (f # fs)) \<longrightarrow> rs_connected st2 slug = rs_connected st slug"
    using IH F' by simp
  show ?case using IH F' c1 c2 by (simp add: r)
qed simp

lemma risk_reachable_ok:
  assumes "risk_reachable feeds fs st" "distinct (map rf_strategy_slug feeds)"
  shows "readings_ok st \<and> map ip_config fs = feeds \<and> (\<forall>f \<in> set fs. rs_connected st (rf_strategy_slug (ip_config f)) = Some (ip_subscribed f))"
  using assms(1)
proof (induction rule: risk_reachable.induct)
  case (started instant)
  have "map_of (map (\<lambda>f. (rf_strategy_slug f, False)) feeds) (rf_strategy_slug f) = Some False" if "f \<in> set feeds" for f
    using that assms(2) by (intro map_of_is_SomeI) (auto simp: comp_def)
  then show ?case by (simp add: readings_ok_def start_state_def new_ipc_feed_def comp_def)
next
  case (polled fs st world fs' st')
  then have "distinct (map (rf_strategy_slug \<circ> ip_config) fs)" using assms(2) by (metis map_map)
  then show ?case using poll_ok [OF polled.hyps(2)] polled.IH by simp
qed





end
