(* ===== verification/ReconcileCleanup.thy ===== *)
theory ReconcileCleanup
  imports JsonFields
begin

text \<open>
  \<open>src/src/reconcile_cleanup.rs\<close>: removing the work directories that reconciliations left behind, and the name a reconciliation gives its
  directory (\<open>report_root\<close> of \<open>src/src/bin/reconcile_rocksdb.rs\<close>).  The file system is data: what reading the directory, its metadata and
  \<open>/proc\<close> gives.  Times are nanoseconds; a directory whose removal fails is an error, and what remains of it is not modelled.
\<close>

section \<open>Names of work directories\<close>

definition u32_max :: nat where "u32_max = 2 ^ 32 - 1"

definition parse_run_pid :: "string \<Rightarrow> nat option" where
  "parse_run_pid name =
     (case split_by (\<lambda>c. c = CHR ''-'') name of
        [stamp, pid, micros] \<Rightarrow>
          (if length stamp \<noteq> 16 \<or> \<not> list_all is_ascii_digit (take 8 stamp) \<or> stamp ! 8 \<noteq> CHR ''T'' \<or>
              \<not> list_all is_ascii_digit (take 6 (drop 9 stamp)) \<or> stamp ! 15 \<noteq> CHR ''Z'' \<or> micros = [] \<or> \<not> list_all is_ascii_digit micros
           then None
           else (case parse_unsigned u32_max pid of None \<Rightarrow> None | Some p \<Rightarrow> if 0 < p then Some p else None))
      | _ \<Rightarrow> None)"

text \<open>The directory of a reconciliation: its day and time as the calendar writes them, its process and the microseconds.\<close>

definition run_dir_name :: "string \<Rightarrow> string \<Rightarrow> nat \<Rightarrow> nat \<Rightarrow> string" where
  "run_dir_name date clock pid micros =
     date @ CHR ''T'' # clock @ CHR ''Z'' # CHR ''-'' # nat_digits pid @ CHR ''-'' # nat_digits micros"

lemma split_by_plain: "list_all (\<lambda>x. \<not> p x) xs \<Longrightarrow> split_by p xs = [xs]"
  by (induction xs) auto

lemma split_by_next: "list_all (\<lambda>x. \<not> p x) xs \<Longrightarrow> p c \<Longrightarrow> split_by p (xs @ c # ys) = xs # split_by p ys"
  by (induction xs) auto

lemma digits_no_dash: "list_all is_ascii_digit s \<Longrightarrow> list_all (\<lambda>c. c \<noteq> CHR ''-'') s"
  by (auto simp: list_all_iff is_ascii_digit_def)

lemma parse_unsigned_digits: "n \<le> limit \<Longrightarrow> parse_unsigned limit (nat_digits n) = Some n"
proof -
  assume n: "n \<le> limit"
  obtain c r where cr: "nat_digits n = c # r" using nat_digits_digits [of n] by (cases "nat_digits n") auto
  then have "is_ascii_digit c" using hd_digit [of c r n] by simp
  then have "strip_plus (nat_digits n) = nat_digits n" by (auto simp: cr strip_plus_def is_ascii_digit_def)
  then show ?thesis using n by (simp add: parse_unsigned_def parse_digits_nat_digits)
qed

lemma run_dir_pid:
  assumes "length date = 8" "list_all is_ascii_digit date" "length clock = 6" "list_all is_ascii_digit clock" "0 < pid" "pid \<le> u32_max"
  shows "parse_run_pid (run_dir_name date clock pid micros) = Some pid"
proof -
  let ?stamp = "date @ CHR ''T'' # clock @ [CHR ''Z'']"
  have n: "run_dir_name date clock pid micros = ?stamp @ CHR ''-'' # (nat_digits pid @ CHR ''-'' # nat_digits micros)"
    by (simp add: run_dir_name_def)
  have s: "list_all (\<lambda>c. \<not> c = CHR ''-'') ?stamp" using digits_no_dash [OF assms(2)] digits_no_dash [OF assms(4)] by simp
  have d: "list_all (\<lambda>c. \<not> c = CHR ''-'') (nat_digits k)" for k using digits_no_dash nat_digits_digits by blast
  have st: "split_by (\<lambda>c. c = CHR ''-'') (?stamp @ CHR ''-'' # ys) = ?stamp # split_by (\<lambda>c. c = CHR ''-'') ys" for ys
    by (rule split_by_next [OF s]) simp
  have sd: "split_by (\<lambda>c. c = CHR ''-'') (nat_digits k @ CHR ''-'' # ys) = nat_digits k # split_by (\<lambda>c. c = CHR ''-'') ys" for k ys
    by (rule split_by_next [OF d]) simp
  have split: "split_by (\<lambda>c. c = CHR ''-'') (run_dir_name date clock pid micros) = [?stamp, nat_digits pid, nat_digits micros]"
    unfolding n st sd split_by_plain [OF d] by simp
  have "take 8 ?stamp = date" "?stamp ! 8 = CHR ''T''" "take 6 (drop 9 ?stamp) = clock" "?stamp ! 15 = CHR ''Z''"
    using assms(1,3) by (simp_all add: nth_append)
  then show ?thesis unfolding parse_run_pid_def split
    using assms nat_digits_digits [of micros] by (simp add: parse_unsigned_digits)
qed

section \<open>Processes\<close>

text \<open>What \<open>/proc\<close> says of a process: its command line when that can be read, and whether its directory exists.\<close>

record proc_entry =
  pe_cmdline :: "nat list option"
  pe_exists :: bool

definition reconcile_program :: "nat list" where
  "reconcile_program = map of_char ''reconcile_rocksdb''"

definition has_window :: "'a list \<Rightarrow> 'a list \<Rightarrow> bool" where
  "has_window w xs \<longleftrightarrow> list_ex (\<lambda>k. take (length w) (drop k xs) = w) [0..<length xs + 1 - length w]"

definition process_owns_run :: "(nat \<Rightarrow> proc_entry) \<Rightarrow> nat \<Rightarrow> bool" where
  "process_owns_run proc pid =
     (case pe_cmdline (proc pid) of
        Some cmdline \<Rightarrow> list_ex (has_window reconcile_program) (split_by (\<lambda>b. b = 0) cmdline)
      | None \<Rightarrow> pe_exists (proc pid))"

section \<open>Directories\<close>

text \<open>A directory entry: unreadable, a file or a symbolic link with its time of modification, or a directory with its own time and, when it
  can be read, its entries.  Links are never followed.\<close>

datatype fs_node = FsUnreadable | FsLeaf int | FsDir int "fs_node list option"

fun newest_modified :: "fs_node \<Rightarrow> int option" and newest_of :: "int \<Rightarrow> fs_node list \<Rightarrow> int option" where
  "newest_modified FsUnreadable = None"
| "newest_modified (FsLeaf m) = Some m"
| "newest_modified (FsDir m None) = None"
| "newest_modified (FsDir m (Some children)) = newest_of m children"
| "newest_of m [] = Some m"
| "newest_of m (c # cs) = (case newest_modified c of None \<Rightarrow> None | Some t \<Rightarrow> newest_of (max m t) cs)"

record work_entry =
  we_name :: "string option"
  we_is_dir :: "bool option"
  we_node :: fs_node
  we_removable :: bool

definition seconds :: "nat \<Rightarrow> int" where "seconds n = int n * 1000000000"

definition default_stale_secs :: nat where "default_stale_secs = 2 * 60 * 60"
definition legacy_stale_secs :: nat where "legacy_stale_secs = 24 * 60 * 60"

definition stale_threshold :: "int \<Rightarrow> nat option \<Rightarrow> int" where
  "stale_threshold stale_age pid = (if pid \<noteq> None then stale_age else max stale_age (seconds legacy_stale_secs))"

definition entry_pid :: "work_entry \<Rightarrow> nat option" where
  "entry_pid e = (case we_name e of None \<Rightarrow> None | Some name \<Rightarrow> parse_run_pid name)"

text \<open>One entry: whether it is removed.\<close>

definition cleanup_entry :: "(nat \<Rightarrow> proc_entry) \<Rightarrow> int \<Rightarrow> int \<Rightarrow> work_entry \<Rightarrow> string + bool" where
  "cleanup_entry proc now stale_age e =
     (case we_is_dir e of
        None \<Rightarrow> Inl ''file type''
      | Some False \<Rightarrow> Inr False
      | Some True \<Rightarrow>
          let pid = entry_pid e; threshold = stale_threshold stale_age pid
          in (case newest_modified (we_node e) of
                None \<Rightarrow> Inr False
              | Some newest \<Rightarrow>
                  if max 0 (now - newest) < threshold then Inr False
                  else if (case pid of None \<Rightarrow> False | Some p \<Rightarrow> process_owns_run proc p) then Inr False
                  else if we_removable e then Inr True else Inl ''remove stale work directory''))"

fun cleanup_entries :: "(nat \<Rightarrow> proc_entry) \<Rightarrow> int \<Rightarrow> int \<Rightarrow> work_entry option list \<Rightarrow> work_entry list \<Rightarrow> work_entry list \<times> (string + nat)" where
  "cleanup_entries proc now stale_age [] removed = (removed, Inr (length removed))"
| "cleanup_entries proc now stale_age (None # es) removed = (removed, Inl ''read entry'')"
| "cleanup_entries proc now stale_age (Some e # es) removed =
     (case cleanup_entry proc now stale_age e of
        Inl err \<Rightarrow> (removed, Inl err)
      | Inr gone \<Rightarrow> cleanup_entries proc now stale_age es (if gone then removed @ [e] else removed))"

datatype work_root = RootDirectory "work_entry option list option" | RootOther | RootMissing | RootUnreadable

fun cleanup_stale_work_dirs :: "work_root \<Rightarrow> (nat \<Rightarrow> proc_entry) \<Rightarrow> int \<Rightarrow> int \<Rightarrow> work_entry list \<times> (string + nat)" where
  "cleanup_stale_work_dirs (RootDirectory (Some es)) proc now stale_age = cleanup_entries proc now stale_age es []"
| "cleanup_stale_work_dirs (RootDirectory None) proc now stale_age = ([], Inl ''read root'')"
| "cleanup_stale_work_dirs RootOther proc now stale_age = ([], Inr 0)"
| "cleanup_stale_work_dirs RootMissing proc now stale_age = ([], Inr 0)"
| "cleanup_stale_work_dirs RootUnreadable proc now stale_age = ([], Inl ''inspect root'')"

definition u64_limit :: nat where "u64_limit = 2 ^ 64 - 1"

definition cleanup_default_stale_work_dirs :: "string option \<Rightarrow> work_root \<Rightarrow> (nat \<Rightarrow> proc_entry) \<Rightarrow> int \<Rightarrow> work_entry list \<times> (string + nat)" where
  "cleanup_default_stale_work_dirs stale_env work_root proc now =
     (case (case stale_env of None \<Rightarrow> Some default_stale_secs | Some v \<Rightarrow> parse_unsigned u64_limit v) of
        None \<Rightarrow> ([], Inl ''parse CRYPTO_NAV_RECONCILE_STALE_SECS'')
      | Some secs \<Rightarrow> cleanup_stale_work_dirs work_root proc now (seconds secs))"

section \<open>What is removed\<close>

fun modified_times :: "fs_node \<Rightarrow> int list" where
  "modified_times FsUnreadable = []"
| "modified_times (FsLeaf m) = [m]"
| "modified_times (FsDir m None) = [m]"
| "modified_times (FsDir m (Some children)) = m # concat (map modified_times children)"

lemma newest_bound:
  "newest_modified node = Some n \<Longrightarrow> \<forall>t \<in> set (modified_times node). t \<le> n"
  "newest_of m children = Some n \<Longrightarrow> m \<le> n \<and> (\<forall>c \<in> set children. \<forall>t \<in> set (modified_times c). t \<le> n)"
proof (induction node and m children arbitrary: n and n rule: newest_modified_newest_of.induct)
  case (6 m c cs)
  from "6.prems" obtain t where t: "newest_modified c = Some t" "newest_of (max m t) cs = Some n" by (auto split: option.splits)
  have "\<forall>u \<in> set (modified_times c). u \<le> t" using "6.IH"(1) [OF t(1)] .
  moreover have "max m t \<le> n \<and> (\<forall>c \<in> set cs. \<forall>u \<in> set (modified_times c). u \<le> n)" using "6.IH"(2) [OF t(1) t(2)] .
  ultimately show ?case by force
qed auto

text \<open>An entry is expired: a directory that can be read, idle for long enough, of no run or of a run whose process no longer owns it.\<close>

definition expired :: "(nat \<Rightarrow> proc_entry) \<Rightarrow> int \<Rightarrow> int \<Rightarrow> work_entry \<Rightarrow> bool" where
  "expired proc now stale_age e \<longleftrightarrow> we_is_dir e = Some True \<and>
     (\<exists>n. newest_modified (we_node e) = Some n \<and> stale_threshold stale_age (entry_pid e) \<le> max 0 (now - n)) \<and>
     (\<forall>p. entry_pid e = Some p \<longrightarrow> \<not> process_owns_run proc p)"

lemma cleanup_entry_expired: "cleanup_entry proc now stale_age e = Inr b \<Longrightarrow> b \<longleftrightarrow> expired proc now stale_age e"
  by (auto simp: cleanup_entry_def expired_def Let_def split: option.splits bool.splits if_splits)

lemma cleanup_entries_removed:
  "cleanup_entries proc now stale_age es removed = (removed', r) \<Longrightarrow>
    \<exists>more. removed' = removed @ more \<and> (\<forall>e \<in> set more. Some e \<in> set es \<and> expired proc now stale_age e) \<and>
      (\<forall>n. r = Inr n \<longrightarrow> n = length removed' \<and> None \<notin> set es \<and> map Some more = filter (\<lambda>x. expired proc now stale_age (the x)) es)"
proof (induction proc now stale_age es removed rule: cleanup_entries.induct)
  case (3 proc now stale_age e es removed)
  show ?case
  proof (cases "cleanup_entry proc now stale_age e")
    case (Inr gone)
    note g = cleanup_entry_expired [OF Inr]
    from "3.IH" [OF Inr] "3.prems" Inr obtain more where m: "removed' = (if gone then removed @ [e] else removed) @ more"
      "\<forall>e \<in> set more. Some e \<in> set es \<and> expired proc now stale_age e"
      "\<forall>n. r = Inr n \<longrightarrow> n = length removed' \<and> None \<notin> set es \<and> map Some more = filter (\<lambda>x. expired proc now stale_age (the x)) es"
      by auto
    then show ?thesis using g by (intro exI [of _ "if gone then e # more else more"]) auto
  qed (use "3.prems" in auto)
qed auto

text \<open>C19: A cleanup removes only directories in which nothing was modified for the stale age (a full day when the name is not that of a run),
  never the directory that a reconciliation created and whose process still runs; when it reports a count, it is the number of removed
  directories, and every directory that is idle for long enough and not owned was removed.\<close>

theorem cleanup_spares_runs:
  assumes "cleanup_stale_work_dirs (RootDirectory (Some es)) proc now stale_age = (removed, r)" "0 < stale_age"
  shows "(\<forall>e \<in> set removed. Some e \<in> set es \<and> we_is_dir e = Some True \<and>
      (\<forall>t \<in> set (modified_times (we_node e)). stale_threshold stale_age (entry_pid e) \<le> now - t) \<and>
      (\<forall>date clock pid micros. we_name e = Some (run_dir_name date clock pid micros) \<and> length date = 8 \<and> list_all is_ascii_digit date \<and>
         length clock = 6 \<and> list_all is_ascii_digit clock \<and> 0 < pid \<and> pid \<le> u32_max \<longrightarrow> \<not> process_owns_run proc pid)) \<and>
    (\<forall>n. r = Inr n \<longrightarrow> n = length removed \<and> (\<forall>e. Some e \<in> set es \<and> expired proc now stale_age e \<longrightarrow> e \<in> set removed))"
proof -
  from cleanup_entries_removed [of proc now stale_age es "[]" removed r] assms(1) obtain more where more: "removed = more"
    "\<forall>e \<in> set more. Some e \<in> set es \<and> expired proc now stale_age e"
    "\<forall>n. r = Inr n \<longrightarrow> n = length removed \<and> None \<notin> set es \<and> map Some more = filter (\<lambda>x. expired proc now stale_age (the x)) es" by auto
  have t: "0 < stale_threshold stale_age p" for p using assms(2) by (auto simp: stale_threshold_def)
  have T: "stale_threshold stale_age (entry_pid e) \<le> now - s" if x: "expired proc now stale_age e" and s: "s \<in> set (modified_times (we_node e))" for e s
    using x newest_bound(1) [of "we_node e"] s t [of "entry_pid e"] by (fastforce simp: expired_def)
  have P: "\<not> process_owns_run proc pid" if "expired proc now stale_age e" "we_name e = Some (run_dir_name date clock pid micros)"
    "length date = 8" "list_all is_ascii_digit date" "length clock = 6" "list_all is_ascii_digit clock" "0 < pid" "pid \<le> u32_max"
    for e date clock pid micros
    using that run_dir_pid [OF that(3-8), of micros] by (auto simp: expired_def entry_pid_def)
  have D: "we_is_dir e = Some True" if "expired proc now stale_age e" for e using that by (simp add: expired_def)
  have R: "e \<in> set removed" if "r = Inr n" "Some e \<in> set es" "expired proc now stale_age e" for e n
  proof -
    have "Some e \<in> set (map Some more)" using more(3) that by auto
    then show ?thesis using more(1) by auto
  qed
  show ?thesis
  proof (intro conjI ballI allI impI)
    fix e assume "e \<in> set removed"
    then have e: "Some e \<in> set es" "expired proc now stale_age e" using more by auto
    show "Some e \<in> set es" "we_is_dir e = Some True" using e D by auto
    show "stale_threshold stale_age (entry_pid e) \<le> now - s" if "s \<in> set (modified_times (we_node e))" for s using T e(2) that by blast
    show "\<not> process_owns_run proc pid" if "we_name e = Some (run_dir_name date clock pid micros) \<and> length date = 8 \<and>
      list_all is_ascii_digit date \<and> length clock = 6 \<and> list_all is_ascii_digit clock \<and> 0 < pid \<and> pid \<le> u32_max" for date clock pid micros
      using P [OF e(2)] that by blast
  qed (use more(1,3) R in auto)
qed


lemma cleanup_spares_runs_witness:
  "\<exists>removed. cleanup_stale_work_dirs (RootDirectory (Some [Some \<lparr>we_name = Some ''20260730T081555Z-czvjnle_'', we_is_dir = Some True,
      we_node = FsDir 5 (Some [FsLeaf 7]), we_removable = True\<rparr>])) (\<lambda>_. \<lparr>pe_cmdline = None, pe_exists = False\<rparr>) 86400000000009 7200000000000 =
      (removed, Inr 1) \<and> length removed = 1"
proof -
  let ?e = "\<lparr>we_name = Some ''20260730T081555Z-czvjnle_'', we_is_dir = Some True, we_node = FsDir 5 (Some [FsLeaf 7]), we_removable = True\<rparr>"
  have n: "parse_run_pid ''20260730T081555Z-czvjnle_'' = None" by code_simp
  have r: "cleanup_stale_work_dirs (RootDirectory (Some [Some ?e])) (\<lambda>_. \<lparr>pe_cmdline = None, pe_exists = False\<rparr>) 86400000000009 7200000000000 = ([?e], Inr 1)"
    by (simp add: cleanup_entry_def entry_pid_def n stale_threshold_def seconds_def legacy_stale_secs_def Let_def)
  from cleanup_spares_runs [OF r] have "length [?e] = 1" by simp
  then show ?thesis using r by blast
qed


end
