(* ===== verification/LiveHistory.thy ===== *)
theory LiveHistory
  imports ReconcileCleanup "HOL-Library.List_Lexorder" "HOL-Library.Char_ord" "HOL-Library.Product_Lexorder"
begin

text \<open>
  \<open>src/src/live_history.rs\<close>: keeping the histories of the strategies up to date.  The programs it starts answer through a \<open>world\<close>, a
  function of the command and of every command that finished before; a pass threads the list of commands with their answers.  The clock,
  the answers of the database and of the CTA manager and the JSON parser are arguments.
\<close>

section \<open>Configuration and strategies\<close>

datatype program = SyncHistory | AlignmentCheck | OrderSynthesis | RedisCli

record live_config =
  cf_sync_interval_secs :: nat
  cf_auto_reconcile :: bool
  cf_path :: "program \<Rightarrow> string"
  cf_redis_host :: string
  cf_redis_port :: string
  cf_redis_db :: string
  cf_cta_manager_url :: string

record live_strategy =
  st_slug :: string
  st_db_schema :: string
  st_env_path :: string
  st_exchange :: string
  st_account_mode :: string
  st_strategy_kind :: string
  st_st_ms :: int
  st_schedule_offset_minutes :: int

text \<open>An environment variable: its text, absent, or not text.\<close>

datatype env_var = EnvText string | EnvAbsent | EnvInvalid

definition env_u64 :: "env_var \<Rightarrow> nat \<Rightarrow> string + nat" where
  "env_u64 v default_value =
     (case v of
        EnvText s \<Rightarrow> (case parse_unsigned u64_limit s of None \<Rightarrow> Inl ''parse as non-negative seconds'' | Some n \<Rightarrow> Inr n)
      | EnvAbsent \<Rightarrow> Inr default_value
      | EnvInvalid \<Rightarrow> Inl ''read'')"

definition parse_auto_reconcile :: "string option \<Rightarrow> string + bool" where
  "parse_auto_reconcile v =
     (case map_option (to_ascii_lowercase \<circ> str_trim) v of
        None \<Rightarrow> Inr True
      | Some s \<Rightarrow>
          if s \<in> {''true'', ''1'', ''on'', ''yes''} then Inr True
          else if s \<in> {''false'', ''0'', ''off'', ''no''} then Inr False
          else Inl ''CRYPTO_NAV_AUTO_RECONCILE must be true/1/on/yes or false/0/off/no'')"

definition default_sync_interval_secs :: nat where "default_sync_interval_secs = 900"

text \<open>\<open>from_env\<close>: nothing when the interval is zero.  The texts with a default of their own are given by \<open>paths\<close> and the \<open>redis\<close> arguments.\<close>

definition from_env :: "env_var \<Rightarrow> env_var \<Rightarrow> (program \<Rightarrow> string) \<Rightarrow> string option \<Rightarrow> string option \<Rightarrow> string option \<Rightarrow> string option
    \<Rightarrow> string + live_config option" where
  "from_env sync_secs auto paths host port db manager =
     bind_res (env_u64 sync_secs default_sync_interval_secs) (\<lambda>secs.
       if secs = 0 then Inr None
       else if secs mod 60 \<noteq> 0 then Inl ''CRYPTO_NAV_LIVE_SYNC_SECS must be a whole number of UTC minutes''
       else bind_res (case auto of EnvText s \<Rightarrow> parse_auto_reconcile (Some s) | EnvAbsent \<Rightarrow> parse_auto_reconcile None | EnvInvalid \<Rightarrow> Inl ''read'')
         (\<lambda>auto. Inr (Some \<lparr>cf_sync_interval_secs = secs, cf_auto_reconcile = auto, cf_path = paths,
            cf_redis_host = (case host of None \<Rightarrow> ''127.0.0.1'' | Some h \<Rightarrow> h), cf_redis_port = (case port of None \<Rightarrow> ''6379'' | Some p \<Rightarrow> p),
            cf_redis_db = (case db of None \<Rightarrow> ''0'' | Some d \<Rightarrow> d),
            cf_cta_manager_url = (case manager of None \<Rightarrow> ''http://127.0.0.1:18201'' | Some u \<Rightarrow> u)\<rparr>)))"

text \<open>A row of \<open>strategy_envs\<close>, and the query of the strategies kept up to date: each gets its place among those of its exchange.\<close>

record strategy_row =
  se_strategy :: live_strategy
  se_enabled :: bool
  se_host :: string
  se_sort_order :: int

definition live_slugs :: "string list" where
  "live_slugs = [''binance-intra-arb01'', ''binance_mm_alpha'', ''binance_exec_trade01'', ''binance_exec_trade02'', ''bybit_mm_alpha'',
     ''okex_mm_alpha'', ''bybit-intra-arb01'', ''bybit-intra-arb02'', ''bybit_fr_arb01'', ''bitget_fr_arb01'', ''bitget_fr_arb02'',
     ''bitget_fr_arb03'', ''gate_fr_arb01'', ''gate_fr_arb02'', ''gate_fr_arb03'', ''gate_fr_arb04'']"

definition eligible :: "strategy_row \<Rightarrow> bool" where
  "eligible r \<longleftrightarrow> se_enabled r \<and>
     (let s = se_strategy r
      in se_host r = ''local'' \<and> st_exchange s = ''binance'' \<and> st_strategy_kind s = ''funding_rate'' \<or>
         se_host r = ''local'' \<and> st_account_mode s = ''rapidx'' \<or> st_slug s \<in> set live_slugs)"

definition numbered :: "strategy_row list \<Rightarrow> live_strategy list" where
  "numbered rows = map (\<lambda>(i, r). (se_strategy r)\<lparr>st_schedule_offset_minutes := int i\<rparr>)
     (enumerate 0 (sort_key (\<lambda>r. (se_sort_order r, st_slug (se_strategy r))) rows))"

definition load_strategies :: "strategy_row list \<Rightarrow> live_strategy list" where
  "load_strategies rows =
     (let rows = filter eligible rows
      in concat (map (\<lambda>ex. numbered (filter (\<lambda>r. st_exchange (se_strategy r) = ex) rows))
           (sort (remdups (map (st_exchange \<circ> se_strategy) rows)))))"

text \<open>\<open>run\<close> starts a task for the strategies whose offset is within the interval.\<close>

definition scheduled :: "nat \<Rightarrow> live_strategy list \<Rightarrow> live_strategy list" where
  "scheduled interval_secs = filter (\<lambda>s. \<not> int (interval_secs div 60) \<le> st_schedule_offset_minutes s)"

definition live_i64 :: "string \<Rightarrow> int \<Rightarrow> string + int" where
  "live_i64 msg n = (if is_i64 n then Inr n else Inl msg)"

text \<open>The clock is the milliseconds since the epoch, when it is after the epoch.\<close>

definition delay_until_next_slot :: "int option \<Rightarrow> nat \<Rightarrow> int \<Rightarrow> string + int \<times> int" where
  "delay_until_next_slot clock interval_secs offset_minutes =
     (case clock of
        None \<Rightarrow> Inl ''system clock is before Unix epoch''
      | Some ms \<Rightarrow>
          bind_res (live_i64 ''system clock milliseconds overflow i64'' ms) (\<lambda>now_ms.
          bind_res (live_i64 ''sync interval milliseconds overflow i64'' (int interval_secs * 1000)) (\<lambda>interval_ms.
          bind_res (live_i64 ''schedule offset milliseconds overflow'' (offset_minutes * 60000)) (\<lambda>offset_ms.
            let elapsed = (now_ms - offset_ms) mod interval_ms; delay_ms = interval_ms - elapsed
            in bind_res (live_i64 ''next sync timestamp overflow'' (now_ms + delay_ms)) (\<lambda>next_sync_at_ms. Inr (delay_ms, next_sync_at_ms))))))"

section \<open>Symbols\<close>

definition find_text :: "string \<Rightarrow> string \<Rightarrow> nat option" where
  "find_text pat s = List.find (\<lambda>k. take (length pat) (drop k s) = pat) [0..<length s + 1 - length pat]"

definition clean_symbol_text :: "string \<Rightarrow> string" where
  "clean_symbol_text = filter is_ascii_alphanumeric"

definition asset_of :: "string \<Rightarrow> string" where
  "asset_of canonical =
     (case strip_suffix ''-USDT-SWAP'' canonical of
        Some stripped \<Rightarrow> stripped
      | None \<Rightarrow> (case find_text ''-USDT-'' canonical of
          Some index \<Rightarrow> take index canonical
        | None \<Rightarrow> (case strip_suffix ''-USDT'' canonical of
            Some stripped \<Rightarrow> stripped
          | None \<Rightarrow>
              let cleaned = clean_symbol_text canonical
              in if ends_with ''USDT'' cleaned \<and> 4 < length cleaned then take (length cleaned - 4) cleaned else cleaned)))"

definition normalize_online_symbol :: "string \<Rightarrow> string option" where
  "normalize_online_symbol v =
     (let upper = to_ascii_uppercase (str_trim v)
      in if upper = [] then None
         else
           let upper = (case split_once CHR ''@'' upper of Some (head, _) \<Rightarrow> str_trim head | None \<Rightarrow> upper);
               canonical = map (\<lambda>c. if c = CHR ''_'' \<or> c = CHR ''/'' then CHR ''-'' else c) upper;
               asset = clean_symbol_text (asset_of canonical)
           in if asset = [] then None else Some (asset @ ''USDT''))"

text \<open>A \<open>BTreeSet\<close> of texts, in order.\<close>

definition btree :: "string list \<Rightarrow> string list" where
  "btree xs = sort (remdups xs)"

definition merge_trade_symbols :: "string list \<Rightarrow> string list \<Rightarrow> string list" where
  "merge_trade_symbols online recent = btree (List.map_filter normalize_online_symbol (online @ recent))"

definition merge_cta_symbols :: "string list \<Rightarrow> string list \<Rightarrow> string list" where
  "merge_cta_symbols online stored = btree (filter (\<lambda>s. s \<noteq> []) (map str_trim (online @ stored)))"

definition recent_trade_symbol_lookback_ms :: int where "recent_trade_symbol_lookback_ms = 24 * 60 * 60 * 1000"

text \<open>The rows of the trades table are given with the value of the timestamp column.\<close>

definition load_recent_trade_symbols :: "string \<Rightarrow> string + string option \<Rightarrow> int \<Rightarrow> string + (int \<times> string option) list \<Rightarrow> string + string list" where
  "load_recent_trade_symbols schema time_column now_ms rows =
     (if \<not> valid_schema schema then Inl ''invalid strategy schema''
      else bind_res time_column (\<lambda>column.
        case column of
          None \<Rightarrow> Inr []
        | Some c \<Rightarrow>
            if c \<noteq> ''event_time_ms'' \<and> c \<noteq> ''ts'' then Inl ''unexpected trade timestamp column''
            else bind_res rows (\<lambda>rows.
              let start_ms = saturating_sub_i64 now_ms recent_trade_symbol_lookback_ms
              in Inr (merge_trade_symbols (List.map_filter snd (filter (\<lambda>(ts, _). start_ms \<le> ts) rows)) []))))"

definition load_stored_trade_symbols :: "string \<Rightarrow> string + (string + string option list) list \<Rightarrow> string + string list" where
  "load_stored_trade_symbols schema tables =
     (if \<not> valid_schema schema then Inl ''invalid strategy schema''
      else bind_res tables (\<lambda>tables. bind_res (map_res id tables) (\<lambda>rows. Inr (btree (List.map_filter id (concat rows))))))"

definition path_parts :: "string \<Rightarrow> string list" where
  "path_parts path = filter (\<lambda>c. c \<noteq> [] \<and> c \<noteq> ''.'') (split_by (\<lambda>c. c = CHR ''/'') path)"

definition env_prefix :: "string \<Rightarrow> string option" where
  "env_prefix path =
     (let parents = butlast (path_parts path)
      in if parents = [] \<or> last parents = ''..'' \<or> str_trim (last parents) = [] then None
         else Some (to_ascii_lowercase (str_trim (last parents))))"

definition fr_online_lists :: "string list" where
  "fr_online_lists = [''dump_symbols'', ''pos_dump_symbols'', ''fwd_trade_symbols'', ''bwd_trade_symbols'', ''unimmr_close_symbols'']"

definition intra_online_lists :: "string list" where
  "intra_online_lists = [''dump_symbols'', ''fwd_trade_symbols'', ''bwd_trade_symbols'']"

definition online_symbol_keys :: "live_strategy \<Rightarrow> string list + string list" where
  "online_symbol_keys s =
     (case env_prefix (st_env_path s) of
        None \<Rightarrow> Inl [''infer env prefix'']
      | Some prefix \<Rightarrow>
          let exchange = to_ascii_lowercase (str_trim (st_exchange s))
          in if exchange = [] then Inl [''empty exchange'']
             else if st_strategy_kind s = ''funding_rate''
             then Inr (map (\<lambda>l. prefix @ '':fr_'' @ l @ '':'' @ exchange @ ''-margin_'' @ exchange @ ''-futures'') fr_online_lists)
             else if st_strategy_kind s = ''intra_exchange''
             then Inr (map (\<lambda>l. prefix @ '':intra_'' @ l @ '':'' @ exchange) intra_online_lists)
             else Inl [''unsupported online symbol strategy kind''])"

definition mget_value :: "json \<Rightarrow> string list + string option" where
  "mget_value v = (case v of JNull \<Rightarrow> Inr None | JString s \<Rightarrow> Inr (Some s) | _ \<Rightarrow> Inl [''parse redis-cli JSON MGET response''])"

definition parse_redis_mget :: "(string \<Rightarrow> json option) \<Rightarrow> (json \<Rightarrow> string) \<Rightarrow> string \<Rightarrow> string list + string list" where
  "parse_redis_mget parse_json json_text stdout =
     (case parse_json stdout of
        Some (JArray vs) \<Rightarrow>
          bind_res (map_res mget_value vs) (\<lambda>values.
          bind_res (map_res (\<lambda>raw. case parse_json raw of Some (JArray xs) \<Rightarrow> Inr xs | _ \<Rightarrow> Inl [''parse online symbol Redis JSON list''])
              (List.map_filter id values)) (\<lambda>lists.
            Inr (btree (List.map_filter (\<lambda>v. normalize_online_symbol (case as_str v of Some s \<Rightarrow> s | None \<Rightarrow> json_text v)) (concat lists)))))
      | _ \<Rightarrow> Inl [''parse redis-cli JSON MGET response''])"

section \<open>Programs\<close>

type_synonym command = "program \<times> string list"

text \<open>How a command ends: it cannot be run, it is stopped after half an hour (only the alignment check is), or it exits with its status and
  what it printed.\<close>

datatype exit = NotRun string | TimedOut | Exited bool string string string

type_synonym command_log = "(command \<times> exit) list"

definition execute :: "(command_log \<Rightarrow> command \<Rightarrow> exit) \<Rightarrow> command \<Rightarrow> command_log \<Rightarrow> exit \<times> command_log" where
  "execute world c h = (world h c, h @ [(c, world h c)])"

definition last_line :: "string \<Rightarrow> string" where
  "last_line out =
     (case List.find (\<lambda>l. str_trim l \<noteq> []) (rev (split_by (\<lambda>c. c = CHR 0x0A) out)) of Some l \<Rightarrow> str_trim l | None \<Rightarrow> ''completed'')"

text \<open>An error is its chain of causes.\<close>

definition completed :: "live_config \<Rightarrow> program \<Rightarrow> exit \<Rightarrow> string list + string" where
  "completed cfg p e =
     (case e of
        NotRun cause \<Rightarrow> Inl [''run '' @ cf_path cfg p, cause]
      | TimedOut \<Rightarrow> Inl [''run '' @ cf_path cfg p, ''timed out'']
      | Exited ok status out err \<Rightarrow>
          if ok then Inr (last_line out) else Inl [cf_path cfg p @ '' exited with '' @ status @ '': '' @ str_trim err])"

definition run_sync_history ::
  "(command_log \<Rightarrow> command \<Rightarrow> exit) \<Rightarrow> live_config \<Rightarrow> string \<Rightarrow> string \<Rightarrow> string list \<Rightarrow> bool \<Rightarrow> command_log \<Rightarrow> (string list + string) \<times> command_log" where
  "run_sync_history world cfg slug dataset symbols full h =
     (let (e, h) = execute world (SyncHistory, [''--strategy'', slug, ''--dataset'', dataset] @ (if full then [''--full''] else []) @
            concat (map (\<lambda>s. [''--symbol'', s]) symbols)) h
      in (completed cfg SyncHistory e, h))"

definition run_incremental_or_bootstrap ::
  "(command_log \<Rightarrow> command \<Rightarrow> exit) \<Rightarrow> live_config \<Rightarrow> string \<Rightarrow> string \<Rightarrow> string list \<Rightarrow> command_log \<Rightarrow> (string list + string) \<times> command_log" where
  "run_incremental_or_bootstrap world cfg slug dataset symbols h =
     (let (r, h) = run_sync_history world cfg slug dataset symbols False h
      in (case r of
            Inl causes \<Rightarrow>
              if list_ex (has_window ''is not initialized'') causes then run_sync_history world cfg slug dataset symbols True h else (r, h)
          | Inr _ \<Rightarrow> (r, h)))"

record cta_symbol =
  cs_symbol :: string
  cs_first_fill_ts_us :: "int option"

definition cta_backfill_lookback_ms :: int where "cta_backfill_lookback_ms = 15 * 60 * 1000"

definition run_cta_symbol_backfill ::
  "(command_log \<Rightarrow> command \<Rightarrow> exit) \<Rightarrow> live_config \<Rightarrow> live_strategy \<Rightarrow> string \<Rightarrow> int option \<Rightarrow> command_log \<Rightarrow> (string list + string) \<times> command_log" where
  "run_cta_symbol_backfill world cfg s symbol first_fill_ts_us h =
     (let start = (case first_fill_ts_us of
            Some ts_us \<Rightarrow>
              if 0 < ts_us then [''--start-ms'', int_text (max (saturating_sub_i64 (ts_us div 1000) cta_backfill_lookback_ms) (st_st_ms s))]
              else [''--full'']
          | None \<Rightarrow> [''--full'']);
          (e, h) = execute world (SyncHistory,
            [''--strategy'', st_slug s, ''--dataset'', ''trades'', ''--symbol'', symbol, ''--no-advance-watermark''] @ start) h
      in (completed cfg SyncHistory e, h))"

fun backfill_cta_symbols ::
  "(command_log \<Rightarrow> command \<Rightarrow> exit) \<Rightarrow> live_config \<Rightarrow> live_strategy \<Rightarrow> cta_symbol list \<Rightarrow> string list \<Rightarrow> string list \<Rightarrow> command_log
    \<Rightarrow> string list \<times> command_log" where
  "backfill_cta_symbols world cfg s [] stored summaries h = (summaries, h)"
| "backfill_cta_symbols world cfg s (entry # entries) stored summaries h =
     (let symbol = str_trim (cs_symbol entry)
      in if symbol = [] \<or> symbol \<in> set stored then backfill_cta_symbols world cfg s entries stored summaries h
         else
           let (r, h) = run_cta_symbol_backfill world cfg s symbol (cs_first_fill_ts_us entry) h
           in (case r of
                 Inr summary \<Rightarrow> backfill_cta_symbols world cfg s entries stored (summaries @ [''backfill '' @ symbol @ '': '' @ summary]) h
               | Inl _ \<Rightarrow> backfill_cta_symbols world cfg s entries stored summaries h))"

record cta_source =
  cs_source_id :: string
  cs_symbols :: "cta_symbol list"

definition load_cta_manager_symbols :: "(string \<Rightarrow> string list + cta_source list) \<Rightarrow> live_config \<Rightarrow> live_strategy \<Rightarrow> string list + cta_symbol list" where
  "load_cta_manager_symbols manager cfg s =
     bind_res (manager (rev (dropWhile (\<lambda>c. c = CHR ''/'') (rev (cf_cta_manager_url cfg))) @ ''/api/symbols?sourceIds='' @ st_slug s))
       (\<lambda>sources. Inr (concat (map cs_symbols (filter (\<lambda>src. cs_source_id src = st_slug s) sources))))"

definition load_online_symbols ::
  "(command_log \<Rightarrow> command \<Rightarrow> exit) \<Rightarrow> (string \<Rightarrow> json option) \<Rightarrow> (json \<Rightarrow> string) \<Rightarrow> live_config \<Rightarrow> live_strategy \<Rightarrow> command_log \<Rightarrow> (string list + string list) \<times> command_log" where
  "load_online_symbols world parse_json json_text cfg s h =
     (case online_symbol_keys s of
        Inl e \<Rightarrow> (Inl e, h)
      | Inr keys \<Rightarrow>
          let (e, h) = execute world (RedisCli,
                [''-h'', cf_redis_host cfg, ''-p'', cf_redis_port cfg, ''-n'', cf_redis_db cfg, ''--json'', ''MGET''] @ keys) h
          in ((case e of
                 Exited ok status out err \<Rightarrow>
                   if ok then parse_redis_mget parse_json json_text out
                   else Inl [''redis MGET exited with '' @ status @ '': '' @ str_trim err]
               | NotRun cause \<Rightarrow> Inl [''run '' @ cf_path cfg RedisCli, cause]
               | TimedOut \<Rightarrow> Inl [''run '' @ cf_path cfg RedisCli, ''timed out'']), h))"

record alignment_failure =
  af_reason :: string
  af_mismatch :: bool

definition line_starts :: "string \<Rightarrow> string \<Rightarrow> bool" where
  "line_starts prefix s \<longleftrightarrow> take (length prefix) s = prefix"

definition run_alignment_check ::
  "(command_log \<Rightarrow> command \<Rightarrow> exit) \<Rightarrow> live_config \<Rightarrow> string \<Rightarrow> command_log \<Rightarrow> (alignment_failure + string) \<times> command_log" where
  "run_alignment_check world cfg slug h =
     (let (e, h) = execute world (AlignmentCheck, [''--strategy'', slug, ''--skip-sync'', ''--cleanup-on-success'']) h
      in ((case e of
             TimedOut \<Rightarrow> Inl \<lparr>af_reason = cf_path cfg AlignmentCheck @ '' timed out after 1800 seconds for '' @ slug, af_mismatch = False\<rparr>
           | NotRun cause \<Rightarrow> Inl \<lparr>af_reason = ''run '' @ cf_path cfg AlignmentCheck @ '' for '' @ slug @ '': '' @ cause, af_mismatch = False\<rparr>
           | Exited ok status out err \<Rightarrow>
               if ok then Inr (last_line out)
               else Inl \<lparr>af_reason = cf_path cfg AlignmentCheck @ '' exited with '' @ status @ '': stdout='' @ str_trim out @ '' stderr='' @ str_trim err,
                 af_mismatch = list_ex (line_starts (slug @ '': aligned=false '')) (split_by (\<lambda>c. c = CHR 0x0A) out)\<rparr>), h))"

definition run_order_synthesis :: "(command_log \<Rightarrow> command \<Rightarrow> exit) \<Rightarrow> live_config \<Rightarrow> string \<Rightarrow> command_log \<Rightarrow> (string list + string) \<times> command_log" where
  "run_order_synthesis world cfg slug h =
     (let (e, h) = execute world (OrderSynthesis, [''--strategy'', slug]) h in (completed cfg OrderSynthesis e, h))"

section \<open>One pass over a strategy\<close>

definition account_datasets :: "live_strategy \<Rightarrow> string list" where
  "account_datasets s =
     (if st_account_mode s = ''rapidx'' then [''funding'', ''interest'']
      else if st_strategy_kind s = ''funding_rate'' \<and> st_exchange s \<in> {''binance'', ''gate''} then [''funding'', ''interest'', ''liquidations'']
      else if st_strategy_kind s = ''funding_rate'' \<and> st_exchange s \<in> {''bitget'', ''bybit''} then [''funding'', ''interest'']
      else if st_strategy_kind s = ''intra_exchange'' \<and> st_exchange s \<in> {''binance'', ''bybit''} then [''funding'', ''interest'']
      else [])"

definition alignment_check_enabled :: "string \<Rightarrow> bool \<Rightarrow> bool" where
  "alignment_check_enabled slug automatic_enabled \<longleftrightarrow> automatic_enabled \<and>
     slug \<in> {''binance_mm_alpha'', ''bybit_mm_alpha'', ''binance-intra-arb01'', ''bybit-intra-arb01'', ''bybit-intra-arb02''}"

definition order_synthesis_enabled :: "string \<Rightarrow> bool" where
  "order_synthesis_enabled slug \<longleftrightarrow> slug \<in> {''binance-intra-arb01'', ''bybit-intra-arb01'', ''bybit-intra-arb02''}"

definition uses_online_symbols :: "live_strategy \<Rightarrow> bool" where
  "uses_online_symbols s \<longleftrightarrow> st_exchange s = ''binance'' \<and> st_strategy_kind s \<noteq> ''market_making'' \<and> st_account_mode s \<noteq> ''rapidx''"

record sync_report =
  sy_slug :: string
  sy_symbol_count :: nat
  sy_summaries :: "string list"
  sy_alignment_summary :: "string option"
  sy_alignment_failure :: "alignment_failure option"
  sy_synthesis_summary :: "string option"
  sy_failures :: "string list"

fun chain_text :: "string list \<Rightarrow> string" where
  "chain_text [] = []"
| "chain_text [c] = c"
| "chain_text (c # cs) = c @ '': '' @ chain_text cs"

text \<open>What a pass takes from outside: the answers of the CTA manager, and \<open>serde_json\<close>.\<close>

record outside =
  ou_manager :: "string \<Rightarrow> string list + cta_source list"
  ou_parse_json :: "string \<Rightarrow> json option"
  ou_json_text :: "json \<Rightarrow> string"

text \<open>The symbols whose trades are loaded, for a strategy that needs them.\<close>

definition trade_symbols ::
  "(command_log \<Rightarrow> command \<Rightarrow> exit) \<Rightarrow> outside \<Rightarrow> live_config \<Rightarrow> live_strategy \<Rightarrow> string list \<Rightarrow> command_log \<Rightarrow> string list \<times> string list \<times> command_log" where
  "trade_symbols world ou cfg s recent_symbols h =
     (if st_strategy_kind s = ''cta''
      then (case load_cta_manager_symbols (ou_manager ou) cfg s of
              Inl _ \<Rightarrow> (merge_cta_symbols [] recent_symbols, [], h)
            | Inr entries \<Rightarrow>
                let (summaries, h) = (if recent_symbols \<noteq> [] then backfill_cta_symbols world cfg s entries recent_symbols [] h else ([], h))
                in (merge_cta_symbols (map cs_symbol entries) recent_symbols, summaries, h))
      else
        let (r, h) = load_online_symbols world (ou_parse_json ou) (ou_json_text ou) cfg s h;
            online = (case r of Inr symbols \<Rightarrow> symbols | Inl _ \<Rightarrow> [])
        in (merge_trade_symbols online recent_symbols, [], h))"

fun live_datasets ::
  "(command_log \<Rightarrow> command \<Rightarrow> exit) \<Rightarrow> live_config \<Rightarrow> string \<Rightarrow> string list \<Rightarrow> string list \<times> string list \<Rightarrow> command_log \<Rightarrow> (string list \<times> string list) \<times> command_log" where
  "live_datasets world cfg slug [] finished h = (finished, h)"
| "live_datasets world cfg slug (dataset # ds) (summaries, failures) h =
     (let (r, h) = run_incremental_or_bootstrap world cfg slug dataset [] h
      in live_datasets world cfg slug ds
           (case r of Inr summary \<Rightarrow> (summaries @ [summary], failures) | Inl e \<Rightarrow> (summaries, failures @ [dataset @ '': '' @ chain_text e])) h)"

text \<open>The steps of \<open>sync_strategy\<close>: the trades, then after the account datasets the alignment check and the synthesis.\<close>

definition live_trades ::
  "(command_log \<Rightarrow> command \<Rightarrow> exit) \<Rightarrow> live_config \<Rightarrow> live_strategy \<Rightarrow> string list \<Rightarrow> string list \<Rightarrow> command_log \<Rightarrow> bool \<times> (string list \<times> string list) \<times> command_log" where
  "live_trades world cfg s symbols summaries h =
     (if \<not> uses_online_symbols s \<or> symbols \<noteq> []
      then let (r, h) = run_incremental_or_bootstrap world cfg (st_slug s) ''trades'' symbols h
           in (case r of
                 Inr summary \<Rightarrow> (True, (summaries @ [summary], []), h)
               | Inl e \<Rightarrow> (False, (summaries, [''trades: '' @ chain_text e]), h))
      else (False, (summaries, []), h))"

definition check_alignment ::
  "(command_log \<Rightarrow> command \<Rightarrow> exit) \<Rightarrow> live_config \<Rightarrow> string \<Rightarrow> bool \<Rightarrow> bool \<Rightarrow> command_log \<Rightarrow> (bool \<times> alignment_failure option \<times> string option) \<times> command_log" where
  "check_alignment world cfg slug automatic trades_succeeded h =
     (if trades_succeeded \<and> alignment_check_enabled slug automatic
      then let (r, h) = run_alignment_check world cfg slug h
           in ((case r of Inr summary \<Rightarrow> (True, None, Some summary) | Inl f \<Rightarrow> (False, Some f, Some (''failed: '' @ af_reason f))), h)
      else ((False, None, None), h))"

definition synthesize_orders ::
  "(command_log \<Rightarrow> command \<Rightarrow> exit) \<Rightarrow> live_config \<Rightarrow> string \<Rightarrow> bool \<Rightarrow> string list \<Rightarrow> command_log \<Rightarrow> (string option \<times> string list) \<times> command_log" where
  "synthesize_orders world cfg slug alignment_succeeded failures h =
     (if alignment_succeeded \<and> order_synthesis_enabled slug
      then let (r, h) = run_order_synthesis world cfg slug h
           in ((case r of
                  Inr summary \<Rightarrow> (Some summary, failures)
                | Inl e \<Rightarrow> (Some (''failed: '' @ chain_text e), failures @ [''order synthesis: '' @ chain_text e])), h)
      else ((None, failures), h))"

definition live_sync ::
  "(command_log \<Rightarrow> command \<Rightarrow> exit) \<Rightarrow> outside \<Rightarrow> live_config \<Rightarrow> live_strategy \<Rightarrow> bool \<Rightarrow> string list \<Rightarrow> command_log \<Rightarrow> sync_report \<times> command_log" where
  "live_sync world ou cfg s automatic recent_symbols h =
     (let (symbols, summaries, h) = (if uses_online_symbols s then trade_symbols world ou cfg s recent_symbols h else ([], [], h));
          (trades_succeeded, outcome, h) = live_trades world cfg s symbols summaries h;
          ((summaries, failures), h) = live_datasets world cfg (st_slug s) (account_datasets s) outcome h;
          ((alignment_succeeded, failure, alignment_summary), h) = check_alignment world cfg (st_slug s) automatic trades_succeeded h;
          ((synthesis_summary, failures), h) = synthesize_orders world cfg (st_slug s) alignment_succeeded failures h
      in (\<lparr>sy_slug = st_slug s, sy_symbol_count = length symbols, sy_summaries = summaries, sy_alignment_summary = alignment_summary,
           sy_alignment_failure = failure, sy_synthesis_summary = synthesis_summary, sy_failures = failures\<rparr>, h))"

section \<open>The switch of the alignment check\<close>

text \<open>A row of \<open>rocksdb_alignment_status\<close>, without its timestamps.\<close>

record alignment_row =
  al_state :: string
  al_phase :: string
  al_progress :: int
  al_automatic_enabled :: bool
  al_message :: "string option"

definition persist_alignment_failure :: "alignment_row option \<Rightarrow> alignment_failure \<Rightarrow> alignment_row" where
  "persist_alignment_failure row failure =
     (let message = take 1000 (af_reason failure); new_state = (if af_mismatch failure then ''mismatch'' else ''failed'')
      in \<lparr>al_state = new_state, al_phase = ''complete'', al_progress = 100, al_automatic_enabled = False,
          al_message = (case row of
              Some old \<Rightarrow> if new_state = ''mismatch'' \<and> al_state old = ''mismatch'' then al_message old else Some message
            | None \<Rightarrow> Some message)\<rparr>)"

definition disable_after_alignment_failure :: "bool \<Rightarrow> alignment_failure option \<Rightarrow> alignment_row option \<Rightarrow> alignment_row option" where
  "disable_after_alignment_failure stored failure row =
     (case failure of None \<Rightarrow> row | Some f \<Rightarrow> if stored then Some (persist_alignment_failure row f) else row)"

definition load_automatic_alignment_enabled :: "alignment_row option \<Rightarrow> bool" where
  "load_automatic_alignment_enabled row = (case row of None \<Rightarrow> True | Some r \<Rightarrow> al_automatic_enabled r)"

text \<open>What the database answers in a pass: whether the switch can be read, the symbols, and whether a failure can be stored.\<close>

record pass_answers =
  pa_switch_read :: bool
  pa_recent :: "string + string list"
  pa_stored :: "string + string list"
  pa_persisted :: bool

text \<open>A round of \<open>run_strategy\<close> after its delay.\<close>

definition live_pass ::
  "(command_log \<Rightarrow> command \<Rightarrow> exit) \<Rightarrow> outside \<Rightarrow> live_config \<Rightarrow> live_strategy \<Rightarrow> pass_answers \<Rightarrow> alignment_row option \<times> command_log
    \<Rightarrow> sync_report \<times> alignment_row option \<times> command_log" where
  "live_pass world ou cfg s pa = (\<lambda>(row, h).
     let automatic = cf_auto_reconcile cfg \<and> pa_switch_read pa \<and> load_automatic_alignment_enabled row;
         recent = (if uses_online_symbols s
           then (case (if st_strategy_kind s = ''cta'' then pa_stored pa else pa_recent pa) of Inr symbols \<Rightarrow> symbols | Inl _ \<Rightarrow> [])
           else []);
         (report, h) = live_sync world ou cfg s automatic recent h
     in (report, disable_after_alignment_failure (pa_persisted pa) (sy_alignment_failure report) row, h))"

fun live_passes ::
  "(command_log \<Rightarrow> command \<Rightarrow> exit) \<Rightarrow> outside \<Rightarrow> live_config \<Rightarrow> live_strategy \<Rightarrow> pass_answers list \<Rightarrow> alignment_row option \<times> command_log \<Rightarrow> alignment_row option \<times> command_log" where
  "live_passes world ou cfg s [] st = st"
| "live_passes world ou cfg s (pa # pas) st = (let (report, st) = live_pass world ou cfg s pa st in live_passes world ou cfg s pas st)"

section \<open>What a pass runs\<close>

definition succeeded :: "exit \<Rightarrow> bool" where
  "succeeded e = (case e of Exited ok _ _ _ \<Rightarrow> ok | _ \<Rightarrow> False)"

definition loads_dataset :: "string \<Rightarrow> string \<Rightarrow> command \<Rightarrow> bool" where
  "loads_dataset slug dataset c \<longleftrightarrow> fst c = SyncHistory \<and> take 4 (snd c) = [''--strategy'', slug, ''--dataset'', dataset]"

text \<open>A command that moves no watermark: asking for the symbols, or loading the past of one symbol.\<close>

definition moves_no_watermark :: "command \<Rightarrow> bool" where
  "moves_no_watermark c \<longleftrightarrow> fst c = RedisCli \<or> fst c = SyncHistory \<and> ''--no-advance-watermark'' \<in> set (snd c)"

lemma completed_ok: "completed cfg p e = Inr s \<Longrightarrow> succeeded e"
  by (auto simp: completed_def succeeded_def split: exit.splits if_splits)

lemma run_sync_history_runs:
  assumes "run_sync_history world cfg slug dataset symbols full h = (r, h')"
  shows "\<exists>c e. h' = h @ [(c, e)] \<and> loads_dataset slug dataset c \<and> (\<forall>s. r = Inr s \<longrightarrow> succeeded e)"
  using assms completed_ok by (auto simp: run_sync_history_def execute_def loads_dataset_def Let_def)

lemma run_incremental_runs:
  assumes "run_incremental_or_bootstrap world cfg slug dataset symbols h = (r, h')"
  shows "\<exists>new. h' = h @ new \<and> new \<noteq> [] \<and> (\<forall>(c, e) \<in> set new. loads_dataset slug dataset c) \<and> (\<forall>s. r = Inr s \<longrightarrow> succeeded (snd (last new)))"
proof -
  obtain r1 h1 where 1: "run_sync_history world cfg slug dataset symbols False h = (r1, h1)" by fastforce
  obtain c1 e1 where n1: "h1 = h @ [(c1, e1)]" "loads_dataset slug dataset c1" "\<forall>s. r1 = Inr s \<longrightarrow> succeeded e1"
    using run_sync_history_runs [OF 1] by blast
  obtain r2 h2 where 2: "run_sync_history world cfg slug dataset symbols True h1 = (r2, h2)" by fastforce
  obtain c2 e2 where n2: "h2 = h1 @ [(c2, e2)]" "loads_dataset slug dataset c2" "\<forall>s. r2 = Inr s \<longrightarrow> succeeded e2"
    using run_sync_history_runs [OF 2] by blast
  have "(r, h') = (r1, h1) \<or> (r, h') = (r2, h2)"
    using assms by (auto simp: run_incremental_or_bootstrap_def Let_def 1 2 split: sum.splits if_splits)
  then show ?thesis
  proof
    assume "(r, h') = (r1, h1)"
    then show ?thesis using n1 by (intro exI [of _ "[(c1, e1)]"]) simp
  next
    assume "(r, h') = (r2, h2)"
    then show ?thesis using n1 n2 by (intro exI [of _ "[(c1, e1), (c2, e2)]"]) simp
  qed
qed

lemma backfill_runs:
  "backfill_cta_symbols world cfg s entries stored summaries h = (summaries', h') \<Longrightarrow>
    \<exists>new. h' = h @ new \<and> (\<forall>(c, e) \<in> set new. moves_no_watermark c)"
proof (induction world cfg s entries stored summaries h rule: backfill_cta_symbols.induct)
  case (2 world cfg s entry entries stored summaries h)
  let ?symbol = "str_trim (cs_symbol entry)"
  show ?case
  proof (cases "?symbol = [] \<or> ?symbol \<in> set stored")
    case True
    then show ?thesis using "2.IH"(1) "2.prems" by (simp add: Let_def)
  next
    case False
    obtain r h1 where 1: "run_cta_symbol_backfill world cfg s ?symbol (cs_first_fill_ts_us entry) h = (r, h1)" by fastforce
    then obtain c e where c: "h1 = h @ [(c, e)]" "moves_no_watermark c"
      by (auto simp: run_cta_symbol_backfill_def execute_def moves_no_watermark_def Let_def)
    obtain sm where rest: "backfill_cta_symbols world cfg s entries stored sm h1 = (summaries', h')"
        "\<exists>new. h' = h1 @ new \<and> (\<forall>(c, e) \<in> set new. moves_no_watermark c)"
      using "2.IH"(2,3) [OF refl False 1 [symmetric]] "2.prems" False 1 by (cases r) (auto simp: Let_def)
    then show ?thesis using c by auto
  qed
qed simp

lemma load_online_runs:
  "load_online_symbols world pj jt cfg s h = (r, h') \<Longrightarrow> \<exists>new. h' = h @ new \<and> (\<forall>(c, e) \<in> set new. moves_no_watermark c)"
  by (auto simp: load_online_symbols_def execute_def moves_no_watermark_def Let_def split: sum.splits)

lemma trade_symbols_runs:
  assumes "trade_symbols world ou cfg s recent h = (symbols, summaries, h')"
  shows "\<exists>new. h' = h @ new \<and> (\<forall>(c, e) \<in> set new. moves_no_watermark c)"
proof (cases "st_strategy_kind s = ''cta''")
  case True
  show ?thesis
  proof (cases "load_cta_manager_symbols (ou_manager ou) cfg s")
    case (Inr entries)
    obtain sm h1 where b: "backfill_cta_symbols world cfg s entries recent [] h = (sm, h1)" by fastforce
    show ?thesis using assms True backfill_runs [OF b] by (auto simp: trade_symbols_def Inr b Let_def split: if_splits)
  qed (use assms True in \<open>auto simp: trade_symbols_def\<close>)
next
  case False
  obtain r h1 where l: "load_online_symbols world (ou_parse_json ou) (ou_json_text ou) cfg s h = (r, h1)" by fastforce
  show ?thesis using assms False load_online_runs [OF l] by (simp add: trade_symbols_def l Let_def)
qed

lemma live_datasets_runs:
  "live_datasets world cfg slug ds finished0 h = (finished', h') \<Longrightarrow> \<exists>new. h' = h @ new \<and> (\<forall>(c, e) \<in> set new. \<exists>d \<in> set ds. loads_dataset slug d c)"
proof (induction ds arbitrary: finished0 h)
  case (Cons d ds)
  obtain r h1 where 1: "run_incremental_or_bootstrap world cfg slug d [] h = (r, h1)" by fastforce
  obtain n1 where n1: "h1 = h @ n1" "\<forall>(c, e) \<in> set n1. loads_dataset slug d c" using run_incremental_runs [OF 1] by blast
  obtain d2 where "live_datasets world cfg slug ds d2 h1 = (finished', h')" using Cons.prems by (cases finished0) (auto simp: Let_def 1)
  from Cons.IH [OF this] obtain n2 where "h' = h1 @ n2" "\<forall>(c, e) \<in> set n2. \<exists>d \<in> set ds. loads_dataset slug d c" by blast
  then show ?case using n1 by (intro exI [of _ "n1 @ n2"]) fastforce
qed simp

lemma run_alignment_check_runs:
  assumes "run_alignment_check world cfg slug h = (r, h')"
  shows "\<exists>e. h' = h @ [((AlignmentCheck, [''--strategy'', slug, ''--skip-sync'', ''--cleanup-on-success'']), e)] \<and> (succeeded e \<longleftrightarrow> (\<exists>s. r = Inr s))"
  using assms by (auto simp: run_alignment_check_def execute_def succeeded_def Let_def split: exit.splits if_splits)

lemma run_order_synthesis_runs:
  assumes "run_order_synthesis world cfg slug h = (r, h')"
  shows "\<exists>e. h' = h @ [((OrderSynthesis, [''--strategy'', slug]), e)]"
  using assms by (auto simp: run_order_synthesis_def execute_def Let_def)

text \<open>The commands of a pass: finding symbols, then the trades, the account datasets, the alignment check and the synthesis, each of
  the last two only after what it needs.\<close>

definition pass_shape :: "live_strategy \<Rightarrow> bool \<Rightarrow> sync_report \<Rightarrow> command_log \<Rightarrow> command_log \<Rightarrow> command_log \<Rightarrow> command_log \<Rightarrow> command_log \<Rightarrow> bool" where
  "pass_shape s automatic report before trades accounts align synth \<longleftrightarrow>
     (\<forall>(c, e) \<in> set before. moves_no_watermark c) \<and>
     (\<forall>(c, e) \<in> set trades. loads_dataset (st_slug s) ''trades'' c) \<and>
     (\<forall>(c, e) \<in> set accounts. \<exists>d \<in> set (account_datasets s). loads_dataset (st_slug s) d c) \<and>
     (align \<noteq> [] \<longrightarrow> alignment_check_enabled (st_slug s) automatic \<and> trades \<noteq> [] \<and> succeeded (snd (last trades)) \<and>
        (\<exists>e. align = [((AlignmentCheck, [''--strategy'', st_slug s, ''--skip-sync'', ''--cleanup-on-success'']), e)])) \<and>
     (synth \<noteq> [] \<longrightarrow> order_synthesis_enabled (st_slug s) \<and> align \<noteq> [] \<and> succeeded (snd (last align)) \<and>
        (\<exists>e. synth = [((OrderSynthesis, [''--strategy'', st_slug s]), e)])) \<and>
     (sy_alignment_failure report \<noteq> None \<longleftrightarrow> align \<noteq> [] \<and> \<not> succeeded (snd (last align)))"

lemma live_trades_runs:
  assumes "live_trades world cfg s symbols sm h = (ok, outcome, h')"
  shows "\<exists>new. h' = h @ new \<and> (\<forall>(c, e) \<in> set new. loads_dataset (st_slug s) ''trades'' c) \<and> (ok \<longrightarrow> new \<noteq> [] \<and> succeeded (snd (last new)))"
proof (cases "\<not> uses_online_symbols s \<or> symbols \<noteq> []")
  case True
  obtain r hh where r: "run_incremental_or_bootstrap world cfg (st_slug s) ''trades'' symbols h = (r, hh)" by fastforce
  show ?thesis using run_incremental_runs [OF r] assms True by (cases r) (auto simp: live_trades_def r)
qed (use assms in \<open>auto simp: live_trades_def\<close>)

lemma check_alignment_runs:
  assumes "check_alignment world cfg slug automatic ok h = ((aok, failure, summary), h')"
  shows "\<exists>new. h' = h @ new \<and> (new \<noteq> [] \<longrightarrow> alignment_check_enabled slug automatic \<and> ok \<and>
      (\<exists>e. new = [((AlignmentCheck, [''--strategy'', slug, ''--skip-sync'', ''--cleanup-on-success'']), e)])) \<and>
    (aok \<longleftrightarrow> new \<noteq> [] \<and> succeeded (snd (last new))) \<and> (failure \<noteq> None \<longleftrightarrow> new \<noteq> [] \<and> \<not> succeeded (snd (last new)))"
proof (cases "ok \<and> alignment_check_enabled slug automatic")
  case True
  let ?c = "(AlignmentCheck, [''--strategy'', slug, ''--skip-sync'', ''--cleanup-on-success''])"
  obtain r hh where r: "run_alignment_check world cfg slug h = (r, hh)" by fastforce
  from run_alignment_check_runs [OF r] obtain e where e: "hh = h @ [(?c, e)]" "succeeded e \<longleftrightarrow> (\<exists>s. r = Inr s)" by blast
  show ?thesis using assms True e by (intro exI [of _ "[(?c, e)]"]) (cases r; auto simp: check_alignment_def r)
qed (use assms in \<open>auto simp: check_alignment_def\<close>)

lemma synthesize_orders_runs:
  assumes "synthesize_orders world cfg slug aok failures h = (outcome, h')"
  shows "\<exists>new. h' = h @ new \<and> (new \<noteq> [] \<longrightarrow> order_synthesis_enabled slug \<and> aok \<and> (\<exists>e. new = [((OrderSynthesis, [''--strategy'', slug]), e)]))"
proof (cases "aok \<and> order_synthesis_enabled slug")
  case True
  obtain r hh where r: "run_order_synthesis world cfg slug h = (r, hh)" by fastforce
  show ?thesis using run_order_synthesis_runs [OF r] assms True by (cases r) (auto simp: synthesize_orders_def r)
qed (use assms in \<open>auto simp: synthesize_orders_def\<close>)

lemma live_sync_shape:
  assumes "live_sync world ou cfg s automatic recent h = (report, h')"
  shows "\<exists>before trades accounts align synth. h' = h @ before @ trades @ accounts @ align @ synth \<and>
    pass_shape s automatic report before trades accounts align synth"
proof -
  let ?slug = "st_slug s"
  obtain symbols sm0 h0 where s0: "(if uses_online_symbols s then trade_symbols world ou cfg s recent h else ([], [], h)) = (symbols, sm0, h0)"
    by (metis prod_cases3)
  have "\<exists>new. h0 = h @ new \<and> (\<forall>(c, e) \<in> set new. moves_no_watermark c)"
  proof (cases "uses_online_symbols s")
    case True
    then show ?thesis using s0 trade_symbols_runs [of world ou cfg s recent h symbols sm0 h0] by simp
  qed (use s0 in simp)
  then obtain before where b: "h0 = h @ before" "\<forall>(c, e) \<in> set before. moves_no_watermark c" by blast
  obtain ok out1 h1 where s1: "live_trades world cfg s symbols sm0 h0 = (ok, out1, h1)" by (metis prod_cases3)
  obtain trades where t: "h1 = h0 @ trades" "\<forall>(c, e) \<in> set trades. loads_dataset ?slug ''trades'' c"
    "ok \<longrightarrow> trades \<noteq> [] \<and> succeeded (snd (last trades))" using live_trades_runs [OF s1] by blast
  obtain sm2 fl2 h2 where s2: "live_datasets world cfg ?slug (account_datasets s) out1 h1 = ((sm2, fl2), h2)" by (metis surj_pair)
  obtain accounts where a: "h2 = h1 @ accounts" "\<forall>(c, e) \<in> set accounts. \<exists>d \<in> set (account_datasets s). loads_dataset ?slug d c"
    using live_datasets_runs [OF s2] by blast
  obtain aok af asm h3 where s3: "check_alignment world cfg ?slug automatic ok h2 = ((aok, af, asm), h3)" by (metis prod_cases3 surj_pair)
  obtain align where l: "h3 = h2 @ align" "align \<noteq> [] \<longrightarrow> alignment_check_enabled ?slug automatic \<and> ok \<and>
      (\<exists>e. align = [((AlignmentCheck, [''--strategy'', ?slug, ''--skip-sync'', ''--cleanup-on-success'']), e)])"
    "aok \<longleftrightarrow> align \<noteq> [] \<and> succeeded (snd (last align))" "af \<noteq> None \<longleftrightarrow> align \<noteq> [] \<and> \<not> succeeded (snd (last align))"
    using check_alignment_runs [OF s3] by (elim exE conjE) (rule that)
  obtain ssm fl3 h4 where s4: "synthesize_orders world cfg ?slug aok fl2 h3 = ((ssm, fl3), h4)" by (metis surj_pair)
  obtain synth where y: "h4 = h3 @ synth" "synth \<noteq> [] \<longrightarrow> order_synthesis_enabled ?slug \<and> aok \<and> (\<exists>e. synth = [((OrderSynthesis, [''--strategy'', ?slug]), e)])"
    using synthesize_orders_runs [OF s4] by blast
  have res: "h' = h4" "sy_alignment_failure report = af" using assms by (auto simp: live_sync_def Let_def s0 s1 s2 s3 s4)
  have "pass_shape s automatic report before trades accounts align synth"
    unfolding pass_shape_def res(2) using b(2) t(2,3) a(2) l(2,3,4) y(2) by blast
  moreover have "h' = h @ before @ trades @ accounts @ align @ synth" using b(1) t(1) a(1) l(1) y(1) res(1) by simp
  ultimately show ?thesis by blast
qed

lemma live_pass_shape:
  assumes "live_pass world ou cfg s pa (row, h) = (report, row', h')"
  shows "\<exists>before trades accounts align synth. h' = h @ before @ trades @ accounts @ align @ synth \<and>
      pass_shape s (cf_auto_reconcile cfg \<and> pa_switch_read pa \<and> load_automatic_alignment_enabled row) report before trades accounts align synth"
    and "row' = disable_after_alignment_failure (pa_persisted pa) (sy_alignment_failure report) row"
  using assms live_sync_shape by (auto simp: live_pass_def Let_def split: prod.splits)

text \<open>Commands that neither check the alignment nor synthesise orders.\<close>

definition only_loads :: "command_log \<Rightarrow> bool" where
  "only_loads h \<longleftrightarrow> (\<forall>(c, e) \<in> set h. fst c = SyncHistory \<or> fst c = RedisCli)"

lemma pass_without_switch:
  assumes "pass_shape s False report before trades accounts align synth"
  shows "only_loads (before @ trades @ accounts @ align @ synth)" "sy_alignment_failure report = None"
  using assms by (fastforce simp: pass_shape_def only_loads_def alignment_check_enabled_def moves_no_watermark_def loads_dataset_def)+

lemma live_passes_switched_off:
  assumes "live_passes world ou cfg s pas (row, h) = (row', h')" "\<not> load_automatic_alignment_enabled row"
  shows "row' = row \<and> (\<exists>later. h' = h @ later \<and> only_loads later)"
  using assms
proof (induction pas arbitrary: h)
  case Nil
  then show ?case by (simp add: only_loads_def)
next
  case (Cons pa pas)
  obtain report row1 h1 where 1: "live_pass world ou cfg s pa (row, h) = (report, row1, h1)" by (metis prod_cases3)
  from live_pass_shape(1) [OF 1] Cons.prems(2) obtain new where new: "h1 = h @ new" "only_loads new" "sy_alignment_failure report = None"
    using pass_without_switch by auto
  have "row1 = row" using live_pass_shape(2) [OF 1] new(3) by (simp add: disable_after_alignment_failure_def)
  then have "live_passes world ou cfg s pas (row, h1) = (row', h')" using Cons.prems(1) by (simp add: 1)
  from Cons.IH [OF this Cons.prems(2)] obtain later where "row' = row" "h' = h1 @ later" "only_loads later" by blast
  then show ?case using new by (auto simp: only_loads_def)
qed


text \<open>C21: Once a check fails and its failure is stored, the row says so and the switch is off, and no later pass checks the alignment or
  synthesises orders: they only load histories and ask for symbols.\<close>

theorem failed_alignment_stops:
  assumes "live_pass world ou cfg s pa (row, h) = (report, row1, h1)" "sy_alignment_failure report = Some f" "pa_persisted pa"
    and "live_passes world ou cfg s pas (row1, h1) = (row2, h2)"
  shows "row2 = row1 \<and> (\<exists>r. row1 = Some r \<and> \<not> al_automatic_enabled r \<and> al_state r = (if af_mismatch f then ''mismatch'' else ''failed'')) \<and>
    (\<exists>later. h2 = h1 @ later \<and> (\<forall>(c, e) \<in> set later. fst c = SyncHistory \<or> fst c = RedisCli))"
proof -
  have r: "row1 = Some (persist_alignment_failure row f)" using live_pass_shape(2) [OF assms(1)] assms(2,3) by (simp add: disable_after_alignment_failure_def)
  then have "\<not> load_automatic_alignment_enabled row1" by (simp add: load_automatic_alignment_enabled_def persist_alignment_failure_def Let_def)
  from live_passes_switched_off [OF assms(4) this] show ?thesis
    by (auto simp: r persist_alignment_failure_def Let_def only_loads_def)
qed

section \<open>Slots\<close>

lemma slot_spec:
  assumes "delay_until_next_slot clock interval_secs offset = Inr (delay, next_ms)"
  shows "\<exists>now. clock = Some now \<and> next_ms = now + delay \<and>
    (0 < interval_secs \<longrightarrow> 0 < delay \<and> delay \<le> int interval_secs * 1000 \<and> next_ms mod (int interval_secs * 1000) = offset * 60000 mod (int interval_secs * 1000))"
proof -
  let ?i = "int interval_secs * 1000"
  obtain now where now: "clock = Some now" "delay = ?i - (now - offset * 60000) mod ?i" "next_ms = now + delay"
    using assms by (auto simp: delay_until_next_slot_def live_i64_def Let_def split: option.splits if_splits)
  have "next_ms mod ?i = offset * 60000 mod ?i"
  proof -
    have "next_ms = now - (now - offset * 60000) mod ?i + ?i" using now by simp
    then have "next_ms mod ?i = (now - (now - offset * 60000) mod ?i) mod ?i" by (metis mod_add_self2)
    also have "\<dots> = (now - (now - offset * 60000)) mod ?i" by (simp add: mod_diff_right_eq)
    finally show ?thesis by simp
  qed
  moreover have "0 < delay \<and> delay \<le> ?i" if "0 < interval_secs"
    using pos_mod_bound [of ?i "now - offset * 60000"] pos_mod_sign [of ?i "now - offset * 60000"] that now(2) by simp
  ultimately show ?thesis using now by blast
qed

lemma numbered_nth: "i < length (numbered rows) \<Longrightarrow> st_schedule_offset_minutes (numbered rows ! i) = int i"
  by (simp add: numbered_def nth_enumerate_eq)

lemma numbered_exchange: "x \<in> set (numbered rows) \<Longrightarrow> \<forall>r \<in> set rows. st_exchange (se_strategy r) = ex \<Longrightarrow> st_exchange x = ex"
  by (fastforce simp: numbered_def enumerate_eq_zip dest: set_zip_rightD)

lemma distinct_concat_keyed:
  "distinct ks \<Longrightarrow> (\<And>k. distinct (map f (g k))) \<Longrightarrow> (\<And>k x. x \<in> set (g k) \<Longrightarrow> fst (f x) = k) \<Longrightarrow> distinct (map f (concat (map g ks)))"
proof (induction ks)
  case (Cons k ks)
  have "f x \<noteq> f y" if "x \<in> set (g k)" "y \<in> set (g k')" "k' \<in> set ks" for x y k'
    using Cons.prems(1) Cons.prems(3) [OF that(1)] Cons.prems(3) [OF that(2)] that(3) by auto
  then show ?case using Cons by (fastforce simp: distinct_append)
qed simp

lemma slots_distinct: "distinct (map (\<lambda>s. (st_exchange s, st_schedule_offset_minutes s)) (load_strategies rows))"
proof -
  let ?rows = "filter eligible rows" and ?f = "\<lambda>s. (st_exchange s, st_schedule_offset_minutes s)"
  let ?g = "\<lambda>ex. numbered (filter (\<lambda>r. st_exchange (se_strategy r) = ex) ?rows)"
  have "distinct (map ?f (?g ex))" for ex
    by (auto simp: distinct_conv_nth numbered_nth)
  then have "distinct (map ?f (concat (map ?g (sort (remdups (map (st_exchange \<circ> se_strategy) ?rows))))))"
    by (intro distinct_concat_keyed) (simp, blast, rule fst_conv [THEN trans], erule numbered_exchange, simp)
  then show ?thesis by (simp add: load_strategies_def Let_def)
qed

lemma offset_nonnegative: "s \<in> set (load_strategies rows) \<Longrightarrow> 0 \<le> st_schedule_offset_minutes s"
  by (auto simp: load_strategies_def numbered_def)

text \<open>C23: The slots of the strategies of one exchange never coincide: two strategies with a task are never due at the same millisecond,
  whenever each looks at the clock; a wait is positive and at most the interval.\<close>

theorem slots_apart:
  assumes "i < j" "j < length (scheduled secs (load_strategies rows))" "s = scheduled secs (load_strategies rows) ! i"
    and "u = scheduled secs (load_strategies rows) ! j" "st_exchange s = st_exchange u" "0 < secs"
    and "delay_until_next_slot clock secs (st_schedule_offset_minutes s) = Inr (d, n)"
    and "delay_until_next_slot clock' secs (st_schedule_offset_minutes u) = Inr (d', n')"
  shows "n \<noteq> n' \<and> 0 < d \<and> d \<le> int secs * 1000"
proof -
  let ?f = "\<lambda>s. (st_exchange s, st_schedule_offset_minutes s)" and ?l = "scheduled secs (load_strategies rows)"
  have "distinct (map ?f ?l)" using slots_distinct [of rows] by (auto simp: scheduled_def intro: distinct_map_filter)
  then have "map ?f ?l ! i \<noteq> map ?f ?l ! j" using assms(1,2) by (subst nth_eq_iff_index_eq) auto
  then have ne: "st_schedule_offset_minutes s \<noteq> st_schedule_offset_minutes u" using assms(1-5) by auto
  have m: "s \<in> set ?l" "u \<in> set ?l" using assms(1-4) by auto
  have in_range: "0 \<le> st_schedule_offset_minutes x * 60000 \<and> st_schedule_offset_minutes x * 60000 < int secs * 1000" if "x \<in> set ?l" for x
  proof -
    have "0 \<le> st_schedule_offset_minutes x" "st_schedule_offset_minutes x < int (secs div 60)"
      using that offset_nonnegative by (auto simp: scheduled_def)
    moreover have "int (secs div 60) * 60 \<le> int secs" by (metis div_times_less_eq_dividend of_nat_le_iff of_nat_mult of_nat_numeral)
    ultimately show ?thesis by simp
  qed
  have "st_schedule_offset_minutes x * 60000 mod (int secs * 1000) = st_schedule_offset_minutes x * 60000" if "x \<in> set ?l" for x
    using in_range [OF that] by simp
  then have "n mod (int secs * 1000) = st_schedule_offset_minutes s * 60000" "n' mod (int secs * 1000) = st_schedule_offset_minutes u * 60000"
    using slot_spec [OF assms(7)] slot_spec [OF assms(8)] assms(6) m by auto
  then show ?thesis using ne slot_spec [OF assms(7)] assms(6) by auto
qed

section \<open>A strategy to try it on\<close>

definition demo_config :: live_config where
  "demo_config = \<lparr>cf_sync_interval_secs = 900, cf_auto_reconcile = True, cf_path = (\<lambda>_. ''bin''), cf_redis_host = [], cf_redis_port = [],
     cf_redis_db = [], cf_cta_manager_url = []\<rparr>"

definition demo_strategy :: live_strategy where
  "demo_strategy = \<lparr>st_slug = ''bybit-intra-arb01'', st_db_schema = ''bybit_intra_arb01'', st_env_path = [], st_exchange = ''bybit'',
     st_account_mode = ''unified'', st_strategy_kind = ''intra_exchange'', st_st_ms = 0, st_schedule_offset_minutes = 0\<rparr>"

definition demo_outside :: outside where
  "demo_outside = \<lparr>ou_manager = (\<lambda>_. Inr []), ou_parse_json = (\<lambda>_. None), ou_json_text = (\<lambda>_. [])\<rparr>"

definition demo_answers :: pass_answers where
  "demo_answers = \<lparr>pa_switch_read = True, pa_recent = Inr [], pa_stored = Inr [], pa_persisted = True\<rparr>"

text \<open>Every program succeeds; or only the alignment check finds a mismatch.\<close>

definition demo_world :: "bool \<Rightarrow> command_log \<Rightarrow> command \<Rightarrow> exit" where
  "demo_world aligned h c =
     (if fst c = AlignmentCheck \<and> \<not> aligned then Exited False ''exit status: 1'' ''bybit-intra-arb01: aligned=false groups=1'' [] else Exited True ''exit status: 0'' ''ok'' [])"


lemma failed_alignment_stops_witness:
  "\<exists>report row h. live_pass (demo_world False) demo_outside demo_config demo_strategy demo_answers (None, []) = (report, row, h) \<and>
     fst (live_passes (demo_world False) demo_outside demo_config demo_strategy [demo_answers] (row, h)) = row \<and> map_option al_state row = Some ''mismatch''"
proof -
  obtain report row h where p: "live_pass (demo_world False) demo_outside demo_config demo_strategy demo_answers (None, []) = (report, row, h)"
    by (metis prod_cases3)
  have "map_option af_mismatch (sy_alignment_failure (fst (live_pass (demo_world False) demo_outside demo_config demo_strategy demo_answers (None, [])))) = Some True"
    by code_simp
  then obtain f where f: "sy_alignment_failure report = Some f" "af_mismatch f" by (auto simp: p)
  obtain row2 h2 where l: "live_passes (demo_world False) demo_outside demo_config demo_strategy [demo_answers] (row, h) = (row2, h2)" by fastforce
  have "pa_persisted demo_answers" by (simp add: demo_answers_def)
  from failed_alignment_stops [OF p f(1) this l] show ?thesis using p l f(2) by auto
qed

lemma slots_apart_witness:
  "\<exists>(s :: live_strategy) (u :: live_strategy) d n d' n'. delay_until_next_slot (Some 0) 900 (st_schedule_offset_minutes s) = Inr (d, n) \<and>
     delay_until_next_slot (Some 899999) 900 (st_schedule_offset_minutes u) = Inr (d', n') \<and> st_exchange s = st_exchange u \<and> n = 900000 \<and> n' \<noteq> n"
proof -
  let ?row = "\<lambda>n slug. \<lparr>se_strategy = demo_strategy\<lparr>st_slug := slug\<rparr>, se_enabled = True, se_host = ''sg'', se_sort_order = n\<rparr>"
  let ?rows = "[?row 1 ''bybit-intra-arb01'', ?row 2 ''bybit-intra-arb02'']"
  let ?l = "scheduled 900 (load_strategies ?rows)"
  have l: "?l = [demo_strategy, demo_strategy\<lparr>st_slug := ''bybit-intra-arb02'', st_schedule_offset_minutes := 1\<rparr>]"
    by (simp add: scheduled_def load_strategies_def eligible_def live_slugs_def numbered_def demo_strategy_def less_eq_prod_def Let_def)
  then have ex: "length ?l = 2" "st_exchange (?l ! 0) = ''bybit''" "st_exchange (?l ! 1) = ''bybit''" "st_schedule_offset_minutes (?l ! 0) = 0" "st_schedule_offset_minutes (?l ! 1) = 1"
    unfolding l by (simp_all add: demo_strategy_def)
  have d: "delay_until_next_slot (Some 0) 900 0 = Inr (900000, 900000)" "delay_until_next_slot (Some 899999) 900 1 = Inr (60001, 960000)" by code_simp+
  have "(900000 :: int) \<noteq> 960000"
    using slots_apart [of 0 1 900 ?rows "?l ! 0" "?l ! 1" "Some 0" 900000 900000 "Some 899999" 60001 960000] d ex by simp
  then show ?thesis using d ex by (intro exI [of _ "?l ! 0"] exI [of _ "?l ! 1"]) auto
qed


end
