(* ===== verification/Spec2Isabelle.thy ===== *)
theory Spec2Isabelle
  imports Prelude F64 FifoLoop FillEngine FifoPnl QuantityFifoPnl IntraOrderMatch MatchSpec MatchProperties RestDispatcher RestIpPool PnlState PnlSeries PnlCalculate PnlReport PnlOverview F64Text MarkPrices Json ContractMultipliers PnlInputs JsonFields TradeNormalizers TimeRange SyncHistory Pipeline ExchangeCommon BinanceClient CursorClients GateClient LtpClient HistoryExport Reconcile IntraSync IntraSynthesis IntraLatency LatencySync FrPositionLimits AccountRisk ReconcileCleanup LiveHistory
begin

text \<open>
  Verification library for crypto_nav_manager, a read-only net-asset-value service for crypto
  trading accounts.
\<close>

end
